(* ===== verification/Cuprum_Prelude.thy ===== *)
theory Cuprum_Prelude
  imports Main "HOL-Library.AList" "HOL-Library.Sublist" "HOL-Library.Multiset"
begin

text \<open>
  Shared vocabulary of the development: Python strings as lists of code points, results of
  functions that may raise, the generator-with-exceptions loop, and the generic list facts the
  component theories use.  The collections declared here are filled by the component theories and
  named by their proofs.
\<close>

named_theorems result_iff \<open>inverting a successful or failing computation\<close>
named_theorems invariant_intros \<open>an operation keeps the invariant of its component\<close>

section \<open>Strings\<close>

text \<open>
  A Python \<open>str\<close> is a sequence of Unicode code points, a \<open>bytes\<close> value a sequence of
  integers below 256.  Both are lists of \<open>nat\<close>; \<open>lit\<close> writes an ASCII literal.
\<close>

type_synonym ustr = "nat list"
type_synonym bytes = "nat list"

definition lit :: "string \<Rightarrow> ustr" where
  "lit s = map of_char s"

lemma lit_Nil [simp]: "lit [] = []"
  by (simp add: lit_def)

lemma lit_eq_Nil_iff [simp]: "lit s = [] \<longleftrightarrow> s = []"
  by (simp add: lit_def)

lemma length_lit [simp]: "length (lit s) = length s"
  by (simp add: lit_def)

text \<open>
  \<open>a in s\<close> for strings, \<open>s.startswith(a)\<close> and \<open>s.endswith(a)\<close> are \<open>sublist\<close>,
  \<open>prefix\<close> and \<open>suffix\<close> of HOL-Library.Sublist.  \<open>str_find\<close> is \<open>str.find\<close> of a single
  character, with \<open>None\<close> for Python's \<open>-1\<close>.
\<close>

fun str_find :: "'a \<Rightarrow> 'a list \<Rightarrow> nat option" where
  "str_find c [] = None"
| "str_find c (x # xs) = (if x = c then Some 0 else map_option Suc (str_find c xs))"

lemma str_find_None_iff: "str_find c s = None \<longleftrightarrow> c \<notin> set s"
  by (induction s) auto

lemma str_find_Some_iff:
  "str_find c s = Some i \<longleftrightarrow> i < length s \<and> s ! i = c \<and> c \<notin> set (take i s)"
proof (induction s arbitrary: i)
  case Nil
  then show ?case by simp
next
  case (Cons x xs)
  then show ?case by (cases i) auto
qed

text \<open>\<open>str(n)\<close> of a natural number: its decimal digits.\<close>

fun nat_digits :: "nat \<Rightarrow> ustr" where
  "nat_digits n = (if n < 10 then [48 + n] else nat_digits (n div 10) @ [48 + n mod 10])"

declare nat_digits.simps [simp del]

section \<open>Computations that may raise\<close>

text \<open>A raise is \<open>Inl\<close> with the error, a return is \<open>Inr\<close> with the value.\<close>

definition rbind :: "'e + 'a \<Rightarrow> ('a \<Rightarrow> 'e + 'b) \<Rightarrow> 'e + 'b" where
  "rbind r f = (case r of Inl e \<Rightarrow> Inl e | Inr x \<Rightarrow> f x)"

lemma rbind_simps [simp]:
  "rbind (Inl e) f = Inl e"
  "rbind (Inr x) f = f x"
  by (simp_all add: rbind_def)

lemma rbind_Inr_iff [result_iff]: "rbind r f = Inr y \<longleftrightarrow> (\<exists>x. r = Inr x \<and> f x = Inr y)"
  by (cases r) auto

lemma rbind_Inl_iff [result_iff]:
  "rbind r f = Inl e \<longleftrightarrow> r = Inl e \<or> (\<exists>x. r = Inr x \<and> f x = Inl e)"
  by (cases r) auto

text \<open>\<open>tuple(f(x) for x in xs)\<close>: the first element that raises ends the loop.\<close>

fun traverse :: "('a \<Rightarrow> 'e + 'b) \<Rightarrow> 'a list \<Rightarrow> 'e + 'b list" where
  "traverse f [] = Inr []"
| "traverse f (x # xs) = rbind (f x) (\<lambda>y. rbind (traverse f xs) (\<lambda>ys. Inr (y # ys)))"

lemma traverse_Inr_iff [result_iff]:
  "traverse f xs = Inr ys \<longleftrightarrow> list_all2 (\<lambda>x y. f x = Inr y) xs ys"
proof (induction xs arbitrary: ys)
  case Nil
  then show ?case by auto
next
  case (Cons x xs)
  then show ?case by (auto simp: result_iff list_all2_Cons1)
qed

lemma traverse_Inr_length: "traverse f xs = Inr ys \<Longrightarrow> length ys = length xs"
  by (auto simp: traverse_Inr_iff dest: list_all2_lengthD)

lemma traverse_Inr_set:
  "traverse f xs = Inr ys \<Longrightarrow> y \<in> set ys \<Longrightarrow> \<exists>x \<in> set xs. f x = Inr y"
  by (auto simp: traverse_Inr_iff list_all2_conv_all_nth in_set_conv_nth) (metis nth_mem)

section \<open>Lists\<close>

lemma suffix_single_iff: "suffix [x] xs \<longleftrightarrow> xs \<noteq> [] \<and> last xs = x"
  by (cases xs rule: rev_cases) (auto simp: suffix_def)

lemma nth_in_take: "j < i \<Longrightarrow> j < length s \<Longrightarrow> s ! j \<in> set (take i s)"
  by (auto simp: in_set_conv_nth)

lemma upt_split: "i \<le> j \<Longrightarrow> j \<le> k \<Longrightarrow> [i..<k] = [i..<j] @ [j..<k]"
  using upt_add_eq_append [of i j "k - j"] by simp

lemma drop_eq_suffix: "suffix (drop n xs) xs"
  by (simp add: suffix_drop)

lemma sum_list_map_filter_split:
  fixes f :: "'a \<Rightarrow> nat"
  shows "sum_list (map f (filter P xs)) + sum_list (map f (filter (\<lambda>x. \<not> P x) xs)) =
    sum_list (map f xs)"
  by (induction xs) auto

text \<open>The retained tail of a growing buffer, as \<open>del buf[:len(buf) - n]\<close> leaves it.\<close>

definition last_n :: "nat \<Rightarrow> 'a list \<Rightarrow> 'a list" where
  "last_n n xs = drop (length xs - n) xs"

lemma length_last_n [simp]: "length (last_n n xs) = min n (length xs)"
  by (simp add: last_n_def)

lemma last_n_all [simp]: "length xs \<le> n \<Longrightarrow> last_n n xs = xs"
  by (simp add: last_n_def)

lemma last_n_Nil [simp]: "last_n n [] = []"
  by (simp add: last_n_def)

lemma suffix_last_n: "suffix (last_n n xs) xs"
  by (simp add: last_n_def suffix_drop)

lemma last_n_append_last_n: "last_n n (last_n n xs @ ys) = last_n n (xs @ ys)"
proof (cases "length xs \<le> n")
  case True
  then show ?thesis by simp
next
  case False
  then show ?thesis
    by (simp add: last_n_def add.commute)
qed

section \<open>Incremental splitting as an interface\<close>

text \<open>
  A splitter consumes its input piece by piece and keeps a state; \<open>todo s t\<close> is what is still to be
  emitted when \<open>t\<close> is all the input to come.  The one law, that feeding a piece emits a prefix of
  it, makes the output independent of how the input is cut.
\<close>

locale incremental_splitter =
  fixes step :: "'s \<Rightarrow> 'c list \<Rightarrow> 'o list \<times> 's"
    and todo :: "'s \<Rightarrow> 'c list \<Rightarrow> 'o list"
    and ok :: "'s \<Rightarrow> bool"
  assumes ok_step: "ok s \<Longrightarrow> ok (snd (step s t))"
    and todo_step: "ok s \<Longrightarrow> todo s (t @ rest) = fst (step s t) @ todo (snd (step s t)) rest"
begin

fun run :: "'s \<Rightarrow> 'c list list \<Rightarrow> 'o list \<times> 's" where
  "run s [] = ([], s)"
| "run s (t # ts) = (let (out, s) = step s t; (more, s) = run s ts in (out @ more, s))"

lemma ok_run: "ok s \<Longrightarrow> ok (snd (run s ts))"
proof (induction ts arbitrary: s)
  case (Cons t ts)
  then show ?case
    using Cons.IH [OF ok_step [OF Cons.prems, of t]] by (simp add: case_prod_beta Let_def)
qed simp

lemma todo_run: "ok s \<Longrightarrow> todo s (concat ts @ rest) = fst (run s ts) @ todo (snd (run s ts)) rest"
proof (induction ts arbitrary: s)
  case (Cons t ts)
  then show ?case
    using Cons.IH [OF ok_step [OF Cons.prems, of t]] todo_step [OF Cons.prems, of t "concat ts @ rest"]
    by (simp add: case_prod_beta Let_def)
qed simp

lemma drain_chunk_invariant:
  "ok s \<Longrightarrow> fst (run s ts) @ todo (snd (run s ts)) [] = todo s (concat ts)"
  using todo_run [of s ts "[]"] by simp

end

end
