(* ===== verification/Py_Dict.thy ===== *)
theory Py_Dict
  imports Cuprum_Prelude
begin

text \<open>
  Python dictionaries: insertion-ordered association lists with distinct keys.  Storing under an
  existing key replaces the value in place, storing under a new key appends, exactly as
  \<open>AList.update\<close> does; \<open>dict.pop(k, None)\<close> is \<open>AList.delete\<close>.
\<close>

type_synonym ('k, 'v) pydict = "('k \<times> 'v) list"

definition dict_ok :: "('k, 'v) pydict \<Rightarrow> bool" where
  "dict_ok d \<longleftrightarrow> distinct (map fst d)"

definition dict_set :: "'k \<Rightarrow> 'v \<Rightarrow> ('k, 'v) pydict \<Rightarrow> ('k, 'v) pydict" where
  "dict_set k v d = AList.update k v d"

definition dict_pop :: "'k \<Rightarrow> ('k, 'v) pydict \<Rightarrow> ('k, 'v) pydict" where
  "dict_pop k d = AList.delete k d"

text \<open>\<open>d.update(e)\<close>: the entries of \<open>e\<close> are stored one by one, in their order.\<close>

fun dict_update :: "('k, 'v) pydict \<Rightarrow> ('k, 'v) pydict \<Rightarrow> ('k, 'v) pydict" where
  "dict_update d [] = d"
| "dict_update d ((k, v) # e) = dict_update (dict_set k v d) e"

text \<open>\<open>dict(e)\<close>: a fresh copy.\<close>

definition dict_copy :: "('k, 'v) pydict \<Rightarrow> ('k, 'v) pydict" where
  "dict_copy e = dict_update [] e"

section \<open>Lookups\<close>

lemma map_of_dict_set [simp]: "map_of (dict_set k v d) = (map_of d)(k \<mapsto> v)"
  by (simp add: dict_set_def update_conv')

lemma map_of_dict_pop [simp]: "map_of (dict_pop k d) = (map_of d)(k := None)"
  by (simp add: dict_pop_def delete_conv')

lemma dict_ok_Nil [simp]: "dict_ok []"
  by (simp add: dict_ok_def)

lemma dict_ok_Cons [simp]:
  "dict_ok ((k, v) # d) \<longleftrightarrow> k \<notin> fst ` set d \<and> dict_ok d"
  by (simp add: dict_ok_def)

lemma dict_ok_set [simp]: "dict_ok d \<Longrightarrow> dict_ok (dict_set k v d)"
  by (simp add: dict_ok_def dict_set_def distinct_update)

lemma dict_ok_pop [simp]: "dict_ok d \<Longrightarrow> dict_ok (dict_pop k d)"
  by (simp add: dict_ok_def dict_pop_def distinct_delete)

lemma dict_ok_update [simp]: "dict_ok d \<Longrightarrow> dict_ok (dict_update d e)"
  by (induction d e rule: dict_update.induct) auto

lemma map_of_dict_update:
  "dict_ok e \<Longrightarrow> map_of (dict_update d e) = map_of d ++ map_of e"
proof (induction d e rule: dict_update.induct)
  case (2 d k v e)
  from "2.prems" have "map_of e k = None"
    by (simp add: map_of_eq_None_iff)
  with 2 show ?case
    by (auto simp: map_add_def fun_eq_iff split: option.splits)
qed simp

lemma dict_set_new: "k \<notin> fst ` set d \<Longrightarrow> dict_set k v d = d @ [(k, v)]"
  by (induction d) (auto simp: dict_set_def)

lemma dict_update_new:
  "dict_ok e \<Longrightarrow> fst ` set d \<inter> fst ` set e = {} \<Longrightarrow> dict_update d e = d @ e"
proof (induction d e rule: dict_update.induct)
  case (2 d k v e)
  then have "dict_set k v d = d @ [(k, v)]"
    by (intro dict_set_new) auto
  with 2 show ?case by auto
qed simp

lemma dict_copy_id [simp]: "dict_ok e \<Longrightarrow> dict_copy e = e"
  by (simp add: dict_copy_def dict_update_new)

lemma dict_ok_copy [simp]: "dict_ok (dict_copy e)"
  by (simp add: dict_copy_def)

lemma map_of_dict_copy: "dict_ok e \<Longrightarrow> map_of (dict_copy e) = map_of e"
  by simp

lemma dict_set_neq_Nil [simp]: "dict_set k v d \<noteq> []"
  by (cases d) (auto simp: dict_set_def)

lemma dict_update_eq_Nil_iff [simp]: "dict_update d e = [] \<longleftrightarrow> d = [] \<and> e = []"
  by (induction d e rule: dict_update.induct) auto

lemma dict_keys_update: "fst ` set (dict_update d e) = fst ` set d \<union> fst ` set e"
  by (induction d e rule: dict_update.induct) (auto simp: dict_set_def dom_update)

section \<open>Layers\<close>

text \<open>
  Context policies are layered: a scope adds a mapping over the one in effect, \<open>None\<close> means
  that the scope contributes nothing.  The interface is a merge of optional layers; its law is that
  the inner layer wins key by key and that nothing else is lost.  What nested scopes rely on is
  proved once from it.
\<close>

definition layer_get :: "('o \<Rightarrow> 'k \<Rightarrow> 'v option) \<Rightarrow> 'o option \<Rightarrow> 'k \<Rightarrow> 'v option" where
  "layer_get get l k = (case l of None \<Rightarrow> None | Some m \<Rightarrow> get m k)"

lemma layer_get_simps [simp]:
  "layer_get get None k = None"
  "layer_get get (Some m) k = get m k"
  by (simp_all add: layer_get_def)

locale layering =
  fixes merge :: "'o option \<Rightarrow> 'o option \<Rightarrow> 'o option"
    and get :: "'o \<Rightarrow> 'k \<Rightarrow> 'v option"
    and ok :: "'o \<Rightarrow> bool"
  assumes merge_None_iff: "merge p c = None \<longleftrightarrow> p = None \<and> c = None"
    and ok_merge: "pred_option ok p \<Longrightarrow> pred_option ok c \<Longrightarrow> pred_option ok (merge p c)"
    and get_merge: "pred_option ok p \<Longrightarrow> pred_option ok c \<Longrightarrow>
      layer_get get (merge p c) k =
        (case layer_get get c k of None \<Rightarrow> layer_get get p k | Some v \<Rightarrow> Some v)"
begin

definition stack :: "'o option \<Rightarrow> 'o option list \<Rightarrow> 'o option" where
  "stack base layers = foldl merge base layers"

lemma stack_simps [simp]:
  "stack base [] = base"
  "stack base (l # ls) = stack (merge base l) ls"
  by (simp_all add: stack_def)

lemma stack_append: "stack base (ls @ ms) = stack (stack base ls) ms"
  by (simp add: stack_def)

lemma ok_stack:
  "pred_option ok base \<Longrightarrow> list_all (pred_option ok) ls \<Longrightarrow> pred_option ok (stack base ls)"
  by (induction ls arbitrary: base) (auto intro: ok_merge)

lemma stack_None_iff: "stack base ls = None \<longleftrightarrow> base = None \<and> list_all (\<lambda>l. l = None) ls"
  by (induction ls arbitrary: base) (auto simp: merge_None_iff)

lemma get_stack_snoc:
  assumes "pred_option ok base" "list_all (pred_option ok) ls" "pred_option ok l"
  shows "layer_get get (stack base (ls @ [l])) k =
    (case layer_get get l k of None \<Rightarrow> layer_get get (stack base ls) k | Some v \<Rightarrow> Some v)"
  using assms by (simp add: stack_append get_merge ok_stack)

text \<open>The innermost layer that names a key decides it, whatever the outer ones say.\<close>

lemma get_stack_innermost:
  assumes "pred_option ok base" "list_all (pred_option ok) (ls @ l # ms)"
    and "layer_get get l k = Some v" "list_all (\<lambda>m. layer_get get m k = None) ms"
  shows "layer_get get (stack base (ls @ l # ms)) k = Some v"
  using assms
proof (induction ms rule: rev_induct)
  case Nil
  then show ?case by (simp add: get_stack_snoc)
next
  case (snoc m ms)
  then show ?case
    using get_stack_snoc [of base "ls @ l # ms" m k] by simp
qed

lemma get_stack_unnamed:
  assumes "pred_option ok base" "list_all (pred_option ok) ls"
    and "list_all (\<lambda>m. layer_get get m k = None) ls"
  shows "layer_get get (stack base ls) k = layer_get get base k"
  using assms
proof (induction ls rule: rev_induct)
  case (snoc m ms)
  then show ?case
    using get_stack_snoc [of base ms m k] by simp
qed simp

end

end
