(* ===== verification/Env_Overlay.thy ===== *)
theory Env_Overlay
  imports Py_Dict
begin

text \<open>
  Environment policies, \<open>cuprum/context/env_overlay.py\<close> and \<open>_resolve_env_policy\<close> of
  \<open>cuprum/context/_policy.py\<close>: overlay layers, their merge, the composition of parent and child
  policies and the rendering for a child process.  \<open>os.environ\<close>, which the code reads live at
  spawn time, is the argument \<open>environ\<close>.  The \<open>isinstance\<close> checks on the mode are discharged
  by the type \<open>env_mode\<close>.
\<close>

datatype env_mode = Inherit | Overlay | Replace

datatype env_value = EnvStr ustr | Unset

type_synonym env_overlay = "(ustr, env_value) pydict"
type_synonym environ = "(ustr, ustr) pydict"

definition coerce_env_overlay :: "env_overlay option \<Rightarrow> env_overlay option" where
  "coerce_env_overlay overlay =
     (case overlay of None \<Rightarrow> None | Some d \<Rightarrow> Some (dict_copy d))"

definition merge_env_overlays ::
    "env_overlay option \<Rightarrow> env_overlay option \<Rightarrow> env_overlay option" where
  "merge_env_overlays parent child =
     (case parent of
        None \<Rightarrow> coerce_env_overlay child
      | Some p \<Rightarrow>
          (case child of
             None \<Rightarrow> coerce_env_overlay parent
           | Some c \<Rightarrow> Some (dict_update (dict_copy p) c)))"

definition resolve_env_policy ::
    "env_overlay option \<Rightarrow> env_mode \<Rightarrow> env_overlay option \<Rightarrow> env_mode
      \<Rightarrow> env_overlay option \<times> env_mode" where
  "resolve_env_policy parent_overlay parent_mode child_overlay child_mode =
     (if child_mode = Replace then (merge_env_overlays None child_overlay, Replace)
      else (merge_env_overlays parent_overlay child_overlay, parent_mode))"

definition render_env_base :: "env_overlay option \<Rightarrow> env_mode \<Rightarrow> environ \<Rightarrow> environ option" where
  "render_env_base overlay mode environ =
     (if mode \<noteq> Replace \<and> (case overlay of None \<Rightarrow> True | Some d \<Rightarrow> d = []) then None
      else if mode = Replace then Some []
      else Some (dict_copy environ))"

text \<open>The loop of \<open>render_env\<close> over \<open>overlay.items()\<close>.\<close>

fun render_items :: "environ \<Rightarrow> env_overlay \<Rightarrow> environ" where
  "render_items rendered [] = rendered"
| "render_items rendered ((key, Unset) # items) = render_items (dict_pop key rendered) items"
| "render_items rendered ((key, EnvStr value) # items) =
     render_items (dict_set key value rendered) items"

definition render_env :: "env_overlay option \<Rightarrow> env_mode \<Rightarrow> environ \<Rightarrow> environ option" where
  "render_env overlay mode environ =
     (case render_env_base overlay mode environ of
        None \<Rightarrow> None
      | Some rendered \<Rightarrow>
          (case overlay of
             None \<Rightarrow> Some rendered
           | Some items \<Rightarrow> Some (render_items rendered items)))"

definition resolve_env :: "env_overlay option list \<Rightarrow> environ \<Rightarrow> environ option" where
  "resolve_env layers environ = render_env (foldl merge_env_overlays None layers) Overlay environ"

text \<open>
  The keyword arguments of \<open>env(*overlays, **kwvars)\<close> mix overlay values with an \<open>EnvMode\<close>
  under the name \<open>mode\<close>.  \<open>EnvMode\<close> is a \<open>StrEnum\<close>, so a mode passed under any other name
  is an ordinary string value.
\<close>

datatype env_kwarg = KwValue env_value | KwMode env_mode

fun env_mode_value :: "env_mode \<Rightarrow> ustr" where
  "env_mode_value Inherit = lit ''inherit''"
| "env_mode_value Overlay = lit ''overlay''"
| "env_mode_value Replace = lit ''replace''"

fun kwarg_value :: "env_kwarg \<Rightarrow> env_value" where
  "kwarg_value (KwValue v) = v"
| "kwarg_value (KwMode m) = EnvStr (env_mode_value m)"

definition env_arguments ::
    "env_overlay list \<Rightarrow> (ustr, env_kwarg) pydict \<Rightarrow> env_overlay \<times> env_mode" where
  "env_arguments overlays kwvars =
     (let (mode, kwvars') =
            (case map_of kwvars (lit ''mode'') of
               Some (KwMode m) \<Rightarrow> (m, dict_pop (lit ''mode'') kwvars)
             | _ \<Rightarrow> (Overlay, kwvars));
          merged = foldl dict_update [] overlays
      in (dict_update merged (map (\<lambda>(k, v). (k, kwarg_value v)) kwvars'), mode))"

section \<open>Merging overlays\<close>

abbreviation overlay_ok :: "env_overlay option \<Rightarrow> bool" where
  "overlay_ok \<equiv> pred_option dict_ok"

lemma coerce_env_overlay_id [simp]: "overlay_ok ov \<Longrightarrow> coerce_env_overlay ov = ov"
  by (cases ov) (simp_all add: coerce_env_overlay_def)

lemma merge_env_overlays_simps [simp]:
  "merge_env_overlays None child = coerce_env_overlay child"
  "merge_env_overlays (Some p) None = Some (dict_copy p)"
  "merge_env_overlays (Some p) (Some c) = Some (dict_update (dict_copy p) c)"
  by (simp_all add: merge_env_overlays_def coerce_env_overlay_def)

interpretation env: layering merge_env_overlays "map_of :: env_overlay \<Rightarrow> _" dict_ok
proof (unfold_locales, goal_cases)
  case (1 p c)
  show ?case by (cases p; cases c) (simp_all add: coerce_env_overlay_def)
next
  case (2 p c)
  then show ?case by (cases p; cases c) (simp_all add: coerce_env_overlay_def)
next
  case (3 p c k)
  then show ?case
    by (cases p; cases c)
      (auto simp: coerce_env_overlay_def map_of_dict_update map_add_def split: option.splits)
qed

lemma overlay_ok_resolve_env_policy [invariant_intros]:
  "overlay_ok p \<Longrightarrow> overlay_ok c \<Longrightarrow> overlay_ok (fst (resolve_env_policy p pm c cm))"
  unfolding resolve_env_policy_def
  by (simp add: env.ok_merge del: merge_env_overlays_simps)

lemma resolve_env_policy_Replace [simp]:
  "resolve_env_policy p pm c Replace = (merge_env_overlays None c, Replace)"
  by (simp add: resolve_env_policy_def)

section \<open>The environment a child sees\<close>

text \<open>
  \<open>None\<close> passed to the spawn primitive means that the child inherits the parent environment.
  \<open>overlay_effect\<close> is the specification: what an overlay makes of one variable.
\<close>

definition child_env :: "environ option \<Rightarrow> environ \<Rightarrow> ustr \<Rightarrow> ustr option" where
  "child_env rendered environ k =
     (case rendered of None \<Rightarrow> map_of environ k | Some d \<Rightarrow> map_of d k)"

definition overlay_effect :: "env_overlay option \<Rightarrow> (ustr \<Rightarrow> ustr option) \<Rightarrow> ustr \<Rightarrow> ustr option" where
  "overlay_effect ov base k =
     (case layer_get map_of ov k of
        None \<Rightarrow> base k
      | Some Unset \<Rightarrow> None
      | Some (EnvStr s) \<Rightarrow> Some s)"

definition env_base :: "env_mode \<Rightarrow> environ \<Rightarrow> ustr \<Rightarrow> ustr option" where
  "env_base mode environ k = (if mode = Replace then None else map_of environ k)"

lemma env_base_Replace [simp]: "env_base Replace environ = Map.empty"
  by (simp add: env_base_def fun_eq_iff)

lemma env_base_live: "mode \<noteq> Replace \<Longrightarrow> env_base mode environ = map_of environ"
  by (simp add: env_base_def fun_eq_iff)

lemma map_of_render_items:
  "dict_ok items \<Longrightarrow>
    map_of (render_items rendered items) k = overlay_effect (Some items) (map_of rendered) k"
proof (induction rendered items rule: render_items.induct)
  case (2 rendered key items)
  then show ?case
    by (auto simp: overlay_effect_def map_of_eq_None_iff[symmetric] split: option.splits)
next
  case (3 rendered key val items)
  then show ?case
    by (auto simp: overlay_effect_def map_of_eq_None_iff[symmetric] split: option.splits)
qed (simp add: overlay_effect_def)

lemma overlay_effect_None [simp]: "overlay_effect None base = base"
  by (simp add: fun_eq_iff overlay_effect_def)

lemma overlay_effect_empty [simp]: "overlay_effect (Some []) base = base"
  by (simp add: fun_eq_iff overlay_effect_def)

lemma overlay_effect_merge:
  "overlay_ok p \<Longrightarrow> overlay_ok c \<Longrightarrow>
    overlay_effect (merge_env_overlays p c) base = overlay_effect c (overlay_effect p base)"
  by (auto simp: fun_eq_iff overlay_effect_def env.get_merge simp del: merge_env_overlays_simps
      split: option.splits env_value.splits)

lemma child_env_render:
  assumes "overlay_ok ov" "dict_ok environ"
  shows "child_env (render_env ov mode environ) environ = overlay_effect ov (env_base mode environ)"
proof (cases ov)
  case None
  then show ?thesis
    by (auto simp: fun_eq_iff child_env_def render_env_def render_env_base_def env_base_def)
next
  case (Some items)
  then show ?thesis
    using assms
    by (cases "items = []")
      (auto simp: fun_eq_iff child_env_def render_env_def render_env_base_def env_base_live
        map_of_render_items)
qed

lemma child_env_resolve:
  assumes "overlay_ok p" "overlay_ok c" "dict_ok environ"
    and "resolve_env_policy p pm c cm = (ov, mode)"
  shows "child_env (render_env ov mode environ) environ =
    overlay_effect c
      (if cm = Replace then Map.empty else child_env (render_env p pm environ) environ)"
proof (cases "cm = Replace")
  case True
  then have "mode = Replace" "ov = c"
    using assms by auto
  then show ?thesis
    using assms True by (simp add: child_env_render)
next
  case False
  then have "mode = pm" "ov = merge_env_overlays p c"
    using assms(4) by (auto simp: resolve_env_policy_def)
  then show ?thesis
    using assms False env.ok_merge [of p c]
    by (simp add: child_env_render overlay_effect_merge del: merge_env_overlays_simps)
qed

end
