(* ===== verification/Py_Path.thy ===== *)
theory Py_Path
  imports Cuprum_Prelude
begin

text \<open>
  What the program uses of \<open>pathlib\<close>: \<open>PurePosixPath\<close> (the flavour of \<open>PurePath\<close> and
  \<open>Path\<close> on a POSIX host, the host modelled throughout) and the parse of \<open>PureWindowsPath\<close>,
  which the code applies to drive-letter spellings on every host.
\<close>

section \<open>Splitting and joining\<close>

fun split_on :: "'a \<Rightarrow> 'a list \<Rightarrow> 'a list list" where
  "split_on c [] = [[]]"
| "split_on c (x # xs) =
     (if x = c then [] # split_on c xs
      else (case split_on c xs of [] \<Rightarrow> [[x]] | p # ps \<Rightarrow> (x # p) # ps))"

fun join_with :: "'a list \<Rightarrow> 'a list list \<Rightarrow> 'a list" where
  "join_with sep [] = []"
| "join_with sep [p] = p"
| "join_with sep (p # q # ps) = p @ sep @ join_with sep (q # ps)"

lemma split_on_neq_Nil [simp]: "split_on c xs \<noteq> []"
  by (cases xs) (auto split: list.splits)

lemma join_with_Cons_Cons:
  "join_with sep ((x # a) # ps) = x # join_with sep (a # ps)"
  by (cases ps) simp_all

lemma join_with_Nil_Cons: "ps \<noteq> [] \<Longrightarrow> join_with sep ([] # ps) = sep @ join_with sep ps"
  by (cases ps) simp_all

lemma join_split_on: "join_with [c] (split_on c xs) = xs"
proof (induction xs)
  case (Cons x xs)
  then show ?case
    by (cases "split_on c xs") (auto simp: join_with_Cons_Cons join_with_Nil_Cons)
qed simp

lemma split_on_no_sep: "p \<in> set (split_on c xs) \<Longrightarrow> c \<notin> set p"
proof (induction xs arbitrary: p)
  case (Cons x xs)
  then show ?case
    by (cases "split_on c xs") (auto split: if_splits)
qed simp

lemma split_on_notin: "c \<notin> set p \<Longrightarrow> split_on c p = [p]"
  by (induction p) auto

lemma split_on_append:
  "c \<notin> set p \<Longrightarrow> split_on c (p @ c # xs) = p # split_on c xs"
  by (induction p) auto

lemma split_join_with:
  "ps \<noteq> [] \<Longrightarrow> \<forall>p \<in> set ps. c \<notin> set p \<Longrightarrow> split_on c (join_with [c] ps) = ps"
  by (induction "[c]" ps rule: join_with.induct) (auto simp: split_on_notin split_on_append)

section \<open>POSIX paths\<close>

abbreviation slash :: nat where "slash \<equiv> 47"
abbreviation dot :: nat where "dot \<equiv> 46"

record posix_path =
  pp_root :: ustr
  pp_tail :: "ustr list"

text \<open>
  \<open>posixpath.splitroot\<close>: exactly two leading slashes are a root of their own, one or at least
  three are the root \<open>/\<close>.
\<close>

definition posix_splitroot :: "ustr \<Rightarrow> ustr \<times> ustr" where
  "posix_splitroot p =
     (if take 1 p \<noteq> [slash] then ([], p)
      else if take 1 (drop 1 p) \<noteq> [slash] \<or> take 1 (drop 2 p) = [slash]
        then ([slash], drop 1 p)
      else (take 2 p, drop 2 p))"

definition keep_part :: "ustr \<Rightarrow> bool" where
  "keep_part x \<longleftrightarrow> x \<noteq> [] \<and> x \<noteq> [dot]"

definition posix_parse :: "ustr \<Rightarrow> posix_path" where
  "posix_parse p =
     (let (root, rel) = posix_splitroot p
      in \<lparr>pp_root = root, pp_tail = filter keep_part (split_on slash rel)\<rparr>)"

definition posix_parts :: "posix_path \<Rightarrow> ustr list" where
  "posix_parts p = (if pp_root p \<noteq> [] then pp_root p # pp_tail p else pp_tail p)"

definition posix_str :: "posix_path \<Rightarrow> ustr" where
  "posix_str p =
     (let s = pp_root p @ join_with [slash] (pp_tail p) in if s = [] then [dot] else s)"

definition posix_name :: "posix_path \<Rightarrow> ustr" where
  "posix_name p = (if pp_tail p = [] then [] else last (pp_tail p))"

definition posix_is_absolute :: "ustr \<Rightarrow> bool" where
  "posix_is_absolute raw \<longleftrightarrow> prefix [slash] raw"

text \<open>\<open>posixpath.join(a, b)\<close>, the text two path segments are parsed from.\<close>

definition posix_join :: "ustr \<Rightarrow> ustr \<Rightarrow> ustr" where
  "posix_join a b =
     (if prefix [slash] b then b
      else if a = [] \<or> suffix [slash] a then a @ b
      else a @ [slash] @ b)"

definition posix_path_ok :: "posix_path \<Rightarrow> bool" where
  "posix_path_ok p \<longleftrightarrow>
     pp_root p \<in> {[], [slash], [slash, slash]} \<and>
     (\<forall>x \<in> set (pp_tail p). keep_part x \<and> slash \<notin> set x)"

lemma take_1_eq_iff: "take 1 p = [x] \<longleftrightarrow> (\<exists>q. p = x # q)"
  by (cases p) auto

lemma posix_splitroot_fst: "fst (posix_splitroot p) \<in> {[], [slash], [slash, slash]}"
proof (cases "take 1 p = [slash] \<and> take 1 (drop 1 p) = [slash]")
  case True
  then obtain q where "p = slash # slash # q"
    unfolding take_1_eq_iff by auto
  then show ?thesis by (simp add: posix_splitroot_def)
next
  case False
  then show ?thesis by (simp add: posix_splitroot_def)
qed

lemma posix_path_ok_parse [simp]: "posix_path_ok (posix_parse p)"
proof -
  have "pp_root (posix_parse p) \<in> {[], [slash], [slash, slash]}"
    using posix_splitroot_fst [of p] by (simp add: posix_parse_def case_prod_beta)
  moreover have "keep_part x \<and> slash \<notin> set x" if "x \<in> set (pp_tail (posix_parse p))" for x
    using that split_on_no_sep [of x slash]
    by (simp add: posix_parse_def case_prod_beta) blast
  ultimately show ?thesis
    unfolding posix_path_ok_def by blast
qed

lemma join_with_first:
  "x \<noteq> [] \<Longrightarrow> \<exists>ys. join_with sep (x # xs) = hd x # ys"
  by (cases x) (auto simp: join_with_Cons_Cons)

lemma posix_splitroot_root:
  assumes "root \<in> {[], [slash], [slash, slash]}" "d \<noteq> slash"
  shows "posix_splitroot (root @ d # ys) = (root, d # ys)"
proof -
  consider "root = []" | "root = [slash]" | "root = [slash, slash]"
    using assms(1) by blast
  then show ?thesis
    using assms(2) by cases (simp_all add: posix_splitroot_def)
qed

lemma posix_splitroot_str:
  assumes ok: "posix_path_ok p" and "pp_root p \<noteq> [] \<or> pp_tail p \<noteq> []"
  shows "posix_splitroot (posix_str p) = (pp_root p, join_with [slash] (pp_tail p))"
proof (cases "pp_tail p")
  case Nil
  then show ?thesis
    using assms by (auto simp: posix_path_ok_def posix_str_def posix_splitroot_def)
next
  case (Cons x xs)
  then have "keep_part x" "slash \<notin> set x"
    using ok by (simp_all add: posix_path_ok_def)
  then have x: "x \<noteq> []" "hd x \<noteq> slash"
    by (cases x; simp add: keep_part_def)+
  then obtain ys where ys: "join_with [slash] (pp_tail p) = hd x # ys"
    using join_with_first [OF x(1), of "[slash]" xs] Cons by auto
  have "pp_root p \<in> {[], [slash], [slash, slash]}"
    using ok by (simp add: posix_path_ok_def)
  from posix_splitroot_root [OF this x(2)] ys show ?thesis
    by (simp add: posix_str_def)
qed

text \<open>Formatting a parsed path and parsing it again gives the same path.\<close>

lemma posix_parse_str:
  assumes ok: "posix_path_ok p"
  shows "posix_parse (posix_str p) = p"
proof (cases "pp_root p = [] \<and> pp_tail p = []")
  case True
  then show ?thesis
    by (cases p) (simp add: posix_str_def posix_parse_def posix_splitroot_def keep_part_def)
next
  case False
  then have "posix_splitroot (posix_str p) = (pp_root p, join_with [slash] (pp_tail p))"
    using posix_splitroot_str [OF ok] by blast
  moreover have "filter keep_part (split_on slash (join_with [slash] (pp_tail p))) = pp_tail p"
  proof (cases "pp_tail p = []")
    case True
    then show ?thesis by (simp add: keep_part_def)
  next
    case False
    then show ?thesis
      using ok by (simp add: split_join_with posix_path_ok_def filter_id_conv)
  qed
  ultimately show ?thesis
    by (cases p) (simp add: posix_parse_def)
qed

lemma posix_str_idem [simp]:
  "posix_str (posix_parse (posix_str (posix_parse raw))) = posix_str (posix_parse raw)"
  by (simp add: posix_parse_str)

lemma posix_root_parse_iff: "pp_root (posix_parse raw) \<noteq> [] \<longleftrightarrow> posix_is_absolute raw"
  by (cases raw) (simp_all add: posix_parse_def posix_splitroot_def posix_is_absolute_def)

lemma posix_is_absolute_str [simp]:
  "posix_is_absolute (posix_str (posix_parse raw)) \<longleftrightarrow> posix_is_absolute raw"
  by (metis posix_parse_str posix_path_ok_parse posix_root_parse_iff)

lemma set_join_with: "set (join_with sep ps) \<subseteq> \<Union> (set ` set ps) \<union> set sep"
  by (induction sep ps rule: join_with.induct) auto

lemma set_split_on: "p \<in> set (split_on c xs) \<Longrightarrow> set p \<subseteq> set xs"
proof (induction xs arbitrary: p)
  case (Cons x xs)
  then show ?case
    by (cases "split_on c xs") (fastforce split: if_splits)+
qed simp

section \<open>Windows paths\<close>

abbreviation backslash :: nat where "backslash \<equiv> 92"
abbreviation colon :: nat where "colon \<equiv> 58"

definition ascii_upper :: "nat \<Rightarrow> nat" where
  "ascii_upper c = (if 97 \<le> c \<and> c \<le> 122 then c - 32 else c)"

definition ascii_lower :: "nat \<Rightarrow> nat" where
  "ascii_lower c = (if 65 \<le> c \<and> c \<le> 90 then c + 32 else c)"

definition ascii_alpha :: "nat \<Rightarrow> bool" where
  "ascii_alpha c \<longleftrightarrow> (65 \<le> c \<and> c \<le> 90) \<or> (97 \<le> c \<and> c \<le> 122)"

definition find_from :: "'a \<Rightarrow> nat \<Rightarrow> 'a list \<Rightarrow> nat option" where
  "find_from c start s = map_option ((+) start) (str_find c (drop start s))"

text \<open>\<open>ntpath.splitroot\<close> of a path whose slashes have been turned into backslashes.\<close>

definition nt_splitroot :: "ustr \<Rightarrow> ustr \<times> ustr \<times> ustr" where
  "nt_splitroot p =
     (if take 1 p = [backslash] then
        (if take 1 (drop 1 p) = [backslash] then
           (let start = (if map ascii_upper (take 8 p) = [92, 92, 63, 92, 85, 78, 67, 92]
                         then 8 else 2)
            in case find_from backslash start p of
                 None \<Rightarrow> (p, [], [])
               | Some i \<Rightarrow>
                   (case find_from backslash (i + 1) p of
                      None \<Rightarrow> (p, [], [])
                    | Some j \<Rightarrow> (take j p, take 1 (drop j p), drop (j + 1) p)))
         else ([], take 1 p, drop 1 p))
      else if take 1 (drop 1 p) = [colon] then
        (if take 1 (drop 2 p) = [backslash] then (take 2 p, take 1 (drop 2 p), drop 3 p)
         else (take 2 p, [], drop 2 p))
      else ([], [], p))"

definition nt_normalize :: "ustr \<Rightarrow> ustr" where
  "nt_normalize p = map (\<lambda>c. if c = slash then backslash else c) p"

text \<open>
  \<open>PureWindowsPath\<close> gives a UNC drive without a root of its own the root backslash.  Python's
  \<open>x not in '?.'\<close> is a substring test.
\<close>

definition nt_root :: "ustr \<Rightarrow> ustr" where
  "nt_root p =
     (let (drv, root, rel) = nt_splitroot (nt_normalize p);
          drv_parts = split_on backslash drv
      in if root = [] \<and> prefix [backslash] drv \<and> \<not> suffix [backslash] drv \<and>
            (length drv_parts = 4 \<and> \<not> sublist (drv_parts ! 2) [63, dot] \<or>
             length drv_parts = 6)
         then [backslash] else root)"

definition nt_drive :: "ustr \<Rightarrow> ustr" where
  "nt_drive p = fst (nt_splitroot (nt_normalize p))"

definition nt_tail :: "ustr \<Rightarrow> ustr list" where
  "nt_tail p = filter keep_part (split_on backslash (snd (snd (nt_splitroot (nt_normalize p)))))"

definition nt_parts :: "ustr \<Rightarrow> ustr list" where
  "nt_parts p =
     (if nt_drive p @ nt_root p \<noteq> [] then (nt_drive p @ nt_root p) # nt_tail p else nt_tail p)"

definition nt_name :: "ustr \<Rightarrow> ustr" where
  "nt_name p = (if nt_tail p = [] then [] else last (nt_tail p))"

end
