(* ===== verification/Exec_Binding.thy ===== *)
theory Exec_Binding
  imports Py_Dict Py_Path
begin

text \<open>
  Executable bindings: the path vocabulary of \<open>cuprum/executable_paths.py\<close>, the bindings and their
  resolution of \<open>cuprum/executable_binding.py\<close>, the layers of
  \<open>cuprum/context/executable_overlay.py\<close> and the lookup of \<open>cuprum/context/_executable.py\<close>.
  A resolver is a caller's callable: an opaque value \<open>'r\<close>, and what calling it does is the
  argument \<open>run\<close>.  The file system that the advisory probe asks is a record of predicates.
\<close>

section \<open>Paths\<close>

datatype path_binding_rejection =
  PB_EMPTY | PB_NUL | PB_PARENT_SEGMENT | PB_NOT_ABSOLUTE | PB_NOT_FOUND | PB_NOT_EXECUTABLE

datatype binding_error =
    InvalidExecutableBinding "ustr option" ustr path_binding_rejection
  | BindingTypeError
  | BindingValueError

text \<open>
  What a caller may pass where a path or a resolver is expected: a \<open>str\<close>, a path-like object with
  what its \<open>__fspath__\<close> returns, a callable, or any other object.
\<close>

datatype fspath_result = FsStr ustr | FsBytes bytes | FsOther

datatype 'r path_or_resolver = PStr ustr | PPathLike fspath_result | PCallable 'r | PObject

fun coerce_path_string :: "'r path_or_resolver \<Rightarrow> binding_error + ustr" where
  "coerce_path_string (PStr s) = Inr s"
| "coerce_path_string (PPathLike (FsStr s)) = Inr s"
| "coerce_path_string _ = Inl BindingTypeError"

text \<open>\<open>_WINDOWS_ABS_PATTERN\<close>: a letter, a colon and either separator at the start.\<close>

fun windows_abs :: "ustr \<Rightarrow> bool" where
  "windows_abs (a # b # c # _) \<longleftrightarrow> ascii_alpha a \<and> b = colon \<and> (c = backslash \<or> c = slash)"
| "windows_abs _ \<longleftrightarrow> False"

definition classify_executable_path :: "ustr \<Rightarrow> bool \<Rightarrow> path_binding_rejection option" where
  "classify_executable_path raw_value allow_relative =
     (let is_windows = windows_abs raw_value;
          parts = (if is_windows then nt_parts raw_value else posix_parts (posix_parse raw_value));
          is_absolute = is_windows \<or> posix_is_absolute raw_value
      in if raw_value = [] then Some PB_EMPTY
         else if 0 \<in> set raw_value then Some PB_NUL
         else if [dot, dot] \<in> set parts then Some PB_PARENT_SEGMENT
         else if \<not> allow_relative \<and> \<not> is_absolute then Some PB_NOT_ABSOLUTE
         else None)"

definition executable_path :: "'r path_or_resolver \<Rightarrow> bool \<Rightarrow> binding_error + ustr" where
  "executable_path value allow_relative =
     rbind (coerce_path_string value) (\<lambda>raw_value.
       case classify_executable_path raw_value allow_relative of
         Some rejection \<Rightarrow> Inl (InvalidExecutableBinding None raw_value rejection)
       | None \<Rightarrow> Inr (posix_str (posix_parse raw_value)))"

record file_system =
  fs_exists :: "ustr \<Rightarrow> bool"
  fs_is_file :: "ustr \<Rightarrow> bool"
  fs_executable :: "ustr \<Rightarrow> bool"

text \<open>
  \<open>Path(raw)\<close> normalizes the spelling before the file system is asked for existence and kind;
  \<open>os.access\<close> is given the raw spelling.
\<close>

definition advisory_path_rejection ::
    "bool \<Rightarrow> file_system \<Rightarrow> ustr \<Rightarrow> path_binding_rejection option" where
  "advisory_path_rejection host_is_nt fs raw_value =
     (let candidate = posix_str (posix_parse raw_value)
      in if host_is_nt then None
         else if \<not> posix_is_absolute raw_value \<and> slash \<notin> set raw_value then None
         else if \<not> fs_exists fs candidate then Some PB_NOT_FOUND
         else if \<not> fs_is_file fs candidate \<or> \<not> fs_executable fs raw_value
           then Some PB_NOT_EXECUTABLE
         else None)"

section \<open>Bindings\<close>

record 'r executable_binding =
  eb_path :: "ustr option"
  eb_resolver :: "'r option"

definition new_executable_binding ::
    "ustr option \<Rightarrow> 'r option \<Rightarrow> binding_error + 'r executable_binding" where
  "new_executable_binding path resolver =
     (if (path = None) = (resolver = None) then Inl BindingValueError
      else Inr \<lparr>eb_path = path, eb_resolver = resolver\<rparr>)"

definition is_lazy :: "'r executable_binding \<Rightarrow> bool" where
  "is_lazy b \<longleftrightarrow> eb_resolver b \<noteq> None"

fun bind_path :: "ustr \<Rightarrow> ustr \<Rightarrow> bool \<Rightarrow> binding_error + 'r executable_binding" where
  "bind_path program raw_value allow_relative =
     (case classify_executable_path raw_value allow_relative of
        Some rejection \<Rightarrow> Inl (InvalidExecutableBinding (Some program) raw_value rejection)
      | None \<Rightarrow>
          rbind (executable_path (PStr raw_value :: 'r path_or_resolver) allow_relative)
            (\<lambda>p. new_executable_binding (Some p) None))"

fun make_executable_binding ::
    "ustr \<Rightarrow> 'r path_or_resolver \<Rightarrow> bool \<Rightarrow> binding_error + 'r executable_binding" where
  "make_executable_binding program (PCallable r) allow_relative =
     new_executable_binding None (Some r)"
| "make_executable_binding program PObject allow_relative = Inl BindingTypeError"
| "make_executable_binding program v allow_relative =
     rbind (coerce_path_string v) (\<lambda>raw_value. bind_path program raw_value allow_relative)"

text \<open>
  What calling a resolver does.  Exceptions are those that \<open>except Exception\<close> catches, base
  exceptions (\<open>KeyboardInterrupt\<close>, \<open>SystemExit\<close>) and the resolution error itself.
\<close>

datatype spawn_error =
    ExecutableResolution ustr spawn_error
  | SomeException ustr
  | TypeErrorRaised
  | BaseExceptionRaised ustr

datatype resolver_outcome = Returns ustr | ReturnsNonStr | Raises spawn_error

fun checked_resolver_result :: "resolver_outcome \<Rightarrow> spawn_error + ustr" where
  "checked_resolver_result (Returns s) = Inr s"
| "checked_resolver_result ReturnsNonStr = Inl TypeErrorRaised"
| "checked_resolver_result (Raises e) = Inl e"

text \<open>
  \<open>Path(str(binding.path))\<close> of a binding built by hand with neither source cannot occur:
  the constructor refuses it.  \<open>str(None)\<close> is therefore never taken; the equation for it spells
  out what Python would do.
\<close>

definition resolve_binding ::
    "('r \<Rightarrow> resolver_outcome) \<Rightarrow> 'r executable_binding \<Rightarrow> ustr option \<Rightarrow> spawn_error + ustr" where
  "resolve_binding run binding cwd =
     (case eb_resolver binding of
        Some r \<Rightarrow> checked_resolver_result (run r)
      | None \<Rightarrow>
          (let path = (case eb_path binding of None \<Rightarrow> lit ''None'' | Some p \<Rightarrow> p)
           in case cwd of
                None \<Rightarrow> Inr (posix_str (posix_parse path))
              | Some d \<Rightarrow>
                  if posix_is_absolute path then Inr (posix_str (posix_parse path))
                  else Inr (posix_str (posix_parse (posix_join d path)))))"

section \<open>Layers of bindings and their resolution\<close>

type_synonym 'r binding_overlay = "(ustr, 'r executable_binding) pydict"

definition coerce_executable_bindings :: "'r binding_overlay option \<Rightarrow> 'r binding_overlay option" where
  "coerce_executable_bindings bindings =
     (case bindings of None \<Rightarrow> None | Some d \<Rightarrow> Some (dict_copy d))"

definition merge_executable_bindings ::
    "'r binding_overlay option \<Rightarrow> 'r binding_overlay option \<Rightarrow> 'r binding_overlay option" where
  "merge_executable_bindings parent child =
     (case parent of
        None \<Rightarrow> coerce_executable_bindings child
      | Some p \<Rightarrow>
          (case child of
             None \<Rightarrow> coerce_executable_bindings parent
           | Some c \<Rightarrow> Some (dict_update (dict_copy p) c)))"

definition lookup_executable_binding ::
    "'r binding_overlay option \<Rightarrow> ustr \<Rightarrow> 'r executable_binding option" where
  "lookup_executable_binding bindings program =
     (case bindings of None \<Rightarrow> None | Some d \<Rightarrow> map_of d program)"

text \<open>The \<open>try\<close> block of \<open>resolve_executable\<close>.\<close>

fun wrap_resolution :: "ustr \<Rightarrow> spawn_error \<Rightarrow> spawn_error" where
  "wrap_resolution program (ExecutableResolution p e) = ExecutableResolution p e"
| "wrap_resolution program (BaseExceptionRaised n) = BaseExceptionRaised n"
| "wrap_resolution program e = ExecutableResolution program e"

definition resolve_in_overlay ::
    "('r \<Rightarrow> resolver_outcome) \<Rightarrow> 'r binding_overlay option \<Rightarrow> ustr \<Rightarrow> ustr option
      \<Rightarrow> spawn_error + ustr option" where
  "resolve_in_overlay run bindings program cwd =
     (case lookup_executable_binding bindings program of
        None \<Rightarrow> Inr None
      | Some binding \<Rightarrow>
          (case resolve_binding run binding cwd of
             Inl e \<Rightarrow> Inl (wrap_resolution program e)
           | Inr s \<Rightarrow> Inr (Some s)))"

section \<open>Classified paths\<close>

lemma classify_None_iff:
  "classify_executable_path raw ar = None \<longleftrightarrow>
     raw \<noteq> [] \<and> 0 \<notin> set raw \<and>
     [dot, dot] \<notin> set (if windows_abs raw then nt_parts raw else posix_parts (posix_parse raw)) \<and>
     (ar \<or> windows_abs raw \<or> posix_is_absolute raw)"
  by (auto simp: classify_executable_path_def Let_def)

lemma classify_never_advisory:
  "classify_executable_path raw ar \<noteq> Some PB_NOT_FOUND"
  "classify_executable_path raw ar \<noteq> Some PB_NOT_EXECUTABLE"
  by (auto simp: classify_executable_path_def Let_def)

lemma executable_path_Inr_iff [result_iff]:
  "executable_path v ar = Inr p \<longleftrightarrow>
     (\<exists>raw. coerce_path_string v = Inr raw \<and> classify_executable_path raw ar = None \<and>
       p = posix_str (posix_parse raw))"
  by (auto simp: executable_path_def result_iff split: option.splits)

lemma new_executable_binding_Inr_iff [result_iff]:
  "new_executable_binding p r = Inr b \<longleftrightarrow>
     (p = None \<longleftrightarrow> r \<noteq> None) \<and> b = \<lparr>eb_path = p, eb_resolver = r\<rparr>"
  by (auto simp: new_executable_binding_def)

lemma bind_path_Inr_iff [result_iff]:
  "bind_path program raw ar = Inr b \<longleftrightarrow>
     classify_executable_path raw ar = None \<and>
     b = \<lparr>eb_path = Some (posix_str (posix_parse raw)), eb_resolver = None\<rparr>"
  by (auto simp: result_iff executable_path_def split: option.splits)

section \<open>Resolution\<close>

lemma lookup_executable_binding_layer:
  "lookup_executable_binding b p = layer_get map_of b p"
  by (simp add: lookup_executable_binding_def layer_get_def)

lemma coerce_executable_bindings_id [simp]:
  "pred_option dict_ok b \<Longrightarrow> coerce_executable_bindings b = b"
  by (cases b) (simp_all add: coerce_executable_bindings_def)

lemma merge_executable_bindings_simps:
  "merge_executable_bindings None child = coerce_executable_bindings child"
  "merge_executable_bindings (Some p) None = Some (dict_copy p)"
  "merge_executable_bindings (Some p) (Some c) = Some (dict_update (dict_copy p) c)"
  by (simp_all add: merge_executable_bindings_def coerce_executable_bindings_def)

interpretation bindings: layering merge_executable_bindings "map_of :: 'r binding_overlay \<Rightarrow> _" dict_ok
proof (unfold_locales, goal_cases)
  case (1 p c)
  show ?case
    by (cases p; cases c)
      (simp_all add: merge_executable_bindings_simps coerce_executable_bindings_def)
next
  case (2 p c)
  then show ?case
    by (cases p; cases c)
      (simp_all add: merge_executable_bindings_simps coerce_executable_bindings_def)
next
  case (3 p c k)
  then show ?case
    by (cases p; cases c)
      (auto simp: merge_executable_bindings_simps coerce_executable_bindings_def
        map_of_dict_update map_add_def split: option.splits)
qed

lemma wrap_resolution_cases:
  "(\<exists>p c. wrap_resolution program e = ExecutableResolution p c) \<or>
   (\<exists>n. wrap_resolution program e = BaseExceptionRaised n)"
  by (cases "(program, e)" rule: wrap_resolution.cases) auto

text \<open>A fixed path resolves without ever raising.\<close>

lemma resolve_binding_path:
  assumes "eb_resolver b = None" "eb_path b = Some p"
  shows "resolve_binding run b cwd =
    Inr (if cwd = None \<or> posix_is_absolute p then posix_str (posix_parse p)
         else posix_str (posix_parse (posix_join (the cwd) p)))"
  using assms by (auto simp: resolve_binding_def split: option.splits)

lemma posix_is_absolute_join:
  "posix_is_absolute d \<Longrightarrow> posix_is_absolute (posix_join d p)"
  by (auto simp: posix_is_absolute_def posix_join_def prefix_def)

end
