(* ===== verification/Context_Policy.thy ===== *)
theory Context_Policy
  imports Complex_Main Env_Overlay Exec_Binding
begin

text \<open>
  The immutable execution context of \<open>cuprum/context/core.py\<close> with the policy helpers of
  \<open>_policy.py\<close>, the hook operations of \<open>_hooks.py\<close>, the scope configuration of \<open>_scope.py\<close> and
  the binding operations of \<open>_executable.py\<close>.  Hooks, catalogues and resolvers are opaque objects
  (\<open>'h\<close>, \<open>'c\<close>, \<open>'r\<close>); equality of hooks is object identity.  Every way of building a context
  runs \<open>__post_init__\<close>, which may raise.
\<close>

section \<open>Timeouts\<close>

text \<open>
  A timeout argument after \<open>float(timeout)\<close>: a finite number of seconds, an infinity, NaN, or
  an integer that no float represents (\<open>OverflowError\<close>).
\<close>

datatype number = Finite rat | Infinite | NaN | Unrepresentable

datatype context_error =
    TimeoutUnrepresentable string
  | TimeoutNotFinite string
  | TimeoutNegative string
  | ForbiddenProgram ustr bool
  | UnsupportedHookType

definition validate_timeout :: "number option \<Rightarrow> string \<Rightarrow> context_error + rat option" where
  "validate_timeout timeout class_name =
     (case timeout of
        None \<Rightarrow> Inr None
      | Some Unrepresentable \<Rightarrow> Inl (TimeoutUnrepresentable class_name)
      | Some Infinite \<Rightarrow> Inl (TimeoutNotFinite class_name)
      | Some NaN \<Rightarrow> Inl (TimeoutNotFinite class_name)
      | Some (Finite q) \<Rightarrow>
          if q < 0 then Inl (TimeoutNegative class_name) else Inr (Some q))"

section \<open>State\<close>

record ('h, 'c, 'r) cuprum_context =
  ctx_allowlist :: "ustr set"
  ctx_before_hooks :: "'h list"
  ctx_after_hooks :: "'h list"
  ctx_observe_hooks :: "'h list"
  ctx_timeout :: "rat option"
  ctx_env_overlay :: "env_overlay option"
  ctx_allowlist_is_restricted :: bool
  ctx_env_mode :: env_mode
  ctx_catalogue :: "'c option"
  ctx_executable_bindings :: "'r binding_overlay option"

record ('h, 'c, 'r) scope_config =
  sc_allowlist :: "ustr set option"
  sc_before_hooks :: "'h list"
  sc_after_hooks :: "'h list"
  sc_observe_hooks :: "'h list"
  sc_timeout :: "rat option"
  sc_env_overlay :: "env_overlay option"
  sc_env_mode :: env_mode
  sc_catalogue :: "'c option"
  sc_executable_bindings :: "'r binding_overlay option"

definition default_context :: "('h, 'c, 'r) cuprum_context" where
  "default_context =
     \<lparr>ctx_allowlist = {}, ctx_before_hooks = [], ctx_after_hooks = [], ctx_observe_hooks = [],
      ctx_timeout = None, ctx_env_overlay = None, ctx_allowlist_is_restricted = False,
      ctx_env_mode = Overlay, ctx_catalogue = None, ctx_executable_bindings = None\<rparr>"

definition default_scope_config :: "('h, 'c, 'r) scope_config" where
  "default_scope_config =
     \<lparr>sc_allowlist = None, sc_before_hooks = [], sc_after_hooks = [], sc_observe_hooks = [],
      sc_timeout = None, sc_env_overlay = None, sc_env_mode = Overlay, sc_catalogue = None,
      sc_executable_bindings = None\<rparr>"

text \<open>
  \<open>__post_init__\<close>.  The dataclass constructor receives the raw timeout, \<open>dc.replace\<close> and
  \<open>narrow\<close> the validated one; both go through the same check.
\<close>

definition context_post_init ::
    "number option \<Rightarrow> ('h, 'c, 'r) cuprum_context \<Rightarrow> context_error + ('h, 'c, 'r) cuprum_context"
  where
  "context_post_init raw_timeout ctx =
     rbind (validate_timeout raw_timeout ''CuprumContext'') (\<lambda>validated.
       Inr (ctx\<lparr>ctx_timeout := validated,
                ctx_env_overlay := coerce_env_overlay (ctx_env_overlay ctx),
                ctx_executable_bindings :=
                  coerce_executable_bindings (ctx_executable_bindings ctx)\<rparr>))"

definition scope_post_init ::
    "number option \<Rightarrow> ('h, 'c, 'r) scope_config \<Rightarrow> context_error + ('h, 'c, 'r) scope_config"
  where
  "scope_post_init raw_timeout config =
     rbind (validate_timeout raw_timeout ''ScopeConfig'') (\<lambda>validated.
       Inr (config\<lparr>sc_timeout := validated,
                   sc_env_overlay := coerce_env_overlay (sc_env_overlay config),
                   sc_executable_bindings :=
                     coerce_executable_bindings (sc_executable_bindings config)\<rparr>))"

definition replaced ::
    "('h, 'c, 'r) cuprum_context \<Rightarrow> context_error + ('h, 'c, 'r) cuprum_context" where
  "replaced ctx = context_post_init (map_option Finite (ctx_timeout ctx)) ctx"

section \<open>Permission\<close>

definition is_allowed :: "('h, 'c, 'r) cuprum_context \<Rightarrow> ustr \<Rightarrow> bool" where
  "is_allowed ctx program \<longleftrightarrow> program \<in> ctx_allowlist ctx"

definition check_allowed :: "('h, 'c, 'r) cuprum_context \<Rightarrow> ustr \<Rightarrow> context_error + unit" where
  "check_allowed ctx program =
     (if ctx_allowlist ctx = {} \<and> \<not> ctx_allowlist_is_restricted ctx then Inr ()
      else if \<not> is_allowed ctx program
        then Inl (ForbiddenProgram program (ctx_allowlist_is_restricted ctx))
      else Inr ())"

section \<open>Narrowing\<close>

definition narrow_allowlist :: "ustr set \<Rightarrow> ustr set option \<Rightarrow> bool \<Rightarrow> ustr set" where
  "narrow_allowlist parent config parent_is_restricted =
     (case config of
        None \<Rightarrow> parent
      | Some c \<Rightarrow>
          if parent_is_restricted \<and> parent = {} then parent
          else if parent \<noteq> {} then parent \<inter> c
          else c)"

definition is_narrowed_allowlist_restricted :: "ustr set option \<Rightarrow> bool \<Rightarrow> bool" where
  "is_narrowed_allowlist_restricted config parent_is_restricted \<longleftrightarrow>
     parent_is_restricted \<or> config \<noteq> None"

definition merge_hooks :: "'h list \<Rightarrow> 'h list \<Rightarrow> bool \<Rightarrow> 'h list" where
  "merge_hooks parent config scoped_first =
     (if scoped_first then config @ parent else parent @ config)"

definition resolve_narrowed_timeout :: "rat option \<Rightarrow> rat option \<Rightarrow> rat option" where
  "resolve_narrowed_timeout parent config = (case config of None \<Rightarrow> parent | Some _ \<Rightarrow> config)"

definition resolve_narrowed_catalogue :: "'c option \<Rightarrow> 'c option \<Rightarrow> 'c option" where
  "resolve_narrowed_catalogue parent config = (case config of None \<Rightarrow> parent | Some _ \<Rightarrow> config)"

definition narrow ::
    "('h, 'c, 'r) cuprum_context \<Rightarrow> ('h, 'c, 'r) scope_config
      \<Rightarrow> context_error + ('h, 'c, 'r) cuprum_context" where
  "narrow self config =
     (let is_restricted =
            is_narrowed_allowlist_restricted (sc_allowlist config)
              (ctx_allowlist_is_restricted self);
          (env_overlay, env_mode) =
            resolve_env_policy (ctx_env_overlay self) (ctx_env_mode self)
              (sc_env_overlay config) (sc_env_mode config)
      in replaced
        \<lparr>ctx_allowlist =
           narrow_allowlist (ctx_allowlist self) (sc_allowlist config)
             (ctx_allowlist_is_restricted self),
         ctx_before_hooks = merge_hooks (ctx_before_hooks self) (sc_before_hooks config) False,
         ctx_after_hooks = merge_hooks (ctx_after_hooks self) (sc_after_hooks config) True,
         ctx_observe_hooks = merge_hooks (ctx_observe_hooks self) (sc_observe_hooks config) False,
         ctx_timeout = resolve_narrowed_timeout (ctx_timeout self) (sc_timeout config),
         ctx_env_overlay = env_overlay,
         ctx_allowlist_is_restricted = is_restricted,
         ctx_env_mode = env_mode,
         ctx_catalogue = resolve_narrowed_catalogue (ctx_catalogue self) (sc_catalogue config),
         ctx_executable_bindings =
           merge_executable_bindings (ctx_executable_bindings self)
             (sc_executable_bindings config)\<rparr>)"

section \<open>Deriving contexts\<close>

definition with_allowlist ::
    "('h, 'c, 'r) cuprum_context \<Rightarrow> ustr set \<Rightarrow> context_error + ('h, 'c, 'r) cuprum_context" where
  "with_allowlist self allowlist =
     replaced (self\<lparr>ctx_allowlist := allowlist,
                    ctx_allowlist_is_restricted :=
                      ctx_allowlist_is_restricted self \<or> ctx_allowlist self \<noteq> {} \<or>
                      allowlist \<noteq> {}\<rparr>)"

definition with_program ::
    "('h, 'c, 'r) cuprum_context \<Rightarrow> ustr \<Rightarrow> context_error + ('h, 'c, 'r) cuprum_context" where
  "with_program self program = with_allowlist self (ctx_allowlist self \<union> {program})"

definition without_program ::
    "('h, 'c, 'r) cuprum_context \<Rightarrow> ustr \<Rightarrow> context_error + ('h, 'c, 'r) cuprum_context" where
  "without_program self program = with_allowlist self (ctx_allowlist self - {program})"

definition with_env_overlay ::
    "('h, 'c, 'r) cuprum_context \<Rightarrow> env_overlay option \<Rightarrow> env_mode
      \<Rightarrow> context_error + ('h, 'c, 'r) cuprum_context" where
  "with_env_overlay self overlay mode =
     (let (env_overlay, env_mode) =
            resolve_env_policy (ctx_env_overlay self) (ctx_env_mode self) overlay mode
      in replaced (self\<lparr>ctx_env_overlay := env_overlay, ctx_env_mode := env_mode\<rparr>))"

definition with_before_hook ::
    "('h, 'c, 'r) cuprum_context \<Rightarrow> 'h \<Rightarrow> context_error + ('h, 'c, 'r) cuprum_context" where
  "with_before_hook self hook =
     replaced (self\<lparr>ctx_before_hooks := ctx_before_hooks self @ [hook]\<rparr>)"

definition without_before_hook ::
    "('h, 'c, 'r) cuprum_context \<Rightarrow> 'h \<Rightarrow> context_error + ('h, 'c, 'r) cuprum_context" where
  "without_before_hook self hook =
     replaced (self\<lparr>ctx_before_hooks := filter (\<lambda>h. h \<noteq> hook) (ctx_before_hooks self)\<rparr>)"

definition with_after_hook ::
    "('h, 'c, 'r) cuprum_context \<Rightarrow> 'h \<Rightarrow> context_error + ('h, 'c, 'r) cuprum_context" where
  "with_after_hook self hook =
     replaced (self\<lparr>ctx_after_hooks := hook # ctx_after_hooks self\<rparr>)"

definition without_after_hook ::
    "('h, 'c, 'r) cuprum_context \<Rightarrow> 'h \<Rightarrow> context_error + ('h, 'c, 'r) cuprum_context" where
  "without_after_hook self hook =
     replaced (self\<lparr>ctx_after_hooks := filter (\<lambda>h. h \<noteq> hook) (ctx_after_hooks self)\<rparr>)"

definition with_observe_hook ::
    "('h, 'c, 'r) cuprum_context \<Rightarrow> 'h \<Rightarrow> context_error + ('h, 'c, 'r) cuprum_context" where
  "with_observe_hook self hook =
     replaced (self\<lparr>ctx_observe_hooks := ctx_observe_hooks self @ [hook]\<rparr>)"

definition without_observe_hook ::
    "('h, 'c, 'r) cuprum_context \<Rightarrow> 'h \<Rightarrow> context_error + ('h, 'c, 'r) cuprum_context" where
  "without_observe_hook self hook =
     replaced (self\<lparr>ctx_observe_hooks := filter (\<lambda>h. h \<noteq> hook) (ctx_observe_hooks self)\<rparr>)"

definition with_executable_binding ::
    "('h, 'c, 'r) cuprum_context \<Rightarrow> ustr \<Rightarrow> 'r executable_binding
      \<Rightarrow> context_error + ('h, 'c, 'r) cuprum_context" where
  "with_executable_binding self program binding =
     (let current =
            dict_copy (case ctx_executable_bindings self of None \<Rightarrow> [] | Some d \<Rightarrow> d)
      in replaced (self\<lparr>ctx_executable_bindings := Some (dict_set program binding current)\<rparr>))"

definition resolve_executable ::
    "('r \<Rightarrow> resolver_outcome) \<Rightarrow> ('h, 'c, 'r) cuprum_context \<Rightarrow> ustr \<Rightarrow> ustr option
      \<Rightarrow> spawn_error + ustr option" where
  "resolve_executable run self program cwd =
     resolve_in_overlay run (ctx_executable_bindings self) program cwd"

text \<open>Entering scopes one inside the other.\<close>

fun narrow_all ::
    "('h, 'c, 'r) cuprum_context \<Rightarrow> ('h, 'c, 'r) scope_config list
      \<Rightarrow> context_error + ('h, 'c, 'r) cuprum_context" where
  "narrow_all ctx [] = Inr ctx"
| "narrow_all ctx (config # configs) = rbind (narrow ctx config) (\<lambda>c. narrow_all c configs)"

section \<open>Well-formed contexts\<close>

definition timeout_ok :: "rat option \<Rightarrow> bool" where
  "timeout_ok t \<longleftrightarrow> pred_option (\<lambda>q. 0 \<le> q) t"

definition context_ok :: "('h, 'c, 'r) cuprum_context \<Rightarrow> bool" where
  "context_ok ctx \<longleftrightarrow>
     timeout_ok (ctx_timeout ctx) \<and> overlay_ok (ctx_env_overlay ctx) \<and>
     pred_option dict_ok (ctx_executable_bindings ctx)"

definition scope_ok :: "('h, 'c, 'r) scope_config \<Rightarrow> bool" where
  "scope_ok config \<longleftrightarrow>
     timeout_ok (sc_timeout config) \<and> overlay_ok (sc_env_overlay config) \<and>
     pred_option dict_ok (sc_executable_bindings config)"

lemma validate_timeout_Inr_iff [result_iff]:
  "validate_timeout t n = Inr v \<longleftrightarrow>
     (t = None \<and> v = None) \<or> (\<exists>q. t = Some (Finite q) \<and> 0 \<le> q \<and> v = Some q)"
  by (auto simp: validate_timeout_def split: option.splits number.splits)

lemma overlay_ok_coerce [simp]: "overlay_ok (coerce_env_overlay ov)"
  by (cases ov) (simp_all add: coerce_env_overlay_def)

lemma bindings_ok_coerce [simp]: "pred_option dict_ok (coerce_executable_bindings b)"
  by (cases b) (simp_all add: coerce_executable_bindings_def)

text \<open>Whatever a constructor returns is well formed; a well-formed context passes unchanged.\<close>

lemma context_post_init_ok: "context_post_init t c = Inr c' \<Longrightarrow> context_ok c'"
  by (auto simp: context_post_init_def result_iff context_ok_def timeout_ok_def)

lemma scope_post_init_ok: "scope_post_init t c = Inr c' \<Longrightarrow> scope_ok c'"
  by (auto simp: scope_post_init_def result_iff scope_ok_def timeout_ok_def)

lemma replaced_ok [simp]: "context_ok c \<Longrightarrow> replaced c = Inr c"
  by (cases "ctx_timeout c")
    (auto simp: replaced_def context_post_init_def validate_timeout_def context_ok_def
      timeout_ok_def)

lemma replaced_imp_ok: "replaced c = Inr c' \<Longrightarrow> context_ok c'"
  unfolding replaced_def by (rule context_post_init_ok)

lemma context_ok_default [simp]: "context_ok default_context"
  by (simp add: context_ok_def default_context_def timeout_ok_def)

lemma context_ok_allowlist [simp]:
  "context_ok (c\<lparr>ctx_allowlist := a, ctx_allowlist_is_restricted := r\<rparr>) \<longleftrightarrow> context_ok c"
  by (simp add: context_ok_def)

lemma context_ok_hooks [simp]:
  "context_ok (c\<lparr>ctx_before_hooks := hs\<rparr>) \<longleftrightarrow> context_ok c"
  "context_ok (c\<lparr>ctx_after_hooks := hs\<rparr>) \<longleftrightarrow> context_ok c"
  "context_ok (c\<lparr>ctx_observe_hooks := hs\<rparr>) \<longleftrightarrow> context_ok c"
  by (simp_all add: context_ok_def)

lemma context_ok_env [simp]:
  "context_ok c \<Longrightarrow> overlay_ok ov \<Longrightarrow> context_ok (c\<lparr>ctx_env_overlay := ov, ctx_env_mode := m\<rparr>)"
  by (simp add: context_ok_def)

lemma context_ok_bindings [simp]:
  "context_ok c \<Longrightarrow> dict_ok d \<Longrightarrow> context_ok (c\<lparr>ctx_executable_bindings := Some d\<rparr>)"
  by (simp add: context_ok_def)

section \<open>What narrowing does\<close>

lemma env_policy_ok:
  "context_ok c \<Longrightarrow> scope_ok s \<Longrightarrow>
    overlay_ok (fst (resolve_env_policy (ctx_env_overlay c) (ctx_env_mode c)
      (sc_env_overlay s) (sc_env_mode s)))"
  by (rule overlay_ok_resolve_env_policy) (simp_all add: context_ok_def scope_ok_def)

text \<open>On well-formed arguments narrowing never raises, and it gives exactly these fields.\<close>

lemma narrow_Inr:
  assumes "context_ok c" "scope_ok s"
  shows "narrow c s = Inr
    \<lparr>ctx_allowlist =
       narrow_allowlist (ctx_allowlist c) (sc_allowlist s) (ctx_allowlist_is_restricted c),
     ctx_before_hooks = ctx_before_hooks c @ sc_before_hooks s,
     ctx_after_hooks = sc_after_hooks s @ ctx_after_hooks c,
     ctx_observe_hooks = ctx_observe_hooks c @ sc_observe_hooks s,
     ctx_timeout = (case sc_timeout s of None \<Rightarrow> ctx_timeout c | Some t \<Rightarrow> Some t),
     ctx_env_overlay = fst (resolve_env_policy (ctx_env_overlay c) (ctx_env_mode c)
       (sc_env_overlay s) (sc_env_mode s)),
     ctx_allowlist_is_restricted = (ctx_allowlist_is_restricted c \<or> sc_allowlist s \<noteq> None),
     ctx_env_mode = snd (resolve_env_policy (ctx_env_overlay c) (ctx_env_mode c)
       (sc_env_overlay s) (sc_env_mode s)),
     ctx_catalogue = (case sc_catalogue s of None \<Rightarrow> ctx_catalogue c | Some k \<Rightarrow> Some k),
     ctx_executable_bindings =
       merge_executable_bindings (ctx_executable_bindings c) (sc_executable_bindings s)\<rparr>"
    (is "_ = Inr ?c")
proof -
  have "context_ok ?c"
    using assms env_policy_ok [OF assms]
    by (auto simp: context_ok_def scope_ok_def timeout_ok_def bindings.ok_merge
        split: option.splits)
  then have "replaced ?c = Inr ?c" by (rule replaced_ok)
  then show ?thesis
    by (simp add: narrow_def case_prod_beta merge_hooks_def is_narrowed_allowlist_restricted_def
        resolve_narrowed_timeout_def resolve_narrowed_catalogue_def Let_def
        cong: option.case_cong)
qed

lemma narrow_fields:
  assumes "context_ok c" "scope_ok s" "narrow c s = Inr c'"
  shows "ctx_allowlist c' =
      narrow_allowlist (ctx_allowlist c) (sc_allowlist s) (ctx_allowlist_is_restricted c)"
    and "ctx_allowlist_is_restricted c' \<longleftrightarrow> ctx_allowlist_is_restricted c \<or> sc_allowlist s \<noteq> None"
    and "ctx_before_hooks c' = ctx_before_hooks c @ sc_before_hooks s"
    and "ctx_after_hooks c' = sc_after_hooks s @ ctx_after_hooks c"
    and "ctx_observe_hooks c' = ctx_observe_hooks c @ sc_observe_hooks s"
    and "ctx_timeout c' = (case sc_timeout s of None \<Rightarrow> ctx_timeout c | Some t \<Rightarrow> Some t)"
    and "ctx_catalogue c' = (case sc_catalogue s of None \<Rightarrow> ctx_catalogue c | Some k \<Rightarrow> Some k)"
    and "(ctx_env_overlay c', ctx_env_mode c') =
      resolve_env_policy (ctx_env_overlay c) (ctx_env_mode c) (sc_env_overlay s) (sc_env_mode s)"
    and "ctx_executable_bindings c' =
      merge_executable_bindings (ctx_executable_bindings c) (sc_executable_bindings s)"
  using assms(3) by (auto simp: narrow_Inr [OF assms(1,2)])

lemma narrow_context_ok [invariant_intros]: "narrow c s = Inr c' \<Longrightarrow> context_ok c'"
  by (auto simp: narrow_def Let_def case_prod_beta intro: replaced_imp_ok)

definition permits :: "('h, 'c, 'r) cuprum_context \<Rightarrow> ustr \<Rightarrow> bool" where
  "permits ctx program \<longleftrightarrow> check_allowed ctx program = Inr ()"

lemma permits_iff:
  "permits c p \<longleftrightarrow> p \<in> ctx_allowlist c \<or> ctx_allowlist c = {} \<and> \<not> ctx_allowlist_is_restricted c"
  by (auto simp: permits_def check_allowed_def is_allowed_def)

lemma check_allowed_cases:
  "check_allowed c p = Inr () \<or>
   check_allowed c p = Inl (ForbiddenProgram p (ctx_allowlist_is_restricted c))"
  by (simp add: check_allowed_def)

lemma permits_narrow:
  assumes "context_ok c" "scope_ok s" "narrow c s = Inr c'"
  shows "permits c' p \<longleftrightarrow> permits c p \<and> (case sc_allowlist s of None \<Rightarrow> True | Some a \<Rightarrow> p \<in> a)"
proof (cases "sc_allowlist s")
  case None
  then show ?thesis
    by (simp add: permits_iff narrow_fields(1,2) [OF assms] narrow_allowlist_def)
next
  case (Some a)
  then show ?thesis
    by (auto simp: permits_iff narrow_fields(1,2) [OF assms] narrow_allowlist_def)
qed

lemma narrow_all_Cons:
  assumes "context_ok c" "scope_ok s"
  shows "\<exists>d. narrow c s = Inr d \<and> context_ok d \<and> narrow_all c (s # ss) = narrow_all d ss"
  using narrow_Inr [OF assms] by (auto intro: narrow_context_ok)

lemma narrow_all_total:
  "context_ok c \<Longrightarrow> list_all scope_ok ss \<Longrightarrow> \<exists>c'. narrow_all c ss = Inr c' \<and> context_ok c'"
proof (induction ss arbitrary: c)
  case (Cons s ss)
  then obtain d where "context_ok d" "narrow_all c (s # ss) = narrow_all d ss"
    using narrow_all_Cons [of c s ss] by auto
  with Cons show ?case by auto
qed simp

lemma permits_narrow_all:
  assumes "context_ok c" "list_all scope_ok ss" "narrow_all c ss = Inr c'"
  shows "permits c' p \<longleftrightarrow>
    permits c p \<and> list_all (\<lambda>s. case sc_allowlist s of None \<Rightarrow> True | Some a \<Rightarrow> p \<in> a) ss"
  using assms
proof (induction ss arbitrary: c)
  case (Cons s ss)
  then obtain d where d: "narrow c s = Inr d" "context_ok d" "narrow_all d ss = Inr c'"
    using narrow_all_Cons [of c s ss] by auto
  then have "permits c' p \<longleftrightarrow>
      permits d p \<and> list_all (\<lambda>s. case sc_allowlist s of None \<Rightarrow> True | Some a \<Rightarrow> p \<in> a) ss"
    using Cons.IH [of d] Cons.prems by simp
  with permits_narrow [OF _ _ d(1)] Cons.prems show ?case by auto
qed simp

lemma hooks_narrow_all:
  assumes "context_ok c" "list_all scope_ok ss" "narrow_all c ss = Inr c'"
  shows "ctx_before_hooks c' = ctx_before_hooks c @ concat (map sc_before_hooks ss) \<and>
    ctx_after_hooks c' = concat (map sc_after_hooks (rev ss)) @ ctx_after_hooks c \<and>
    ctx_observe_hooks c' = ctx_observe_hooks c @ concat (map sc_observe_hooks ss)"
  using assms
proof (induction ss arbitrary: c)
  case (Cons s ss)
  then obtain d where d: "narrow c s = Inr d" "context_ok d" "narrow_all d ss = Inr c'"
    using narrow_all_Cons [of c s ss] by auto
  have "scope_ok s" using Cons.prems by simp
  note fields = narrow_fields(3-5) [OF Cons.prems(1) this d(1)]
  from d Cons show ?case by (simp add: fields)
qed simp

lemma child_env_narrow:
  assumes "context_ok c" "scope_ok s" "narrow c s = Inr c'" "dict_ok environ"
  shows "child_env (render_env (ctx_env_overlay c') (ctx_env_mode c') environ) environ =
    overlay_effect (sc_env_overlay s)
      (if sc_env_mode s = Replace then Map.empty
       else child_env (render_env (ctx_env_overlay c) (ctx_env_mode c) environ) environ)"
proof -
  have "resolve_env_policy (ctx_env_overlay c) (ctx_env_mode c) (sc_env_overlay s) (sc_env_mode s)
      = (ctx_env_overlay c', ctx_env_mode c')"
    using narrow_fields(8) [OF assms(1-3)] by simp
  with assms show ?thesis
    by (intro child_env_resolve) (simp_all add: context_ok_def scope_ok_def)
qed

lemma binding_narrow_all:
  assumes "context_ok c" "list_all scope_ok ss" "narrow_all c ss = Inr c'"
  shows "ctx_executable_bindings c' =
    bindings.stack (ctx_executable_bindings c) (map sc_executable_bindings ss)"
  using assms
proof (induction ss arbitrary: c)
  case (Cons s ss)
  then obtain d where d: "narrow c s = Inr d" "context_ok d" "narrow_all d ss = Inr c'"
    using narrow_all_Cons [of c s ss] by auto
  have "scope_ok s" using Cons.prems by simp
  note fields = narrow_fields(9) [OF Cons.prems(1) this d(1)]
  from d Cons show ?case by (simp add: fields)
qed simp

lemma resolve_executable_cong:
  "lookup_executable_binding (ctx_executable_bindings c) p =
     lookup_executable_binding (ctx_executable_bindings c') p \<Longrightarrow>
   resolve_executable run c p cwd = resolve_executable run c' p cwd"
  by (simp add: resolve_executable_def resolve_in_overlay_def)

section \<open>Properties\<close>

text \<open>
  (C2) Narrowing is exactly intersection of permissions.  Entering a scope permits a program if and
  only if the enclosing context permits it and the scope's allowlist, when it has one, names it.
  So no scope, whatever its configuration, can widen what may run: not from the permissive default
  context, not from a restricted one, and not from a restricted one whose allowlist is empty.
\<close>

theorem narrow_permits_exactly:
  assumes "context_ok c" "scope_ok s" "narrow c s = Inr c'"
  shows "check_allowed c' p = Inr () \<longleftrightarrow>
    check_allowed c p = Inr () \<and> (case sc_allowlist s of None \<Rightarrow> True | Some a \<Rightarrow> p \<in> a)"
  using permits_narrow [OF assms, of p] by (simp only: permits_def)

abbreviation demo_scope :: "ustr set \<Rightarrow> (nat, nat, nat) scope_config" where
  "demo_scope a \<equiv> default_scope_config\<lparr>sc_allowlist := Some a\<rparr>"

lemma check_allowed_default [simp]: "check_allowed default_context p = Inr ()"
  by (simp add: check_allowed_def default_context_def)

lemma scope_ok_demo: "scope_ok (demo_scope a)"
  by (simp add: scope_ok_def default_scope_config_def timeout_ok_def)

theorem narrow_permits_exactly_witness:
  "\<exists>c'. narrow default_context (demo_scope {lit ''git''}) = Inr c' \<and>
     check_allowed c' (lit ''git'') = Inr () \<and> check_allowed c' (lit ''ls'') \<noteq> Inr ()"
proof -
  obtain c' where c': "narrow default_context (demo_scope {lit ''git''}) = Inr c'"
    using narrow_Inr [OF context_ok_default scope_ok_demo] by blast
  show ?thesis
    using c' narrow_permits_exactly [OF context_ok_default scope_ok_demo c', of "lit ''git''"]
      narrow_permits_exactly [OF context_ok_default scope_ok_demo c', of "lit ''ls''"]
    by (simp add: default_scope_config_def lit_def)
qed

text \<open>
  Nested scopes compose.  Entering any number of well-formed scopes one inside the other never
  raises; the innermost context permits a program exactly when the outermost does and every scope
  with an allowlist names it; before and observe hooks are ordered from the outermost scope inwards
  and after hooks from the innermost scope outwards.
\<close>

theorem nested_scopes:
  assumes "context_ok c" "list_all scope_ok ss"
  shows "\<exists>c'. narrow_all c ss = Inr c' \<and> context_ok c' \<and>
    (\<forall>p. check_allowed c' p = Inr () \<longleftrightarrow>
      check_allowed c p = Inr () \<and>
      list_all (\<lambda>s. case sc_allowlist s of None \<Rightarrow> True | Some a \<Rightarrow> p \<in> a) ss) \<and>
    ctx_before_hooks c' = ctx_before_hooks c @ concat (map sc_before_hooks ss) \<and>
    ctx_after_hooks c' = concat (map sc_after_hooks (rev ss)) @ ctx_after_hooks c \<and>
    ctx_observe_hooks c' = ctx_observe_hooks c @ concat (map sc_observe_hooks ss)"
proof -
  obtain c' where c': "narrow_all c ss = Inr c'" "context_ok c'"
    using narrow_all_total [OF assms] by blast
  then show ?thesis
    using hooks_narrow_all [OF assms c'(1)] permits_narrow_all [OF assms c'(1)]
    unfolding permits_def by blast
qed

theorem nested_scopes_witness:
  "\<exists>c'. narrow_all default_context [demo_scope {lit ''git'', lit ''ls''}, demo_scope {lit ''ls''}]
      = Inr c' \<and> check_allowed c' (lit ''ls'') = Inr () \<and> check_allowed c' (lit ''git'') \<noteq> Inr ()"
proof -
  have "list_all scope_ok [demo_scope {lit ''git'', lit ''ls''}, demo_scope {lit ''ls''}]"
    by (simp add: scope_ok_demo)
  from nested_scopes [OF context_ok_default this] obtain c' where
    "narrow_all default_context [demo_scope {lit ''git'', lit ''ls''}, demo_scope {lit ''ls''}]
      = Inr c'"
    and "check_allowed c' p = Inr () \<longleftrightarrow> p \<in> {lit ''git'', lit ''ls''} \<and> p \<in> {lit ''ls''}" for p
    by (auto simp: default_scope_config_def)
  then show ?thesis by (auto simp: lit_def)
qed

text \<open>
  The environment of a nested scope is the scope's own overlay applied to the environment the
  enclosing scope would have rendered, except that a \<open>REPLACE\<close> scope starts from nothing:
  neither the live process environment nor any outer overlay reaches its children.  The statement
  is about the variables a child sees, so it covers the inherit-everything result \<open>None\<close> of
  \<open>render_env\<close> too.
\<close>

theorem narrow_environment:
  assumes "context_ok c" "scope_ok s" "narrow c s = Inr c'" "dict_ok environ"
  shows "child_env (render_env (ctx_env_overlay c') (ctx_env_mode c') environ) environ name =
    (case sc_env_overlay s of
       Some d \<Rightarrow>
         (case map_of d name of
            Some Unset \<Rightarrow> None
          | Some (EnvStr v) \<Rightarrow> Some v
          | None \<Rightarrow>
              if sc_env_mode s = Replace then None
              else child_env (render_env (ctx_env_overlay c) (ctx_env_mode c) environ) environ name)
     | None \<Rightarrow>
         if sc_env_mode s = Replace then None
         else child_env (render_env (ctx_env_overlay c) (ctx_env_mode c) environ) environ name)"
  by (auto simp: child_env_narrow [OF assms] overlay_effect_def layer_get_def
      split: option.splits env_value.splits)

theorem narrow_environment_witness:
  "\<exists>c'. narrow (default_context :: (nat, nat, nat) cuprum_context)
        (default_scope_config\<lparr>sc_env_overlay := Some [(lit ''A'', EnvStr (lit ''1''))]\<rparr>) = Inr c' \<and>
     child_env (render_env (ctx_env_overlay c') (ctx_env_mode c') [(lit ''B'', lit ''2'')])
       [(lit ''B'', lit ''2'')] (lit ''A'') = Some (lit ''1'')"
proof -
  let ?s = "default_scope_config\<lparr>sc_env_overlay := Some [(lit ''A'', EnvStr (lit ''1''))]\<rparr>
    :: (nat, nat, nat) scope_config"
  have s: "scope_ok ?s" and env: "dict_ok [(lit ''B'', lit ''2'')]"
    by (simp_all add: scope_ok_def default_scope_config_def timeout_ok_def)
  obtain c' where c': "narrow default_context ?s = Inr c'"
    using narrow_Inr [OF context_ok_default s] by blast
  then show ?thesis
    using narrow_environment [OF context_ok_default s c' env, of "lit ''A''"]
    by (simp add: default_scope_config_def)
qed

text \<open>
  Single-program updates, exactly.  Adding a program to the permissive default context makes
  it the only one permitted; removing a program denies it in every context but the permissive
  default one, where the removal changes nothing and the program stays runnable.
\<close>

theorem program_updates_exact:
  assumes "context_ok c"
  shows "\<exists>w wo. with_program c p = Inr w \<and> without_program c p = Inr wo \<and>
    (\<forall>q. check_allowed w q = Inr () \<longleftrightarrow> q = p \<or> q \<in> ctx_allowlist c) \<and>
    (\<forall>q. check_allowed wo q = Inr () \<longleftrightarrow>
       (if ctx_allowlist c = {} \<and> \<not> ctx_allowlist_is_restricted c then True
        else q \<noteq> p \<and> q \<in> ctx_allowlist c))"
proof -
  let ?r = "ctx_allowlist_is_restricted c"
  let ?w = "c\<lparr>ctx_allowlist := insert p (ctx_allowlist c), ctx_allowlist_is_restricted := True\<rparr>"
  let ?wo = "c\<lparr>ctx_allowlist := ctx_allowlist c - {p},
    ctx_allowlist_is_restricted := (?r \<or> ctx_allowlist c \<noteq> {})\<rparr>"
  have "with_program c p = Inr ?w" "without_program c p = Inr ?wo"
    using assms
    by (auto simp: with_program_def without_program_def with_allowlist_def intro!: arg_cong [of _ _ Inr])
  moreover have "check_allowed ?w q = Inr () \<longleftrightarrow> q = p \<or> q \<in> ctx_allowlist c" for q
    by (simp add: check_allowed_def is_allowed_def)
  moreover have "check_allowed ?wo q = Inr () \<longleftrightarrow>
      (if ctx_allowlist c = {} \<and> \<not> ?r then True else q \<noteq> p \<and> q \<in> ctx_allowlist c)" for q
    by (auto simp: check_allowed_def is_allowed_def)
  ultimately show ?thesis by blast
qed

theorem program_updates_exact_witness:
  "\<exists>wo. without_program (default_context :: (nat, nat, nat) cuprum_context) (lit ''git'') = Inr wo \<and>
     check_allowed wo (lit ''git'') = Inr ()"
  using program_updates_exact [OF context_ok_default, of "lit ''git''"]
  by (auto simp: default_context_def)

text \<open>
  Executable bindings are not permissions and layer like the environment: what an innermost
  context runs for a program is decided by the innermost scope that binds it (and by the outer
  context when none does), and binding a program in a context changes neither whether any program
  is permitted nor what any other program resolves to.
\<close>

theorem binding_resolution:
  assumes "context_ok c" "list_all scope_ok (ss @ s # ts)"
    and "narrow_all c (ss @ s # ts) = Inr c'"
    and "lookup_executable_binding (sc_executable_bindings s) p = Some b"
    and "list_all (\<lambda>t. lookup_executable_binding (sc_executable_bindings t) p = None) ts"
  shows "lookup_executable_binding (ctx_executable_bindings c') p = Some b \<and>
    (\<exists>d. with_executable_binding c p b = Inr d \<and>
       (\<forall>q. check_allowed d q = check_allowed c q) \<and>
       (\<forall>q cwd. q \<noteq> p \<longrightarrow> resolve_executable run d q cwd = resolve_executable run c q cwd))"
proof
  have stack: "ctx_executable_bindings c' =
      bindings.stack (ctx_executable_bindings c)
        (map sc_executable_bindings ss @ sc_executable_bindings s # map sc_executable_bindings ts)"
    using binding_narrow_all [OF assms(1-3)] by simp
  have "list_all (pred_option dict_ok) (map sc_executable_bindings (ss @ s # ts))"
    using assms(2) by (auto simp: list_all_iff scope_ok_def)
  then show "lookup_executable_binding (ctx_executable_bindings c') p = Some b"
    unfolding stack lookup_executable_binding_layer using assms(1,4,5)
    by (intro bindings.get_stack_innermost)
      (simp_all add: context_ok_def lookup_executable_binding_layer list_all_iff)
next
  let ?d = "dict_copy (case ctx_executable_bindings c of None \<Rightarrow> [] | Some d \<Rightarrow> d)"
  let ?c = "c\<lparr>ctx_executable_bindings := Some (dict_set p b ?d)\<rparr>"
  have "with_executable_binding c p b = Inr ?c"
    using assms(1) by (simp add: with_executable_binding_def)
  moreover have "check_allowed ?c q = check_allowed c q" for q
    by (simp add: check_allowed_def is_allowed_def)
  moreover have "resolve_executable run ?c q cwd = resolve_executable run c q cwd"
    if "q \<noteq> p" for q cwd
    using assms(1) that
    by (intro resolve_executable_cong)
      (auto simp: lookup_executable_binding_def context_ok_def split: option.splits)
  ultimately show "\<exists>d. with_executable_binding c p b = Inr d \<and>
      (\<forall>q. check_allowed d q = check_allowed c q) \<and>
      (\<forall>q cwd. q \<noteq> p \<longrightarrow> resolve_executable run d q cwd = resolve_executable run c q cwd)"
    by blast
qed

theorem binding_resolution_witness:
  "\<exists>c'. narrow_all (default_context :: (nat, nat, nat) cuprum_context)
      [default_scope_config\<lparr>sc_executable_bindings :=
         Some [(lit ''ls'', \<lparr>eb_path = Some (lit ''/opt/ls''), eb_resolver = None\<rparr>)]\<rparr>] = Inr c' \<and>
    lookup_executable_binding (ctx_executable_bindings c') (lit ''ls'') =
      Some \<lparr>eb_path = Some (lit ''/opt/ls''), eb_resolver = None\<rparr>"
proof -
  let ?b = "\<lparr>eb_path = Some (lit ''/opt/ls''), eb_resolver = None\<rparr> :: nat executable_binding"
  let ?s = "default_scope_config\<lparr>sc_executable_bindings := Some [(lit ''ls'', ?b)]\<rparr>
    :: (nat, nat, nat) scope_config"
  have s: "list_all scope_ok ([] @ ?s # [])"
    by (simp add: scope_ok_def default_scope_config_def timeout_ok_def)
  obtain c' where c': "narrow_all default_context ([] @ ?s # []) = Inr c'"
    using narrow_all_total [OF context_ok_default s] by blast
  have "lookup_executable_binding (sc_executable_bindings ?s) (lit ''ls'') = Some ?b"
    by (simp add: lookup_executable_binding_def)
  from binding_resolution [OF context_ok_default s c' this] c' show ?thesis by simp
qed

end
