(* ===== verification/Scope_Registration.thy ===== *)
theory Scope_Registration
  imports Cuprum_Prelude
begin

text \<open>
  The registration discipline of \<open>cuprum/_scope_registration.py\<close> over what it uses of the
  standard library's \<open>contextvars\<close>: a variable has one value per logical context (a thread or
  task, numbered), \<open>set\<close> returns a one-use token that remembers the value it replaced, and
  \<open>reset\<close> refuses a token that was used or that belongs to another context.
\<close>

section \<open>Context variables\<close>

record 'a token =
  tok_id :: nat
  tok_ctx :: nat
  tok_old :: 'a

record 'a ctxvar =
  cv_value :: "nat \<Rightarrow> 'a"
  cv_next :: nat
  cv_used :: "nat set"

datatype cv_error = TokenUsed | TokenForeign

definition cv_new :: "'a \<Rightarrow> 'a ctxvar" where
  "cv_new d = \<lparr>cv_value = (\<lambda>_. d), cv_next = 0, cv_used = {}\<rparr>"

definition cv_get :: "nat \<Rightarrow> 'a ctxvar \<Rightarrow> 'a" where
  "cv_get k v = cv_value v k"

definition cv_set :: "nat \<Rightarrow> 'a \<Rightarrow> 'a ctxvar \<Rightarrow> 'a token \<times> 'a ctxvar" where
  "cv_set k x v =
     (\<lparr>tok_id = cv_next v, tok_ctx = k, tok_old = cv_value v k\<rparr>,
      v\<lparr>cv_value := (cv_value v)(k := x), cv_next := Suc (cv_next v)\<rparr>)"

definition cv_reset :: "nat \<Rightarrow> 'a token \<Rightarrow> 'a ctxvar \<Rightarrow> cv_error + 'a ctxvar" where
  "cv_reset k t v =
     (if tok_id t \<in> cv_used v then Inl TokenUsed
      else if tok_ctx t \<noteq> k then Inl TokenForeign
      else Inr (v\<lparr>cv_value := (cv_value v)(k := tok_old t),
                  cv_used := insert (tok_id t) (cv_used v)\<rparr>))"

definition cv_ok :: "'a ctxvar \<Rightarrow> bool" where
  "cv_ok v \<longleftrightarrow> (\<forall>i \<in> cv_used v. i < cv_next v)"

text \<open>
  \<open>v'\<close> comes after \<open>v\<close> by operations that used up only tokens issued after \<open>v\<close>.
\<close>

definition cv_evolves :: "'a ctxvar \<Rightarrow> 'a ctxvar \<Rightarrow> bool" where
  "cv_evolves v v' \<longleftrightarrow>
     cv_next v \<le> cv_next v' \<and> cv_used v \<subseteq> cv_used v' \<and>
     (\<forall>i \<in> cv_used v' - cv_used v. cv_next v \<le> i)"

lemma cv_ok_new [simp]: "cv_ok (cv_new d)"
  by (simp add: cv_ok_def cv_new_def)

lemma cv_evolves_refl [simp]: "cv_evolves v v"
  by (simp add: cv_evolves_def)

lemma cv_evolves_trans: "cv_evolves u v \<Longrightarrow> cv_evolves v w \<Longrightarrow> cv_evolves u w"
  unfolding cv_evolves_def by (meson DiffD1 DiffD2 DiffI le_trans subset_trans)

lemma cv_set_fields:
  assumes "cv_set k x v = (t, v')"
  shows "cv_get k v' = x" "tok_old t = cv_get k v" "tok_ctx t = k" "tok_id t = cv_next v"
    and "cv_used v' = cv_used v" "cv_next v' = Suc (cv_next v)"
    and "cv_ok v \<Longrightarrow> cv_ok v'" "cv_evolves v v'" "j \<noteq> k \<Longrightarrow> cv_get j v' = cv_get j v"
  using assms by (auto simp: cv_set_def cv_get_def cv_ok_def cv_evolves_def less_Suc_eq)

text \<open>The token of a \<open>set\<close> resets any later state that has not used it.\<close>

lemma cv_reset_after:
  assumes "cv_ok v" "cv_set k x v = (t, v1)" "cv_evolves v1 v2" "cv_ok v2"
  shows "\<exists>v3. cv_reset k t v2 = Inr v3 \<and> cv_get k v3 = cv_get k v \<and> cv_ok v3 \<and>
    cv_evolves v v3 \<and> (\<forall>j. j \<noteq> k \<longrightarrow> cv_get j v3 = cv_get j v2)"
proof -
  note t = cv_set_fields [OF assms(2)]
  have "tok_id t \<notin> cv_used v"
    using assms(1) t(4) by (auto simp: cv_ok_def)
  then have fresh: "tok_id t \<notin> cv_used v2"
    using assms(3) t(4,5,6) unfolding cv_evolves_def
    by (metis DiffI Suc_n_not_le_n)
  have small: "tok_id t < cv_next v2"
    using assms(3) t(4,6) by (simp add: cv_evolves_def)
  have "cv_evolves v v2"
    using t(8) assms(3) by (rule cv_evolves_trans)
  then have "cv_evolves v (v2\<lparr>cv_value := f, cv_used := insert (tok_id t) (cv_used v2)\<rparr>)" for f
    using t(4) by (auto simp: cv_evolves_def)
  moreover have "cv_ok (v2\<lparr>cv_value := f, cv_used := insert (tok_id t) (cv_used v2)\<rparr>)" for f
    using assms(4) small by (simp add: cv_ok_def)
  ultimately show ?thesis
    using fresh t(2,3) by (simp add: cv_reset_def cv_get_def)
qed

section \<open>Blocks\<close>

text \<open>
  Programs made of \<open>with\<close> statements: entering may raise, the body is a sequence of blocks that
  stops at the first exception, and the exit runs whether or not the body raised.  The result says
  whether an exception is on its way out.
\<close>

datatype 'req block = Raise | With 'req "'req block list"

fun run_block :: "('req \<Rightarrow> 'w \<Rightarrow> 'e + 'h \<times> 'w) \<Rightarrow> ('h \<Rightarrow> 'w \<Rightarrow> 'e + 'w) \<Rightarrow> 'w \<Rightarrow> 'req block
      \<Rightarrow> 'w \<times> bool"
  and run_blocks :: "('req \<Rightarrow> 'w \<Rightarrow> 'e + 'h \<times> 'w) \<Rightarrow> ('h \<Rightarrow> 'w \<Rightarrow> 'e + 'w) \<Rightarrow> 'w
      \<Rightarrow> 'req block list \<Rightarrow> 'w \<times> bool" where
  "run_block enter leave w Raise = (w, True)"
| "run_block enter leave w (With req body) =
     (case enter req w of
        Inl e \<Rightarrow> (w, True)
      | Inr (h, w1) \<Rightarrow>
          (let (w2, raised) = run_blocks enter leave w1 body
           in case leave h w2 of Inl e \<Rightarrow> (w2, True) | Inr w3 \<Rightarrow> (w3, raised)))"
| "run_blocks enter leave w [] = (w, False)"
| "run_blocks enter leave w (b # bs) =
     (let (w1, raised) = run_block enter leave w b
      in if raised then (w1, True) else run_blocks enter leave w1 bs)"

text \<open>
  The contract of a scoped effect: a handle returned by \<open>enter\<close> can be left in every later state
  whose view is the one it was entered with, and leaving brings back the view before it.
\<close>

locale restoring_scope =
  fixes enter :: "'req \<Rightarrow> 'w \<Rightarrow> 'e + 'h \<times> 'w"
    and leave :: "'h \<Rightarrow> 'w \<Rightarrow> 'e + 'w"
    and view :: "'w \<Rightarrow> 'v"
    and ok :: "'w \<Rightarrow> bool"
    and evolves :: "'w \<Rightarrow> 'w \<Rightarrow> bool"
  assumes evolves_refl: "evolves w w"
    and evolves_trans: "evolves w w' \<Longrightarrow> evolves w' w'' \<Longrightarrow> evolves w w''"
    and enter_ok: "ok w \<Longrightarrow> enter r w = Inr (h, w1) \<Longrightarrow> ok w1"
    and leave_restores: "ok w \<Longrightarrow> enter r w = Inr (h, w1) \<Longrightarrow> evolves w1 w2 \<Longrightarrow> ok w2 \<Longrightarrow>
      view w2 = view w1 \<Longrightarrow>
      \<exists>w3. leave h w2 = Inr w3 \<and> ok w3 \<and> view w3 = view w \<and> evolves w w3"
begin

definition returns_to :: "'w \<Rightarrow> 'w \<Rightarrow> bool" where
  "returns_to w w' \<longleftrightarrow> ok w' \<and> view w' = view w \<and> evolves w w'"

lemma returns_to_refl: "ok w \<Longrightarrow> returns_to w w"
  by (simp add: returns_to_def evolves_refl)

lemma returns_to_trans: "returns_to w w' \<Longrightarrow> returns_to w' w'' \<Longrightarrow> returns_to w w''"
  unfolding returns_to_def by (metis evolves_trans)

lemma returns_to_with:
  assumes "ok w" "enter r w = Inr (h, w1)" "returns_to w1 w2"
  shows "\<exists>w3. leave h w2 = Inr w3 \<and> returns_to w w3"
proof -
  have "evolves w1 w2" "ok w2" "view w2 = view w1"
    using assms(3) by (simp_all add: returns_to_def)
  from leave_restores [OF assms(1,2) this] show ?thesis
    by (auto simp: returns_to_def)
qed

lemma run_With_restores:
  assumes "ok w" and body: "\<And>v. ok v \<Longrightarrow> returns_to v (fst (run_blocks enter leave v bs))"
  shows "returns_to w (fst (run_block enter leave w (With req bs)))"
proof (cases "enter req w")
  case (Inl e)
  then show ?thesis using assms(1) by (simp add: returns_to_refl)
next
  case (Inr hw)
  then obtain h w1 where e: "enter req w = Inr (h, w1)" by (cases hw) auto
  obtain w2 raised where b: "run_blocks enter leave w1 bs = (w2, raised)" by fastforce
  have "returns_to w1 w2"
    using body [of w1] enter_ok [OF assms(1) e] b by simp
  then obtain w3 where "leave h w2 = Inr w3" "returns_to w w3"
    using returns_to_with [OF assms(1) e] by blast
  with e b show ?thesis by simp
qed

lemma run_Cons_restores:
  assumes "returns_to w (fst (run_block enter leave w b))"
    and "\<And>v. ok v \<Longrightarrow> returns_to v (fst (run_blocks enter leave v bs))"
  shows "returns_to w (fst (run_blocks enter leave w (b # bs)))"
  using assms returns_to_trans
  by (cases "run_block enter leave w b") (auto simp: returns_to_def)

lemma run_blocks_restores:
  assumes "\<And>b v. b \<in> set bs \<Longrightarrow> ok v \<Longrightarrow> returns_to v (fst (run_block enter leave v b))"
    and "ok w"
  shows "returns_to w (fst (run_blocks enter leave w bs))"
  using assms
proof (induction bs arbitrary: w)
  case (Cons b bs)
  then show ?case by (intro run_Cons_restores) simp_all
qed (simp add: returns_to_refl)

lemma run_block_restores: "ok w \<Longrightarrow> returns_to w (fst (run_block enter leave w b))"
proof (induction b arbitrary: w)
  case (With req body)
  then show ?case by (intro run_With_restores run_blocks_restores)
qed (simp add: returns_to_refl)

lemma run_blocks_view:
  "ok w \<Longrightarrow> view (fst (run_blocks enter leave w bs)) = view w"
  using run_blocks_restores [of bs w] run_block_restores by (simp add: returns_to_def)

end

section \<open>Handles\<close>

text \<open>
  \<open>_ScopeRegistration\<close>: \<open>detach\<close> releases at most once, and a release that raises leaves the
  handle attached so that it can be tried again.
\<close>

definition detach_once ::
    "('h \<Rightarrow> bool) \<Rightarrow> ('h \<Rightarrow> 'h) \<Rightarrow> ('h \<Rightarrow> 'w \<Rightarrow> 'e + 'h \<times> 'w) \<Rightarrow> 'h \<Rightarrow> 'w \<Rightarrow> 'e + 'h \<times> 'w" where
  "detach_once detached mark release h w =
     (if detached h then Inr (h, w)
      else rbind (release h w) (\<lambda>(h', w'). Inr (mark h', w')))"

text \<open>\<open>_TokenTupleRegistration\<close>: append the hook, keep the token, restore the tuple.\<close>

record 'hook token_tuple_handle =
  tt_detached :: bool
  tt_token :: "'hook list token"

definition token_tuple_register ::
    "nat \<Rightarrow> 'hook \<Rightarrow> 'hook list ctxvar \<Rightarrow> 'hook token_tuple_handle \<times> 'hook list ctxvar" where
  "token_tuple_register k hook hook_var =
     (let (token, hook_var') = cv_set k (cv_get k hook_var @ [hook]) hook_var
      in (\<lparr>tt_detached = False, tt_token = token\<rparr>, hook_var'))"

definition token_tuple_release ::
    "nat \<Rightarrow> 'hook token_tuple_handle \<Rightarrow> 'hook list ctxvar
      \<Rightarrow> cv_error + 'hook token_tuple_handle \<times> 'hook list ctxvar" where
  "token_tuple_release k h hook_var =
     rbind (cv_reset k (tt_token h) hook_var) (\<lambda>hook_var'. Inr (h, hook_var'))"

definition token_tuple_detach ::
    "nat \<Rightarrow> 'hook token_tuple_handle \<Rightarrow> 'hook list ctxvar
      \<Rightarrow> cv_error + 'hook token_tuple_handle \<times> 'hook list ctxvar" where
  "token_tuple_detach k =
     detach_once tt_detached (\<lambda>h. h\<lparr>tt_detached := True\<rparr>) (token_tuple_release k)"

text \<open>
  \<open>_without_identity\<close>: the scan runs from the end and deletes the first match it meets.  Object
  identity is equality of hook values here.
\<close>

fun delete_first :: "'a \<Rightarrow> 'a list \<Rightarrow> 'a list" where
  "delete_first t [] = []"
| "delete_first t (x # xs) = (if x = t then xs else x # delete_first t xs)"

definition without_identity :: "'hook list \<Rightarrow> 'hook \<Rightarrow> 'hook list" where
  "without_identity hooks target = rev (delete_first target (rev hooks))"

record 'hook identity_handle =
  id_detached :: bool
  id_hook :: 'hook

definition identity_register ::
    "nat \<Rightarrow> 'hook \<Rightarrow> 'hook list ctxvar \<Rightarrow> 'hook identity_handle \<times> 'hook list ctxvar" where
  "identity_register k hook hook_var =
     (\<lparr>id_detached = False, id_hook = hook\<rparr>,
      snd (cv_set k (cv_get k hook_var @ [hook]) hook_var))"

definition identity_release ::
    "nat \<Rightarrow> 'hook identity_handle \<Rightarrow> 'hook list ctxvar
      \<Rightarrow> cv_error + 'hook identity_handle \<times> 'hook list ctxvar" where
  "identity_release k h hook_var =
     Inr (h, snd (cv_set k (without_identity (cv_get k hook_var) (id_hook h)) hook_var))"

definition identity_detach ::
    "nat \<Rightarrow> 'hook identity_handle \<Rightarrow> 'hook list ctxvar
      \<Rightarrow> cv_error + 'hook identity_handle \<times> 'hook list ctxvar" where
  "identity_detach k =
     detach_once id_detached (\<lambda>h. h\<lparr>id_detached := True\<rparr>) (identity_release k)"

section \<open>Both disciplines restore under with blocks\<close>

lemma detach_once_detached [simp]: "detached h \<Longrightarrow> detach_once detached mark release h w = Inr (h, w)"
  by (simp add: detach_once_def)

lemma without_identity_snoc [simp]: "without_identity (hooks @ [h]) h = hooks"
  by (simp add: without_identity_def)

lemma without_identity_append:
  "h \<in> set later \<Longrightarrow> without_identity (hooks @ later) h = hooks @ without_identity later h"
proof -
  have "delete_first h (us @ vs) = delete_first h us @ vs" if "h \<in> set us" for us vs
    using that by (induction us) auto
  then show "h \<in> set later \<Longrightarrow> ?thesis" by (simp add: without_identity_def)
qed

lemma without_identity_absent: "h \<notin> set hooks \<Longrightarrow> without_identity hooks h = hooks"
proof -
  have "h \<notin> set us \<Longrightarrow> delete_first h us = us" for us
    by (induction us) auto
  then show "h \<notin> set hooks \<Longrightarrow> ?thesis" by (simp add: without_identity_def)
qed

lemma mset_without_identity: "mset (without_identity hooks h) = mset hooks - {#h#}"
proof -
  have "mset (delete_first h us) = mset us - {#h#}" for us
    by (induction us) auto
  then show ?thesis by (simp add: without_identity_def)
qed

text \<open>\<open>__enter__\<close> and \<open>__exit__\<close> of the two kinds of handle, as the scoped effects they are.\<close>

definition token_tuple_enter ::
    "nat \<Rightarrow> 'hook \<Rightarrow> 'hook list ctxvar \<Rightarrow> cv_error + 'hook token_tuple_handle \<times> 'hook list ctxvar"
  where
  "token_tuple_enter k hook hook_var = Inr (token_tuple_register k hook hook_var)"

definition token_tuple_exit ::
    "nat \<Rightarrow> 'hook token_tuple_handle \<Rightarrow> 'hook list ctxvar \<Rightarrow> cv_error + 'hook list ctxvar" where
  "token_tuple_exit k h hook_var = map_sum id snd (token_tuple_detach k h hook_var)"

definition identity_enter ::
    "nat \<Rightarrow> 'hook \<Rightarrow> 'hook list ctxvar \<Rightarrow> cv_error + 'hook identity_handle \<times> 'hook list ctxvar"
  where
  "identity_enter k hook hook_var = Inr (identity_register k hook hook_var)"

definition identity_exit ::
    "nat \<Rightarrow> 'hook identity_handle \<Rightarrow> 'hook list ctxvar \<Rightarrow> cv_error + 'hook list ctxvar" where
  "identity_exit k h hook_var = map_sum id snd (identity_detach k h hook_var)"

interpretation token_tuples:
  restoring_scope "token_tuple_enter k" "token_tuple_exit k" "cv_get k" cv_ok cv_evolves for k
proof (unfold_locales, goal_cases)
  case (3 w r h w1)
  then obtain t where t: "cv_set k (cv_get k w @ [r]) w = (t, w1)"
    by (auto simp: token_tuple_enter_def token_tuple_register_def split: prod.splits)
  then show ?case using 3(1) cv_set_fields(7) [OF t] by simp
next
  case (4 w r h w1 w2)
  then obtain t where t: "cv_set k (cv_get k w @ [r]) w = (t, w1)"
    and h: "h = \<lparr>tt_detached = False, tt_token = t\<rparr>"
    by (auto simp: token_tuple_enter_def token_tuple_register_def split: prod.splits)
  from cv_reset_after [OF 4(1) t 4(3,4)] show ?case
    by (auto simp: h token_tuple_exit_def token_tuple_detach_def detach_once_def
        token_tuple_release_def)
qed (simp_all, rule cv_evolves_trans)

interpretation identity_tuples:
  restoring_scope "identity_enter k" "identity_exit k" "cv_get k" cv_ok cv_evolves for k
proof (unfold_locales, goal_cases)
  case (3 w r h w1)
  then obtain t where t: "cv_set k (cv_get k w @ [r]) w = (t, w1)"
    by (cases "cv_set k (cv_get k w @ [r]) w") (auto simp: identity_enter_def identity_register_def)
  then show ?case using 3(1) cv_set_fields(7) [OF t] by simp
next
  case (4 w r h w1 w2)
  then obtain t where t: "cv_set k (cv_get k w @ [r]) w = (t, w1)"
    and h: "h = \<lparr>id_detached = False, id_hook = r\<rparr>"
    by (cases "cv_set k (cv_get k w @ [r]) w") (auto simp: identity_enter_def identity_register_def)
  obtain t' w3 where t': "cv_set k (cv_get k w) w2 = (t', w3)" by fastforce
  have "identity_exit k h w2 = Inr w3"
    using 4(5) cv_set_fields(1) [OF t] t'
    by (simp add: h identity_exit_def identity_detach_def detach_once_def identity_release_def)
  moreover have "cv_evolves w w3"
    using cv_evolves_trans cv_set_fields(8) [OF t] 4(3) cv_set_fields(8) [OF t'] by blast
  ultimately show ?case
    using 4(4) cv_set_fields(1,7) [OF t'] by blast
qed (simp_all, rule cv_evolves_trans)

section \<open>Detaching out of order\<close>

fun identity_register_all ::
    "nat \<Rightarrow> 'hook list \<Rightarrow> 'hook list ctxvar \<Rightarrow> 'hook identity_handle list \<times> 'hook list ctxvar"
  where
  "identity_register_all k [] v = ([], v)"
| "identity_register_all k (hook # hooks) v =
     (let (h, v1) = identity_register k hook v;
          (hs, v2) = identity_register_all k hooks v1
      in (h # hs, v2))"

fun identity_detach_all ::
    "nat \<Rightarrow> 'hook identity_handle list \<Rightarrow> 'hook list ctxvar \<Rightarrow> cv_error + 'hook list ctxvar" where
  "identity_detach_all k [] v = Inr v"
| "identity_detach_all k (h # hs) v =
     rbind (identity_detach k h v) (\<lambda>(h', v'). identity_detach_all k hs v')"

lemma cv_get_identity_register:
  "cv_get k (snd (identity_register k hook v)) = cv_get k v @ [hook]"
  by (cases "cv_set k (cv_get k v @ [hook]) v")
    (auto simp: identity_register_def dest: cv_set_fields(1))

lemma identity_register_all_fields:
  "identity_register_all k hooks v = (hs, v') \<Longrightarrow>
    cv_get k v' = cv_get k v @ hooks \<and>
    hs = map (\<lambda>hook. \<lparr>id_detached = False, id_hook = hook\<rparr>) hooks"
proof (induction hooks arbitrary: hs v)
  case (Cons hook hooks)
  obtain h v1 where r: "identity_register k hook v = (h, v1)" by fastforce
  obtain gs where "identity_register_all k hooks v1 = (gs, v')" "hs = h # gs"
    using Cons.prems r by (auto split: prod.splits)
  then show ?case
    using Cons.IH [of v1 gs] r cv_get_identity_register [of k hook v]
    by (simp add: identity_register_def)
qed simp

lemma identity_detach_all_get:
  assumes "list_all (\<lambda>h. \<not> id_detached h) hs"
  shows "\<exists>v'. identity_detach_all k hs v = Inr v' \<and>
    cv_get k v' = foldl without_identity (cv_get k v) (map id_hook hs)"
  using assms
proof (induction hs arbitrary: v)
  case (Cons h hs)
  obtain t v1 where s: "cv_set k (without_identity (cv_get k v) (id_hook h)) v = (t, v1)"
    by fastforce
  then have "identity_detach k h v = Inr (h\<lparr>id_detached := True\<rparr>, v1)"
    using Cons.prems by (simp add: identity_detach_def detach_once_def identity_release_def)
  then show ?case
    using Cons.IH [of v1] Cons.prems cv_set_fields(1) [OF s] by simp
qed simp

lemma foldl_without_identity:
  assumes "mset ps = mset hooks"
  shows "foldl without_identity (base @ hooks) ps = base"
  using assms
proof (induction ps arbitrary: hooks)
  case (Cons p ps)
  then have "p \<in> set hooks"
    by (metis list.set_intros(1) set_mset_mset)
  moreover have "mset ps = mset (without_identity hooks p)"
    using Cons.prems [symmetric] by (simp add: mset_without_identity)
  ultimately show ?case
    using Cons.IH by (simp add: without_identity_append)
qed simp

section \<open>Properties\<close>

text \<open>
  Identity-based registrations can be detached in any order.  After registering any hooks,
  the same one twice included, detaching all their handles in whatever order leaves exactly the
  tuple that preceded them: no hook that was there before is lost or reordered and none is
  resurrected.
\<close>

theorem identity_detach_any_order:
  assumes "identity_register_all k hooks v = (hs, v1)" and "mset ps = mset hs"
  shows "\<exists>v2. identity_detach_all k ps v1 = Inr v2 \<and> cv_get k v2 = cv_get k v"
proof -
  have hs: "hs = map (\<lambda>hook. \<lparr>id_detached = False, id_hook = hook\<rparr>) hooks"
    and v1: "cv_get k v1 = cv_get k v @ hooks"
    using identity_register_all_fields [OF assms(1)] by simp_all
  have "set ps = set hs"
    using assms(2) by (metis set_mset_mset)
  then have "list_all (\<lambda>h. \<not> id_detached h) ps"
    by (auto simp: hs list_all_iff)
  then obtain v2 where "identity_detach_all k ps v1 = Inr v2"
    and v2: "cv_get k v2 = foldl without_identity (cv_get k v1) (map id_hook ps)"
    using identity_detach_all_get by blast
  moreover have "map id_hook hs = hooks"
    by (simp add: hs comp_def)
  then have "mset (map id_hook ps) = mset hooks"
    using assms(2) by (metis mset_map)
  ultimately show ?thesis
    using foldl_without_identity by (metis v1)
qed

theorem identity_detach_any_order_witness:
  "\<exists>hs v1 v2. identity_register_all 0 [5::nat, 7, 5] (cv_new [1]) = (hs, v1) \<and>
     identity_detach_all 0 (rev hs) v1 = Inr v2 \<and> cv_get 0 v2 = [1]"
proof -
  obtain hs v1 where r: "identity_register_all 0 [5::nat, 7, 5] (cv_new [1]) = (hs, v1)"
    by fastforce
  have "cv_get 0 (cv_new [1::nat]) = [1]"
    by (simp add: cv_get_def cv_new_def)
  then show ?thesis
    using identity_detach_any_order [OF r, of "rev hs"] r by auto
qed

end
