(* ===== verification/Context_State.thy ===== *)
theory Context_State
  imports Context_Policy Scope_Registration
begin

text \<open>
  The active execution context: the context variables of \<open>cuprum/context/state.py\<close>, the
  registration handles of \<open>_registration_base.py\<close>, \<open>registration.py\<close> and
  \<open>_env_registration.py\<close>, and the scoped managers of \<open>scoped.py\<close>.  Managers are objects with an
  identity, a number here; the lifecycle log records are not part of the state.
\<close>

section \<open>State\<close>

type_synonym ('h, 'c, 'r) scoped_entry = "nat \<times> ('h, 'c, 'r) cuprum_context token"

record ('h, 'c, 'r) context_world =
  w_context :: "('h, 'c, 'r) cuprum_context ctxvar"
  w_entries :: "('h, 'c, 'r) scoped_entry list ctxvar"

definition initial_world :: "('h, 'c, 'r) context_world" where
  "initial_world = \<lparr>w_context = cv_new default_context, w_entries = cv_new []\<rparr>"

datatype scope_error =
    DeriveFailed context_error
  | BindingFailed binding_error
  | VariableFailed cv_error
  | NotLifo
  | ForeignContext
  | ScopedTypeError

definition current_context :: "nat \<Rightarrow> ('h, 'c, 'r) context_world \<Rightarrow> ('h, 'c, 'r) cuprum_context" where
  "current_context k w = cv_get k (w_context w)"

section \<open>Registration handles\<close>

datatype hook_type = HookBefore | HookAfter | HookObserve | HookOther

definition context_with_hook ::
    "('h, 'c, 'r) cuprum_context \<Rightarrow> 'h \<Rightarrow> hook_type
      \<Rightarrow> context_error + ('h, 'c, 'r) cuprum_context" where
  "context_with_hook ctx hook t =
     (case t of
        HookBefore \<Rightarrow> with_before_hook ctx hook
      | HookAfter \<Rightarrow> with_after_hook ctx hook
      | HookObserve \<Rightarrow> with_observe_hook ctx hook
      | HookOther \<Rightarrow> Inl UnsupportedHookType)"

datatype ('h, 'r) registration_request =
    AllowRequest "ustr list"
  | HookRequest 'h hook_type
  | EnvRequest env_overlay env_mode
  | BindRequest ustr "'r executable_binding"

text \<open>The context-derivation step of each handle's \<open>__init__\<close>.\<close>

fun derive_context ::
    "('h, 'c, 'r) cuprum_context \<Rightarrow> ('h, 'r) registration_request
      \<Rightarrow> context_error + ('h, 'c, 'r) cuprum_context" where
  "derive_context ctx (AllowRequest programs) =
     with_allowlist ctx (ctx_allowlist ctx \<union> set programs)"
| "derive_context ctx (HookRequest hook t) = context_with_hook ctx hook t"
| "derive_context ctx (EnvRequest overlay mode) =
     with_env_overlay ctx (coerce_env_overlay (Some overlay)) mode"
| "derive_context ctx (BindRequest program binding) = with_executable_binding ctx program binding"

record ('h, 'c, 'r) registration =
  reg_detached :: bool
  reg_token :: "('h, 'c, 'r) cuprum_context token option"

definition register ::
    "nat \<Rightarrow> ('h, 'r) registration_request \<Rightarrow> ('h, 'c, 'r) context_world
      \<Rightarrow> scope_error + ('h, 'c, 'r) registration \<times> ('h, 'c, 'r) context_world" where
  "register k req w =
     (case derive_context (current_context k w) req of
        Inl e \<Rightarrow> Inl (DeriveFailed e)
      | Inr new_ctx \<Rightarrow>
          (let (token, v) = cv_set k new_ctx (w_context w)
           in Inr (\<lparr>reg_detached = False, reg_token = Some token\<rparr>, w\<lparr>w_context := v\<rparr>)))"

definition release_registration ::
    "nat \<Rightarrow> ('h, 'c, 'r) registration \<Rightarrow> ('h, 'c, 'r) context_world
      \<Rightarrow> scope_error + ('h, 'c, 'r) registration \<times> ('h, 'c, 'r) context_world" where
  "release_registration k h w =
     (case reg_token h of
        None \<Rightarrow> Inr (h, w)
      | Some token \<Rightarrow>
          (case cv_reset k token (w_context w) of
             Inl e \<Rightarrow> Inl (VariableFailed e)
           | Inr v \<Rightarrow> Inr (h\<lparr>reg_token := None\<rparr>, w\<lparr>w_context := v\<rparr>)))"

definition detach_registration ::
    "nat \<Rightarrow> ('h, 'c, 'r) registration \<Rightarrow> ('h, 'c, 'r) context_world
      \<Rightarrow> scope_error + ('h, 'c, 'r) registration \<times> ('h, 'c, 'r) context_world" where
  "detach_registration k =
     detach_once reg_detached (\<lambda>h. h\<lparr>reg_detached := True\<rparr>) (release_registration k)"

definition bind_executable ::
    "nat \<Rightarrow> ustr \<Rightarrow> 'r path_or_resolver \<Rightarrow> bool \<Rightarrow> ('h, 'c, 'r) context_world
      \<Rightarrow> scope_error + ('h, 'c, 'r) registration \<times> ('h, 'c, 'r) context_world" where
  "bind_executable k program v allow_relative w =
     (case make_executable_binding program v allow_relative of
        Inl e \<Rightarrow> Inl (BindingFailed e)
      | Inr binding \<Rightarrow> register k (BindRequest program binding) w)"

definition env_registration ::
    "nat \<Rightarrow> env_overlay list \<Rightarrow> (ustr, env_kwarg) pydict \<Rightarrow> ('h, 'c, 'r) context_world
      \<Rightarrow> scope_error + ('h, 'c, 'r) registration \<times> ('h, 'c, 'r) context_world" where
  "env_registration k overlays kwvars w =
     (let (merged, mode) = env_arguments overlays kwvars
      in register k (EnvRequest merged mode) w)"

section \<open>Scoped managers\<close>

definition push_scoped_entry ::
    "nat \<Rightarrow> nat \<Rightarrow> ('h, 'c, 'r) cuprum_context token \<Rightarrow> ('h, 'c, 'r) context_world
      \<Rightarrow> ('h, 'c, 'r) context_world" where
  "push_scoped_entry k manager token w =
     w\<lparr>w_entries := snd (cv_set k (cv_get k (w_entries w) @ [(manager, token)]) (w_entries w))\<rparr>"

definition reset_scoped_entry ::
    "nat \<Rightarrow> nat \<Rightarrow> ('h, 'c, 'r) context_world \<Rightarrow> scope_error + ('h, 'c, 'r) context_world" where
  "reset_scoped_entry k manager w =
     (let entries = cv_get k (w_entries w)
      in if entries = [] \<or> fst (last entries) \<noteq> manager then Inl NotLifo
         else
           (case cv_reset k (snd (last entries)) (w_context w) of
              Inl TokenForeign \<Rightarrow> Inl ForeignContext
            | Inl TokenUsed \<Rightarrow> Inl (VariableFailed TokenUsed)
            | Inr v \<Rightarrow>
                Inr (w\<lparr>w_context := v,
                       w_entries := snd (cv_set k (butlast entries) (w_entries w))\<rparr>)))"

definition enter_scoped ::
    "nat \<Rightarrow> nat \<Rightarrow> ('h, 'c, 'r) scope_config \<Rightarrow> ('h, 'c, 'r) context_world
      \<Rightarrow> scope_error + ('h, 'c, 'r) context_world" where
  "enter_scoped k manager config w =
     (case narrow (current_context k w) config of
        Inl e \<Rightarrow> Inl (DeriveFailed e)
      | Inr ctx \<Rightarrow>
          (let (token, v) = cv_set k ctx (w_context w)
           in Inr (push_scoped_entry k manager token (w\<lparr>w_context := v\<rparr>))))"

definition scoped_config ::
    "('c \<Rightarrow> ustr set) \<Rightarrow> ('h, 'c, 'r) scope_config option \<Rightarrow> 'c option
      \<Rightarrow> scope_error + ('h, 'c, 'r) scope_config" where
  "scoped_config catalogue_allowlist config catalogue =
     (case config of
        Some c \<Rightarrow> (case catalogue of Some _ \<Rightarrow> Inl ScopedTypeError | None \<Rightarrow> Inr c)
      | None \<Rightarrow>
          (case catalogue of
             None \<Rightarrow> Inl ScopedTypeError
           | Some k \<Rightarrow>
               Inr (default_scope_config\<lparr>sc_allowlist := Some (catalogue_allowlist k),
                                         sc_catalogue := Some k\<rparr>)))"

section \<open>Scopes and registrations as with blocks\<close>

datatype ('h, 'c, 'r) scope_request =
    Register "('h, 'r) registration_request"
  | Scoped nat "('h, 'c, 'r) scope_config"

datatype ('h, 'c, 'r) scope_handle =
    Registered "('h, 'c, 'r) registration"
  | Manager nat

fun world_enter ::
    "nat \<Rightarrow> ('h, 'c, 'r) scope_request \<Rightarrow> ('h, 'c, 'r) context_world
      \<Rightarrow> scope_error + ('h, 'c, 'r) scope_handle \<times> ('h, 'c, 'r) context_world" where
  "world_enter k (Register req) w =
     rbind (register k req w) (\<lambda>(h, w'). Inr (Registered h, w'))"
| "world_enter k (Scoped manager config) w =
     rbind (enter_scoped k manager config w) (\<lambda>w'. Inr (Manager manager, w'))"

fun world_exit ::
    "nat \<Rightarrow> ('h, 'c, 'r) scope_handle \<Rightarrow> ('h, 'c, 'r) context_world
      \<Rightarrow> scope_error + ('h, 'c, 'r) context_world" where
  "world_exit k (Registered h) w = map_sum id snd (detach_registration k h w)"
| "world_exit k (Manager manager) w = reset_scoped_entry k manager w"

definition world_view ::
    "('h, 'c, 'r) context_world
      \<Rightarrow> (nat \<Rightarrow> ('h, 'c, 'r) cuprum_context) \<times> (nat \<Rightarrow> ('h, 'c, 'r) scoped_entry list)" where
  "world_view w = (cv_value (w_context w), cv_value (w_entries w))"

definition world_ok :: "('h, 'c, 'r) context_world \<Rightarrow> bool" where
  "world_ok w \<longleftrightarrow> cv_ok (w_context w)"

definition world_evolves :: "('h, 'c, 'r) context_world \<Rightarrow> ('h, 'c, 'r) context_world \<Rightarrow> bool" where
  "world_evolves w w' \<longleftrightarrow> cv_evolves (w_context w) (w_context w')"

lemma world_ok_initial [simp]: "world_ok initial_world"
  by (simp add: world_ok_def initial_world_def)

lemma register_Inr:
  assumes "register k req w = Inr (h, w1)"
  obtains ctx t v where "derive_context (current_context k w) req = Inr ctx"
    and "cv_set k ctx (w_context w) = (t, v)"
    and "h = \<lparr>reg_detached = False, reg_token = Some t\<rparr>" "w1 = w\<lparr>w_context := v\<rparr>"
  using assms by (auto simp: register_def split: sum.splits prod.splits)

lemma enter_scoped_Inr:
  assumes "enter_scoped k m s w = Inr w1"
  obtains ctx t v where "narrow (current_context k w) s = Inr ctx"
    and "cv_set k ctx (w_context w) = (t, v)"
    and "w1 = push_scoped_entry k m t (w\<lparr>w_context := v\<rparr>)"
  using assms by (auto simp: enter_scoped_def split: sum.splits prod.splits)

lemma enter_scoped_total:
  assumes "context_ok (current_context k w)" "scope_ok s"
  shows "\<exists>w1. enter_scoped k m s w = Inr w1"
proof -
  obtain ctx where "narrow (current_context k w) s = Inr ctx"
    using narrow_Inr [OF assms] by blast
  then show ?thesis by (simp add: enter_scoped_def case_prod_beta)
qed

lemma cv_value_cv_set: "cv_value (snd (cv_set k x v)) = (cv_value v)(k := x)"
  by (simp add: cv_set_def)

lemma cv_reset_value:
  assumes "cv_ok v" "cv_set k x v = (t, v1)" "cv_evolves v1 v2" "cv_ok v2"
    and "cv_value v2 = cv_value v1"
  shows "\<exists>v3. cv_reset k t v2 = Inr v3 \<and> cv_value v3 = cv_value v \<and> cv_ok v3 \<and> cv_evolves v v3"
proof -
  obtain v3 where v3: "cv_reset k t v2 = Inr v3" "cv_ok v3" "cv_evolves v v3"
    and "cv_get k v3 = cv_get k v" "\<And>j. j \<noteq> k \<Longrightarrow> cv_get j v3 = cv_get j v2"
    using cv_reset_after [OF assms(1-4)] by blast
  moreover have "cv_get j v2 = cv_get j v" if "j \<noteq> k" for j
    using cv_set_fields(9) [OF assms(2) that] assms(5) by (simp add: cv_get_def)
  ultimately have "cv_value v3 j = cv_value v j" for j
    unfolding cv_get_def by metis
  with v3 show ?thesis by blast
qed

lemma register_restores:
  assumes "world_ok w" "register k req w = Inr (h, w1)"
    and "world_evolves w1 w2" "world_ok w2" "world_view w2 = world_view w1"
  shows "\<exists>h' w3. detach_registration k h w2 = Inr (h', w3) \<and> world_ok w3 \<and>
    world_view w3 = world_view w \<and> world_evolves w w3"
proof -
  obtain ctx t v where t: "cv_set k ctx (w_context w) = (t, v)"
    and h: "h = \<lparr>reg_detached = False, reg_token = Some t\<rparr>" "w1 = w\<lparr>w_context := v\<rparr>"
    using assms(2) by (rule register_Inr)
  have "cv_value (w_context w2) = cv_value v"
    using assms(5) h by (simp add: world_view_def)
  with cv_reset_value [OF _ t, of "w_context w2"] assms(1,3,4) h
  obtain v3 where "cv_reset k t (w_context w2) = Inr v3" "cv_value v3 = cv_value (w_context w)"
    and "cv_ok v3" "cv_evolves (w_context w) v3"
    by (auto simp: world_ok_def world_evolves_def)
  then show ?thesis
    using assms(5) h
    by (simp add: detach_registration_def detach_once_def release_registration_def world_ok_def
        world_view_def world_evolves_def)
qed

lemma enter_scoped_restores:
  assumes "world_ok w" "enter_scoped k m s w = Inr w1"
    and "world_evolves w1 w2" "world_ok w2" "world_view w2 = world_view w1"
  shows "\<exists>w3. reset_scoped_entry k m w2 = Inr w3 \<and> world_ok w3 \<and>
    world_view w3 = world_view w \<and> world_evolves w w3"
proof -
  obtain ctx t v where t: "cv_set k ctx (w_context w) = (t, v)"
    and w1: "w1 = push_scoped_entry k m t (w\<lparr>w_context := v\<rparr>)"
    using assms(2) by (rule enter_scoped_Inr)
  have "cv_value (w_context w2) = cv_value v"
    and entries: "cv_value (w_entries w2) =
      (cv_value (w_entries w))(k := cv_get k (w_entries w) @ [(m, t)])"
    using assms(5) by (simp_all add: w1 world_view_def push_scoped_entry_def cv_value_cv_set)
  with cv_reset_value [OF _ t, of "w_context w2"] assms(1,3,4)
  obtain v3 where "cv_reset k t (w_context w2) = Inr v3" "cv_value v3 = cv_value (w_context w)"
    and "cv_ok v3" "cv_evolves (w_context w) v3"
    by (auto simp: world_ok_def world_evolves_def w1 push_scoped_entry_def)
  moreover have "cv_get k (w_entries w2) = cv_get k (w_entries w) @ [(m, t)]"
    using entries by (simp add: cv_get_def)
  ultimately show ?thesis
    using entries
    by (simp add: reset_scoped_entry_def world_ok_def world_view_def world_evolves_def
        cv_value_cv_set) (simp add: cv_get_def)
qed

interpretation contexts:
  restoring_scope "world_enter k" "world_exit k" world_view world_ok world_evolves for k
proof (unfold_locales, goal_cases)
  case (3 w r h w1)
  then show ?case
    by (cases r)
      (auto simp: result_iff world_ok_def push_scoped_entry_def
        elim!: register_Inr enter_scoped_Inr intro: cv_set_fields(7))
next
  case (4 w r h w1 w2)
  show ?case
  proof (cases r)
    case (Register req)
    then obtain g where "register k req w = Inr (g, w1)" "h = Registered g"
      using 4(2) by (auto simp: result_iff)
    then show ?thesis
      using register_restores [OF 4(1) _ 4(3-5)] by fastforce
  next
    case (Scoped m s)
    then have "enter_scoped k m s w = Inr w1" "h = Manager m"
      using 4(2) by (auto simp: result_iff)
    then show ?thesis
      using enter_scoped_restores [OF 4(1) _ 4(3-5)] by fastforce
  qed
qed (auto simp: world_evolves_def elim: cv_evolves_trans)

section \<open>Properties\<close>

text \<open>
  (C20) Scopes leave nothing behind.  Whatever a program of nested \<open>with\<close> blocks does with scoped
  managers, allowlist extensions, hooks, environment overlays and executable bindings, and whether
  its body finishes, raises, or a scope fails to open, the execution context and the stack of scoped
  entries are afterwards exactly what they were before, in every logical context.
\<close>

theorem with_blocks_restore_context:
  assumes "world_ok w"
  shows "world_view (fst (run_blocks (world_enter k) (world_exit k) w body)) = world_view w \<and>
    current_context j (fst (run_blocks (world_enter k) (world_exit k) w body)) = current_context j w"
  using contexts.run_blocks_view [OF assms, of k body]
  by (simp add: current_context_def cv_get_def world_view_def)

theorem with_blocks_restore_context_witness:
  "current_context 0
     (fst (run_blocks (world_enter 0) (world_exit 0)
        (initial_world :: (nat, nat, nat) context_world)
        [With (Scoped 1 (default_scope_config\<lparr>sc_allowlist := Some {lit ''git''}\<rparr>))
           [With (Register (AllowRequest [lit ''ls''])) [Raise]]])) = default_context"
proof -
  have "current_context 0 (initial_world :: (nat, nat, nat) context_world) = default_context"
    by (simp add: current_context_def cv_get_def initial_world_def cv_new_def)
  then show ?thesis
    using with_blocks_restore_context [OF world_ok_initial] by metis
qed

text \<open>
  The token discipline of a registration handle outside \<open>with\<close> blocks.  Whatever was
  registered, detached or set since, the first \<open>detach\<close> in the handle's own logical context
  brings back exactly the context the registration was made in; a second \<open>detach\<close> changes
  nothing; and a \<open>detach\<close> from another logical context is refused and leaves the handle
  attached, so that it can still be detached where it belongs.
\<close>

theorem detach_restores_creation_context:
  assumes "world_ok w" "register k req w = Inr (h, w1)"
    and "world_evolves w1 w2" "world_ok w2"
  shows "\<exists>h' w3. detach_registration k h w2 = Inr (h', w3) \<and>
    current_context k w3 = current_context k w \<and>
    (\<forall>j w4. detach_registration j h' w4 = Inr (h', w4)) \<and>
    (\<forall>j. j \<noteq> k \<longrightarrow> detach_registration j h w2 = Inl (VariableFailed TokenForeign))"
proof -
  obtain ctx t v where t: "cv_set k ctx (w_context w) = (t, v)"
    and h: "h = \<lparr>reg_detached = False, reg_token = Some t\<rparr>" "w1 = w\<lparr>w_context := v\<rparr>"
    using assms(2) by (rule register_Inr)
  obtain v3 where v3: "cv_reset k t (w_context w2) = Inr v3"
    and "cv_get k v3 = cv_get k (w_context w)"
    using cv_reset_after [OF _ t, of "w_context w2"] assms h
    by (auto simp: world_ok_def world_evolves_def)
  moreover have "cv_reset j t (w_context w2) = Inl TokenForeign" if "j \<noteq> k" for j
    using v3 cv_set_fields(3) [OF t] that by (auto simp: cv_reset_def split: if_splits)
  ultimately show ?thesis
    by (simp add: h detach_registration_def detach_once_def release_registration_def
        current_context_def)
qed

theorem detach_restores_creation_context_witness:
  "\<exists>h w1 w2 h' w3.
     register 0 (AllowRequest [lit ''ls'']) (initial_world :: (nat, nat, nat) context_world)
       = Inr (h, w1) \<and>
     enter_scoped 0 7 default_scope_config w1 = Inr w2 \<and>
     detach_registration 0 h w2 = Inr (h', w3) \<and> current_context 0 w3 = default_context"
proof -
  let ?w = "initial_world :: (nat, nat, nat) context_world"
  have c: "context_ok (current_context 0 ?w)" "current_context 0 ?w = default_context"
    by (simp_all add: current_context_def cv_get_def initial_world_def cv_new_def)
  then obtain h w1 where r: "register 0 (AllowRequest [lit ''ls'']) ?w = Inr (h, w1)"
    by (auto simp: register_def with_allowlist_def cv_set_def)
  then obtain ctx where "context_ok ctx" "current_context 0 w1 = ctx" "world_ok w1"
  proof (rule register_Inr)
    fix ctx t v
    assume d: "derive_context (current_context 0 ?w) (AllowRequest [lit ''ls'']) = Inr ctx"
      and t: "cv_set 0 ctx (w_context ?w) = (t, v)" and w1: "w1 = ?w\<lparr>w_context := v\<rparr>"
    from d have "context_ok ctx" by (auto simp: with_allowlist_def intro: replaced_imp_ok)
    moreover have "current_context 0 w1 = ctx" "world_ok w1"
      using cv_set_fields(1,7) [OF t] world_ok_initial w1
      by (auto simp: current_context_def world_ok_def)
    ultimately show thesis using that by blast
  qed
  moreover have "scope_ok (default_scope_config :: (nat, nat, nat) scope_config)"
    by (simp add: scope_ok_def default_scope_config_def timeout_ok_def)
  ultimately obtain w2 where e: "enter_scoped 0 7 default_scope_config w1 = Inr w2"
    using enter_scoped_total by blast
  have "world_evolves w1 w2" "world_ok w2"
    using e \<open>world_ok w1\<close>
    by (auto simp: world_evolves_def world_ok_def push_scoped_entry_def
        elim!: enter_scoped_Inr intro: cv_set_fields(7,8))
  from detach_restores_creation_context [OF world_ok_initial r this] r e c(2)
  show ?thesis by metis
qed

end
