(* ===== verification/Catalogue.thy ===== *)
theory Catalogue
  imports Py_Dict Py_Path
begin

text \<open>
  The program catalogue (\<open>cuprum/catalogue.py\<close>, \<open>_catalogue_helpers.py\<close>,
  \<open>_catalogue_defaults.py\<close>): projects indexed by name, programs indexed by their single
  owner, and the lookups that block every program that no project registered.  The main facts say
  exactly when a catalogue can be built, which error is raised otherwise, and that a lookup returns
  the one owner.
\<close>

section \<open>Data\<close>

record project_settings =
  ps_name :: ustr
  ps_programs :: "ustr list"
  ps_documentation_locations :: "ustr list"
  ps_noise_rules :: "ustr list"

definition owns :: "project_settings \<Rightarrow> ustr \<Rightarrow> bool" where
  "owns p program \<longleftrightarrow> program \<in> set (ps_programs p)"

record program_entry =
  pe_program :: ustr
  pe_project :: project_settings

definition entry_project_name :: "program_entry \<Rightarrow> ustr" where
  "entry_project_name e = ps_name (pe_project e)"

record program_catalogue =
  pc_projects :: "(ustr, project_settings) pydict"
  pc_program_to_project :: "(ustr, project_settings) pydict"
  pc_allowlist :: "ustr set"
  pc_visible_settings :: "(ustr, project_settings) pydict"

datatype catalogue_error =
    Duplicate_project ustr
  | Duplicate_program ustr ustr
  | Unknown_program ustr
  | No_programs

section \<open>Indexing\<close>

text \<open>The loops carry the dictionary built so far; a duplicate raises at once.\<close>

fun index_projects_from ::
  "(ustr, project_settings) pydict \<Rightarrow> project_settings list \<Rightarrow>
    catalogue_error + (ustr, project_settings) pydict" where
  "index_projects_from indexed [] = Inr indexed"
| "index_projects_from indexed (project # projects) =
    (if map_of indexed (ps_name project) \<noteq> None then Inl (Duplicate_project (ps_name project))
     else index_projects_from (dict_set (ps_name project) project indexed) projects)"

definition index_projects ::
  "project_settings list \<Rightarrow> catalogue_error + (ustr, project_settings) pydict" where
  "index_projects projects = index_projects_from [] projects"

fun index_project_programs ::
  "project_settings \<Rightarrow> (ustr, project_settings) pydict \<Rightarrow> ustr list \<Rightarrow>
    catalogue_error + (ustr, project_settings) pydict" where
  "index_project_programs project m [] = Inr m"
| "index_project_programs project m (program # programs) =
    (case map_of m program of
       Some owner \<Rightarrow> Inl (Duplicate_program program (ps_name owner))
     | None \<Rightarrow> index_project_programs project (dict_set program project m) programs)"

fun index_programs_from ::
  "(ustr, project_settings) pydict \<Rightarrow> project_settings list \<Rightarrow>
    catalogue_error + (ustr, project_settings) pydict" where
  "index_programs_from m [] = Inr m"
| "index_programs_from m (project # projects) =
    rbind (index_project_programs project m (ps_programs project))
      (\<lambda>m. index_programs_from m projects)"

definition index_programs ::
  "(ustr, project_settings) pydict \<Rightarrow> catalogue_error + (ustr, project_settings) pydict" where
  "index_programs projects = index_programs_from [] (map snd projects)"

section \<open>The catalogue\<close>

definition new_catalogue :: "project_settings list \<Rightarrow> catalogue_error + program_catalogue" where
  "new_catalogue projects =
    rbind (index_projects projects) (\<lambda>indexed.
    rbind (index_programs indexed) (\<lambda>owners.
    Inr \<lparr>pc_projects = indexed, pc_program_to_project = owners,
      pc_allowlist = fst ` set owners, pc_visible_settings = indexed\<rparr>))"

definition coerce_program :: "ustr \<Rightarrow> ustr" where
  "coerce_program raw = raw"

definition derive_project_name :: "ustr list \<Rightarrow> ustr" where
  "derive_project_name programs =
    join_with (lit ''-'')
      (map (\<lambda>program. if nt_drive program \<noteq> [] then nt_name program
                      else posix_name (posix_parse program)) programs)"

definition from_programs ::
  "ustr list \<Rightarrow> ustr option \<Rightarrow> ustr list \<Rightarrow> ustr list \<Rightarrow>
    catalogue_error + program_catalogue" where
  "from_programs programs name docs noise =
    (if programs = [] then Inl No_programs
     else
       let coerced = map coerce_program programs
       in new_catalogue
         [\<lparr>ps_name = (case name of None \<Rightarrow> derive_project_name coerced | Some n \<Rightarrow> n),
           ps_programs = coerced, ps_documentation_locations = docs, ps_noise_rules = noise\<rparr>])"

definition from_project :: "project_settings \<Rightarrow> catalogue_error + program_catalogue" where
  "from_project settings = new_catalogue [settings]"

definition catalogue_is_allowed :: "program_catalogue \<Rightarrow> ustr \<Rightarrow> bool" where
  "catalogue_is_allowed c program \<longleftrightarrow> coerce_program program \<in> pc_allowlist c"

definition lookup :: "program_catalogue \<Rightarrow> ustr \<Rightarrow> catalogue_error + program_entry" where
  "lookup c program =
    (let value = coerce_program program
     in case map_of (pc_program_to_project c) value of
          None \<Rightarrow> Inl (Unknown_program value)
        | Some project \<Rightarrow> Inr \<lparr>pe_program = value, pe_project = project\<rparr>)"

definition project_for :: "program_catalogue \<Rightarrow> ustr \<Rightarrow> catalogue_error + project_settings" where
  "project_for c program = rbind (lookup c program) (\<lambda>e. Inr (pe_project e))"

section \<open>The default catalogue\<close>

definition default_project_data :: "(ustr \<times> ustr list \<times> ustr list \<times> ustr list) list" where
  "default_project_data =
    [(lit ''core-ops'',
      [lit ''echo'', lit ''git'', lit ''ls'', lit ''rsync'', lit ''tar''],
      [lit ''docs/users-guide.md#run-a-command''],
      [lit ''^progress:'', lit ''^note:'']),
     (lit ''docs'',
      [lit ''mdbook''],
      [lit ''https://docs.example.invalid/cuprum/catalogue''],
      [lit ''^'' @ [backslash] @ lit ''[INFO'' @ [backslash] @ lit '']''])]"

definition default_projects :: "project_settings list" where
  "default_projects =
    map (\<lambda>(name, programs, docs, noise).
      \<lparr>ps_name = name, ps_programs = programs, ps_documentation_locations = docs,
        ps_noise_rules = noise\<rparr>) default_project_data"

definition default_catalogue :: "catalogue_error + program_catalogue" where
  "default_catalogue = new_catalogue default_projects"

section \<open>What the loops build\<close>

lemma index_projects_from_Inr [result_iff]:
  "index_projects_from d ps = Inr r \<longleftrightarrow>
    r = d @ map (\<lambda>p. (ps_name p, p)) ps \<and> distinct (map ps_name ps) \<and>
    ps_name ` set ps \<inter> fst ` set d = {}"
proof (induction ps arbitrary: d)
  case Nil
  then show ?case by auto
next
  case (Cons p ps)
  show ?case
  proof (cases "map_of d (ps_name p)")
    case None
    then have new: "ps_name p \<notin> fst ` set d"
      by (simp add: map_of_eq_None_iff)
    with None Cons.IH [of "dict_set (ps_name p) p d"] show ?thesis
      by (auto simp: dict_set_new)
  next
    case (Some q)
    then have "ps_name p \<in> fst ` set d"
      by (metis map_of_eq_None_iff option.distinct(1))
    with Some show ?thesis by auto
  qed
qed

lemma index_projects_from_Inl:
  "index_projects_from d ps = Inl e \<Longrightarrow>
    \<exists>qs p rs. ps = qs @ p # rs \<and> e = Duplicate_project (ps_name p) \<and>
      (ps_name p \<in> fst ` set d \<or> ps_name p \<in> ps_name ` set qs)"
proof (induction ps arbitrary: d)
  case Nil
  then show ?case by simp
next
  case (Cons p ps)
  show ?case
  proof (cases "map_of d (ps_name p)")
    case None
    then have new: "ps_name p \<notin> fst ` set d"
      by (simp add: map_of_eq_None_iff)
    with None Cons.prems obtain qs q rs where
      "ps = qs @ q # rs" "e = Duplicate_project (ps_name q)"
      "ps_name q \<in> insert (ps_name p) (fst ` set d) \<or> ps_name q \<in> ps_name ` set qs"
      using Cons.IH [of "dict_set (ps_name p) p d"] by (auto simp: dict_set_new)
    then show ?thesis
      by (intro exI [of _ "p # qs"] exI [of _ q] exI [of _ rs]) auto
  next
    case (Some q)
    then have "ps_name p \<in> fst ` set d"
      by (metis map_of_eq_None_iff option.distinct(1))
    with Some Cons.prems show ?thesis
      by (intro exI [of _ "[]"] exI [of _ p] exI [of _ ps]) auto
  qed
qed

lemma index_project_programs_Inr [result_iff]:
  "index_project_programs p m gs = Inr r \<longleftrightarrow>
    r = m @ map (\<lambda>g. (g, p)) gs \<and> distinct gs \<and> set gs \<inter> fst ` set m = {}"
proof (induction gs arbitrary: m)
  case Nil
  then show ?case by auto
next
  case (Cons g gs)
  show ?case
  proof (cases "map_of m g")
    case None
    then have new: "g \<notin> fst ` set m"
      by (simp add: map_of_eq_None_iff)
    with None Cons.IH [of "dict_set g p m"] show ?thesis
      by (auto simp: dict_set_new)
  next
    case (Some q)
    then have "g \<in> fst ` set m"
      by (metis map_of_eq_None_iff option.distinct(1))
    with Some show ?thesis by auto
  qed
qed

definition ownership :: "project_settings list \<Rightarrow> (ustr, project_settings) pydict" where
  "ownership ps = concat (map (\<lambda>p. map (\<lambda>g. (g, p)) (ps_programs p)) ps)"

lemma ownership_simps [simp]:
  "ownership [] = []"
  "ownership (p # ps) = map (\<lambda>g. (g, p)) (ps_programs p) @ ownership ps"
  by (simp_all add: ownership_def)

lemma fst_ownership: "fst ` set (ownership ps) = (\<Union>p \<in> set ps. set (ps_programs p))"
  by (induction ps) (auto simp: image_Un image_image)

lemma map_fst_ownership: "map fst (ownership ps) = concat (map ps_programs ps)"
  by (induction ps) (auto simp: comp_def)

lemma index_programs_from_Inr [result_iff]:
  "index_programs_from m ps = Inr r \<longleftrightarrow>
    r = m @ ownership ps \<and> distinct (concat (map ps_programs ps)) \<and>
    set (concat (map ps_programs ps)) \<inter> fst ` set m = {}"
  by (induction ps arbitrary: m)
    (auto simp: result_iff image_Un image_image Int_Un_distrib Int_Un_distrib2)

lemma new_catalogue_Inr [result_iff]:
  "new_catalogue ps = Inr c \<longleftrightarrow>
    distinct (map ps_name ps) \<and> distinct (concat (map ps_programs ps)) \<and>
    c = \<lparr>pc_projects = map (\<lambda>p. (ps_name p, p)) ps, pc_program_to_project = ownership ps,
      pc_allowlist = (\<Union>p \<in> set ps. set (ps_programs p)),
      pc_visible_settings = map (\<lambda>p. (ps_name p, p)) ps\<rparr>"
  by (auto simp: new_catalogue_def index_projects_def index_programs_def result_iff comp_def
      fst_ownership)

lemma map_of_ownership:
  assumes "distinct (concat (map ps_programs ps))" "p \<in> set ps" "g \<in> set (ps_programs p)"
  shows "map_of (ownership ps) g = Some p"
proof -
  have "distinct (map fst (ownership ps))"
    using assms(1) by (simp add: map_fst_ownership)
  moreover have "(g, p) \<in> set (ownership ps)"
    using assms(2,3) by (auto simp: ownership_def)
  ultimately show ?thesis by (rule map_of_is_SomeI)
qed

lemma map_of_ownership_SomeD:
  "map_of (ownership ps) g = Some p \<Longrightarrow> p \<in> set ps \<and> g \<in> set (ps_programs p)"
  by (auto dest!: map_of_SomeD simp: ownership_def)

lemma map_of_ownership_None_iff:
  "map_of (ownership ps) g = None \<longleftrightarrow> (\<forall>p \<in> set ps. g \<notin> set (ps_programs p))"
  using fst_ownership [of ps] by (simp add: map_of_eq_None_iff)

section \<open>Properties\<close>

text \<open>A catalogue can be built exactly when no two projects share a name and no program is
  listed twice, within one project or across projects.\<close>

theorem catalogue_constructs_iff:
  "(\<exists>c. new_catalogue ps = Inr c) \<longleftrightarrow>
    distinct (map ps_name ps) \<and> distinct (concat (map ps_programs ps))"
  by (simp add: result_iff)

text \<open>In a catalogue that was built, a lookup of any program returns the entry of the one
  project that lists it, and raises UnknownProgramError exactly for the programs no project lists,
  which are also those that \<open>is_allowed\<close> refuses.\<close>

theorem catalogue_lookup:
  assumes "new_catalogue ps = Inr c"
  shows "(lookup c g = Inr \<lparr>pe_program = g, pe_project = p\<rparr> \<longleftrightarrow> p \<in> set ps \<and> owns p g) \<and>
    (lookup c g = Inl (Unknown_program g) \<longleftrightarrow> (\<forall>p \<in> set ps. \<not> owns p g)) \<and>
    (catalogue_is_allowed c g \<longleftrightarrow> (\<exists>!p. p \<in> set ps \<and> owns p g))"
proof (intro conjI)
  from assms have dist: "distinct (concat (map ps_programs ps))"
    and owner: "pc_program_to_project c = ownership ps"
    and allow: "pc_allowlist c = (\<Union>p \<in> set ps. set (ps_programs p))"
    by (auto simp: result_iff)
  show one: "lookup c g = Inr \<lparr>pe_program = g, pe_project = p\<rparr> \<longleftrightarrow> p \<in> set ps \<and> owns p g" for p
    using map_of_ownership [OF dist] map_of_ownership_SomeD [of ps g p]
    by (auto simp: lookup_def owner owns_def coerce_program_def split: option.splits)
  show "lookup c g = Inl (Unknown_program g) \<longleftrightarrow> (\<forall>p \<in> set ps. \<not> owns p g)"
    using map_of_ownership_None_iff [of ps g]
    by (auto simp: lookup_def owner owns_def coerce_program_def split: option.splits)
  have "p = q" if "p \<in> set ps \<and> owns p g" "q \<in> set ps \<and> owns q g" for p q
    using that one [of p] one [of q] by (metis Inr_inject program_entry.ext_inject)
  then show "catalogue_is_allowed c g \<longleftrightarrow> (\<exists>!p. p \<in> set ps \<and> owns p g)"
    by (auto simp: catalogue_is_allowed_def allow owns_def coerce_program_def)
qed

lemma catalogue_lookup_witness:
  "\<exists>c. from_programs [lit ''/usr/bin/git'', lit ''C:/tools/cargo''] None [] [] = Inr c \<and>
    rbind (lookup c (lit ''/usr/bin/git'')) (\<lambda>e. Inr (entry_project_name e)) =
      Inr (lit ''git-cargo'') \<and>
    lookup c (lit ''rm'') = Inl (Unknown_program (lit ''rm''))"
proof -
  define p where "p = \<lparr>ps_name = lit ''git-cargo'',
    ps_programs = [lit ''/usr/bin/git'', lit ''C:/tools/cargo''],
    ps_documentation_locations = [], ps_noise_rules = []\<rparr>"
  have name: "derive_project_name [lit ''/usr/bin/git'', lit ''C:/tools/cargo''] = lit ''git-cargo''"
    by code_simp
  have distinct_ps: "distinct (map ps_name [p]) \<and> distinct (concat (map ps_programs [p]))"
    by (simp add: p_def lit_def)
  then obtain c where c: "new_catalogue [p] = Inr c"
    by (simp add: result_iff)
  have "from_programs [lit ''/usr/bin/git'', lit ''C:/tools/cargo''] None [] [] = Inr c"
    using c name by (simp add: from_programs_def coerce_program_def p_def)
  moreover have "lookup c (lit ''/usr/bin/git'') =
      Inr \<lparr>pe_program = lit ''/usr/bin/git'', pe_project = p\<rparr>"
    using catalogue_lookup [OF c] by (simp add: p_def owns_def)
  moreover have "lookup c (lit ''rm'') = Inl (Unknown_program (lit ''rm''))"
    using catalogue_lookup [OF c] by (simp add: p_def owns_def lit_def)
  ultimately show ?thesis
    by (auto simp: entry_project_name_def p_def)
qed

text \<open>What a failing loop has found: the program is listed a second time, and the name in the
  error is that of the first project listing it.\<close>

lemma index_project_programs_Inl:
  "index_project_programs p m gs = Inl e \<Longrightarrow>
    \<exists>g q. e = Duplicate_program g (ps_name q) \<and> g \<in> set gs \<and>
      (map_of m g = Some q \<or> map_of m g = None \<and> q = p \<and> 2 \<le> count_list gs g)"
proof (induction gs arbitrary: m)
  case Nil
  then show ?case by simp
next
  case (Cons g gs)
  show ?case
  proof (cases "map_of m g")
    case None
    with Cons.prems Cons.IH [of "dict_set g p m"] obtain h q where
      h: "e = Duplicate_program h (ps_name q)" "h \<in> set gs"
        "map_of (dict_set g p m) h = Some q \<or>
          map_of (dict_set g p m) h = None \<and> q = p \<and> 2 \<le> count_list gs h"
      by auto
    moreover have "1 \<le> count_list gs h"
      using h(2) by (metis count_list_0_iff less_one not_le)
    ultimately show ?thesis
      using None by (intro exI [of _ h] exI [of _ q]) (auto split: if_splits)
  next
    case (Some q)
    with Cons.prems show ?thesis by auto
  qed
qed

definition first_listed :: "project_settings list \<Rightarrow> ustr \<Rightarrow> project_settings option" where
  "first_listed ps g = find (\<lambda>p. g \<in> set (ps_programs p)) ps"

lemma index_programs_from_Inl:
  "index_programs_from m ps = Inl e \<Longrightarrow>
    \<exists>g q. e = Duplicate_program g (ps_name q) \<and>
      (map_of m g = Some q \<and> g \<in> set (concat (map ps_programs ps)) \<or>
       map_of m g = None \<and> first_listed ps g = Some q \<and>
         2 \<le> count_list (concat (map ps_programs ps)) g)"
proof (induction ps arbitrary: m)
  case Nil
  then show ?case by simp
next
  case (Cons p ps)
  show ?case
  proof (cases "index_project_programs p m (ps_programs p)")
    case (Inl f)
    with Cons.prems have "f = e" by simp
    with Inl obtain g q where "e = Duplicate_program g (ps_name q)" "g \<in> set (ps_programs p)"
      "map_of m g = Some q \<or>
        map_of m g = None \<and> q = p \<and> 2 \<le> count_list (ps_programs p) g"
      using index_project_programs_Inl by blast
    then show ?thesis
      by (intro exI [of _ g] exI [of _ q]) (auto simp: first_listed_def)
  next
    case (Inr m')
    with Cons.prems have fail: "index_programs_from m' ps = Inl e" by simp
    from Inr have m': "m' = m @ map (\<lambda>g. (g, p)) (ps_programs p)"
      and fresh: "set (ps_programs p) \<inter> fst ` set m = {}"
      by (auto simp: result_iff)
    from Cons.IH [OF fail] obtain g q where gq: "e = Duplicate_program g (ps_name q)"
      "map_of m' g = Some q \<and> g \<in> set (concat (map ps_programs ps)) \<or>
       map_of m' g = None \<and> first_listed ps g = Some q \<and>
         2 \<le> count_list (concat (map ps_programs ps)) g"
      by blast
    show ?thesis
    proof (cases "g \<in> set (ps_programs p)")
      case True
      then have "map_of m g = None"
        using fresh by (auto simp: map_of_eq_None_iff)
      moreover have "map_of (map (\<lambda>g. (g, p)) (ps_programs p)) g = Some p"
        using True by (simp add: map_of_map_restrict)
      ultimately have "map_of m' g = Some p"
        by (simp add: m' map_add_Some_iff)
      with gq have "q = p" "g \<in> set (concat (map ps_programs ps))" by auto
      moreover have "1 \<le> count_list (ps_programs p) g" "1 \<le> count_list (concat (map ps_programs ps)) g"
        using True calculation(2) by (metis count_list_0_iff less_one not_le)+
      ultimately show ?thesis
        using gq(1) True \<open>map_of m g = None\<close>
        by (intro exI [of _ g] exI [of _ p]) (auto simp: first_listed_def)
    next
      case False
      then have "map_of m' g = map_of m g"
        by (simp add: m' map_add_def map_of_map_restrict split: option.splits)
      with gq False show ?thesis
        by (intro exI [of _ g] exI [of _ q]) (auto simp: first_listed_def)
    qed
  qed
qed

text \<open>A construction that fails names a real conflict: DuplicateProjectError names a project
  whose name occurs twice, and DuplicateProgramError, raised only when the project names are
  distinct, names a program listed at least twice together with the first project that lists
  it.\<close>

theorem catalogue_errors:
  assumes "new_catalogue ps = Inl e"
  shows "(\<exists>n. e = Duplicate_project n \<and> 2 \<le> count_list (map ps_name ps) n) \<or>
    (\<exists>g q. e = Duplicate_program g (ps_name q) \<and> distinct (map ps_name ps) \<and>
      first_listed ps g = Some q \<and> 2 \<le> count_list (concat (map ps_programs ps)) g)"
proof (cases "index_projects ps")
  case (Inl f)
  with assms have "f = e" by (simp add: new_catalogue_def)
  with Inl obtain qs p rs where e: "ps = qs @ p # rs" "e = Duplicate_project (ps_name p)"
    and in_qs: "ps_name p \<in> set (map ps_name qs)"
    using index_projects_from_Inl [of "[]" ps e] by (auto simp: index_projects_def)
  have "1 \<le> count_list (map ps_name qs) (ps_name p)"
    using in_qs by (metis count_list_0_iff less_one not_le)
  then have "2 \<le> count_list (map ps_name ps) (ps_name p)"
    by (simp add: e(1))
  with e(2) show ?thesis by blast
next
  case (Inr d)
  then have d: "map snd d = ps" "distinct (map ps_name ps)"
    by (auto simp: index_projects_def result_iff comp_def)
  with Inr assms have "index_programs_from [] ps = Inl e"
    by (auto simp: new_catalogue_def index_programs_def result_iff)
  from index_programs_from_Inl [OF this] d(2) show ?thesis by auto
qed

lemma catalogue_errors_witness:
  "\<exists>p q e. new_catalogue [p, q] = Inl e \<and> ps_name p \<noteq> ps_name q \<and>
    e = Duplicate_program (lit ''git'') (ps_name p)"
proof -
  define p where "p = \<lparr>ps_name = lit ''a'', ps_programs = [lit ''git''],
    ps_documentation_locations = [], ps_noise_rules = []\<rparr>"
  define q where "q = p\<lparr>ps_name := lit ''b''\<rparr>"
  have "new_catalogue [p, q] = Inl (Duplicate_program (lit ''git'') (lit ''a''))"
    by (simp add: p_def q_def new_catalogue_def index_projects_def index_programs_def
        dict_set_def lit_def)
  then have "(\<exists>g r. Duplicate_program (lit ''git'') (lit ''a'') =
      Duplicate_program g (ps_name r) \<and> distinct (map ps_name [p, q]) \<and>
      first_listed [p, q] g = Some r \<and> 2 \<le> count_list (concat (map ps_programs [p, q])) g)"
    using catalogue_errors [of "[p, q]"] by blast
  then have "ps_name p \<noteq> ps_name q" by auto
  with \<open>new_catalogue [p, q] = _\<close> show ?thesis
    by (intro exI [of _ p] exI [of _ q]) (simp add: p_def)
qed

lemma default_catalogue_ok:
  "\<exists>c. default_catalogue = Inr c \<and>
    pc_allowlist c = set [lit ''echo'', lit ''git'', lit ''ls'', lit ''rsync'', lit ''tar'', lit ''mdbook'']"
  by (auto simp: default_catalogue_def result_iff default_projects_def default_project_data_def
      lit_def)

end
