(* ===== verification/Command_Builder.thy ===== *)
theory Command_Builder
  imports Catalogue Context_State
begin

text \<open>
  Building commands (\<open>cuprum/sh/argv.py\<close>, \<open>sh/factory.py\<close>, the data of
  \<open>sh/safe_cmd.py\<close>): values become argv text or are rejected, keywords become
  \<open>--flag=value\<close> entries, execution options are refused as flags, and a builder is tied to the
  catalogue entry of its program.
\<close>

section \<open>Argument values\<close>

text \<open>
  A path-like object is represented by what \<open>os.fspath\<close> returns for it, a float by the text
  \<open>str\<close> gives it, and any other object by its type's name.
\<close>

datatype fspath = Fs_text ustr | Fs_bytes bytes

datatype arg_value =
    Arg_none
  | Arg_bytes bytes
  | Arg_str ustr
  | Arg_int int
  | Arg_float ustr
  | Arg_bool bool
  | Arg_path fspath
  | Arg_other ustr

datatype builder_error =
    None_argument
  | Bytes_argument bytes
  | Unsupported_argument ustr
  | Int_too_long
  | Reserved_run_option ustr
  | Reserved_context_option ustr
  | Catalogue_failure catalogue_error

text \<open>\<open>str(n)\<close>: decimal digits; the interpreter refuses to render more than 4300 of them.\<close>

definition int_str :: "int \<Rightarrow> builder_error + ustr" where
  "int_str i =
    (let digits = nat_digits (nat \<bar>i\<bar>)
     in if 4300 < length digits then Inl Int_too_long
        else Inr (if i < 0 then 45 # digits else digits))"

fun stringify_arg :: "arg_value \<Rightarrow> builder_error + ustr" where
  "stringify_arg Arg_none = Inl None_argument"
| "stringify_arg (Arg_bytes b) = Inl (Bytes_argument b)"
| "stringify_arg (Arg_other ty) = Inl (Unsupported_argument ty)"
| "stringify_arg (Arg_path (Fs_bytes b)) = Inl (Bytes_argument b)"
| "stringify_arg (Arg_path (Fs_text s)) = Inr s"
| "stringify_arg (Arg_str s) = Inr s"
| "stringify_arg (Arg_int i) = int_str i"
| "stringify_arg (Arg_float s) = Inr s"
| "stringify_arg (Arg_bool b) = Inr (if b then lit ''True'' else lit ''False'')"

definition normalized_key :: "ustr \<Rightarrow> ustr" where
  "normalized_key key = map (\<lambda>c. if c = 95 then 45 else c) key"

definition serialize_kwargs :: "(ustr, arg_value) pydict \<Rightarrow> builder_error + ustr list" where
  "serialize_kwargs kwargs =
    traverse (\<lambda>(key, value). rbind (stringify_arg value)
      (\<lambda>text. Inr (lit ''--'' @ normalized_key key @ lit ''='' @ text))) kwargs"

definition build_argv ::
  "arg_value list \<Rightarrow> (ustr, arg_value) pydict \<Rightarrow> builder_error + ustr list" where
  "build_argv args kwargs =
    rbind (traverse stringify_arg args) (\<lambda>positional.
    rbind (serialize_kwargs kwargs) (\<lambda>flags. Inr (positional @ flags)))"

section \<open>Reserved keywords\<close>

definition context_options :: "ustr list" where
  "context_options = map lit
    [''env'', ''cwd'', ''cancel_grace'', ''native_pump_cleanup_grace'', ''timeout'', ''stdout_sink'',
     ''stderr_sink'', ''encoding'', ''errors'', ''tags'', ''env_mode'', ''process_group'']"

definition run_options :: "ustr list" where
  "run_options = map lit [''output'', ''timeout'', ''context'', ''stdin'']"

definition reserved_options :: "ustr list" where
  "reserved_options = context_options @ run_options"

definition reserved_option_error :: "ustr \<Rightarrow> builder_error" where
  "reserved_option_error name =
    (if name \<in> set run_options then Reserved_run_option name else Reserved_context_option name)"

fun reject_reserved_options :: "(ustr, arg_value) pydict \<Rightarrow> builder_error + unit" where
  "reject_reserved_options [] = Inr ()"
| "reject_reserved_options ((name, value) # kwargs) =
    (if name \<in> set reserved_options then Inl (reserved_option_error name)
     else reject_reserved_options kwargs)"

section \<open>The factory\<close>

record safe_cmd =
  cmd_program :: ustr
  cmd_argv :: "ustr list"
  cmd_project :: project_settings

definition argv_with_program :: "safe_cmd \<Rightarrow> ustr list" where
  "argv_with_program cmd = cmd_program cmd # cmd_argv cmd"

text \<open>The explicit catalogue, the one of the context active in thread \<open>k\<close>, or the default.\<close>

definition resolve_catalogue ::
  "nat \<Rightarrow> ('h, program_catalogue, 'r) context_world \<Rightarrow> program_catalogue option \<Rightarrow>
    catalogue_error + program_catalogue" where
  "resolve_catalogue k w catalogue =
    (case catalogue of
       Some c \<Rightarrow> Inr c
     | None \<Rightarrow>
         (case ctx_catalogue (current_context k w) of
            Some c \<Rightarrow> Inr c
          | None \<Rightarrow> default_catalogue))"

text \<open>\<open>make\<close> runs when the builder is made; \<open>run_builder\<close> is the closure it returns.\<close>

definition make ::
  "nat \<Rightarrow> ('h, program_catalogue, 'r) context_world \<Rightarrow> ustr \<Rightarrow> program_catalogue option \<Rightarrow>
    catalogue_error + program_entry" where
  "make k w program catalogue =
    rbind (resolve_catalogue k w catalogue) (\<lambda>c. lookup c program)"

definition run_builder ::
  "program_entry \<Rightarrow> arg_value list \<Rightarrow> (ustr, arg_value) pydict \<Rightarrow> builder_error + safe_cmd" where
  "run_builder entry args kwargs =
    rbind (reject_reserved_options kwargs) (\<lambda>_.
    rbind (build_argv args kwargs) (\<lambda>argv.
    Inr \<lparr>cmd_program = pe_program entry, cmd_argv = argv, cmd_project = pe_project entry\<rparr>))"

section \<open>Facts\<close>

text \<open>The domain of argument values, and the text a value in the domain has.\<close>

fun arg_text :: "arg_value \<Rightarrow> ustr option" where
  "arg_text (Arg_str s) = Some s"
| "arg_text (Arg_path (Fs_text s)) = Some s"
| "arg_text (Arg_float s) = Some s"
| "arg_text (Arg_bool b) = Some (if b then lit ''True'' else lit ''False'')"
| "arg_text (Arg_int i) =
    (if length (nat_digits (nat \<bar>i\<bar>)) \<le> 4300
     then Some ((if i < 0 then [45] else []) @ nat_digits (nat \<bar>i\<bar>)) else None)"
| "arg_text _ = None"

lemma stringify_arg_Inr [result_iff]: "stringify_arg v = Inr s \<longleftrightarrow> arg_text v = Some s"
  by (cases v rule: stringify_arg.cases) (auto simp: int_str_def Let_def)

lemma stringify_traverse:
  "traverse stringify_arg vs = Inr ss \<longleftrightarrow> map arg_text vs = map Some ss"
  by (auto simp: traverse_Inr_iff stringify_arg_Inr list_all2_conv_all_nth list_eq_iff_nth_eq)

definition flag_text :: "ustr \<Rightarrow> ustr \<Rightarrow> ustr" where
  "flag_text key text = lit ''--'' @ normalized_key key @ lit ''='' @ text"

lemma serialize_kwargs_Inr [result_iff]:
  "serialize_kwargs kw = Inr flags \<longleftrightarrow>
    map (\<lambda>(key, v). map_option (flag_text key) (arg_text v)) kw = map Some flags"
  by (auto simp: serialize_kwargs_def traverse_Inr_iff list_all2_conv_all_nth list_eq_iff_nth_eq
      result_iff flag_text_def split: prod.splits)

lemma reject_reserved_options_Inr [result_iff]:
  "reject_reserved_options kw = Inr u \<longleftrightarrow> (\<forall>(key, v) \<in> set kw. key \<notin> set reserved_options)"
  by (induction kw rule: reject_reserved_options.induct) auto

lemma reject_reserved_options_first:
  "\<forall>(k, v) \<in> set pre. k \<notin> set reserved_options \<Longrightarrow> key \<in> set reserved_options \<Longrightarrow>
    reject_reserved_options (pre @ (key, v) # post) = Inl (reserved_option_error key)"
  by (induction pre rule: reject_reserved_options.induct) auto

lemma lookup_Inr_iff:
  assumes "new_catalogue ps = Inr c"
  shows "lookup c g = Inr e \<longleftrightarrow>
    pe_program e = g \<and> pe_project e \<in> set ps \<and> owns (pe_project e) g"
proof -
  from assms have c: "distinct (concat (map ps_programs ps))" "pc_program_to_project c = ownership ps"
    by (auto simp: new_catalogue_Inr)
  have "map_of (ownership ps) g = Some p \<longleftrightarrow> p \<in> set ps \<and> owns p g" for p
    using map_of_ownership [OF c(1)] map_of_ownership_SomeD [of ps g p] by (auto simp: owns_def)
  moreover have "lookup c g = Inr e \<longleftrightarrow>
      map_of (ownership ps) g = Some (pe_project e) \<and> pe_program e = g"
    by (cases e) (auto simp: lookup_def coerce_program_def c(2) split: option.split)
  ultimately show ?thesis by auto
qed

lemma allowed_iff_owned:
  "new_catalogue ps = Inr c \<Longrightarrow> catalogue_is_allowed c g \<longleftrightarrow> (\<exists>p \<in> set ps. owns p g)"
  by (auto simp: catalogue_is_allowed_def coerce_program_def owns_def result_iff)

lemma owner_unique:
  "new_catalogue ps = Inr c \<Longrightarrow> p \<in> set ps \<Longrightarrow> q \<in> set ps \<Longrightarrow> owns p g \<Longrightarrow> owns q g \<Longrightarrow> p = q"
  using map_of_ownership [of ps] by (auto simp: result_iff owns_def) (metis option.inject)

lemma resolve_default [simp]:
  "resolve_catalogue k (initial_world :: ('h, program_catalogue, 'r) context_world) None =
    default_catalogue"
  by (simp add: resolve_catalogue_def current_context_def cv_get_def initial_world_def cv_new_def
      default_context_def)

text \<open>Outside every scope the curated programs can be built.\<close>

lemma built_in_programs:
  assumes "program \<in> set [lit ''echo'', lit ''git'', lit ''ls'', lit ''rsync'', lit ''tar'', lit ''mdbook'']"
  shows "\<exists>entry. make k (initial_world :: ('h, program_catalogue, 'r) context_world) program None =
    Inr entry"
proof -
  obtain c where c: "default_catalogue = Inr c"
    "pc_allowlist c = set [lit ''echo'', lit ''git'', lit ''ls'', lit ''rsync'', lit ''tar'', lit ''mdbook'']"
    using default_catalogue_ok by blast
  have "program \<in> pc_allowlist c"
    using assms c(2) by blast
  then obtain p where "p \<in> set default_projects" "owns p program"
    using allowed_iff_owned [OF c(1) [unfolded default_catalogue_def], of program]
    by (auto simp: catalogue_is_allowed_def coerce_program_def)
  then have "lookup c program = Inr \<lparr>pe_program = program, pe_project = p\<rparr>"
    using lookup_Inr_iff [OF c(1) [unfolded default_catalogue_def]] by simp
  then show ?thesis
    by (simp add: make_def c(1))
qed

section \<open>Properties\<close>

text \<open>\<open>build_argv\<close> returns exactly when every positional and keyword value has a text, and
  then the argv is the positional texts in order followed by one \<open>--key=value\<close> entry per keyword
  in insertion order, with the key's underscores written as hyphens.\<close>

theorem build_argv_exact:
  "build_argv args kwargs = Inr argv \<longleftrightarrow>
    list_all (\<lambda>v. arg_text v \<noteq> None) (args @ map snd kwargs) \<and>
    argv = map (\<lambda>v. the (arg_text v)) args @
      map (\<lambda>(key, v). flag_text key (the (arg_text v))) kwargs"
proof -
  have args_iff: "traverse stringify_arg args = Inr ss \<longleftrightarrow>
      list_all (\<lambda>v. arg_text v \<noteq> None) args \<and> ss = map (\<lambda>v. the (arg_text v)) args" for ss
    unfolding stringify_traverse
    by (auto simp: list_eq_iff_nth_eq list_all_length)
  have kwargs_iff: "serialize_kwargs kwargs = Inr ss \<longleftrightarrow>
      list_all (\<lambda>v. arg_text v \<noteq> None) (map snd kwargs) \<and>
      ss = map (\<lambda>(key, v). flag_text key (the (arg_text v))) kwargs" for ss
    unfolding serialize_kwargs_Inr
    by (induction kwargs arbitrary: ss) (auto simp: Cons_eq_map_conv)
  show ?thesis
    by (auto simp: build_argv_def rbind_Inr_iff args_iff kwargs_iff)
qed

text \<open>(C33) Every command a builder produces carries a program that the resolved catalogue lists,
  under the one project that owns it, and none of its keywords is an execution option: those
  raise TypeError instead of reaching the child's command line.\<close>

theorem built_command_is_curated:
  assumes "make k w program catalogue = Inr entry"
    and "resolve_catalogue k w catalogue = Inr c"
    and "new_catalogue ps = Inr c"
    and "run_builder entry args kwargs = Inr cmd"
  shows "cmd_program cmd = program \<and> catalogue_is_allowed c program \<and>
    cmd_project cmd \<in> set ps \<and> owns (cmd_project cmd) program \<and>
    (\<forall>p \<in> set ps. owns p program \<longrightarrow> p = cmd_project cmd) \<and>
    build_argv args kwargs = Inr (cmd_argv cmd) \<and>
    (\<forall>(key, v) \<in> set kwargs. key \<notin> set reserved_options)"
proof -
  from assms(1,2) have "lookup c program = Inr entry"
    by (simp add: make_def)
  with assms(3) have entry: "pe_program entry = program" "pe_project entry \<in> set ps"
    "owns (pe_project entry) program"
    by (simp_all add: lookup_Inr_iff)
  from assms(4) have cmd: "cmd_program cmd = pe_program entry" "cmd_project cmd = pe_project entry"
    "build_argv args kwargs = Inr (cmd_argv cmd)"
    "\<forall>(key, v) \<in> set kwargs. key \<notin> set reserved_options"
    by (auto simp: run_builder_def result_iff)
  have unique: "p = pe_project entry" if "p \<in> set ps" "owns p program" for p
    using owner_unique [OF assms(3) that(1) entry(2) that(2) entry(3)] .
  have allowed: "catalogue_is_allowed c program"
    using allowed_iff_owned [OF assms(3)] entry(2,3) by blast
  show ?thesis
    unfolding cmd(1,2) entry(1) using allowed unique entry(2,3) cmd(3,4) by blast
qed

lemma built_command_is_curated_witness:
  "\<exists>entry cmd. make 0 (initial_world :: (nat, program_catalogue, nat) context_world)
      (lit ''git'') None = Inr entry \<and>
    run_builder entry [Arg_str (lit ''status''), Arg_int (- 12)] [(lit ''dry_run'', Arg_bool True)] =
      Inr cmd \<and>
    cmd_argv cmd = [lit ''status'', lit ''-12'', lit ''--dry-run=True''] \<and>
    cmd_program cmd = lit ''git''"
proof -
  let ?w = "initial_world :: (nat, program_catalogue, nat) context_world"
  let ?kw = "[(lit ''dry_run'', Arg_bool True)]"
  let ?args = "[Arg_str (lit ''status''), Arg_int (- 12)]"
  obtain c where c: "default_catalogue = Inr c"
    using default_catalogue_ok by blast
  have res: "resolve_catalogue 0 ?w None = Inr c"
    by (simp add: c)
  define p where "p = hd default_projects"
  have p: "p \<in> set default_projects" "owns p (lit ''git'')"
    by (simp_all add: p_def default_projects_def default_project_data_def owns_def)
  define entry where "entry = \<lparr>pe_program = lit ''git'', pe_project = p\<rparr>"
  have make_git: "make 0 ?w (lit ''git'') None = Inr entry"
    using p c by (simp add: make_def res entry_def lookup_Inr_iff default_catalogue_def)
  have argv: "build_argv ?args ?kw = Inr [lit ''status'', lit ''-12'', lit ''--dry-run=True'']"
    by code_simp
  have "\<forall>(key, v) \<in> set ?kw. key \<notin> set reserved_options"
    by code_simp
  then have "reject_reserved_options ?kw = Inr ()"
    by (simp add: reject_reserved_options_Inr)
  then obtain cmd where cmd: "run_builder entry ?args ?kw = Inr cmd"
    using argv by (simp add: run_builder_def)
  from built_command_is_curated [OF make_git res _ cmd, of default_projects] c argv
  have "cmd_program cmd = lit ''git'' \<and>
    cmd_argv cmd = [lit ''status'', lit ''-12'', lit ''--dry-run=True'']"
    by (simp add: default_catalogue_def)
  with make_git cmd show ?thesis by blast
qed

text \<open>A keyword naming an execution option is refused whatever the other values are: the
  builder raises for the first such keyword in insertion order, naming the right place to pass it,
  and no command is made.\<close>

theorem reserved_keyword_refused:
  assumes "\<forall>(k, v) \<in> set pre. k \<notin> set reserved_options" "key \<in> set reserved_options"
  shows "run_builder entry args (pre @ (key, v) # post) =
    Inl (if key \<in> set run_options then Reserved_run_option key else Reserved_context_option key)"
  using reject_reserved_options_first [OF assms]
  by (simp add: run_builder_def reserved_option_error_def)

lemma reserved_keyword_refused_witness:
  "\<forall>e. run_builder e [Arg_none] [(lit ''short'', Arg_none), (lit ''cwd'', Arg_str [])] =
    Inl (Reserved_context_option (lit ''cwd''))"
proof -
  have "\<forall>(k, v) \<in> set [(lit ''short'', Arg_none)]. k \<notin> set reserved_options"
    by code_simp
  moreover have "lit ''cwd'' \<in> set reserved_options" "lit ''cwd'' \<notin> set run_options"
    by code_simp+
  ultimately show ?thesis
    using reserved_keyword_refused [of "[(lit ''short'', Arg_none)]" "lit ''cwd''" _ "[Arg_none]" "Arg_str []" "[]"]
    by simp
qed

end
