(* ===== verification/Builder_Args.thy ===== *)
theory Builder_Args
  imports Command_Builder
begin

text \<open>
  Validated builder arguments (\<open>cuprum/builders/args.py\<close>) and the git builders
  (\<open>builders/git.py\<close>): which paths and refs are accepted, what text they become, and that no
  accepted ref can be read by git as an option or a path.
\<close>

section \<open>Paths\<close>

text \<open>
  What a caller may pass: a \<open>str\<close>, a \<open>Path\<close> (by its text), another path-like object (by what
  its \<open>__fspath__\<close> returns), or anything else (by its type's name).
\<close>

datatype path_input =
    In_str ustr
  | In_path ustr
  | In_path_like fspath
  | In_other ustr

datatype path_rejection = Path_empty | Path_nul | Path_parent_segment | Path_not_absolute

datatype ref_rejection =
    Ref_empty | Ref_leading_dash | Ref_whitespace | Ref_slash_boundary | Ref_lock_suffix
  | Ref_dot_suffix | Ref_parent_sequence | Ref_double_slash | Ref_at_brace | Ref_unsupported_chars

datatype args_error =
    Path_type_error
  | Path_rejected path_rejection
  | Ref_type_error ustr
  | Ref_rejected ref_rejection
  | Checkout_conflict
  | Remote_operand ustr
  | Single_source
  | No_sources
  | Make_failed catalogue_error
  | Build_failed builder_error

definition convert_to_string :: "path_input \<Rightarrow> args_error + ustr" where
  "convert_to_string v =
    (case v of
       In_str s \<Rightarrow> Inr s
     | In_path s \<Rightarrow> Inr (posix_str (posix_parse s))
     | In_path_like (Fs_text s) \<Rightarrow> Inr s
     | In_path_like (Fs_bytes b) \<Rightarrow> Inl Path_type_error
     | In_other ty \<Rightarrow> Inl Path_type_error)"

definition classify_path_string :: "ustr \<Rightarrow> bool \<Rightarrow> path_rejection option" where
  "classify_path_string raw allow_relative =
    (if raw = [] then Some Path_empty
     else if 0 \<in> set raw then Some Path_nul
     else if lit ''..'' \<in> set (posix_parts (posix_parse raw)) then Some Path_parent_segment
     else if \<not> allow_relative \<and> \<not> posix_is_absolute raw then Some Path_not_absolute
     else None)"

definition validate_path_string :: "ustr \<Rightarrow> bool \<Rightarrow> args_error + unit" where
  "validate_path_string raw allow_relative =
    (case classify_path_string raw allow_relative of
       Some rejection \<Rightarrow> Inl (Path_rejected rejection)
     | None \<Rightarrow> Inr ())"

definition safe_path :: "path_input \<Rightarrow> bool \<Rightarrow> args_error + ustr" where
  "safe_path v allow_relative =
    rbind (convert_to_string v) (\<lambda>raw.
    rbind (validate_path_string raw allow_relative) (\<lambda>_.
    Inr (posix_str (posix_parse raw))))"

section \<open>Git refs\<close>

text \<open>\<open>str.isspace\<close> of one character: the code points it accepts.\<close>

definition is_space :: "nat \<Rightarrow> bool" where
  "is_space c \<longleftrightarrow>
    9 \<le> c \<and> c \<le> 13 \<or> 28 \<le> c \<and> c \<le> 32 \<or> c = 133 \<or> c = 160 \<or> c = 5760 \<or>
    8192 \<le> c \<and> c \<le> 8202 \<or> c = 8232 \<or> c = 8233 \<or> c = 8239 \<or> c = 8287 \<or> c = 12288"

text \<open>The character class of the pattern \<open>[A-Za-z0-9._/-]\<close>.\<close>

definition ref_char :: "nat \<Rightarrow> bool" where
  "ref_char c \<longleftrightarrow> ascii_alpha c \<or> 48 \<le> c \<and> c \<le> 57 \<or> c = 46 \<or> c = 95 \<or> c = 47 \<or> c = 45"

definition ref_checks :: "ustr \<Rightarrow> (bool \<times> ref_rejection) list" where
  "ref_checks v =
    [(v = [], Ref_empty),
     (prefix (lit ''-'') v, Ref_leading_dash),
     (list_ex is_space v, Ref_whitespace),
     (prefix (lit ''/'') v \<or> suffix (lit ''/'') v, Ref_slash_boundary),
     (suffix (lit ''.lock'') v, Ref_lock_suffix),
     (suffix (lit ''.'') v, Ref_dot_suffix),
     (sublist (lit ''..'') v, Ref_parent_sequence),
     (sublist (lit ''//'') v, Ref_double_slash),
     (sublist ([64, 123]) v, Ref_at_brace)]"

definition classify_git_ref :: "ustr \<Rightarrow> ref_rejection option" where
  "classify_git_ref v =
    (case find fst (ref_checks v) of
       Some (_, rejection) \<Rightarrow> Some rejection
     | None \<Rightarrow> if v \<noteq> [] \<and> list_all ref_char v then None else Some Ref_unsupported_chars)"

definition git_ref :: "path_input \<Rightarrow> args_error + ustr" where
  "git_ref v =
    (case v of
       In_str s \<Rightarrow>
         (case classify_git_ref s of
            Some rejection \<Rightarrow> Inl (Ref_rejected rejection)
          | None \<Rightarrow> Inr s)
     | In_other ty \<Rightarrow> Inl (Ref_type_error ty)
     | In_path s \<Rightarrow> Inl (Ref_type_error (lit ''PosixPath''))
     | In_path_like f \<Rightarrow> Inl (Ref_type_error []))"

section \<open>Git builders\<close>

text \<open>\<open>sh.make(PROGRAM)(*argv)\<close> in the context active in thread \<open>k\<close>.\<close>

definition make_command ::
  "nat \<Rightarrow> ('h, program_catalogue, 'r) context_world \<Rightarrow> ustr \<Rightarrow> ustr list \<Rightarrow>
    args_error + safe_cmd" where
  "make_command k w program argv =
    (case make k w program None of
       Inl e \<Rightarrow> Inl (Make_failed e)
     | Inr entry \<Rightarrow>
         (case run_builder entry (map Arg_str argv) [] of
            Inl e \<Rightarrow> Inl (Build_failed e)
          | Inr cmd \<Rightarrow> Inr cmd))"

definition git_status_argv :: "bool \<Rightarrow> bool \<Rightarrow> ustr list" where
  "git_status_argv short branch =
    [lit ''status''] @ (if short then [lit ''--short''] else []) @
    (if branch then [lit ''--branch''] else [])"

definition git_status ::
  "nat \<Rightarrow> ('h, program_catalogue, 'r) context_world \<Rightarrow> bool \<Rightarrow> bool \<Rightarrow> args_error + safe_cmd" where
  "git_status k w short branch = make_command k w (lit ''git'') (git_status_argv short branch)"

definition checkout_options :: "bool \<Rightarrow> bool \<Rightarrow> bool \<Rightarrow> ustr list" where
  "checkout_options create_branch detach force =
    (if create_branch then [if force then lit ''-B'' else lit ''-b'']
     else (if detach then [lit ''--detach''] else []) @ (if force then [lit ''--force''] else []))"

definition git_checkout_argv ::
  "path_input \<Rightarrow> bool \<Rightarrow> bool \<Rightarrow> bool \<Rightarrow> args_error + ustr list" where
  "git_checkout_argv ref create_branch detach force =
    (if create_branch \<and> detach then Inl Checkout_conflict
     else rbind (git_ref ref) (\<lambda>r.
       Inr ([lit ''checkout''] @ checkout_options create_branch detach force @ [r] @
         (if create_branch then [] else [lit ''--'']))))"

definition git_checkout ::
  "nat \<Rightarrow> ('h, program_catalogue, 'r) context_world \<Rightarrow> path_input \<Rightarrow> bool \<Rightarrow> bool \<Rightarrow> bool \<Rightarrow>
    args_error + safe_cmd" where
  "git_checkout k w ref create_branch detach force =
    rbind (git_checkout_argv ref create_branch detach force) (make_command k w (lit ''git''))"

definition git_rev_parse ::
  "nat \<Rightarrow> ('h, program_catalogue, 'r) context_world \<Rightarrow> path_input \<Rightarrow> args_error + safe_cmd" where
  "git_rev_parse k w ref =
    rbind (git_ref ref) (\<lambda>r. make_command k w (lit ''git'') [lit ''rev-parse'', r])"

section \<open>Facts about paths\<close>

lemma classify_path_None_iff [result_iff]:
  "classify_path_string raw rel = None \<longleftrightarrow>
    raw \<noteq> [] \<and> 0 \<notin> set raw \<and> lit ''..'' \<notin> set (posix_parts (posix_parse raw)) \<and>
    (rel \<or> posix_is_absolute raw)"
  by (simp add: classify_path_string_def)

lemma safe_path_Inr [result_iff]:
  "safe_path v rel = Inr s \<longleftrightarrow>
    (\<exists>raw. convert_to_string v = Inr raw \<and> classify_path_string raw rel = None \<and>
      s = posix_str (posix_parse raw))"
  by (auto simp: safe_path_def validate_path_string_def rbind_Inr_iff split: option.splits)

lemma set_posix_splitroot: "set (fst (posix_splitroot p)) \<union> set (snd (posix_splitroot p)) \<subseteq> set p"
proof (cases p)
  case (Cons c q)
  then show ?thesis
    by (cases q) (auto simp: posix_splitroot_def dest: in_set_takeD in_set_dropD split: if_splits)
qed (simp add: posix_splitroot_def)

lemma set_posix_str: "set (posix_str (posix_parse p)) \<subseteq> set p \<union> {slash, dot}"
proof -
  have "set (join_with [slash] (pp_tail (posix_parse p))) \<subseteq> set p \<union> {slash}"
  proof -
    have "set x \<subseteq> set p" if "x \<in> set (pp_tail (posix_parse p))" for x
    proof -
      have "x \<in> set (split_on slash (snd (posix_splitroot p)))"
        using that by (simp add: posix_parse_def case_prod_beta)
      then show ?thesis
        using set_split_on [of x slash "snd (posix_splitroot p)"] set_posix_splitroot [of p] by blast
    qed
    then show ?thesis
      using set_join_with [of "[slash]" "pp_tail (posix_parse p)"] by auto
  qed
  moreover have "set (pp_root (posix_parse p)) \<subseteq> set p"
    using set_posix_splitroot [of p] by (simp add: posix_parse_def case_prod_beta)
  ultimately show ?thesis
    unfolding posix_str_def by (auto simp: Let_def)
qed

lemma posix_str_neq_Nil [simp]: "posix_str p \<noteq> []"
  by (simp add: posix_str_def Let_def)

lemma posix_parse_str_parse [simp]: "posix_parse (posix_str (posix_parse p)) = posix_parse p"
  by (simp add: posix_parse_str)

lemma classify_normalized:
  assumes "classify_path_string raw rel = None"
  shows "classify_path_string (posix_str (posix_parse raw)) rel = None"
proof -
  have "0 \<notin> set (posix_str (posix_parse raw))"
    using assms set_posix_str [of raw] by (auto simp: result_iff)
  with assms show ?thesis by (simp add: result_iff)
qed

text \<open>A path that \<open>safe_path\<close> accepts is non-empty, free of NUL and of parent segments,
  absolute unless relative paths were allowed, and already normalised; validating the result again,
  as a string or as a Path, returns it unchanged.\<close>

theorem safe_path_sound:
  assumes "safe_path v allow_relative = Inr s"
  shows "s \<noteq> [] \<and> 0 \<notin> set s \<and> lit ''..'' \<notin> set (posix_parts (posix_parse s)) \<and>
    (allow_relative \<or> posix_is_absolute s) \<and>
    safe_path (In_str s) allow_relative = Inr s \<and> safe_path (In_path s) allow_relative = Inr s"
proof -
  from assms obtain raw where raw: "classify_path_string raw allow_relative = None"
    and s: "s = posix_str (posix_parse raw)"
    by (auto simp: safe_path_Inr)
  have norm: "classify_path_string s allow_relative = None"
    using classify_normalized [OF raw] by (simp add: s)
  then have "safe_path (In_str s) allow_relative = Inr s"
      "safe_path (In_path s) allow_relative = Inr s"
    by (simp_all add: safe_path_Inr convert_to_string_def s)
  with norm show ?thesis by (simp add: classify_path_None_iff)
qed

lemma safe_path_sound_witness:
  "safe_path (In_str (lit ''//a/./b//c/'')) False = Inr (lit ''//a/b/c'') \<and>
    safe_path (In_str (lit ''//a/b/c'')) False = Inr (lit ''//a/b/c'')"
proof -
  have "safe_path (In_str (lit ''//a/./b//c/'')) False = Inr (lit ''//a/b/c'')"
    by code_simp
  from this safe_path_sound [OF this] show ?thesis by blast
qed

section \<open>Facts about refs\<close>

lemma ref_char_not_space: "ref_char c \<Longrightarrow> \<not> is_space c"
  by (auto simp: ref_char_def is_space_def ascii_alpha_def)

lemma ref_chars_no_space: "list_all ref_char v \<Longrightarrow> \<not> list_ex is_space v"
  using ref_char_not_space by (auto simp: list_all_iff list_ex_iff)

lemma ref_chars_no_at_brace: "list_all ref_char v \<Longrightarrow> \<not> sublist ([64, 123]) v"
  by (auto simp: sublist_def list_all_iff lit_def ref_char_def ascii_alpha_def)

lemma find_None_all: "find P xs = None \<longleftrightarrow> list_all (\<lambda>x. \<not> P x) xs"
  by (induction xs) auto

lemma classify_git_ref_None [result_iff]:
  "classify_git_ref v = None \<longleftrightarrow>
    v \<noteq> [] \<and> list_all ref_char v \<and> \<not> prefix (lit ''-'') v \<and>
    \<not> prefix (lit ''/'') v \<and> \<not> suffix (lit ''/'') v \<and> \<not> suffix (lit ''.lock'') v \<and>
    \<not> suffix (lit ''.'') v \<and> \<not> sublist (lit ''..'') v \<and> \<not> sublist (lit ''//'') v"
proof -
  have "classify_git_ref v = None \<longleftrightarrow>
      find fst (ref_checks v) = None \<and> v \<noteq> [] \<and> list_all ref_char v"
    by (auto simp: classify_git_ref_def split: option.splits)
  also have "\<dots> \<longleftrightarrow> v \<noteq> [] \<and> list_all ref_char v \<and> \<not> prefix (lit ''-'') v \<and>
      \<not> prefix (lit ''/'') v \<and> \<not> suffix (lit ''/'') v \<and> \<not> suffix (lit ''.lock'') v \<and>
      \<not> suffix (lit ''.'') v \<and> \<not> sublist (lit ''..'') v \<and> \<not> sublist (lit ''//'') v"
    using ref_chars_no_space [of v] ref_chars_no_at_brace [of v]
    by (simp add: find_None_all ref_checks_def del: lit_eq_Nil_iff) blast
  finally show ?thesis .
qed

text \<open>A ref is accepted exactly when it is a string of letters, digits, dots, underscores,
  slashes and dashes that does not start with a dash or slash, does not end with a slash, a dot or
  \<open>.lock\<close>, and contains neither \<open>..\<close> nor \<open>//\<close>; it is returned unchanged.\<close>

theorem git_ref_exact:
  "git_ref v = Inr r \<longleftrightarrow>
    v = In_str r \<and> r \<noteq> [] \<and> list_all ref_char r \<and> hd r \<noteq> 45 \<and> hd r \<noteq> 47 \<and> last r \<noteq> 47 \<and>
    last r \<noteq> 46 \<and> \<not> suffix (lit ''.lock'') r \<and> \<not> sublist (lit ''..'') r \<and>
    \<not> sublist (lit ''//'') r"
proof -
  have hd_iff: "\<not> prefix (lit [c]) r \<longleftrightarrow> hd r \<noteq> of_char c" if "r \<noteq> []" for c
    using that by (cases r) (simp_all add: lit_def, metis)
  have last_iff: "\<not> suffix (lit [c]) r \<longleftrightarrow> last r \<noteq> of_char c" if "r \<noteq> []" for c
    using that by (cases r rule: rev_cases) (simp_all add: lit_def, metis)
  have "git_ref v = Inr r \<longleftrightarrow> v = In_str r \<and> classify_git_ref r = None"
    by (cases v) (auto simp: git_ref_def split: option.splits)
  also have "\<dots> \<longleftrightarrow> v = In_str r \<and> r \<noteq> [] \<and> list_all ref_char r \<and> hd r \<noteq> 45 \<and> hd r \<noteq> 47 \<and>
      last r \<noteq> 47 \<and> last r \<noteq> 46 \<and> \<not> suffix (lit ''.lock'') r \<and> \<not> sublist (lit ''..'') r \<and>
      \<not> sublist (lit ''//'') r"
  proof (cases "r = []")
    case False
    then show ?thesis
      unfolding classify_git_ref_None hd_iff [OF False] last_iff [OF False] by simp blast
  qed (simp add: classify_git_ref_None)
  finally show ?thesis .
qed

lemma git_ref_exact_witness:
  "git_ref (In_str (lit ''release/v1.2'')) = Inr (lit ''release/v1.2'') \<and>
    (\<forall>r. git_ref (In_str (lit ''a..b'')) \<noteq> Inr r)"
proof -
  have "classify_git_ref (lit ''release/v1.2'') = None"
    by (simp add: classify_git_ref_None lit_def ref_char_def ascii_alpha_def sublist_Cons_right
        suffix_def)
  then have "git_ref (In_str (lit ''release/v1.2'')) = Inr (lit ''release/v1.2'')"
    by (simp add: git_ref_def)
  moreover have "sublist (lit ''..'') (lit ''a..b'')"
    by code_simp
  then have "git_ref (In_str (lit ''a..b'')) \<noteq> Inr r" for r
    using git_ref_exact [of "In_str (lit ''a..b'')" r] by auto
  ultimately show ?thesis by blast
qed

lemma build_argv_strs [simp]: "build_argv (map Arg_str xs) [] = Inr xs"
proof -
  have "traverse stringify_arg (map Arg_str xs) = Inr xs"
    by (simp add: stringify_traverse)
  then show ?thesis by (simp add: build_argv_def serialize_kwargs_def)
qed

lemma make_command_Inr:
  "make_command k w program argv = Inr cmd \<longleftrightarrow>
    (\<exists>entry. make k w program None = Inr entry \<and>
      cmd = \<lparr>cmd_program = pe_program entry, cmd_argv = argv, cmd_project = pe_project entry\<rparr>)"
  by (cases "make k w program None") (auto simp add: make_command_def run_builder_def)

lemma lookup_program: "lookup c program = Inr e \<Longrightarrow> pe_program e = program"
  by (auto simp: lookup_def coerce_program_def split: option.splits)

lemma make_command_fields:
  assumes "make_command k w program argv = Inr cmd"
  shows "cmd_program cmd = program" "cmd_argv cmd = argv"
proof -
  from assms obtain entry where entry: "make k w program None = Inr entry"
    "cmd = \<lparr>cmd_program = pe_program entry, cmd_argv = argv, cmd_project = pe_project entry\<rparr>"
    unfolding make_command_Inr by blast
  from entry(1) have "pe_program entry = program"
    unfolding make_def rbind_Inr_iff using lookup_program by blast
  with entry(2) show "cmd_program cmd = program" "cmd_argv cmd = argv"
    by simp_all
qed

text \<open>A checkout command is \<open>git checkout\<close>, its mode options, the ref, and in the switch
  modes a closing \<open>--\<close>: nothing follows that separator, so git has no pathspec to restore, and
  the ref is never a dash option or the separator itself.  Creating a branch and detaching are
  never combined.\<close>

theorem git_checkout_form:
  assumes "git_checkout k w ref create_branch detach force = Inr cmd"
  shows "\<exists>r opts. ref = In_str r \<and> cmd_program cmd = lit ''git'' \<and>
    cmd_argv cmd = lit ''checkout'' # opts @ r # (if create_branch then [] else [lit ''--'']) \<and>
    r \<noteq> [] \<and> hd r \<noteq> 45 \<and> list_all ref_char r \<and>
    opts = (if create_branch then [if force then lit ''-B'' else lit ''-b'']
            else (if detach then [lit ''--detach''] else []) @
                 (if force then [lit ''--force''] else [])) \<and>
    \<not> (create_branch \<and> detach)"
proof -
  from assms obtain argv where argv: "git_checkout_argv ref create_branch detach force = Inr argv"
    and cmd: "make_command k w (lit ''git'') argv = Inr cmd"
    by (auto simp: git_checkout_def rbind_Inr_iff)
  from argv obtain r where r: "git_ref ref = Inr r" "\<not> (create_branch \<and> detach)"
    "argv = lit ''checkout'' # checkout_options create_branch detach force @ r #
      (if create_branch then [] else [lit ''--''])"
    by (auto simp: git_checkout_argv_def rbind_Inr_iff split: if_splits)
  from r(1) have ref: "ref = In_str r" "classify_git_ref r = None"
    by (auto simp: git_ref_def split: path_input.splits option.splits)
  then have "r \<noteq> []" "list_all ref_char r" "\<not> prefix (lit ''-'') r"
    by (simp_all add: classify_git_ref_None)
  moreover from this have "hd r \<noteq> 45"
    by (cases r) (simp_all add: lit_def)
  ultimately show ?thesis
    using ref(1) r(2,3) make_command_fields [OF cmd] by (simp add: checkout_options_def)
qed

lemma git_checkout_form_witness:
  "\<exists>cmd. git_checkout 0 (initial_world :: (nat, program_catalogue, nat) context_world)
      (In_str (lit ''main'')) False True False = Inr cmd \<and>
    cmd_argv cmd = [lit ''checkout'', lit ''--detach'', lit ''main'', lit ''--'']"
proof -
  let ?w = "initial_world :: (nat, program_catalogue, nat) context_world"
  obtain entry where entry: "make 0 ?w (lit ''git'') None = Inr entry"
    using built_in_programs [of "lit ''git''" 0] by auto
  have "classify_git_ref (lit ''main'') = None"
    by (simp add: classify_git_ref_None lit_def ref_char_def ascii_alpha_def sublist_Cons_right
        suffix_def)
  then have "git_checkout_argv (In_str (lit ''main'')) False True False =
      Inr [lit ''checkout'', lit ''--detach'', lit ''main'', lit ''--'']"
    by (simp add: git_checkout_argv_def git_ref_def checkout_options_def)
  then obtain cmd where cmd:
    "git_checkout 0 ?w (In_str (lit ''main'')) False True False = Inr cmd"
    using entry make_command_Inr [of 0 ?w "lit ''git''"] by (simp add: git_checkout_def)
  from git_checkout_form [OF cmd]
  have "cmd_argv cmd = [lit ''checkout'', lit ''--detach'', lit ''main'', lit ''--'']"
    by simp
  with cmd show ?thesis by blast
qed

end
