(* ===== verification/Builder_Archive.thy ===== *)
theory Builder_Archive
  imports Builder_Args
begin

text \<open>
  The rsync and tar builders (\<open>cuprum/builders/rsync.py\<close>, \<open>builders/tar.py\<close>): option
  records, flag order, operand validation and the \<open>--\<close> separator.  The facts say that operands
  given by the caller can only ever be read as local paths, never as options or remote endpoints.
\<close>

section \<open>rsync\<close>

record rsync_options =
  rs_archive :: bool
  rs_delete :: bool
  rs_dry_run :: bool
  rs_verbose :: bool
  rs_compress :: bool
  rs_allow_relative :: bool

definition default_rsync_options :: rsync_options where
  "default_rsync_options =
    \<lparr>rs_archive = False, rs_delete = False, rs_dry_run = False, rs_verbose = False,
      rs_compress = False, rs_allow_relative = False\<rparr>"

definition flag_order :: "((rsync_options \<Rightarrow> bool) \<times> ustr) list" where
  "flag_order =
    [(rs_archive, lit ''--archive''), (rs_delete, lit ''--delete''),
     (rs_dry_run, lit ''--dry-run''), (rs_verbose, lit ''--verbose''),
     (rs_compress, lit ''--compress'')]"

text \<open>
  \<open>str.lower\<close> differs from ASCII lowering only on characters that it never maps to one of the
  letters of \<open>rsync://\<close>.
\<close>

definition is_remote_rsync_operand :: "ustr \<Rightarrow> bool" where
  "is_remote_rsync_operand operand =
    (if prefix (lit ''rsync://'') (map ascii_lower operand) then True
     else (case str_find colon operand of
             None \<Rightarrow> False
           | Some c \<Rightarrow>
               (case str_find slash operand of None \<Rightarrow> True | Some s \<Rightarrow> c < s)))"

text \<open>\<open>os.fspath\<close> of the value as it was passed.\<close>

definition fspath_text :: "path_input \<Rightarrow> args_error + ustr" where
  "fspath_text v =
    (case v of
       In_str s \<Rightarrow> Inr s
     | In_path s \<Rightarrow> Inr s
     | In_path_like (Fs_text s) \<Rightarrow> Inr s
     | In_path_like (Fs_bytes b) \<Rightarrow> Inl Path_type_error
     | In_other ty \<Rightarrow> Inl Path_type_error)"

definition local_rsync_operand :: "path_input \<Rightarrow> ustr \<Rightarrow> bool \<Rightarrow> args_error + ustr" where
  "local_rsync_operand v role allow_relative =
    rbind (safe_path v allow_relative) (\<lambda>checked.
    rbind (fspath_text v) (\<lambda>raw.
      if is_remote_rsync_operand raw \<or> is_remote_rsync_operand checked
      then Inl (Remote_operand role)
      else Inr checked))"

definition rsync_argv ::
  "path_input \<Rightarrow> path_input \<Rightarrow> rsync_options \<Rightarrow> args_error + ustr list" where
  "rsync_argv src dst options =
    rbind (local_rsync_operand src (lit ''source'') (rs_allow_relative options)) (\<lambda>s.
    rbind (local_rsync_operand dst (lit ''destination'') (rs_allow_relative options)) (\<lambda>d.
    Inr (map snd (filter (\<lambda>(attr, flag). attr options) flag_order) @ [lit ''--'', s, d])))"

definition rsync_sync ::
  "nat \<Rightarrow> ('h, program_catalogue, 'r) context_world \<Rightarrow> path_input \<Rightarrow> path_input \<Rightarrow>
    rsync_options option \<Rightarrow> args_error + safe_cmd" where
  "rsync_sync k w src dst options =
    rbind (rsync_argv src dst (case options of None \<Rightarrow> default_rsync_options | Some opts \<Rightarrow> opts))
      (make_command k w (lit ''rsync''))"

section \<open>tar\<close>

datatype compression = No_compression | Gzip | Bzip2 | Xz

record tar_create_options =
  tc_compression :: compression
  tc_allow_relative :: bool

definition default_tar_options :: tar_create_options where
  "default_tar_options = \<lparr>tc_compression = No_compression, tc_allow_relative = False\<rparr>"

text \<open>What a caller may pass as sources: a sequence, or one path by mistake.\<close>

datatype sources_input = Single_path path_input | Source_list "path_input list"

definition get_compression_flag :: "tar_create_options \<Rightarrow> ustr" where
  "get_compression_flag options =
    (case tc_compression options of
       No_compression \<Rightarrow> []
     | Gzip \<Rightarrow> lit ''-z''
     | Bzip2 \<Rightarrow> lit ''-j''
     | Xz \<Rightarrow> lit ''-J'')"

definition tar_create_argv ::
  "path_input \<Rightarrow> sources_input \<Rightarrow> tar_create_options \<Rightarrow> args_error + ustr list" where
  "tar_create_argv archive sources options =
    (case sources of
       Single_path p \<Rightarrow> Inl Single_source
     | Source_list [] \<Rightarrow> Inl No_sources
     | Source_list ps \<Rightarrow>
         let flag = get_compression_flag options;
             args = lit ''-c'' # (if flag \<noteq> [] then [flag] else [])
         in rbind (safe_path archive (tc_allow_relative options)) (\<lambda>a.
            rbind (traverse (\<lambda>p. safe_path p (tc_allow_relative options)) ps) (\<lambda>ss.
            Inr (args @ [lit ''-f'', a, lit ''--''] @ ss))))"

definition tar_create ::
  "nat \<Rightarrow> ('h, program_catalogue, 'r) context_world \<Rightarrow> path_input \<Rightarrow> sources_input \<Rightarrow>
    tar_create_options option \<Rightarrow> args_error + safe_cmd" where
  "tar_create k w archive sources options =
    rbind (tar_create_argv archive sources
        (case options of None \<Rightarrow> default_tar_options | Some opts \<Rightarrow> opts))
      (make_command k w (lit ''tar''))"

definition tar_extract_argv ::
  "path_input \<Rightarrow> path_input option \<Rightarrow> bool \<Rightarrow> args_error + ustr list" where
  "tar_extract_argv archive destination allow_relative =
    rbind (safe_path archive allow_relative) (\<lambda>a.
    (case destination of
       None \<Rightarrow> Inr [lit ''-x'', lit ''-f'', a]
     | Some dst \<Rightarrow>
         rbind (safe_path dst allow_relative) (\<lambda>d.
         Inr [lit ''-x'', lit ''-f'', a, lit ''-C'', d])))"

definition tar_extract ::
  "nat \<Rightarrow> ('h, program_catalogue, 'r) context_world \<Rightarrow> path_input \<Rightarrow> path_input option \<Rightarrow> bool \<Rightarrow>
    args_error + safe_cmd" where
  "tar_extract k w archive destination allow_relative =
    rbind (tar_extract_argv archive destination allow_relative) (make_command k w (lit ''tar''))"

section \<open>Facts\<close>

text \<open>
  An operand is local in the sense of rsync's own grammar: it is no \<open>rsync://\<close> URL in any
  capitalisation, and any colon comes after a path separator.
\<close>

definition local_spelling :: "ustr \<Rightarrow> bool" where
  "local_spelling s \<longleftrightarrow>
    \<not> prefix (lit ''rsync://'') (map ascii_lower s) \<and>
    (\<forall>i < length s. s ! i = colon \<longrightarrow> slash \<in> set (take i s))"

lemma local_spelling_iff: "local_spelling s \<longleftrightarrow> \<not> is_remote_rsync_operand s"
proof (cases "str_find colon s")
  case None
  then have "colon \<notin> set s"
    by (simp add: str_find_None_iff)
  then have "\<forall>i < length s. s ! i \<noteq> colon"
    by (metis nth_mem)
  with None show ?thesis
    by (simp add: local_spelling_def is_remote_rsync_operand_def)
next
  case (Some c)
  then have c: "c < length s" "s ! c = colon" "colon \<notin> set (take c s)"
    by (simp_all add: str_find_Some_iff)
  have c_first: "c \<le> i" if "i < length s" "s ! i = colon" for i
  proof (rule ccontr)
    assume "\<not> c \<le> i"
    then have "s ! i \<in> set (take c s)"
      using that(1) by (intro nth_in_take) simp_all
    with that(2) c(3) show False by simp
  qed
  have "(\<forall>i < length s. s ! i = colon \<longrightarrow> slash \<in> set (take i s)) \<longleftrightarrow> slash \<in> set (take c s)"
  proof (intro iffI allI impI)
    fix i
    assume "slash \<in> set (take c s)" and i: "i < length s" "s ! i = colon"
    then show "slash \<in> set (take i s)"
      using set_take_subset_set_take [OF c_first [OF i], of s] by auto
  qed (use c(1,2) in simp)
  also have "\<dots> \<longleftrightarrow> (\<exists>j. str_find slash s = Some j \<and> \<not> c < j)"
  proof
    assume "slash \<in> set (take c s)"
    then obtain j where j: "j < c" "s ! j = slash"
      by (auto simp: in_set_conv_nth)
    then have "slash \<in> set s"
      using c(1) nth_mem [of j s] by simp
    then obtain i where i: "str_find slash s = Some i"
      by (metis not_None_eq str_find_None_iff)
    have "\<not> c < i"
    proof
      assume "c < i"
      then have "s ! j \<in> set (take i s)"
        using j(1) c(1) by (intro nth_in_take) simp_all
      with i j(2) show False by (simp add: str_find_Some_iff)
    qed
    with i show "\<exists>j. str_find slash s = Some j \<and> \<not> c < j" by blast
  next
    assume "\<exists>j. str_find slash s = Some j \<and> \<not> c < j"
    then obtain j where j: "j < length s" "s ! j = slash" "j \<le> c"
      by (auto simp: str_find_Some_iff)
    then have "j < c"
      using c(2) by (cases "j = c") auto
    then show "slash \<in> set (take c s)"
      using j(1,2) nth_in_take [of j c s] by simp
  qed
  finally show ?thesis
    using Some by (auto simp: local_spelling_def is_remote_rsync_operand_def split: option.splits)
qed

lemma local_rsync_operand_Inr [result_iff]:
  "local_rsync_operand v role rel = Inr s \<longleftrightarrow>
    safe_path v rel = Inr s \<and> (\<exists>raw. fspath_text v = Inr raw \<and> local_spelling raw) \<and>
    local_spelling s"
  by (auto simp: local_rsync_operand_def rbind_Inr_iff local_spelling_iff split: if_splits)

definition safe_operand :: "bool \<Rightarrow> ustr \<Rightarrow> bool" where
  "safe_operand rel s \<longleftrightarrow>
    s \<noteq> [] \<and> 0 \<notin> set s \<and> lit ''..'' \<notin> set (posix_parts (posix_parse s)) \<and>
    (rel \<or> posix_is_absolute s)"

lemma safe_operand_safe_path: "safe_path v rel = Inr s \<Longrightarrow> safe_operand rel s"
  using classify_normalized
  by (auto simp: safe_path_Inr safe_operand_def classify_path_None_iff)

text \<open>An rsync command is the selected flags in their fixed order, the separator, and two
  operands; both operands are validated paths spelled locally, so neither can be an option, an
  \<open>rsync://\<close> URL, a \<open>host:path\<close> or a \<open>host::module\<close>, whatever the caller passed and
  whether or not relative paths are allowed.\<close>

theorem rsync_operands_are_local:
  assumes "rsync_sync k w src dst (Some options) = Inr cmd"
  shows "\<exists>s d. cmd_program cmd = lit ''rsync'' \<and>
    cmd_argv cmd =
      (if rs_archive options then [lit ''--archive''] else []) @
      (if rs_delete options then [lit ''--delete''] else []) @
      (if rs_dry_run options then [lit ''--dry-run''] else []) @
      (if rs_verbose options then [lit ''--verbose''] else []) @
      (if rs_compress options then [lit ''--compress''] else []) @ [lit ''--'', s, d] \<and>
    safe_operand (rs_allow_relative options) s \<and> local_spelling s \<and>
    safe_operand (rs_allow_relative options) d \<and> local_spelling d"
proof -
  from assms obtain argv where argv: "rsync_argv src dst options = Inr argv"
    and cmd: "make_command k w (lit ''rsync'') argv = Inr cmd"
    by (auto simp: rsync_sync_def rbind_Inr_iff)
  from argv obtain s d where
    s: "safe_path src (rs_allow_relative options) = Inr s" "local_spelling s" and
    d: "safe_path dst (rs_allow_relative options) = Inr d" "local_spelling d" and
    a: "argv = map snd (filter (\<lambda>(attr, flag). attr options) flag_order) @ [lit ''--'', s, d]"
    unfolding rsync_argv_def rbind_Inr_iff local_rsync_operand_Inr by blast
  show ?thesis
    using s(2) d(2) safe_operand_safe_path [OF s(1)] safe_operand_safe_path [OF d(1)]
      make_command_fields [OF cmd]
    by (intro exI [of _ s] exI [of _ d]) (simp add: a flag_order_def)
qed

lemma make_command_initial:
  assumes "program \<in> set [lit ''echo'', lit ''git'', lit ''ls'', lit ''rsync'', lit ''tar'', lit ''mdbook'']"
  shows "\<exists>cmd. make_command k (initial_world :: ('h, program_catalogue, 'r) context_world) program argv =
      Inr cmd \<and> cmd_argv cmd = argv"
  using built_in_programs [OF assms, of k] by (auto simp: make_command_Inr)

lemma rsync_operands_are_local_witness:
  "\<exists>cmd. rsync_sync 0 (initial_world :: (nat, program_catalogue, nat) context_world)
      (In_str (lit ''./-a'')) (In_str (lit ''dir/host:x''))
      (Some (default_rsync_options\<lparr>rs_allow_relative := True, rs_delete := True\<rparr>)) = Inr cmd \<and>
    cmd_program cmd = lit ''rsync'' \<and>
    cmd_argv cmd = [lit ''--delete'', lit ''--'', lit ''-a'', lit ''dir/host:x'']"
proof -
  let ?w = "initial_world :: (nat, program_catalogue, nat) context_world"
  let ?o = "default_rsync_options\<lparr>rs_allow_relative := True, rs_delete := True\<rparr>"
  let ?argv = "[lit ''--delete'', lit ''--'', lit ''-a'', lit ''dir/host:x'']"
  have argv: "rsync_argv (In_str (lit ''./-a'')) (In_str (lit ''dir/host:x'')) ?o = Inr ?argv"
    by code_simp
  obtain cmd where cmd: "make_command 0 ?w (lit ''rsync'') ?argv = Inr cmd" "cmd_argv cmd = ?argv"
    using make_command_initial [of "lit ''rsync''" 0 ?argv] by auto
  have run: "rsync_sync 0 ?w (In_str (lit ''./-a'')) (In_str (lit ''dir/host:x'')) (Some ?o) = Inr cmd"
    using argv cmd(1) by (simp add: rsync_sync_def)
  from rsync_operands_are_local [OF run] have "cmd_program cmd = lit ''rsync''"
    by blast
  with run cmd(2) show ?thesis by blast
qed

text \<open>A tar create command is \<open>-c\<close>, at most one compression flag, \<open>-f\<close> with the
  archive, the separator, and then exactly the caller's sources in order, each a validated path;
  so no source can be read as a tar option.  It needs at least one source.\<close>

theorem tar_sources_after_separator:
  assumes "tar_create k w archive sources (Some options) = Inr cmd"
  shows "\<exists>ps a ss. sources = Source_list ps \<and> ps \<noteq> [] \<and> length ss = length ps \<and>
    cmd_program cmd = lit ''tar'' \<and>
    cmd_argv cmd = lit ''-c'' #
      (if tc_compression options = No_compression then [] else [get_compression_flag options]) @
      [lit ''-f'', a, lit ''--''] @ ss \<and>
    safe_operand (tc_allow_relative options) a \<and>
    (\<forall>i < length ps. safe_path (ps ! i) (tc_allow_relative options) = Inr (ss ! i) \<and>
      safe_operand (tc_allow_relative options) (ss ! i))"
proof -
  let ?rel = "tc_allow_relative options"
  from assms obtain argv where argv: "tar_create_argv archive sources options = Inr argv"
    and cmd: "make_command k w (lit ''tar'') argv = Inr cmd"
    by (auto simp: tar_create_def rbind_Inr_iff)
  from argv obtain p ps where src: "sources = Source_list (p # ps)"
    by (auto simp: tar_create_argv_def split: sources_input.splits list.splits)
  from argv obtain a ss where
    a: "safe_path archive ?rel = Inr a" and
    ss: "traverse (\<lambda>p. safe_path p ?rel) (p # ps) = Inr ss" and
    eq: "argv = lit ''-c'' # (if get_compression_flag options \<noteq> [] then [get_compression_flag options]
      else []) @ [lit ''-f'', a, lit ''--''] @ ss"
    unfolding src tar_create_argv_def Let_def sources_input.case list.case rbind_Inr_iff by auto
  have flag: "get_compression_flag options \<noteq> [] \<longleftrightarrow> tc_compression options \<noteq> No_compression"
    by (simp add: get_compression_flag_def split: compression.split)
  have len: "length ss = length (p # ps)"
    using ss by (rule traverse_Inr_length)
  have "safe_path ((p # ps) ! i) ?rel = Inr (ss ! i)" if "i < length (p # ps)" for i
    using ss that unfolding traverse_Inr_iff by (rule list_all2_nthD)
  then show ?thesis
    using src len make_command_fields [OF cmd] eq flag safe_operand_safe_path [OF a]
      safe_operand_safe_path
    by (intro exI [of _ "p # ps"] exI [of _ a] exI [of _ ss]) auto
qed

lemma tar_sources_after_separator_witness:
  "\<exists>cmd. tar_create 0 (initial_world :: (nat, program_catalogue, nat) context_world)
      (In_str (lit ''/t/a.tgz'')) (Source_list [In_str (lit ''--checkpoint=1''), In_str (lit ''b'')])
      (Some \<lparr>tc_compression = Gzip, tc_allow_relative = True\<rparr>) = Inr cmd \<and>
    cmd_program cmd = lit ''tar'' \<and>
    cmd_argv cmd =
      [lit ''-c'', lit ''-z'', lit ''-f'', lit ''/t/a.tgz'', lit ''--'', lit ''--checkpoint=1'', lit ''b'']"
proof -
  let ?w = "initial_world :: (nat, program_catalogue, nat) context_world"
  let ?o = "\<lparr>tc_compression = Gzip, tc_allow_relative = True\<rparr>"
  let ?src = "Source_list [In_str (lit ''--checkpoint=1''), In_str (lit ''b'')]"
  let ?argv = "[lit ''-c'', lit ''-z'', lit ''-f'', lit ''/t/a.tgz'', lit ''--'', lit ''--checkpoint=1'', lit ''b'']"
  have argv: "tar_create_argv (In_str (lit ''/t/a.tgz'')) ?src ?o = Inr ?argv"
    by code_simp
  obtain cmd where cmd: "make_command 0 ?w (lit ''tar'') ?argv = Inr cmd" "cmd_argv cmd = ?argv"
    using make_command_initial [of "lit ''tar''" 0 ?argv] by auto
  have run: "tar_create 0 ?w (In_str (lit ''/t/a.tgz'')) ?src (Some ?o) = Inr cmd"
    using argv cmd(1) by (simp add: tar_create_def)
  from tar_sources_after_separator [OF run] have "cmd_program cmd = lit ''tar''"
    by blast
  with run cmd(2) show ?thesis by blast
qed

end
