(* ===== verification/Line_Boundaries.thy ===== *)
theory Line_Boundaries
  imports Cuprum_Prelude
begin

text \<open>
  Line assembly of decoded streams (\<open>cuprum/_stream_line_boundaries.py\<close>,
  \<open>_line_splitting.py\<close>, the bound buckets of \<open>_stream_line_consumer.py\<close>).  The accumulator
  sees text one chunk at a time, keeps the parts of the unterminated line, holds a trailing carriage
  return until the next chunk, and emits bounded fragments of long lines.  The reference is Python's
  \<open>str.splitlines\<close> of the whole text, each line cut into pieces of the bound; the main theorem
  says that the accumulator computes it for every way of chunking the text.
\<close>

section \<open>The reference: whole-text splitting\<close>

definition line_boundary :: "nat \<Rightarrow> bool" where
  "line_boundary c \<longleftrightarrow> c \<in> set [10, 13, 11, 12, 28, 29, 30, 133, 8232, 8233]"

text \<open>What follows a boundary \<open>c\<close>: the line feed of a \<open>CRLF\<close> belongs to the boundary.\<close>

definition after_boundary :: "nat \<Rightarrow> ustr \<Rightarrow> ustr" where
  "after_boundary c cs = (if c = 13 \<and> take 1 cs = [10] then drop 1 cs else cs)"

lemma length_after_boundary: "length (after_boundary c cs) \<le> length cs"
  by (simp add: after_boundary_def)

lemma length_after_boundary_less [termination_simp]: "length (after_boundary c cs) < Suc (length cs)"
  using length_after_boundary [of c cs] by simp

text \<open>
  \<open>split_by B cur s\<close>: the lines of \<open>cur + s\<close> for the boundary characters \<open>B\<close>, when
  \<open>cur\<close> holds none of them.
\<close>

fun split_by :: "(nat \<Rightarrow> bool) \<Rightarrow> ustr \<Rightarrow> ustr \<Rightarrow> ustr list" where
  "split_by B cur [] = (if cur = [] then [] else [cur])"
| "split_by B cur (c # cs) =
    (if B c then cur # split_by B [] (after_boundary c cs) else split_by B (cur @ [c]) cs)"

abbreviation splitlines_from :: "ustr \<Rightarrow> ustr \<Rightarrow> ustr list" where
  "splitlines_from \<equiv> split_by line_boundary"

definition splitlines :: "ustr \<Rightarrow> ustr list" where
  "splitlines s = splitlines_from [] s"

text \<open>Lines ended by CR, LF and CRLF only.\<close>

definition crlf_boundary :: "nat \<Rightarrow> bool" where
  "crlf_boundary c \<longleftrightarrow> c = 10 \<or> c = 13"

definition crlf_lines :: "ustr \<Rightarrow> ustr list" where
  "crlf_lines s = split_by crlf_boundary [] s"

lemma split_by_no_boundary:
  "list_all (\<lambda>c. \<not> B c) x \<Longrightarrow> split_by B p (x @ t) = split_by B (p @ x) t"
  by (induction x arbitrary: p) simp_all

lemma drop_at:
  "start \<le> i \<Longrightarrow> i < length s \<Longrightarrow>
    drop start s = drop start (take i s) @ s ! i # drop (i + 1) s"
  by (metis Cons_nth_drop_Suc Suc_eq_plus1 append_take_drop_id drop_append diff_is_0_eq'
      drop_0 length_take min.absorb4)

text \<open>The same with \<open>keepends=True\<close>.\<close>

fun splitlines_keep_from :: "ustr \<Rightarrow> ustr \<Rightarrow> ustr list" where
  "splitlines_keep_from cur [] = (if cur = [] then [] else [cur])"
| "splitlines_keep_from cur (c # cs) =
    (if line_boundary c then
       (cur @ c # take (length cs - length (after_boundary c cs)) cs) #
         splitlines_keep_from [] (after_boundary c cs)
     else splitlines_keep_from (cur @ [c]) cs)"

definition splitlines_keep :: "ustr \<Rightarrow> ustr list" where
  "splitlines_keep s = splitlines_keep_from [] s"

text \<open>A line cut into pieces of at most the bound; \<open>None\<close> is no bound.\<close>

function fragments :: "nat option \<Rightarrow> ustr \<Rightarrow> ustr list" where
  "fragments b line =
    (case b of
       None \<Rightarrow> [line]
     | Some n \<Rightarrow>
         if n = 0 \<or> length line \<le> n then [line]
         else take n line # fragments b (drop n line))"
  by pat_completeness auto
termination
  by (relation "measure (\<lambda>(b, line). length line)") auto

declare fragments.simps [simp del]

section \<open>Whole-text helpers of the code\<close>

definition ends_with_line_ending :: "ustr \<Rightarrow> bool" where
  "ends_with_line_ending line \<longleftrightarrow> line \<noteq> [] \<and> line_boundary (last line)"

definition strip_line_ending :: "ustr \<Rightarrow> ustr" where
  "strip_line_ending line =
    (if suffix [13, 10] line then take (length line - 2) line
     else if ends_with_line_ending line then butlast line
     else line)"

definition should_hold_trailing_line :: "ustr \<Rightarrow> bool \<Rightarrow> bool" where
  "should_hold_trailing_line line final =
    (if \<not> ends_with_line_ending line then True
     else \<not> final \<and> suffix [13] line)"

definition split_complete_lines :: "ustr \<Rightarrow> bool \<Rightarrow> ustr list \<times> ustr" where
  "split_complete_lines text final =
    (let lines = splitlines_keep text
     in if lines = [] then ([], text)
        else if should_hold_trailing_line (last lines) final
          then (map strip_line_ending (butlast lines), last lines)
        else (map strip_line_ending lines, []))"

text \<open>
  The superseded splitter of \<open>_line_splitting.py\<close> scans with an index and knows only CR, LF and
  CRLF.  \<open>start\<close> is where the current line begins.
\<close>

function crlf_scan :: "ustr \<Rightarrow> nat \<Rightarrow> nat \<Rightarrow> ustr list \<Rightarrow> ustr list \<times> ustr" where
  "crlf_scan text start index lines =
    (if index < length text then
       (if text ! index = 10 then
          crlf_scan text (index + 1) (index + 1) (lines @ [drop start (take index text)])
        else if text ! index = 13 then
          (if index + 1 = length text then (lines, drop start text)
           else
             let lines' = lines @ [drop start (take index text)];
                 index' = (if text ! (index + 1) = 10 then index + 1 else index)
             in crlf_scan text (index' + 1) (index' + 1) lines')
        else crlf_scan text start (index + 1) lines)
     else (lines, drop start text))"
  by pat_completeness auto
termination
  by (relation "measure (\<lambda>(text, start, index, lines). length text - index)") (auto simp: Let_def split: if_splits)

declare crlf_scan.simps [simp del]

definition crlf_split_complete_lines :: "ustr \<Rightarrow> ustr list \<times> ustr" where
  "crlf_split_complete_lines text = crlf_scan text 0 0 []"

definition crlf_strip_line_ending :: "ustr \<Rightarrow> ustr" where
  "crlf_strip_line_ending line =
    (if suffix [13, 10] line then take (length line - 2) line
     else if suffix [10] line \<or> suffix [13] line then butlast line
     else line)"

text \<open>\<open>_line_bound_bucket\<close>.\<close>

fun bound_bucket_in :: "(nat \<times> ustr) list \<Rightarrow> nat \<Rightarrow> ustr" where
  "bound_bucket_in [] n = lit ''gt_64k''"
| "bound_bucket_in ((limit, bucket) # buckets) n =
    (if n \<le> limit then bucket else bound_bucket_in buckets n)"

definition line_bound_bucket :: "nat option \<Rightarrow> ustr" where
  "line_bound_bucket max_line_chars =
    (case max_line_chars of
       None \<Rightarrow> lit ''unbounded''
     | Some n \<Rightarrow> bound_bucket_in
         [(1024, lit ''le_1k''), (4096, lit ''1k_4k''), (16384, lit ''4k_16k''),
          (65536, lit ''16k_64k'')] n)"

section \<open>The accumulator\<close>

record line_accumulator =
  la_parts :: "ustr list"
  la_pending_chars :: nat
  la_skip_next_lf :: bool
  la_max_line_chars :: "nat option"
  la_has_emitted_fragment :: bool

definition new_accumulator :: "nat option \<Rightarrow> line_accumulator" where
  "new_accumulator max_line_chars =
    \<lparr>la_parts = [], la_pending_chars = 0, la_skip_next_lf = False,
      la_max_line_chars = max_line_chars, la_has_emitted_fragment = False\<rparr>"

definition find_next_boundary :: "ustr \<Rightarrow> nat \<Rightarrow> nat option" where
  "find_next_boundary text start =
    (let before = takeWhile (\<lambda>c. \<not> line_boundary c) (drop start text)
     in if start + length before < length text then Some (start + length before) else None)"

definition boundary_width :: "ustr \<Rightarrow> nat \<Rightarrow> nat" where
  "boundary_width text index = (if prefix [13, 10] (drop index text) then 2 else 1)"

definition append_text :: "ustr \<Rightarrow> line_accumulator \<Rightarrow> line_accumulator" where
  "append_text text st =
    (if text \<noteq> [] then
       st\<lparr>la_parts := la_parts st @ [text], la_pending_chars := la_pending_chars st + length text\<rparr>
     else st)"

text \<open>\<open>_take\<close>: the loop pops whole parts and cuts the last one.\<close>

fun take_parts :: "nat \<Rightarrow> ustr list \<Rightarrow> ustr list \<times> ustr list" where
  "take_parts remaining [] = ([], [])"
| "take_parts remaining (part # parts) =
    (if remaining = 0 then ([], part # parts)
     else if length part \<le> remaining then
       (let (taken, rest) = take_parts (remaining - length part) parts in (part # taken, rest))
     else ([take remaining part], drop remaining part # parts))"

definition take_pending :: "nat \<Rightarrow> line_accumulator \<Rightarrow> ustr \<times> line_accumulator" where
  "take_pending n st =
    (let (taken, rest) = take_parts n (la_parts st);
         text = concat taken
     in (text, st\<lparr>la_parts := rest, la_pending_chars := la_pending_chars st - length text\<rparr>))"

definition split_overflow :: "line_accumulator \<Rightarrow> ustr list \<times> line_accumulator" where
  "split_overflow st =
    (case la_max_line_chars st of
       None \<Rightarrow> ([], st)
     | Some bound \<Rightarrow>
         if la_pending_chars st \<le> bound then ([], st)
         else
           let pending = concat (la_parts st);
               fragment_count = (length pending - 1) div bound;
               frags = map (\<lambda>index. drop (index * bound) (take ((index + 1) * bound) pending))
                 [0..<fragment_count];
               remainder = drop (fragment_count * bound) pending
           in (frags,
               st\<lparr>la_has_emitted_fragment := True,
                 la_parts := (if remainder \<noteq> [] then [remainder] else []),
                 la_pending_chars := length remainder\<rparr>))"

definition complete_line :: "line_accumulator \<Rightarrow> ustr list \<times> line_accumulator" where
  "complete_line st =
    (let (frags, st) = split_overflow st;
         (text, st) = take_pending (la_pending_chars st) st
     in (frags @ [text], st))"

definition resume_held_carriage_return ::
  "ustr \<Rightarrow> line_accumulator \<Rightarrow> nat \<times> ustr list \<times> line_accumulator" where
  "resume_held_carriage_return text st =
    (if \<not> la_skip_next_lf st then (0, [], st)
     else
       let start = (if text ! 0 = 10 then 1 else 0);
           (emitted, st) = complete_line (st\<lparr>la_skip_next_lf := False\<rparr>)
       in (start, emitted, st))"

function scan_boundaries ::
  "ustr \<Rightarrow> nat \<Rightarrow> ustr list \<Rightarrow> line_accumulator \<Rightarrow> nat \<times> ustr list \<times> line_accumulator" where
  "scan_boundaries scan_text start emitted st =
    (case find_next_boundary scan_text start of
       None \<Rightarrow> (start, emitted, st)
     | Some index \<Rightarrow>
         let st = append_text (drop start (take index scan_text)) st;
             (lines, st) = complete_line st
         in scan_boundaries scan_text (index + boundary_width scan_text index) (emitted @ lines) st)"
  by pat_completeness auto
termination
  by (relation "measure (\<lambda>(text, start, emitted, st). length text - start)")
    (auto simp: find_next_boundary_def boundary_width_def Let_def split: if_splits)

declare scan_boundaries.simps [simp del]

definition feed :: "ustr \<Rightarrow> line_accumulator \<Rightarrow> ustr list \<times> line_accumulator" where
  "feed text st =
    (if text = [] then ([], st)
     else
       let (start, emitted, st) = resume_held_carriage_return text st;
           holds = suffix [13] text;
           scan_text = (if holds then butlast text else text);
           (start, emitted, st) = scan_boundaries scan_text start emitted st;
           st = append_text (drop start scan_text) st;
           st = (if holds then st\<lparr>la_skip_next_lf := True\<rparr> else st);
           (frags, st) = split_overflow st
       in (emitted @ frags, st))"

definition finish :: "line_accumulator \<Rightarrow> ustr option \<times> line_accumulator" where
  "finish st =
    (let held = la_skip_next_lf st;
         st = st\<lparr>la_skip_next_lf := False\<rparr>
     in if \<not> held \<and> la_parts st = [] then (None, st)
        else (let (text, st) = take_pending (la_pending_chars st) st in (Some text, st)))"

text \<open>A drained stream: every chunk is fed, then the trailing line is taken.\<close>

fun feed_all :: "ustr list \<Rightarrow> line_accumulator \<Rightarrow> ustr list \<times> line_accumulator" where
  "feed_all [] st = ([], st)"
| "feed_all (chunk # chunks) st =
    (let (lines, st) = feed chunk st;
         (more, st) = feed_all chunks st
     in (lines @ more, st))"

definition drained_lines :: "nat option \<Rightarrow> ustr list \<Rightarrow> ustr list" where
  "drained_lines max_line_chars chunks =
    (let (lines, st) = feed_all chunks (new_accumulator max_line_chars)
     in lines @ (case fst (finish st) of None \<Rightarrow> [] | Some text \<Rightarrow> [text]))"

section \<open>Fragments\<close>

lemma fragments_None [simp]: "fragments None l = [l]"
  by (simp add: fragments.simps)

lemma fragments_short [simp]: "length l \<le> n \<Longrightarrow> fragments (Some n) l = [l]"
  by (simp add: fragments.simps)

lemma fragments_long:
  "0 < n \<Longrightarrow> n < length l \<Longrightarrow> fragments (Some n) l = take n l # fragments (Some n) (drop n l)"
  by (subst fragments.simps) simp

lemma fragments_neq_Nil [simp]: "fragments b l \<noteq> []"
  by (subst fragments.simps) (simp split: option.split)

lemma fragments_induct [case_names whole cut]:
  assumes whole: "\<And>p. fragments b p = [p] \<Longrightarrow> P p"
    and cut: "\<And>n p. b = Some n \<Longrightarrow> 0 < n \<Longrightarrow> n < length p \<Longrightarrow> P (drop n p) \<Longrightarrow> P p"
  shows "P p"
proof (induction p rule: length_induct)
  case (1 p)
  show ?case
  proof (cases "\<exists>n. b = Some n \<and> 0 < n \<and> n < length p")
    case True
    then obtain n where "b = Some n" "0 < n" "n < length p" by blast
    with 1 show ?thesis by (intro cut [of n p]) simp_all
  next
    case False
    then have "fragments b p = [p]"
      by (auto simp: fragments.simps split: option.split)
    then show ?thesis by (rule whole)
  qed
qed

lemma concat_fragments: "concat (fragments b l) = l"
  by (induction l rule: fragments_induct [of b]) (simp_all add: fragments_long)

lemma fragments_bound: "0 < n \<Longrightarrow> x \<in> set (fragments (Some n) l) \<Longrightarrow> length x \<le> n"
proof (induction l rule: fragments_induct [of "Some n"])
  case (whole p)
  then show ?case
    by (cases "length p \<le> n") (auto simp: fragments_long)
next
  case (cut m p)
  then show ?case by (auto simp: fragments_long)
qed

lemma fragments_append:
  "fragments b (p @ x) = butlast (fragments b p) @ fragments b (last (fragments b p) @ x)"
  by (induction p rule: fragments_induct [of b]) (simp_all add: fragments_long)

lemma fragments_last [simp]: "fragments b (last (fragments b p)) = [last (fragments b p)]"
  by (induction p rule: fragments_induct [of b]) (simp_all add: fragments_long)

lemma last_fragments_eq_Nil_iff [simp]: "last (fragments b p) = [] \<longleftrightarrow> p = []"
  by (induction p rule: fragments_induct [of b]) (auto simp: fragments_long)

lemma fragments_slices:
  assumes "0 < n" "l \<noteq> []"
  shows "map (\<lambda>i. drop (i * n) (take ((i + 1) * n) l)) [0..<(length l - 1) div n] @
    [drop ((length l - 1) div n * n) l] = fragments (Some n) l"
  using assms(2)
proof (induction l rule: length_induct)
  case (1 l)
  show ?case
  proof (cases "length l \<le> n")
    case True
    with 1 assms(1) have "(length l - 1) div n = 0"
      by (cases l) auto
    with True show ?thesis by simp
  next
    case False
    let ?d = "drop n l"
    have len: "(length l - 1) div n = Suc ((length ?d - 1) div n)"
      using False assms(1) div_add_self2 [of n "length l - 1 - n"] by simp
    have slice: "drop (Suc i * n) (take ((Suc i + 1) * n) l) =
        drop (i * n) (take ((i + 1) * n) ?d)" for i
    proof -
      have "drop (Suc i * n) xs = drop (i * n) (drop n xs)" for xs :: ustr
        by (simp add: add.commute)
      moreover have "drop n (take ((Suc i + 1) * n) l) = take ((i + 1) * n) ?d"
        by (simp add: drop_take)
      ultimately show ?thesis by metis
    qed
    have IH: "map (\<lambda>i. drop (i * n) (take ((i + 1) * n) ?d)) [0..<(length ?d - 1) div n] @
        [drop ((length ?d - 1) div n * n) ?d] = fragments (Some n) ?d"
    proof -
      have "length ?d < length l" "?d \<noteq> []"
        using False assms(1) by auto
      with "1.IH" show ?thesis by blast
    qed
    have upt: "[0..<Suc k] = 0 # map Suc [0..<k]" for k
      by (simp add: upt_conv_Cons map_Suc_upt del: upt_Suc)
    have "map (\<lambda>i. drop (i * n) (take ((i + 1) * n) l)) [0..<(length l - 1) div n] =
        drop (0 * n) (take ((0 + 1) * n) l) #
          map (\<lambda>i. drop (i * n) (take ((i + 1) * n) ?d)) [0..<(length ?d - 1) div n]"
      unfolding len upt list.map list.map_comp comp_def slice ..
    moreover have "drop ((length l - 1) div n * n) l = drop ((length ?d - 1) div n * n) ?d"
      unfolding len by (simp add: add.commute)
    ultimately show ?thesis
      using IH False assms(1) by (simp add: fragments_long)
  qed
qed

section \<open>Invariant and steps of the accumulator\<close>

abbreviation pending_text :: "line_accumulator \<Rightarrow> ustr" where
  "pending_text st \<equiv> concat (la_parts st)"

definition acc_ok :: "line_accumulator \<Rightarrow> bool" where
  "acc_ok st \<longleftrightarrow>
    la_pending_chars st = length (pending_text st) \<and> [] \<notin> set (la_parts st) \<and>
    la_max_line_chars st \<noteq> Some 0"

text \<open>Between two feeds the pending text is within the bound.\<close>

definition acc_settled :: "line_accumulator \<Rightarrow> bool" where
  "acc_settled st \<longleftrightarrow>
    acc_ok st \<and> fragments (la_max_line_chars st) (pending_text st) = [pending_text st]"

lemma acc_settled_bound:
  assumes "acc_settled st" "la_max_line_chars st = Some n"
  shows "la_pending_chars st \<le> n"
proof -
  have "0 < n"
    using assms by (auto simp: acc_settled_def acc_ok_def)
  with fragments_bound [OF this, of "pending_text st" "pending_text st"] assms show ?thesis
    by (simp add: acc_settled_def acc_ok_def)
qed

lemma pending_text_Nil_iff: "acc_ok st \<Longrightarrow> pending_text st = [] \<longleftrightarrow> la_parts st = []"
  by (cases "la_parts st") (auto simp: acc_ok_def)

lemma acc_new [simp]: "b \<noteq> Some 0 \<Longrightarrow> acc_settled (new_accumulator b)"
  by (cases b) (simp_all add: acc_settled_def acc_ok_def new_accumulator_def)

lemma append_text_fields [simp]:
  "pending_text (append_text t st) = pending_text st @ t"
  "la_skip_next_lf (append_text t st) = la_skip_next_lf st"
  "la_max_line_chars (append_text t st) = la_max_line_chars st"
  "acc_ok st \<Longrightarrow> acc_ok (append_text t st)"
  by (simp_all add: append_text_def acc_ok_def)

lemma split_overflow_step:
  assumes "acc_ok st"
  shows "\<exists>st'. split_overflow st =
      (butlast (fragments (la_max_line_chars st) (pending_text st)), st') \<and>
    pending_text st' = last (fragments (la_max_line_chars st) (pending_text st)) \<and>
    la_skip_next_lf st' = la_skip_next_lf st \<and>
    la_max_line_chars st' = la_max_line_chars st \<and> acc_settled st'"
proof (cases "la_max_line_chars st")
  case None
  then show ?thesis using assms by (simp add: split_overflow_def acc_settled_def)
next
  case (Some n)
  show ?thesis
  proof (cases "la_pending_chars st \<le> n")
    case True
    then have "fragments (Some n) (pending_text st) = [pending_text st]"
      using assms by (simp add: acc_ok_def)
    with True Some assms show ?thesis by (simp add: split_overflow_def acc_settled_def)
  next
    case False
    let ?p = "pending_text st"
    let ?k = "(length ?p - 1) div n"
    have "n < length ?p" "0 < n"
      using assms Some False by (auto simp: acc_ok_def)
    then have n: "0 < n" "?p \<noteq> []"
      by (simp, metis list.size(3) not_less_zero)
    have frags: "fragments (Some n) ?p =
        map (\<lambda>i. drop (i * n) (take ((i + 1) * n) ?p)) [0..<?k] @ [drop (?k * n) ?p]"
      using fragments_slices [OF n] by simp
    have rem: "drop (?k * n) ?p = last (fragments (Some n) ?p)"
      unfolding frags by simp
    have rem_neq: "drop (?k * n) ?p \<noteq> []"
      unfolding rem using n(2) by simp
    let ?st = "st\<lparr>la_has_emitted_fragment := True, la_parts := [drop (?k * n) ?p],
      la_pending_chars := length (drop (?k * n) ?p)\<rparr>"
    have "split_overflow st = (butlast (fragments (Some n) ?p), ?st)"
      unfolding split_overflow_def Some option.case if_not_P [OF False] Let_def
        if_P [OF rem_neq] frags butlast_snoc ..
    moreover have "acc_settled ?st"
      using rem_neq [symmetric] Some n(1) unfolding acc_settled_def acc_ok_def rem by simp
    moreover have "pending_text ?st = last (fragments (Some n) ?p)"
      "la_skip_next_lf ?st = la_skip_next_lf st" "la_max_line_chars ?st = la_max_line_chars st"
      using rem by (simp_all del: length_drop)
    ultimately show ?thesis
      unfolding Some by blast
  qed
qed

lemma take_parts_all:
  "[] \<notin> set parts \<Longrightarrow> take_parts (length (concat parts)) parts = (parts, [])"
  by (induction parts) auto

lemma take_pending_all:
  "acc_ok st \<Longrightarrow> take_pending (la_pending_chars st) st =
    (pending_text st, st\<lparr>la_parts := [], la_pending_chars := 0\<rparr>)"
  by (simp add: take_pending_def acc_ok_def take_parts_all)

lemma complete_line_step:
  assumes "acc_ok st"
  shows "\<exists>st'. complete_line st = (fragments (la_max_line_chars st) (pending_text st), st') \<and>
    pending_text st' = [] \<and> la_skip_next_lf st' = la_skip_next_lf st \<and>
    la_max_line_chars st' = la_max_line_chars st \<and> acc_ok st'"
proof -
  obtain st1 where split: "split_overflow st =
      (butlast (fragments (la_max_line_chars st) (pending_text st)), st1)"
    and st1: "pending_text st1 = last (fragments (la_max_line_chars st) (pending_text st))"
      "la_skip_next_lf st1 = la_skip_next_lf st" "la_max_line_chars st1 = la_max_line_chars st"
      "acc_settled st1"
    using split_overflow_step [OF assms] by blast
  have ok: "acc_ok st1"
    using st1(4) by (simp add: acc_settled_def)
  have "complete_line st = (fragments (la_max_line_chars st) (pending_text st),
      st1\<lparr>la_parts := [], la_pending_chars := 0\<rparr>)"
    by (simp add: complete_line_def split take_pending_all [OF ok] st1(1) del: concat_eq_Nil_conv)
  moreover have "acc_ok (st1\<lparr>la_parts := [], la_pending_chars := 0\<rparr>)"
    using ok by (simp add: acc_ok_def)
  ultimately show ?thesis
    using st1(2,3) by (intro exI conjI) simp_all
qed

lemma fragments_rejoin [simp]:
  "butlast (fragments b p) @ last (fragments b p) # xs = fragments b p @ xs"
  using append_butlast_last_id [OF fragments_neq_Nil, of b p]
  by (metis append.assoc append_Cons append_Nil)

section \<open>What is still to be emitted\<close>

text \<open>The fragmented lines of the pending text followed by \<open>t\<close>.\<close>

definition lines_of :: "nat option \<Rightarrow> ustr \<Rightarrow> ustr \<Rightarrow> ustr list" where
  "lines_of b p t = concat (map (fragments b) (splitlines_from p t))"

lemma lines_of_Nil: "lines_of b p [] = (if p = [] then [] else fragments b p)"
  by (simp add: lines_of_def)

lemma lines_of_Cons:
  "lines_of b p (c # cs) =
    (if line_boundary c then fragments b p @ lines_of b [] (after_boundary c cs)
     else lines_of b (p @ [c]) cs)"
  by (simp add: lines_of_def)

lemma lines_of_no_boundary:
  "list_all (\<lambda>c. \<not> line_boundary c) x \<Longrightarrow> lines_of b p (x @ t) = lines_of b (p @ x) t"
  by (induction x arbitrary: p) (simp_all add: lines_of_Cons)

text \<open>Fragments cut off early are the ones the whole line would have been cut into.\<close>

lemma lines_of_fragmented:
  "lines_of b p t = butlast (fragments b p) @ lines_of b (last (fragments b p)) t"
proof (induction t arbitrary: p rule: length_induct)
  case (1 t)
  show ?case
  proof (cases t)
    case Nil
    have "butlast (fragments b []) = []"
      by (cases b) simp_all
    with Nil show ?thesis by (simp add: lines_of_Nil)
  next
    case (Cons c cs)
    show ?thesis
    proof (cases "line_boundary c")
      case True
      then show ?thesis
        using Cons by (simp add: lines_of_Cons)
    next
      case False
      let ?l = "last (fragments b p)"
      have IH: "lines_of b q cs = butlast (fragments b q) @ lines_of b (last (fragments b q)) cs" for q
      proof -
        have "length cs < length t"
          using Cons by simp
        with "1.IH" show ?thesis by blast
      qed
      have "fragments b (p @ [c]) = butlast (fragments b p) @ fragments b (?l @ [c])"
        by (rule fragments_append)
      then show ?thesis
        unfolding Cons lines_of_Cons if_not_P [OF False] IH [of "p @ [c]"] IH [of "?l @ [c]"]
        by (simp add: butlast_append)
    qed
  qed
qed

text \<open>What an accumulator that has \<open>rest\<close> still to see will emit.\<close>

definition remaining :: "line_accumulator \<Rightarrow> ustr \<Rightarrow> ustr list" where
  "remaining st rest =
    (let b = la_max_line_chars st in
     if la_skip_next_lf st
     then fragments b (pending_text st) @ lines_of b [] (after_boundary 13 rest)
     else lines_of b (pending_text st) rest)"

lemma remaining_split_overflow:
  assumes "acc_ok st" "split_overflow st = (frags, st')"
  shows "remaining st rest = frags @ remaining st' rest"
proof -
  let ?b = "la_max_line_chars st"
  have frags: "frags = butlast (fragments ?b (pending_text st))"
    "pending_text st' = last (fragments ?b (pending_text st))"
    "la_skip_next_lf st' = la_skip_next_lf st" "la_max_line_chars st' = ?b"
    using split_overflow_step [OF assms(1)] assms(2) by auto
  show ?thesis
    using lines_of_fragmented [of ?b "pending_text st" rest]
    by (simp add: remaining_def Let_def frags del: concat_eq_Nil_conv)
qed

lemma find_next_boundary_None:
  "find_next_boundary text start = None \<Longrightarrow> list_all (\<lambda>c. \<not> line_boundary c) (drop start text)"
proof -
  let ?w = "takeWhile (\<lambda>c. \<not> line_boundary c) (drop start text)"
  assume "find_next_boundary text start = None"
  then have "length (drop start text) \<le> length ?w"
    by (auto simp: find_next_boundary_def Let_def split: if_splits)
  then have "?w = drop start text"
    using takeWhile_eq_take [of "\<lambda>c. \<not> line_boundary c" "drop start text"] by simp
  then show ?thesis
    by (auto simp: takeWhile_eq_all_conv list_all_iff)
qed

lemma find_next_boundary_Some:
  assumes "find_next_boundary text start = Some i"
  shows "start \<le> i" "i < length text" "line_boundary (text ! i)"
    and "list_all (\<lambda>c. \<not> line_boundary c) (drop start (take i text))"
    and "drop start text = drop start (take i text) @ text ! i # drop (i + 1) text"
proof -
  let ?w = "takeWhile (\<lambda>c. \<not> line_boundary c) (drop start text)"
  have i: "i = start + length ?w" "i < length text"
    using assms by (auto simp: find_next_boundary_def Let_def split: if_splits)
  then show "start \<le> i" "i < length text" by simp_all
  have w: "?w = drop start (take i text)"
    using takeWhile_eq_take [of "\<lambda>c. \<not> line_boundary c" "drop start text"] i(1)
    by (simp add: take_drop add.commute)
  then show "list_all (\<lambda>c. \<not> line_boundary c) (drop start (take i text))"
    by (metis (mono_tags, lifting) list_all_iff set_takeWhileD)
  have "\<not> \<not> line_boundary (drop start text ! length ?w)"
    using i by (intro nth_length_takeWhile) simp
  then show "line_boundary (text ! i)"
    using i by simp
  show "drop start text = drop start (take i text) @ text ! i # drop (i + 1) text"
    using \<open>start \<le> i\<close> i(2) by (rule drop_at)
qed

lemma after_boundary_width:
  assumes "i < length text" "suffix [13] text \<longrightarrow> take 1 rest \<noteq> [10]"
  shows "after_boundary (text ! i) (drop (i + 1) text @ rest) =
    drop (i + boundary_width text i) text @ rest"
proof (cases "drop (i + 1) text")
  case Nil
  then have "text = take i text @ [text ! i]"
    using assms(1) id_take_nth_drop [OF assms(1)] by simp
  then have "text ! i = 13 \<Longrightarrow> suffix [13] text"
    by (metis suffixI)
  moreover have "drop i text = [text ! i]"
    using Nil Cons_nth_drop_Suc [OF assms(1)] by simp
  then have "boundary_width text i = 1"
    by (simp add: boundary_width_def)
  ultimately show ?thesis
    using Nil assms(2) by (auto simp: after_boundary_def)
next
  case (Cons d ds)
  then have "drop i text = text ! i # d # ds"
    using Cons_nth_drop_Suc [OF assms(1)] by simp
  moreover from Cons have "drop (i + 2) text = ds"
    by (metis add.commute add_2_eq_Suc' drop_Suc list.sel(3) Suc_eq_plus1 tl_drop)
  ultimately show ?thesis
    using Cons by (auto simp: after_boundary_def boundary_width_def)
qed

lemma scan_boundaries_step:
  assumes "acc_ok st" "suffix [13] text \<longrightarrow> take 1 rest \<noteq> [10]"
  shows "\<exists>start' out st'. scan_boundaries text start emitted st = (start', emitted @ out, st') \<and>
    acc_ok st' \<and> la_skip_next_lf st' = la_skip_next_lf st \<and>
    la_max_line_chars st' = la_max_line_chars st \<and>
    lines_of (la_max_line_chars st) (pending_text st) (drop start text @ rest) =
      out @ lines_of (la_max_line_chars st) (pending_text st' @ drop start' text) rest"
  using assms
proof (induction "text" start emitted st rule: scan_boundaries.induct)
  case (1 scan start emitted st)
  let ?b = "la_max_line_chars st"
  show ?case
  proof (cases "find_next_boundary scan start")
    case None
    then have "scan_boundaries scan start emitted st = (start, emitted, st)"
      by (simp add: scan_boundaries.simps)
    with "1.prems"(1) show ?thesis
      by (simp add: lines_of_no_boundary [OF find_next_boundary_None [OF None]])
  next
    case (Some i)
    note i = find_next_boundary_Some [OF Some]
    let ?pre = "drop start (take i scan)"
    define st1 where "st1 = append_text ?pre st"
    have st1: "acc_ok st1" "pending_text st1 = pending_text st @ ?pre"
      "la_skip_next_lf st1 = la_skip_next_lf st" "la_max_line_chars st1 = ?b"
      using "1.prems"(1) by (simp_all add: st1_def del: concat_eq_Nil_conv)
    obtain st2 where complete: "complete_line st1 = (fragments ?b (pending_text st @ ?pre), st2)"
      and st2: "pending_text st2 = []" "la_skip_next_lf st2 = la_skip_next_lf st"
        "la_max_line_chars st2 = ?b" "acc_ok st2"
      using complete_line_step [OF st1(1)] st1 by auto
    let ?nx = "i + boundary_width scan i"
    have step: "scan_boundaries scan start emitted st =
        scan_boundaries scan ?nx (emitted @ fragments ?b (pending_text st @ ?pre)) st2"
      by (subst scan_boundaries.simps) (simp add: Some complete [unfolded st1_def])
    have "\<exists>start' out st'.
        scan_boundaries scan ?nx (emitted @ fragments ?b (pending_text st @ ?pre)) st2 =
          (start', (emitted @ fragments ?b (pending_text st @ ?pre)) @ out, st') \<and>
        acc_ok st' \<and> la_skip_next_lf st' = la_skip_next_lf st2 \<and>
        la_max_line_chars st' = la_max_line_chars st2 \<and>
        lines_of (la_max_line_chars st2) (pending_text st2) (drop ?nx scan @ rest) =
          out @ lines_of (la_max_line_chars st2) (pending_text st' @ drop start' scan) rest"
      using "1.IH" [OF Some refl complete [unfolded st1_def, symmetric] refl st2(4) "1.prems"(2)] .
    then obtain start' out st' where
      rec: "scan_boundaries scan ?nx (emitted @ fragments ?b (pending_text st @ ?pre)) st2 =
          (start', (emitted @ fragments ?b (pending_text st @ ?pre)) @ out, st')"
      and st': "acc_ok st'" "la_skip_next_lf st' = la_skip_next_lf st"
        "la_max_line_chars st' = ?b"
      and lines: "lines_of ?b [] (drop ?nx scan @ rest) =
          out @ lines_of ?b (pending_text st' @ drop start' scan) rest"
      unfolding st2 by blast
    have "lines_of ?b (pending_text st) (drop start scan @ rest) =
        lines_of ?b (pending_text st @ ?pre) (scan ! i # drop (i + 1) scan @ rest)"
      using lines_of_no_boundary [OF i(4)] i(5) by (metis append.assoc append_Cons)
    also have "\<dots> = fragments ?b (pending_text st @ ?pre) @ lines_of ?b [] (drop ?nx scan @ rest)"
      using i(3) after_boundary_width [OF i(2) "1.prems"(2)] by (simp add: lines_of_Cons)
    finally show ?thesis
      unfolding lines step rec using st'
      by (intro exI [of _ start'] exI [of _ "fragments ?b (pending_text st @ ?pre) @ out"]
          exI [of _ st']) simp
  qed
qed

lemma resume_held_step:
  assumes "acc_settled st" "text \<noteq> []"
  shows "\<exists>start emitted st'. resume_held_carriage_return text st = (start, emitted, st') \<and>
    acc_ok st' \<and> \<not> la_skip_next_lf st' \<and> la_max_line_chars st' = la_max_line_chars st \<and>
    start \<le> 1 \<and> (start = 1 \<longrightarrow> text ! 0 = 10) \<and>
    (\<forall>rest. remaining st (text @ rest) =
      emitted @ lines_of (la_max_line_chars st) (pending_text st') (drop start text @ rest))"
proof (cases "la_skip_next_lf st")
  case False
  with assms show ?thesis
    by (simp add: resume_held_carriage_return_def remaining_def acc_settled_def)
next
  case True
  let ?st = "st\<lparr>la_skip_next_lf := False\<rparr>"
  have "acc_ok ?st"
    using assms(1) by (simp add: acc_settled_def acc_ok_def)
  from complete_line_step [OF this] obtain st' where
    complete: "complete_line ?st = (fragments (la_max_line_chars st) (pending_text st), st')"
    and st': "pending_text st' = []" "\<not> la_skip_next_lf st'"
      "la_max_line_chars st' = la_max_line_chars st" "acc_ok st'"
    by auto
  have after: "after_boundary 13 (text @ rest) = drop (if text ! 0 = 10 then 1 else 0) text @ rest"
    for rest
    using assms(2) by (cases "text") (simp_all add: after_boundary_def)
  have "remaining st (text @ rest) = fragments (la_max_line_chars st) (pending_text st) @
      lines_of (la_max_line_chars st) [] (drop (if text ! 0 = 10 then 1 else 0) text @ rest)" for rest
    using True by (simp add: remaining_def Let_def after del: concat_eq_Nil_conv)
  then show ?thesis
    using True st' unfolding resume_held_carriage_return_def
    by (simp add: complete del: concat_eq_Nil_conv)
qed

lemma feed_step:
  assumes "acc_settled st"
  shows "\<exists>out st'. feed text st = (out, st') \<and> acc_settled st' \<and>
    la_max_line_chars st' = la_max_line_chars st \<and>
    (\<forall>rest. remaining st (text @ rest) = out @ remaining st' rest)"
proof (cases "text = []")
  case True
  with assms show ?thesis by (simp add: feed_def)
next
  case False
  let ?b = "la_max_line_chars st"
  obtain start emitted st1 where
    resume: "resume_held_carriage_return text st = (start, emitted, st1)"
    and st1: "acc_ok st1" "\<not> la_skip_next_lf st1" "la_max_line_chars st1 = ?b"
      "start \<le> 1" "start = 1 \<longrightarrow> text ! 0 = 10"
      "\<And>rest. remaining st (text @ rest) =
        emitted @ lines_of ?b (pending_text st1) (drop start text @ rest)"
    using resume_held_step [OF assms False] by blast
  define scan where "scan = (if suffix [13] text then butlast text else text)"
  let ?tail = "\<lambda>rest :: ustr. if suffix [13] text then 13 # rest else rest"
  have split: "drop start text @ rest = drop start scan @ ?tail rest" for rest
  proof (cases "suffix [13] text")
    case True
    then have eq: "text = scan @ [13]"
      by (auto simp: scan_def suffix_def)
    have "start \<le> length scan"
    proof (rule ccontr)
      assume "\<not> start \<le> length scan"
      then have "start = 1" "scan = []"
        using st1(4) by (cases scan; simp)+
      with st1(5) eq show False by simp
    qed
    with True eq show ?thesis by simp
  qed (simp add: scan_def)
  have clash: "suffix [13] scan \<longrightarrow> take 1 (?tail rest) \<noteq> [10]" for rest
    by (cases "suffix [13] text") (simp_all add: scan_def)
  obtain start2 emitted2 st2 where
    scanned: "scan_boundaries scan start emitted st1 = (start2, emitted2, st2)"
    by (rule prod_cases3)
  have st2: "acc_ok st2" "\<not> la_skip_next_lf st2" "la_max_line_chars st2 = ?b"
    using scan_boundaries_step [OF st1(1), of scan "[0]" start emitted] scanned st1(2,3) by auto
  have lines2: "emitted @ lines_of ?b (pending_text st1) (drop start scan @ ?tail rest) =
      emitted2 @ lines_of ?b (pending_text st2 @ drop start2 scan) (?tail rest)" for rest
    using scan_boundaries_step [of st1 scan "?tail rest" start emitted, OF st1(1) clash]
      scanned st1(3) by (elim exE conjE) (simp del: concat_eq_Nil_conv)
  define st3 where "st3 = append_text (drop start2 scan) st2"
  define st4 where "st4 = (if suffix [13] text then st3\<lparr>la_skip_next_lf := True\<rparr> else st3)"
  have st4: "acc_ok st4" "la_max_line_chars st4 = ?b"
    "pending_text st4 = pending_text st2 @ drop start2 scan"
    "la_skip_next_lf st4 \<longleftrightarrow> suffix [13] text"
    using st2 append_text_fields(4) [OF st2(1), of "drop start2 scan"]
    by (simp_all add: st4_def st3_def acc_ok_def del: concat_eq_Nil_conv)
  have remaining4: "remaining st4 rest =
      lines_of ?b (pending_text st2 @ drop start2 scan) (?tail rest)" for rest
    by (simp add: remaining_def Let_def st4 lines_of_Cons line_boundary_def del: concat_eq_Nil_conv)
  obtain frags st5 where
    over: "split_overflow st4 = (frags, st5)" and
    st5: "acc_settled st5" "la_max_line_chars st5 = ?b"
    using split_overflow_step [OF st4(1)] st4(2) by auto
  have "feed text st = (emitted2 @ frags, st5)"
    using False resume scanned over
    by (cases "suffix [13] text") (simp_all add: feed_def Let_def scan_def st4_def st3_def)
  moreover have "remaining st (text @ rest) = (emitted2 @ frags) @ remaining st5 rest" for rest
    using st1(6) [of rest] split [of rest] lines2 [of rest] remaining4 [of rest]
      remaining_split_overflow [OF st4(1) over, of rest] by simp
  ultimately show ?thesis
    using st5 by blast
qed

text \<open>The accumulator is an incremental splitter.\<close>

interpretation accumulator: incremental_splitter "\<lambda>st t. feed t st" remaining acc_settled
proof
  fix st t rest
  assume "acc_settled st"
  from feed_step [OF this, of t] show "acc_settled (snd (feed t st))"
    and "remaining st (t @ rest) = fst (feed t st) @ remaining (snd (feed t st)) rest"
    by auto
qed

lemma feed_all_run: "feed_all chunks st = accumulator.run st chunks"
  by (induction chunks arbitrary: st) (simp_all add: case_prod_beta Let_def)

lemma la_max_line_chars_feed_all:
  "acc_settled st \<Longrightarrow> la_max_line_chars (snd (feed_all chunks st)) = la_max_line_chars st"
proof (induction chunks arbitrary: st)
  case (Cons chunk chunks)
  from feed_step [OF Cons.prems, of chunk] Cons.IH show ?case
    by (auto simp: case_prod_beta Let_def)
qed simp

lemma finish_step:
  assumes "acc_settled st"
  shows "remaining st [] = (case fst (finish st) of None \<Rightarrow> [] | Some line \<Rightarrow> [line])"
proof -
  let ?st = "st\<lparr>la_skip_next_lf := False\<rparr>"
  have ok: "acc_ok st" "acc_ok ?st"
    and whole: "fragments (la_max_line_chars st) (pending_text st) = [pending_text st]"
    using assms by (simp_all add: acc_settled_def acc_ok_def)
  from take_pending_all [OF ok(2)]
  have "take_pending (la_pending_chars st) ?st =
      (pending_text st, ?st\<lparr>la_parts := [], la_pending_chars := 0\<rparr>)"
    by simp
  then show ?thesis
    using pending_text_Nil_iff [OF ok(1)] whole
    by (simp add: finish_def Let_def remaining_def lines_of_Nil after_boundary_def
        del: concat_eq_Nil_conv)
qed

lemma remaining_new: "remaining (new_accumulator b) s = concat (map (fragments b) (splitlines s))"
  by (simp add: remaining_def new_accumulator_def lines_of_def splitlines_def)

lemma drained_lines_remaining:
  assumes "max_line_chars \<noteq> Some 0"
  shows "drained_lines max_line_chars chunks =
    concat (map (fragments max_line_chars) (splitlines (concat chunks)))"
proof -
  have ok: "acc_settled (new_accumulator max_line_chars)"
    using assms by simp
  have "drained_lines max_line_chars chunks = remaining (new_accumulator max_line_chars) (concat chunks)"
    using accumulator.drain_chunk_invariant [OF ok, of chunks]
      finish_step [OF accumulator.ok_run [OF ok, of chunks]]
    by (simp add: drained_lines_def case_prod_beta feed_all_run)
  then show ?thesis by (simp add: remaining_new)
qed

section \<open>The whole-text helpers are incremental splitters too\<close>

lemma after_boundary_append:
  "cs \<noteq> [] \<or> c \<noteq> 13 \<Longrightarrow> after_boundary c (cs @ rest) = after_boundary c cs @ rest"
  by (cases cs) (auto simp: after_boundary_def)

lemma splitlines_keep_from_eq_Nil_iff [simp]: "splitlines_keep_from cur s = [] \<longleftrightarrow> cur = [] \<and> s = []"
  by (induction cur s rule: splitlines_keep_from.induct) auto

lemma splitlines_keep_nonempty: "[] \<notin> set (splitlines_keep_from cur s)"
  by (induction cur s rule: splitlines_keep_from.induct) auto

lemma suffix_CRLF_no_boundary: "list_all (\<lambda>c. \<not> line_boundary c) cur \<Longrightarrow> \<not> suffix [13, 10] (cur @ [c])"
  by (auto simp: suffix_def append_eq_append_conv2 Cons_eq_append_conv append_eq_Cons_conv
      line_boundary_def)

lemma strip_line_ending_boundary:
  assumes "list_all (\<lambda>c. \<not> line_boundary c) cur" "line_boundary c"
  shows "strip_line_ending (cur @ [c]) = cur" "strip_line_ending (cur @ [13, 10]) = cur"
proof -
  show "strip_line_ending (cur @ [c]) = cur"
    using assms(2) suffix_CRLF_no_boundary [OF assms(1), of c]
    by (auto simp: strip_line_ending_def ends_with_line_ending_def)
  show "strip_line_ending (cur @ [13, 10]) = cur"
    by (simp add: strip_line_ending_def suffix_def)
qed

lemma strip_line_ending_no_boundary:
  "list_all (\<lambda>c. \<not> line_boundary c) cur \<Longrightarrow> strip_line_ending cur = cur"
  by (cases cur rule: rev_cases)
    (auto simp: strip_line_ending_def ends_with_line_ending_def suffix_def line_boundary_def)

text \<open>The text of one complete line, with the line feed of a CRLF.\<close>

lemma keep_first:
  "c # take (length cs - length (after_boundary c cs)) cs =
    (if c = 13 \<and> take 1 cs = [10] then [13, 10] else [c])"
  by (cases cs) (auto simp: after_boundary_def)

lemma splitlines_keep_strip:
  "list_all (\<lambda>c. \<not> line_boundary c) cur \<Longrightarrow>
    map strip_line_ending (splitlines_keep_from cur s) = splitlines_from cur s"
proof (induction cur s rule: splitlines_keep_from.induct)
  case (1 cur)
  then show ?case by (simp add: strip_line_ending_no_boundary)
next
  case (2 cur c cs)
  show ?case
  proof (cases "line_boundary c")
    case True
    have "strip_line_ending (cur @ c # take (length cs - length (after_boundary c cs)) cs) = cur"
      unfolding keep_first using strip_line_ending_boundary [OF "2.prems" True] by simp
    with True "2.IH" show ?thesis by simp
  qed (use 2 in simp)
qed

lemma splitlines_keep_append:
  assumes "list_all (\<lambda>c. \<not> line_boundary c) cur" "cur \<noteq> [] \<or> s \<noteq> []"
  defines "ls \<equiv> splitlines_keep_from cur s"
  shows "splitlines_from cur (s @ rest) =
    (if should_hold_trailing_line (last ls) False
     then map strip_line_ending (butlast ls) @ splitlines_from [] (last ls @ rest)
     else map strip_line_ending ls @ splitlines_from [] rest)"
  using assms(1,2) unfolding ls_def
proof (induction cur s rule: splitlines_keep_from.induct)
  case (1 cur)
  then have "\<not> line_boundary (last cur)"
    by (auto simp: list_all_iff)
  then show ?case
    using 1 by (simp add: should_hold_trailing_line_def ends_with_line_ending_def split_by_no_boundary)
next
  case (2 cur c cs)
  show ?case
  proof (cases "line_boundary c")
    case False
    with 2 show ?thesis by simp
  next
    case True
    let ?first = "cur @ c # take (length cs - length (after_boundary c cs)) cs"
    let ?more = "after_boundary c cs"
    note strip = strip_line_ending_boundary [OF "2.prems"(1) True]
    have first: "?first = cur @ (if c = 13 \<and> take 1 cs = [10] then [13, 10] else [c])"
      by (simp only: keep_first)
    have again: "splitlines_from [] (cur @ c # rest) = cur # splitlines_from [] (after_boundary c rest)"
      using split_by_no_boundary [OF "2.prems"(1), of "[]" "c # rest"] True by simp
    show ?thesis
    proof (cases "?more = []")
      case more: True
      show ?thesis
      proof (cases "cs = []")
        case True
        then show ?thesis
          using strip(1) again \<open>line_boundary c\<close> after_boundary_append [of "[]" c rest]
          by (auto simp: should_hold_trailing_line_def ends_with_line_ending_def after_boundary_def
              suffix_def)
      next
        case False
        then have cs: "c = 13" "cs = [10]"
          using more by (auto simp: after_boundary_def split: if_splits)
        moreover have "line_boundary 10"
          by (simp add: line_boundary_def)
        ultimately show ?thesis
          using strip(2) \<open>line_boundary c\<close>
          by (simp add: should_hold_trailing_line_def ends_with_line_ending_def after_boundary_def
              suffix_def)
      qed
    next
      case False
      then have "cs \<noteq> []" by (auto simp: after_boundary_def)
      then have "after_boundary c (cs @ rest) = ?more @ rest"
        by (simp add: after_boundary_append)
      moreover have "strip_line_ending ?first = cur"
        unfolding first using strip by simp
      moreover note "2.IH"(1) [OF True _ disjI2 [OF False]]
      ultimately show ?thesis
        using True False by simp
    qed
  qed
qed

text \<open>What is left over, put in front of the text to come, makes up for what was held back.\<close>

lemma split_complete_lines_step:
  "splitlines (s @ rest) =
    fst (split_complete_lines s False) @ splitlines (snd (split_complete_lines s False) @ rest)"
proof (cases "s = []")
  case True
  then show ?thesis by (simp add: split_complete_lines_def splitlines_keep_def)
next
  case False
  then show ?thesis
    using splitlines_keep_append [of "[]" s rest]
    by (simp add: split_complete_lines_def splitlines_keep_def splitlines_def Let_def)
qed

interpretation whole_text: incremental_splitter
  "\<lambda>rem t. split_complete_lines (rem @ t) False" "\<lambda>rem t. splitlines (rem @ t)" "\<lambda>_. True"
  by unfold_locales (simp_all flip: split_complete_lines_step)

lemma crlf_scan_step:
  assumes "start \<le> index" "index \<le> length s"
    "list_all (\<lambda>c. \<not> crlf_boundary c) (drop start (take index s))"
  shows "\<exists>out rem. crlf_scan s start index ls = (ls @ out, rem) \<and>
    crlf_lines (drop start s @ rest) = out @ crlf_lines (rem @ rest)"
  using assms
proof (induction s start index ls rule: crlf_scan.induct)
  case (1 s start index ls)
  let ?pre = "drop start (take index s)"
  show ?case
  proof (cases "index < length s")
    case False
    then show ?thesis by (simp add: crlf_scan.simps)
  next
    case True
    have split: "drop start s = ?pre @ s ! index # drop (index + 1) s"
      using "1.prems"(1) True by (rule drop_at)
    have lines: "split_by crlf_boundary [] (drop start s @ rest) =
        split_by crlf_boundary ?pre (s ! index # drop (index + 1) s @ rest)"
      unfolding split using split_by_no_boundary [OF "1.prems"(3)] by simp
    consider "s ! index = 10" | "s ! index = 13" "index + 1 = length s"
      | "s ! index = 13" "index + 1 < length s" | "\<not> crlf_boundary (s ! index)"
      using True by (fastforce simp: crlf_boundary_def)
    then show ?thesis
    proof cases
      case 1
      with "1.IH"(1) [OF True 1] True show ?thesis
        by (subst crlf_scan.simps)
          (auto simp: lines crlf_boundary_def crlf_lines_def after_boundary_def)
    next
      case 2
      with True show ?thesis by (subst crlf_scan.simps) simp
    next
      case 3
      let ?i = "if s ! (index + 1) = 10 then index + 1 else index"
      have "after_boundary 13 (drop (index + 1) s @ rest) = drop (?i + 1) s @ rest"
        using 3(2) Cons_nth_drop_Suc [of "index + 1" s]
        by (cases "drop (index + 1) s") (auto simp: after_boundary_def)
      moreover have "s ! index \<noteq> 10" "index + 1 \<noteq> length s" "?i + 1 \<le> length s"
        using 3 by auto
      moreover note "1.IH"(2) [OF True this(1) 3(1) this(2) refl refl order_refl this(3)]
      ultimately show ?thesis
        using True 3(1)
        by (subst crlf_scan.simps) (auto simp: lines Let_def crlf_boundary_def crlf_lines_def)
    next
      case 4
      then have "list_all (\<lambda>c. \<not> crlf_boundary c) (drop start (take (index + 1) s))"
        using "1.prems"(1,3) True by (simp add: take_Suc_conv_app_nth)
      with 4 "1.IH"(3) [OF True] "1.prems"(1) True show ?thesis
        by (subst crlf_scan.simps) (auto simp: crlf_boundary_def)
    qed
  qed
qed

lemma crlf_split_step:
  "crlf_lines (s @ rest) =
    fst (crlf_split_complete_lines s) @ crlf_lines (snd (crlf_split_complete_lines s) @ rest)"
  using crlf_scan_step [of 0 0 s "[]" rest] by (auto simp: crlf_split_complete_lines_def)

interpretation crlf_text: incremental_splitter
  "\<lambda>rem t. crlf_split_complete_lines (rem @ t)" "\<lambda>rem t. crlf_lines (rem @ t)" "\<lambda>_. True"
  by unfold_locales (simp_all flip: crlf_split_step)

section \<open>Properties\<close>

text \<open>(C1) However the decoded text of a stream is cut into chunks, the lines that are emitted are
  the lines \<open>str.splitlines\<close> finds in the whole text, each cut into pieces of the configured
  bound: no line is lost, joined, split at a CRLF straddling two chunks, or emitted twice.\<close>

theorem drained_lines_chunk_invariant:
  assumes "max_line_chars \<noteq> Some 0"
  shows "drained_lines max_line_chars chunks =
    concat (map (fragments max_line_chars) (splitlines (concat chunks)))"
  using assms by (rule drained_lines_remaining)

lemma drained_lines_chunk_invariant_witness:
  "drained_lines (Some 2) [lit ''abc'', [13], [10, 97], [13], lit ''b''] =
    [lit ''ab'', lit ''c'', lit ''a'', lit ''b'']"
proof -
  have "splitlines (concat [lit ''abc'', [13], [10, 97], [13], lit ''b'']) =
      [lit ''abc'', lit ''a'', lit ''b'']"
    by (simp add: splitlines_def line_boundary_def after_boundary_def lit_def)
  then show ?thesis
    using drained_lines_chunk_invariant [of "Some 2" "[lit ''abc'', [13], [10, 97], [13], lit ''b'']"]
    by (simp add: fragments_long lit_def)
qed

text \<open>(C32) With a bound, the accumulator never retains more than the bound between two chunks and
  never emits a longer piece, and the pieces are exactly the text with its line boundaries
  removed.\<close>

theorem line_retention_bounded:
  assumes "0 < n"
  shows "la_pending_chars (snd (feed_all chunks (new_accumulator (Some n)))) \<le> n \<and>
    (\<forall>line \<in> set (drained_lines (Some n) chunks). length line \<le> n) \<and>
    concat (drained_lines (Some n) chunks) = concat (splitlines (concat chunks))"
proof (intro conjI)
  have ok: "acc_settled (new_accumulator (Some n))"
    using assms by simp
  show "la_pending_chars (snd (feed_all chunks (new_accumulator (Some n)))) \<le> n"
    using acc_settled_bound [of "snd (feed_all chunks (new_accumulator (Some n)))" n]
      accumulator.ok_run [OF ok, of chunks] la_max_line_chars_feed_all [OF ok, of chunks]
    by (simp add: feed_all_run) (simp add: new_accumulator_def)
  have drained: "drained_lines (Some n) chunks =
      concat (map (fragments (Some n)) (splitlines (concat chunks)))"
    using assms by (intro drained_lines_remaining) simp
  show "\<forall>line \<in> set (drained_lines (Some n) chunks). length line \<le> n"
    using fragments_bound [OF assms] by (auto simp: drained)
  have "concat (concat (map (fragments b) ls)) = concat ls" for b ls
    by (induction ls) (simp_all add: concat_fragments)
  then show "concat (drained_lines (Some n) chunks) = concat (splitlines (concat chunks))"
    by (simp add: drained)
qed

lemma line_retention_bounded_witness:
  "la_pending_chars (snd (feed_all [lit ''abc'', lit ''defg''] (new_accumulator (Some 3)))) \<le> 3 \<and>
    concat (drained_lines (Some 3) [lit ''abc'', lit ''defg'']) = lit ''abcdefg''"
  using line_retention_bounded [of 3 "[lit ''abc'', lit ''defg'']"]
  by (simp add: splitlines_def line_boundary_def lit_def)

text \<open>The whole-text splitter agrees with \<open>str.splitlines\<close>: with no more text to come its
  lines and remainder are those lines, and otherwise its remainder, put in front of any text that
  follows, yields exactly the lines still missing.  The superseded splitter keeps the same contract
  for lines ended by CR, LF and CRLF only.\<close>

theorem split_complete_lines_contract:
  "(let (ls, rem) = split_complete_lines s True
      in splitlines s = ls @ (if rem = [] then [] else [rem])) \<and>
    (let (ls, rem) = split_complete_lines s False
      in splitlines (s @ rest) = ls @ splitlines (rem @ rest)) \<and>
    (let (ls, rem) = crlf_split_complete_lines s
      in crlf_lines (s @ rest) = ls @ crlf_lines (rem @ rest))"
proof (intro conjI)
  have keep: "map strip_line_ending (splitlines_keep s) = splitlines s"
    unfolding splitlines_keep_def splitlines_def by (rule splitlines_keep_strip) simp
  show "let (ls, rem) = split_complete_lines s True
      in splitlines s = ls @ (if rem = [] then [] else [rem])"
  proof (cases "splitlines_keep s = []")
    case True
    then show ?thesis
      using keep by (simp add: split_complete_lines_def splitlines_keep_def)
  next
    case False
    let ?l = "last (splitlines_keep s)"
    have all: "splitlines s = map strip_line_ending (butlast (splitlines_keep s)) @ [strip_line_ending ?l]"
      using keep False by (metis append_butlast_last_id list.simps(8,9) map_append)
    have "strip_line_ending ?l = ?l \<and> ?l \<noteq> []" if "\<not> ends_with_line_ending ?l"
    proof -
      have "?l \<noteq> []"
        using last_in_set [OF False] splitlines_keep_nonempty [of "[]" s]
        by (auto simp: splitlines_keep_def)
      with that have "\<not> line_boundary (last ?l)"
        by (simp add: ends_with_line_ending_def)
      then have "\<not> suffix [13, 10] ?l"
        by (auto simp: suffix_def line_boundary_def)
      with that \<open>?l \<noteq> []\<close> show ?thesis
        by (simp add: strip_line_ending_def)
    qed
    then show ?thesis
      using False all keep
      by (auto simp: split_complete_lines_def Let_def should_hold_trailing_line_def)
  qed
  show "let (ls, rem) = split_complete_lines s False
      in splitlines (s @ rest) = ls @ splitlines (rem @ rest)"
    unfolding case_prod_beta Let_def by (rule split_complete_lines_step)
  show "let (ls, rem) = crlf_split_complete_lines s
      in crlf_lines (s @ rest) = ls @ crlf_lines (rem @ rest)"
    unfolding case_prod_beta Let_def by (rule crlf_split_step)
qed

end
