(* ===== verification/Utf8_Codec.thy ===== *)
theory Utf8_Codec
  imports Cuprum_Prelude
begin

text \<open>
  The UTF-8 codec of the standard library: the encoding of a code point and the incremental decoder
  as a machine over bytes, with the \<open>replace\<close> policy.  The machine's held bytes are what
  \<open>getstate()[0]\<close> reports.
\<close>

definition scalar :: "nat \<Rightarrow> bool" where
  "scalar c \<longleftrightarrow> c < 55296 \<or> 57344 \<le> c \<and> c < 1114112"

definition utf8 :: "nat \<Rightarrow> bytes" where
  "utf8 c =
    (if c < 128 then [c]
     else if c < 2048 then [192 + c div 64, 128 + c mod 64]
     else if c < 65536 then [224 + c div 4096, 128 + c div 64 mod 64, 128 + c mod 64]
     else [240 + c div 262144, 128 + c div 4096 mod 64, 128 + c div 64 mod 64, 128 + c mod 64])"

definition utf8_encode :: "ustr \<Rightarrow> bytes" where
  "utf8_encode s = concat (map utf8 s)"

text \<open>
  Between code points, or inside one: how many bytes are missing, the range the next byte must lie
  in, the bits collected, and the number of bytes held.
\<close>

datatype utf8_state = Boundary | Inside nat nat nat nat nat

definition utf8_held :: "utf8_state \<Rightarrow> nat" where
  "utf8_held s = (case s of Boundary \<Rightarrow> 0 | Inside need lo hi acc held \<Rightarrow> held)"

definition utf8_lead :: "nat \<Rightarrow> ustr \<times> utf8_state" where
  "utf8_lead b =
    (if b < 128 then ([b], Boundary)
     else if 194 \<le> b \<and> b \<le> 223 then ([], Inside 1 128 191 (b - 192) 1)
     else if b = 224 then ([], Inside 2 160 191 0 1)
     else if b = 237 then ([], Inside 2 128 159 13 1)
     else if 225 \<le> b \<and> b \<le> 239 then ([], Inside 2 128 191 (b - 224) 1)
     else if b = 240 then ([], Inside 3 144 191 0 1)
     else if b = 244 then ([], Inside 3 128 143 4 1)
     else if 241 \<le> b \<and> b \<le> 243 then ([], Inside 3 128 191 (b - 240) 1)
     else ([65533], Boundary))"

fun utf8_step :: "utf8_state \<Rightarrow> nat \<Rightarrow> ustr \<times> utf8_state" where
  "utf8_step Boundary b = utf8_lead b"
| "utf8_step (Inside need lo hi acc held) b =
    (if lo \<le> b \<and> b \<le> hi then
       (if need = 1 then ([acc * 64 + (b - 128)], Boundary)
        else ([], Inside (need - 1) 128 191 (acc * 64 + (b - 128)) (held + 1)))
     else (let (out, s) = utf8_lead b in (65533 # out, s)))"

fun utf8_run :: "utf8_state \<Rightarrow> bytes \<Rightarrow> ustr \<times> utf8_state" where
  "utf8_run s [] = ([], s)"
| "utf8_run s (b # bs) =
    (let (out, s) = utf8_step s b; (more, s) = utf8_run s bs in (out @ more, s))"

definition utf8_pending :: "bytes \<Rightarrow> nat" where
  "utf8_pending b = utf8_held (snd (utf8_run Boundary b))"

text \<open>\<open>bytes.decode('utf-8', 'replace')\<close>: what is still held at the end is one replacement.\<close>

definition utf8_decode :: "bytes \<Rightarrow> ustr" where
  "utf8_decode b =
    (let (out, s) = utf8_run Boundary b in out @ (if s = Boundary then [] else [65533]))"

section \<open>Encoding and decoding\<close>

lemma utf8_run_append:
  "utf8_run s (a @ b) =
    (let (out, s) = utf8_run s a; (more, s) = utf8_run s b in (out @ more, s))"
  by (induction a arbitrary: s) (simp_all add: case_prod_beta Let_def)

lemma utf8_neq_Nil [simp]: "utf8 c \<noteq> []"
  by (simp add: utf8_def)

lemma length_utf8: "length (utf8 c) \<in> {1, 2, 3, 4}"
  by (simp add: utf8_def)

definition continuation :: "nat \<Rightarrow> bool" where
  "continuation b \<longleftrightarrow> 128 \<le> b \<and> b < 192"

lemma utf8_hd: "scalar c \<Longrightarrow> \<not> continuation (hd (utf8 c))"
  by (auto simp: utf8_def continuation_def)

lemma utf8_tl: "b \<in> set (tl (utf8 c)) \<Longrightarrow> continuation b"
  by (auto simp: utf8_def continuation_def split: if_splits)

lemma utf8_byte: "scalar c \<Longrightarrow> b \<in> set (utf8 c) \<Longrightarrow> b < 256"
  by (auto simp: utf8_def scalar_def split: if_splits)

lemma utf8_run_lead: "utf8_lead b = ([], s) \<Longrightarrow> utf8_run Boundary (b # bs) = utf8_run s bs"
  by (simp add: case_prod_beta)

lemma utf8_run_inside:
  "lo \<le> 128 + x \<Longrightarrow> 128 + x \<le> hi \<Longrightarrow>
    utf8_run (Inside (Suc (Suc n)) lo hi acc h) ((128 + x) # bs) =
      utf8_run (Inside (Suc n) 128 191 (acc * 64 + x) (Suc h)) bs"
  by (simp add: case_prod_beta)

lemma utf8_run_last:
  "lo \<le> 128 + x \<Longrightarrow> 128 + x \<le> hi \<Longrightarrow>
    utf8_run (Inside (Suc 0) lo hi acc h) [128 + x] = ([acc * 64 + x], Boundary)"
  by simp

lemma utf8_run_two:
  assumes "128 \<le> c" "c < 2048"
  shows "utf8_run Boundary [192 + c div 64, 128 + c mod 64] = ([c], Boundary)"
proof -
  have "194 \<le> 192 + c div 64" "192 + c div 64 \<le> 223"
    using assms by linarith+
  moreover have "c div 64 * 64 + c mod 64 = c" "c mod 64 < 64"
    by simp_all
  ultimately show ?thesis
    by (simp add: utf8_lead_def)
qed

lemma div_64_split: "(c :: nat) div 4096 * 64 + c div 64 mod 64 = c div 64"
  using div_mult_mod_eq [of "c div 64" 64] by (simp add: div_mult2_eq [symmetric])

lemma utf8_run_three:
  assumes "2048 \<le> c" "c < 65536" "scalar c"
  shows "utf8_run Boundary [224 + c div 4096, 128 + c div 64 mod 64, 128 + c mod 64] = ([c], Boundary)"
proof -
  let ?a = "c div 4096" and ?b = "c div 64 mod 64"
  have a: "?a < 16" "?b < 64" "c mod 64 < 64"
    using assms by simp_all
  have join: "?a * 64 + ?b = c div 64" "c div 64 * 64 + c mod 64 = c"
    by (simp_all add: div_64_split)
  have low: "32 \<le> ?b" if "?a = 0"
    using join(1) assms(1) that by simp
  have surrogate: "?b < 32" if "?a = 13"
  proof -
    have "4096 * 13 \<le> c" "c < 4096 * 14"
      using that by (simp_all add: dividend_less_div_times dividend_less_times_div)
    then have "c < 55296"
      using assms(3) by (auto simp: scalar_def)
    then have "c div 64 < 864"
      by (simp add: div_less_iff_less_mult)
    with join(1) that show ?thesis by simp
  qed
  have "utf8_lead (224 + ?a) = ([], Inside 2 (if ?a = 0 then 160 else 128)
      (if ?a = 13 then 159 else 191) ?a 1)"
    using a(1) by (auto simp: utf8_lead_def)
  moreover have "(if ?a = 0 then 160 else 128) \<le> 128 + ?b" "128 + ?b \<le> (if ?a = 13 then 159 else 191)"
    using low surrogate a(2) by auto
  moreover have "128 + c mod 64 \<le> 191"
    using a(3) by simp
  ultimately show ?thesis
    by (simp only: utf8_run_lead numeral_2_eq_2 utf8_run_inside utf8_run_last join le_add1)
qed

lemma utf8_run_four:
  assumes "65536 \<le> c" "scalar c"
  shows "utf8_run Boundary
    [240 + c div 262144, 128 + c div 4096 mod 64, 128 + c div 64 mod 64, 128 + c mod 64] = ([c], Boundary)"
proof -
  let ?a = "c div 262144" and ?b = "c div 4096 mod 64" and ?d = "c div 64 mod 64"
  have c: "c < 1114112"
    using assms by (simp add: scalar_def)
  have a: "?a < 5" "?b < 64" "?d < 64" "c mod 64 < 64"
    using c by simp_all
  have "c div 262144 * 64 + c div 4096 mod 64 = c div 4096"
    using div_mult_mod_eq [of "c div 4096" 64] by (simp add: div_mult2_eq [symmetric])
  then have join: "?a * 64 + ?b = c div 4096" "c div 4096 * 64 + ?d = c div 64"
    "c div 64 * 64 + c mod 64 = c"
    by (simp_all add: div_64_split)
  have low: "16 \<le> ?b" if "?a = 0"
    using join(1) assms(1) that by simp
  have high: "?b < 16" if "?a = 4"
  proof -
    have "c div 4096 < 272"
      using c by (simp add: div_less_iff_less_mult)
    with join(1) that show ?thesis by simp
  qed
  have "utf8_lead (240 + ?a) = ([], Inside 3 (if ?a = 0 then 144 else 128)
      (if ?a = 4 then 143 else 191) ?a 1)"
    using a(1) by (auto simp: utf8_lead_def)
  moreover have "(if ?a = 0 then 144 else 128) \<le> 128 + ?b" "128 + ?b \<le> (if ?a = 4 then 143 else 191)"
    using low high a(2) by auto
  moreover have "128 + ?d \<le> 191" "128 + c mod 64 \<le> 191"
    using a(3,4) by simp_all
  ultimately show ?thesis
    by (simp only: utf8_run_lead numeral_3_eq_3 utf8_run_inside utf8_run_last join le_add1)
qed

lemma utf8_run_code_point [simp]: "scalar c \<Longrightarrow> utf8_run Boundary (utf8 c) = ([c], Boundary)"
  using utf8_run_two [of c] utf8_run_three [of c] utf8_run_four [of c]
  by (auto simp: utf8_def utf8_lead_def simp del: utf8_run.simps)
    (simp add: utf8_lead_def)

lemma utf8_run_encode [simp]:
  "list_all scalar s \<Longrightarrow> utf8_run Boundary (utf8_encode s) = (s, Boundary)"
  by (induction s) (simp_all add: utf8_encode_def utf8_run_append)

lemma utf8_decode_encode [simp]: "list_all scalar s \<Longrightarrow> utf8_decode (utf8_encode s) = s"
  by (simp add: utf8_decode_def)

text \<open>Returning to a boundary emits something, and what is held back has emitted nothing.\<close>

lemma utf8_lead_cases:
  "snd (utf8_lead b) = Boundary \<Longrightarrow> fst (utf8_lead b) \<noteq> []"
  "fst (utf8_lead b) = [] \<Longrightarrow> utf8_held (snd (utf8_lead b)) = 1"
  by (auto simp: utf8_lead_def utf8_held_def split: if_splits)

lemma utf8_step_cases:
  "snd (utf8_step s b) = Boundary \<Longrightarrow> fst (utf8_step s b) \<noteq> []"
  "fst (utf8_step s b) = [] \<Longrightarrow> utf8_held (snd (utf8_step s b)) = utf8_held s + 1"
  using utf8_lead_cases [of b]
  by (cases "(s, b)" rule: utf8_step.cases; auto simp: utf8_held_def case_prod_beta Let_def split: if_splits)+

lemma utf8_run_held: "fst (utf8_run s b) = [] \<Longrightarrow> utf8_held (snd (utf8_run s b)) = utf8_held s + length b"
proof (induction b arbitrary: s)
  case (Cons x b)
  then show ?case
    using utf8_step_cases(2) [of s x] by (simp add: case_prod_beta Let_def)
qed simp

lemma utf8_run_boundary_emits:
  assumes "b \<noteq> []" "snd (utf8_run s b) = Boundary"
  shows "fst (utf8_run s b) \<noteq> []"
proof -
  obtain a x where b: "b = a @ [x]"
    using assms(1) by (cases b rule: rev_cases) auto
  with assms(2) utf8_step_cases(1) [of "snd (utf8_run s a)" x] show ?thesis
    by (simp add: utf8_run_append case_prod_beta Let_def)
qed

lemma utf8_run_partial:
  assumes "scalar c" "k < length (utf8 c)"
  shows "fst (utf8_run Boundary (take k (utf8 c))) = []"
    and "utf8_held (snd (utf8_run Boundary (take k (utf8 c)))) = k"
proof -
  let ?p = "take k (utf8 c)" and ?q = "drop k (utf8 c)"
  let ?s = "snd (utf8_run Boundary ?p)"
  have "utf8_run Boundary (?p @ ?q) = ([c], Boundary)"
    using assms(1) by simp
  then have run: "fst (utf8_run Boundary ?p) @ fst (utf8_run ?s ?q) = [c]"
    "snd (utf8_run ?s ?q) = Boundary"
    unfolding utf8_run_append by (simp_all add: case_prod_beta Let_def)
  have "?q \<noteq> []" using assms(2) by simp
  from utf8_run_boundary_emits [OF this run(2)] run(1)
  show none: "fst (utf8_run Boundary ?p) = []"
    by (cases "fst (utf8_run Boundary ?p)") auto
  from utf8_run_held [OF none] assms(2) show "utf8_held ?s = k"
    by (simp add: utf8_held_def)
qed

lemma utf8_pending_encode_partial:
  assumes "list_all scalar s" "scalar c" "k < length (utf8 c)"
  shows "utf8_pending (utf8_encode s @ take k (utf8 c)) = k"
  using assms utf8_run_partial [OF assms(2,3)]
  by (simp add: utf8_pending_def utf8_run_append case_prod_beta)

lemma utf8_pending_encode: "list_all scalar s \<Longrightarrow> utf8_pending (utf8_encode s) = 0"
  by (simp add: utf8_pending_def utf8_held_def)

end
