(* ===== verification/Echo_Limiter.thy ===== *)
theory Echo_Limiter
  imports Py_Path Utf8_Codec
begin

text \<open>
  The bounded mirror of a child's output (\<open>cuprum/_echo_truncation.py\<close> and the carriage-return
  handling of \<open>_stream_echo.py\<close>): lines are counted and retained up to a byte bound, and a line
  that does not fit is echoed as a prefix, a truncation marker and its terminator, within the bound; then \<open>_write_chunk\<close>
  hands it to the sink, decoded when the sink takes text.
  Codecs are a parameter: a record of the functions the code calls on the codec registry's objects.
\<close>

section \<open>Codecs\<close>

text \<open>
  \<open>None\<close> stands for a raised \<open>UnicodeError\<close>.  \<open>ec_encode\<close> encodes strictly,
  \<open>ec_encode_errors\<close> under the run's error policy, \<open>ec_dec\<close> and \<open>ec_enc\<close> are the
  incremental decoder (one byte at a time) and encoder under that policy, and \<open>ec_pending\<close> is
  \<open>getstate()[0]\<close> of the decoder.
\<close>

record ('d, 'e) echo_codec =
  ec_name :: ustr
  ec_encode :: "ustr \<Rightarrow> bytes option"
  ec_encode_errors :: "ustr \<Rightarrow> bytes option"
  ec_dec_init :: 'd
  ec_dec :: "'d \<Rightarrow> nat \<Rightarrow> (ustr \<times> 'd) option"
  ec_pending :: "'d \<Rightarrow> bytes"
  ec_enc_init :: 'e
  ec_enc :: "'e \<Rightarrow> ustr \<Rightarrow> (bytes \<times> 'e) option"

datatype echo_error = Unicode_encode_error | Unsupported_encoding ustr

definition or_unicode_error :: "'a option \<Rightarrow> echo_error + 'a" where
  "or_unicode_error r = (case r of None \<Rightarrow> Inl Unicode_encode_error | Some x \<Rightarrow> Inr x)"

section \<open>Markers\<close>

definition marker_text :: "ustr \<Rightarrow> nat \<Rightarrow> ustr" where
  "marker_text ellipsis dropped =
    ellipsis @ lit '' [truncated '' @ nat_digits dropped @ lit '' bytes]''"

definition truncation_marker :: "('d, 'e) echo_codec \<Rightarrow> nat \<Rightarrow> echo_error + bytes" where
  "truncation_marker c dropped =
    (case ec_encode c (marker_text [8230] dropped) of
       Some b \<Rightarrow> Inr b
     | None \<Rightarrow> or_unicode_error (ec_encode_errors c (marker_text (lit ''...'') dropped)))"

definition stateful_bounded_echo_encodings :: "ustr list" where
  "stateful_bounded_echo_encodings = map lit [''hz'', ''utf_7'', ''utf_8_sig'']"

definition validate_bounded_echo_encoding :: "('d, 'e) echo_codec \<Rightarrow> echo_error + unit" where
  "validate_bounded_echo_encoding c =
    rbind (or_unicode_error (ec_encode_errors c [10])) (\<lambda>newline.
      let is_stateful = ec_name c \<in> set stateful_bounded_echo_encodings \<or>
        prefix (lit ''iso2022_'') (ec_name c)
      in if is_stateful \<or> newline \<noteq> [10] then Inl (Unsupported_encoding (ec_name c))
         else Inr ())"

section \<open>Prefixes\<close>

text \<open>
  The scan of \<open>_encode_prefix\<close>: \<open>n\<close> source bytes consumed, the bytes encoded so far, and the
  lengths of the last safe cut in the source and in the encoded text.
\<close>

fun encode_scan ::
  "('d, 'e) echo_codec \<Rightarrow> nat \<Rightarrow> 'd \<Rightarrow> 'e \<Rightarrow> nat \<Rightarrow> bytes \<Rightarrow> nat \<times> nat \<Rightarrow> bytes \<Rightarrow>
    bytes \<times> nat \<times> nat" where
  "encode_scan c budget d e n out safe [] = (out, safe)"
| "encode_scan c budget d e n out safe (b # bs) =
    (case ec_dec c d b of
       None \<Rightarrow> (out, safe)
     | Some (decoded, d) \<Rightarrow>
         (case ec_enc c e decoded of
            None \<Rightarrow> (out, safe)
          | Some (encoded, e) \<Rightarrow>
              let out = out @ encoded
              in if ec_pending c d \<noteq> [] then encode_scan c budget d e (n + 1) out safe bs
                 else if budget < length out then (out, safe)
                 else encode_scan c budget d e (n + 1) out (n + 1, length out) bs))"

definition encode_prefix ::
  "('d, 'e) echo_codec \<Rightarrow> bool \<Rightarrow> nat \<Rightarrow> bytes \<Rightarrow> bytes \<times> bytes" where
  "encode_prefix c is_text_sink budget line =
    (if \<not> is_text_sink then (take budget line, take budget line)
     else
       let (out, safe_source, safe_encoded) =
         encode_scan c budget (ec_dec_init c) (ec_enc_init c) 0 [] (0, 0) line
       in (take safe_source line, take safe_encoded out))"

definition fit_marker ::
  "('d, 'e) echo_codec \<Rightarrow> bool \<Rightarrow> bytes \<Rightarrow> nat \<Rightarrow> nat \<Rightarrow> echo_error + bytes" where
  "fit_marker c is_text_sink marker budget dropped =
    (if length marker \<le> budget then Inr marker
     else rbind (or_unicode_error (ec_encode_errors c (marker_text (lit ''...'') dropped)))
       (\<lambda>fallback. Inr (snd (encode_prefix c is_text_sink budget fallback))))"

section \<open>The limiter\<close>

record echo_limiter =
  el_max_line_bytes :: nat
  el_line :: bytes
  el_source_line_bytes :: nat
  el_pending_cr :: bool

definition new_limiter :: "nat \<Rightarrow> echo_limiter" where
  "new_limiter max_line_bytes =
    \<lparr>el_max_line_bytes = max_line_bytes, el_line = [], el_source_line_bytes = 0,
      el_pending_cr = False\<rparr>"

definition limiter_from_config :: "bool \<Rightarrow> nat option \<Rightarrow> echo_limiter option" where
  "limiter_from_config echo_output echo_max_line_bytes =
    (if \<not> echo_output then None else map_option new_limiter echo_max_line_bytes)"

definition bound_line :: "bytes \<Rightarrow> echo_limiter \<Rightarrow> echo_limiter" where
  "bound_line segment l =
    (let remaining = el_max_line_bytes l - length (el_line l)
     in l\<lparr>el_source_line_bytes := el_source_line_bytes l + length segment,
          el_line := (if 0 < remaining then el_line l @ take remaining segment else el_line l)\<rparr>)"

record finished_echo_line =
  fe_payload :: bytes
  fe_dropped_bytes :: nat
  fe_source_bytes :: nat

record line_finalization =
  lf_source_bytes :: nat
  lf_ending :: bytes
  lf_omitted_ending_bytes :: nat

text \<open>The loop of \<open>_bounded_prefix\<close>, with the iterations left and the last prefix tried.\<close>

fun bounded_prefix_loop ::
  "('d, 'e) echo_codec \<Rightarrow> bool \<Rightarrow> nat \<Rightarrow> bytes \<Rightarrow> line_finalization \<Rightarrow> nat \<Rightarrow> nat \<Rightarrow>
    bytes \<times> bytes \<Rightarrow> echo_error + (bytes \<times> bytes)" where
  "bounded_prefix_loop c is_text_sink max_bytes line f 0 dropped last_tried = Inr last_tried"
| "bounded_prefix_loop c is_text_sink max_bytes line f (Suc iterations) dropped last_tried =
    rbind (truncation_marker c dropped) (\<lambda>marker.
      let budget = max_bytes - length (lf_ending f) - length marker;
          (retained, encoded) = encode_prefix c is_text_sink budget line;
          updated = lf_source_bytes f - length retained + lf_omitted_ending_bytes f
      in if updated = dropped then Inr (retained, encoded)
         else bounded_prefix_loop c is_text_sink max_bytes line f iterations updated
           (retained, encoded))"

definition bounded_prefix ::
  "('d, 'e) echo_codec \<Rightarrow> bool \<Rightarrow> nat \<Rightarrow> bytes \<Rightarrow> line_finalization \<Rightarrow>
    echo_error + (bytes \<times> bytes)" where
  "bounded_prefix c is_text_sink max_bytes line f =
    bounded_prefix_loop c is_text_sink max_bytes line f 16
      (lf_source_bytes f + lf_omitted_ending_bytes f) ([], [])"

definition finalization :: "nat \<Rightarrow> nat \<Rightarrow> bytes \<Rightarrow> line_finalization" where
  "finalization max_bytes source_bytes ending =
    \<lparr>lf_source_bytes = source_bytes,
      lf_ending = (if length ending \<le> max_bytes then ending else []),
      lf_omitted_ending_bytes = (if max_bytes < length ending then length ending else 0)\<rparr>"

definition finish_line ::
  "('d, 'e) echo_codec \<Rightarrow> bool \<Rightarrow> bytes \<Rightarrow> echo_limiter \<Rightarrow>
    (echo_error + finished_echo_line) \<times> echo_limiter" where
  "finish_line c is_text_sink ending l =
    (let line = el_line l;
         source = el_source_line_bytes l;
         max_bytes = el_max_line_bytes l;
         l' = l\<lparr>el_line := [], el_source_line_bytes := 0\<rparr>;
         f = finalization max_bytes source ending
     in if source + length ending \<le> max_bytes then
          (Inr \<lparr>fe_payload = line @ lf_ending f, fe_dropped_bytes = 0,
             fe_source_bytes = source + length ending\<rparr>, l')
        else
          (rbind (bounded_prefix c is_text_sink max_bytes line f) (\<lambda>(retained, encoded).
             let dropped = lf_source_bytes f - length retained + lf_omitted_ending_bytes f
             in rbind (truncation_marker c dropped) (\<lambda>marker.
                  let remaining = max_bytes - length encoded - length (lf_ending f)
                  in rbind (fit_marker c is_text_sink marker remaining dropped) (\<lambda>marker.
                       Inr \<lparr>fe_payload = encoded @ marker @ lf_ending f,
                         fe_dropped_bytes = dropped,
                         fe_source_bytes = source + length ending\<rparr>))), l'))"

section \<open>Segments and the echo loop\<close>

function split_loop :: "bytes \<Rightarrow> nat \<Rightarrow> (bytes \<times> bytes option) list" where
  "split_loop data start =
    (case find_from 10 start data of
       None \<Rightarrow> if start < length data then [(drop start data, None)] else []
     | Some e \<Rightarrow>
         let body = drop start (take e data)
         in (if suffix [13] body then (butlast body, Some [13, 10]) else (body, Some [10])) #
              split_loop data (e + 1))"
  by pat_completeness auto
termination
  by (relation "measure (\<lambda>(data, start). Suc (length data) - start)")
    (auto simp: find_from_def str_find_Some_iff)

declare split_loop.simps [simp del]

definition split_echo_segments :: "bytes \<Rightarrow> (bytes \<times> bytes option) list" where
  "split_echo_segments chunk = split_loop chunk 0"

definition prepend_pending_carriage_return ::
  "echo_limiter \<Rightarrow> bytes \<Rightarrow> bytes \<times> echo_limiter" where
  "prepend_pending_carriage_return l chunk =
    (let data = (if el_pending_cr l then [13] else []) @ chunk
     in if suffix [13] data then (butlast data, l\<lparr>el_pending_cr := True\<rparr>)
        else (data, l\<lparr>el_pending_cr := False\<rparr>))"

text \<open>
  The finished lines of one chunk, in order; each is one write to the sink.  A line whose encoding
  raises is left in the list as its error.
\<close>

fun echo_segments ::
  "('d, 'e) echo_codec \<Rightarrow> bool \<Rightarrow> (bytes \<times> bytes option) list \<Rightarrow> echo_limiter \<Rightarrow>
    (echo_error + finished_echo_line) list \<times> echo_limiter" where
  "echo_segments c is_text_sink [] l = ([], l)"
| "echo_segments c is_text_sink ((body, ending) # segments) l =
    (let l = bound_line body l
     in case ending of
          None \<Rightarrow> echo_segments c is_text_sink segments l
        | Some ending \<Rightarrow>
            (let (line, l) = finish_line c is_text_sink ending l;
                 (more, l) = echo_segments c is_text_sink segments l
             in (line # more, l)))"

definition echo_chunk ::
  "('d, 'e) echo_codec \<Rightarrow> bool \<Rightarrow> bytes \<Rightarrow> echo_limiter \<Rightarrow>
    (echo_error + finished_echo_line) list \<times> echo_limiter" where
  "echo_chunk c is_text_sink chunk l =
    (let (data, l) = prepend_pending_carriage_return l chunk
     in echo_segments c is_text_sink (split_echo_segments data) l)"

definition flush_echo ::
  "('d, 'e) echo_codec \<Rightarrow> bool \<Rightarrow> echo_limiter \<Rightarrow>
    (echo_error + finished_echo_line) list \<times> echo_limiter" where
  "flush_echo c is_text_sink l =
    (let l = (if el_pending_cr l then (bound_line [13] l)\<lparr>el_pending_cr := False\<rparr> else l)
     in if 0 < el_source_line_bytes l
        then (let (line, l) = finish_line c is_text_sink [] l in ([line], l))
        else ([], l))"

section \<open>Writing to the sink\<close>

text \<open>
  \<open>_write_chunk\<close> without a delivery worker: a sink with a byte buffer gets the bytes, a text-only sink what the echo's
  incremental decoder makes of them under the view's error policy.  \<open>None\<close> stands for a raised \<open>UnicodeDecodeError\<close>.
\<close>

datatype sink_write = Byte_write bytes | Text_write ustr

record 'v view_decoder =
  vd_init :: 'v
  vd_decode :: "'v \<Rightarrow> bytes \<Rightarrow> bool \<Rightarrow> (ustr \<times> 'v) option"

definition echo_write_chunk ::
  "'v view_decoder \<Rightarrow> bool \<Rightarrow> bytes \<Rightarrow> bool \<Rightarrow> 'v \<Rightarrow> (sink_write list \<times> 'v) option" where
  "echo_write_chunk view is_text_sink chunk final st =
    (if \<not> is_text_sink then Some ([Byte_write chunk], st)
     else map_option (\<lambda>(str, st). (if str = [] then [] else [Text_write str], st)) (vd_decode view st chunk final))"

text \<open>The finished lines of a stream, in order, and the decoder's flush at its end.\<close>

fun write_lines ::
  "'v view_decoder \<Rightarrow> bool \<Rightarrow> finished_echo_line list \<Rightarrow> 'v \<Rightarrow> sink_write list option" where
  "write_lines view is_text_sink [] st =
    (if is_text_sink then map_option fst (echo_write_chunk view is_text_sink [] True st) else Some [])"
| "write_lines view is_text_sink (line # lines) st =
    (case echo_write_chunk view is_text_sink (fe_payload line) False st of
       None \<Rightarrow> None
     | Some (writes, st) \<Rightarrow> map_option (\<lambda>later. writes @ later) (write_lines view is_text_sink lines st))"

definition echo_writes :: "'v view_decoder \<Rightarrow> bool \<Rightarrow> finished_echo_line list \<Rightarrow> sink_write list option" where
  "echo_writes view is_text_sink lines = write_lines view is_text_sink lines (vd_init view)"

section \<open>Bounds\<close>

text \<open>The retained bytes of the current line are its first ones, as many as the bound allows.\<close>

definition limiter_ok :: "echo_limiter \<Rightarrow> bool" where
  "limiter_ok l \<longleftrightarrow> length (el_line l) = min (el_max_line_bytes l) (el_source_line_bytes l)"

lemma limiter_ok_new [simp]: "limiter_ok (new_limiter m)"
  by (simp add: limiter_ok_def new_limiter_def)

lemma limiter_ok_bound_line [invariant_intros]: "limiter_ok l \<Longrightarrow> limiter_ok (bound_line s l)"
  by (auto simp: limiter_ok_def bound_line_def Let_def min_def)

lemma limiter_ok_cr [simp]: "limiter_ok (l\<lparr>el_pending_cr := b\<rparr>) \<longleftrightarrow> limiter_ok l"
  by (simp add: limiter_ok_def)

lemma finish_line_state:
  "snd (finish_line c t ending l) = l\<lparr>el_line := [], el_source_line_bytes := 0\<rparr>"
  by (simp add: finish_line_def Let_def)

lemma limiter_ok_finish_line [invariant_intros]:
  "limiter_ok l \<Longrightarrow> limiter_ok (snd (finish_line c t ending l))"
  by (simp add: finish_line_state limiter_ok_def)

lemma encode_scan_safe:
  "encode_scan c budget d e n out (ss, se) bs = (out', ss', se') \<Longrightarrow>
    se \<le> budget \<Longrightarrow> se' \<le> budget"
proof (induction bs arbitrary: d e n out ss se)
  case (Cons b bs)
  then show ?case
    by (auto simp: Let_def split: option.splits prod.splits if_splits)
qed simp

lemma encode_prefix_props:
  assumes "encode_prefix c t budget line = (retained, encoded)"
  shows "length encoded \<le> budget" "prefix retained line" "\<not> t \<Longrightarrow> retained = take budget line"
    "\<not> t \<Longrightarrow> encoded = retained"
  using assms encode_scan_safe [of c budget "ec_dec_init c" "ec_enc_init c" 0 "[]" 0 0 line]
  by (auto simp: encode_prefix_def take_is_prefix split: if_splits prod.splits)

lemma bounded_prefix_loop_bound:
  "bounded_prefix_loop c t m line f k d last_tried = Inr (retained, encoded) \<Longrightarrow>
    length (snd last_tried) \<le> m - length (lf_ending f) \<Longrightarrow>
    length encoded \<le> m - length (lf_ending f)"
proof (induction k arbitrary: d last_tried)
  case (Suc k)
  from Suc.prems(1) obtain marker where marker: "truncation_marker c d = Inr marker"
    by (auto simp: rbind_Inr_iff)
  obtain r e where re: "encode_prefix c t (m - length (lf_ending f) - length marker) line = (r, e)"
    by (rule prod.exhaust)
  have "length e \<le> m - length (lf_ending f)"
    using encode_prefix_props(1) [OF re] by simp
  with Suc.prems(1) marker re Suc.IH show ?case
    by (auto simp: Let_def split: if_splits)
qed auto

lemma fit_marker_bound: "fit_marker c t marker budget dropped = Inr m \<Longrightarrow> length m \<le> budget"
proof (cases "length marker \<le> budget")
  case False
  assume "fit_marker c t marker budget dropped = Inr m"
  with False obtain fallback where "m = snd (encode_prefix c t budget fallback)"
    by (auto simp: fit_marker_def rbind_Inr_iff)
  then show "length m \<le> budget"
    using encode_prefix_props(1) [of c t budget fallback "fst (encode_prefix c t budget fallback)"]
    by simp
qed (simp add: fit_marker_def)

lemma lf_simps [simp]:
  "lf_source_bytes (finalization m s e) = s"
  "length (lf_ending (finalization m s e)) \<le> m"
  "length e \<le> m \<Longrightarrow> lf_ending (finalization m s e) = e"
  "length e \<le> m \<Longrightarrow> lf_omitted_ending_bytes (finalization m s e) = 0"
  by (simp_all add: finalization_def)

lemma finish_line_bound:
  assumes "limiter_ok l" "fst (finish_line c t ending l) = Inr fe"
  shows "length (fe_payload fe) \<le> el_max_line_bytes l"
    and "fe_source_bytes fe = el_source_line_bytes l + length ending"
proof -
  let ?m = "el_max_line_bytes l"
  let ?s = "el_source_line_bytes l"
  let ?f = "finalization ?m ?s ending"
  have "length (fe_payload fe) \<le> ?m \<and> fe_source_bytes fe = ?s + length ending"
  proof (cases "?s + length ending \<le> ?m")
    case True
    then show ?thesis
      using assms by (auto simp: finish_line_def Let_def limiter_ok_def)
  next
    case False
    with assms(2) obtain retained encoded marker0 marker where
      encoded: "bounded_prefix c t ?m (el_line l) ?f = Inr (retained, encoded)" and
      marker: "fit_marker c t marker0 (?m - length encoded - length (lf_ending ?f))
        (?s - length retained + lf_omitted_ending_bytes ?f) = Inr marker" and
      fe: "fe_payload fe = encoded @ marker @ lf_ending ?f"
        "fe_source_bytes fe = ?s + length ending"
      by (auto simp: finish_line_def Let_def rbind_Inr_iff)
    have "length encoded \<le> ?m - length (lf_ending ?f)"
      using bounded_prefix_loop_bound encoded unfolding bounded_prefix_def by fastforce
    moreover have "length marker \<le> ?m - length encoded - length (lf_ending ?f)"
      using fit_marker_bound [OF marker] .
    moreover have "length (fe_payload fe) = length encoded + length marker + length (lf_ending ?f)"
      by (simp add: fe)
    ultimately show ?thesis
      using fe(2) lf_simps(2) [of ?m ?s ending] by linarith
  qed
  then show "length (fe_payload fe) \<le> ?m" "fe_source_bytes fe = ?s + length ending"
    by blast+
qed

section \<open>The marker fixpoint\<close>

lemma nat_digits_pos: "0 < length (nat_digits n)"
  by (subst nat_digits.simps) simp

lemma length_nat_digits_mono: "m \<le> n \<Longrightarrow> length (nat_digits m) \<le> length (nat_digits n)"
proof (induction n arbitrary: m rule: nat_digits.induct)
  case (1 n)
  show ?case
  proof (cases "n < 10")
    case True
    with "1.prems" show ?thesis by (simp add: nat_digits.simps)
  next
    case False
    show ?thesis
    proof (cases "m < 10")
      case True
      then show ?thesis
        using nat_digits_pos [of n] by (simp add: nat_digits.simps [of m] Suc_leI)
    next
      case m: False
      have "length (nat_digits (m div 10)) \<le> length (nat_digits (n div 10))"
        using "1.IH" [OF False] "1.prems" by (simp add: div_le_mono)
      with False m show ?thesis
        by (simp add: nat_digits.simps [of m] nat_digits.simps [of n])
    qed
  qed
qed

lemma length_nat_digits_le: "0 < k \<Longrightarrow> n < 10 ^ k \<Longrightarrow> length (nat_digits n) \<le> k"
proof (induction k arbitrary: n)
  case (Suc k)
  show ?case
  proof (cases "n < 10")
    case True
    then show ?thesis by (simp add: nat_digits.simps)
  next
    case False
    then have "k \<noteq> 0"
      using Suc.prems by (cases k) auto
    moreover have "n div 10 < 10 ^ k"
      using Suc.prems(2) by (simp add: less_mult_imp_div_less)
    ultimately have "length (nat_digits (n div 10)) \<le> k"
      using Suc.IH by simp
    with False show ?thesis
      by (simp add: nat_digits.simps [of n])
  qed
qed simp

text \<open>Every encoded marker is some fixed text around the digits of the count.\<close>

definition marker_width :: "('d, 'e) echo_codec \<Rightarrow> nat \<Rightarrow> bool" where
  "marker_width c w \<longleftrightarrow>
    (\<forall>d. \<exists>b. truncation_marker c d = Inr b \<and> length b = w + length (nat_digits d))"

text \<open>
  For a byte sink the count that a marker announces fixes the room it leaves, and so the count the
  next iteration starts from.
\<close>

definition next_dropped :: "nat \<Rightarrow> nat \<Rightarrow> bytes \<Rightarrow> line_finalization \<Rightarrow> nat \<Rightarrow> nat" where
  "next_dropped w m line f d =
    lf_source_bytes f
      - min (length line) (m - length (lf_ending f) - (w + length (nat_digits d)))
      + lf_omitted_ending_bytes f"

lemma next_dropped_mono:
  "length (nat_digits d) \<le> length (nat_digits d') \<Longrightarrow>
    next_dropped w m line f d \<le> next_dropped w m line f d'"
  unfolding next_dropped_def by (intro add_le_mono1 diff_le_mono2 min.mono) simp_all

lemma bounded_prefix_loop_step:
  assumes "truncation_marker c d = Inr b" "length b = w + length (nat_digits d)"
  shows "bounded_prefix_loop c False m line f (Suc k) d last_tried =
    (let r = take (m - length (lf_ending f) - (w + length (nat_digits d))) line
     in if next_dropped w m line f d = d then Inr (r, r)
        else bounded_prefix_loop c False m line f k (next_dropped w m line f d) (r, r))"
  using assms by (simp add: Let_def encode_prefix_def next_dropped_def min.commute)

lemma bounded_prefix_loop_converges:
  assumes "marker_width c w"
  shows "next_dropped w m line f d \<le> d \<Longrightarrow>
    length (nat_digits d) < k \<or> next_dropped w m line f d = d \<and> 0 < k \<Longrightarrow>
    \<exists>d'. d' \<le> d \<and> next_dropped w m line f d' = d' \<and>
      bounded_prefix_loop c False m line f k d last_tried =
        Inr (take (m - length (lf_ending f) - (w + length (nat_digits d'))) line,
             take (m - length (lf_ending f) - (w + length (nat_digits d'))) line)"
proof (induction k arbitrary: d last_tried)
  case 0
  then show ?case by simp
next
  case (Suc k)
  let ?n = "next_dropped w m line f"
  obtain b where b: "truncation_marker c d = Inr b" "length b = w + length (nat_digits d)"
    using assms unfolding marker_width_def by blast
  note step = bounded_prefix_loop_step [OF b, of m line f k last_tried]
  show ?case
  proof (cases "?n d = d")
    case True
    then show ?thesis
      unfolding step by (intro exI [of _ d]) (simp add: Let_def)
  next
    case False
    have digits: "length (nat_digits (?n d)) \<le> length (nat_digits d)"
      using Suc.prems(1) by (rule length_nat_digits_mono)
    have small: "length (nat_digits (?n d)) < k \<or> ?n (?n d) = ?n d \<and> 0 < k"
    proof (cases "length (nat_digits (?n d)) = length (nat_digits d)")
      case True
      then have "?n (?n d) = ?n d"
        by (simp add: next_dropped_def)
      then show ?thesis
        using Suc.prems(2) False nat_digits_pos [of d] by auto
    next
      case False
      then show ?thesis
        using digits Suc.prems(2) \<open>?n d \<noteq> d\<close> by auto
    qed
    have shrinks: "?n (?n d) \<le> ?n d"
      using digits by (rule next_dropped_mono)
    let ?r = "take (m - length (lf_ending f) - (w + length (nat_digits d))) line"
    from Suc.IH [OF shrinks small, of "(?r, ?r)"] obtain d' where "d' \<le> ?n d" and d': "?n d' = d'"
      "bounded_prefix_loop c False m line f k (?n d) (?r, ?r) =
        Inr (take (m - length (lf_ending f) - (w + length (nat_digits d'))) line,
             take (m - length (lf_ending f) - (w + length (nat_digits d'))) line)"
      by blast
    then have "d' \<le> d"
      using Suc.prems(1) by simp
    with d' show ?thesis
      unfolding step using False by (intro exI [of _ d']) (simp add: Let_def)
  qed
qed

text \<open>An encoding that fits, converges and leaves room for the whole marker.\<close>

lemma finish_line_marker:
  assumes ok: "limiter_ok l" and width: "marker_width c w"
    and long: "el_max_line_bytes l < el_source_line_bytes l + length ending"
    and small: "el_source_line_bytes l < 10 ^ 15"
    and room: "length ending + w + length (nat_digits (el_source_line_bytes l)) \<le> el_max_line_bytes l"
  shows "\<exists>kept marker dropped.
    fst (finish_line c False ending l) =
      Inr \<lparr>fe_payload = kept @ marker @ ending, fe_dropped_bytes = dropped,
        fe_source_bytes = el_source_line_bytes l + length ending\<rparr> \<and>
    prefix kept (el_line l) \<and> truncation_marker c dropped = Inr marker \<and>
    dropped + length kept = el_source_line_bytes l \<and>
    length (kept @ marker @ ending) = el_max_line_bytes l"
proof -
  let ?m = "el_max_line_bytes l"
  let ?s = "el_source_line_bytes l"
  let ?f = "finalization ?m ?s ending"
  have ending: "length ending \<le> ?m"
    using room by simp
  have line: "length (el_line l) = min ?m ?s"
    using ok by (simp add: limiter_ok_def)
  let ?n = "next_dropped w ?m (el_line l) ?f"
  have "?n ?s \<le> ?s"
    using ending by (simp add: next_dropped_def)
  moreover have "length (nat_digits ?s) < 16"
    using length_nat_digits_le [OF _ small] by simp
  ultimately obtain d where d: "d \<le> ?s" "?n d = d"
    and loop: "bounded_prefix c False ?m (el_line l) ?f =
      Inr (take (?m - length ending - (w + length (nat_digits d))) (el_line l),
           take (?m - length ending - (w + length (nat_digits d))) (el_line l))"
    using bounded_prefix_loop_converges [OF width, of ?m "el_line l" ?f ?s 16 "([], [])"] ending
    unfolding bounded_prefix_def by auto
  obtain b where b: "truncation_marker c d = Inr b" "length b = w + length (nat_digits d)"
    using width unfolding marker_width_def by blast
  have digits: "length (nat_digits d) \<le> length (nat_digits ?s)"
    using d(1) by (rule length_nat_digits_mono)
  let ?k = "?m - length ending - length b"
  have k: "?k \<le> length (el_line l)" "?k + length b + length ending = ?m"
    using line room digits long b(2) by simp_all
  have dropped: "?s - ?k = d"
    using d(2) ending k(1) b(2) by (simp add: next_dropped_def min_absorb2)
  have "?k \<le> ?s"
    using k(1) line by simp
  have fit: "fit_marker c False b (?m - ?k - length ending) d = Inr b"
    using k(2) by (simp add: fit_marker_def)
  have "fst (finish_line c False ending l) =
      Inr \<lparr>fe_payload = take ?k (el_line l) @ b @ ending, fe_dropped_bytes = d,
        fe_source_bytes = ?s + length ending\<rparr>"
    using long ending loop k(1) dropped b fit
    by (simp add: finish_line_def Let_def min_absorb2)
  moreover have "d + length (take ?k (el_line l)) = ?s"
    using dropped \<open>?k \<le> ?s\<close> k(1) by simp
  moreover have "length (take ?k (el_line l) @ b @ ending) = ?m"
    using k by simp
  ultimately show ?thesis
    using b(1) by (blast intro: take_is_prefix)
qed

section \<open>Segments\<close>

lemma find_from_shift:
  "find_from c (length pre + i) (pre @ d) = map_option ((+) (length pre)) (find_from c i d)"
  by (cases "str_find c (drop i d)") (simp_all add: find_from_def)

lemma split_loop_shift: "split_loop (pre @ d) (length pre + i) = split_loop d i"
proof (induction d i rule: split_loop.induct)
  case (1 d i)
  show ?case
  proof (cases "find_from 10 i d")
    case None
    then show ?thesis
      by (simp add: split_loop.simps [of "pre @ d"] split_loop.simps [of d] find_from_shift)
  next
    case (Some e)
    from "1.IH" [OF Some refl] show ?thesis
      by (simp add: split_loop.simps [of "pre @ d" "length pre + i"] split_loop.simps [of d i]
          find_from_shift Some Let_def)
  qed
qed

text \<open>The pair a complete line becomes.\<close>

definition line_segment :: "bytes \<Rightarrow> bytes \<times> bytes option" where
  "line_segment body =
    (if suffix [13] body then (butlast body, Some [13, 10]) else (body, Some [10]))"

lemma split_echo_segments_partial:
  "10 \<notin> set d \<Longrightarrow> split_echo_segments d = (if d = [] then [] else [(d, None)])"
  by (simp add: split_echo_segments_def split_loop.simps find_from_def str_find_None_iff [THEN iffD2])

lemma split_echo_segments_line:
  assumes "10 \<notin> set b"
  shows "split_echo_segments (b @ 10 # d) = line_segment b # split_echo_segments d"
proof -
  have "str_find 10 (b @ 10 # d) = Some (length b)"
    using assms by (simp add: str_find_Some_iff)
  then have "find_from 10 0 (b @ 10 # d) = Some (length b)"
    by (simp add: find_from_def)
  then show ?thesis
    using split_loop_shift [of "b @ [10]" d 0]
    by (simp add: split_echo_segments_def split_loop.simps [of "b @ 10 # d" 0] line_segment_def)
qed

lemma bytes_lines_induct [case_names partial line]:
  assumes "\<And>d. 10 \<notin> set d \<Longrightarrow> P d"
    and "\<And>b d. 10 \<notin> set b \<Longrightarrow> P d \<Longrightarrow> P (b @ (10 :: nat) # d)"
  shows "P d"
proof (induction d rule: length_induct)
  case (1 d)
  show ?case
  proof (cases "10 \<in> set d")
    case True
    then obtain b r where "d = b @ 10 # r" "10 \<notin> set b"
      by (meson split_list_first)
    with 1 assms(2) [of b r] show ?thesis by simp
  qed (use assms(1) in simp)
qed

section \<open>The echo loop is an incremental splitter\<close>

lemma bound_line_append: "bound_line b (bound_line a l) = bound_line (a @ b) l"
proof -
  have "(if 0 < m then x @ take m y else x) = x @ take m y" for m and x y :: bytes
    by simp
  then show ?thesis
    by (simp add: bound_line_def Let_def min_def)
qed

lemma bound_line_cr: "bound_line b (l\<lparr>el_pending_cr := x\<rparr>) = (bound_line b l)\<lparr>el_pending_cr := x\<rparr>"
  by (simp add: bound_line_def Let_def)

lemma finish_line_cr:
  "fst (finish_line c t e (l\<lparr>el_pending_cr := x\<rparr>)) = fst (finish_line c t e l)"
  "snd (finish_line c t e (l\<lparr>el_pending_cr := x\<rparr>)) = (snd (finish_line c t e l))\<lparr>el_pending_cr := x\<rparr>"
  by (simp_all add: finish_line_def Let_def)

lemma echo_segments_cr:
  "fst (echo_segments c t ss (l\<lparr>el_pending_cr := x\<rparr>)) = fst (echo_segments c t ss l) \<and>
   snd (echo_segments c t ss (l\<lparr>el_pending_cr := x\<rparr>)) =
     (snd (echo_segments c t ss l))\<lparr>el_pending_cr := x\<rparr>"
proof (induction ss arbitrary: l)
  case (Cons s ss)
  obtain body ending where s: "s = (body, ending)" by (rule prod.exhaust)
  show ?case
  proof (cases ending)
    case None
    then show ?thesis
      using Cons by (simp add: s bound_line_cr Let_def)
  next
    case (Some e)
    then show ?thesis
      using Cons [of "snd (finish_line c t e (bound_line body l))"]
      by (simp add: s bound_line_cr Let_def case_prod_beta finish_line_cr)
  qed
qed simp

text \<open>What is echoed when \<open>data\<close> is all that is still to come, carriage returns included.\<close>

definition drain_echo ::
  "('d, 'e) echo_codec \<Rightarrow> bool \<Rightarrow> echo_limiter \<Rightarrow> bytes \<Rightarrow>
    (echo_error + finished_echo_line) list" where
  "drain_echo c t l data =
    (let (out, l) = echo_segments c t (split_echo_segments data) l
     in out @ (if 0 < el_source_line_bytes l then [fst (finish_line c t [] l)] else []))"

lemma drain_echo_cr: "drain_echo c t (l\<lparr>el_pending_cr := x\<rparr>) data = drain_echo c t l data"
  using echo_segments_cr [of c t "split_echo_segments data" x l]
  by (simp add: drain_echo_def case_prod_beta finish_line_cr)

lemma drain_echo_Nil:
  "drain_echo c t l [] =
    (if 0 < el_source_line_bytes l then [fst (finish_line c t [] l)] else [])"
  by (simp add: drain_echo_def split_echo_segments_partial)

lemma drain_echo_partial:
  "10 \<notin> set d \<Longrightarrow> drain_echo c t l d = drain_echo c t (bound_line d l) []"
  by (simp add: drain_echo_Nil)
    (simp add: drain_echo_def split_echo_segments_partial bound_line_def)

lemma drain_echo_line:
  "10 \<notin> set b \<Longrightarrow> drain_echo c t l (b @ 10 # d) =
    (case line_segment b of (body, ending) \<Rightarrow>
      let (line, l) = finish_line c t (the ending) (bound_line body l)
      in line # drain_echo c t l d)"
  by (simp add: drain_echo_def split_echo_segments_line line_segment_def case_prod_beta Let_def)

lemma line_segment_append:
  "b \<noteq> [] \<or> \<not> suffix [13] a \<Longrightarrow>
    line_segment (a @ b) = (a @ fst (line_segment b), snd (line_segment b))"
  by (auto simp: line_segment_def butlast_append suffix_single_iff)

lemma drain_echo_step:
  assumes "\<not> (suffix [13] d \<and> take 1 rest = [10])"
  shows "drain_echo c t l (d @ rest) =
    fst (echo_segments c t (split_echo_segments d) l) @
    drain_echo c t (snd (echo_segments c t (split_echo_segments d) l)) rest"
  using assms
proof (induction d arbitrary: l rule: bytes_lines_induct)
  case (line b d)
  have "\<not> (suffix [13] d \<and> take 1 rest = [10])"
    using line.prems by (auto simp: suffix_single_iff)
  note IH = line.IH [OF this]
  show ?case
    using drain_echo_line [OF line.hyps(1), of c t l "d @ rest"] IH
    by (simp add: split_echo_segments_line [OF line.hyps(1)] line_segment_def case_prod_beta Let_def)
next
  case (partial d)
  have seg: "echo_segments c t (split_echo_segments d) l = ([], bound_line d l)"
    using partial(1) by (cases "d = []") (simp_all add: split_echo_segments_partial bound_line_def)
  have "drain_echo c t l (d @ rest) = drain_echo c t (bound_line d l) rest"
  proof (cases "10 \<in> set rest")
    case True
    then obtain b r where rest: "rest = b @ 10 # r" "10 \<notin> set b"
      by (meson split_list_first)
    have "b \<noteq> [] \<or> \<not> suffix [13] d"
      using partial(2) rest(1) by auto
    from line_segment_append [OF this] show ?thesis
      using drain_echo_line [of "d @ b" c t l r] drain_echo_line [OF rest(2), of c t "bound_line d l" r]
        partial(1) rest by (simp add: case_prod_beta bound_line_append)
  next
    case False
    then show ?thesis
      using drain_echo_partial [of "d @ rest" c t l] drain_echo_partial [of rest c t "bound_line d l"]
        partial(1) by (simp add: bound_line_append)
  qed
  then show ?case by (simp add: seg)
qed

definition echo_todo ::
  "('d, 'e) echo_codec \<Rightarrow> bool \<Rightarrow> echo_limiter \<Rightarrow> bytes \<Rightarrow>
    (echo_error + finished_echo_line) list" where
  "echo_todo c t l rest = drain_echo c t l ((if el_pending_cr l then [13] else []) @ rest)"

lemma echo_segments_keeps_cr:
  "el_pending_cr (snd (echo_segments c t ss l)) = el_pending_cr l"
proof -
  have "snd (echo_segments c t ss l) =
      (snd (echo_segments c t ss l))\<lparr>el_pending_cr := el_pending_cr l\<rparr>"
    using echo_segments_cr [of c t ss "el_pending_cr l" l] by simp
  then have "el_pending_cr (snd (echo_segments c t ss l)) =
      el_pending_cr ((snd (echo_segments c t ss l))\<lparr>el_pending_cr := el_pending_cr l\<rparr>)"
    by (rule arg_cong)
  then show ?thesis by simp
qed

lemma echo_chunk_todo:
  "echo_todo c t l (chunk @ rest) =
    fst (echo_chunk c t chunk l) @ echo_todo c t (snd (echo_chunk c t chunk l)) rest"
proof -
  let ?data = "(if el_pending_cr l then [13] else []) @ chunk"
  show ?thesis
  proof (cases "suffix [13] ?data")
    case True
    then obtain d where d: "?data = d @ [13]"
      by (auto simp: suffix_def)
    let ?l = "l\<lparr>el_pending_cr := True\<rparr>"
    have chunk: "echo_chunk c t chunk l = echo_segments c t (split_echo_segments d) ?l"
      using d True by (simp add: echo_chunk_def prepend_pending_carriage_return_def)
    have "echo_todo c t l (chunk @ rest) = drain_echo c t ?l (d @ 13 # rest)"
      using arg_cong [OF d, of "\<lambda>x. x @ rest"]
      by (simp only: echo_todo_def drain_echo_cr append_assoc append_Cons append_Nil)
    also have "\<dots> = fst (echo_chunk c t chunk l) @ drain_echo c t (snd (echo_chunk c t chunk l)) (13 # rest)"
      unfolding chunk by (rule drain_echo_step) simp
    finally show ?thesis
      by (simp add: echo_todo_def [of c t _ rest] chunk echo_segments_keeps_cr)
  next
    case False
    let ?l = "l\<lparr>el_pending_cr := False\<rparr>"
    have chunk: "echo_chunk c t chunk l = echo_segments c t (split_echo_segments ?data) ?l"
      using False by (simp add: echo_chunk_def prepend_pending_carriage_return_def)
    have "echo_todo c t l (chunk @ rest) = drain_echo c t ?l (?data @ rest)"
      by (simp add: echo_todo_def drain_echo_cr)
    also have "\<dots> = fst (echo_chunk c t chunk l) @ drain_echo c t (snd (echo_chunk c t chunk l)) rest"
      unfolding chunk using False by (intro drain_echo_step) simp
    finally show ?thesis
      by (simp add: echo_todo_def [of c t _ rest] chunk echo_segments_keeps_cr)
  qed
qed

interpretation echo: incremental_splitter
  "\<lambda>l chunk. echo_chunk c t chunk l" "echo_todo c t" "\<lambda>_. True" for c :: "('d, 'e) echo_codec" and t
  by unfold_locales (simp_all add: echo_chunk_todo)

lemma flush_echo_todo: "fst (flush_echo c t l) = echo_todo c t l []"
proof (cases "el_pending_cr l")
  case True
  then show ?thesis
    using drain_echo_partial [of "[13]" c t l]
    by (simp add: flush_echo_def echo_todo_def drain_echo_Nil case_prod_beta finish_line_cr Let_def)
next
  case False
  then show ?thesis
    by (simp add: flush_echo_def echo_todo_def drain_echo_Nil case_prod_beta)
qed

text \<open>A drained stream: every chunk is echoed, then the decoder and limiter are flushed.\<close>

fun echo_all ::
  "('d, 'e) echo_codec \<Rightarrow> bool \<Rightarrow> bytes list \<Rightarrow> echo_limiter \<Rightarrow>
    (echo_error + finished_echo_line) list \<times> echo_limiter" where
  "echo_all c t [] l = ([], l)"
| "echo_all c t (chunk # chunks) l =
    (let (out, l) = echo_chunk c t chunk l; (more, l) = echo_all c t chunks l in (out @ more, l))"

definition echoed_lines ::
  "('d, 'e) echo_codec \<Rightarrow> bool \<Rightarrow> nat \<Rightarrow> bytes list \<Rightarrow> (echo_error + finished_echo_line) list" where
  "echoed_lines c t m chunks =
    (let (out, l) = echo_all c t chunks (new_limiter m) in out @ fst (flush_echo c t l))"

text \<open>A whole line echoed by a fresh limiter.\<close>

definition echo_line_alone ::
  "('d, 'e) echo_codec \<Rightarrow> bool \<Rightarrow> nat \<Rightarrow> bytes \<times> bytes option \<Rightarrow> echo_error + finished_echo_line" where
  "echo_line_alone c t m segment =
    (case segment of (body, ending) \<Rightarrow>
      fst (finish_line c t (case ending of None \<Rightarrow> [] | Some e \<Rightarrow> e)
        (bound_line body (new_limiter m))))"

lemma drain_echo_new:
  "drain_echo c t (new_limiter m) d = map (echo_line_alone c t m) (split_echo_segments d)"
proof (induction d rule: bytes_lines_induct)
  case (partial d)
  then show ?case
    by (simp add: drain_echo_partial drain_echo_Nil split_echo_segments_partial echo_line_alone_def
        bound_line_def new_limiter_def)
next
  case (line b d)
  have "snd (finish_line c t e (bound_line body (new_limiter m))) = new_limiter m" for e body
    by (simp add: finish_line_state bound_line_def new_limiter_def Let_def)
  with line show ?case
    by (simp add: drain_echo_line split_echo_segments_line echo_line_alone_def line_segment_def
        case_prod_beta Let_def)
qed

lemma echo_todo_new:
  "echo_todo c t (new_limiter m) d = map (echo_line_alone c t m) (split_echo_segments d)"
proof -
  have "\<not> el_pending_cr (new_limiter m)"
    by (simp add: new_limiter_def)
  then show ?thesis by (simp add: echo_todo_def drain_echo_new)
qed

lemma echo_all_run:
  fixes c :: "('d, 'e) echo_codec"
  shows "echo_all c t chunks l = echo.run TYPE('d) TYPE('e) c t l chunks"
  by (induction chunks arbitrary: l) (simp_all add: case_prod_beta Let_def)

lemma echoed_lines_alone:
  "echoed_lines c t m chunks = map (echo_line_alone c t m) (split_echo_segments (concat chunks))"
  using echo.drain_chunk_invariant [where s = "new_limiter m" and ts = chunks and c = c and t = t]
  by (simp add: echoed_lines_def case_prod_beta flush_echo_todo echo_all_run echo_todo_new)

section \<open>Properties\<close>

text \<open>The bounded echo of a stream does not depend on how its bytes are cut into chunks: the
  writes are those of the lines of the whole output, each bounded on its own, with a terminator
  split between two chunks still read as one CRLF.\<close>

theorem echo_chunk_invariant:
  "echoed_lines c is_text_sink m chunks =
    map (\<lambda>(body, ending).
        fst (finish_line c is_text_sink (case ending of None \<Rightarrow> [] | Some e \<Rightarrow> e)
          (bound_line body (new_limiter m))))
      (split_echo_segments (concat chunks))"
  unfolding echoed_lines_alone echo_line_alone_def by simp

text \<open>The segments account for every byte.\<close>

lemma split_echo_segments_total:
  "sum_list (map (\<lambda>(body, ending). length body + length (case ending of None \<Rightarrow> [] | Some e \<Rightarrow> e))
    (split_echo_segments d)) = length d"
proof (induction d rule: bytes_lines_induct)
  case (partial d)
  then show ?case by (simp add: split_echo_segments_partial)
next
  case (line b d)
  have "(case line_segment b of (body, ending) \<Rightarrow>
      length body + length (case ending of None \<Rightarrow> [] | Some e \<Rightarrow> e)) = length b + 1"
    by (auto simp: line_segment_def suffix_single_iff Suc_leI)
  then show ?case
    unfolding split_echo_segments_line [OF line(1)] list.map sum_list.Cons line(2) by simp
qed

lemma echo_line_alone_bound:
  assumes "echo_line_alone c t m (body, ending) = Inr fe"
  shows "length (fe_payload fe) \<le> m"
    and "fe_source_bytes fe = length body + length (case ending of None \<Rightarrow> [] | Some e \<Rightarrow> e)"
proof -
  let ?l = "bound_line body (new_limiter m)"
  have "limiter_ok ?l"
    by (intro invariant_intros) simp
  from finish_line_bound [OF this] assms
  show "length (fe_payload fe) \<le> m"
    and "fe_source_bytes fe = length body + length (case ending of None \<Rightarrow> [] | Some e \<Rightarrow> e)"
    by (auto simp: echo_line_alone_def bound_line_def new_limiter_def Let_def)
qed

lemma traverse_echo_total:
  "traverse (echo_line_alone c t m) segs = Inr lines \<Longrightarrow>
    sum_list (map fe_source_bytes lines) =
      sum_list (map (\<lambda>(body, ending). length body + length (case ending of None \<Rightarrow> [] | Some e \<Rightarrow> e)) segs)
    \<and> (\<forall>fe \<in> set lines. length (fe_payload fe) \<le> m)"
proof (induction segs arbitrary: lines)
  case (Cons seg segs)
  obtain body ending where seg: "seg = (body, ending)" by (rule prod.exhaust)
  from Cons.prems obtain fe more where fe: "echo_line_alone c t m (body, ending) = Inr fe"
    and more: "traverse (echo_line_alone c t m) segs = Inr more" and lines: "lines = fe # more"
    by (auto simp: seg rbind_Inr_iff)
  show ?case
    using Cons.IH [OF more] echo_line_alone_bound [OF fe] by (simp add: lines seg)
qed simp

text \<open>What a sink is given: its bytes, or characters.\<close>

fun write_size :: "sink_write \<Rightarrow> nat" where
  "write_size (Byte_write b) = length b"
| "write_size (Text_write str) = length str"

text \<open>The incremental decoders of bytes give at most a character for each byte, counting those they still hold.\<close>

definition char_per_byte :: "'v view_decoder \<Rightarrow> ('v \<Rightarrow> nat) \<Rightarrow> bool" where
  "char_per_byte view held \<longleftrightarrow> held (vd_init view) = 0 \<and>
    (\<forall>st chunk final str st'. vd_decode view st chunk final = Some (str, st') \<longrightarrow>
      length str + held st' \<le> held st + length chunk)"

lemma write_lines_bytes: "write_lines view False lines st = Some (map (\<lambda>fe. Byte_write (fe_payload fe)) lines)"
  by (induction lines) (simp_all add: echo_write_chunk_def)

lemma write_lines_text:
  assumes "char_per_byte view held"
  shows "write_lines view True lines st = Some writes \<Longrightarrow>
    (\<forall>x \<in> set writes. \<exists>str. x = Text_write str) \<and>
    sum_list (map write_size writes) \<le> held st + sum_list (map (\<lambda>fe. length (fe_payload fe)) lines)"
proof (induction lines arbitrary: st writes)
  case Nil
  then obtain str st' where d: "vd_decode view st [] True = Some (str, st')"
      "writes = (if str = [] then [] else [Text_write str])"
    by (auto simp: echo_write_chunk_def split: if_splits)
  then have "length str + held st' \<le> held st" using assms by (fastforce simp: char_per_byte_def)
  then show ?case using d(2) by auto
next
  case (Cons line lines)
  then obtain str st' later where d: "vd_decode view st (fe_payload line) False = Some (str, st')"
      "write_lines view True lines st' = Some later" "writes = (if str = [] then [] else [Text_write str]) @ later"
    by (auto simp: echo_write_chunk_def split: if_splits option.splits)
  have "length str + held st' \<le> held st + length (fe_payload line)"
    using assms d(1) by (auto simp: char_per_byte_def)
  then show ?case using Cons.IH [OF d(2)] d(3) by (auto split: if_splits)
qed


text \<open>A concrete codec: strict ASCII, whose incremental coders keep no state.\<close>

definition ascii_encode :: "ustr \<Rightarrow> bytes option" where
  "ascii_encode s = (if list_all (\<lambda>c. c < 128) s then Some s else None)"

definition ascii_codec :: "(unit, unit) echo_codec" where
  "ascii_codec =
    \<lparr>ec_name = lit ''ascii'', ec_encode = ascii_encode, ec_encode_errors = ascii_encode,
      ec_dec_init = (), ec_dec = (\<lambda>_ b. if b < 128 then Some ([b], ()) else None),
      ec_pending = (\<lambda>_. []), ec_enc_init = (),
      ec_enc = (\<lambda>_ s. map_option (\<lambda>b. (b, ())) (ascii_encode s))\<rparr>"

lemma nat_digits_ascii: "list_all (\<lambda>c. c < 128) (nat_digits n)"
proof (induction n rule: nat_digits.induct)
  case (1 n)
  have "48 + n mod 10 < 128"
    using mod_less_divisor [of 10 n] by linarith
  with 1 show ?case
    by (subst nat_digits.simps) simp
qed

lemma ascii_marker:
  "truncation_marker ascii_codec d =
    Inr (lit ''... [truncated '' @ nat_digits d @ lit '' bytes]'')"
  using nat_digits_ascii [of d]
  by (simp add: truncation_marker_def ascii_codec_def ascii_encode_def marker_text_def lit_def
      or_unicode_error_def)

lemma ascii_marker_width: "marker_width ascii_codec 22"
  by (simp add: marker_width_def ascii_marker)

text \<open>ASCII with the replacement character for every other byte, as \<open>errors='replace'\<close> decodes it.\<close>

definition ascii_view :: "unit view_decoder" where
  "ascii_view = \<lparr>vd_init = (), vd_decode = (\<lambda>_ chunk _. Some (map (\<lambda>b. if b < 128 then b else 65533) chunk, ()))\<rparr>"


text \<open>For a byte sink the search for a marker-consistent prefix always settles within its
  sixteen iterations: a line too long for the bound is echoed as a prefix of itself, the whole
  marker announcing exactly the bytes left out, and its terminator, filling the bound exactly.  The
  codec is only required to write markers as fixed text around the digits, as every ASCII-compatible
  stateless codec does.\<close>

theorem truncation_marker_exact:
  assumes "limiter_ok l" "marker_width c w"
    and "el_max_line_bytes l < el_source_line_bytes l + length ending"
    and "el_source_line_bytes l < 10 ^ 15"
    and "length ending + w + length (nat_digits (el_source_line_bytes l)) \<le> el_max_line_bytes l"
  shows "\<exists>kept marker dropped.
    fst (finish_line c False ending l) =
      Inr \<lparr>fe_payload = kept @ marker @ ending, fe_dropped_bytes = dropped,
        fe_source_bytes = el_source_line_bytes l + length ending\<rparr> \<and>
    prefix kept (el_line l) \<and> truncation_marker c dropped = Inr marker \<and>
    dropped + length kept = el_source_line_bytes l \<and>
    length (kept @ marker @ ending) = el_max_line_bytes l"
  using assms by (rule finish_line_marker)

lemma truncation_marker_exact_witness:
  "\<exists>kept marker dropped fe.
    fst (finish_line ascii_codec False [10] (bound_line (replicate 200 97) (new_limiter 64))) = Inr fe \<and>
    fe_payload fe = kept @ marker @ [10] \<and> length (fe_payload fe) = 64 \<and>
    truncation_marker ascii_codec dropped = Inr marker \<and> dropped + length kept = 200"
proof -
  let ?l = "bound_line (replicate 200 97) (new_limiter 64)"
  have l: "el_max_line_bytes ?l = 64" "el_source_line_bytes ?l = 200"
    by (simp_all add: bound_line_def new_limiter_def Let_def)
  have ok: "limiter_ok ?l"
    by (intro invariant_intros) simp
  have digits: "length (nat_digits 200) = 3"
    by (simp add: nat_digits.simps)
  from truncation_marker_exact [OF ok ascii_marker_width, of "[10]"] show ?thesis
    unfolding l digits by fastforce
qed

text \<open>The guard that should keep stateful codecs from bounded echo lets UTF-7 through: the
  registry's canonical name is \<open>utf-7\<close>, the guard compares with \<open>utf_7\<close>, and a UTF-7 newline
  is one plain byte.\<close>

theorem utf_7_passes_echo_guard:
  assumes "ec_name c = lit ''utf-7''" "ec_encode_errors c [10] = Some [10]"
  shows "validate_bounded_echo_encoding c = Inr ()"
  using assms
  by (simp add: validate_bounded_echo_encoding_def or_unicode_error_def
      stateful_bounded_echo_encodings_def lit_def)

lemma utf_7_passes_echo_guard_witness:
  "validate_bounded_echo_encoding (ascii_codec\<lparr>ec_name := lit ''utf-7''\<rparr>) = Inr ()"
  by (rule utf_7_passes_echo_guard) (simp_all add: ascii_codec_def ascii_encode_def)

end
