(* ===== verification/Capture_Decode.thy ===== *)
theory Capture_Decode
  imports Utf8_Codec
begin

text \<open>
  From retained bytes to the value the caller reads (\<open>cuprum/_capture_decode.py\<close>) and the
  encodings a bounded text capture accepts (\<open>_bounded_encoding.py\<close>).  The codec registry is a
  parameter, a record of the calls the code makes on it; UTF-8 is the concrete machine of
  Utf8\_Codec where a fact is about UTF-8.
\<close>

section \<open>The codec registry\<close>

text \<open>
  \<open>reg_name e\<close> is \<open>codecs.lookup(e).name\<close>, \<open>None\<close> for a LookupError; \<open>reg_pending\<close> is the
  length of \<open>getstate()[0]\<close> after feeding bytes to a fresh incremental decoder with the
  \<open>replace\<close> policy (\<open>None\<close> when the factory, the decode or the state query raises one of the
  errors the probe catches); \<open>reg_decode\<close> is \<open>bytes.decode(encoding, errors)\<close>.
\<close>

record codec_registry =
  reg_name :: "ustr \<Rightarrow> ustr option"
  reg_pending :: "ustr \<Rightarrow> bytes \<Rightarrow> nat option"
  reg_decode :: "ustr \<Rightarrow> ustr \<Rightarrow> bytes \<Rightarrow> ustr option"
  reg_little_endian :: bool

record decode_settings =
  ds_encoding :: ustr
  ds_errors :: ustr
  ds_capture_bytes :: bool

datatype payload = Bytes_payload bytes | Text_payload ustr

datatype capture_error = Decode_error | Unbounded_encoding ustr

definition canonical_encoding :: "codec_registry \<Rightarrow> ustr \<Rightarrow> ustr" where
  "canonical_encoding r encoding =
    (case reg_name r encoding of Some name \<Rightarrow> name | None \<Rightarrow> encoding)"

section \<open>Byte-order marks\<close>

definition bom_selected_codecs :: "(ustr \<times> ustr \<times> ustr) list" where
  "bom_selected_codecs =
    [(lit ''utf-16'', lit ''utf-16-le'', lit ''utf-16-be''),
     (lit ''utf-32'', lit ''utf-32-le'', lit ''utf-32-be''),
     (lit ''utf-8-sig'', lit ''utf-8'', lit ''utf-8'')]"

definition bom_marks :: "(ustr \<times> bytes \<times> bytes) list" where
  "bom_marks =
    [(lit ''utf-32'', [255, 254, 0, 0], [0, 0, 254, 255]),
     (lit ''utf-16'', [255, 254], [254, 255]),
     (lit ''utf-8-sig'', [239, 187, 191], [239, 187, 191])]"

definition bom_max_bytes :: nat where
  "bom_max_bytes = 4"

fun mark_selected_in :: "(ustr \<times> bytes \<times> bytes) list \<Rightarrow> ustr \<Rightarrow> bytes \<Rightarrow> ustr option" where
  "mark_selected_in [] family head = None"
| "mark_selected_in ((marked_family, little_mark, big_mark) # marks) family head =
    (if marked_family \<noteq> family then mark_selected_in marks family head
     else
       (case map_of bom_selected_codecs family of
          None \<Rightarrow> None
        | Some (little, big) \<Rightarrow>
            if prefix little_mark head then Some little
            else if prefix big_mark head then Some big
            else None))"

definition mark_selected_codec :: "ustr \<Rightarrow> bytes \<Rightarrow> ustr option" where
  "mark_selected_codec family head = mark_selected_in bom_marks family head"

text \<open>Only called for the families of the table.\<close>

definition native_codec :: "codec_registry \<Rightarrow> ustr \<Rightarrow> ustr" where
  "native_codec r family =
    (case map_of bom_selected_codecs family of
       None \<Rightarrow> family
     | Some (little, big) \<Rightarrow> if reg_little_endian r then little else big)"

definition bounded_settings :: "codec_registry \<Rightarrow> decode_settings \<Rightarrow> bytes \<Rightarrow> decode_settings" where
  "bounded_settings r settings head =
    (let family = canonical_encoding r (ds_encoding settings)
     in if family = lit ''utf-8-sig'' then settings\<lparr>ds_encoding := lit ''utf-8''\<rparr>
        else if map_of bom_selected_codecs family = None then settings
        else settings\<lparr>ds_encoding :=
          (case mark_selected_codec family head of
             Some codec \<Rightarrow> codec
           | None \<Rightarrow> native_codec r family)\<rparr>)"

definition render :: "codec_registry \<Rightarrow> bytes \<Rightarrow> decode_settings \<Rightarrow> capture_error + payload" where
  "render r retained settings =
    (if ds_capture_bytes settings then Inr (Bytes_payload retained)
     else (case reg_decode r (ds_encoding settings) (ds_errors settings) retained of
             None \<Rightarrow> Inl Decode_error
           | Some s \<Rightarrow> Inr (Text_payload s)))"

section \<open>Trimming\<close>

definition code_unit_bytes :: "(ustr \<times> nat) list" where
  "code_unit_bytes =
    [(lit ''utf-16-be'', 2), (lit ''utf-16-le'', 2), (lit ''utf-32-be'', 4), (lit ''utf-32-le'', 4)]"

definition starts_with_low_surrogate :: "bytes \<Rightarrow> nat \<Rightarrow> ustr \<Rightarrow> bool" where
  "starts_with_low_surrogate tail at canonical =
    (if length tail < at + 2 then False
     else
       let high = (if canonical = lit ''utf-16-le'' then tail ! (at + 1) else tail ! at)
       in 220 \<le> high \<and> high \<le> 223)"

text \<open>A byte below 256 satisfies \<open>b & 0xC0 == 0x80\<close> exactly when it lies in \<open>[128, 192)\<close>.\<close>

function utf8_cut :: "bytes \<Rightarrow> nat \<Rightarrow> nat \<Rightarrow> nat" where
  "utf8_cut tail limit i =
    (if i < limit \<and> continuation (tail ! i) then utf8_cut tail limit (i + 1) else i)"
  by pat_completeness auto
termination
  by (relation "measure (\<lambda>(tail, limit, i). limit - i)") auto

declare utf8_cut.simps [simp del]

definition leading_trim :: "bytes \<Rightarrow> ustr \<Rightarrow> nat \<Rightarrow> nat" where
  "leading_trim tail canonical stream_offset =
    (case map_of code_unit_bytes canonical of
       Some unit \<Rightarrow>
         let i = (unit - stream_offset mod unit) mod unit;
             i = (if unit = 2 \<and> starts_with_low_surrogate tail i canonical then i + unit else i)
         in min i (length tail)
     | None \<Rightarrow>
         if canonical \<noteq> lit ''utf-8'' then 0
         else utf8_cut tail (min (length tail) 3) 0)"

text \<open>\<open>_pending_bytes\<close> on the capture path: a codec that cannot be found raises there.\<close>

definition trim_to_code_point ::
  "codec_registry \<Rightarrow> bytes \<Rightarrow> decode_settings \<Rightarrow> nat \<Rightarrow> capture_error + bytes" where
  "trim_to_code_point r tail settings stream_offset =
    (let canonical = canonical_encoding r (ds_encoding settings);
         retained = drop (leading_trim tail canonical stream_offset) tail
     in case reg_pending r (ds_encoding settings) retained of
          None \<Rightarrow> Inl Decode_error
        | Some pending \<Rightarrow>
            Inr (if 0 < pending then take (length retained - pending) retained else retained))"

section \<open>Which encodings a bounded text capture accepts\<close>

definition repairable_codecs :: "ustr list" where
  "repairable_codecs = map lit
    [''utf-8'', ''utf-16'', ''utf-16-le'', ''utf-16-be'', ''utf-32'', ''utf-32-le'', ''utf-32-be'']"

definition is_single_byte :: "codec_registry \<Rightarrow> ustr \<Rightarrow> bool" where
  "is_single_byte r name = list_all (\<lambda>b. reg_pending r name [b] = Some 0) [0..<256]"

definition is_trim_safe :: "codec_registry \<Rightarrow> ustr \<Rightarrow> bool" where
  "is_trim_safe r encoding =
    (case reg_name r encoding of
       None \<Rightarrow> True
     | Some canonical \<Rightarrow>
         canonical \<in> set repairable_codecs \<or> canonical = lit ''utf-8-sig'' \<or>
         is_single_byte r canonical)"

text \<open>A resolved policy of one stream; only its kind and bound matter here.\<close>

datatype capture_policy = Full_capture | Bounded_capture nat | File_backed_capture

definition reject_unsupported_bounded_encoding ::
  "codec_registry \<Rightarrow> capture_policy option \<Rightarrow> ustr \<Rightarrow> bool \<Rightarrow> capture_error + unit" where
  "reject_unsupported_bounded_encoding r capture encoding capture_bytes =
    (if capture_bytes then Inr ()
     else
       (case capture of
          Some (Bounded_capture n) \<Rightarrow>
            if is_trim_safe r encoding then Inr () else Inl (Unbounded_encoding encoding)
        | _ \<Rightarrow> Inr ()))"

definition reject_unsupported_bounded_captures ::
  "codec_registry \<Rightarrow> capture_policy option \<times> capture_policy option \<Rightarrow> ustr \<Rightarrow> bool \<Rightarrow>
    capture_error + unit" where
  "reject_unsupported_bounded_captures r resolved encoding capture_bytes =
    rbind (reject_unsupported_bounded_encoding r (fst resolved) encoding capture_bytes) (\<lambda>_.
      reject_unsupported_bounded_encoding r (snd resolved) encoding capture_bytes)"

section \<open>Trimming a UTF-8 tail\<close>

lemma utf8_cut_takeWhile:
  "limit \<le> length tail \<Longrightarrow> i \<le> limit \<Longrightarrow>
    utf8_cut tail limit i = min limit (i + length (takeWhile continuation (drop i tail)))"
proof (induction tail limit i rule: utf8_cut.induct)
  case (1 tail limit i)
  show ?case
  proof (cases "i < limit")
    case True
    then have drop: "drop i tail = tail ! i # drop (i + 1) tail"
      using "1.prems"(1) by (simp add: Cons_nth_drop_Suc)
    show ?thesis
      using 1 True by (subst utf8_cut.simps) (simp add: drop)
  next
    case False
    with "1.prems" show ?thesis by (simp add: utf8_cut.simps)
  qed
qed

lemma leading_trim_utf8:
  "leading_trim tail (lit ''utf-8'') offset = min 3 (length (takeWhile continuation tail))"
proof -
  have "map_of code_unit_bytes (lit ''utf-8'') = None"
    by (simp add: code_unit_bytes_def lit_def)
  moreover have "length (takeWhile continuation tail) \<le> length tail"
    by (rule length_takeWhile_le)
  ultimately show ?thesis
    using utf8_cut_takeWhile [of "min (length tail) 3" tail 0]
    by (simp add: leading_trim_def min_def)
qed

lemma takeWhile_continuation_append:
  "list_all continuation a \<Longrightarrow> takeWhile continuation (a @ b) = a @ takeWhile continuation b"
  by (induction a) auto

lemma continuation_drop_utf8: "0 < n \<Longrightarrow> list_all continuation (drop n (utf8 c))"
proof -
  assume "0 < n"
  then have "drop n (utf8 c) = drop (n - 1) (tl (utf8 c))"
    by (cases n) (simp_all add: drop_Suc)
  then show ?thesis
    using utf8_tl by (auto simp: list_all_iff dest: in_set_dropD)
qed

lemma utf8_encode_Cons [simp]: "utf8_encode (c # s) = utf8 c @ utf8_encode s"
  by (simp add: utf8_encode_def)

lemma utf8_encode_Nil [simp]: "utf8_encode [] = []"
  by (simp add: utf8_encode_def)

text \<open>Complete code points followed by at most a part of one more start no continuation.\<close>

lemma takeWhile_continuation_start:
  assumes "list_all scalar s" "scalar c" "k < length (utf8 c)"
  shows "takeWhile continuation (utf8_encode s @ take k (utf8 c)) = []"
proof (cases s)
  case (Cons x xs)
  then show ?thesis
    using utf8_hd [of x] assms(1) by (cases "utf8 x") auto
next
  case Nil
  then show ?thesis
    using utf8_hd [OF assms(2)] by (cases "utf8 c"; cases k) auto
qed

lemma leading_trim_stream:
  assumes "list_all scalar s" "scalar c" "k < length (utf8 c)"
  defines "h \<equiv> utf8_encode s @ take k (utf8 c)"
  assumes "n \<le> length h"
  shows "\<exists>j \<le> length s.
    (drop (leading_trim (drop n h) (lit ''utf-8'') offset) (drop n h) =
        utf8_encode (drop j s) @ take k (utf8 c) \<or>
      j = length s \<and> drop (leading_trim (drop n h) (lit ''utf-8'') offset) (drop n h) = []) \<and>
    (\<forall>i < j. length (utf8_encode (drop i s) @ take k (utf8 c)) > length h - n)"
  using assms(1,5) unfolding h_def
proof (induction s arbitrary: n)
  case Nil
  let ?p = "take k (utf8 c)"
  show ?case
  proof (cases n)
    case 0
    then show ?thesis
      using takeWhile_continuation_start [of "[]", OF _ assms(2,3)] by (simp add: leading_trim_utf8)
  next
    case (Suc m)
    have "set (drop n ?p) \<subseteq> set (drop n (utf8 c))"
      by (metis drop_take set_take_subset)
    then have all: "list_all continuation (drop n ?p)"
      using continuation_drop_utf8 [of n c] Suc by (auto simp: list_all_iff)
    have "length (drop n ?p) \<le> 3"
      using length_utf8 [of c] assms(3) by auto
    have whole: "takeWhile continuation (drop n ?p) = drop n ?p"
      using all by (simp add: takeWhile_eq_all_conv list_all_iff)
    have "leading_trim (drop n ?p) (lit ''utf-8'') offset = length (drop n ?p)"
      unfolding leading_trim_utf8 whole using \<open>length (drop n ?p) \<le> 3\<close> by (rule min.absorb2)
    then show ?thesis by simp
  qed
next
  case (Cons x s)
  let ?p = "take k (utf8 c)"
  have x: "scalar x" and s: "list_all scalar s"
    using Cons.prems(1) by simp_all
  show ?case
  proof (cases "n < length (utf8 x)")
    case False
    then have drop: "drop n (utf8_encode (x # s) @ ?p) = drop (n - length (utf8 x)) (utf8_encode s @ ?p)"
      by simp
    have "n - length (utf8 x) \<le> length (utf8_encode s @ ?p)"
      using Cons.prems(2) by simp
    from Cons.IH [OF s this] obtain j where j: "j \<le> length s"
      "drop (leading_trim (drop (n - length (utf8 x)) (utf8_encode s @ ?p)) (lit ''utf-8'') offset)
          (drop (n - length (utf8 x)) (utf8_encode s @ ?p)) = utf8_encode (drop j s) @ ?p \<or>
        j = length s \<and>
        drop (leading_trim (drop (n - length (utf8 x)) (utf8_encode s @ ?p)) (lit ''utf-8'') offset)
          (drop (n - length (utf8 x)) (utf8_encode s @ ?p)) = []"
      "\<forall>i < j. length (utf8_encode (drop i s) @ ?p) >
        length (utf8_encode s @ ?p) - (n - length (utf8 x))"
      by blast
    have "\<forall>i < Suc j. length (utf8_encode (drop i (x # s)) @ ?p) > length (utf8_encode (x # s) @ ?p) - n"
    proof (intro allI impI)
      fix i
      assume "i < Suc j"
      then show "length (utf8_encode (drop i (x # s)) @ ?p) > length (utf8_encode (x # s) @ ?p) - n"
        using j(3) False Cons.prems(2) length_utf8 [of x] by (cases i) auto
    qed
    with j(1,2) show ?thesis
      unfolding drop by (intro exI [of _ "Suc j"]) auto
  next
    case True
    show ?thesis
    proof (cases "n = 0")
      case zero: True
      then show ?thesis
        using takeWhile_continuation_start [OF Cons.prems(1) assms(2,3)]
        by (intro exI [of _ 0]) (simp add: leading_trim_utf8)
    next
      case False
      let ?c = "drop n (utf8 x)"
      have tail: "drop n (utf8_encode (x # s) @ ?p) = ?c @ utf8_encode s @ ?p"
        using True by simp
      have "takeWhile continuation (?c @ utf8_encode s @ ?p) = ?c"
        using continuation_drop_utf8 [of n x] False takeWhile_continuation_start [OF s assms(2,3)]
        by (simp add: takeWhile_continuation_append)
      moreover have "length ?c \<le> 3"
        using length_utf8 [of x] False by auto
      ultimately have "leading_trim (?c @ utf8_encode s @ ?p) (lit ''utf-8'') offset = length ?c"
        by (simp add: leading_trim_utf8 del: length_drop)
      then show ?thesis
        unfolding tail using False True by (intro exI [of _ 1]) simp
    qed
  qed
qed

text \<open>What the registry must say of an encoding for it to be UTF-8.\<close>

definition names_utf8 :: "codec_registry \<Rightarrow> ustr \<Rightarrow> bool" where
  "names_utf8 r encoding \<longleftrightarrow>
    reg_name r encoding = Some (lit ''utf-8'') \<and>
    (\<forall>b. reg_pending r encoding b = Some (utf8_pending b)) \<and>
    (\<forall>errors s. list_all scalar s \<longrightarrow> reg_decode r encoding errors (utf8_encode s) = Some s)"

lemma trim_utf8_stream:
  assumes "names_utf8 r (ds_encoding settings)"
    and "list_all scalar s" "scalar c" "k < length (utf8 c)"
  defines "h \<equiv> utf8_encode s @ take k (utf8 c)"
  shows "\<exists>j \<le> length s.
    trim_to_code_point r (last_n m h) settings offset = Inr (utf8_encode (drop j s)) \<and>
    (j = length s \<or> length (utf8_encode (drop j s) @ take k (utf8 c)) \<le> min m (length h)) \<and>
    (\<forall>i < j. length (utf8_encode (drop i s) @ take k (utf8 c)) > min m (length h))"
proof -
  have reg: "canonical_encoding r (ds_encoding settings) = lit ''utf-8''"
    "reg_pending r (ds_encoding settings) b = Some (utf8_pending b)" for b
    using assms(1) by (simp_all add: names_utf8_def canonical_encoding_def)
  let ?n = "length h - m"
  let ?tail = "drop ?n h"
  let ?trimmed = "drop (leading_trim ?tail (lit ''utf-8'') offset) ?tail"
  obtain j where j: "j \<le> length s"
    "?trimmed = utf8_encode (drop j s) @ take k (utf8 c) \<or> j = length s \<and> ?trimmed = []"
    "\<forall>i < j. length (utf8_encode (drop i s) @ take k (utf8 c)) > length h - ?n"
    using leading_trim_stream [OF assms(2-4), of ?n offset] unfolding h_def by auto
  have "list_all scalar (drop j s)"
    using assms(2) by (auto simp: list_all_iff dest: in_set_dropD)
  from utf8_pending_encode_partial [OF this assms(3,4)]
  have "utf8_pending (utf8_encode (drop j s) @ take k (utf8 c)) = k" .
  moreover have "utf8_pending [] = 0"
    by (simp add: utf8_pending_def utf8_held_def)
  moreover have "trim_to_code_point r ?tail settings offset =
      Inr (take (length ?trimmed - utf8_pending ?trimmed) ?trimmed)"
    unfolding trim_to_code_point_def reg Let_def option.case by (simp del: length_drop drop_drop)
  ultimately have "trim_to_code_point r ?tail settings offset = Inr (utf8_encode (drop j s))"
    using j(2) assms(4)
    by (elim disjE conjE) (simp_all del: length_drop drop_drop)
  moreover have room: "length h - ?n = min m (length h)"
    by simp
  moreover have "j = length s \<or> length (utf8_encode (drop j s) @ take k (utf8 c)) \<le> min m (length h)"
  proof -
    have "length ?trimmed \<le> min m (length h)" by simp
    then show ?thesis using j(2) by metis
  qed
  ultimately show ?thesis
    using j(1,3) unfolding last_n_def by auto
qed

lemma trim_to_code_point_length:
  "trim_to_code_point r tail settings offset = Inr t \<Longrightarrow> length t \<le> length tail"
  by (auto simp: trim_to_code_point_def Let_def split: option.splits if_splits)

section \<open>Properties\<close>

text \<open>For a fixed-width encoding the trimmed tail starts at a stream position that is a whole
  number of code units, or is empty; less than two code units are given up.\<close>

theorem fixed_width_alignment:
  assumes "map_of code_unit_bytes canonical = Some unit"
  shows "((stream_offset + leading_trim tail canonical stream_offset) mod unit = 0 \<or>
      leading_trim tail canonical stream_offset = length tail) \<and>
    leading_trim tail canonical stream_offset < 2 * unit"
proof -
  have unit: "unit \<in> {2, 4}"
    using assms by (auto simp: code_unit_bytes_def split: if_splits)
  let ?i = "(unit - stream_offset mod unit) mod unit"
  have aligned: "(stream_offset + ?i) mod unit = 0"
    using unit by (auto simp: mod_simps) presburger+
  have "?i < unit"
    using unit by auto
  moreover have "(stream_offset + (?i + unit)) mod unit = 0"
    using aligned by (simp flip: add.assoc)
  ultimately show ?thesis
    using aligned unit unfolding leading_trim_def assms option.case Let_def by (auto simp: min_def)
qed

lemma fixed_width_alignment_witness:
  "(1 + leading_trim [0, 98, 0, 45, 78] (lit ''utf-16-le'') 1) mod 2 = 0"
proof -
  have unit: "map_of code_unit_bytes (lit ''utf-16-le'') = Some 2"
    by (simp add: code_unit_bytes_def lit_def)
  have "leading_trim [0, 98, 0, 45, 78] (lit ''utf-16-le'') 1 = 1"
    by code_simp
  then show ?thesis
    using fixed_width_alignment [OF unit, of 1 "[0, 98, 0, 45, 78]"] by simp
qed

end
