(* ===== verification/Capture_Accumulators.thy ===== *)
theory Capture_Accumulators
  imports Capture_Decode
begin

text \<open>
  The capture sinks that hold their bytes in memory (\<open>cuprum/_capture_accumulators.py\<close>, the
  record types of \<open>capture_policy.py\<close> and \<open>_capture_types.py\<close>).  The drain uses a sink only
  through \<open>absorb\<close>, \<open>finalize\<close> and \<open>cleanup\<close>; the interface below says that a sink's
  state is a function of the bytes it was given, not of their chunks.  The file-backed sink is a
  parameter of \<open>build_accumulator\<close>.
\<close>

section \<open>Data\<close>

datatype stream_name = Stdout | Stderr

datatype policy_kind = Kind_full | Kind_bounded | Kind_file_backed

record captured_stream =
  cs_stream :: stream_name
  cs_policy :: policy_kind
  cs_total_bytes :: nat
  cs_dropped_bytes :: nat

definition truncated :: "captured_stream \<Rightarrow> bool" where
  "truncated c \<longleftrightarrow> 0 < cs_dropped_bytes c"

record capture_final =
  cf_payload :: payload
  cf_capture :: captured_stream

text \<open>A TRUNCATED capture event: the stream, its total and its dropped bytes.\<close>

record capture_event =
  ev_stream :: stream_name
  ev_total_bytes :: nat
  ev_dropped_bytes :: nat

section \<open>The full accumulator\<close>

record full_accumulator =
  fa_stream :: stream_name
  fa_settings :: decode_settings
  fa_buffer :: bytes

definition new_full :: "stream_name \<Rightarrow> decode_settings \<Rightarrow> full_accumulator" where
  "new_full stream settings =
    \<lparr>fa_stream = stream, fa_settings = settings, fa_buffer = []\<rparr>"

definition full_absorb :: "bytes \<Rightarrow> full_accumulator \<Rightarrow> full_accumulator" where
  "full_absorb chunk a = a\<lparr>fa_buffer := fa_buffer a @ chunk\<rparr>"

definition full_finalize :: "codec_registry \<Rightarrow> full_accumulator \<Rightarrow> capture_error + capture_final" where
  "full_finalize r a =
    rbind (render r (fa_buffer a) (fa_settings a)) (\<lambda>payload.
      Inr \<lparr>cf_payload = payload,
        cf_capture = \<lparr>cs_stream = fa_stream a, cs_policy = Kind_full,
          cs_total_bytes = length (fa_buffer a), cs_dropped_bytes = 0\<rparr>\<rparr>)"

definition full_cleanup :: "full_accumulator \<Rightarrow> full_accumulator" where
  "full_cleanup a = a\<lparr>fa_buffer := []\<rparr>"

section \<open>The bounded accumulator\<close>

record bounded_accumulator =
  ba_max_bytes :: nat
  ba_stream :: stream_name
  ba_settings :: decode_settings
  ba_buffer :: bytes
  ba_total :: nat
  ba_dropped :: nat
  ba_offset :: nat
  ba_prefix :: bytes
  ba_truncation_emitted :: bool

definition new_bounded :: "nat \<Rightarrow> stream_name \<Rightarrow> decode_settings \<Rightarrow> bounded_accumulator" where
  "new_bounded max_bytes stream settings =
    \<lparr>ba_max_bytes = max_bytes, ba_stream = stream, ba_settings = settings, ba_buffer = [],
      ba_total = 0, ba_dropped = 0, ba_offset = 0, ba_prefix = [], ba_truncation_emitted = False\<rparr>"

definition bounded_absorb :: "bytes \<Rightarrow> bounded_accumulator \<Rightarrow> bounded_accumulator" where
  "bounded_absorb chunk a =
    (let head = (if length (ba_prefix a) < bom_max_bytes
           then ba_prefix a @ take (bom_max_bytes - length (ba_prefix a)) chunk else ba_prefix a);
         buffer = ba_buffer a @ chunk;
         total = ba_total a + length chunk;
         overflow = length buffer - ba_max_bytes a
     in if 0 < overflow then
          a\<lparr>ba_prefix := head, ba_buffer := drop overflow buffer, ba_total := total,
            ba_offset := ba_offset a + overflow,
            ba_dropped := total - length (drop overflow buffer)\<rparr>
        else a\<lparr>ba_prefix := head, ba_buffer := buffer, ba_total := total\<rparr>)"

text \<open>The final value or the error, the events emitted, and the state afterwards.\<close>

definition bounded_finalize ::
  "codec_registry \<Rightarrow> bounded_accumulator \<Rightarrow>
    (capture_error + capture_final) \<times> capture_event list \<times> bounded_accumulator" where
  "bounded_finalize r a =
    (let raw = ba_buffer a;
         settings = (if 0 < ba_dropped a then bounded_settings r (ba_settings a) (ba_prefix a)
           else ba_settings a)
     in case (if ds_capture_bytes settings \<or> ba_dropped a = 0 then Inr raw
              else trim_to_code_point r raw settings (ba_offset a)) of
          Inl e \<Rightarrow> (Inl e, [], a)
        | Inr retained \<Rightarrow>
            let dropped = ba_dropped a + length raw - length retained;
                emit = 0 < dropped \<and> \<not> ba_truncation_emitted a
            in (rbind (render r retained settings) (\<lambda>payload.
                  Inr \<lparr>cf_payload = payload,
                    cf_capture = \<lparr>cs_stream = ba_stream a, cs_policy = Kind_bounded,
                      cs_total_bytes = ba_total a, cs_dropped_bytes = dropped\<rparr>\<rparr>),
                if emit then [\<lparr>ev_stream = ba_stream a, ev_total_bytes = ba_total a,
                  ev_dropped_bytes = dropped\<rparr>] else [],
                if emit then a\<lparr>ba_truncation_emitted := True\<rparr> else a))"

definition bounded_cleanup :: "bounded_accumulator \<Rightarrow> bounded_accumulator" where
  "bounded_cleanup a = a\<lparr>ba_buffer := []\<rparr>"

section \<open>Selection by policy\<close>

datatype 'f accumulator = Full_acc full_accumulator | Bounded_acc bounded_accumulator | File_acc 'f

definition build_accumulator ::
  "(stream_name \<Rightarrow> decode_settings \<Rightarrow> 'f) \<Rightarrow> capture_policy option \<Rightarrow> stream_name \<Rightarrow>
    decode_settings \<Rightarrow> 'f accumulator option" where
  "build_accumulator new_file policy stream settings =
    (case policy of
       None \<Rightarrow> None
     | Some Full_capture \<Rightarrow> Some (Full_acc (new_full stream settings))
     | Some (Bounded_capture max_bytes) \<Rightarrow> Some (Bounded_acc (new_bounded max_bytes stream settings))
     | Some File_backed_capture \<Rightarrow> Some (File_acc (new_file stream settings)))"

section \<open>The sink interface\<close>

locale capture_sink =
  fixes absorb :: "bytes \<Rightarrow> 's \<Rightarrow> 's"
    and of_stream :: "bytes \<Rightarrow> 's"
  assumes absorb_of_stream: "absorb chunk (of_stream h) = of_stream (h @ chunk)"
begin

lemma fold_absorb: "fold absorb chunks (of_stream h) = of_stream (h @ concat chunks)"
  by (induction chunks arbitrary: h) (simp_all add: absorb_of_stream)

lemma rechunk:
  "concat chunks = concat chunks' \<Longrightarrow>
    fold absorb chunks (of_stream h) = fold absorb chunks' (of_stream h)"
  by (simp add: fold_absorb)

end

definition full_of_stream :: "stream_name \<Rightarrow> decode_settings \<Rightarrow> bytes \<Rightarrow> full_accumulator" where
  "full_of_stream stream settings h =
    \<lparr>fa_stream = stream, fa_settings = settings, fa_buffer = h\<rparr>"

interpretation full: capture_sink full_absorb "full_of_stream stream settings" for stream settings
  by unfold_locales (simp add: full_absorb_def full_of_stream_def)

definition bounded_of_stream ::
  "nat \<Rightarrow> stream_name \<Rightarrow> decode_settings \<Rightarrow> bytes \<Rightarrow> bounded_accumulator" where
  "bounded_of_stream m stream settings h =
    \<lparr>ba_max_bytes = m, ba_stream = stream, ba_settings = settings, ba_buffer = last_n m h,
      ba_total = length h, ba_dropped = length h - m, ba_offset = length h - m,
      ba_prefix = take bom_max_bytes h, ba_truncation_emitted = False\<rparr>"

interpretation bounded: capture_sink bounded_absorb "bounded_of_stream m stream settings"
  for m stream settings
proof
  fix chunk h :: bytes
  let ?b = "last_n m h @ chunk"
  have keep: "drop (length ?b - m) ?b = last_n m (h @ chunk)"
    using last_n_append_last_n [of m h chunk] by (simp add: last_n_def)
  have whole: "?b = last_n m (h @ chunk)" if "length ?b \<le> m"
    using keep that by simp
  have head: "(if length (take bom_max_bytes h) < bom_max_bytes
      then take bom_max_bytes h @ take (bom_max_bytes - length (take bom_max_bytes h)) chunk
      else take bom_max_bytes h) = take bom_max_bytes (h @ chunk)"
    by (auto simp: min_def)
  have lens: "length (last_n m h) = min m (length h)"
    by (simp add: last_n_def)
  show "bounded_absorb chunk (bounded_of_stream m stream settings h) =
      bounded_of_stream m stream settings (h @ chunk)"
  proof (cases "0 < length ?b - m")
    case True
    then have fields: "length h - m + (length ?b - m) = length (h @ chunk) - m"
      "length h + length chunk - length (last_n m (h @ chunk)) = length (h @ chunk) - m"
      using lens by (auto simp: last_n_def min_def split: if_splits)
    show ?thesis
      using True fields
      unfolding bounded_absorb_def bounded_of_stream_def Let_def
        bounded_accumulator.select_convs head keep
      by simp
  next
    case False
    then have fits: "length ?b \<le> m"
      by simp
    with lens have fields: "length h - m = length (h @ chunk) - m"
      by (auto simp: min_def split: if_splits)
    show ?thesis
      using False fields
      unfolding bounded_absorb_def bounded_of_stream_def Let_def
        bounded_accumulator.select_convs head whole [OF fits]
      by simp
  qed
qed

lemma new_full_of_stream: "new_full stream settings = full_of_stream stream settings []"
  by (simp add: new_full_def full_of_stream_def)

lemma new_bounded_of_stream: "new_bounded m stream settings = bounded_of_stream m stream settings []"
  by (simp add: new_bounded_def bounded_of_stream_def)

section \<open>Captures of a whole stream\<close>

definition full_capture ::
  "codec_registry \<Rightarrow> stream_name \<Rightarrow> decode_settings \<Rightarrow> bytes list \<Rightarrow> capture_error + capture_final" where
  "full_capture r stream settings chunks =
    full_finalize r (fold full_absorb chunks (new_full stream settings))"

definition bounded_capture ::
  "codec_registry \<Rightarrow> nat \<Rightarrow> stream_name \<Rightarrow> decode_settings \<Rightarrow> bytes list \<Rightarrow>
    (capture_error + capture_final) \<times> capture_event list \<times> bounded_accumulator" where
  "bounded_capture r m stream settings chunks =
    bounded_finalize r (fold bounded_absorb chunks (new_bounded m stream settings))"

lemma full_capture_stream:
  "full_capture r stream settings chunks =
    full_finalize r (full_of_stream stream settings (concat chunks))"
  using full.fold_absorb [of chunks stream settings "[]"]
  by (simp add: full_capture_def new_full_of_stream)

lemma bounded_capture_stream:
  "bounded_capture r m stream settings chunks =
    bounded_finalize r (bounded_of_stream m stream settings (concat chunks))"
  using bounded.fold_absorb [of chunks m stream settings "[]"]
  by (simp add: bounded_capture_def new_bounded_of_stream)

lemma bounded_of_stream_simps [simp]:
  "ba_max_bytes (bounded_of_stream m stream settings h) = m"
  "ba_stream (bounded_of_stream m stream settings h) = stream"
  "ba_settings (bounded_of_stream m stream settings h) = settings"
  "ba_buffer (bounded_of_stream m stream settings h) = last_n m h"
  "ba_total (bounded_of_stream m stream settings h) = length h"
  "ba_dropped (bounded_of_stream m stream settings h) = length h - m"
  "ba_offset (bounded_of_stream m stream settings h) = length h - m"
  "ba_prefix (bounded_of_stream m stream settings h) = take bom_max_bytes h"
  "\<not> ba_truncation_emitted (bounded_of_stream m stream settings h)"
  by (simp_all add: bounded_of_stream_def)

lemma ds_capture_bytes_bounded_settings [simp]:
  "ds_capture_bytes (bounded_settings r settings head) = ds_capture_bytes settings"
  by (simp add: bounded_settings_def Let_def)

lemma bounded_settings_utf8:
  assumes "names_utf8 r (ds_encoding settings)"
  shows "bounded_settings r settings head = settings"
proof -
  have "canonical_encoding r (ds_encoding settings) = lit ''utf-8''"
    using assms by (simp add: names_utf8_def canonical_encoding_def)
  then show ?thesis
    by (simp add: bounded_settings_def bom_selected_codecs_def lit_def)
qed

lemma bounded_finalize_cut:
  assumes "0 < ba_dropped a" "\<not> ds_capture_bytes (ba_settings a)"
    and "trim_to_code_point r (ba_buffer a) (bounded_settings r (ba_settings a) (ba_prefix a))
      (ba_offset a) = Inr retained"
  shows "fst (bounded_finalize r a) =
    rbind (render r retained (bounded_settings r (ba_settings a) (ba_prefix a))) (\<lambda>payload.
      Inr \<lparr>cf_payload = payload,
        cf_capture = \<lparr>cs_stream = ba_stream a, cs_policy = Kind_bounded,
          cs_total_bytes = ba_total a,
          cs_dropped_bytes = ba_dropped a + length (ba_buffer a) - length retained\<rparr>\<rparr>)"
  using assms by (simp add: bounded_finalize_def Let_def)

section \<open>Properties\<close>

text \<open>A byte-exact bounded capture returns the last bytes of the stream, as many as the bound
  allows, and reports the size of the whole stream and exactly the bytes it dropped, however the
  stream was chunked; it announces a truncation exactly when something was dropped.\<close>

theorem bounded_capture_bytes:
  assumes "ds_capture_bytes settings"
  shows "bounded_capture r m stream settings chunks =
    (let h = concat chunks;
         a = bounded_of_stream m stream settings h
     in (Inr \<lparr>cf_payload = Bytes_payload (last_n m h),
           cf_capture = \<lparr>cs_stream = stream, cs_policy = Kind_bounded,
             cs_total_bytes = length h, cs_dropped_bytes = length h - m\<rparr>\<rparr>,
         if m < length h then [\<lparr>ev_stream = stream, ev_total_bytes = length h,
           ev_dropped_bytes = length h - m\<rparr>] else [],
         if m < length h then a\<lparr>ba_truncation_emitted := True\<rparr> else a))"
proof -
  have "length h - m + length (last_n m h) - length (last_n m h) = length h - m" for h :: bytes
    by simp
  then show ?thesis
    using assms
    by (simp add: bounded_capture_stream bounded_finalize_def Let_def render_def)
qed

lemma bounded_capture_bytes_witness:
  "\<exists>r events a. bounded_capture r 3 Stdout \<lparr>ds_encoding = [], ds_errors = [], ds_capture_bytes = True\<rparr>
      [[1, 2], [3, 4, 5]] =
    (Inr \<lparr>cf_payload = Bytes_payload [3, 4, 5],
       cf_capture = \<lparr>cs_stream = Stdout, cs_policy = Kind_bounded,
         cs_total_bytes = 5, cs_dropped_bytes = 2\<rparr>\<rparr>, events, a)"
  using bounded_capture_bytes [of "\<lparr>ds_encoding = [], ds_errors = [], ds_capture_bytes = True\<rparr>"
      _ 3 Stdout "[[1, 2], [3, 4, 5]]"]
  by (simp add: last_n_def Let_def)

text \<open>(C25) A bounded text capture of a UTF-8 stream, possibly ended inside a character, returns
  whole characters only, decoded without replacement under any error policy, with every other byte
  counted as dropped.  The bound is on the raw tail that is kept: the bytes of the unfinished last character
  are dropped too, but only after they have taken their room.  So what is returned is the longest run of the
  stream's last complete characters that fits together with those bytes, or nothing.\<close>

theorem bounded_capture_utf8:
  assumes "names_utf8 r (ds_encoding settings)" "\<not> ds_capture_bytes settings"
    and "list_all scalar s" "scalar c" "k < length (utf8 c)"
    and "concat chunks = utf8_encode s @ take k (utf8 c)"
    and "m < length (concat chunks)"
  shows "\<exists>j \<le> length s. fst (bounded_capture r m stream settings chunks) =
      Inr \<lparr>cf_payload = Text_payload (drop j s),
        cf_capture = \<lparr>cs_stream = stream, cs_policy = Kind_bounded,
          cs_total_bytes = length (concat chunks),
          cs_dropped_bytes = length (concat chunks) - length (utf8_encode (drop j s))\<rparr>\<rparr> \<and>
    length (utf8_encode (drop j s)) \<le> m \<and>
    (j = length s \<or> length (utf8_encode (drop j s)) + k \<le> m) \<and>
    (\<forall>i < j. m < length (utf8_encode (drop i s)) + k)"
proof -
  let ?h = "concat chunks"
  obtain j where j: "j \<le> length s"
    "trim_to_code_point r (last_n m ?h) settings (length ?h - m) = Inr (utf8_encode (drop j s))"
    "j = length s \<or> length (utf8_encode (drop j s) @ take k (utf8 c)) \<le> min m (length ?h)"
    "\<forall>i < j. min m (length ?h) < length (utf8_encode (drop i s) @ take k (utf8 c))"
    using trim_utf8_stream [OF assms(1,3-5), of m "length ?h - m"] unfolding assms(6) by blast
  have scalars: "list_all scalar (drop j s)"
    using assms(3) by (auto simp: list_all_iff dest: in_set_dropD)
  then have decode: "reg_decode r (ds_encoding settings) e (utf8_encode (drop j s)) = Some (drop j s)" for e
    using assms(1) by (simp add: names_utf8_def)
  have le: "length (utf8_encode (drop j s)) \<le> m"
    using trim_to_code_point_length [OF j(2)] by simp
  have total: "length ?h - m + length (last_n m ?h) - length (utf8_encode (drop j s)) =
      length ?h - length (utf8_encode (drop j s))"
    using assms(7) by (simp add: last_n_def del: length_concat)
  have more: "0 < length ?h - m"
    using assms(7) by simp
  have "fst (bounded_capture r m stream settings chunks) =
      Inr \<lparr>cf_payload = Text_payload (drop j s),
        cf_capture = \<lparr>cs_stream = stream, cs_policy = Kind_bounded, cs_total_bytes = length ?h,
          cs_dropped_bytes = length ?h - length (utf8_encode (drop j s))\<rparr>\<rparr>"
    unfolding bounded_capture_stream
    using bounded_finalize_cut [of "bounded_of_stream m stream settings ?h" r] assms(2) more
      bounded_settings_utf8 [OF assms(1)] j(2) decode total
    by (simp add: render_def del: length_concat)
  moreover have "\<forall>i < j. m < length (utf8_encode (drop i s)) + k"
      "j = length s \<or> length (utf8_encode (drop j s)) + k \<le> m"
    using j(3,4) assms(5,7) by (simp_all add: min_def del: length_concat)
  ultimately show ?thesis
    using j(1) le by blast
qed

text \<open>A registry with UTF-8 in it.\<close>

definition utf8_registry :: codec_registry where
  "utf8_registry =
    \<lparr>reg_name = (\<lambda>e. if e = lit ''utf8'' then Some (lit ''utf-8'') else None),
      reg_pending = (\<lambda>_ b. Some (utf8_pending b)), reg_decode = (\<lambda>_ _ b. Some (utf8_decode b)),
      reg_little_endian = True\<rparr>"

lemma names_utf8_registry: "names_utf8 utf8_registry (lit ''utf8'')"
  by (simp add: names_utf8_def utf8_registry_def)

text \<open>Four letters and two bytes of a character under a bound of four: two letters are left.\<close>

lemma bounded_capture_utf8_witness:
  "\<exists>capture. fst (bounded_capture utf8_registry 4 Stdout
      \<lparr>ds_encoding = lit ''utf8'', ds_errors = lit ''strict'', ds_capture_bytes = False\<rparr>
      [[97, 98], [99, 100], take 2 (utf8 20013)]) =
    Inr \<lparr>cf_payload = Text_payload [99, 100], cf_capture = capture\<rparr>"
proof -
  let ?s = "\<lparr>ds_encoding = lit ''utf8'', ds_errors = lit ''strict'', ds_capture_bytes = False\<rparr>"
  let ?chunks = "[[97, 98], [99, 100], take 2 (utf8 20013)]"
  have names: "names_utf8 utf8_registry (ds_encoding ?s)"
    by (simp add: names_utf8_registry)
  have scalars: "list_all scalar [97, 98, 99, 100]" "scalar 20013" "2 < length (utf8 20013)"
    by (simp_all add: scalar_def utf8_def)
  have stream: "concat ?chunks = utf8_encode [97, 98, 99, 100] @ take 2 (utf8 20013)"
    "4 < length (concat ?chunks)"
    by (simp_all add: utf8_def utf8_encode_def)
  obtain j capture where j: "j \<le> length [97::nat, 98, 99, 100]"
    "fst (bounded_capture utf8_registry 4 Stdout ?s ?chunks) =
      Inr \<lparr>cf_payload = Text_payload (drop j [97, 98, 99, 100]), cf_capture = capture\<rparr>"
    "j = length [97::nat, 98, 99, 100] \<or> length (utf8_encode (drop j [97, 98, 99, 100])) + 2 \<le> 4"
    "\<forall>i < j. 4 < length (utf8_encode (drop i [97, 98, 99, 100])) + 2"
    using bounded_capture_utf8 [OF names _ scalars stream, of Stdout] unfolding decode_settings.simps by blast
  have "j = 2"
  proof (rule antisym)
    show "j \<le> 2" using j(4) by (auto simp: utf8_def utf8_encode_def dest: spec [of _ 2])
    show "2 \<le> j"
    proof (rule ccontr)
      assume "\<not> 2 \<le> j"
      then have "j = 0 \<or> j = 1" by auto
      then show False using j(3) by (auto simp: utf8_def utf8_encode_def)
    qed
  qed
  with j(2) show ?thesis by auto
qed

text \<open>A bounded capture whose bound is never reached is the full capture of the same stream
  under every encoding: same payload, same total, nothing dropped, no event.\<close>

theorem unreached_bound_is_full_capture:
  assumes "length (concat chunks) \<le> m"
  shows "fst (bounded_capture r m stream settings chunks) =
      rbind (full_capture r stream settings chunks) (\<lambda>f.
        Inr (f\<lparr>cf_capture := (cf_capture f)\<lparr>cs_policy := Kind_bounded\<rparr>\<rparr>)) \<and>
    fst (snd (bounded_capture r m stream settings chunks)) = []"
  using assms
  by (cases "render r (concat chunks) settings")
    (simp_all add: bounded_capture_stream full_capture_stream bounded_finalize_def full_finalize_def
      full_of_stream_def Let_def del: length_concat)

lemma unreached_bound_is_full_capture_witness:
  "fst (snd (bounded_capture utf8_registry 8 Stderr
    \<lparr>ds_encoding = lit ''utf8'', ds_errors = [], ds_capture_bytes = False\<rparr> [[97], [98]])) = []"
  using unreached_bound_is_full_capture [of "[[97], [98]]" 8] by simp

text \<open>Finalizing a bounded capture again returns the same value, announces nothing it had
  announced before, and leaves the state as it is.\<close>

theorem bounded_finalize_repeatable:
  "(let (final, events, a') = bounded_finalize r a
    in bounded_finalize r a' = (final, [], a'))"
  by (auto simp: bounded_finalize_def Let_def split: sum.splits if_splits)

end
