(* ===== verification/Delivery_Worker.thy ===== *)
theory Delivery_Worker
  imports Cuprum_Prelude
begin

text \<open>
  Off-loop delivery of echoed output (\<open>cuprum/_bounded_delivery.py\<close>).  Event-loop callers enqueue
  output, one daemon thread writes it, and a closer drains or abandons it.  Every critical section
  under the worker's condition is one function on the worker's state; the program counter of the
  thread and the operations that reached the sinks are state of the system around it, and the
  interleavings of the threads are a labelled step relation.
\<close>

section \<open>Data\<close>

datatype echo_stream = Echo_stdout | Echo_stderr

datatype delivery_value = Text_value ustr | Bytes_value bytes

fun value_is_empty :: "delivery_value \<Rightarrow> bool" where
  "value_is_empty (Text_value s) \<longleftrightarrow> s = []"
| "value_is_empty (Bytes_value b) \<longleftrightarrow> b = []"

record delivery_payload =
  dp_value :: delivery_value
  dp_source_bytes :: nat

record 'd delivery_item =
  di_stream :: echo_stream
  di_payload :: delivery_payload
  di_flush :: bool
  di_diagnostics :: "'d option"

record 'd delivery_failure =
  df_stream :: echo_stream
  df_diagnostics :: "'d option"

record 'd undelivered_bytes =
  ub_stream :: echo_stream
  ub_byte_count :: nat
  ub_diagnostics :: "'d option"

record 'd delivery_close_result =
  cr_failures :: "'d delivery_failure list"
  cr_undelivered :: "'d undelivered_bytes list"

text \<open>The mutable fields of the worker; its thread, locks and destinations are in the system.\<close>

record 'd delivery_worker =
  dw_max_queued_bytes :: nat
  dw_queue :: "'d delivery_item list"
  dw_queued_bytes :: nat
  dw_active_item :: "'d delivery_item option"
  dw_closing :: bool
  dw_abandoned :: bool
  dw_disabled :: bool
  dw_failures :: "'d delivery_failure list"
  dw_undelivered :: "'d undelivered_bytes list"
  dw_close_result :: "'d delivery_close_result option"
  dw_diagnostics_reported :: bool

definition new_worker :: "nat \<Rightarrow> 'd delivery_worker" where
  "new_worker max_queued_bytes =
    \<lparr>dw_max_queued_bytes = max_queued_bytes, dw_queue = [], dw_queued_bytes = 0,
      dw_active_item = None, dw_closing = False, dw_abandoned = False, dw_disabled = False,
      dw_failures = [], dw_undelivered = [], dw_close_result = None,
      dw_diagnostics_reported = False\<rparr>"

section \<open>The critical sections\<close>

abbreviation item_bytes :: "'d delivery_item \<Rightarrow> nat" where
  "item_bytes i \<equiv> dp_source_bytes (di_payload i)"

fun add_to_target ::
  "echo_stream \<Rightarrow> nat \<Rightarrow> 'd option \<Rightarrow> 'd undelivered_bytes list \<Rightarrow> 'd undelivered_bytes list" where
  "add_to_target stream n diagnostics [] =
    [\<lparr>ub_stream = stream, ub_byte_count = n, ub_diagnostics = diagnostics\<rparr>]"
| "add_to_target stream n diagnostics (entry # entries) =
    (if ub_stream entry = stream \<and> ub_diagnostics entry = diagnostics
     then entry\<lparr>ub_byte_count := ub_byte_count entry + n\<rparr> # entries
     else entry # add_to_target stream n diagnostics entries)"

definition add_undelivered ::
  "echo_stream \<Rightarrow> nat \<Rightarrow> 'd option \<Rightarrow> 'd delivery_worker \<Rightarrow> 'd delivery_worker" where
  "add_undelivered stream n diagnostics w =
    (if n = 0 then w
     else w\<lparr>dw_undelivered := add_to_target stream n diagnostics (dw_undelivered w)\<rparr>)"

definition add_item :: "'d delivery_item \<Rightarrow> 'd delivery_worker \<Rightarrow> 'd delivery_worker" where
  "add_item i = add_undelivered (di_stream i) (item_bytes i) (di_diagnostics i)"

definition discard_queued :: "'d delivery_worker \<Rightarrow> 'd delivery_worker" where
  "discard_queued w = (fold add_item (dw_queue w) w)\<lparr>dw_queue := [], dw_queued_bytes := 0\<rparr>"

text \<open>\<open>enqueue\<close> returns the bytes it rejected because the queue is full.\<close>

definition enqueue :: "'d delivery_item \<Rightarrow> 'd delivery_worker \<Rightarrow> nat \<times> 'd delivery_worker" where
  "enqueue i w =
    (let n = item_bytes i
     in if n = 0 \<and> value_is_empty (dp_value (di_payload i)) then (0, w)
        else if dw_disabled w \<or> dw_closing w then (0, add_item i w)
        else if dw_max_queued_bytes w < dw_queued_bytes w + n then (n, w)
        else (0, w\<lparr>dw_queue := dw_queue w @ [i], dw_queued_bytes := dw_queued_bytes w + n\<rparr>))"

text \<open>The two critical sections of \<open>close\<close>, before and after joining the thread.\<close>

definition close_begin :: "'d delivery_worker \<Rightarrow> 'd delivery_close_result option \<times> 'd delivery_worker" where
  "close_begin w =
    (case dw_close_result w of
       Some result \<Rightarrow> (Some result, w)
     | None \<Rightarrow> (None, w\<lparr>dw_closing := True\<rparr>))"

definition close_end :: "bool \<Rightarrow> 'd delivery_worker \<Rightarrow> 'd delivery_close_result \<times> 'd delivery_worker" where
  "close_end alive w =
    (let abandon = alive \<or> dw_active_item w \<noteq> None;
         w = (if abandon then
                (case dw_active_item w of
                   None \<Rightarrow> w\<lparr>dw_abandoned := True\<rparr>
                 | Some i \<Rightarrow> (add_item i (w\<lparr>dw_abandoned := True\<rparr>))\<lparr>dw_active_item := None\<rparr>)
              else w);
         w = discard_queued w;
         result = \<lparr>cr_failures = dw_failures w, cr_undelivered = dw_undelivered w\<rparr>
     in (result, w\<lparr>dw_close_result := Some result\<rparr>))"

definition take_close_result ::
  "'d delivery_worker \<Rightarrow> 'd delivery_close_result option \<times> 'd delivery_worker" where
  "take_close_result w =
    (if dw_close_result w = None \<or> dw_diagnostics_reported w then (None, w)
     else (dw_close_result w, w\<lparr>dw_diagnostics_reported := True\<rparr>))"

text \<open>\<open>_next_item\<close> once its wait is over.\<close>

definition may_wake :: "'d delivery_worker \<Rightarrow> bool" where
  "may_wake w \<longleftrightarrow> dw_queue w \<noteq> [] \<or> dw_closing w"

definition next_item :: "'d delivery_worker \<Rightarrow> 'd delivery_item option \<times> 'd delivery_worker" where
  "next_item w =
    (if dw_abandoned w then (None, w)
     else (case dw_queue w of
             [] \<Rightarrow> (None, w)
           | i # queue \<Rightarrow>
               (Some i, w\<lparr>dw_queue := queue, dw_queued_bytes := dw_queued_bytes w - item_bytes i,
                  dw_active_item := Some i\<rparr>)))"

text \<open>The sections of \<open>_run\<close> after a delivery and after an exception; \<open>True\<close> ends the thread.\<close>

definition after_delivery :: "'d delivery_worker \<Rightarrow> bool \<times> 'd delivery_worker" where
  "after_delivery w = (dw_abandoned w, w\<lparr>dw_active_item := None\<rparr>)"

definition after_exception :: "'d delivery_item \<Rightarrow> 'd delivery_worker \<Rightarrow> 'd delivery_worker" where
  "after_exception i w =
    (if dw_abandoned w then w
     else discard_queued
       (w\<lparr>dw_failures := dw_failures w @
            [\<lparr>df_stream = di_stream i, df_diagnostics = di_diagnostics i\<rparr>],
          dw_disabled := True, dw_active_item := None\<rparr>))"

text \<open>What \<open>_deliver\<close> does to the destination, in order.\<close>

datatype sink_op = Sink_write echo_stream delivery_value | Sink_flush echo_stream

definition sink_ops :: "'d delivery_item \<Rightarrow> sink_op list" where
  "sink_ops i =
    (if value_is_empty (dp_value (di_payload i)) then []
     else [Sink_write (di_stream i) (dp_value (di_payload i))]) @
    (if di_flush i then [Sink_flush (di_stream i)] else [])"

section \<open>The threads\<close>

text \<open>Where the worker thread is between its critical sections.\<close>

datatype 'd thread_pc =
    Waiting
  | Checking "'d delivery_item"
  | Delivering "'d delivery_item" "sink_op list"
  | Delivered "'d delivery_item"
  | Raised "'d delivery_item"
  | Stopped

text \<open>
  The last four fields observe the system and no step depends on them: the items put into the
  queue, the items the worker did not reject for load, the items whose delivery it confirmed and
  those it reported as failed.
\<close>

record 'd delivery_system =
  sy_worker :: "'d delivery_worker"
  sy_pc :: "'d thread_pc"
  sy_closers :: nat
  sy_sink :: "sink_op list"
  sy_accepted :: "'d delivery_item list"
  sy_offered :: "'d delivery_item list"
  sy_confirmed :: "'d delivery_item list"
  sy_failed :: "'d delivery_item list"

definition new_system :: "nat \<Rightarrow> 'd delivery_system" where
  "new_system max_queued_bytes =
    \<lparr>sy_worker = new_worker max_queued_bytes, sy_pc = Waiting, sy_closers = 0, sy_sink = [],
      sy_accepted = [], sy_offered = [], sy_confirmed = [], sy_failed = []\<rparr>"

datatype 'd label =
    Lab_enqueue "'d delivery_item" nat
  | Lab_close_begin "'d delivery_close_result option"
  | Lab_close_end "'d delivery_close_result"
  | Lab_take "'d delivery_close_result option"
  | Lab_worker

definition client_enqueue :: "'d delivery_item \<Rightarrow> 'd delivery_system \<Rightarrow> nat \<times> 'd delivery_system" where
  "client_enqueue i s =
    (case enqueue i (sy_worker s) of
       (rejected, w) \<Rightarrow>
         (rejected,
          s\<lparr>sy_worker := w,
            sy_accepted := (if dw_queue w = dw_queue (sy_worker s) then sy_accepted s
              else sy_accepted s @ [i]),
            sy_offered := (if 0 < rejected then sy_offered s else sy_offered s @ [i])\<rparr>))"

text \<open>
  One step of the worker thread, \<open>None\<close> while it has none: it is stopped, or it waits for the
  condition.  \<open>raises\<close> says whether a sink operation of this step raises.
\<close>

fun worker_thread :: "bool \<Rightarrow> 'd delivery_system \<Rightarrow> 'd delivery_system option" where
  "worker_thread raises s =
    (let w = sy_worker s
     in case sy_pc s of
          Waiting \<Rightarrow>
            if may_wake w then
              (case next_item w of
                 (None, w) \<Rightarrow> Some (s\<lparr>sy_worker := w, sy_pc := Stopped\<rparr>)
               | (Some i, w) \<Rightarrow> Some (s\<lparr>sy_worker := w, sy_pc := Checking i\<rparr>))
            else None
        | Checking i \<Rightarrow>
            Some (s\<lparr>sy_pc := (if dw_abandoned w then Delivered i else Delivering i (sink_ops i))\<rparr>)
        | Delivering i [] \<Rightarrow> Some (s\<lparr>sy_pc := Delivered i\<rparr>)
        | Delivering i (op # ops) \<Rightarrow>
            if raises then Some (s\<lparr>sy_pc := Raised i\<rparr>)
            else Some (s\<lparr>sy_pc := Delivering i ops, sy_sink := sy_sink s @ [op]\<rparr>)
        | Delivered i \<Rightarrow>
            (case after_delivery w of
               (stop, w') \<Rightarrow>
                 Some (s\<lparr>sy_worker := w', sy_pc := (if stop then Stopped else Waiting),
                   sy_confirmed := (if stop then sy_confirmed s else sy_confirmed s @ [i])\<rparr>))
        | Raised i \<Rightarrow>
            Some (s\<lparr>sy_worker := after_exception i w, sy_pc := Stopped,
              sy_failed := (if dw_abandoned w then sy_failed s else sy_failed s @ [i])\<rparr>)
        | Stopped \<Rightarrow> None)"

declare worker_thread.simps [simp del]

text \<open>
  A thread that has returned may still be alive for a moment, one that has not always is; a close
  can only report after its first section.
\<close>

inductive step :: "'d delivery_system \<Rightarrow> 'd label \<Rightarrow> 'd delivery_system \<Rightarrow> bool" where
  enqueue: "client_enqueue i s = (n, s') \<Longrightarrow> step s (Lab_enqueue i n) s'"
| close_done: "close_begin (sy_worker s) = (Some r, w) \<Longrightarrow>
    step s (Lab_close_begin (Some r)) (s\<lparr>sy_worker := w\<rparr>)"
| close_begin: "close_begin (sy_worker s) = (None, w) \<Longrightarrow>
    step s (Lab_close_begin None) (s\<lparr>sy_worker := w, sy_closers := Suc (sy_closers s)\<rparr>)"
| close_end: "0 < sy_closers s \<Longrightarrow> alive \<or> sy_pc s = Stopped \<Longrightarrow>
    close_end alive (sy_worker s) = (r, w) \<Longrightarrow>
    step s (Lab_close_end r) (s\<lparr>sy_worker := w, sy_closers := sy_closers s - 1\<rparr>)"
| take: "take_close_result (sy_worker s) = (r, w) \<Longrightarrow>
    step s (Lab_take r) (s\<lparr>sy_worker := w\<rparr>)"
| worker: "worker_thread raises s = Some s' \<Longrightarrow> step s Lab_worker s'"

inductive run :: "'d delivery_system \<Rightarrow> 'd label list \<Rightarrow> 'd delivery_system \<Rightarrow> bool" where
  run_nil: "run s [] s"
| run_snoc: "run s labels s' \<Longrightarrow> step s' l s'' \<Longrightarrow> run s (labels @ [l]) s''"

inductive_cases worker_stepE: "step s Lab_worker s'"
inductive_cases enqueue_stepE: "step s (Lab_enqueue i n) s'"
inductive_simps run_nil_iff: "run s [] s'"

text \<open>A property of the worker alone is an invariant when each critical section keeps it.\<close>

lemma run_invariant:
  assumes "run s labels s'" "I s" and "\<And>s l s'. I s \<Longrightarrow> step s l s' \<Longrightarrow> I s'"
  shows "I s'"
  using assms by (induction rule: run.induct) blast+

section \<open>Accounting\<close>

abbreviation targets :: "echo_stream \<Rightarrow> 'd option \<Rightarrow> 'd delivery_item \<Rightarrow> bool" where
  "targets stream diagnostics i \<equiv> di_stream i = stream \<and> di_diagnostics i = diagnostics"

definition target_bytes :: "echo_stream \<Rightarrow> 'd option \<Rightarrow> 'd delivery_item list \<Rightarrow> nat" where
  "target_bytes stream diagnostics items =
    sum_list (map item_bytes (filter (targets stream diagnostics) items))"

definition undelivered_for :: "echo_stream \<Rightarrow> 'd option \<Rightarrow> 'd undelivered_bytes list \<Rightarrow> nat" where
  "undelivered_for stream diagnostics entries =
    sum_list (map ub_byte_count
      (filter (\<lambda>e. ub_stream e = stream \<and> ub_diagnostics e = diagnostics) entries))"

definition active_items :: "'d delivery_worker \<Rightarrow> 'd delivery_item list" where
  "active_items w = (case dw_active_item w of None \<Rightarrow> [] | Some i \<Rightarrow> [i])"

lemma target_bytes_simps [simp]:
  "target_bytes stream diagnostics [] = 0"
  "target_bytes stream diagnostics (i # items) =
    (if targets stream diagnostics i then item_bytes i else 0) + target_bytes stream diagnostics items"
  "target_bytes stream diagnostics (items @ items') =
    target_bytes stream diagnostics items + target_bytes stream diagnostics items'"
  by (simp_all add: target_bytes_def)

lemma undelivered_add_to_target:
  "undelivered_for stream diagnostics (add_to_target stream' n diagnostics' entries) =
    undelivered_for stream diagnostics entries +
    (if stream' = stream \<and> diagnostics' = diagnostics then n else 0)"
  by (induction entries) (auto simp: undelivered_for_def)

lemma undelivered_add_item [simp]:
  "undelivered_for stream diagnostics (dw_undelivered (add_item i w)) =
    undelivered_for stream diagnostics (dw_undelivered w) +
    (if targets stream diagnostics i then item_bytes i else 0)"
  by (auto simp: add_item_def add_undelivered_def undelivered_add_to_target)

lemma add_item_fields [simp]:
  "dw_max_queued_bytes (add_item i w) = dw_max_queued_bytes w"
  "dw_queue (add_item i w) = dw_queue w"
  "dw_queued_bytes (add_item i w) = dw_queued_bytes w"
  "dw_active_item (add_item i w) = dw_active_item w"
  "dw_closing (add_item i w) = dw_closing w"
  "dw_abandoned (add_item i w) = dw_abandoned w"
  "dw_disabled (add_item i w) = dw_disabled w"
  "dw_failures (add_item i w) = dw_failures w"
  "dw_close_result (add_item i w) = dw_close_result w"
  "dw_diagnostics_reported (add_item i w) = dw_diagnostics_reported w"
  by (simp_all add: add_item_def add_undelivered_def)

lemma fold_add_item_fields:
  "dw_max_queued_bytes (fold add_item items w) = dw_max_queued_bytes w \<and>
   dw_active_item (fold add_item items w) = dw_active_item w \<and>
   dw_closing (fold add_item items w) = dw_closing w \<and>
   dw_abandoned (fold add_item items w) = dw_abandoned w \<and>
   dw_disabled (fold add_item items w) = dw_disabled w \<and>
   dw_failures (fold add_item items w) = dw_failures w \<and>
   dw_close_result (fold add_item items w) = dw_close_result w \<and>
   dw_diagnostics_reported (fold add_item items w) = dw_diagnostics_reported w \<and>
   undelivered_for stream diagnostics (dw_undelivered (fold add_item items w)) =
     undelivered_for stream diagnostics (dw_undelivered w) + target_bytes stream diagnostics items"
  by (induction items arbitrary: w) simp_all

lemma discard_queued_fields [simp]:
  "dw_queue (discard_queued w) = []"
  "dw_queued_bytes (discard_queued w) = 0"
  "dw_max_queued_bytes (discard_queued w) = dw_max_queued_bytes w"
  "dw_active_item (discard_queued w) = dw_active_item w"
  "dw_closing (discard_queued w) = dw_closing w"
  "dw_abandoned (discard_queued w) = dw_abandoned w"
  "dw_disabled (discard_queued w) = dw_disabled w"
  "dw_failures (discard_queued w) = dw_failures w"
  "dw_close_result (discard_queued w) = dw_close_result w"
  "dw_diagnostics_reported (discard_queued w) = dw_diagnostics_reported w"
  "undelivered_for stream diagnostics (dw_undelivered (discard_queued w)) =
     undelivered_for stream diagnostics (dw_undelivered w) +
     target_bytes stream diagnostics (dw_queue w)"
  using fold_add_item_fields [of "dw_queue w" w stream diagnostics]
  by (simp_all add: discard_queued_def)

section \<open>The invariant of the worker\<close>

text \<open>The active item is the one the thread carries, unless a closer took it over.\<close>

fun pc_active :: "'d delivery_worker \<Rightarrow> 'd thread_pc \<Rightarrow> bool" where
  "pc_active w Waiting \<longleftrightarrow> dw_active_item w = None"
| "pc_active w Stopped \<longleftrightarrow> dw_active_item w = None \<and> dw_queue w = [] \<and> (dw_disabled w \<or> dw_closing w)"
| "pc_active w (Checking i) \<longleftrightarrow> dw_active_item w = (if dw_abandoned w then None else Some i)"
| "pc_active w (Delivering i ops) \<longleftrightarrow> dw_active_item w = (if dw_abandoned w then None else Some i)"
| "pc_active w (Delivered i) \<longleftrightarrow> dw_active_item w = (if dw_abandoned w then None else Some i)"
| "pc_active w (Raised i) \<longleftrightarrow> dw_active_item w = (if dw_abandoned w then None else Some i)"

definition worker_ok :: "'d delivery_system \<Rightarrow> bool" where
  "worker_ok s \<longleftrightarrow>
    (let w = sy_worker s
     in dw_queued_bytes w = sum_list (map item_bytes (dw_queue w)) \<and>
        dw_queued_bytes w \<le> dw_max_queued_bytes w \<and>
        pc_active w (sy_pc s) \<and>
        (0 < sy_closers s \<or> dw_close_result w \<noteq> None \<or> dw_abandoned w \<longrightarrow> dw_closing w) \<and>
        (dw_close_result w \<noteq> None \<or> dw_abandoned w \<longrightarrow> dw_queue w = []))"

definition conserved :: "echo_stream \<Rightarrow> 'd option \<Rightarrow> 'd delivery_system \<Rightarrow> bool" where
  "conserved stream diagnostics s \<longleftrightarrow>
    target_bytes stream diagnostics (sy_offered s) =
      target_bytes stream diagnostics (dw_queue (sy_worker s)) +
      target_bytes stream diagnostics (active_items (sy_worker s)) +
      target_bytes stream diagnostics (sy_confirmed s) +
      target_bytes stream diagnostics (sy_failed s) +
      undelivered_for stream diagnostics (dw_undelivered (sy_worker s))"

lemmas section_defs = enqueue_def close_begin_def close_end_def take_close_result_def next_item_def
  after_delivery_def after_exception_def client_enqueue_def Let_def

lemma worker_ok_new: "worker_ok (new_system m)"
  by (simp add: worker_ok_def new_system_def new_worker_def)

lemma conserved_new: "conserved stream diagnostics (new_system m)"
  by (simp add: conserved_def new_system_def new_worker_def active_items_def undelivered_for_def)

text \<open>The steps of the thread and the outcomes of an enqueue, one by one.\<close>

lemma worker_thread_cases [consumes 1]:
  fixes s :: "'d delivery_system"
  assumes "worker_thread raises s = Some s'"
  obtains
    (idle_stop) "sy_pc s = Waiting" "may_wake (sy_worker s)"
      "dw_abandoned (sy_worker s) \<or> dw_queue (sy_worker s) = []" "s' = s\<lparr>sy_pc := Stopped\<rparr>"
  | (take_item) i queue where "sy_pc s = Waiting" "\<not> dw_abandoned (sy_worker s)"
      "dw_queue (sy_worker s) = i # queue"
      "s' = s\<lparr>sy_worker := (sy_worker s)\<lparr>dw_queue := queue,
          dw_queued_bytes := dw_queued_bytes (sy_worker s) - item_bytes i,
          dw_active_item := Some i\<rparr>, sy_pc := Checking i\<rparr>"
  | (skip) i where "sy_pc s = Checking i" "dw_abandoned (sy_worker s)" "s' = s\<lparr>sy_pc := Delivered i\<rparr>"
  | (start) i where "sy_pc s = Checking i" "\<not> dw_abandoned (sy_worker s)"
      "s' = s\<lparr>sy_pc := Delivering i (sink_ops i)\<rparr>"
  | (written) i where "sy_pc s = Delivering i []" "s' = s\<lparr>sy_pc := Delivered i\<rparr>"
  | (operate) i op ops where "sy_pc s = Delivering i (op # ops)"
      "s' = s\<lparr>sy_pc := Delivering i ops, sy_sink := sy_sink s @ [op]\<rparr>"
  | (raise) i op ops where "sy_pc s = Delivering i (op # ops)" "s' = s\<lparr>sy_pc := Raised i\<rparr>"
  | (late) i where "sy_pc s = Delivered i" "dw_abandoned (sy_worker s)"
      "s' = s\<lparr>sy_worker := (sy_worker s)\<lparr>dw_active_item := None\<rparr>, sy_pc := Stopped\<rparr>"
  | (confirm) i where "sy_pc s = Delivered i" "\<not> dw_abandoned (sy_worker s)"
      "s' = s\<lparr>sy_worker := (sy_worker s)\<lparr>dw_active_item := None\<rparr>, sy_pc := Waiting,
          sy_confirmed := sy_confirmed s @ [i]\<rparr>"
  | (give_up) i where "sy_pc s = Raised i" "dw_abandoned (sy_worker s)" "s' = s\<lparr>sy_pc := Stopped\<rparr>"
  | (fail) i where "sy_pc s = Raised i" "\<not> dw_abandoned (sy_worker s)"
      "s' = s\<lparr>sy_worker := after_exception i (sy_worker s), sy_pc := Stopped,
          sy_failed := sy_failed s @ [i]\<rparr>"
proof (cases "sy_pc s")
  case Waiting
  then show thesis
    using assms idle_stop take_item
    by (cases "dw_queue (sy_worker s)")
      (auto simp: worker_thread.simps next_item_def Let_def split: if_splits)
next
  case (Checking i)
  then show thesis
    using assms skip start by (auto simp: worker_thread.simps Let_def split: if_splits)
next
  case (Delivering i ops)
  then show thesis
    using assms written operate raise
    by (cases ops) (auto simp: worker_thread.simps Let_def split: if_splits)
next
  case (Delivered i)
  then show thesis
    using assms late confirm
    by (auto simp: worker_thread.simps after_delivery_def Let_def split: if_splits)
next
  case (Raised i)
  then show thesis
    using assms give_up fail
    by (cases "dw_abandoned (sy_worker s)") (auto simp: worker_thread.simps after_exception_def Let_def)
next
  case Stopped
  with assms show thesis by (simp add: worker_thread.simps Let_def)
qed

lemma client_enqueue_cases [consumes 1]:
  fixes s :: "'d delivery_system"
  assumes "client_enqueue i s = (n, s')"
  obtains
    (nothing) "item_bytes i = 0" "n = 0" "s' = s\<lparr>sy_offered := sy_offered s @ [i]\<rparr>"
  | (unconfirmed) "dw_disabled (sy_worker s) \<or> dw_closing (sy_worker s)" "n = 0"
      "s' = s\<lparr>sy_worker := add_item i (sy_worker s), sy_offered := sy_offered s @ [i]\<rparr>"
  | (rejected) "0 < n" "n = item_bytes i"
      "dw_max_queued_bytes (sy_worker s) < dw_queued_bytes (sy_worker s) + n" "s' = s"
  | (queued) "\<not> dw_disabled (sy_worker s)" "\<not> dw_closing (sy_worker s)" "n = 0"
      "dw_queued_bytes (sy_worker s) + item_bytes i \<le> dw_max_queued_bytes (sy_worker s)"
      "s' = s\<lparr>sy_worker := (sy_worker s)\<lparr>dw_queue := dw_queue (sy_worker s) @ [i],
          dw_queued_bytes := dw_queued_bytes (sy_worker s) + item_bytes i\<rparr>,
        sy_accepted := sy_accepted s @ [i], sy_offered := sy_offered s @ [i]\<rparr>"
proof -
  let ?w = "sy_worker s"
  consider "item_bytes i = 0 \<and> value_is_empty (dp_value (di_payload i))"
    | "\<not> (item_bytes i = 0 \<and> value_is_empty (dp_value (di_payload i)))"
      "dw_disabled ?w \<or> dw_closing ?w"
    | "\<not> (item_bytes i = 0 \<and> value_is_empty (dp_value (di_payload i)))"
      "\<not> (dw_disabled ?w \<or> dw_closing ?w)"
      "dw_max_queued_bytes ?w < dw_queued_bytes ?w + item_bytes i"
    | "\<not> (item_bytes i = 0 \<and> value_is_empty (dp_value (di_payload i)))"
      "\<not> (dw_disabled ?w \<or> dw_closing ?w)"
      "\<not> dw_max_queued_bytes ?w < dw_queued_bytes ?w + item_bytes i"
    by blast
  then show thesis
  proof cases
    case 1
    then have eq: "n = 0 \<and> s' = s\<lparr>sy_offered := sy_offered s @ [i]\<rparr>"
      using assms by (simp add: client_enqueue_def enqueue_def)
    show thesis
      by (rule nothing) (use 1 eq in simp_all)
  next
    case 2
    then have eq: "n = 0 \<and> s' = s\<lparr>sy_worker := add_item i ?w, sy_offered := sy_offered s @ [i]\<rparr>"
      using assms unfolding client_enqueue_def enqueue_def Let_def if_not_P [OF 2(1)] if_P [OF 2(2)]
      by simp
    show thesis
      by (rule unconfirmed) (use 2 eq in simp_all)
  next
    case 3
    have eq: "(item_bytes i, s\<lparr>sy_offered :=
        if 0 < item_bytes i then sy_offered s else sy_offered s @ [i]\<rparr>) = (n, s')"
      using assms
      unfolding client_enqueue_def enqueue_def Let_def if_not_P [OF 3(1)] if_not_P [OF 3(2)] if_P [OF 3(3)]
      by auto
    show thesis
    proof (cases "item_bytes i = 0")
      case True
      show thesis by (rule nothing) (use True eq in simp_all)
    next
      case False
      show thesis by (rule rejected) (use False 3 eq in auto)
    qed
  next
    case 4
    then have eq: "n = 0 \<and> s' = s\<lparr>sy_worker := ?w\<lparr>dw_queue := dw_queue ?w @ [i],
        dw_queued_bytes := dw_queued_bytes ?w + item_bytes i\<rparr>,
        sy_accepted := sy_accepted s @ [i], sy_offered := sy_offered s @ [i]\<rparr>"
      using assms
      unfolding client_enqueue_def enqueue_def Let_def if_not_P [OF 4(1)] if_not_P [OF 4(2)] if_not_P [OF 4(3)]
      by simp
    show thesis
      by (rule queued) (use 4 eq in simp_all)
  qed
qed

lemma worker_ok_thread:
  assumes "worker_ok s" "worker_thread raises s = Some s'"
  shows "worker_ok s'"
  using assms(2)
proof (cases rule: worker_thread_cases)
  case idle_stop
  with assms(1) show ?thesis by (auto simp: worker_ok_def may_wake_def Let_def)
next
  case (fail i)
  with assms(1) show ?thesis by (auto simp: worker_ok_def after_exception_def Let_def)
next
  case (take_item i queue)
  with assms(1) show ?thesis by (auto simp: worker_ok_def Let_def)
next
  case (late i)
  with assms(1) show ?thesis by (auto simp: worker_ok_def Let_def)
next
  case (confirm i)
  with assms(1) show ?thesis by (auto simp: worker_ok_def Let_def)
next
  case (give_up i)
  with assms(1) show ?thesis by (auto simp: worker_ok_def Let_def)
qed (use assms(1) in \<open>simp_all add: worker_ok_def Let_def\<close>)

lemma close_end_fields:
  assumes "close_end alive w = (r, w')"
  shows "dw_queue w' = []" "dw_queued_bytes w' = 0" "dw_active_item w' = None"
    "dw_max_queued_bytes w' = dw_max_queued_bytes w" "dw_closing w' = dw_closing w"
    "dw_abandoned w' = (dw_abandoned w \<or> alive \<or> dw_active_item w \<noteq> None)"
    "dw_disabled w' = dw_disabled w" "dw_close_result w' = Some r"
    "dw_failures w' = cr_failures r" "dw_undelivered w' = cr_undelivered r"
    "undelivered_for stream diagnostics (cr_undelivered r) =
      undelivered_for stream diagnostics (dw_undelivered w) +
      target_bytes stream diagnostics (dw_queue w) +
      target_bytes stream diagnostics (active_items w)"
proof -
  have "r = fst (close_end alive w)" "w' = snd (close_end alive w)"
    using assms by simp_all
  then show "dw_queue w' = []" "dw_queued_bytes w' = 0" "dw_active_item w' = None"
    "dw_max_queued_bytes w' = dw_max_queued_bytes w" "dw_closing w' = dw_closing w"
    "dw_abandoned w' = (dw_abandoned w \<or> alive \<or> dw_active_item w \<noteq> None)"
    "dw_disabled w' = dw_disabled w" "dw_close_result w' = Some r"
    "dw_failures w' = cr_failures r" "dw_undelivered w' = cr_undelivered r"
    "undelivered_for stream diagnostics (cr_undelivered r) =
      undelivered_for stream diagnostics (dw_undelivered w) +
      target_bytes stream diagnostics (dw_queue w) +
      target_bytes stream diagnostics (active_items w)"
    by (cases "dw_active_item w"; cases alive;
        simp add: close_end_def Let_def active_items_def)+
qed

lemma close_begin_fields:
  assumes "close_begin w = (None, w')"
  shows "dw_close_result w = None" "w' = w\<lparr>dw_closing := True\<rparr>"
  using assms by (simp_all add: close_begin_def split: option.splits)

lemma close_begin_done: "close_begin w = (Some r, w') \<longleftrightarrow> dw_close_result w = Some r \<and> w' = w"
  by (auto simp: close_begin_def split: option.splits)

lemma take_close_result_fields:
  assumes "take_close_result w = (r, w')"
  shows "w' = w \<and> r = None \<or> dw_close_result w \<noteq> None \<and> r = dw_close_result w \<and>
    \<not> dw_diagnostics_reported w \<and> w' = w\<lparr>dw_diagnostics_reported := True\<rparr>"
  using assms by (auto simp: take_close_result_def split: if_splits)

lemma worker_ok_step:
  assumes "worker_ok s" "step s l s'"
  shows "worker_ok s'"
  using assms(2,1)
proof (cases rule: step.cases)
  case (enqueue i n)
  show ?thesis
    using enqueue(2)
  proof (cases rule: client_enqueue_cases)
    case queued
    with assms(1) show ?thesis
      by (cases "sy_pc s") (auto simp: worker_ok_def Let_def)
  next
    case unconfirmed
    with assms(1) show ?thesis
      by (cases "sy_pc s") (auto simp: worker_ok_def Let_def)
  qed (use assms(1) in \<open>simp_all add: worker_ok_def\<close>)
next
  case (close_end alive r w)
  show ?thesis
    using assms(1) close_end(2-4) close_end_fields [OF close_end(5)]
    by (cases "sy_pc s") (auto simp: worker_ok_def Let_def)
next
  case (close_begin w)
  show ?thesis
    using assms(1) close_begin(2) close_begin_fields [OF close_begin(3)]
    by (cases "sy_pc s") (simp_all add: worker_ok_def Let_def)
next
  case (take r w)
  show ?thesis
    using take_close_result_fields [OF take(3)]
  proof
    assume "w = sy_worker s \<and> r = None"
    with assms(1) take(2) show ?thesis by simp
  next
    assume "dw_close_result (sy_worker s) \<noteq> None \<and> r = dw_close_result (sy_worker s) \<and>
      \<not> dw_diagnostics_reported (sy_worker s) \<and>
      w = (sy_worker s)\<lparr>dw_diagnostics_reported := True\<rparr>"
    with assms(1) take(2) show ?thesis
      by (cases "sy_pc s") (simp_all add: worker_ok_def Let_def)
  qed
next
  case (close_done r w)
  then have "s' = s" by (simp add: close_begin_done)
  with assms(1) show ?thesis by simp
qed (rule worker_ok_thread)

lemma conserved_thread:
  assumes "worker_ok s" "conserved stream diagnostics s" "worker_thread raises s = Some s'"
  shows "conserved stream diagnostics s'"
  using assms(3)
proof (cases rule: worker_thread_cases)
  case (fail i)
  with assms(1,2) show ?thesis
    by (simp add: worker_ok_def conserved_def active_items_def after_exception_def Let_def)
qed (use assms(1,2) in \<open>simp_all add: worker_ok_def conserved_def active_items_def Let_def\<close>)

lemma conserved_step:
  assumes "worker_ok s" "conserved stream diagnostics s" "step s l s'"
  shows "conserved stream diagnostics s'"
  using assms(3,1,2)
proof (cases rule: step.cases)
  case (enqueue i n)
  show ?thesis
    using enqueue(2)
    by (cases rule: client_enqueue_cases)
      (use assms(2) in \<open>simp_all add: conserved_def active_items_def\<close>)
next
  case (close_end alive r w)
  show ?thesis
    using assms(2) close_end(2) close_end_fields [OF close_end(5)]
    by (simp add: conserved_def active_items_def)
next
  case (close_begin w)
  show ?thesis
    using assms(2) close_begin(2) close_begin_fields [OF close_begin(3)]
    by (simp add: conserved_def active_items_def)
next
  case (take r w)
  show ?thesis
    using assms(2) take(2) take_close_result_fields [OF take(3)]
    by (auto simp: conserved_def active_items_def)
next
  case (close_done r w)
  then have "s' = s" by (simp add: close_begin_done)
  with assms(2) show ?thesis by simp
next
  case (worker raises)
  with assms(1,2) show ?thesis by (blast intro: conserved_thread)
qed

lemma reachable_ok:
  assumes "run (new_system m) labels s"
  shows "worker_ok s \<and> conserved stream diagnostics s"
  using assms
proof (rule run_invariant)
  show "worker_ok (new_system m) \<and> conserved stream diagnostics (new_system m)"
    by (simp add: worker_ok_new conserved_new)
qed (use worker_ok_step conserved_step in blast)

section \<open>Order\<close>

abbreviation ops_of :: "'d delivery_item list \<Rightarrow> sink_op list" where
  "ops_of items \<equiv> concat (map sink_ops items)"

text \<open>Items taken so far and the queue are the accepted items, until a discard drops the rest.\<close>

definition lined_up :: "'d delivery_system \<Rightarrow> 'd delivery_item list \<Rightarrow> bool" where
  "lined_up s items \<longleftrightarrow>
    (let w = sy_worker s
     in items @ dw_queue w = sy_accepted s \<or>
        dw_queue w = [] \<and> prefix items (sy_accepted s) \<and> (dw_closing w \<or> dw_disabled w))"

definition in_order :: "'d delivery_system \<Rightarrow> bool" where
  "in_order s \<longleftrightarrow>
    (let conf = sy_confirmed s; sink = sy_sink s
     in case sy_pc s of
          Waiting \<Rightarrow> lined_up s conf \<and> sink = ops_of conf
        | Checking i \<Rightarrow> lined_up s (conf @ [i]) \<and> sink = ops_of conf
        | Delivering i ops \<Rightarrow> lined_up s (conf @ [i]) \<and> prefix (ops_of conf) sink \<and>
            sink @ ops = ops_of (conf @ [i])
        | Delivered i \<Rightarrow> lined_up s (conf @ [i]) \<and>
            (sink = ops_of (conf @ [i]) \<or> dw_abandoned (sy_worker s) \<and> sink = ops_of conf)
        | Raised i \<Rightarrow> lined_up s (conf @ [i]) \<and>
            prefix (ops_of conf) sink \<and> prefix sink (ops_of (conf @ [i]))
        | Stopped \<Rightarrow> prefix conf (sy_accepted s) \<and>
            prefix (ops_of conf) sink \<and> prefix sink (ops_of (sy_accepted s)))"

lemma ops_of_prefix: "prefix items items' \<Longrightarrow> prefix (ops_of items) (ops_of items')"
  by (auto simp: prefix_def)

lemma lined_up_prefix: "lined_up s items \<Longrightarrow> prefix items (sy_accepted s)"
  unfolding lined_up_def Let_def by (metis prefix_def)

lemma in_order_overall:
  assumes "in_order s"
  shows "prefix (ops_of (sy_confirmed s)) (sy_sink s) \<and> prefix (sy_sink s) (ops_of (sy_accepted s)) \<and>
    prefix (sy_confirmed s) (sy_accepted s)"
proof -
  have mid: "prefix (ops_of conf) sink \<and> prefix sink (ops_of (sy_accepted s)) \<and>
      prefix conf (sy_accepted s)"
    if "lined_up s (conf @ [i])" "prefix (ops_of conf) sink" "prefix sink (ops_of (conf @ [i]))"
    for conf sink i
    using that lined_up_prefix [OF that(1)] ops_of_prefix [OF lined_up_prefix [OF that(1)]]
    by (meson append_prefixD prefix_order.trans)
  show ?thesis
  proof (cases "sy_pc s")
    case Waiting
    with assms show ?thesis
      using lined_up_prefix [of s] ops_of_prefix by (auto simp: in_order_def Let_def)
  next
    case (Checking i)
    with assms show ?thesis
      using mid [of "sy_confirmed s" i "ops_of (sy_confirmed s)"] by (simp add: in_order_def Let_def)
  next
    case (Delivering i ops)
    with assms have *: "lined_up s (sy_confirmed s @ [i])" "sy_sink s @ ops = ops_of (sy_confirmed s @ [i])"
      by (simp_all add: in_order_def Let_def)
    then have "prefix (sy_sink s) (ops_of (sy_confirmed s @ [i]))"
      by (metis prefixI)
    then show ?thesis
      using mid [OF *(1), of "sy_sink s"] assms Delivering by (simp add: in_order_def Let_def)
  next
    case (Delivered i)
    with assms show ?thesis
      using mid [of "sy_confirmed s" i "sy_sink s"] by (auto simp: in_order_def Let_def)
  next
    case (Raised i)
    with assms show ?thesis
      using mid [of "sy_confirmed s" i "sy_sink s"] by (simp add: in_order_def Let_def)
  next
    case Stopped
    with assms show ?thesis by (simp add: in_order_def Let_def)
  qed
qed

lemma lined_up_append:
  "lined_up s items \<Longrightarrow> \<not> dw_closing (sy_worker s) \<Longrightarrow> \<not> dw_disabled (sy_worker s) \<Longrightarrow>
    sy_accepted s' = sy_accepted s @ [i] \<Longrightarrow>
    dw_queue (sy_worker s') = dw_queue (sy_worker s) @ [i] \<Longrightarrow> lined_up s' items"
  by (auto simp: lined_up_def Let_def)

lemma lined_up_keep:
  "lined_up s items \<Longrightarrow> sy_accepted s' = sy_accepted s \<Longrightarrow>
    dw_queue (sy_worker s') = dw_queue (sy_worker s) \<Longrightarrow>
    (dw_closing (sy_worker s) \<longrightarrow> dw_closing (sy_worker s')) \<Longrightarrow>
    (dw_disabled (sy_worker s) \<longrightarrow> dw_disabled (sy_worker s')) \<Longrightarrow> lined_up s' items"
  by (auto simp: lined_up_def Let_def)

lemma lined_up_discard:
  "lined_up s items \<Longrightarrow> sy_accepted s' = sy_accepted s \<Longrightarrow> dw_queue (sy_worker s') = [] \<Longrightarrow>
    dw_closing (sy_worker s') \<or> dw_disabled (sy_worker s') \<Longrightarrow> lined_up s' items"
  using lined_up_prefix [of s items] unfolding lined_up_def [of s'] Let_def by simp

lemma in_order_client:
  assumes "in_order s" "sy_pc s' = sy_pc s" "sy_confirmed s' = sy_confirmed s" "sy_sink s' = sy_sink s"
    and "dw_abandoned (sy_worker s) \<longrightarrow> dw_abandoned (sy_worker s')"
    and "\<And>items. lined_up s items \<Longrightarrow> lined_up s' items"
    and "prefix (sy_accepted s) (sy_accepted s')"
  shows "in_order s'"
proof (cases "sy_pc s")
  case Stopped
  then show ?thesis
    using assms(1-4,7) ops_of_prefix [OF assms(7)]
    by (auto simp: in_order_def Let_def intro: prefix_order.trans)
qed (use assms in \<open>auto simp: in_order_def Let_def\<close>)

lemma in_order_thread:
  assumes "worker_ok s" "in_order s" "worker_thread raises s = Some s'"
  shows "in_order s'"
  using assms(3)
proof (cases rule: worker_thread_cases)
  case idle_stop
  then show ?thesis
    using assms(2) in_order_overall [OF assms(2)] by (simp add: in_order_def Let_def)
next
  case (take_item i queue)
  with assms(2) show ?thesis by (auto simp: in_order_def lined_up_def Let_def)
next
  case (operate i op ops)
  with assms(2) show ?thesis
    by (auto simp: in_order_def lined_up_def Let_def intro: prefix_order.trans)
next
  case (raise i op ops)
  then have "sy_sink s @ op # ops = ops_of (sy_confirmed s @ [i])"
    using assms(2) by (simp add: in_order_def Let_def)
  then have "prefix (sy_sink s) (ops_of (sy_confirmed s @ [i]))"
    by (metis prefixI)
  with raise assms(2) show ?thesis by (simp add: in_order_def lined_up_def Let_def)
next
  case (late i)
  with assms(2) show ?thesis
    using in_order_overall [OF assms(2)] by (simp add: in_order_def Let_def)
next
  case (give_up i)
  with assms(2) show ?thesis
    using in_order_overall [OF assms(2)] by (simp add: in_order_def Let_def)
next
  case (fail i)
  with assms(2) show ?thesis
    using in_order_overall [OF assms(2)] by (simp add: in_order_def Let_def)
qed (use assms(1,2) in \<open>auto simp: in_order_def lined_up_def Let_def\<close>)

lemma in_order_step:
  assumes "worker_ok s" "in_order s" "step s l s'"
  shows "in_order s'"
  using assms(3)
proof (cases rule: step.cases)
  case (enqueue i n)
  show ?thesis
    using enqueue(2)
  proof (cases rule: client_enqueue_cases)
    case queued
    then show ?thesis
      by (intro in_order_client [OF assms(2)]) (auto intro: lined_up_append)
  qed (intro in_order_client [OF assms(2)]; auto intro: lined_up_keep)+
next
  case (close_end alive r w)
  note fields = close_end_fields [OF close_end(5)]
  have "dw_closing (sy_worker s)"
    using assms(1) close_end(3) by (simp add: worker_ok_def Let_def)
  then show ?thesis
    using close_end(2) fields
    by (intro in_order_client [OF assms(2)]) (auto intro: lined_up_discard)
next
  case (close_begin w)
  then show ?thesis
    using close_begin_fields [OF close_begin(3)]
    by (intro in_order_client [OF assms(2)]) (auto intro: lined_up_keep)
next
  case (take r w)
  then show ?thesis
    using take_close_result_fields [OF take(3)]
    by (intro in_order_client [OF assms(2)]) (auto intro: lined_up_keep)
next
  case (close_done r w)
  then have "s' = s" by (simp add: close_begin_done)
  with assms(2) show ?thesis by simp
qed (use assms in_order_thread in blast)

lemma reachable_in_order:
  assumes "run (new_system m) labels s"
  shows "worker_ok s \<and> in_order s"
  using assms
proof (rule run_invariant)
  have "in_order (new_system m)"
    by (simp add: in_order_def lined_up_def new_system_def new_worker_def)
  with worker_ok_new show "worker_ok (new_system m) \<and> in_order (new_system m)"
    by blast
qed (use worker_ok_step in_order_step in blast)

section \<open>Draining\<close>

text \<open>The steps the thread can still take once no item enters the queue.\<close>

fun pc_work :: "'d thread_pc \<Rightarrow> nat" where
  "pc_work Waiting = 1"
| "pc_work (Checking i) = 6"
| "pc_work (Delivering i ops) = 3 + length ops"
| "pc_work (Delivered i) = 2"
| "pc_work (Raised i) = 1"
| "pc_work Stopped = 0"

definition remaining_work :: "'d delivery_system \<Rightarrow> nat" where
  "remaining_work s = 6 * length (dw_queue (sy_worker s)) + pc_work (sy_pc s)"

lemma length_sink_ops: "length (sink_ops i) \<le> 2"
  by (simp add: sink_ops_def)

lemma worker_thread_decreases:
  assumes "worker_thread raises s = Some s'"
  shows "Suc (remaining_work s') \<le> remaining_work s"
  using assms
proof (cases rule: worker_thread_cases)
  case (start i)
  then show ?thesis
    using length_sink_ops [of i] by (simp add: remaining_work_def)
next
  case (fail i)
  then show ?thesis by (simp add: remaining_work_def after_exception_def)
qed (simp_all add: remaining_work_def)

lemma worker_thread_closing:
  assumes "worker_thread raises s = Some s'"
  shows "dw_closing (sy_worker s') = dw_closing (sy_worker s)"
  using assms
  by (cases rule: worker_thread_cases) (simp_all add: after_exception_def)

lemma closing_step:
  assumes "dw_closing (sy_worker s)" "step s l s'"
  shows "dw_closing (sy_worker s') \<and>
    (if l = Lab_worker then 1 else 0) + remaining_work s' \<le> remaining_work s"
  using assms(2)
proof (cases rule: step.cases)
  case (enqueue i n)
  from enqueue(2) show ?thesis
    by (cases rule: client_enqueue_cases)
      (use assms(1) enqueue(1) in \<open>simp_all add: remaining_work_def\<close>)
next
  case (close_end alive r w)
  then show ?thesis
    using assms(1) close_end_fields [OF close_end(5)] by (simp add: remaining_work_def)
next
  case (close_begin w)
  then show ?thesis
    using assms(1) close_begin_fields [OF close_begin(3)] by (simp add: remaining_work_def)
next
  case (take r w)
  then show ?thesis
    using assms(1) take_close_result_fields [OF take(3)] by (auto simp: remaining_work_def)
next
  case (close_done r w)
  then show ?thesis
    using assms(1) by (simp add: close_begin_done remaining_work_def)
next
  case (worker raises)
  then show ?thesis
    using assms(1) worker_thread_decreases [OF worker(2)] worker_thread_closing [OF worker(2)] by simp
qed

lemma worker_thread_enabled:
  assumes "dw_closing (sy_worker s)" "sy_pc s \<noteq> Stopped"
  shows "worker_thread raises s \<noteq> None"
proof (cases "sy_pc s")
  case Waiting
  with assms(1) show ?thesis
    by (cases "next_item (sy_worker s)"; cases "fst (next_item (sy_worker s))")
      (simp_all add: worker_thread.simps may_wake_def)
next
  case (Delivering i ops)
  then show ?thesis by (cases ops) (simp_all add: worker_thread.simps Let_def)
qed (use assms in \<open>simp_all add: worker_thread.simps after_delivery_def Let_def\<close>)

section \<open>Handing out the diagnostics\<close>

abbreviation reported :: "'d delivery_system \<Rightarrow> bool" where
  "reported s \<equiv> dw_diagnostics_reported (sy_worker s)"

lemma close_end_reported:
  "close_end alive w = (r, w') \<Longrightarrow> dw_diagnostics_reported w' = dw_diagnostics_reported w"
  by (auto simp: close_end_def Let_def split: option.splits if_splits)

lemma worker_thread_reported: "worker_thread raises s = Some s' \<Longrightarrow> reported s' = reported s"
  by (erule worker_thread_cases) (simp_all add: after_exception_def)

lemma reported_step:
  assumes "step s l s'"
  shows "(reported s \<longrightarrow> reported s' \<and> (\<forall>r. l \<noteq> Lab_take (Some r))) \<and>
    ((\<exists>r. l = Lab_take (Some r)) \<longrightarrow> reported s')"
  using assms
proof (cases rule: step.cases)
  case (enqueue i n)
  from enqueue(2) show ?thesis
    by (cases rule: client_enqueue_cases) (use enqueue(1) in simp_all)
next
  case (close_begin w)
  then show ?thesis
    using close_begin_fields [OF close_begin(3)] by simp
next
  case (take r w)
  then show ?thesis
    using take_close_result_fields [OF take(3)] by auto
qed (auto simp: close_begin_done close_end_reported dest: worker_thread_reported)

section \<open>A run\<close>

text \<open>Two items, a sink that blocks on the first, a close that abandons the thread.\<close>

definition demo_item :: "nat \<Rightarrow> bool \<Rightarrow> unit delivery_item" where
  "demo_item c flush =
    \<lparr>di_stream = Echo_stdout, di_payload = \<lparr>dp_value = Text_value [c, c], dp_source_bytes = 2\<rparr>,
      di_flush = flush, di_diagnostics = None\<rparr>"

definition demo_start :: "unit delivery_system" where
  "demo_start = snd (client_enqueue (demo_item 98 False) (snd (client_enqueue (demo_item 97 True) (new_system 4))))"

definition demo_blocked :: "unit delivery_system" where
  "demo_blocked = the (worker_thread False (the (worker_thread False (the (worker_thread False demo_start)))))"

definition demo_closing :: "unit delivery_system" where
  "demo_closing = demo_blocked\<lparr>sy_worker := snd (close_begin (sy_worker demo_blocked)), sy_closers := 1\<rparr>"

definition demo_closed :: "unit delivery_system" where
  "demo_closed = demo_closing\<lparr>sy_worker := snd (close_end True (sy_worker demo_closing)), sy_closers := 0\<rparr>"

lemmas demo_defs = demo_item_def demo_start_def demo_blocked_def demo_closing_def demo_closed_def
  new_system_def new_worker_def section_defs sink_ops_def may_wake_def

lemma demo_worker_steps:
  "\<exists>s1 s2. worker_thread False demo_start = Some s1 \<and> worker_thread False s1 = Some s2 \<and>
    worker_thread False s2 = Some demo_blocked"
  by (simp add: demo_defs worker_thread.simps)

lemma demo_run_start:
  "run (new_system 4) [Lab_enqueue (demo_item 97 True) 0, Lab_enqueue (demo_item 98 False) 0] demo_start"
proof -
  have "step (new_system 4) (Lab_enqueue (demo_item 97 True) 0)
      (snd (client_enqueue (demo_item 97 True) (new_system 4)))"
    by (rule step.enqueue) (simp add: demo_defs)
  moreover have "step (snd (client_enqueue (demo_item 97 True) (new_system 4)))
      (Lab_enqueue (demo_item 98 False) 0) demo_start"
    unfolding demo_start_def by (rule step.enqueue) (simp add: demo_defs)
  ultimately show ?thesis
    using run_snoc [OF run_snoc [OF run_nil]] by fastforce
qed

lemma demo_run_blocked:
  "run (new_system 4) [Lab_enqueue (demo_item 97 True) 0, Lab_enqueue (demo_item 98 False) 0,
    Lab_worker, Lab_worker, Lab_worker] demo_blocked"
proof -
  obtain s1 s2 where "step demo_start Lab_worker s1" "step s1 Lab_worker s2"
    "step s2 Lab_worker demo_blocked"
    using demo_worker_steps step.worker by blast
  then show ?thesis
    using run_snoc [OF run_snoc [OF run_snoc [OF demo_run_start]]] by fastforce
qed

lemma demo_step_closing: "step demo_blocked (Lab_close_begin None) demo_closing"
proof -
  have "close_begin (sy_worker demo_blocked) = (None, sy_worker demo_closing)"
    by (simp add: demo_defs worker_thread.simps)
  from step.close_begin [OF this] show ?thesis
    by (simp add: demo_defs worker_thread.simps)
qed

lemma demo_run_closing:
  "run (new_system 4) [Lab_enqueue (demo_item 97 True) 0, Lab_enqueue (demo_item 98 False) 0,
    Lab_worker, Lab_worker, Lab_worker, Lab_close_begin None] demo_closing"
  using run_snoc [OF demo_run_blocked demo_step_closing] by simp

lemma demo_step_closed:
  "step demo_closing (Lab_close_end \<lparr>cr_failures = [], cr_undelivered =
    [\<lparr>ub_stream = Echo_stdout, ub_byte_count = 4, ub_diagnostics = None\<rparr>]\<rparr>) demo_closed"
proof -
  have closed: "close_end True (sy_worker demo_closing) = (\<lparr>cr_failures = [], cr_undelivered =
      [\<lparr>ub_stream = Echo_stdout, ub_byte_count = 4, ub_diagnostics = None\<rparr>]\<rparr>, sy_worker demo_closed)"
    by (simp add: demo_defs worker_thread.simps add_item_def add_undelivered_def discard_queued_def)
  have "0 < sy_closers demo_closing" "True \<or> sy_pc demo_closing = Stopped"
    by (simp_all add: demo_closing_def)
  from step.close_end [OF this closed]
  have "step demo_closing (Lab_close_end \<lparr>cr_failures = [], cr_undelivered =
      [\<lparr>ub_stream = Echo_stdout, ub_byte_count = 4, ub_diagnostics = None\<rparr>]\<rparr>)
    (demo_closing\<lparr>sy_worker := sy_worker demo_closed, sy_closers := sy_closers demo_closing - 1\<rparr>)" .
  moreover have "demo_closing\<lparr>sy_worker := sy_worker demo_closed,
      sy_closers := sy_closers demo_closing - 1\<rparr> = demo_closed"
    by (simp add: demo_closed_def demo_closing_def)
  ultimately show ?thesis by simp
qed

section \<open>Properties\<close>

text \<open>In every reachable state the byte counter is the size of the queued payloads and never
  exceeds the bound; once a close has reported or abandoned the thread, nothing is queued and no item
  enters the queue again.\<close>

theorem queue_is_bounded:
  assumes "run (new_system m) labels s"
  shows "dw_queued_bytes (sy_worker s) = sum_list (map item_bytes (dw_queue (sy_worker s))) \<and>
    dw_queued_bytes (sy_worker s) \<le> dw_max_queued_bytes (sy_worker s) \<and>
    (dw_close_result (sy_worker s) \<noteq> None \<or> dw_abandoned (sy_worker s) \<longrightarrow>
      dw_queue (sy_worker s) = [] \<and>
      (\<forall>i. dw_queue (snd (enqueue i (sy_worker s))) = []))"
proof -
  have "worker_ok s"
    using reachable_ok [OF assms] by blast
  then show ?thesis
    by (auto simp: worker_ok_def enqueue_def Let_def)
qed

lemma queue_is_bounded_witness:
  "dw_queued_bytes (sy_worker demo_start) \<le> dw_max_queued_bytes (sy_worker demo_start)"
  using queue_is_bounded [OF demo_run_start] by blast

text \<open>(C5) When a close reports, the bytes of every drain that were offered and not rejected for load
  are exactly those confirmed, those whose write failed and those reported as undelivered for that
  stream and that diagnostics sink: no byte is lost or counted twice.\<close>

theorem close_accounts_for_every_byte:
  assumes "run (new_system m) labels s" "step s (Lab_close_end r) s'"
  shows "target_bytes stream diagnostics (sy_offered s) =
    target_bytes stream diagnostics (sy_confirmed s) + target_bytes stream diagnostics (sy_failed s) +
    undelivered_for stream diagnostics (cr_undelivered r)"
proof -
  have "conserved stream diagnostics s"
    using reachable_ok [OF assms(1)] by blast
  with assms(2) show ?thesis
    by (auto simp: conserved_def elim!: step.cases dest!: close_end_fields(11)
        [where stream = stream and diagnostics = diagnostics])
qed

lemma close_accounts_for_every_byte_witness:
  "target_bytes Echo_stdout None (sy_offered demo_closing) =
    target_bytes Echo_stdout None (sy_confirmed demo_closing) +
    target_bytes Echo_stdout None (sy_failed demo_closing) + 4"
  using close_accounts_for_every_byte
      [OF demo_run_closing demo_step_closed, where stream = Echo_stdout and diagnostics = None]
  by (simp add: undelivered_for_def)

text \<open>(C21) Under every interleaving the operations that reach the sinks are those of the accepted
  items, in the order in which they were accepted, each at most once; a confirmed item's operations
  all reached them, and the confirmed items are an initial part of the accepted ones.\<close>

theorem delivery_is_fifo:
  assumes "run (new_system m) labels s"
  shows "prefix (ops_of (sy_confirmed s)) (sy_sink s) \<and> prefix (sy_sink s) (ops_of (sy_accepted s)) \<and>
    prefix (sy_confirmed s) (sy_accepted s)"
  using reachable_in_order [OF assms] in_order_overall by blast

lemma delivery_is_fifo_witness:
  "prefix (sy_sink demo_blocked) (ops_of (sy_accepted demo_blocked)) \<and>
    sy_sink demo_blocked = [Sink_write Echo_stdout (Text_value [97, 97])]"
  using delivery_is_fifo [OF demo_run_blocked] by (simp add: demo_defs worker_thread.simps)

text \<open>(C37) Once a close has begun, the thread has a step until it is stopped, whatever the sink
  does, and the number of its steps is bounded by the work queued at that moment, however the other
  threads interleave: if the sink operations return, the drain ends.\<close>

theorem closing_worker_stops:
  assumes "run s labels s'" "dw_closing (sy_worker s)"
  shows "length (filter (\<lambda>l. l = Lab_worker) labels) + remaining_work s' \<le> remaining_work s \<and>
    (sy_pc s' \<noteq> Stopped \<longrightarrow> (\<forall>raises. worker_thread raises s' \<noteq> None))"
proof -
  have "dw_closing (sy_worker s') \<and>
      length (filter (\<lambda>l. l = Lab_worker) labels) + remaining_work s' \<le> remaining_work s"
    using assms
  proof (induction rule: run.induct)
    case (run_snoc s labels s' l s'')
    then show ?case
      using closing_step [of s' l s''] by (auto split: if_splits)
  qed simp
  then show ?thesis
    using worker_thread_enabled by blast
qed

lemma closing_worker_stops_witness:
  "remaining_work demo_closed \<le> remaining_work demo_closing"
proof -
  have "dw_closing (sy_worker demo_closing)"
    by (simp add: demo_defs worker_thread.simps)
  then show ?thesis
    using closing_worker_stops [OF run_snoc [OF run_nil demo_step_closed]] by simp
qed

text \<open>The close diagnostics are handed out at most once in any run.\<close>

lemma close_result_taken_once:
  assumes "run (new_system m) labels s"
  shows "length (filter (\<lambda>l. \<exists>r. l = Lab_take (Some r)) labels) \<le> 1"
proof -
  have "length (filter (\<lambda>l. \<exists>r. l = Lab_take (Some r)) labels) \<le> (if reported s then 1 else 0)"
    using assms
  proof (induction "new_system m :: 'a delivery_system" labels s rule: run.induct)
    case (run_snoc labels s' l s'')
    then show ?case
      using reported_step [OF run_snoc(3)] by (auto split: if_splits)
  qed simp
  then show ?thesis
    by (auto split: if_splits)
qed

end
