(* ===== verification/Redaction.thy ===== *)
theory Redaction
  imports Py_Dict "HOL-Library.Product_Lexorder"
begin

text \<open>
  Redaction of exported text (\<open>cuprum/redaction.py\<close>).  The regular-expression engine is a parameter:
  for a compiled pattern and a text it returns the spans of \<open>finditer\<close> or the name of the exception
  it raises.
\<close>

section \<open>Rules\<close>

type_synonym span = "nat \<times> nat"

datatype rule_kind = Literal_rule | Pattern_rule

datatype redaction_error =
    Redaction_failed rule_kind nat ustr
  | Not_a_string
  | Empty_literal
  | Not_a_pattern

text \<open>A value handed to a constructor: a string, a compiled text pattern or something else.\<close>

datatype 'p rule_value = Str_value ustr | Pattern_value 'p | Other_value

datatype 'a one_or_many = One 'a | Many "'a list"

fun rule_values :: "'a one_or_many \<Rightarrow> 'a list" where
  "rule_values (One v) = [v]"
| "rule_values (Many vs) = vs"

fun string_of :: "'p rule_value \<Rightarrow> redaction_error + ustr" where
  "string_of (Str_value s) = Inr s"
| "string_of v = Inl Not_a_string"

fun pattern_of :: "'p rule_value \<Rightarrow> redaction_error + 'p" where
  "pattern_of (Pattern_value p) = Inr p"
| "pattern_of v = Inl Not_a_pattern"

text \<open>\<open>sorted(values, key=len, reverse=True)\<close> keeps equal lengths in order.\<close>

definition normalize_literals :: "'p rule_value one_or_many \<Rightarrow> redaction_error + ustr list" where
  "normalize_literals literals =
    rbind (traverse string_of (rule_values literals)) (\<lambda>values.
      if [] \<in> set values then Inl Empty_literal
      else Inr (sort_key (\<lambda>v. - int (length v)) values))"

definition normalize_patterns :: "'p rule_value one_or_many \<Rightarrow> redaction_error + 'p list" where
  "normalize_patterns patterns = traverse pattern_of (rule_values patterns)"

record 'p redaction_policy =
  rp_literals :: "ustr list"
  rp_patterns :: "'p list"
  rp_mask :: ustr

definition default_mask :: ustr where
  "default_mask = lit ''[REDACTED]''"

definition new_redaction_policy ::
  "'p rule_value one_or_many \<Rightarrow> 'p rule_value one_or_many \<Rightarrow> 'p rule_value \<Rightarrow>
    redaction_error + 'p redaction_policy" where
  "new_redaction_policy literals patterns masking =
    rbind (normalize_literals literals) (\<lambda>literals.
    rbind (normalize_patterns patterns) (\<lambda>patterns.
    rbind (string_of masking) (\<lambda>masking.
    Inr \<lparr>rp_literals = literals, rp_patterns = patterns, rp_mask = masking\<rparr>)))"

section \<open>Matching\<close>

text \<open>\<open>str.find(value, literal, start)\<close> of a non-empty literal.\<close>

definition find_literal :: "ustr \<Rightarrow> ustr \<Rightarrow> nat \<Rightarrow> nat option" where
  "find_literal value literal start =
    find (\<lambda>i. prefix literal (drop i value)) [start..<Suc (length value) - length literal]"

lemma find_literal_SomeD:
  "find_literal value literal start = Some i \<Longrightarrow>
    start \<le> i \<and> i + length literal \<le> length value \<and> prefix literal (drop i value)"
  by (auto simp: find_literal_def find_Some_iff)

function match_loop :: "ustr \<Rightarrow> ustr \<Rightarrow> nat \<Rightarrow> span list" where
  "match_loop literal value search_from =
    (if search_from + length literal \<le> length value then
       (case find_literal value literal search_from of
          None \<Rightarrow> []
        | Some start \<Rightarrow> (start, start + length literal) # match_loop literal value (start + 1))
     else [])"
  by pat_completeness auto
termination
  by (relation "measure (\<lambda>(literal, value, search_from). Suc (length value) - search_from)")
    (auto dest!: find_literal_SomeD)

declare match_loop.simps [simp del]

definition literal_match_spans :: "ustr \<Rightarrow> ustr \<Rightarrow> span list" where
  "literal_match_spans literal value = match_loop literal value 0"

text \<open>The rules in order; the first that raises ends the collection.\<close>

fun collect_from ::
  "nat \<Rightarrow> ('r \<Rightarrow> ustr \<Rightarrow> ustr + span list) \<Rightarrow> rule_kind \<Rightarrow> ustr \<Rightarrow> 'r list \<Rightarrow>
    redaction_error + span list" where
  "collect_from index matcher kind value [] = Inr []"
| "collect_from index matcher kind value (rule # rules) =
    (case matcher rule value of
       Inl error_type \<Rightarrow> Inl (Redaction_failed kind index error_type)
     | Inr spans \<Rightarrow>
         rbind (collect_from (Suc index) matcher kind value rules) (\<lambda>more. Inr (spans @ more)))"

definition collect_rule_spans ::
  "('r \<Rightarrow> ustr \<Rightarrow> ustr + span list) \<Rightarrow> rule_kind \<Rightarrow> ustr \<Rightarrow> 'r list \<Rightarrow> redaction_error + span list" where
  "collect_rule_spans = collect_from 0"

section \<open>Merging\<close>

fun merge_loop :: "span list \<Rightarrow> span list \<Rightarrow> span list" where
  "merge_loop merged [] = merged"
| "merge_loop merged ((start, stop) # spans) =
    (if merged \<noteq> [] \<and> start \<le> snd (last merged)
     then merge_loop (butlast merged @ [(fst (last merged), max (snd (last merged)) stop)]) spans
     else merge_loop (merged @ [(start, stop)]) spans)"

definition merge_nonzero_spans :: "span list \<Rightarrow> span list" where
  "merge_nonzero_spans = merge_loop []"

definition bisect_right :: "nat list \<Rightarrow> nat \<Rightarrow> nat" where
  "bisect_right starts position = length (takeWhile (\<lambda>s. s \<le> position) starts)"

definition standalone_zero_width_spans :: "nat set \<Rightarrow> span list \<Rightarrow> span list" where
  "standalone_zero_width_spans positions nonzero_spans =
    map (\<lambda>position. (position, position))
      (filter (\<lambda>position.
          let found = bisect_right (map fst nonzero_spans) position
          in found = 0 \<or> snd (nonzero_spans ! (found - 1)) < position)
        (sorted_list_of_set positions))"

definition merge_overlapping_spans :: "span list \<Rightarrow> span list" where
  "merge_overlapping_spans spans =
    (let ordered_spans = sort spans;
         nonzero_spans = merge_nonzero_spans (filter (\<lambda>(start, stop). start \<noteq> stop) ordered_spans);
         zero_width_positions = fst ` set (filter (\<lambda>(start, stop). start = stop) ordered_spans)
     in sort (nonzero_spans @ standalone_zero_width_spans zero_width_positions nonzero_spans))"

section \<open>Application\<close>

fun masked_pieces :: "ustr \<Rightarrow> ustr \<Rightarrow> nat \<Rightarrow> span list \<Rightarrow> ustr list" where
  "masked_pieces value masking cursor [] = [drop cursor value]"
| "masked_pieces value masking cursor ((start, stop) # spans) =
    drop cursor (take start value) # masking # masked_pieces value masking stop spans"

definition apply_text ::
  "('p \<Rightarrow> ustr \<Rightarrow> ustr + span list) \<Rightarrow> 'p redaction_policy \<Rightarrow> ustr \<Rightarrow> redaction_error + ustr" where
  "apply_text finditer p value =
    (if rp_literals p = [] \<and> rp_patterns p = [] then Inr value
     else
       rbind (collect_rule_spans (\<lambda>l v. Inr (literal_match_spans l v)) Literal_rule value (rp_literals p))
         (\<lambda>literal_spans.
       rbind (collect_rule_spans finditer Pattern_rule value (rp_patterns p)) (\<lambda>pattern_spans.
         let merged_spans = merge_overlapping_spans (literal_spans @ pattern_spans)
         in if merged_spans = [] then Inr value
            else Inr (concat (masked_pieces value (rp_mask p) 0 merged_spans)))))"

text \<open>The text fields of an event; \<open>ev_rest\<close> stands for the fields that are left alone.\<close>

datatype 'o text_or_other = Text_item ustr | Other_item 'o

record ('e, 't, 'x) exec_event =
  ev_argv :: "ustr list"
  ev_env :: "(ustr, 'e text_or_other) pydict option"
  ev_tags :: "(ustr, 't text_or_other) pydict"
  ev_line :: "ustr option"
  ev_note :: "ustr option"
  ev_rest :: 'x

fun redact_item ::
  "(ustr \<Rightarrow> redaction_error + ustr) \<Rightarrow> 'o text_or_other \<Rightarrow> redaction_error + 'o text_or_other" where
  "redact_item apply (Text_item s) = rbind (apply s) (\<lambda>s. Inr (Text_item s))"
| "redact_item apply (Other_item v) = Inr (Other_item v)"

definition redact_mapping_values ::
  "(ustr \<Rightarrow> redaction_error + ustr) \<Rightarrow> (ustr, 'o text_or_other) pydict \<Rightarrow>
    redaction_error + (ustr, 'o text_or_other) pydict" where
  "redact_mapping_values apply values =
    traverse (\<lambda>(key, v). rbind (redact_item apply v) (\<lambda>v. Inr (key, v))) values"

fun redact_optional :: "('a \<Rightarrow> 'e + 'b) \<Rightarrow> 'a option \<Rightarrow> 'e + 'b option" where
  "redact_optional f None = Inr None"
| "redact_optional f (Some x) = rbind (f x) (\<lambda>y. Inr (Some y))"

definition redact_event ::
  "('p \<Rightarrow> ustr \<Rightarrow> ustr + span list) \<Rightarrow> 'p redaction_policy \<Rightarrow> ('e, 't, 'x) exec_event \<Rightarrow>
    redaction_error + ('e, 't, 'x) exec_event" where
  "redact_event finditer p event =
    (if rp_literals p = [] \<and> rp_patterns p = [] then Inr event
     else
       let apply = apply_text finditer p
       in rbind (traverse apply (ev_argv event)) (\<lambda>argv.
          rbind (redact_optional (redact_mapping_values apply) (ev_env event)) (\<lambda>env.
          rbind (redact_mapping_values apply (ev_tags event)) (\<lambda>tags.
          rbind (redact_optional apply (ev_line event)) (\<lambda>line.
          rbind (redact_optional apply (ev_note event)) (\<lambda>note.
          Inr (event\<lparr>ev_argv := argv, ev_env := env, ev_tags := tags, ev_line := line,
            ev_note := note\<rparr>)))))))"

text \<open>\<open>redacting_hook\<close>: the consumer sees the copy only.\<close>

definition redacting_hook ::
  "(('e, 't, 'x) exec_event \<Rightarrow> 'a) \<Rightarrow> ('p \<Rightarrow> ustr \<Rightarrow> ustr + span list) \<Rightarrow> 'p redaction_policy \<Rightarrow>
    ('e, 't, 'x) exec_event \<Rightarrow> redaction_error + 'a" where
  "redacting_hook consumer finditer p event =
    rbind (redact_event finditer p event) (\<lambda>copy. Inr (consumer copy))"

section \<open>The reference\<close>

text \<open>
  What redaction means, position by position: a character inside a match is dropped, every maximal
  run of such characters leaves one mask, and so does an empty match that touches no run.
\<close>

definition covered :: "span list \<Rightarrow> nat \<Rightarrow> bool" where
  "covered spans i \<longleftrightarrow> (\<exists>(start, stop) \<in> set spans. start \<le> i \<and> i < stop)"

definition marked :: "span list \<Rightarrow> nat \<Rightarrow> bool" where
  "marked spans i \<longleftrightarrow>
    (covered spans i \<or> (i, i) \<in> set spans) \<and> (i = 0 \<or> \<not> covered spans (i - 1))"

definition redacted_at :: "ustr \<Rightarrow> ustr \<Rightarrow> span list \<Rightarrow> nat \<Rightarrow> ustr" where
  "redacted_at value masking spans i =
    (if marked spans i then masking else []) @
    (if i < length value \<and> \<not> covered spans i then [value ! i] else [])"

definition redacted :: "ustr \<Rightarrow> ustr \<Rightarrow> span list \<Rightarrow> ustr" where
  "redacted value masking spans =
    concat (map (redacted_at value masking spans) [0..<Suc (length value)])"

definition spans_ok :: "ustr \<Rightarrow> span list \<Rightarrow> bool" where
  "spans_ok value spans \<longleftrightarrow> (\<forall>(start, stop) \<in> set spans. start \<le> stop \<and> stop \<le> length value)"

section \<open>Rendering separated spans\<close>

definition separated :: "span list \<Rightarrow> bool" where
  "separated spans \<longleftrightarrow>
    sorted_wrt (\<lambda>a b. snd a < fst b) spans \<and> (\<forall>a \<in> set spans. fst a \<le> snd a)"

lemma separated_simps [simp]:
  "separated []"
  "separated (a # spans) \<longleftrightarrow>
    fst a \<le> snd a \<and> (\<forall>b \<in> set spans. snd a < fst b) \<and> separated spans"
  by (auto simp: separated_def)

lemma covered_simps [simp]:
  "\<not> covered [] i"
  "covered (a # spans) i \<longleftrightarrow> fst a \<le> i \<and> i < snd a \<or> covered spans i"
  "covered (spans @ spans') i \<longleftrightarrow> covered spans i \<or> covered spans' i"
  by (auto simp: covered_def split: prod.splits)

lemma covered_iff: "covered spans i \<longleftrightarrow> (\<exists>a \<in> set spans. fst a \<le> i \<and> i < snd a)"
  by (simp add: covered_def split_beta)

lemma slice_concat:
  "stop \<le> length v \<Longrightarrow> drop start (take stop v) = concat (map (\<lambda>i. [v ! i]) [start..<stop])"
proof (induction stop)
  case (Suc stop)
  then show ?case
    by (cases "start \<le> stop") (simp_all add: take_Suc_conv_app_nth)
qed simp

lemma concat_map_cong: "(\<And>x. x \<in> set xs \<Longrightarrow> f x = g x) \<Longrightarrow> concat (map f xs) = concat (map g xs)"
  by (induction xs) auto

text \<open>The output at a position, for spans that are separated.\<close>

definition rendered_at :: "ustr \<Rightarrow> ustr \<Rightarrow> span list \<Rightarrow> nat \<Rightarrow> ustr" where
  "rendered_at value masking spans i =
    (if i \<in> fst ` set spans then masking else []) @
    (if i < length value \<and> \<not> covered spans i then [value ! i] else [])"

lemma rendered_before:
  assumes "\<forall>a \<in> set spans. stop \<le> fst a" "stop \<le> length value"
  shows "concat (map (rendered_at value masking spans) [start..<stop]) = drop start (take stop value)"
proof -
  have "rendered_at value masking spans i = [value ! i]" if "i \<in> set [start..<stop]" for i
    using that assms by (fastforce simp: rendered_at_def covered_iff)
  then show ?thesis
    unfolding slice_concat [OF assms(2)] by (rule concat_map_cong)
qed

lemma masked_pieces_rendered:
  assumes "separated spans" "\<forall>a \<in> set spans. cursor \<le> fst a \<and> snd a \<le> length value"
    and "cursor \<le> length value"
  shows "concat (masked_pieces value masking cursor spans) =
    concat (map (rendered_at value masking spans) [cursor..<Suc (length value)])"
  using assms
proof (induction spans arbitrary: cursor)
  case Nil
  then have "concat (map (rendered_at value masking []) [cursor..<length value]) = drop cursor value"
    using rendered_before [of "[]" "length value"] by simp
  moreover have "rendered_at value masking [] (length value) = []"
    by (simp add: rendered_at_def)
  ultimately show ?case
    using Nil by simp
next
  case (Cons a spans)
  obtain s e where a: "a = (s, e)" by fastforce
  let ?n = "length value"
  let ?at = "rendered_at value masking"
  have order: "cursor \<le> s" "s \<le> e" "e \<le> ?n" and after: "\<forall>b \<in> set spans. e < fst b"
    using Cons.prems a by auto
  have IH: "concat (masked_pieces value masking e spans) = concat (map (?at spans) [e..<Suc ?n])"
    using Cons.IH [of e] Cons.prems a after order by fastforce
  have "[cursor..<Suc ?n] = [cursor..<s] @ [s..<Suc ?n]" "[s..<Suc ?n] = [s..<e] @ [e..<Suc ?n]"
    by (rule upt_split; use order in simp)+
  then have split: "[cursor..<Suc ?n] = [cursor..<s] @ [s..<e] @ [e..<Suc ?n]"
    by (simp only:)
  have first: "concat (map (?at (a # spans)) [cursor..<s]) = drop cursor (take s value)"
    using order after a by (intro rendered_before) auto
  have rest: "?at (a # spans) i = ?at spans i" if "e \<le> i" "i \<noteq> s" for i
    using that a by (simp add: rendered_at_def image_iff)
  have "concat (map (?at (a # spans)) [s..<e]) @ concat (map (?at (a # spans)) [e..<Suc ?n]) =
      masking @ concat (map (?at spans) [e..<Suc ?n])"
  proof (cases "s = e")
    case True
    have "?at (a # spans) s = masking @ ?at spans s"
      using a after True by (fastforce simp: rendered_at_def covered_iff)
    moreover have "concat (map (?at (a # spans)) [Suc e..<Suc ?n]) =
        concat (map (?at spans) [Suc e..<Suc ?n])"
      using rest True by (intro concat_map_cong) auto
    moreover have "[e..<Suc ?n] = e # [Suc e..<Suc ?n]"
      using order by (simp add: upt_conv_Cons)
    ultimately show ?thesis using True by simp
  next
    case False
    then have "[s..<e] = s # [Suc s..<e]"
      using order by (simp add: upt_conv_Cons)
    moreover have "?at (a # spans) s = masking"
      using a False order by (simp add: rendered_at_def)
    moreover have "?at (a # spans) i = []" if "i \<in> set [Suc s..<e]" for i
      using that a after by (fastforce simp: rendered_at_def)
    then have "concat (map (?at (a # spans)) [Suc s..<e]) = []"
      by (simp only: concat_eq_Nil_conv set_map) blast
    moreover have "concat (map (?at (a # spans)) [e..<Suc ?n]) = concat (map (?at spans) [e..<Suc ?n])"
      using rest False order by (intro concat_map_cong) auto
    ultimately show ?thesis by simp
  qed
  then show ?case
    using first IH unfolding split by (simp add: a)
qed

section \<open>Merging spans\<close>

abbreviation nonempty_spans :: "span list \<Rightarrow> bool" where
  "nonempty_spans spans \<equiv> \<forall>a \<in> set spans. fst a < snd a"

lemma merge_loop_snoc [simp]:
  "merge_loop (ms @ [(a, b)]) ((s, e) # spans) =
    (if s \<le> b then merge_loop (ms @ [(a, max b e)]) spans
     else merge_loop ((ms @ [(a, b)]) @ [(s, e)]) spans)"
  by simp

lemma separated_snoc:
  "separated (ms @ [(a, b)]) \<longleftrightarrow> separated ms \<and> (\<forall>m \<in> set ms. snd m < a) \<and> a \<le> b"
  by (auto simp: separated_def sorted_wrt_append)

lemma merge_loop_step:
  assumes "separated (ms @ [(a, b)])" "nonempty_spans (ms @ [(a, b)])"
    and "sorted (map fst spans)" "nonempty_spans spans" "\<forall>x \<in> set spans. a \<le> fst x"
  shows "separated (merge_loop (ms @ [(a, b)]) spans) \<and>
    nonempty_spans (merge_loop (ms @ [(a, b)]) spans) \<and>
    (\<forall>i. covered (merge_loop (ms @ [(a, b)]) spans) i \<longleftrightarrow> covered (ms @ [(a, b)]) i \<or> covered spans i)"
  using assms
proof (induction spans arbitrary: ms a b)
  case (Cons x spans)
  obtain s e where x: "x = (s, e)" by fastforce
  have facts: "s < e" "a \<le> s" "a < b" "\<forall>y \<in> set spans. s \<le> fst y"
    "sorted (map fst spans)" "nonempty_spans spans"
    using Cons.prems x by auto
  show ?case
  proof (cases "s \<le> b")
    case True
    have "separated (ms @ [(a, max b e)])" "nonempty_spans (ms @ [(a, max b e)])"
      using Cons.prems(1,2) facts by (auto simp: separated_snoc)
    from Cons.IH [OF this facts(5,6)] facts Cons.prems(5)
    have "separated (merge_loop (ms @ [(a, max b e)]) spans) \<and>
        nonempty_spans (merge_loop (ms @ [(a, max b e)]) spans) \<and>
        (\<forall>i. covered (merge_loop (ms @ [(a, max b e)]) spans) i \<longleftrightarrow>
          covered (ms @ [(a, max b e)]) i \<or> covered spans i)"
      by simp
    moreover have "covered (ms @ [(a, max b e)]) i \<longleftrightarrow> covered (ms @ [(a, b)]) i \<or> covered [x] i" for i
      using True facts x by auto
    ultimately show ?thesis
      using True x by simp blast
  next
    case False
    have "separated ((ms @ [(a, b)]) @ [(s, e)])"
      unfolding separated_snoc using Cons.prems(1) facts False
      by (fastforce simp: separated_snoc [of ms a b])
    moreover have "nonempty_spans ((ms @ [(a, b)]) @ [(s, e)])"
      using Cons.prems(2) facts by simp
    ultimately have joined: "separated ((ms @ [(a, b)]) @ [(s, e)])"
      "nonempty_spans ((ms @ [(a, b)]) @ [(s, e)])"
      by blast+
    from Cons.IH [OF joined facts(5,6)] facts
    show ?thesis
      using False x by auto
  qed
qed simp

lemma merge_nonzero:
  assumes "sorted (map fst spans)" "nonempty_spans spans"
  shows "separated (merge_nonzero_spans spans) \<and> nonempty_spans (merge_nonzero_spans spans) \<and>
    (\<forall>i. covered (merge_nonzero_spans spans) i \<longleftrightarrow> covered spans i)"
proof (cases spans)
  case (Cons x xs)
  obtain s e where x: "x = (s, e)" by fastforce
  have "merge_nonzero_spans spans = merge_loop ([] @ [(s, e)]) xs"
    using Cons x by (simp add: merge_nonzero_spans_def)
  then show ?thesis
    using merge_loop_step [of "[]" s e xs] assms Cons x by simp
qed (simp add: merge_nonzero_spans_def)

text \<open>The binary search finds the last span that starts at or before the position.\<close>

lemma bisect_standalone:
  assumes "separated spans" "nonempty_spans spans"
  shows "(let found = bisect_right (map fst spans) p in found = 0 \<or> snd (spans ! (found - 1)) < p) \<longleftrightarrow>
    (\<forall>a \<in> set spans. p < fst a \<or> snd a < p)"
  using assms
proof (induction spans)
  case (Cons a spans)
  show ?case
  proof (cases "fst a \<le> p")
    case False
    with Cons.prems show ?thesis
      by (fastforce simp: bisect_right_def)
  next
    case True
    let ?found = "bisect_right (map fst spans) p"
    have found: "bisect_right (map fst (a # spans)) p = Suc ?found"
      using True by (simp add: bisect_right_def)
    show ?thesis
    proof (cases ?found)
      case 0
      then have "\<forall>b \<in> set spans. p < fst b \<or> snd b < p"
        using Cons by simp
      then show ?thesis
        unfolding found using 0 True by auto
    next
      case (Suc k)
      then have "k < length spans"
        using length_takeWhile_le [of "\<lambda>s. s \<le> p" "map fst spans"] by (simp add: bisect_right_def)
      then have "spans ! k \<in> set spans" by simp
      moreover have "fst (spans ! k) \<le> p"
        using nth_mem [of k "takeWhile (\<lambda>s. s \<le> p) (map fst spans)"] Suc \<open>k < length spans\<close>
          set_takeWhileD takeWhile_nth [of k "\<lambda>s. s \<le> p" "map fst spans"]
        unfolding bisect_right_def by fastforce
      ultimately have "snd a < p"
        using Cons.prems by fastforce
      then show ?thesis
        unfolding found using Cons Suc by simp
    qed
  qed
qed (simp add: bisect_right_def)

lemma in_fst_image: "i \<in> fst ` S \<longleftrightarrow> (\<exists>e. (i, e) \<in> S)"
  by force

text \<open>Sorting the merged and the standalone spans together keeps them apart.\<close>

lemma separated_sort:
  assumes "distinct spans" "\<forall>a \<in> set spans. fst a \<le> snd a"
    and apart: "\<And>a b. a \<in> set spans \<Longrightarrow> b \<in> set spans \<Longrightarrow> a \<noteq> b \<Longrightarrow> snd a < fst b \<or> snd b < fst a"
  shows "separated (sort spans)"
proof -
  have "sorted_wrt (\<lambda>a b. a \<noteq> b \<and> a \<le> b) (sort spans)"
    unfolding sorted_wrt_iff_nth_less
    using assms(1) sorted_nth_mono [OF sorted_sort, of _ _ spans]
    by (simp add: nth_eq_iff_index_eq)
  then have "sorted_wrt (\<lambda>a b. snd a < fst b) (sort spans)"
  proof (rule sorted_wrt_mono_rel [rotated])
    fix a b
    assume "a \<in> set (sort spans)" "b \<in> set (sort spans)" "a \<noteq> b \<and> a \<le> b"
    then show "snd a < fst b"
      using apart [of a b] assms(2) by (fastforce simp: less_eq_prod_def)
  qed
  with assms(2) show ?thesis by (simp add: separated_def)
qed

lemma separated_apart:
  "separated spans \<Longrightarrow> a \<in> set spans \<Longrightarrow> b \<in> set spans \<Longrightarrow> a \<noteq> b \<Longrightarrow> snd a < fst b \<or> snd b < fst a"
  by (induction spans) auto

lemma separated_distinct: "separated spans \<Longrightarrow> distinct spans"
  by (induction spans) auto

lemma standalone_set:
  assumes "separated spans" "nonempty_spans spans" "finite positions"
  shows "set (standalone_zero_width_spans positions spans) =
    {(p, p) | p. p \<in> positions \<and> (\<forall>a \<in> set spans. p < fst a \<or> snd a < p)}"
  using assms(3) unfolding standalone_zero_width_spans_def bisect_standalone [OF assms(1,2)] by auto

lemma marked_starts:
  assumes "separated spans" "nonempty_spans spans"
  shows "(\<exists>e. (i, e) \<in> set spans) \<or> zero \<and> (\<forall>a \<in> set spans. i < fst a \<or> snd a < i) \<longleftrightarrow>
    (covered spans i \<or> zero) \<and> (i = 0 \<or> \<not> covered spans (i - 1))"
    (is "?starts \<longleftrightarrow> ?marked")
proof
  assume ?starts
  then show ?marked
  proof
    assume "\<exists>e. (i, e) \<in> set spans"
    then obtain e where e: "(i, e) \<in> set spans" by blast
    moreover have "\<not> covered spans (i - 1)" if "i \<noteq> 0"
    proof
      assume "covered spans (i - 1)"
      then obtain b where b: "b \<in> set spans" "fst b \<le> i - 1" "i - 1 < snd b"
        by (auto simp: covered_iff)
      then have "b \<noteq> (i, e)" using that by auto
      then show False
        using separated_apart [OF assms(1) e b(1)] b assms(2) e that by fastforce
    qed
    moreover have "covered spans i"
      unfolding covered_iff using e assms(2) by (intro bexI [of _ "(i, e)"]) auto
    ultimately show ?marked by blast
  next
    assume "zero \<and> (\<forall>a \<in> set spans. i < fst a \<or> snd a < i)"
    then show ?marked
      by (fastforce simp: covered_iff)
  qed
next
  assume marked: ?marked
  show ?starts
  proof (cases "covered spans i")
    case True
    then obtain a where a: "a \<in> set spans" "fst a \<le> i" "i < snd a"
      by (auto simp: covered_iff)
    then have "fst a = i"
      using marked by (cases "fst a = i") (fastforce simp: covered_iff)+
    then have "(i, snd a) \<in> set spans"
      using a(1) by (cases a) simp
    then show ?thesis by blast
  next
    case False
    have "i < fst a \<or> snd a < i" if a: "a \<in> set spans" for a
    proof (rule ccontr)
      assume "\<not> (i < fst a \<or> snd a < i)"
      then have "fst a \<le> i" "i \<le> snd a" "fst a < snd a"
        using a assms(2) by auto
      then show False
        using a marked False by (cases "i < snd a") (fastforce simp: covered_iff)+
    qed
    with False marked show ?thesis by blast
  qed
qed

lemma merge_overlapping:
  assumes "spans_ok value spans"
  defines "merged \<equiv> merge_overlapping_spans spans"
  shows "separated merged \<and> (\<forall>a \<in> set merged. snd a \<le> length value) \<and>
    (\<forall>i. covered merged i \<longleftrightarrow> covered spans i) \<and> (\<forall>i. i \<in> fst ` set merged \<longleftrightarrow> marked spans i)"
proof -
  let ?long = "filter (\<lambda>(start, stop). start \<noteq> stop) (sort spans)"
  let ?zero = "fst ` set (filter (\<lambda>(start, stop). start = stop) (sort spans))"
  let ?runs = "merge_nonzero_spans ?long"
  let ?points = "standalone_zero_width_spans ?zero ?runs"
  have ok: "fst a \<le> snd a \<and> snd a \<le> length value" if "a \<in> set spans" for a
    using that assms(1) by (auto simp: spans_ok_def)
  have "sorted (map fst (sort spans))"
    by (rule sorted_map_mono) (auto simp: mono_on_def less_eq_prod_def)
  then have "sorted (map fst ?long)"
    by (rule sorted_filter)
  moreover have "nonempty_spans ?long"
    using ok by fastforce
  ultimately have runs: "separated ?runs" "nonempty_spans ?runs" "covered ?runs i \<longleftrightarrow> covered ?long i" for i
    using merge_nonzero by blast+
  have long: "covered ?long i \<longleftrightarrow> covered spans i" for i
  proof -
    have "start \<noteq> stop" if "start \<le> i" "i < stop" for start stop
      using that by simp
    then show ?thesis by (fastforce simp: covered_def)
  qed
  have zero: "i \<in> ?zero \<longleftrightarrow> (i, i) \<in> set spans" for i
    by force
  have points: "set ?points = {(p, p) | p. (p, p) \<in> set spans \<and> (\<forall>a \<in> set ?runs. p < fst a \<or> snd a < p)}"
    using standalone_set [OF runs(1,2), of ?zero] unfolding zero by simp
  have merged: "merged = sort (?runs @ ?points)"
    by (simp add: merged_def merge_overlapping_spans_def Let_def)
  have "distinct ?points"
    by (simp add: standalone_zero_width_spans_def distinct_map inj_on_def)
  moreover have "set ?runs \<inter> set ?points = {}"
    using runs(2) points by fastforce
  ultimately have "distinct (?runs @ ?points)"
    using separated_distinct [OF runs(1)] by simp
  then have "separated merged"
    unfolding merged
  proof (rule separated_sort)
    show "\<forall>a \<in> set (?runs @ ?points). fst a \<le> snd a"
      using runs(2) points by fastforce
    fix a b
    assume "a \<in> set (?runs @ ?points)" "b \<in> set (?runs @ ?points)" "a \<noteq> b"
    then show "snd a < fst b \<or> snd b < fst a"
      using separated_apart [OF runs(1), of a b] points by auto
  qed
  moreover have "snd a \<le> length value" if "a \<in> set merged" for a
  proof -
    have "a \<in> set ?runs \<or> a \<in> set ?points"
      using that by (simp add: merged)
    then show ?thesis
    proof
      assume a: "a \<in> set ?runs"
      then have "fst a < snd a"
        using runs(2) by blast
      then have "covered ?runs (snd a - 1)"
        unfolding covered_iff using a by (intro bexI [of _ a]) auto
      then have "covered spans (snd a - 1)"
        by (simp add: runs(3) long)
      then show ?thesis
        using ok by (fastforce simp: covered_iff)
    next
      assume "a \<in> set ?points"
      then show ?thesis
        using ok points by fastforce
    qed
  qed
  moreover have cover: "covered merged i \<longleftrightarrow> covered spans i" for i
    using runs(3) [of i] long [of i] points by (auto simp: merged covered_iff)
  moreover have "i \<in> fst ` set merged \<longleftrightarrow> marked spans i" for i
  proof -
    have "i \<in> fst ` set merged \<longleftrightarrow>
        (\<exists>e. (i, e) \<in> set ?runs) \<or> (i, i) \<in> set spans \<and> (\<forall>a \<in> set ?runs. i < fst a \<or> snd a < i)"
      unfolding in_fst_image merged set_sort set_append points by blast
    then show ?thesis
      unfolding marked_starts [OF runs(1,2)] marked_def runs(3) long .
  qed
  ultimately show ?thesis by blast
qed

section \<open>Collecting spans\<close>

text \<open>The loop finds every occurrence, overlapping ones included.\<close>

lemma match_loop_set:
  assumes "literal \<noteq> []"
  shows "set (match_loop literal value search_from) =
    {(i, i + length literal) | i. search_from \<le> i \<and> i + length literal \<le> length value \<and>
      prefix literal (drop i value)}"
proof (induction literal "value" search_from rule: match_loop.induct)
  case (1 literal v search_from)
  let ?occurs = "\<lambda>i. i + length literal \<le> length v \<and> prefix literal (drop i v)"
  show ?case
  proof (cases "search_from + length literal \<le> length v")
    case fits: True
    show ?thesis
    proof (cases "find_literal v literal search_from")
      case None
      then have "\<not> prefix literal (drop i v)"
        if "search_from \<le> i" "i + length literal \<le> length v" for i
        using that by (force simp: find_literal_def find_None_iff)
      with fits None show ?thesis
        by (subst match_loop.simps) auto
    next
      case (Some start)
      note found = find_literal_SomeD [OF Some]
      have first: "\<not> prefix literal (drop i v)" if "search_from \<le> i" "i < start" for i
      proof -
        obtain k where k: "start = [search_from..<Suc (length v) - length literal] ! k"
          "k < length [search_from..<Suc (length v) - length literal]"
          "\<forall>j < k. \<not> prefix literal (drop ([search_from..<Suc (length v) - length literal] ! j) v)"
          using Some by (auto simp: find_literal_def find_Some_iff)
        then have "start = search_from + k"
          by simp
        then show ?thesis
          using k(2) k(3) [rule_format, of "i - search_from"] that by simp
      qed
      have later: "start \<le> i" if "search_from \<le> i" "prefix literal (drop i v)" for i
        using first that by (meson not_less)
      have "set (match_loop literal v search_from) =
          insert (start, start + length literal) (set (match_loop literal v (start + 1)))"
        using fits Some by (subst match_loop.simps) simp
      then have all: "set (match_loop literal v search_from) =
          insert (start, start + length literal)
            {(i, i + length literal) | i. start + 1 \<le> i \<and> ?occurs i}"
        unfolding "1.IH" [OF fits Some] .
      have split: "search_from \<le> i \<and> ?occurs i \<longleftrightarrow> i = start \<or> start + 1 \<le> i \<and> ?occurs i" for i
      proof (cases "i = start")
        case False
        then show ?thesis
          using found later [of i] by linarith
      qed (use found in simp)
      show ?thesis
        unfolding all by (simp only: split) blast
    qed
  next
    case False
    then show ?thesis
      by (subst match_loop.simps) auto
  qed
qed

lemma literal_match_spans_set:
  "literal \<noteq> [] \<Longrightarrow> set (literal_match_spans literal value) =
    {(i, i + length literal) | i. i + length literal \<le> length value \<and> prefix literal (drop i value)}"
  by (simp add: literal_match_spans_def match_loop_set)

lemma collect_from_Inr:
  "collect_from index matcher kind value rules = Inr spans \<Longrightarrow>
    \<exists>found. list_all2 (\<lambda>rule s. matcher rule value = Inr s) rules found \<and> spans = concat found"
proof (induction rules arbitrary: index spans)
  case (Cons rule rules)
  then obtain s more where s: "matcher rule value = Inr s"
    "collect_from (Suc index) matcher kind value rules = Inr more" "spans = s @ more"
    by (auto simp: result_iff split: sum.splits)
  from Cons.IH [OF s(2)] obtain found where
    "list_all2 (\<lambda>rule s. matcher rule value = Inr s) rules found" "more = concat found" by blast
  with s show ?case
    by (intro exI [of _ "s # found"]) simp
qed simp

lemma collect_from_Inl:
  "collect_from index matcher kind value rules = Inl e \<longleftrightarrow>
    (\<exists>i error_type. i < length rules \<and> e = Redaction_failed kind (index + i) error_type \<and>
      matcher (rules ! i) value = Inl error_type \<and> (\<forall>j < i. \<exists>s. matcher (rules ! j) value = Inr s))"
proof (induction rules arbitrary: index)
  case (Cons rule rules)
  show ?case
  proof (cases "matcher rule value")
    case (Inl error_type)
    then show ?thesis
      by (auto simp: less_Suc_eq_0_disj)
  next
    case (Inr s)
    have split: "(\<exists>i. Q i) \<longleftrightarrow> Q 0 \<or> (\<exists>i. Q (Suc i))" for Q :: "nat \<Rightarrow> bool"
      by (metis not0_implies_Suc)
    show ?thesis
      using Inr Cons.IH [of "Suc index"]
      by (subst split) (auto simp: result_iff All_less_Suc2)
  qed
qed simp

lemma collect_literals:
  "collect_rule_spans (\<lambda>l v. Inr (literal_match_spans l v)) Literal_rule value literals =
    Inr (concat (map (\<lambda>l. literal_match_spans l value) literals))"
proof -
  have "collect_from index (\<lambda>l v. Inr (literal_match_spans l v)) Literal_rule value literals =
    Inr (concat (map (\<lambda>l. literal_match_spans l value) literals))" for index
    by (induction literals arbitrary: index) simp_all
  then show ?thesis by (simp add: collect_rule_spans_def)
qed

lemma redacted_merged:
  assumes "spans_ok value spans"
  shows "(if merge_overlapping_spans spans = [] then value
     else concat (masked_pieces value masking 0 (merge_overlapping_spans spans))) =
    redacted value masking spans"
proof -
  note merged = merge_overlapping [OF assms]
  have at: "rendered_at value masking (merge_overlapping_spans spans) i = redacted_at value masking spans i"
    for i using merged by (simp add: rendered_at_def redacted_at_def)
  have "concat (masked_pieces value masking 0 (merge_overlapping_spans spans)) =
      concat (map (rendered_at value masking (merge_overlapping_spans spans)) [0..<Suc (length value)])"
    using merged by (intro masked_pieces_rendered) auto
  then have "concat (masked_pieces value masking 0 (merge_overlapping_spans spans)) =
      redacted value masking spans"
    unfolding at redacted_def by (simp add: fun_eq_iff [symmetric] at [abs_def])
  then show ?thesis
    by (cases "merge_overlapping_spans spans = []") auto
qed

section \<open>Properties\<close>

lemma redacted_cong:
  assumes "set spans = set spans'"
  shows "redacted value masking spans = redacted value masking spans'"
proof -
  have "covered spans = covered spans'"
    by (simp add: fun_eq_iff covered_def assms)
  then have "redacted_at value masking spans = redacted_at value masking spans'"
    by (simp add: fun_eq_iff redacted_at_def marked_def assms)
  then show ?thesis by (simp add: redacted_def)
qed

lemma policy_literals_nonempty:
  assumes "new_redaction_policy literals patterns masking = Inr p"
  shows "[] \<notin> set (rp_literals p)"
  using assms
  by (auto simp: new_redaction_policy_def normalize_literals_def result_iff split: if_splits)

lemma collect_from_list_all2:
  "list_all2 (\<lambda>rule s. matcher rule value = Inr s) rules found \<Longrightarrow>
    collect_from index matcher kind value rules = Inr (concat found)"
  by (induction rules found arbitrary: index rule: list_all2_induct) simp_all

lemma collect_patterns:
  "collect_rule_spans matcher Pattern_rule value rules = collect_from 0 matcher Pattern_rule value rules"
  by (simp add: collect_rule_spans_def)

text \<open>(C17) A policy that was constructed masks a text exactly as the position-by-position reference
  does, where the matched spans are all the occurrences of all its literals, the overlapping ones
  included, and the spans of its patterns: no character of a match survives, every other character
  does, in order, and every maximal run of matched characters leaves one mask.\<close>

theorem apply_text_redacts:
  assumes "new_redaction_policy literals patterns masking = Inr p"
    and "list_all2 (\<lambda>rule s. finditer rule value = Inr s) (rp_patterns p) found"
    and "spans_ok value (concat found)"
    and "set spans =
      {(i, i + length l) | i l. l \<in> set (rp_literals p) \<and> i + length l \<le> length value \<and>
        prefix l (drop i value)} \<union> set (concat found)"
  shows "apply_text finditer p value = Inr (redacted value (rp_mask p) spans)"
proof -
  let ?found = "concat (map (\<lambda>l. literal_match_spans l value) (rp_literals p)) @ concat found"
  have literal: "set (literal_match_spans l value) =
      {(i, i + length l) | i. i + length l \<le> length value \<and> prefix l (drop i value)}"
    if "l \<in> set (rp_literals p)" for l
    using that policy_literals_nonempty [OF assms(1)] by (intro literal_match_spans_set) auto
  have "set ?found =
      (\<Union>l \<in> set (rp_literals p). set (literal_match_spans l value)) \<union> set (concat found)"
    by simp
  also have "\<dots> = set spans"
    unfolding assms(4) by (simp add: literal) blast
  finally have same: "set ?found = set spans" .
  have "spans_ok value spans"
    using assms(3) unfolding spans_ok_def assms(4) by auto
  then have ok: "spans_ok value ?found"
    unfolding spans_ok_def same .
  show ?thesis
  proof (cases "rp_literals p = [] \<and> rp_patterns p = []")
    case True
    then have "found = []"
      using assms(2) by simp
    with True redacted_merged [OF ok, of "rp_mask p"] have "redacted value (rp_mask p) [] = value"
      by (simp add: merge_overlapping_spans_def merge_nonzero_spans_def standalone_zero_width_spans_def)
    with True \<open>found = []\<close> redacted_cong [OF same] show ?thesis
      by (simp add: apply_text_def)
  next
    case False
    have "apply_text finditer p value =
      Inr (if merge_overlapping_spans ?found = [] then value
        else concat (masked_pieces value (rp_mask p) 0 (merge_overlapping_spans ?found)))"
      using False collect_from_list_all2 [of finditer "value" "rp_patterns p" found 0 Pattern_rule, OF assms(2)]
      by (auto simp: apply_text_def collect_literals collect_patterns Let_def)
    then show ?thesis
      unfolding redacted_merged [OF ok] redacted_cong [OF same] .
  qed
qed

lemma apply_text_redacts_witness:
  "apply_text (\<lambda>(rule::nat) v. Inr [(rule, rule), (rule + 4, rule + 5)])
     \<lparr>rp_literals = [lit ''aba''], rp_patterns = [0], rp_mask = lit ''#''\<rparr> (lit ''xababay'') =
   Inr (redacted (lit ''xababay'') (lit ''#'') [(1, 4), (3, 6), (0, 0), (4, 5)])"
proof -
  let ?p = "\<lparr>rp_literals = [lit ''aba''], rp_patterns = [0::nat], rp_mask = lit ''#''\<rparr>"
  let ?finditer = "\<lambda>(rule::nat) v. Inr [(rule, rule), (rule + 4, rule + 5)] :: ustr + span list"
  have policy: "new_redaction_policy (Many [Str_value (lit ''aba'')]) (Many [Pattern_value 0])
      (Str_value (lit ''#'')) = Inr ?p"
    by code_simp
  have "literal_match_spans (lit ''aba'') (lit ''xababay'') = [(1, 4), (3, 6)]"
    by code_simp
  moreover have "lit ''aba'' \<noteq> []"
    by code_simp
  ultimately have "{(1, 4), (3, 6)} = {(i, i + length (lit ''aba'')) | i.
      i + length (lit ''aba'') \<le> length (lit ''xababay'') \<and>
      prefix (lit ''aba'') (drop i (lit ''xababay''))}"
    using literal_match_spans_set [of "lit ''aba''" "lit ''xababay''"] by simp
  then have "set [(1, 4), (3, 6), (0, 0), (4, 5)] =
      {(i, i + length l) | i l. l \<in> set (rp_literals ?p) \<and>
        i + length l \<le> length (lit ''xababay'') \<and> prefix l (drop i (lit ''xababay''))} \<union>
      set (concat [[(0, 0), (4, 5)]])"
    by (simp del: length_lit) blast
  moreover have "spans_ok (lit ''xababay'') (concat [[(0, 0), (4, 5)]])"
    by code_simp
  ultimately show ?thesis
    using apply_text_redacts [OF policy, of ?finditer "lit ''xababay''" "[[(0, 0), (4, 5)]]"
      "[(1, 4), (3, 6), (0, 0), (4, 5)]"] by simp
qed

text \<open>Redaction fails closed: applying a policy raises exactly when one of its patterns raises, and
  then the error names the first such pattern by its position and the exception it raised; text is
  returned only when every pattern was matched.\<close>

theorem redaction_fails_closed:
  "apply_text finditer p value = Inl e \<longleftrightarrow>
    (\<exists>i error_type. i < length (rp_patterns p) \<and> e = Redaction_failed Pattern_rule i error_type \<and>
      finditer (rp_patterns p ! i) value = Inl error_type \<and>
      list_all (\<lambda>rule. \<exists>s. finditer rule value = Inr s) (take i (rp_patterns p)))"
proof -
  have "apply_text finditer p value = Inl e \<longleftrightarrow>
    collect_from 0 finditer Pattern_rule value (rp_patterns p) = Inl e"
    by (auto simp: apply_text_def collect_literals collect_patterns Let_def
        result_iff split: sum.splits)
  then show ?thesis
    unfolding collect_from_Inl by (auto simp: list_all_length)
qed

end
