(* ===== verification/Github_Sink.thy ===== *)
theory Github_Sink
  imports Redaction Py_Path
begin

text \<open>
  The GitHub Actions presentation sink (\<open>cuprum/sinks/\<close>), the convenience flags that synthesize it
  (\<open>sh/_convenience_sink.py\<close>) and the take-once bracket a run keeps it in
  (\<open>_sink_lifecycle.py\<close>, \<open>_pipeline_sink.py\<close>).  The log destination is the list of the writes it has
  received; the stop-commands token is an argument where the code draws one.  How the runner reacts to
  a command is a parameter of the protocol definitions; the lease it grants is the one the module
  documents.
\<close>

section \<open>Escaping\<close>

text \<open>\<open>s.replace(c, r)\<close> for a single character \<open>c\<close>.\<close>

definition str_replace :: "nat \<Rightarrow> ustr \<Rightarrow> ustr \<Rightarrow> ustr" where
  "str_replace c r s = concat (map (\<lambda>x. if x = c then r else [x]) s)"

definition escape_data :: "ustr \<Rightarrow> ustr" where
  "escape_data s =
    str_replace 10 (lit ''%0A'') (str_replace 13 (lit ''%0D'') (str_replace 37 (lit ''%25'') s))"

definition escape_property :: "ustr \<Rightarrow> ustr" where
  "escape_property s = str_replace 44 (lit ''%2C'') (str_replace 58 (lit ''%3A'') (escape_data s))"

section \<open>Outcomes\<close>

datatype terminal_outcome = Exit_zero | Exit_nonzero | Outcome_timeout | Outcome_cancelled | Outcome_error

fun outcome_value :: "terminal_outcome \<Rightarrow> ustr" where
  "outcome_value Exit_zero = lit ''exit_zero''"
| "outcome_value Exit_nonzero = lit ''exit_nonzero''"
| "outcome_value Outcome_timeout = lit ''timeout''"
| "outcome_value Outcome_cancelled = lit ''cancelled''"
| "outcome_value Outcome_error = lit ''error''"

record session_outcome =
  so_outcome :: terminal_outcome
  so_exit_code :: "int option"
  so_detail :: "ustr option"

definition outcome_for_result :: "int \<Rightarrow> session_outcome" where
  "outcome_for_result exit_code =
    \<lparr>so_outcome = (if exit_code = 0 then Exit_zero else Exit_nonzero),
     so_exit_code = Some exit_code, so_detail = None\<rparr>"

datatype run_error = Timeout_expired | Cancelled_error | Generator_exit | Other_error

fun outcome_for_error :: "run_error \<Rightarrow> session_outcome" where
  "outcome_for_error Timeout_expired =
    \<lparr>so_outcome = Outcome_timeout, so_exit_code = None, so_detail = Some (lit ''timeout'')\<rparr>"
| "outcome_for_error Cancelled_error =
    \<lparr>so_outcome = Outcome_cancelled, so_exit_code = None, so_detail = None\<rparr>"
| "outcome_for_error Generator_exit =
    \<lparr>so_outcome = Outcome_cancelled, so_exit_code = None, so_detail = None\<rparr>"
| "outcome_for_error Other_error =
    \<lparr>so_outcome = Outcome_error, so_exit_code = None, so_detail = None\<rparr>"

definition pipeline_result_outcome :: "int list \<Rightarrow> session_outcome" where
  "pipeline_result_outcome exit_codes =
    (case find (\<lambda>code. code \<noteq> 0) exit_codes of
       None \<Rightarrow> \<lparr>so_outcome = Exit_zero, so_exit_code = Some 0, so_detail = None\<rparr>
     | Some failed \<Rightarrow> \<lparr>so_outcome = Exit_nonzero, so_exit_code = Some failed, so_detail = None\<rparr>)"

section \<open>Sessions\<close>

record session_annotation =
  sa_label :: ustr
  sa_emit_group :: bool
  sa_emit_annotation :: bool

datatype annotation_argument = Label_string ustr | Annotation_bundle session_annotation | Other_annotation

datatype sink_error =
    Annotation_label_type_error
  | Toggle_type_error ustr
  | Title_redaction_error redaction_error
  | Bracket_opened_twice

record actions_session =
  as_label :: ustr
  as_annotation_label :: ustr
  as_emit_group :: bool
  as_emit_annotation :: bool
  as_closed :: bool
  as_stop_token :: ustr

type_synonym writes = "ustr list"

definition group_line :: "ustr \<Rightarrow> ustr" where
  "group_line label = lit ''::group::'' @ escape_data label"

definition stop_line :: "ustr \<Rightarrow> ustr" where
  "stop_line token = lit ''::stop-commands::'' @ token"

definition resume_line :: "ustr \<Rightarrow> ustr" where
  "resume_line token = lit ''::'' @ token @ lit ''::''"

definition error_line :: "ustr \<Rightarrow> ustr \<Rightarrow> ustr" where
  "error_line title message =
    lit ''::error title='' @ escape_property title @ lit ''::'' @ escape_data message"

fun annotation_of_argument :: "annotation_argument \<Rightarrow> sink_error + session_annotation" where
  "annotation_of_argument (Label_string s) =
    Inr \<lparr>sa_label = s, sa_emit_group = True, sa_emit_annotation = True\<rparr>"
| "annotation_of_argument (Annotation_bundle a) = Inr a"
| "annotation_of_argument Other_annotation = Inl Annotation_label_type_error"

definition new_actions_session ::
  "ustr \<Rightarrow> ustr \<Rightarrow> annotation_argument \<Rightarrow> writes \<Rightarrow> sink_error + actions_session \<times> writes" where
  "new_actions_session token label argument log =
    rbind (annotation_of_argument argument) (\<lambda>annotation.
      let self = \<lparr>as_label = label, as_annotation_label = sa_label annotation,
        as_emit_group = sa_emit_group annotation,
        as_emit_annotation = sa_emit_annotation annotation, as_closed = False, as_stop_token = token\<rparr>
      in Inr (self,
        if \<not> sa_emit_group annotation then log
        else log @ [group_line label @ [10], stop_line token @ [10]]))"

definition redirects_echo :: "actions_session \<Rightarrow> bool" where
  "redirects_echo self = as_emit_group self"

definition emit_error_annotation :: "actions_session \<Rightarrow> session_outcome \<Rightarrow> writes \<Rightarrow> writes" where
  "emit_error_annotation self outcome log =
    log @ [error_line (as_annotation_label self)
      (case so_detail outcome of
         None \<Rightarrow> outcome_value (so_outcome outcome)
       | Some detail \<Rightarrow> if detail = [] then outcome_value (so_outcome outcome) else detail) @ [10]]"

definition close_actions_session ::
  "actions_session \<Rightarrow> session_outcome \<Rightarrow> writes \<Rightarrow> actions_session \<times> writes" where
  "close_actions_session self outcome log =
    (if as_closed self then (self, log)
     else
       let self = self\<lparr>as_closed := True\<rparr>;
           log = (if as_emit_group self
                  then log @ [resume_line (as_stop_token self) @ [10], lit ''::endgroup::'' @ [10]]
                  else log)
       in if \<not> as_emit_annotation self \<or> so_outcome outcome = Exit_zero then (self, log)
          else (self, emit_error_annotation self outcome log))"

section \<open>The adapter\<close>

record session_start =
  st_label :: ustr
  st_argv :: "ustr list"

record session_titles =
  ti_group :: ustr
  ti_annotation :: ustr

definition session_titles_of :: "session_start \<Rightarrow> ustr option \<Rightarrow> bool \<Rightarrow> session_titles" where
  "session_titles_of start title argv_title =
    (case title of
       Some t \<Rightarrow> \<lparr>ti_group = t, ti_annotation = (if t = [] then st_label start else t)\<rparr>
     | None \<Rightarrow>
         if argv_title \<and> st_argv start \<noteq> []
         then \<lparr>ti_group = join_with (lit '' '') (st_argv start), ti_annotation = st_label start\<rparr>
         else \<lparr>ti_group = st_label start, ti_annotation = st_label start\<rparr>)"

definition inert_redaction_policy :: "'p redaction_policy" where
  "inert_redaction_policy = \<lparr>rp_literals = [], rp_patterns = [], rp_mask = default_mask\<rparr>"

definition redacted_session_titles ::
  "('p \<Rightarrow> ustr \<Rightarrow> ustr + span list) \<Rightarrow> session_titles \<Rightarrow> 'p redaction_policy option \<Rightarrow> bool \<Rightarrow> bool \<Rightarrow>
    redaction_error + session_titles" where
  "redacted_session_titles finditer titles redaction emit_group emit_annotation =
    (let policy = (case redaction of Some p \<Rightarrow> p | None \<Rightarrow> inert_redaction_policy)
     in rbind (if emit_group then apply_text finditer policy (ti_group titles) else Inr (ti_group titles))
          (\<lambda>group.
        rbind (if emit_annotation then apply_text finditer policy (ti_annotation titles)
               else Inr (ti_annotation titles)) (\<lambda>annotation.
        Inr (titles\<lparr>ti_group := group, ti_annotation := annotation\<rparr>))))"

datatype toggle = Toggle bool | Toggle_other

record 'p sink_options =
  op_title :: "ustr option"
  op_force :: bool
  op_emit_group :: toggle
  op_emit_annotation :: toggle
  op_argv_title :: toggle
  op_redaction :: "'p redaction_policy option"

record 'p actions_sink =
  sk_title :: "ustr option"
  sk_force :: bool
  sk_emit_group :: bool
  sk_emit_annotation :: bool
  sk_argv_title :: bool
  sk_redaction :: "'p redaction_policy option"

fun reject_non_bool :: "ustr \<Rightarrow> toggle \<Rightarrow> sink_error + bool" where
  "reject_non_bool name (Toggle b) = Inr b"
| "reject_non_bool name Toggle_other = Inl (Toggle_type_error name)"

definition default_sink_options :: "'p sink_options" where
  "default_sink_options = \<lparr>op_title = None, op_force = False, op_emit_group = Toggle True,
    op_emit_annotation = Toggle True, op_argv_title = Toggle False, op_redaction = None\<rparr>"

definition normalize_sink_options :: "'p sink_options \<Rightarrow> sink_error + 'p actions_sink" where
  "normalize_sink_options settings =
    rbind (reject_non_bool (lit ''emit_group'') (op_emit_group settings)) (\<lambda>emit_group.
    rbind (reject_non_bool (lit ''emit_annotation'') (op_emit_annotation settings)) (\<lambda>emit_annotation.
    rbind (reject_non_bool (lit ''argv_title'') (op_argv_title settings)) (\<lambda>argv_title.
    Inr \<lparr>sk_title = op_title settings, sk_force = op_force settings, sk_emit_group = emit_group,
      sk_emit_annotation = emit_annotation, sk_argv_title = argv_title,
      sk_redaction = op_redaction settings\<rparr>)))"

text \<open>The environment is read at every opening.\<close>

definition sink_is_active :: "(ustr \<Rightarrow> ustr option) \<Rightarrow> 'p actions_sink \<Rightarrow> bool" where
  "sink_is_active environ self \<longleftrightarrow>
    sk_force self \<or> environ (lit ''GITHUB_ACTIONS'') = Some (lit ''true'')"

definition open_actions_session ::
  "('p \<Rightarrow> ustr \<Rightarrow> ustr + span list) \<Rightarrow> (ustr \<Rightarrow> ustr option) \<Rightarrow> ustr \<Rightarrow> 'p actions_sink \<Rightarrow>
    session_start \<Rightarrow> writes \<Rightarrow> sink_error + actions_session option \<times> writes" where
  "open_actions_session finditer environ token self start log =
    (if \<not> sink_is_active environ self then Inr (None, log)
     else
       case redacted_session_titles finditer (session_titles_of start (sk_title self) (sk_argv_title self))
           (sk_redaction self) (sk_emit_group self) (sk_emit_annotation self) of
         Inl e \<Rightarrow> Inl (Title_redaction_error e)
       | Inr titles \<Rightarrow>
           rbind (new_actions_session token (ti_group titles)
               (Annotation_bundle \<lparr>sa_label = ti_annotation titles, sa_emit_group = sk_emit_group self,
                 sa_emit_annotation = sk_emit_annotation self\<rparr>) log)
             (\<lambda>(session, log). Inr (Some session, log)))"

section \<open>The run's bracket\<close>

definition run_label :: "ustr \<Rightarrow> ustr \<Rightarrow> ustr" where
  "run_label project program = project @ lit '': '' @ program"

definition command_session_start :: "ustr \<Rightarrow> ustr \<Rightarrow> ustr list \<Rightarrow> session_start" where
  "command_session_start project program args =
    \<lparr>st_label = run_label project program, st_argv = program # args\<rparr>"

record sink_bracket =
  sb_session :: "actions_session option"
  sb_opened :: bool

definition new_bracket :: sink_bracket where
  "new_bracket = \<lparr>sb_session = None, sb_opened = False\<rparr>"

text \<open>\<open>open_session\<close> takes what the sink does with the log; a sink that raises leaves the bracket
  opened and empty.\<close>

definition bracket_open ::
  "(writes \<Rightarrow> sink_error + actions_session option \<times> writes) option \<Rightarrow> sink_bracket \<Rightarrow> writes \<Rightarrow>
    sink_bracket \<times> (sink_error + writes)" where
  "bracket_open opener self log =
    (if sb_opened self then (self, Inl Bracket_opened_twice)
     else
       let self = self\<lparr>sb_opened := True\<rparr>
       in case opener of
            None \<Rightarrow> (self\<lparr>sb_session := None\<rparr>, Inr log)
          | Some open_sink \<Rightarrow>
              case open_sink log of
                Inl e \<Rightarrow> (self, Inl e)
              | Inr (session, log) \<Rightarrow> (self\<lparr>sb_session := session\<rparr>, Inr log))"

definition bracket_close :: "session_outcome \<Rightarrow> sink_bracket \<Rightarrow> writes \<Rightarrow> sink_bracket \<times> writes" where
  "bracket_close outcome self log =
    (case sb_session self of
       None \<Rightarrow> (self\<lparr>sb_session := None\<rparr>, log)
     | Some session \<Rightarrow> (self\<lparr>sb_session := None\<rparr>, snd (close_actions_session session outcome log)))"

text \<open>Where mirrored output goes: the session's log or the caller's destination.\<close>

definition uses_session_log :: "sink_bracket \<Rightarrow> bool" where
  "uses_session_log self \<longleftrightarrow>
    (case sb_session self of None \<Rightarrow> False | Some session \<Rightarrow> redirects_echo session)"

section \<open>The convenience flags\<close>

text \<open>A sink object is its identity and its settings.\<close>

record ('i, 's) output_flags =
  of_group :: bool
  of_annotate_failure :: bool
  of_sink :: "('i \<times> 's) option"
  of_synthesized :: "('i \<times> 's) option"

definition same_object :: "('i \<times> 's) option \<Rightarrow> ('i \<times> 's) option \<Rightarrow> bool" where
  "same_object a b \<longleftrightarrow> map_option fst a = map_option fst b"

definition synthesize_sink ::
  "'i \<Rightarrow> (bool \<Rightarrow> bool \<Rightarrow> 's) \<Rightarrow> ('i, 's) output_flags \<Rightarrow> ('i, 's) output_flags" where
  "synthesize_sink fresh build options =
    (let is_synthesized_sink = same_object (of_sink options) (of_synthesized options)
     in if of_sink options \<noteq> None \<and> \<not> is_synthesized_sink then options\<lparr>of_synthesized := None\<rparr>
        else if \<not> (of_group options \<or> of_annotate_failure options)
        then (if is_synthesized_sink then options\<lparr>of_sink := None\<rparr> else options)\<lparr>of_synthesized := None\<rparr>
        else
          let sink = (fresh, build (of_group options) (of_annotate_failure options))
          in options\<lparr>of_sink := Some sink, of_synthesized := Some sink\<rparr>)"

section \<open>The protocol the runner reads\<close>

text \<open>
  The reference.  A reader of a command line undoes the escapes in one pass from left to right; a
  runner reads the log line by line, and a lease \<open>::stop-commands::token\<close> makes it ignore every line
  up to \<open>::token::\<close>.  What it makes of a line outside a lease is the parameter \<open>meaning\<close>.
\<close>

fun unescape :: "(ustr \<times> nat) list \<Rightarrow> ustr \<Rightarrow> ustr" where
  "unescape codes (x # a # b # s) =
    (case if x = 37 then map_of codes [a, b] else None of
       Some c \<Rightarrow> c # unescape codes s
     | None \<Rightarrow> x # unescape codes (a # b # s))"
| "unescape codes s = s"

definition data_codes :: "(ustr \<times> nat) list" where
  "data_codes = [(lit ''25'', 37), (lit ''0D'', 13), (lit ''0A'', 10)]"

definition property_codes :: "(ustr \<times> nat) list" where
  "property_codes = data_codes @ [(lit ''3A'', 58), (lit ''2C'', 44)]"

text \<open>An error command: the title up to the colons, the message up to the line feed.\<close>

definition read_annotation :: "ustr \<Rightarrow> (ustr \<times> ustr) option" where
  "read_annotation line =
    (let head = lit ''::error title='';
         body = drop (length head) line;
         title = takeWhile (\<lambda>x. x \<noteq> 58 \<and> x \<noteq> 44) body;
         rest = drop (length title) body
     in if prefix head line \<and> prefix (lit ''::'') rest
        then Some (unescape property_codes title, unescape data_codes (takeWhile (\<lambda>x. x \<noteq> 10) (drop 2 rest)))
        else None)"

fun text_lines :: "ustr \<Rightarrow> ustr list" where
  "text_lines [] = []"
| "text_lines (x # s) =
    (if x = 10 then [] # text_lines s
     else case text_lines s of [] \<Rightarrow> [[x]] | line # lines \<Rightarrow> (x # line) # lines)"

definition lease_token :: "ustr \<Rightarrow> ustr option" where
  "lease_token line =
    (if prefix (stop_line []) line then Some (drop (length (stop_line [])) line) else None)"

fun runner_sees :: "(ustr \<Rightarrow> 'c option) \<Rightarrow> ustr option \<Rightarrow> ustr list \<Rightarrow> 'c list \<times> ustr option" where
  "runner_sees meaning stopped [] = ([], stopped)"
| "runner_sees meaning (Some token) (line # lines) =
    runner_sees meaning (if line = resume_line token then None else Some token) lines"
| "runner_sees meaning None (line # lines) =
    (case lease_token line of
       Some token \<Rightarrow> runner_sees meaning (Some token) lines
     | None \<Rightarrow>
         let (seen, stopped) = runner_sees meaning None lines
         in ((case meaning line of None \<Rightarrow> seen | Some c \<Rightarrow> c # seen), stopped))"

section \<open>Escapes\<close>

lemma str_replace_simps [simp]:
  "str_replace c r [] = []"
  "str_replace c r (x # s) = (if x = c then r else [x]) @ str_replace c r s"
  "str_replace c r (s @ t) = str_replace c r s @ str_replace c r t"
  by (simp_all add: str_replace_def)

definition data_char :: "nat \<Rightarrow> ustr" where
  "data_char x = (if x = 37 then lit ''%25'' else if x = 13 then lit ''%0D''
    else if x = 10 then lit ''%0A'' else [x])"

definition property_char :: "nat \<Rightarrow> ustr" where
  "property_char x = (if x = 58 then lit ''%3A'' else if x = 44 then lit ''%2C'' else data_char x)"

lemma escape_data_chars: "escape_data s = concat (map data_char s)"
  by (induction s) (simp_all add: escape_data_def data_char_def lit_def)

lemma escape_property_chars: "escape_property s = concat (map property_char s)"
  unfolding escape_property_def escape_data_chars
  by (induction s) (simp_all add: data_char_def property_char_def lit_def)

lemma unescape_plain: "x \<noteq> 37 \<Longrightarrow> unescape codes (x # s) = x # unescape codes s"
  by (cases s rule: remdups_adj.cases) auto

lemma unescape_concat:
  assumes "\<And>x s. unescape codes (f x @ s) = x # unescape codes s"
  shows "unescape codes (concat (map f s)) = s"
  by (induction s) (simp_all add: assms)

lemma unescape_escape_data: "unescape data_codes (escape_data s) = s"
  unfolding escape_data_chars
  by (rule unescape_concat) (simp add: data_char_def data_codes_def lit_def unescape_plain)

lemma unescape_escape_property: "unescape property_codes (escape_property s) = s"
  unfolding escape_property_chars
  by (rule unescape_concat)
    (simp add: property_char_def data_char_def property_codes_def data_codes_def lit_def unescape_plain)

lemma set_escape_data: "10 \<notin> set (escape_data s)" "13 \<notin> set (escape_data s)"
  by (auto simp: escape_data_chars data_char_def lit_def)

lemma set_escape_property:
  "10 \<notin> set (escape_property s)" "13 \<notin> set (escape_property s)" "58 \<notin> set (escape_property s)"
  "44 \<notin> set (escape_property s)"
  by (auto simp: escape_property_chars property_char_def data_char_def lit_def)

section \<open>Lines\<close>

definition terminated :: "ustr \<Rightarrow> bool" where
  "terminated s \<longleftrightarrow> s = [] \<or> last s = 10"

lemma text_lines_line: "10 \<notin> set line \<Longrightarrow> text_lines (line @ 10 # s) = line # text_lines s"
  by (induction line) auto

lemma text_lines_rest: "10 \<notin> set line \<Longrightarrow> line \<noteq> [] \<Longrightarrow> text_lines line = [line]"
proof (induction line)
  case (Cons x line)
  then show ?case by (cases "line = []") auto
qed simp

lemma text_lines_append: "terminated s \<Longrightarrow> text_lines (s @ t) = text_lines s @ text_lines t"
proof (induction s)
  case (Cons x s)
  show ?case
  proof (cases "s = []")
    case True
    with Cons.prems show ?thesis by (simp add: terminated_def)
  next
    case False
    with Cons.prems have "terminated s"
      by (simp add: terminated_def)
    moreover from this False have "text_lines s \<noteq> []"
      by (cases s) (auto split: list.split)
    ultimately show ?thesis
      using Cons.IH by (cases "text_lines s") auto
  qed
qed simp

lemma runner_sees_append:
  "runner_sees meaning stopped (lines @ rest) =
    (let (seen, stopped) = runner_sees meaning stopped lines;
         (later, stopped) = runner_sees meaning stopped rest
     in (seen @ later, stopped))"
  by (induction meaning stopped lines rule: runner_sees.induct)
    (auto simp: Let_def case_prod_beta split: option.split)

lemma runner_sees_leased:
  "resume_line token \<notin> set lines \<Longrightarrow> runner_sees meaning (Some token) lines = ([], Some token)"
  by (induction lines) auto

lemma runner_sees_plain:
  "lease_token line = None \<Longrightarrow>
    runner_sees meaning None (line # lines) =
      (case meaning line of None \<Rightarrow> fst (runner_sees meaning None lines)
        | Some c \<Rightarrow> c # fst (runner_sees meaning None lines),
       snd (runner_sees meaning None lines))"
  by (simp add: Let_def case_prod_beta)

lemma lease_token_lines [simp]:
  "lease_token (group_line label) = None"
  "lease_token (lit ''::endgroup::'') = None"
  "lease_token (error_line title message) = None"
  "lease_token (stop_line token) = Some token"
  by (simp_all add: lease_token_def group_line_def stop_line_def error_line_def lit_def)

lemma set_command_lines:
  "10 \<notin> set (group_line label)" "10 \<notin> set (lit ''::endgroup::'')" "10 \<notin> set (error_line title message)"
  "10 \<notin> set token \<Longrightarrow> 10 \<notin> set (stop_line token)"
  "10 \<notin> set token \<Longrightarrow> 10 \<notin> set (resume_line token)"
  using set_escape_data set_escape_property
  by (auto simp: group_line_def stop_line_def resume_line_def error_line_def lit_def)

section \<open>Properties\<close>

definition failure_detail :: "session_outcome \<Rightarrow> ustr" where
  "failure_detail outcome =
    (if so_detail outcome \<in> {None, Some []} then outcome_value (so_outcome outcome)
     else the (so_detail outcome))"

lemma emit_error_annotation_line:
  "emit_error_annotation self outcome log =
    log @ [error_line (as_annotation_label self) (failure_detail outcome) @ [10]]"
  by (auto simp: emit_error_annotation_def failure_detail_def split: option.split)

text \<open>(C31) An error annotation is one line, and a reader of the workflow command gets back exactly the
  title and the message that were annotated, whatever characters they hold: the percent signs, line
  ends, colons and commas of either cannot end a field or start another command.\<close>

theorem annotation_round_trip:
  "10 \<notin> set (error_line title message) \<and> 13 \<notin> set (error_line title message) \<and>
    read_annotation (error_line title message @ [10]) = Some (title, message)"
proof -
  let ?T = "escape_property title" and ?M = "escape_data message"
  have line: "error_line title message = lit ''::error title='' @ ?T @ [58, 58] @ ?M"
    by (simp add: error_line_def lit_def)
  have title: "takeWhile (\<lambda>x. x \<noteq> 58 \<and> x \<noteq> 44) (?T @ [58, 58] @ ?M @ [10]) = ?T"
    using set_escape_property [of title] by (subst takeWhile_append2) auto
  have "takeWhile (\<lambda>x. x \<noteq> 10) (?M @ [10]) = ?M"
    using set_escape_data [of message] by (subst takeWhile_append2) auto
  moreover have "lit ''::'' = [58, 58]"
    by (simp add: lit_def)
  ultimately have "read_annotation (error_line title message @ [10]) = Some (title, message)"
    unfolding line read_annotation_def Let_def
    using title by (simp add: unescape_escape_data unescape_escape_property)
  moreover have "10 \<notin> set (error_line title message)" "13 \<notin> set (error_line title message)"
    unfolding line using set_escape_data set_escape_property by (auto simp: lit_def)
  ultimately show ?thesis by blast
qed

lemma new_session_opened:
  assumes "new_actions_session token label (Annotation_bundle a) [] = Inr (session, opened)"
    and "sa_emit_group a"
  shows "opened = [group_line label @ [10], stop_line token @ [10]] \<and> as_stop_token session = token \<and>
    as_emit_group session \<and> as_emit_annotation session = sa_emit_annotation a \<and> \<not> as_closed session \<and>
    as_annotation_label session = sa_label a"
  using assms by (auto simp: new_actions_session_def Let_def)

lemma close_session_writes:
  assumes "as_emit_group session" "\<not> as_closed session"
  shows "snd (close_actions_session session outcome log) =
    log @ [resume_line (as_stop_token session) @ [10], lit ''::endgroup::'' @ [10]] @
      (if as_emit_annotation session \<and> so_outcome outcome \<noteq> Exit_zero
       then [error_line (as_annotation_label session) (failure_detail outcome) @ [10]] else [])"
  using assms by (simp add: close_actions_session_def Let_def emit_error_annotation_line)

lemma frame_opening:
  assumes "10 \<notin> set token"
  shows "text_lines (concat [group_line label @ [10], stop_line token @ [10]] @ s) =
    group_line label # stop_line token # text_lines s"
  using text_lines_line [of "group_line label"] text_lines_line [of "stop_line token"]
    set_command_lines assms by simp

text \<open>The lines a session writes when it closes, after the release.\<close>

definition closing_lines :: "session_annotation \<Rightarrow> session_outcome \<Rightarrow> ustr list" where
  "closing_lines a outcome = lit ''::endgroup::'' #
    (if sa_emit_annotation a \<and> so_outcome outcome \<noteq> Exit_zero
     then [error_line (sa_label a) (failure_detail outcome)] else [])"

lemma text_lines_closing:
  "10 \<notin> set line \<Longrightarrow>
    text_lines (concat (map (\<lambda>line. line @ [10]) (line # closing_lines a outcome))) =
      line # closing_lines a outcome"
  using set_command_lines(2,3) by (simp add: text_lines_line closing_lines_def)

lemma session_text:
  assumes "new_actions_session token label (Annotation_bundle a) [] = Inr (session, opened)"
    and "sa_emit_group a"
  shows "concat (snd (close_actions_session session outcome (opened @ [child]))) =
    concat [group_line label @ [10], stop_line token @ [10]] @ child @
      concat (map (\<lambda>line. line @ [10]) (resume_line token # closing_lines a outcome))"
  using new_session_opened [OF assms] by (simp add: close_session_writes closing_lines_def)

text \<open>(C22) The lease shields the frame: when the child's output ends its last line and never contains
  the session's own release, the runner interprets exactly the group opening, the group end and, for a
  failed run, one error annotation; no line of the child is interpreted, whatever it is, and the lease
  is released at the end.\<close>

theorem session_shields_child_output:
  assumes "new_actions_session token label (Annotation_bundle a) [] = Inr (session, opened)"
    and "sa_emit_group a" "10 \<notin> set token"
    and "terminated child" "resume_line token \<notin> set (text_lines child)"
  shows "runner_sees meaning None
      (text_lines (concat (snd (close_actions_session session outcome (opened @ [child]))))) =
    (List.map_filter meaning
      ([group_line label, lit ''::endgroup::''] @
        (if sa_emit_annotation a \<and> so_outcome outcome \<noteq> Exit_zero
         then [error_line (sa_label a) (failure_detail outcome)] else [])), None)"
proof -
  let ?closing = "resume_line token # closing_lines a outcome"
  have "text_lines (concat (snd (close_actions_session session outcome (opened @ [child])))) =
      group_line label # stop_line token # text_lines child @ ?closing"
    unfolding session_text [OF assms(1,2)] frame_opening [OF assms(3)] text_lines_append [OF assms(4)]
    using text_lines_closing [OF set_command_lines(5) [OF assms(3)]] by simp
  moreover have "runner_sees meaning None (stop_line token # text_lines child @ ?closing) =
      runner_sees meaning None (closing_lines a outcome)"
    using runner_sees_leased [OF assms(5), of meaning]
    by (simp add: runner_sees_append Let_def case_prod_beta)
  ultimately show ?thesis
    by (simp add: runner_sees_plain closing_lines_def map_filter_simps split: option.split)
qed

lemma session_shields_child_output_witness:
  "runner_sees Some None (text_lines (concat (snd (close_actions_session
      \<lparr>as_label = lit ''p: ls'', as_annotation_label = lit ''p: ls'', as_emit_group = True,
        as_emit_annotation = True, as_closed = False, as_stop_token = lit ''a1''\<rparr>
      (outcome_for_result 2)
      [group_line (lit ''p: ls'') @ [10], stop_line (lit ''a1'') @ [10], lit ''::group::x'' @ [10]])))) =
    ([group_line (lit ''p: ls''), lit ''::endgroup::'', error_line (lit ''p: ls'') (lit ''exit_nonzero'')],
     None)"
proof -
  let ?a = "\<lparr>sa_label = lit ''p: ls'', sa_emit_group = True, sa_emit_annotation = True\<rparr>"
  let ?session = "\<lparr>as_label = lit ''p: ls'', as_annotation_label = lit ''p: ls'', as_emit_group = True,
    as_emit_annotation = True, as_closed = False, as_stop_token = lit ''a1''\<rparr>"
  let ?opened = "[group_line (lit ''p: ls'') @ [10], stop_line (lit ''a1'') @ [10]]"
  have opened: "new_actions_session (lit ''a1'') (lit ''p: ls'') (Annotation_bundle ?a) [] = Inr (?session, ?opened)"
    by (simp add: new_actions_session_def Let_def)
  have "terminated (lit ''::group::x'' @ [10])" "10 \<notin> set (lit ''a1'')"
    "resume_line (lit ''a1'') \<notin> set (text_lines (lit ''::group::x'' @ [10]))"
    by code_simp+
  with session_shields_child_output [OF opened, of "lit ''::group::x'' @ [10]" Some "outcome_for_result 2"]
  show ?thesis
    by (simp add: map_filter_simps outcome_for_result_def failure_detail_def)
qed

text \<open>The hypothesis on the last line is needed.  When the child's output stops in the middle of a
  line, the release is appended to that line and the runner does not read it: the lease stays open, and
  neither the end of the group nor the annotation is interpreted.\<close>

lemma unterminated_output_keeps_lease:
  assumes "new_actions_session token label (Annotation_bundle a) [] = Inr (session, opened)"
    and "sa_emit_group a" and hexadecimal: "set token \<subseteq> set (lit ''0123456789abcdef'')"
    and "terminated child" "resume_line token \<notin> set (text_lines child)"
    and "10 \<notin> set partial" "partial \<noteq> []"
  shows "runner_sees meaning None
      (text_lines (concat (snd (close_actions_session session outcome (opened @ [child @ partial]))))) =
    (List.map_filter meaning [group_line label], Some token)"
proof -
  have token: "10 \<notin> set token" "110 \<notin> set token" "116 \<notin> set token"
    using hexadecimal by (auto simp: lit_def)
  let ?closing = "(partial @ resume_line token) # closing_lines a outcome"
  have "10 \<notin> set (partial @ resume_line token)"
    using set_command_lines(5) [OF token(1)] assms(6) by simp
  note closing = text_lines_closing [OF this, of a outcome]
  have joined: "concat (snd (close_actions_session session outcome (opened @ [child @ partial]))) =
      concat [group_line label @ [10], stop_line token @ [10]] @ child @
        concat (map (\<lambda>line. line @ [10]) ?closing)"
    unfolding session_text [OF assms(1,2)] by simp
  have lines: "text_lines (concat (snd (close_actions_session session outcome
        (opened @ [child @ partial])))) = group_line label # stop_line token # text_lines child @ ?closing"
    unfolding joined frame_opening [OF token(1)] text_lines_append [OF assms(4)] closing ..
  have "resume_line token \<notin> set (text_lines child @ ?closing)"
    using assms(5,7) token
    by (auto simp: resume_line_def closing_lines_def error_line_def lit_def append_eq_Cons_conv Cons_eq_append_conv)
  then have "runner_sees meaning None (stop_line token # text_lines child @ ?closing) = ([], Some token)"
    by (simp add: runner_sees_leased)
  then show ?thesis
    unfolding lines by (simp add: runner_sees_plain map_filter_simps split: option.split)
qed

lemma unterminated_output_keeps_lease_witness:
  "runner_sees Some None (text_lines (concat (snd (close_actions_session
      \<lparr>as_label = lit ''p: ls'', as_annotation_label = lit ''p: ls'', as_emit_group = True,
        as_emit_annotation = True, as_closed = False, as_stop_token = lit ''a1''\<rparr>
      (outcome_for_result 2)
      [group_line (lit ''p: ls'') @ [10], stop_line (lit ''a1'') @ [10], lit ''abc'' @ [10] @ lit ''de'']))) ) =
    ([group_line (lit ''p: ls'')], Some (lit ''a1''))"
proof -
  let ?a = "\<lparr>sa_label = lit ''p: ls'', sa_emit_group = True, sa_emit_annotation = True\<rparr>"
  let ?session = "\<lparr>as_label = lit ''p: ls'', as_annotation_label = lit ''p: ls'', as_emit_group = True,
    as_emit_annotation = True, as_closed = False, as_stop_token = lit ''a1''\<rparr>"
  let ?opened = "[group_line (lit ''p: ls'') @ [10], stop_line (lit ''a1'') @ [10]]"
  have opened: "new_actions_session (lit ''a1'') (lit ''p: ls'') (Annotation_bundle ?a) [] = Inr (?session, ?opened)"
    by (simp add: new_actions_session_def Let_def)
  have "terminated (lit ''abc'' @ [10])" "set (lit ''a1'') \<subseteq> set (lit ''0123456789abcdef'')"
    "resume_line (lit ''a1'') \<notin> set (text_lines (lit ''abc'' @ [10]))" "10 \<notin> set (lit ''de'')" "lit ''de'' \<noteq> []"
    by code_simp+
  with unterminated_output_keeps_lease [OF opened, of "lit ''abc'' @ [10]" "lit ''de''" Some "outcome_for_result 2"]
  show ?thesis
    by (simp add: map_filter_simps)
qed

section \<open>Closing once, and the flags\<close>

lemma close_again:
  "close_actions_session (fst (close_actions_session session outcome log)) outcome' log' =
    (fst (close_actions_session session outcome log), log')"
  by (simp add: close_actions_session_def Let_def)

lemma bracket_close_again:
  "bracket_close outcome' (fst (bracket_close outcome self log)) log' =
    (fst (bracket_close outcome self log), log')"
  by (simp add: bracket_close_def split: option.split)

text \<open>The options of a caller that set no sink of its own follow the flags through every change; a
  caller's sink is kept.\<close>

definition tracks_flags :: "('i, 's) output_flags \<Rightarrow> bool" where
  "tracks_flags options \<longleftrightarrow> same_object (of_sink options) (of_synthesized options)"

lemma synthesized_follows_flags:
  assumes "tracks_flags options"
  shows "of_sink (synthesize_sink fresh build (options\<lparr>of_group := g, of_annotate_failure := a\<rparr>)) =
      (if g \<or> a then Some (fresh, build g a) else None) \<and>
    tracks_flags (synthesize_sink fresh build (options\<lparr>of_group := g, of_annotate_failure := a\<rparr>))"
  using assms by (simp add: synthesize_sink_def tracks_flags_def same_object_def Let_def)

lemma explicit_sink_kept:
  assumes "of_sink options \<noteq> None" "\<not> tracks_flags options"
  shows "of_sink (synthesize_sink fresh build options) = of_sink options \<and>
    \<not> tracks_flags (synthesize_sink fresh build options)"
  using assms by (simp add: synthesize_sink_def tracks_flags_def same_object_def Let_def)

end
