(* ===== verification/Concurrent.thy ===== *)
theory Concurrent
  imports Context_Policy
begin

text \<open>
  Concurrent execution (\<open>cuprum/concurrent.py\<close>, \<open>_concurrent_config.py\<close>).  A result is a record with its
  exit code and the rest of what the command reported; running one command is the environment's
  part: it ends with a result or an exception.  The semaphore, the task group and \<open>gather\<close> of asyncio
  are modelled by the events of \<open>run_step\<close>.
\<close>

section \<open>Configuration\<close>

text \<open>A value where the code expects an exact \<open>int\<close>.\<close>

datatype py_number = Exact_int int | Bool_number bool | Not_an_int

datatype concurrent_error =
    Concurrency_type_error
  | Concurrency_too_small int
  | Index_type_error ustr
  | Index_negative ustr int
  | Index_out_of_range ustr int nat
  | Index_not_ascending ustr
  | Submission_length_mismatch nat nat
  | No_commands
  | Command_forbidden context_error

record concurrent_config =
  cc_concurrency :: "py_number option"
  cc_fail_fast :: bool

definition concurrent_config_post_init :: "concurrent_config \<Rightarrow> concurrent_error + nat option" where
  "concurrent_config_post_init self =
    (case cc_concurrency self of
       None \<Rightarrow> Inr None
     | Some (Exact_int n) \<Rightarrow> if n < 1 then Inl (Concurrency_too_small n) else Inr (Some (nat n))
     | Some _ \<Rightarrow> Inl Concurrency_type_error)"

section \<open>Results\<close>

record 'd command_result =
  cr_exit_code :: int
  cr_data :: 'd

definition command_ok :: "'d command_result \<Rightarrow> bool" where
  "command_ok result \<longleftrightarrow> cr_exit_code result = 0"

fun validate_index_type :: "ustr \<Rightarrow> py_number \<Rightarrow> concurrent_error + int" where
  "validate_index_type subject (Exact_int i) = Inr i"
| "validate_index_type subject v = Inl (Index_type_error subject)"

definition validate_index_bounds :: "ustr \<Rightarrow> nat option \<Rightarrow> int \<Rightarrow> concurrent_error + unit" where
  "validate_index_bounds subject upper_bound index =
    (case upper_bound of
       None \<Rightarrow> if index < 0 then Inl (Index_negative subject index) else Inr ()
     | Some bound \<Rightarrow>
         if \<not> (0 \<le> index \<and> index < int bound) then Inl (Index_out_of_range subject index bound) else Inr ())"

fun validate_indices_from ::
  "int \<Rightarrow> ustr \<Rightarrow> nat option \<Rightarrow> py_number list \<Rightarrow> concurrent_error + nat list" where
  "validate_indices_from previous subject upper_bound [] = Inr []"
| "validate_indices_from previous subject upper_bound (v # vs) =
    rbind (validate_index_type subject v) (\<lambda>index.
    rbind (validate_index_bounds subject upper_bound index) (\<lambda>_.
      if index \<le> previous then Inl (Index_not_ascending subject)
      else rbind (validate_indices_from index subject upper_bound vs) (\<lambda>indices.
        Inr (nat index # indices))))"

definition validate_index_sequence :: "ustr \<Rightarrow> nat option \<Rightarrow> py_number list \<Rightarrow> concurrent_error + nat list" where
  "validate_index_sequence = validate_indices_from (-1)"

definition validate_failure_indices :: "nat \<Rightarrow> py_number list \<Rightarrow> concurrent_error + nat list" where
  "validate_failure_indices result_count = validate_index_sequence (lit ''failures'') (Some result_count)"

definition validate_submission_index_values :: "py_number list \<Rightarrow> concurrent_error + nat list" where
  "validate_submission_index_values = validate_index_sequence (lit ''submission_indices'') None"

definition resolve_submission_indices :: "nat \<Rightarrow> py_number list option \<Rightarrow> concurrent_error + nat list" where
  "resolve_submission_indices result_count submission_indices =
    (case submission_indices of
       None \<Rightarrow> Inr [0..<result_count]
     | Some supplied \<Rightarrow>
         if length supplied \<noteq> result_count
         then Inl (Submission_length_mismatch (length supplied) result_count)
         else validate_submission_index_values supplied)"

record 'd concurrent_result =
  cn_results :: "'d command_result list"
  cn_failures :: "nat list"
  cn_submission_indices :: "nat list"

definition new_concurrent_result ::
  "'d command_result list \<Rightarrow> py_number list \<Rightarrow> py_number list option \<Rightarrow>
    concurrent_error + 'd concurrent_result" where
  "new_concurrent_result results failures submission_indices =
    rbind (validate_failure_indices (length results) failures) (\<lambda>failures.
    rbind (resolve_submission_indices (length results) submission_indices) (\<lambda>submission_indices.
    Inr \<lparr>cn_results = results, cn_failures = failures, cn_submission_indices = submission_indices\<rparr>))"

definition concurrent_ok :: "'d concurrent_result \<Rightarrow> bool" where
  "concurrent_ok self \<longleftrightarrow> cn_failures self = []"

definition first_failure :: "'d concurrent_result \<Rightarrow> 'd command_result option" where
  "first_failure self =
    (case cn_failures self of [] \<Rightarrow> None | failure # _ \<Rightarrow> Some (cn_results self ! failure))"

definition failure_submission_indices :: "'d concurrent_result \<Rightarrow> nat list" where
  "failure_submission_indices self = map (\<lambda>index. cn_submission_indices self ! index) (cn_failures self)"

section \<open>Collecting\<close>

fun collect_loop ::
  "'d command_result list \<Rightarrow> nat list \<Rightarrow> nat list \<Rightarrow> (nat \<times> 'd command_result option) list \<Rightarrow>
    'd command_result list \<times> nat list \<times> nat list" where
  "collect_loop results submission_indices failures [] = (results, submission_indices, failures)"
| "collect_loop results submission_indices failures ((submission_index, outcome) # indexed) =
    (case outcome of
       None \<Rightarrow> collect_loop results submission_indices failures indexed
     | Some result \<Rightarrow>
         collect_loop (results @ [result]) (submission_indices @ [submission_index])
           (if \<not> command_ok result then failures @ [length results] else failures) indexed)"

definition collect_results_and_failures ::
  "(nat \<times> 'd command_result option) list \<Rightarrow> 'd command_result list \<times> nat list \<times> nat list" where
  "collect_results_and_failures = collect_loop [] [] []"

definition build_final_results ::
  "'d command_result option list \<Rightarrow> 'd command_result list \<times> nat list \<times> nat list" where
  "build_final_results results = collect_results_and_failures (List.enumerate 0 results)"

definition aggregate :: "'d command_result option list \<Rightarrow> concurrent_error + 'd concurrent_result" where
  "aggregate outcomes =
    (let (results, submission_indices, failures) = build_final_results outcomes
     in new_concurrent_result results (map (Exact_int \<circ> int) failures)
          (Some (map (Exact_int \<circ> int) submission_indices)))"

section \<open>Running\<close>

text \<open>
  \<open>Waiting\<close> is a task that has not passed the semaphore.  A failed command of a fail-fast run raises in
  its task; the group notices in a later callback, which is an event of its own, and only then cancels
  the tasks that are left.  A cancelled command may still complete before the cancellation reaches it.
  \<open>Own_cancel\<close> is a command whose run ends with a \<open>CancelledError\<close> of its own, which a task group does not take for a
  failure, and \<open>Caller_cancel\<close> the cancellation of the task that runs the commands.
\<close>

datatype ('d, 'x) task_status =
    Waiting
  | Running
  | Completed "'d command_result"
  | Task_raised 'x
  | Task_cancelled
  | Task_self_cancelled

record ('d, 'x) run_state =
  rs_tasks :: "('d, 'x) task_status list"
  rs_permits :: "nat option"
  rs_pending :: "nat list"
  rs_aborting :: bool
  rs_errors :: "nat list"
  rs_caller_cancelled :: bool

datatype ('d, 'x) run_event =
    Acquire nat
  | Return nat "'d command_result"
  | Throw nat 'x
  | Cancel nat
  | Own_cancel nat
  | Caller_cancel
  | Notice

definition initial_run :: "nat option \<Rightarrow> nat \<Rightarrow> ('d, 'x) run_state" where
  "initial_run concurrency n =
    \<lparr>rs_tasks = replicate n Waiting, rs_permits = concurrency, rs_pending = [], rs_aborting = False,
     rs_errors = [], rs_caller_cancelled = False\<rparr>"

definition settle_task ::
  "nat \<Rightarrow> ('d, 'x) task_status \<Rightarrow> bool \<Rightarrow> ('d, 'x) run_state \<Rightarrow> ('d, 'x) run_state" where
  "settle_task i status raises s =
    s\<lparr>rs_tasks := (rs_tasks s)[i := status], rs_permits := map_option Suc (rs_permits s),
      rs_pending := (if raises then rs_pending s @ [i] else rs_pending s)\<rparr>"

definition task_is :: "('d, 'x) run_state \<Rightarrow> nat \<Rightarrow> ('d, 'x) task_status \<Rightarrow> bool" where
  "task_is s i status \<longleftrightarrow> i < length (rs_tasks s) \<and> rs_tasks s ! i = status"

fun run_step :: "bool \<Rightarrow> ('d, 'x) run_event \<Rightarrow> ('d, 'x) run_state \<Rightarrow> ('d, 'x) run_state option" where
  "run_step fail_fast (Acquire i) s =
    (if task_is s i Waiting \<and> rs_permits s \<noteq> Some 0 \<and> \<not> rs_aborting s
     then Some (s\<lparr>rs_tasks := (rs_tasks s)[i := Running],
       rs_permits := map_option (\<lambda>p. p - 1) (rs_permits s)\<rparr>)
     else None)"
| "run_step fail_fast (Return i result) s =
    (if task_is s i Running
     then Some (settle_task i (Completed result) (fail_fast \<and> \<not> command_ok result) s)
     else None)"
| "run_step fail_fast (Throw i error) s =
    (if task_is s i Running then Some (settle_task i (Task_raised error) fail_fast s) else None)"
| "run_step fail_fast (Own_cancel i) s =
    (if task_is s i Running then Some (settle_task i Task_self_cancelled False s) else None)"
| "run_step fail_fast Caller_cancel s =
    (if rs_caller_cancelled s then None else Some (s\<lparr>rs_aborting := True, rs_caller_cancelled := True\<rparr>))"
| "run_step fail_fast (Cancel i) s =
    (if rs_aborting s \<and> task_is s i Running then Some (settle_task i Task_cancelled False s)
     else if rs_aborting s \<and> task_is s i Waiting
     then Some (s\<lparr>rs_tasks := (rs_tasks s)[i := Task_cancelled]\<rparr>)
     else None)"
| "run_step fail_fast Notice s =
    (case rs_pending s of
       [] \<Rightarrow> None
     | i # pending \<Rightarrow>
         Some (s\<lparr>rs_pending := pending, rs_aborting := True, rs_errors := rs_errors s @ [i]\<rparr>))"

fun status_result :: "('d, 'x) task_status \<Rightarrow> 'd command_result option" where
  "status_result (Completed result) = Some result"
| "status_result _ = None"

fun status_error :: "('d, 'x) task_status \<Rightarrow> 'x option" where
  "status_error (Task_raised error) = Some error"
| "status_error _ = None"

datatype 'x run_failure = Single_error 'x | Error_group "'x list" | Run_cancelled | Refused concurrent_error

definition lift_error :: "concurrent_error + 'a \<Rightarrow> 'x run_failure + 'a" where
  "lift_error r = (case r of Inl e \<Rightarrow> Inl (Refused e) | Inr v \<Rightarrow> Inr v)"

text \<open>What \<open>gather\<close> returned for a task that did not return, as the error that is raised again.\<close>

fun status_failure :: "('d, 'x) task_status \<Rightarrow> 'x run_failure option" where
  "status_failure (Task_raised error) = Some (Single_error error)"
| "status_failure Task_self_cancelled = Some Run_cancelled"
| "status_failure Task_cancelled = Some Run_cancelled"
| "status_failure _ = None"

text \<open>
  What the run returns once every task is done and noticed.  The errors of a group have priority over the caller's
  cancellation.
\<close>

definition collect_all_outcome :: "('d, 'x) run_state \<Rightarrow> 'x run_failure + 'd concurrent_result" where
  "collect_all_outcome s =
    (if rs_caller_cancelled s then Inl Run_cancelled
     else case List.map_filter status_failure (rs_tasks s) of
            failure # _ \<Rightarrow> Inl failure
          | [] \<Rightarrow> lift_error (aggregate (map status_result (rs_tasks s))))"

definition fail_fast_outcome :: "('d, 'x) run_state \<Rightarrow> 'x run_failure + 'd concurrent_result" where
  "fail_fast_outcome s =
    (if rs_caller_cancelled s \<and> rs_errors s = [] then Inl Run_cancelled
     else case List.map_filter (\<lambda>i. status_error (rs_tasks s ! i)) (rs_errors s) of
            [] \<Rightarrow> lift_error (aggregate (map status_result (rs_tasks s)))
          | errors \<Rightarrow> Inl (Error_group errors))"

definition settled_run :: "('d, 'x) run_state \<Rightarrow> bool" where
  "settled_run s \<longleftrightarrow>
    rs_pending s = [] \<and> list_all (\<lambda>status. status \<noteq> Waiting \<and> status \<noteq> Running) (rs_tasks s)"

definition run_outcome :: "bool \<Rightarrow> ('d, 'x) run_state \<Rightarrow> 'x run_failure + 'd concurrent_result" where
  "run_outcome fail_fast s = (if fail_fast then fail_fast_outcome s else collect_all_outcome s)"

text \<open>The checks before any task exists.\<close>

definition start_concurrent ::
  "('h, 'c, 'r) cuprum_context \<Rightarrow> concurrent_config \<Rightarrow> ustr list \<Rightarrow>
    concurrent_error + ('d, 'x) run_state" where
  "start_concurrent ctx config programs =
    rbind (concurrent_config_post_init config) (\<lambda>concurrency.
      if programs = [] then Inl No_commands
      else rbind (traverse (\<lambda>program.
          case check_allowed ctx program of Inl e \<Rightarrow> Inl (Command_forbidden e) | Inr u \<Rightarrow> Inr u) programs)
        (\<lambda>_. Inr (initial_run concurrency (length programs))))"

fun run_events ::
  "bool \<Rightarrow> ('d, 'x) run_event list \<Rightarrow> ('d, 'x) run_state \<Rightarrow> ('d, 'x) run_state option" where
  "run_events fail_fast [] s = Some s"
| "run_events fail_fast (e # es) s =
    (case run_step fail_fast e s of None \<Rightarrow> None | Some s' \<Rightarrow> run_events fail_fast es s')"

section \<open>The constructor\<close>

lemma validate_index_bounds_Inr [result_iff]:
  "validate_index_bounds subject upper_bound index = Inr u \<longleftrightarrow>
    0 \<le> index \<and> (\<forall>bound. upper_bound = Some bound \<longrightarrow> index < int bound)"
  by (auto simp: validate_index_bounds_def split: option.splits)

lemma validate_index_type_Inr [result_iff]: "validate_index_type subject v = Inr i \<longleftrightarrow> v = Exact_int i"
  by (cases v) auto

definition below :: "nat option \<Rightarrow> nat \<Rightarrow> bool" where
  "below upper_bound i \<longleftrightarrow> (case upper_bound of None \<Rightarrow> True | Some bound \<Rightarrow> i < bound)"

abbreviation exact_ints :: "nat list \<Rightarrow> py_number list" where
  "exact_ints \<equiv> map (Exact_int \<circ> int)"

text \<open>Accepted sequences are the exact integers that ascend strictly below the bound.\<close>

lemma validate_indices_from_Inr:
  "validate_indices_from previous subject upper_bound vs = Inr is \<longleftrightarrow>
    vs = exact_ints is \<and> sorted_wrt (<) is \<and> list_all (below upper_bound) is \<and>
      (case is of [] \<Rightarrow> True | i # _ \<Rightarrow> previous < int i)"
proof (induction vs arbitrary: "is" previous)
  case (Cons v vs)
  show ?case
  proof
    assume "validate_indices_from previous subject upper_bound (v # vs) = Inr is"
    then obtain i js where i: "v = Exact_int i" "0 \<le> i" "previous < i" "is = nat i # js"
      "\<forall>bound. upper_bound = Some bound \<longrightarrow> i < int bound"
      and js: "validate_indices_from i subject upper_bound vs = Inr js"
      by (auto simp: result_iff split: if_splits)
    have js: "vs = exact_ints js" "sorted_wrt (<) js" "list_all (below upper_bound) js"
      "case js of [] \<Rightarrow> True | j # _ \<Rightarrow> i < int j"
      using Cons.IH js by auto
    have "sorted_wrt (<) (nat i # js)"
    proof (cases js)
      case (Cons j more)
      with js(2,4) i(2) show ?thesis by auto
    qed simp
    with i js show "v # vs = exact_ints is \<and> sorted_wrt (<) is \<and> list_all (below upper_bound) is \<and>
      (case is of [] \<Rightarrow> True | i # _ \<Rightarrow> previous < int i)"
      by (auto simp: below_def split: option.split)
  next
    assume right: "v # vs = exact_ints is \<and> sorted_wrt (<) is \<and> list_all (below upper_bound) is \<and>
      (case is of [] \<Rightarrow> True | i # _ \<Rightarrow> previous < int i)"
    then obtain i js where "is": "is = i # js" "v = Exact_int (int i)" "vs = exact_ints js"
      by (cases "is") auto
    then have "validate_indices_from (int i) subject upper_bound vs = Inr js"
      using right Cons.IH [of "int i" js] by (auto split: list.split)
    with "is" right show "validate_indices_from previous subject upper_bound (v # vs) = Inr is"
      by (auto simp: result_iff below_def split: option.splits)
  qed
qed (auto split: list.split)

lemma validate_index_sequence_Inr [result_iff]:
  "validate_index_sequence subject upper_bound vs = Inr is \<longleftrightarrow>
    vs = exact_ints is \<and> sorted_wrt (<) is \<and> list_all (below upper_bound) is"
  unfolding validate_index_sequence_def validate_indices_from_Inr by (auto split: list.split)

lemma list_all_below [simp]:
  "list_all (below None) is"
  "list_all (below (Some n)) is \<longleftrightarrow> list_all (\<lambda>i. i < n) is"
  by (auto simp: below_def list_all_def)

section \<open>Aggregation\<close>

definition indices_where :: "('a \<Rightarrow> bool) \<Rightarrow> 'a list \<Rightarrow> nat list" where
  "indices_where P xs = filter (\<lambda>i. P (xs ! i)) [0..<length xs]"

lemma indices_where_Nil [simp]: "indices_where P [] = []"
  by (simp add: indices_where_def)

lemma filter_upt_cong: "(\<And>i. i < n \<Longrightarrow> P i = Q i) \<Longrightarrow> filter P [0..<n] = filter Q [0..<n]"
  by (rule filter_cong) auto

lemma indices_where_snoc:
  "indices_where P (xs @ [x]) = indices_where P xs @ (if P x then [length xs] else [])"
  using filter_upt_cong [of "length xs" "\<lambda>i. P ((xs @ [x]) ! i)" "\<lambda>i. P (xs ! i)"]
  by (simp add: indices_where_def nth_append)

lemma indices_where_sorted: "sorted_wrt (<) (indices_where P xs)"
  by (simp add: indices_where_def sorted_wrt_filter)

lemma set_indices_where: "set (indices_where P xs) = {i. i < length xs \<and> P (xs ! i)}"
  by (auto simp: indices_where_def)

lemma indices_where_map: "indices_where P (map f xs) = indices_where (P \<circ> f) xs"
  using filter_upt_cong [of "length xs" "\<lambda>i. P (map f xs ! i)" "\<lambda>i. P (f (xs ! i))"]
  by (simp add: indices_where_def)

lemma map_nth_indices_where:
  "length ys = length xs \<Longrightarrow>
    map ((!) ys) (indices_where P xs) = map snd (filter (P \<circ> fst) (zip xs ys))"
proof (induction ys xs rule: rev_induct2)
  case (4 y ys x xs)
  moreover have "map ((!) (ys @ [y])) (indices_where P xs) = map ((!) ys) (indices_where P xs)"
    using 4 by (intro map_cong) (auto simp: set_indices_where nth_append)
  moreover have "(ys @ [y]) ! length xs = y"
    using 4 nth_append_length [of ys y "[]"] by simp
  ultimately show ?case
    by (auto simp: indices_where_snoc)
qed simp_all

lemma find_filter: "find P xs = (case filter P xs of [] \<Rightarrow> None | x # _ \<Rightarrow> Some x)"
  by (induction xs) auto

lemma find_indices_where:
  "(case indices_where P xs of [] \<Rightarrow> None | i # _ \<Rightarrow> Some (xs ! i)) = find P xs"
proof -
  have "map ((!) xs) (indices_where P xs) = filter P xs"
    by (simp add: indices_where_def filter_map [symmetric, unfolded comp_def] map_nth)
  then show ?thesis
    unfolding find_filter by (auto split: list.split)
qed

text \<open>The loop keeps the completed results, where they were submitted and the positions that failed.\<close>

abbreviation command_failed :: "'d command_result \<Rightarrow> bool" where
  "command_failed result \<equiv> \<not> command_ok result"

lemma collect_loop_eq:
  "collect_loop results submissions (indices_where command_failed results) indexed =
    (let found = results @ List.map_filter snd indexed
     in (found, submissions @ map fst (filter (\<lambda>p. snd p \<noteq> None) indexed),
         indices_where command_failed found))"
proof (induction indexed arbitrary: results submissions)
  case (Cons p indexed)
  obtain i outcome where p: "p = (i, outcome)" by fastforce
  show ?case
  proof (cases outcome)
    case None
    then show ?thesis
      using Cons.IH p by (simp add: map_filter_simps)
  next
    case (Some result)
    have "(if command_failed result then indices_where command_failed results @ [length results]
        else indices_where command_failed results) = indices_where command_failed (results @ [result])"
      by (simp add: indices_where_snoc)
    then show ?thesis
      using Some p Cons.IH [of "results @ [result]" "submissions @ [i]"]
      by (simp add: map_filter_simps Let_def)
  qed
qed (simp add: map_filter_simps)

lemma enumerate_map_filter:
  "List.map_filter snd (List.enumerate k outcomes) = List.map_filter id outcomes"
  by (induction outcomes arbitrary: k) (simp_all add: map_filter_simps split: option.split)

lemma enumerate_indices:
  "map fst (filter (\<lambda>p. snd p \<noteq> None) (List.enumerate 0 outcomes)) = indices_where (\<lambda>r. r \<noteq> None) outcomes"
proof (induction outcomes rule: rev_induct)
  case (snoc r outcomes)
  then show ?case
    by (simp add: indices_where_snoc enumerate_append_eq)
qed simp

lemma build_final_results_eq:
  "build_final_results outcomes =
    (List.map_filter id outcomes, indices_where (\<lambda>r. r \<noteq> None) outcomes,
     indices_where command_failed (List.map_filter id outcomes))"
  using collect_loop_eq [of "[]" "[]" "List.enumerate 0 outcomes"]
  unfolding build_final_results_def collect_results_and_failures_def
  by (simp add: enumerate_map_filter enumerate_indices Let_def del: not_None_eq)

lemma map_nth_completed:
  "map (\<lambda>i. the (outcomes ! i)) (indices_where (\<lambda>r. r \<noteq> None) outcomes) = List.map_filter id outcomes"
proof (induction outcomes rule: rev_induct)
  case (snoc r outcomes)
  have "map (\<lambda>i. the ((outcomes @ [r]) ! i)) (indices_where (\<lambda>r. r \<noteq> None) outcomes) =
      map (\<lambda>i. the (outcomes ! i)) (indices_where (\<lambda>r. r \<noteq> None) outcomes)"
    by (intro map_cong) (auto simp: set_indices_where nth_append)
  with snoc show ?case
    by (cases r) (auto simp: indices_where_snoc map_filter_def)
qed (simp add: map_filter_simps)

lemma length_completed: "length (List.map_filter id outcomes) = length (indices_where (\<lambda>r. r \<noteq> None) outcomes)"
  unfolding map_nth_completed [symmetric] by simp

section \<open>Properties of a result\<close>

lemma new_concurrent_result_iff:
  "new_concurrent_result results failures submissions = Inr c \<longleftrightarrow>
    cn_results c = results \<and> failures = exact_ints (cn_failures c) \<and>
    sorted_wrt (<) (cn_failures c) \<and> list_all (\<lambda>i. i < length results) (cn_failures c) \<and>
    (case submissions of
       None \<Rightarrow> cn_submission_indices c = [0..<length results]
     | Some supplied \<Rightarrow> supplied = exact_ints (cn_submission_indices c)) \<and>
    length (cn_submission_indices c) = length results \<and> sorted_wrt (<) (cn_submission_indices c)"
proof -
  have "resolve_submission_indices n submissions = Inr is \<longleftrightarrow>
    (case submissions of None \<Rightarrow> is = [0..<n] | Some supplied \<Rightarrow> supplied = exact_ints is) \<and>
      length is = n \<and> sorted_wrt (<) is" for n "is"
    by (auto simp: resolve_submission_indices_def validate_submission_index_values_def result_iff
        split: option.split)
  then show ?thesis
    by (cases c)
      (auto simp: new_concurrent_result_def validate_failure_indices_def result_iff split: option.splits)
qed

text \<open>A concurrent result is accepted exactly when its failures are exact integers that ascend
  strictly below the number of results and its submission indices, when they are given, are as many
  as the results and ascend strictly; then it holds what was given, or the identity when they are
  omitted.\<close>

theorem concurrent_result_validated:
  "new_concurrent_result results failures submissions = Inr c \<longleftrightarrow>
    cn_results c = results \<and> failures = exact_ints (cn_failures c) \<and>
    sorted_wrt (<) (cn_failures c) \<and> list_all (\<lambda>i. i < length results) (cn_failures c) \<and>
    (case submissions of
       None \<Rightarrow> cn_submission_indices c = [0..<length results]
     | Some supplied \<Rightarrow> supplied = exact_ints (cn_submission_indices c)) \<and>
    length (cn_submission_indices c) = length results \<and> sorted_wrt (<) (cn_submission_indices c)"
  by (rule new_concurrent_result_iff)

text \<open>Aggregating the outcomes of a run never raises and loses nothing: the results are the
  completed commands in submission order, the submission indices are where they were submitted, the
  failures map back to exactly the submitted commands that exited non-zero, the first failure is the
  earliest submitted of them, and the result is ok exactly when there is none.\<close>

lemma aggregate_exact:
  "\<exists>c. aggregate outcomes = Inr c \<and>
    cn_submission_indices c = indices_where (\<lambda>r. r \<noteq> None) outcomes \<and>
    cn_results c = map (\<lambda>i. the (outcomes ! i)) (cn_submission_indices c) \<and>
    failure_submission_indices c = indices_where (\<lambda>r. r \<noteq> None \<and> command_failed (the r)) outcomes \<and>
    first_failure c = find command_failed (cn_results c) \<and>
    (concurrent_ok c \<longleftrightarrow> list_all command_ok (cn_results c))"
proof -
  let ?R = "List.map_filter id outcomes" and ?S = "indices_where (\<lambda>r. r \<noteq> None) outcomes"
  let ?F = "indices_where command_failed ?R"
  define c where "c = \<lparr>cn_results = ?R, cn_failures = ?F, cn_submission_indices = ?S\<rparr>"
  have "new_concurrent_result ?R (exact_ints ?F) (Some (exact_ints ?S)) = Inr c"
    unfolding new_concurrent_result_iff
    by (simp add: c_def indices_where_sorted length_completed list_all_def set_indices_where del: not_None_eq)
  then have c: "aggregate outcomes = Inr c"
    by (simp add: aggregate_def build_final_results_eq)
  have results: "cn_results c = map (\<lambda>i. the (outcomes ! i)) (cn_submission_indices c)"
    by (simp add: c_def map_nth_completed del: not_None_eq)
  have "failure_submission_indices c = map snd (filter (command_failed \<circ> fst) (zip ?R ?S))"
    using map_nth_indices_where [of ?S ?R command_failed]
    by (simp add: failure_submission_indices_def c_def length_completed)
  also have "zip ?R ?S = map (\<lambda>i. (the (outcomes ! i), i)) ?S"
    by (simp add: map_nth_completed [symmetric] zip_map1 zip_same_conv_map comp_def del: not_None_eq)
  also have "map snd (filter (command_failed \<circ> fst) \<dots>) =
      filter (\<lambda>i. command_failed (the (outcomes ! i))) ?S"
    by (simp add: filter_map comp_def)
  also have "\<dots> = indices_where (\<lambda>r. r \<noteq> None \<and> command_failed (the r)) outcomes"
    by (auto simp: indices_where_def intro: filter_cong)
  finally have failures: "failure_submission_indices c = \<dots>" .
  have "first_failure c = find command_failed ?R"
    by (simp add: first_failure_def c_def find_indices_where [symmetric] split: list.split)
  moreover have "concurrent_ok c \<longleftrightarrow> list_all command_ok ?R"
    by (auto simp: concurrent_ok_def c_def indices_where_def filter_empty_conv list_all_length)
  ultimately show ?thesis
    using c results failures by (intro exI [of _ c]) (simp add: c_def del: not_None_eq)
qed

section \<open>Reachable runs\<close>

inductive reachable_run :: "bool \<Rightarrow> nat option \<Rightarrow> nat \<Rightarrow> ('d, 'x) run_state \<Rightarrow> bool"
  for fail_fast concurrency n where
  reach_start: "reachable_run fail_fast concurrency n (initial_run concurrency n)"
| reach_event: "reachable_run fail_fast concurrency n s \<Longrightarrow> run_step fail_fast e s = Some s' \<Longrightarrow>
    reachable_run fail_fast concurrency n s'"

definition running_count :: "('d, 'x) run_state \<Rightarrow> nat" where
  "running_count s = count (mset (rs_tasks s)) Running"

definition task_failed :: "('d, 'x) task_status \<Rightarrow> bool" where
  "task_failed status \<longleftrightarrow>
    (case status of Completed result \<Rightarrow> command_failed result | Task_raised _ \<Rightarrow> True | _ \<Rightarrow> False)"

definition permits_ok :: "nat option \<Rightarrow> ('d, 'x) run_state \<Rightarrow> bool" where
  "permits_ok concurrency s \<longleftrightarrow> map_option (\<lambda>p. p + running_count s) (rs_permits s) = concurrency"

definition failures_ok :: "bool \<Rightarrow> ('d, 'x) run_state \<Rightarrow> bool" where
  "failures_ok fail_fast s \<longleftrightarrow>
    set (rs_pending s) \<union> set (rs_errors s) =
      {i. fail_fast \<and> i < length (rs_tasks s) \<and> task_failed (rs_tasks s ! i)}"

definition abort_ok :: "('d, 'x) run_state \<Rightarrow> bool" where
  "abort_ok s \<longleftrightarrow>
    (rs_aborting s \<longleftrightarrow> rs_errors s \<noteq> [] \<or> rs_caller_cancelled s) \<and> (Task_cancelled \<in> set (rs_tasks s) \<longrightarrow> rs_aborting s)"

definition run_ok :: "bool \<Rightarrow> nat option \<Rightarrow> nat \<Rightarrow> ('d, 'x) run_state \<Rightarrow> bool" where
  "run_ok fail_fast concurrency n s \<longleftrightarrow>
    length (rs_tasks s) = n \<and> permits_ok concurrency s \<and> failures_ok fail_fast s \<and> abort_ok s"

lemma count_update:
  "i < length xs \<Longrightarrow> count (mset (xs[i := x])) y + (if xs ! i = y then 1 else 0) =
    count (mset xs) y + (if x = y then 1 else 0)"
proof -
  assume i: "i < length xs"
  then have "0 < count (mset xs) (xs ! i)"
    by simp
  with i show ?thesis
    by (auto simp: mset_update)
qed

lemma failed_after:
  assumes "i < n" "length tasks = n" "\<not> task_failed (tasks ! i)"
  shows "{j. j < n \<and> task_failed (tasks[i := status] ! j)} =
    {j. j < n \<and> task_failed (tasks ! j)} \<union> (if task_failed status then {i} else {})"
  using assms by (auto simp: nth_list_update)

lemma task_failed_simps [simp]:
  "task_failed (Completed result) \<longleftrightarrow> command_failed result"
  "task_failed (Task_raised x)"
  "\<not> task_failed Waiting" "\<not> task_failed Running" "\<not> task_failed Task_cancelled"
  "\<not> task_failed Task_self_cancelled"
  by (simp_all add: task_failed_def)

text \<open>Every event is an update of one task with its effect on the permits, or the group's callback.\<close>

lemma failures_ok_update:
  assumes "failures_ok fail_fast s" "i < length (rs_tasks s)" "\<not> task_failed (rs_tasks s ! i)"
    and "rs_tasks s' = (rs_tasks s)[i := status]" "rs_errors s' = rs_errors s"
    and "set (rs_pending s') = set (rs_pending s) \<union> (if fail_fast \<and> task_failed status then {i} else {})"
  shows "failures_ok fail_fast s'"
proof -
  have "{j. j < length (rs_tasks s) \<and> task_failed ((rs_tasks s)[i := status] ! j)} =
    {j. j < length (rs_tasks s) \<and> task_failed (rs_tasks s ! j)} \<union> (if task_failed status then {i} else {})"
    by (rule failed_after [OF assms(2) refl assms(3)])
  then have "{j. fail_fast \<and> j < length (rs_tasks s') \<and> task_failed (rs_tasks s' ! j)} =
    {j. fail_fast \<and> j < length (rs_tasks s) \<and> task_failed (rs_tasks s ! j)} \<union>
      (if fail_fast \<and> task_failed status then {i} else {})"
    unfolding assms(4) length_list_update by (cases fail_fast) simp_all
  moreover have "set (rs_pending s') \<union> set (rs_errors s') =
    (set (rs_pending s) \<union> set (rs_errors s)) \<union> (if fail_fast \<and> task_failed status then {i} else {})"
    unfolding assms(5,6) by (simp add: Un_assoc Un_commute [of _ "set (rs_errors s)"])
  ultimately show ?thesis
    using assms(1) unfolding failures_ok_def by (simp only:)
qed

lemma abort_ok_update:
  assumes "abort_ok s" "rs_tasks s' = (rs_tasks s)[i := status]" "rs_errors s' = rs_errors s"
    and "rs_aborting s' = rs_aborting s" "rs_caller_cancelled s' = rs_caller_cancelled s"
    and "status = Task_cancelled \<longrightarrow> rs_aborting s"
  shows "abort_ok s'"
  using assms(1,6) set_update_subset_insert [of "rs_tasks s" i status]
  unfolding abort_ok_def assms(2-5) by blast

lemma run_ok_update:
  assumes "run_ok fail_fast concurrency n s" "task_is s i old" "\<not> task_failed old"
    and "rs_tasks s' = (rs_tasks s)[i := status]" "rs_errors s' = rs_errors s"
    and "rs_aborting s' = rs_aborting s" "rs_caller_cancelled s' = rs_caller_cancelled s"
    and "set (rs_pending s') = set (rs_pending s) \<union> (if fail_fast \<and> task_failed status then {i} else {})"
    and "status = Task_cancelled \<longrightarrow> rs_aborting s" "permits_ok concurrency s'"
  shows "run_ok fail_fast concurrency n s'"
  using failures_ok_update [OF _ _ _ assms(4,5,8)] abort_ok_update [OF _ assms(4,5,6,7,9)] assms
  by (simp add: run_ok_def task_is_def)

lemma running_count_update:
  "task_is s i old \<Longrightarrow> rs_tasks s' = (rs_tasks s)[i := status] \<Longrightarrow>
    running_count s' + (if old = Running then 1 else 0) =
      running_count s + (if status = Running then 1 else 0)"
  using count_update [of i "rs_tasks s" status Running]
  unfolding running_count_def task_is_def by simp

lemma run_ok_settle:
  assumes "run_ok fail_fast concurrency n s" "task_is s i Running"
    and "raises \<longleftrightarrow> fail_fast \<and> task_failed status"
    and "status \<noteq> Running" "status = Task_cancelled \<longrightarrow> rs_aborting s"
  shows "run_ok fail_fast concurrency n (settle_task i status raises s)"
proof (rule run_ok_update [OF assms(1,2), where status = status])
  have "Suc (running_count (settle_task i status raises s)) = running_count s"
    using running_count_update [OF assms(2), of "settle_task i status raises s" status] assms(4)
    by (simp add: settle_task_def)
  moreover have "rs_permits (settle_task i status raises s) = map_option Suc (rs_permits s)"
    by (simp add: settle_task_def)
  ultimately show "permits_ok concurrency (settle_task i status raises s)"
    using assms(1) by (cases "rs_permits s") (auto simp: run_ok_def permits_ok_def)
qed (use assms(3,5) in \<open>simp_all add: settle_task_def\<close>)

lemma run_ok_acquire:
  assumes "run_ok fail_fast concurrency n s" "task_is s i Waiting" "rs_permits s \<noteq> Some 0"
  shows "run_ok fail_fast concurrency n
    (s\<lparr>rs_tasks := (rs_tasks s)[i := Running], rs_permits := map_option (\<lambda>p. p - 1) (rs_permits s)\<rparr>)"
    (is "run_ok _ _ _ ?s'")
proof (rule run_ok_update [OF assms(1,2), where status = Running])
  have "running_count ?s' = Suc (running_count s)"
    using running_count_update [OF assms(2), of ?s' Running] by simp
  then show "permits_ok concurrency ?s'"
    using assms(1,3) by (cases "rs_permits s") (auto simp: run_ok_def permits_ok_def)
qed simp_all

lemma run_ok_cancel_waiting:
  assumes "run_ok fail_fast concurrency n s" "task_is s i Waiting" "rs_aborting s"
  shows "run_ok fail_fast concurrency n (s\<lparr>rs_tasks := (rs_tasks s)[i := Task_cancelled]\<rparr>)"
    (is "run_ok _ _ _ ?s'")
proof (rule run_ok_update [OF assms(1,2), where status = Task_cancelled])
  have "running_count ?s' = running_count s"
    using running_count_update [OF assms(2), of ?s' Task_cancelled] by simp
  then show "permits_ok concurrency ?s'"
    using assms(1) by (simp add: run_ok_def permits_ok_def)
qed (use assms(3) in simp_all)

lemma run_ok_step:
  assumes "run_ok fail_fast concurrency n s" "run_step fail_fast e s = Some s'"
  shows "run_ok fail_fast concurrency n s'"
proof (cases e)
  case (Acquire i)
  with assms show ?thesis using run_ok_acquire [of fail_fast concurrency n s i] by (auto split: if_splits)
next
  case (Return i result)
  with assms show ?thesis by (auto intro!: run_ok_settle split: if_splits)
next
  case (Throw i x)
  with assms show ?thesis by (auto intro!: run_ok_settle split: if_splits)
next
  case (Own_cancel i)
  with assms show ?thesis by (auto intro!: run_ok_settle split: if_splits)
next
  case Caller_cancel
  then have "s' = s\<lparr>rs_aborting := True, rs_caller_cancelled := True\<rparr>"
    using assms(2) by (simp split: if_splits)
  with assms(1) show ?thesis
    by (simp add: run_ok_def permits_ok_def failures_ok_def abort_ok_def running_count_def)
next
  case (Cancel i)
  with assms show ?thesis by (auto intro!: run_ok_settle run_ok_cancel_waiting split: if_splits)
next
  case Notice
  then obtain i pending where "rs_pending s = i # pending"
    "s' = s\<lparr>rs_pending := pending, rs_aborting := True, rs_errors := rs_errors s @ [i]\<rparr>"
    using assms(2) by (auto split: list.splits)
  with assms(1) show ?thesis
    by (auto simp: run_ok_def permits_ok_def failures_ok_def abort_ok_def running_count_def)
qed

lemma run_ok_initial: "run_ok fail_fast concurrency n (initial_run concurrency n)"
  by (cases concurrency)
    (auto simp: run_ok_def permits_ok_def failures_ok_def abort_ok_def initial_run_def running_count_def)

lemma reachable_run_ok: "reachable_run fail_fast concurrency n s \<Longrightarrow> run_ok fail_fast concurrency n s"
  by (induction rule: reachable_run.induct) (auto intro: run_ok_initial run_ok_step)

section \<open>Properties of a run\<close>

text \<open>(C35) The concurrency limit holds at every moment of every run, in both modes and while a failed
  run is being torn down: with limit \<open>k\<close> at most \<open>k\<close> commands are executing, and every permit
  that is not held is available.\<close>

theorem concurrency_limit_holds:
  assumes "reachable_run fail_fast (Some k) n s"
  shows "running_count s \<le> k \<and> rs_permits s = Some (k - running_count s)"
  using reachable_run_ok [OF assms] by (auto simp: run_ok_def permits_ok_def)

definition one_started :: "(unit, unit) run_state" where
  "one_started = \<lparr>rs_tasks = [Running, Waiting], rs_permits = Some 0, rs_pending = [],
    rs_aborting = False, rs_errors = [], rs_caller_cancelled = False\<rparr>"

lemma one_started_reachable: "reachable_run True (Some 1) 2 one_started"
proof -
  have "run_step True (Acquire 0) (initial_run (Some 1) 2) = Some one_started"
    by (simp add: one_started_def initial_run_def task_is_def numeral_2_eq_2)
  with reach_start show ?thesis
    by (rule reach_event)
qed

lemma concurrency_limit_holds_witness:
  "running_count one_started \<le> 1 \<and> rs_permits one_started = Some (1 - running_count one_started)"
  by (rule concurrency_limit_holds [OF one_started_reachable])

lemma outcome_result:
  "run_outcome fail_fast s = Inr c \<Longrightarrow> aggregate (map status_result (rs_tasks s)) = Inr c"
  by (auto simp: run_outcome_def fail_fast_outcome_def collect_all_outcome_def lift_error_def
      split: if_splits list.splits sum.splits)

lemma map_filter_empty_iff: "List.map_filter f xs = [] \<longleftrightarrow> (\<forall>x \<in> set xs. f x = None)"
  by (induction xs) (auto simp: map_filter_simps split: option.split)

lemma status_result_iff: "status_result status = Some result \<longleftrightarrow> status = Completed result"
  by (cases status) auto

lemma outcome_no_error:
  assumes "run_ok fail_fast concurrency n s" "settled_run s" "run_outcome fail_fast s = Inr c"
    and "i < n"
  shows "status_error (rs_tasks s ! i) = None"
proof (cases fail_fast)
  case True
  then have errors: "\<forall>j \<in> set (rs_errors s). status_error (rs_tasks s ! j) = None"
    using assms(3) unfolding map_filter_empty_iff [symmetric]
    by (auto simp: run_outcome_def fail_fast_outcome_def split: list.splits if_splits)
  have "set (rs_errors s) = {j. j < n \<and> task_failed (rs_tasks s ! j)}"
    using assms(1,2) True by (simp add: run_ok_def failures_ok_def settled_run_def)
  with errors assms(4) show ?thesis
    by (cases "rs_tasks s ! i") auto
next
  case False
  then have "\<forall>status \<in> set (rs_tasks s). status_failure status = None"
    using assms(3) unfolding map_filter_empty_iff [symmetric]
    by (auto simp: run_outcome_def collect_all_outcome_def split: list.splits if_splits)
  with assms(1,4) have "status_failure (rs_tasks s ! i) = None"
    by (auto simp: run_ok_def)
  then show ?thesis by (cases "rs_tasks s ! i") auto
qed

lemma settled_status:
  assumes "run_ok fail_fast concurrency n s" "settled_run s" "i < n"
  shows "rs_tasks s ! i \<noteq> Waiting \<and> rs_tasks s ! i \<noteq> Running"
  using assms by (auto simp: run_ok_def settled_run_def list_all_length)

lemma outcome_failures:
  assumes "run_ok fail_fast concurrency n s" "settled_run s" "run_outcome fail_fast s = Inr c"
  shows "failure_submission_indices c = indices_where task_failed (rs_tasks s) \<and>
    (concurrent_ok c \<longleftrightarrow> (\<forall>i < n. \<not> task_failed (rs_tasks s ! i)))"
proof -
  let ?T = "rs_tasks s"
  have n: "length ?T = n"
    using assms(1) by (simp add: run_ok_def)
  have "failure_submission_indices c =
      indices_where (\<lambda>status. status_result status \<noteq> None \<and> command_failed (the (status_result status))) ?T"
    using aggregate_exact [of "map status_result ?T", unfolded outcome_result [OF assms(3)]]
    by (simp add: indices_where_map comp_def del: not_None_eq)
  also have "\<dots> = indices_where task_failed ?T"
    unfolding indices_where_def
  proof (rule filter_upt_cong)
    fix i
    assume "i < length ?T"
    then show "(status_result (?T ! i) \<noteq> None \<and> command_failed (the (status_result (?T ! i)))) =
      task_failed (?T ! i)"
      using outcome_no_error [OF assms, of i] n by (cases "?T ! i") auto
  qed
  finally have failures: "failure_submission_indices c = indices_where task_failed ?T" .
  moreover have "concurrent_ok c \<longleftrightarrow> indices_where task_failed ?T = []"
    unfolding failures [symmetric] by (simp add: concurrent_ok_def failure_submission_indices_def)
  ultimately show ?thesis
    using n by (auto simp: indices_where_def filter_empty_conv)
qed

text \<open>A group cancels only because a command failed or its caller was cancelled; a result then reports a failure.\<close>

lemma cancellation_reported:
  assumes ok: "run_ok fail_fast concurrency n s" and settled: "settled_run s" and result: "run_outcome fail_fast s = Inr c"
    and cancelled: "rs_caller_cancelled s \<or> Task_cancelled \<in> set (rs_tasks s)"
  shows "fail_fast \<and> \<not> concurrent_ok c"
proof -
  have abort: "rs_aborting s \<longleftrightarrow> rs_errors s \<noteq> [] \<or> rs_caller_cancelled s"
    and "Task_cancelled \<in> set (rs_tasks s) \<longrightarrow> rs_aborting s"
    using ok unfolding run_ok_def abort_ok_def by blast+
  with cancelled have why: "rs_errors s \<noteq> [] \<or> rs_caller_cancelled s" by blast
  have errors: "set (rs_errors s) = {j. fail_fast \<and> j < n \<and> task_failed (rs_tasks s ! j)}"
    using ok settled by (simp add: run_ok_def failures_ok_def settled_run_def)
  have "fail_fast"
  proof (rule ccontr)
    assume "\<not> fail_fast"
    then show False using why errors result by (auto simp: run_outcome_def collect_all_outcome_def)
  qed
  moreover from this have "rs_errors s \<noteq> []"
    using why result by (auto simp: run_outcome_def fail_fast_outcome_def)
  ultimately show ?thesis
    using outcome_failures [OF ok settled result] errors by (cases "rs_errors s") auto
qed

lemma outcome_all_ok:
  assumes "run_ok fail_fast concurrency n s" "settled_run s" "run_outcome fail_fast s = Inr c"
  shows "concurrent_ok c \<longleftrightarrow>
    (\<forall>i. i < n \<longrightarrow> rs_tasks s ! i = Task_self_cancelled \<or>
      (\<exists>result. rs_tasks s ! i = Completed result \<and> command_ok result))"
proof
  assume ok: "concurrent_ok c"
  show "\<forall>i. i < n \<longrightarrow> rs_tasks s ! i = Task_self_cancelled \<or>
      (\<exists>result. rs_tasks s ! i = Completed result \<and> command_ok result)"
  proof (intro allI impI)
    fix i
    assume i: "i < n"
    have "Task_cancelled \<notin> set (rs_tasks s)" using cancellation_reported [OF assms] ok by blast
    then have "rs_tasks s ! i \<noteq> Task_cancelled"
      using i assms(1) nth_mem [of i "rs_tasks s"] unfolding run_ok_def by metis
    moreover have "\<not> task_failed (rs_tasks s ! i)" using outcome_failures [OF assms] ok i by simp
    ultimately show "rs_tasks s ! i = Task_self_cancelled \<or>
        (\<exists>result. rs_tasks s ! i = Completed result \<and> command_ok result)"
      using settled_status [OF assms(1,2) i] by (cases "rs_tasks s ! i") auto
  qed
next
  assume "\<forall>i. i < n \<longrightarrow> rs_tasks s ! i = Task_self_cancelled \<or>
      (\<exists>result. rs_tasks s ! i = Completed result \<and> command_ok result)"
  then show "concurrent_ok c"
    unfolding outcome_failures [OF assms, THEN conjunct2] by (metis task_failed_simps(1,6))
qed

lemma collect_all_complete:
  assumes "run_ok False concurrency n s" "settled_run s" "run_outcome False s = Inr c" "i < n"
  shows "status_result (rs_tasks s ! i) \<noteq> None"
proof -
  have "\<forall>status \<in> set (rs_tasks s). status_failure status = None"
    using assms(3) unfolding map_filter_empty_iff [symmetric]
    by (auto simp: run_outcome_def collect_all_outcome_def split: list.splits if_splits)
  then have "status_failure (rs_tasks s ! i) = None" using assms(1,4) by (auto simp: run_ok_def)
  then show ?thesis
    using settled_status [OF assms(1,2,4)] by (cases "rs_tasks s ! i") auto
qed

text \<open>(C3) What a returned result of a run says of every submitted command, and what it leaves out.  Its
  results are exactly the commands that completed and its failures exactly those that exited non-zero; no command raised.
  When the caller was cancelled, or the run cancelled a command, the run is fail-fast and reports a failure.
  The result is ok exactly when every command completed successfully or, in a fail-fast run, ended with a cancellation of
  its own: that command is missing from the result and nothing reports it.  A run that collects all results hides
  nothing: it returns a result for every command or raises.\<close>

theorem run_result_faithful:
  assumes "reachable_run fail_fast concurrency n s" "settled_run s"
    and "run_outcome fail_fast s = Inr c"
  shows "cn_submission_indices c = indices_where (\<lambda>status. status_result status \<noteq> None) (rs_tasks s) \<and>
    failure_submission_indices c = indices_where task_failed (rs_tasks s) \<and>
    (\<forall>i < n. status_error (rs_tasks s ! i) = None) \<and>
    (rs_caller_cancelled s \<or> Task_cancelled \<in> set (rs_tasks s) \<longrightarrow> fail_fast \<and> \<not> concurrent_ok c) \<and>
    (concurrent_ok c \<longleftrightarrow>
      (\<forall>i. i < n \<longrightarrow> rs_tasks s ! i = Task_self_cancelled \<or>
        (\<exists>result. rs_tasks s ! i = Completed result \<and> command_ok result))) \<and>
    (\<not> fail_fast \<longrightarrow> cn_submission_indices c = [0..<n])"
proof -
  note ok = reachable_run_ok [OF assms(1)]
  have n: "length (rs_tasks s) = n"
    using ok by (simp add: run_ok_def)
  have completed: "cn_submission_indices c =
      indices_where (\<lambda>status. status_result status \<noteq> None) (rs_tasks s)"
    using aggregate_exact [of "map status_result (rs_tasks s)", unfolded outcome_result [OF assms(3)]]
    by (simp add: indices_where_map comp_def del: not_None_eq)
  moreover have "cn_submission_indices c = [0..<n]" if "\<not> fail_fast"
    using collect_all_complete [of concurrency n s c] ok assms(2,3) that
    unfolding completed indices_where_def n by (intro filter_True) auto
  moreover have "rs_caller_cancelled s \<or> Task_cancelled \<in> set (rs_tasks s) \<longrightarrow> fail_fast \<and> \<not> concurrent_ok c"
    using cancellation_reported [OF ok assms(2,3)] by blast
  moreover have "\<forall>i < n. status_error (rs_tasks s ! i) = None"
    using outcome_no_error [OF ok assms(2,3)] by blast
  ultimately show ?thesis
    using outcome_failures [OF ok assms(2,3)] outcome_all_ok [OF ok assms(2,3)] by blast
qed

lemma run_events_reachable:
  "reachable_run fail_fast concurrency n s \<Longrightarrow> run_events fail_fast es s = Some s' \<Longrightarrow>
    reachable_run fail_fast concurrency n s'"
  by (induction es arbitrary: s) (auto intro: reach_event split: option.splits)

definition failed_run :: "(unit, unit) run_state" where
  "failed_run = \<lparr>rs_tasks = [Task_cancelled, Completed \<lparr>cr_exit_code = 3, cr_data = ()\<rparr>],
    rs_permits = Some 1, rs_pending = [], rs_aborting = True, rs_errors = [1], rs_caller_cancelled = False\<rparr>"

lemma run_result_faithful_witness:
  "failure_submission_indices \<lparr>cn_results = [\<lparr>cr_exit_code = 3, cr_data = ()\<rparr>], cn_failures = [0],
      cn_submission_indices = [1]\<rparr> = indices_where task_failed (rs_tasks failed_run)"
proof -
  have "run_events True [Acquire 1, Return 1 \<lparr>cr_exit_code = 3, cr_data = ()\<rparr>, Notice, Cancel 0]
      (initial_run (Some 1) 2) = Some failed_run"
    by (simp add: failed_run_def initial_run_def task_is_def settle_task_def command_ok_def numeral_2_eq_2)
  then have "reachable_run True (Some 1) 2 failed_run"
    by (rule run_events_reachable [OF reach_start])
  moreover have "settled_run failed_run"
    by (simp add: settled_run_def failed_run_def)
  moreover have "run_outcome True failed_run = Inr \<lparr>cn_results = [\<lparr>cr_exit_code = 3, cr_data = ()\<rparr>],
      cn_failures = [0], cn_submission_indices = [1]\<rparr>"
    by code_simp
  ultimately show ?thesis
    using run_result_faithful by blast
qed

text \<open>The work left: what each task may still go through, and the callbacks that are due.\<close>

fun task_work :: "('d, 'x) task_status \<Rightarrow> nat" where
  "task_work Waiting = 3"
| "task_work Running = 2"
| "task_work _ = 0"

definition work_left :: "('d, 'x) run_state \<Rightarrow> nat" where
  "work_left s = sum_list (map task_work (rs_tasks s)) + length (rs_pending s)"

text \<open>The caller's cancellation is the one event that does no work; it comes at most once.\<close>

abbreviation work_events :: "('d, 'x) run_event list \<Rightarrow> ('d, 'x) run_event list" where
  "work_events \<equiv> filter (\<lambda>e. e \<noteq> Caller_cancel)"

lemma task_work_update:
  "task_is s i old \<Longrightarrow>
    sum_list (map task_work ((rs_tasks s)[i := status])) + task_work old =
      sum_list (map task_work (rs_tasks s)) + task_work status"
  using elem_le_sum_list [of i "map task_work (rs_tasks s)"]
  by (auto simp: task_is_def sum_list_update map_update)

lemma work_decreases:
  assumes "run_step fail_fast e s = Some s'"
  shows "work_left s' + (if e = Caller_cancel then 0 else 1) \<le> work_left s"
proof (cases e)
  case (Acquire i)
  with assms task_work_update [of s i Waiting Running] show ?thesis
    by (auto simp: work_left_def split: if_splits)
next
  case (Return i result)
  with assms task_work_update [of s i Running "Completed result"] show ?thesis
    by (auto simp: work_left_def settle_task_def split: if_splits)
next
  case (Throw i x)
  with assms task_work_update [of s i Running "Task_raised x"] show ?thesis
    by (auto simp: work_left_def settle_task_def split: if_splits)
next
  case (Own_cancel i)
  with assms task_work_update [of s i Running Task_self_cancelled] show ?thesis
    by (auto simp: work_left_def settle_task_def split: if_splits)
next
  case Caller_cancel
  with assms show ?thesis by (auto simp: work_left_def split: if_splits)
next
  case (Cancel i)
  with assms task_work_update [of s i Running Task_cancelled]
    task_work_update [of s i Waiting Task_cancelled] show ?thesis
    by (auto simp: work_left_def settle_task_def split: if_splits)
next
  case Notice
  with assms show ?thesis
    by (auto simp: work_left_def split: list.splits)
qed

lemma work_bounds_events:
  "run_events fail_fast es s = Some s' \<Longrightarrow> length (work_events es) + work_left s' \<le> work_left s"
proof (induction es arbitrary: s)
  case (Cons e es)
  then obtain s1 where "run_step fail_fast e s = Some s1" "run_events fail_fast es s1 = Some s'"
    by (auto split: option.splits)
  with Cons.IH [of s1] work_decreases [of fail_fast e s s1] show ?case by (simp split: if_splits)
qed simp

lemma caller_cancels_once:
  "run_events fail_fast es s = Some s' \<Longrightarrow>
    count (mset es) Caller_cancel + (if rs_caller_cancelled s then 1 else 0) \<le> (if rs_caller_cancelled s' then 1 else 0)"
proof (induction es arbitrary: s)
  case (Cons e es)
  then obtain s1 where step: "run_step fail_fast e s = Some s1" and rest: "run_events fail_fast es s1 = Some s'"
    by (auto split: option.splits)
  have "(if e = Caller_cancel then 1 else 0) + (if rs_caller_cancelled s then 1 else 0) =
      (if rs_caller_cancelled s1 then 1 else (0 :: nat))"
    using step by (cases e) (auto simp: settle_task_def split: if_splits list.splits)
  with Cons.IH [OF rest] show ?case by (simp split: if_splits)
qed simp

lemma count_zero_iff: "running_count s = 0 \<longleftrightarrow> Running \<notin> set (rs_tasks s)"
  by (simp add: running_count_def)

text \<open>An event is possible as long as the run has not settled.\<close>

lemma run_progress:
  assumes "run_ok fail_fast (Some k) n s" "0 < k" "\<not> settled_run s"
  shows "\<exists>(e :: ('d, 'x) run_event). e \<noteq> Caller_cancel \<and> run_step fail_fast e (s :: ('d, 'x) run_state) \<noteq> None"
proof (cases "rs_pending s")
  case (Cons i pending)
  then have "run_step fail_fast Notice s \<noteq> None" by simp
  then show ?thesis by (intro exI [of _ Notice]) simp
next
  case Nil
  show ?thesis
  proof (cases "Running \<in> set (rs_tasks s)")
    case True
    then obtain i where "task_is s i Running"
      by (auto simp: task_is_def in_set_conv_nth)
    then have "run_step fail_fast (Return i undefined) s \<noteq> None"
      by simp
    then show ?thesis by (intro exI [of _ "Return i undefined"]) simp
  next
    case False
    with Nil assms(3) have "Waiting \<in> set (rs_tasks s)"
      by (auto simp: settled_run_def list_all_iff)
    then obtain i where i: "task_is s i Waiting"
      by (auto simp: task_is_def in_set_conv_nth)
    have "rs_permits s = Some k"
      using assms(1) False count_zero_iff [of s] by (auto simp: run_ok_def permits_ok_def)
    with i assms(2) have "run_step fail_fast (if rs_aborting s then Cancel i else Acquire i) s \<noteq> None"
      by simp
    then show ?thesis by (intro exI [of _ "if rs_aborting s then Cancel i else Acquire i"]) simp
  qed
qed

text \<open>(C23) Every run ends: beside at most one cancellation of its caller, no run has more than three events per command,
  and as long as a task is left or a failure has not been noticed some event is possible, whatever the limit of at least
  one, so the semaphore cannot deadlock a run and a run that can go no further has settled every command.\<close>

theorem runs_terminate:
  assumes "0 < k"
    and "run_events fail_fast es (initial_run (Some k) n) = Some (s :: ('d, 'x) run_state)"
  shows "length (work_events es) \<le> 3 * n \<and> count (mset es) Caller_cancel \<le> 1 \<and>
    (settled_run s \<or> (\<exists>(e :: ('d, 'x) run_event) s'. e \<noteq> Caller_cancel \<and> run_step fail_fast e s = Some s'))"
proof -
  have "work_left (initial_run (Some k) n :: ('d, 'x) run_state) = 3 * n"
    by (simp add: work_left_def initial_run_def sum_list_replicate)
  then have "length (work_events es) \<le> 3 * n"
    using work_bounds_events [OF assms(2)] by simp
  moreover have "run_ok fail_fast (Some k) n s"
    by (rule reachable_run_ok [OF run_events_reachable [OF reach_start assms(2)]])
  moreover have "count (mset es) Caller_cancel \<le> 1"
    by (rule le_trans [OF add_leD1 [OF caller_cancels_once [OF assms(2)]]]) simp
  ultimately show ?thesis
    using run_progress [OF _ assms(1)] by blast
qed

lemma runs_terminate_witness:
  "settled_run one_started \<or>
    (\<exists>(e :: (unit, unit) run_event) s'. e \<noteq> Caller_cancel \<and> run_step True e one_started = Some s')"
proof -
  have "run_events True [Acquire 0] (initial_run (Some 1) 2) = Some one_started"
    by (simp add: one_started_def initial_run_def task_is_def numeral_2_eq_2)
  from runs_terminate [OF zero_less_one this] show ?thesis by blast
qed

end
