(* ===== verification/Pipeline_Wait.thy ===== *)
theory Pipeline_Wait
  imports Complex_Main Cuprum_Prelude
begin

text \<open>
  Waiting for a pipeline (\<open>cuprum/_pipeline_wait_state.py\<close>, \<open>_pipeline_wait.py\<close>,
  \<open>_pipeline_wait_records.py\<close>), the selection of the stages a failure stops
  (\<open>_pipeline_teardown.py\<close>, \<open>_teardown_policy.py\<close>) and the surfacing of pump failures
  (\<open>_pipeline_stream_results.py\<close>).  The event loop is the environment: it hands over sets of
  finished wait tasks and, when a task is handled, its exit code, a clock reading and which wait
  tasks are done by then.  Clock readings are reals, so the rounding of differences is left out.
\<close>

section \<open>Teardown policy\<close>

datatype group_ownership = Owns_all bool | Owns_each "bool list"

record teardown_policy =
  tp_grace_period :: real
  tp_owns_group :: group_ownership

definition owns_group_for :: "teardown_policy \<Rightarrow> nat \<Rightarrow> bool" where
  "owns_group_for policy index =
    (case tp_owns_group policy of
       Owns_all owns \<Rightarrow> owns
     | Owns_each flags \<Rightarrow> index < length flags \<and> flags ! index)"

definition ownership_of :: "teardown_policy \<Rightarrow> nat \<Rightarrow> bool list" where
  "ownership_of policy n = map (owns_group_for policy) [0..<n]"

definition for_index :: "teardown_policy \<Rightarrow> nat \<Rightarrow> teardown_policy" where
  "for_index policy index =
    \<lparr>tp_grace_period = tp_grace_period policy, tp_owns_group = Owns_all (owns_group_for policy index)\<rparr>"

definition stage_may_own_live_group :: "nat \<Rightarrow> bool list \<Rightarrow> bool" where
  "stage_may_own_live_group index owns_group \<longleftrightarrow> index < length owns_group \<and> owns_group ! index"

definition stages_to_terminate :: "nat \<Rightarrow> bool list \<Rightarrow> bool list \<Rightarrow> nat list" where
  "stages_to_terminate failure_index finished owns_group =
    map fst (filter (\<lambda>(idx, is_done). stage_may_own_live_group idx owns_group \<or>
        idx \<noteq> failure_index \<and> \<not> is_done)
      (enumerate 0 finished))"

definition has_stages_to_terminate :: "nat \<Rightarrow> bool list \<Rightarrow> teardown_policy \<Rightarrow> bool" where
  "has_stages_to_terminate failure_index finished policy \<longleftrightarrow>
    stages_to_terminate failure_index finished (ownership_of policy (length finished)) \<noteq> []"

section \<open>The wait state\<close>

text \<open>\<open>'o\<close> is the type of the execution tokens the stage observations carry.\<close>

record 'o wait_state =
  ws_exit_codes :: "int option list"
  ws_started_at :: "real list"
  ws_ended_at :: "real option list"
  ws_wall_clock_started_at :: "real list"
  ws_failure_index :: "nat option"
  ws_observations :: "'o list"

record 'o stage_wait_context =
  sw_started_at :: "real list"
  sw_wall_clock_started_at :: "real list"
  sw_observations :: "'o list"

definition from_processes :: "nat \<Rightarrow> 'o stage_wait_context \<Rightarrow> 'o wait_state" where
  "from_processes n stages =
    \<lparr>ws_exit_codes = replicate n None, ws_started_at = sw_started_at stages,
      ws_ended_at = replicate n None,
      ws_wall_clock_started_at = sw_wall_clock_started_at stages,
      ws_failure_index = None, ws_observations = sw_observations stages\<rparr>"

definition observation :: "'o wait_state \<Rightarrow> nat \<Rightarrow> 'o option" where
  "observation s stage_index =
    (if stage_index < length (ws_observations s) then Some (ws_observations s ! stage_index) else None)"

definition record_completion ::
  "nat \<Rightarrow> int \<Rightarrow> real \<Rightarrow> 'o wait_state \<Rightarrow> bool \<times> 'o wait_state" where
  "record_completion completed_idx exit_code ended_at s =
    (let is_first_failure = ws_failure_index s = None \<and> exit_code \<noteq> 0;
         s = s\<lparr>ws_exit_codes := (ws_exit_codes s)[completed_idx := Some exit_code],
               ws_ended_at := (ws_ended_at s)[completed_idx := Some ended_at]\<rparr>;
         s = (if is_first_failure then s\<lparr>ws_failure_index := Some completed_idx\<rparr> else s)
     in (is_first_failure \<and> completed_idx \<noteq> length (ws_exit_codes s) - 1, s))"

definition should_terminate_others :: "'o wait_state \<Rightarrow> nat \<Rightarrow> bool" where
  "should_terminate_others s completed_idx \<longleftrightarrow>
    ws_failure_index s = Some completed_idx \<and> completed_idx \<noteq> length (ws_exit_codes s) - 1"

section \<open>Reports\<close>

record 'o completion_fields =
  lf_stage_index :: nat
  lf_stage_count :: nat
  lf_exit_code :: int
  lf_duration_s :: real
  lf_exec_id :: "'o option"

definition completion_log_fields :: "'o wait_state \<Rightarrow> nat \<Rightarrow> int \<Rightarrow> real \<Rightarrow> 'o completion_fields" where
  "completion_log_fields s completed_idx exit_code ended_at =
    \<lparr>lf_stage_index = completed_idx, lf_stage_count = length (ws_exit_codes s),
      lf_exit_code = exit_code,
      lf_duration_s = max 0 (ended_at - ws_started_at s ! completed_idx),
      lf_exec_id = observation s completed_idx\<rparr>"

text \<open>
  What handling one completion does outside the state, in order: the record of the first failure,
  the \<open>pipeline_fail_fast\<close> event, the record announcing the termination, and the termination
  request with the stages it selects.  Without an observation the first three are dropped.  The
  record published after the teardown carries what the teardown returned and is left out.
\<close>

datatype 'o wait_action =
    First_failure_record "'o completion_fields"
  | Fail_fast_event "'o completion_fields"
  | Termination_record "'o completion_fields"
  | Terminate_stages "nat list"

definition observed :: "'o option \<Rightarrow> 'o wait_action \<Rightarrow> 'o wait_action list" where
  "observed obs a = (if obs = None then [] else [a])"

section \<open>Handling completions\<close>

text \<open>What the environment shows when a finished task is handled.\<close>

record completion =
  cm_exit_code :: int
  cm_ended_at :: real
  cm_finished :: "bool list"

datatype wait_task = Wait_task (task_index: nat)

instantiation wait_task :: linorder
begin

definition less_eq_wait_task :: "wait_task \<Rightarrow> wait_task \<Rightarrow> bool" where
  "less_eq_wait_task a b \<longleftrightarrow> task_index a \<le> task_index b"

definition less_wait_task :: "wait_task \<Rightarrow> wait_task \<Rightarrow> bool" where
  "less_wait_task a b \<longleftrightarrow> task_index a < task_index b"

instance
  by standard (auto simp: less_eq_wait_task_def less_wait_task_def intro: wait_task.expand)

end

definition process_completed_task ::
  "teardown_policy \<Rightarrow> (wait_task \<Rightarrow> completion) \<Rightarrow> wait_task \<Rightarrow> 'o wait_state \<Rightarrow>
    'o wait_action list \<times> 'o wait_state" where
  "process_completed_task policy env task s =
    (let idx = task_index task;
         exit_code = cm_exit_code (env task);
         ended_at = cm_ended_at (env task);
         had_failure = ws_failure_index s \<noteq> None;
         s = snd (record_completion idx exit_code ended_at s);
         latched_first_failure = \<not> had_failure \<and> ws_failure_index s = Some idx;
         terminate_others = should_terminate_others s idx \<and>
           has_stages_to_terminate idx (cm_finished (env task)) policy;
         fields = completion_log_fields s idx exit_code ended_at;
         obs = observation s idx
     in ((if latched_first_failure then observed obs (First_failure_record fields) else []) @
         (if terminate_others then
            observed obs (Fail_fast_event fields) @ observed obs (Termination_record fields) @
            [Terminate_stages (stages_to_terminate idx (cm_finished (env task))
              (ownership_of policy (length (cm_finished (env task)))))]
          else []),
         s))"

fun process_tasks ::
  "teardown_policy \<Rightarrow> (wait_task \<Rightarrow> completion) \<Rightarrow> wait_task list \<Rightarrow> 'o wait_state \<Rightarrow>
    'o wait_action list \<times> 'o wait_state" where
  "process_tasks policy env [] s = ([], s)"
| "process_tasks policy env (task # tasks) s =
    (case process_completed_task policy env task s of
       (actions, s) \<Rightarrow>
         case process_tasks policy env tasks s of
           (actions', s) \<Rightarrow> (actions @ actions', s))"

text \<open>A batch is handled in stage order.\<close>

fun wait_loop ::
  "teardown_policy \<Rightarrow> (wait_task \<Rightarrow> completion) \<Rightarrow> wait_task set list \<Rightarrow> 'o wait_state \<Rightarrow>
    'o wait_action list \<times> 'o wait_state" where
  "wait_loop policy env [] s = ([], s)"
| "wait_loop policy env (batch # batches) s =
    (case process_tasks policy env (sorted_list_of_set batch) s of
       (actions, s) \<Rightarrow>
         case wait_loop policy env batches s of
           (actions', s) \<Rightarrow> (actions @ actions', s))"

text \<open>What \<open>asyncio.wait\<close> may return: non-empty sets of pending tasks, until none is pending.\<close>

fun drains :: "wait_task set \<Rightarrow> wait_task set list \<Rightarrow> bool" where
  "drains pending [] \<longleftrightarrow> pending = {}"
| "drains pending (batch # batches) \<longleftrightarrow>
    batch \<noteq> {} \<and> batch \<subseteq> pending \<and> drains (pending - batch) batches"

definition stage_tasks :: "nat \<Rightarrow> wait_task set" where
  "stage_tasks n = Wait_task ` {..<n}"

section \<open>The result\<close>

datatype 'e pipe_result = Pipe_returned | Pipe_broken | Pipe_reset | Pipe_raised 'e

fun surface_unexpected_pipe_failures :: "'e pipe_result list \<Rightarrow> 'e + unit" where
  "surface_unexpected_pipe_failures [] = Inr ()"
| "surface_unexpected_pipe_failures (result # results) =
    (case result of
       Pipe_raised e \<Rightarrow> Inl e
     | _ \<Rightarrow> surface_unexpected_pipe_failures results)"

record pipeline_wait_result =
  wr_exit_codes :: "int list"
  wr_failure_index :: "nat option"
  wr_started_at :: "real list"
  wr_ended_at :: "real option list"
  wr_wall_clock_started_at :: "real list"

definition wait_result :: "'o wait_state \<Rightarrow> pipeline_wait_result" where
  "wait_result s =
    \<lparr>wr_exit_codes = map (\<lambda>code. case code of None \<Rightarrow> - 1 | Some code \<Rightarrow> code) (ws_exit_codes s),
      wr_failure_index = ws_failure_index s, wr_started_at = ws_started_at s,
      wr_ended_at = ws_ended_at s, wr_wall_clock_started_at = ws_wall_clock_started_at s\<rparr>"

text \<open>A wait that is not cancelled: the loop, then the pump results.\<close>

definition wait_for_pipeline ::
  "teardown_policy \<Rightarrow> (wait_task \<Rightarrow> completion) \<Rightarrow> wait_task set list \<Rightarrow> 'e pipe_result list \<Rightarrow> nat \<Rightarrow>
    'o stage_wait_context \<Rightarrow> 'o wait_action list \<times> ('e + pipeline_wait_result)" where
  "wait_for_pipeline policy env batches pipe_results n stages =
    (case wait_loop policy env batches (from_processes n stages) of
       (actions, s) \<Rightarrow>
         (actions, rbind (surface_unexpected_pipe_failures pipe_results) (\<lambda>_. Inr (wait_result s))))"

section \<open>The order of completions\<close>

abbreviation completion_order :: "wait_task set list \<Rightarrow> wait_task list" where
  "completion_order batches \<equiv> concat (map sorted_list_of_set batches)"

abbreviation failed :: "(wait_task \<Rightarrow> completion) \<Rightarrow> wait_task \<Rightarrow> bool" where
  "failed env task \<equiv> cm_exit_code (env task) \<noteq> 0"

lemma process_tasks_append:
  "process_tasks policy env (xs @ ys) s =
    (case process_tasks policy env xs s of
       (actions, s) \<Rightarrow> case process_tasks policy env ys s of (actions', s) \<Rightarrow> (actions @ actions', s))"
  by (induction xs arbitrary: s) (auto split: prod.splits)

lemma wait_loop_order:
  "wait_loop policy env batches s = process_tasks policy env (completion_order batches) s"
  by (induction batches arbitrary: s) (simp_all add: process_tasks_append split: prod.splits)

lemma drains_finite: "finite pending \<Longrightarrow> drains pending batches \<Longrightarrow> batch \<in> set batches \<Longrightarrow> finite batch"
  by (induction batches arbitrary: pending) (auto dest: finite_subset)

lemma drains_order:
  "finite pending \<Longrightarrow> drains pending batches \<Longrightarrow>
    distinct (completion_order batches) \<and> set (completion_order batches) = pending"
proof (induction batches arbitrary: pending)
  case (Cons batch batches)
  then have "finite batch" "finite (pending - batch)"
    by (auto dest: finite_subset)
  with Cons show ?case by auto
qed simp

lemma finite_stage_tasks [simp]: "finite (stage_tasks n)"
  by (simp add: stage_tasks_def)

lemma stage_tasks_iff: "task \<in> stage_tasks n \<longleftrightarrow> task_index task < n"
  by (cases task) (auto simp: stage_tasks_def)

section \<open>Handling a sequence of completions\<close>

lemma record_completion_state:
  "snd (record_completion idx code ended s) =
    s\<lparr>ws_exit_codes := (ws_exit_codes s)[idx := Some code],
      ws_ended_at := (ws_ended_at s)[idx := Some ended],
      ws_failure_index := (if ws_failure_index s = None \<and> code \<noteq> 0 then Some idx else ws_failure_index s)\<rparr>"
  by (simp add: record_completion_def Let_def)

lemma process_state:
  "snd (process_completed_task policy env task s) =
    snd (record_completion (task_index task) (cm_exit_code (env task)) (cm_ended_at (env task)) s)"
  by (simp add: process_completed_task_def Let_def)

lemma from_processes_fields [simp]:
  "ws_exit_codes (from_processes n stages) = replicate n None"
  "ws_ended_at (from_processes n stages) = replicate n None"
  "ws_started_at (from_processes n stages) = sw_started_at stages"
  "ws_wall_clock_started_at (from_processes n stages) = sw_wall_clock_started_at stages"
  "ws_failure_index (from_processes n stages) = None"
  "ws_observations (from_processes n stages) = sw_observations stages"
  by (simp_all add: from_processes_def)

lemma process_tasks_Cons_parts:
  "fst (process_tasks policy env (task # tasks) s) =
    fst (process_completed_task policy env task s) @
    fst (process_tasks policy env tasks (snd (process_completed_task policy env task s)))"
  "snd (process_tasks policy env (task # tasks) s) =
    snd (process_tasks policy env tasks (snd (process_completed_task policy env task s)))"
  by (simp_all add: split_beta)

lemma process_quiet:
  assumes "ws_failure_index s = None \<and> \<not> failed env task \<or>
    (\<exists>f. ws_failure_index s = Some f \<and> f \<noteq> task_index task)"
  shows "fst (process_completed_task policy env task s) = []"
  using assms
  by (auto simp: process_completed_task_def should_terminate_others_def record_completion_state Let_def)

text \<open>The fields that stay as they were when the wait began.\<close>

lemma process_tasks_fixed:
  "ws_started_at (snd (process_tasks policy env tasks s)) = ws_started_at s \<and>
   ws_wall_clock_started_at (snd (process_tasks policy env tasks s)) = ws_wall_clock_started_at s \<and>
   ws_observations (snd (process_tasks policy env tasks s)) = ws_observations s \<and>
   length (ws_exit_codes (snd (process_tasks policy env tasks s))) = length (ws_exit_codes s) \<and>
   length (ws_ended_at (snd (process_tasks policy env tasks s))) = length (ws_ended_at s)"
proof (induction tasks arbitrary: s)
  case (Cons task tasks)
  then show ?case
    using process_state [of policy env task s]
    by (simp add: split_beta record_completion_state)
qed simp

lemma process_tasks_slots:
  assumes "i < length (ws_exit_codes s)" "i < length (ws_ended_at s)"
  shows "ws_exit_codes (snd (process_tasks policy env tasks s)) ! i =
      (if Wait_task i \<in> set tasks then Some (cm_exit_code (env (Wait_task i)))
       else ws_exit_codes s ! i) \<and>
    ws_ended_at (snd (process_tasks policy env tasks s)) ! i =
      (if Wait_task i \<in> set tasks then Some (cm_ended_at (env (Wait_task i)))
       else ws_ended_at s ! i)"
  using assms
proof (induction tasks arbitrary: s)
  case (Cons task tasks)
  let ?s = "snd (process_completed_task policy env task s)"
  have "i < length (ws_exit_codes ?s)" "i < length (ws_ended_at ?s)"
    using Cons.prems by (simp_all add: process_state record_completion_state)
  note IH = Cons.IH [OF this]
  show ?case
    using IH Cons.prems
    by (cases task)
      (auto simp: split_beta process_state record_completion_state nth_list_update)
qed simp

lemma process_tasks_failure:
  "ws_failure_index (snd (process_tasks policy env tasks s)) =
    (case ws_failure_index s of
       Some f \<Rightarrow> Some f
     | None \<Rightarrow> map_option task_index (find (failed env) tasks))"
  by (induction tasks arbitrary: s)
    (auto simp: split_beta process_state record_completion_state split: option.splits)

lemma process_tasks_after_failure:
  "ws_failure_index s = Some f \<Longrightarrow> \<forall>task \<in> set tasks. task_index task \<noteq> f \<Longrightarrow>
    fst (process_tasks policy env tasks s) = []"
proof (induction tasks arbitrary: s)
  case (Cons task tasks)
  then have "fst (process_completed_task policy env task s) = []"
    by (intro process_quiet) auto
  moreover have "ws_failure_index (snd (process_completed_task policy env task s)) = Some f"
    using Cons.prems(1) by (simp add: process_state record_completion_state)
  ultimately show ?case
    using Cons by (simp add: split_beta)
qed simp

text \<open>What the first failure of a pipeline of \<open>n\<close> stages publishes and stops.\<close>

definition failure_actions ::
  "teardown_policy \<Rightarrow> (wait_task \<Rightarrow> completion) \<Rightarrow> nat \<Rightarrow> 'o wait_state \<Rightarrow> wait_task \<Rightarrow>
    'o wait_action list" where
  "failure_actions policy env n s task =
    (let idx = task_index task;
         finished = cm_finished (env task);
         targets = stages_to_terminate idx finished (ownership_of policy (length finished));
         obs = observation s idx;
         fields = \<lparr>lf_stage_index = idx, lf_stage_count = n, lf_exit_code = cm_exit_code (env task),
           lf_duration_s = max 0 (cm_ended_at (env task) - ws_started_at s ! idx), lf_exec_id = obs\<rparr>
     in observed obs (First_failure_record fields) @
        (if idx \<noteq> n - 1 \<and> targets \<noteq> [] then
           observed obs (Fail_fast_event fields) @ observed obs (Termination_record fields) @
           [Terminate_stages targets]
         else []))"

lemma process_first_failure:
  assumes "ws_failure_index s = None" "failed env task"
  shows "fst (process_completed_task policy env task s) =
    failure_actions policy env (length (ws_exit_codes s)) s task"
  using assms
  by (simp add: process_completed_task_def failure_actions_def should_terminate_others_def
      has_stages_to_terminate_def completion_log_fields_def observation_def record_completion_state Let_def)

lemma failure_actions_fixed:
  "ws_observations s' = ws_observations s \<Longrightarrow> ws_started_at s' = ws_started_at s \<Longrightarrow>
    failure_actions policy env n s' task = failure_actions policy env n s task"
  by (simp add: failure_actions_def observation_def Let_def)

lemma process_tasks_actions:
  assumes "ws_failure_index s = None" "distinct tasks"
  shows "fst (process_tasks policy env tasks s) =
    (case find (failed env) tasks of
       None \<Rightarrow> []
     | Some task \<Rightarrow> failure_actions policy env (length (ws_exit_codes s)) s task)"
  using assms
proof (induction tasks arbitrary: s)
  case (Cons task tasks)
  let ?s = "snd (process_completed_task policy env task s)"
  show ?case
  proof (cases "failed env task")
    case True
    then have "ws_failure_index ?s = Some (task_index task)"
      using Cons.prems(1) by (simp add: process_state record_completion_state)
    moreover have "\<forall>t \<in> set tasks. task_index t \<noteq> task_index task"
      using Cons.prems(2) by (auto dest: wait_task.expand)
    ultimately have "fst (process_tasks policy env tasks ?s) = []"
      by (rule process_tasks_after_failure)
    then show ?thesis
      unfolding process_tasks_Cons_parts using True Cons.prems(1) by (simp add: process_first_failure)
  next
    case False
    then have "ws_failure_index ?s = None"
      using Cons.prems(1) by (simp add: process_state record_completion_state)
    then have "fst (process_tasks policy env tasks ?s) =
      (case find (failed env) tasks of
         None \<Rightarrow> []
       | Some task \<Rightarrow> failure_actions policy env (length (ws_exit_codes ?s)) ?s task)"
      using Cons.IH Cons.prems(2) by simp
    moreover have "failure_actions policy env (length (ws_exit_codes ?s)) ?s t =
        failure_actions policy env (length (ws_exit_codes s)) s t" for t
      unfolding process_state record_completion_state
      by (subst failure_actions_fixed [of _ s]) simp_all
    moreover have "fst (process_completed_task policy env task s) = []"
      using False Cons.prems(1) by (intro process_quiet) simp
    ultimately show ?thesis
      unfolding process_tasks_Cons_parts using False by (simp split: option.split)
  qed
qed simp

section \<open>The first failure\<close>

lemma find_sorted:
  "sorted xs \<Longrightarrow> find P xs = Some t \<longleftrightarrow> t \<in> set xs \<and> P t \<and> (\<forall>x \<in> set xs. P x \<longrightarrow> t \<le> x)"
  by (induction xs) auto

lemma find_append: "find P (xs @ ys) = (case find P xs of Some x \<Rightarrow> Some x | None \<Rightarrow> find P ys)"
  by (induction xs) auto

lemma split_first:
  "(\<exists>before batch after. b # bs = before @ batch # after \<and> Q before batch) \<longleftrightarrow>
    Q [] b \<or> (\<exists>before batch after. bs = before @ batch # after \<and> Q (b # before) batch)"
  unfolding Cons_eq_append_conv by blast

lemma find_completion_order:
  assumes "\<forall>batch \<in> set batches. finite batch"
  shows "find P (completion_order batches) = Some t \<longleftrightarrow>
    (\<exists>before batch after. batches = before @ batch # after \<and>
      (\<forall>earlier \<in> set before. \<forall>task \<in> earlier. \<not> P task) \<and>
      t \<in> batch \<and> P t \<and> (\<forall>task \<in> batch. P task \<longrightarrow> t \<le> task))"
  using assms
proof (induction batches)
  case (Cons b bs)
  show ?case
  proof (cases "\<forall>task \<in> b. \<not> P task")
    case True
    then have "find P (sorted_list_of_set b) = None"
      using Cons.prems by (simp add: find_None_iff)
    then show ?thesis
      unfolding split_first using Cons True by (simp add: find_append) blast
  next
    case False
    have "find P (sorted_list_of_set b) = Some t \<longleftrightarrow>
        t \<in> b \<and> P t \<and> (\<forall>task \<in> b. P task \<longrightarrow> t \<le> task)"
      using Cons.prems by (simp add: find_sorted)
    moreover have "find P (sorted_list_of_set b) \<noteq> None"
      using Cons.prems False by (auto simp: find_None_iff)
    ultimately show ?thesis
      unfolding split_first using False by (auto simp: find_append)
  qed
qed simp

lemma pipeline_result:
  assumes "drains (stage_tasks n) batches"
  shows "snd (wait_for_pipeline policy env batches pipe_results n stages) =
    rbind (surface_unexpected_pipe_failures pipe_results) (\<lambda>_. Inr
      \<lparr>wr_exit_codes = map (\<lambda>i. cm_exit_code (env (Wait_task i))) [0..<n],
        wr_failure_index = map_option task_index (find (failed env) (completion_order batches)),
        wr_started_at = sw_started_at stages,
        wr_ended_at = map (\<lambda>i. Some (cm_ended_at (env (Wait_task i)))) [0..<n],
        wr_wall_clock_started_at = sw_wall_clock_started_at stages\<rparr>)"
proof -
  let ?init = "from_processes n stages"
  let ?order = "completion_order batches"
  let ?s = "snd (process_tasks policy env ?order ?init)"
  have all: "set ?order = stage_tasks n"
    using drains_order [OF finite_stage_tasks assms] by simp
  have len: "length (ws_exit_codes ?init) = n" "length (ws_ended_at ?init) = n"
    by simp_all
  have slots: "ws_exit_codes ?s ! i = Some (cm_exit_code (env (Wait_task i)))"
    "ws_ended_at ?s ! i = Some (cm_ended_at (env (Wait_task i)))" if "i < n" for i
  proof -
    have "Wait_task i \<in> set ?order"
      unfolding all using that by (simp add: stage_tasks_iff)
    then show "ws_exit_codes ?s ! i = Some (cm_exit_code (env (Wait_task i)))"
      "ws_ended_at ?s ! i = Some (cm_ended_at (env (Wait_task i)))"
      using process_tasks_slots [of i ?init policy env ?order] that len
      by (simp_all del: set_concat)
  qed
  have lens: "length (ws_exit_codes ?s) = n" "length (ws_ended_at ?s) = n"
    using process_tasks_fixed [of policy env ?order ?init] len by simp_all
  have fixed: "ws_started_at ?s = sw_started_at stages" "ws_wall_clock_started_at ?s = sw_wall_clock_started_at stages"
    using process_tasks_fixed [of policy env ?order ?init] by simp_all
  have "ws_failure_index ?s = map_option task_index (find (failed env) ?order)"
    by (simp add: process_tasks_failure)
  moreover have "ws_exit_codes ?s = map (\<lambda>i. Some (cm_exit_code (env (Wait_task i)))) [0..<n]"
    "ws_ended_at ?s = map (\<lambda>i. Some (cm_ended_at (env (Wait_task i)))) [0..<n]"
    using slots lens by (simp_all add: list_eq_iff_nth_eq)
  ultimately show ?thesis
    using fixed
    by (simp add: wait_for_pipeline_def wait_loop_order wait_result_def split_beta comp_def)
qed

section \<open>Properties\<close>

text \<open>When every stage has been waited for, the result has each stage's own exit code and end
  time, in stage order, with no placeholder left, the start times unchanged and the stage of the
  first failing completion; it is replaced by the first unexpected failure of a pump, if any.\<close>

theorem pipeline_result_exact:
  assumes "drains (stage_tasks n) batches"
  shows "snd (wait_for_pipeline policy env batches pipe_results n stages) =
    rbind (surface_unexpected_pipe_failures pipe_results) (\<lambda>_. Inr
      \<lparr>wr_exit_codes = map (\<lambda>i. cm_exit_code (env (Wait_task i))) [0..<n],
        wr_failure_index = map_option task_index (find (failed env) (completion_order batches)),
        wr_started_at = sw_started_at stages,
        wr_ended_at = map (\<lambda>i. Some (cm_ended_at (env (Wait_task i)))) [0..<n],
        wr_wall_clock_started_at = sw_wall_clock_started_at stages\<rparr>)"
  using assms by (rule pipeline_result)

lemma pipeline_result_exact_witness:
  "\<exists>actions. wait_for_pipeline \<lparr>tp_grace_period = 1, tp_owns_group = Owns_all False\<rparr>
      (\<lambda>task. \<lparr>cm_exit_code = int (task_index task), cm_ended_at = 2, cm_finished = [True, True]\<rparr>)
      [{Wait_task 1}, {Wait_task 0}] ([] :: unit pipe_result list) 2
      (\<lparr>sw_started_at = [0, 0], sw_wall_clock_started_at = [0, 0], sw_observations = []\<rparr>
        :: unit stage_wait_context) =
    (actions, Inr \<lparr>wr_exit_codes = [0, 1], wr_failure_index = Some 1, wr_started_at = [0, 0],
      wr_ended_at = [Some 2, Some 2], wr_wall_clock_started_at = [0, 0]\<rparr>)"
proof -
  have "drains (stage_tasks 2) [{Wait_task 1}, {Wait_task 0}]"
    by (auto simp: stage_tasks_def less_Suc_eq numeral_2_eq_2)
  note pipeline_result_exact [OF this,
      of "\<lparr>tp_grace_period = 1, tp_owns_group = Owns_all False\<rparr>"
        "\<lambda>task. \<lparr>cm_exit_code = int (task_index task), cm_ended_at = 2, cm_finished = [True, True]\<rparr>"
        "[] :: unit pipe_result list"
        "\<lparr>sw_started_at = [0, 0], sw_wall_clock_started_at = [0, 0], sw_observations = []\<rparr>
          :: unit stage_wait_context"]
  then show ?thesis
    by (intro exI) (simp add: prod_eq_iff rbind_def numeral_2_eq_2)
qed

text \<open>(C10) The failing stage a result reports is the one that failed first in completion order:
  every stage handed over earlier succeeded, and among the stages handed over together it is the
  most upstream failure, whatever order the set is iterated in.\<close>

theorem failure_index_is_first_completion:
  assumes "drains (stage_tasks n) batches"
    and "snd (wait_for_pipeline policy env batches pipe_results n stages) = Inr result"
  shows "wr_failure_index result = Some i \<longleftrightarrow>
    (\<exists>before batch after. batches = before @ batch # after \<and>
      Wait_task i \<in> batch \<and> failed env (Wait_task i) \<and>
      (\<forall>earlier \<in> set before. \<forall>task \<in> earlier. \<not> failed env task) \<and>
      (\<forall>task \<in> batch. failed env task \<longrightarrow> i \<le> task_index task))"
proof -
  have finite: "\<forall>batch \<in> set batches. finite batch"
    using drains_finite [OF finite_stage_tasks assms(1)] by blast
  have "wr_failure_index result = map_option task_index (find (failed env) (completion_order batches))"
    using assms(2) unfolding pipeline_result [OF assms(1)]
    by (auto simp: rbind_def split: sum.splits)
  then have "wr_failure_index result = Some i \<longleftrightarrow>
      find (failed env) (completion_order batches) = Some (Wait_task i)"
    by (auto simp: wait_task.expand)
  then show ?thesis
    unfolding find_completion_order [OF finite] by (auto simp: less_eq_wait_task_def)
qed

lemma failure_index_is_first_completion_witness:
  "\<exists>before batch after. [{Wait_task 1, Wait_task 0}] = before @ batch # after \<and> Wait_task 0 \<in> batch"
proof -
  let ?env = "\<lambda>task. \<lparr>cm_exit_code = 1, cm_ended_at = 2, cm_finished = [True, True]\<rparr>"
  let ?policy = "\<lparr>tp_grace_period = 1, tp_owns_group = Owns_all False\<rparr>"
  let ?stages = "\<lparr>sw_started_at = [0, 0], sw_wall_clock_started_at = [0, 0], sw_observations = []\<rparr>
    :: unit stage_wait_context"
  have drains: "drains (stage_tasks 2) [{Wait_task 1, Wait_task 0}]"
    by (auto simp: stage_tasks_def less_Suc_eq numeral_2_eq_2)
  have sorted: "sorted_list_of_set {Wait_task 1, Wait_task 0} = [Wait_task 0, Wait_task 1]"
    by (simp add: less_wait_task_def less_eq_wait_task_def insort_key.simps)
  obtain result where result: "snd (wait_for_pipeline ?policy ?env [{Wait_task 1, Wait_task 0}]
      ([] :: unit pipe_result list) 2 ?stages) = Inr result" "wr_failure_index result = Some 0"
    using pipeline_result [OF drains, of ?policy ?env "[] :: unit pipe_result list" ?stages] sorted
    by (simp add: rbind_def)
  show ?thesis
    using failure_index_is_first_completion [OF drains result(1), of 0] result(2) by blast
qed

text \<open>(C24) A wait that nothing fails publishes and stops nothing.  Otherwise only the first failure
  does, once: its record, and, when it is not the final stage and the selection at that moment is
  not empty, the fail-fast event before the announcement before the request to terminate exactly
  the selected stages.\<close>

theorem fail_fast_acts_once:
  assumes "drains (stage_tasks n) batches"
  shows "fst (wait_for_pipeline policy env batches pipe_results n stages) =
    (case find (failed env) (completion_order batches) of
       None \<Rightarrow> []
     | Some task \<Rightarrow> failure_actions policy env n (from_processes n stages) task) \<and>
    length (filter (\<lambda>a. \<exists>targets. a = Terminate_stages targets)
      (fst (wait_for_pipeline policy env batches pipe_results n stages))) \<le> 1"
proof -
  let ?order = "completion_order batches"
  have "distinct ?order"
    using drains_order [OF finite_stage_tasks assms] by simp
  then have "fst (wait_for_pipeline policy env batches pipe_results n stages) =
    (case find (failed env) ?order of
       None \<Rightarrow> []
     | Some task \<Rightarrow> failure_actions policy env n (from_processes n stages) task)"
    using process_tasks_actions [of "from_processes n stages" ?order policy env]
    by (simp add: wait_for_pipeline_def wait_loop_order split_beta split: option.split)
  moreover have "length (filter (\<lambda>a. \<exists>targets. a = Terminate_stages targets)
      (failure_actions policy env n s task)) \<le> 1" for s :: "'a wait_state" and task
    by (simp add: failure_actions_def observed_def Let_def)
  ultimately show ?thesis
    by (auto split: option.split)
qed

lemma fail_fast_acts_once_witness:
  "Terminate_stages [1] \<in> set (fst (wait_for_pipeline
      \<lparr>tp_grace_period = 1, tp_owns_group = Owns_all False\<rparr>
      (\<lambda>task. \<lparr>cm_exit_code = 1, cm_ended_at = 2, cm_finished = [True, False]\<rparr>)
      [{Wait_task 0}, {Wait_task 1}] ([] :: unit pipe_result list) 2
      (\<lparr>sw_started_at = [0, 0], sw_wall_clock_started_at = [0, 0], sw_observations = []\<rparr>
        :: unit stage_wait_context)))"
proof -
  have "drains (stage_tasks 2) [{Wait_task 0}, {Wait_task 1}]"
    by (auto simp: stage_tasks_def less_Suc_eq numeral_2_eq_2)
  from fail_fast_acts_once [OF this, of "\<lparr>tp_grace_period = 1, tp_owns_group = Owns_all False\<rparr>"
        "\<lambda>task. \<lparr>cm_exit_code = 1, cm_ended_at = 2, cm_finished = [True, False]\<rparr>"
        "[] :: unit pipe_result list"
        "\<lparr>sw_started_at = [0, 0], sw_wall_clock_started_at = [0, 0], sw_observations = []\<rparr>
          :: unit stage_wait_context"]
  show ?thesis
    by (simp add: failure_actions_def stages_to_terminate_def stage_may_own_live_group_def
        ownership_of_def owns_group_for_def Let_def)
qed

text \<open>The stages a failure stops are exactly those that own a process group, and, of the others,
  those that are neither the failed stage nor finished; each once, upstream first.\<close>

theorem termination_selection_exact:
  "(let targets = stages_to_terminate failure_index finished (ownership_of policy (length finished))
    in sorted targets \<and> distinct targets \<and>
       set targets = {i. i < length finished \<and>
         (owns_group_for policy i \<or> i \<noteq> failure_index \<and> \<not> finished ! i)})"
proof -
  let ?select = "\<lambda>i. owns_group_for policy i \<or> i \<noteq> failure_index \<and> \<not> finished ! i"
  let ?owns = "ownership_of policy (length finished)"
  have enum: "enumerate 0 finished = map (\<lambda>i. (i, finished ! i)) [0..<length finished]"
    by (rule nth_equalityI) (simp_all add: nth_enumerate_eq)
  have owns: "stage_may_own_live_group i ?owns = owns_group_for policy i" if "i < length finished" for i
    using that by (simp add: stage_may_own_live_group_def ownership_of_def)
  have "stages_to_terminate failure_index finished ?owns =
      filter (\<lambda>i. stage_may_own_live_group i ?owns \<or> i \<noteq> failure_index \<and> \<not> finished ! i)
        [0..<length finished]"
    unfolding stages_to_terminate_def enum by (simp add: filter_map comp_def)
  also have "\<dots> = filter ?select [0..<length finished]"
    by (rule filter_cong) (simp_all add: owns)
  finally have targets: "stages_to_terminate failure_index finished ?owns =
      filter ?select [0..<length finished]" .
  show ?thesis
    unfolding targets Let_def by (auto intro: sorted_wrt_filter)
qed

text \<open>The command half of the transition reports a newly requested termination exactly when the
  query half, asked afterwards, reports the stage that just completed as the trigger; a completion
  never moves an already latched failure.\<close>

lemma command_and_query_agree:
  "(let (requested, s') = record_completion idx code ended s
    in requested = (ws_failure_index s = None \<and> should_terminate_others s' idx) \<and>
       ws_failure_index s' =
         (case ws_failure_index s of Some f \<Rightarrow> Some f | None \<Rightarrow> if code \<noteq> 0 then Some idx else None))"
  by (cases "ws_failure_index s"; cases "code = 0")
    (simp_all add: record_completion_def should_terminate_others_def Let_def)

end
