(* ===== verification/Process_Teardown.thy ===== *)
theory Process_Teardown
  imports Pipeline_Wait
begin

text \<open>
  Stopping one process (\<open>_process_lifecycle.py\<close>, \<open>_process_signal.py\<close>, \<open>_process_group.py\<close>,
  \<open>_group_teardown.py\<close>): the probe of the target, the graceful signal, the grace period, the
  escalation and what is reported.  The kernel is a parameter: it answers each call from a world of its
  own, so anything may happen between two calls.  Every call is recorded in a log.  Durations are
  real seconds.
\<close>

section \<open>The kernel's interface\<close>

datatype stop_signal = Null_signal | Sigterm | Sigkill

datatype delivery = Sent | No_such_process | Not_permitted

datatype group_probe = Members | Empty | Unsignalable

datatype teardown_report =
    Unsignalable_group "nat option"
  | Settlement_timeout nat real
  | Signal_refused "nat option" bool stop_signal

datatype action =
    Group_signal nat stop_signal delivery
  | Child_signal stop_signal delivery
  | Child_awaited
  | Slept real
  | Grace_over
  | Logged teardown_report
  | Event_emitted teardown_report

record 'w kernel =
  k_killpg :: "nat \<Rightarrow> stop_signal \<Rightarrow> 'w \<Rightarrow> delivery \<times> 'w"
  k_send :: "stop_signal \<Rightarrow> 'w \<Rightarrow> delivery \<times> 'w"
  k_returncode :: "'w \<Rightarrow> int option"
  k_child_exits_within :: "real \<Rightarrow> 'w \<Rightarrow> bool \<times> 'w"
  k_await_child :: "'w \<Rightarrow> 'w"
  k_sleep :: "real \<Rightarrow> 'w \<Rightarrow> 'w"

record 'w teardown_state =
  td_world :: 'w
  td_log :: "action list"

definition log_action :: "action \<Rightarrow> 'w teardown_state \<Rightarrow> 'w teardown_state" where
  "log_action a s = s\<lparr>td_log := td_log s @ [a]\<rparr>"

definition killpg :: "'w kernel \<Rightarrow> nat \<Rightarrow> stop_signal \<Rightarrow> 'w teardown_state \<Rightarrow> delivery \<times> 'w teardown_state" where
  "killpg k pid sig s =
    (let (d, w) = k_killpg k pid sig (td_world s)
     in (d, log_action (Group_signal pid sig d) (s\<lparr>td_world := w\<rparr>)))"

definition send_child :: "'w kernel \<Rightarrow> stop_signal \<Rightarrow> 'w teardown_state \<Rightarrow> delivery \<times> 'w teardown_state" where
  "send_child k sig s =
    (let (d, w) = k_send k sig (td_world s)
     in (d, log_action (Child_signal sig d) (s\<lparr>td_world := w\<rparr>)))"

section \<open>Process groups\<close>

definition probe_interval :: real where
  "probe_interval = 1 / 100"

definition max_probe_interval :: real where
  "max_probe_interval = 1 / 10"

definition post_kill_settlement_s :: real where
  "post_kill_settlement_s = 1"

definition probe_group :: "'w kernel \<Rightarrow> nat \<Rightarrow> 'w teardown_state \<Rightarrow> group_probe \<times> 'w teardown_state" where
  "probe_group k pgid s =
    (let (d, s) = killpg k pgid Null_signal s
     in (case d of No_such_process \<Rightarrow> Empty | Not_permitted \<Rightarrow> Unsignalable | Sent \<Rightarrow> Members, s))"

text \<open>The sleep of round \<open>n\<close> of the poll.\<close>

primrec poll_interval :: "nat \<Rightarrow> real" where
  "poll_interval 0 = probe_interval"
| "poll_interval (Suc n) = min (poll_interval n * 2) max_probe_interval"

lemma poll_interval_bounds: "probe_interval \<le> poll_interval n \<and> poll_interval n \<le> max_probe_interval"
  by (induction n) (auto simp: probe_interval_def max_probe_interval_def)

text \<open>
  \<open>_await_group_exit\<close> under a deadline, as every caller runs it: \<open>None\<close> is the deadline passing
  during a sleep.
\<close>

function await_group_exit ::
  "'w kernel \<Rightarrow> nat \<Rightarrow> nat \<Rightarrow> real \<Rightarrow> 'w teardown_state \<Rightarrow> group_probe option \<times> 'w teardown_state" where
  "await_group_exit k pgid n time_left s =
    (let (outcome, s) = probe_group k pgid s
     in if outcome \<noteq> Members then (Some outcome, s)
        else if time_left \<le> poll_interval n
        then (None, log_action (Slept (max 0 time_left)) (s\<lparr>td_world := k_sleep k (max 0 time_left) (td_world s)\<rparr>))
        else
          await_group_exit k pgid (Suc n) (time_left - poll_interval n)
            (log_action (Slept (poll_interval n)) (s\<lparr>td_world := k_sleep k (poll_interval n) (td_world s)\<rparr>)))"
  by pat_completeness auto
termination
proof (relation "measure (\<lambda>(k, pgid, n, time_left, s). nat \<lceil>time_left * 100\<rceil>)", goal_cases)
  case (2 k pgid n time_left s x outcome s')
  have "1 / 100 \<le> poll_interval n"
    using poll_interval_bounds [of n] by (simp add: probe_interval_def)
  with 2 have "(time_left - poll_interval n) * 100 \<le> time_left * 100 - 1" "0 < time_left"
    by (simp_all add: field_simps)
  then have "\<lceil>(time_left - poll_interval n) * 100\<rceil> < \<lceil>time_left * 100\<rceil>" "0 < \<lceil>time_left * 100\<rceil>"
    by linarith+
  then show ?case by simp
qed simp

declare await_group_exit.simps [simp del]

definition await_group_settlement ::
  "'w kernel \<Rightarrow> nat \<Rightarrow> 'w teardown_state \<Rightarrow> group_probe \<times> 'w teardown_state" where
  "await_group_settlement k pgid s =
    (let (outcome, s) = await_group_exit k pgid 0 post_kill_settlement_s s
     in (case outcome of None \<Rightarrow> Members | Some probe \<Rightarrow> probe, s))"

section \<open>Reporting\<close>

text \<open>The log record, and the event when there is an execution to correlate it with.\<close>

definition report_group_teardown ::
  "bool \<Rightarrow> teardown_report \<Rightarrow> 'w teardown_state \<Rightarrow> 'w teardown_state" where
  "report_group_teardown obs report s =
    (let s = log_action (Logged report) s
     in if obs then log_action (Event_emitted report) s else s)"

definition unsignalable_report :: "group_probe \<Rightarrow> nat option \<Rightarrow> teardown_report option" where
  "unsignalable_report outcome pid = (if outcome \<noteq> Unsignalable then None else Some (Unsignalable_group pid))"

definition report_teardown ::
  "bool \<Rightarrow> teardown_report option \<Rightarrow> 'w teardown_state \<Rightarrow> 'w teardown_state" where
  "report_teardown obs report s =
    (case report of None \<Rightarrow> s | Some r \<Rightarrow> report_group_teardown obs r s)"

definition signal_target_or_report ::
  "'w kernel \<Rightarrow> nat option \<Rightarrow> bool \<Rightarrow> bool \<Rightarrow> stop_signal \<Rightarrow> 'w teardown_state \<Rightarrow>
    bool \<times> 'w teardown_state" where
  "signal_target_or_report k pid obs owns_group sig s =
    (let (d, s) = (case pid of
          Some pgid \<Rightarrow> if owns_group then killpg k pgid sig s else send_child k sig s
        | None \<Rightarrow> send_child k sig s)
     in case d of
          Sent \<Rightarrow> (True, s)
        | No_such_process \<Rightarrow> (False, s)
        | Not_permitted \<Rightarrow> (False, report_group_teardown obs (Signal_refused pid owns_group sig) s))"

section \<open>Settlement of the target\<close>

definition settlement_of ::
  "'w kernel \<Rightarrow> nat option \<Rightarrow> bool \<Rightarrow> 'w teardown_state \<Rightarrow> group_probe \<times> 'w teardown_state" where
  "settlement_of k pid owns_group s =
    (case pid of
       Some pgid \<Rightarrow>
         if owns_group then probe_group k pgid s
         else (if k_returncode k (td_world s) \<noteq> None then Empty else Members, s)
     | None \<Rightarrow> (if k_returncode k (td_world s) \<noteq> None then Empty else Members, s))"

definition members_remain_to_signal ::
  "'w kernel \<Rightarrow> nat option \<Rightarrow> bool \<Rightarrow> bool \<Rightarrow> 'w teardown_state \<Rightarrow> bool \<times> 'w teardown_state" where
  "members_remain_to_signal k pid obs owns_group s =
    (let (settled, s) = settlement_of k pid owns_group s
     in (settled = Members, report_teardown obs (unsignalable_report settled pid) s))"

text \<open>
  The wait of the grace period: whether the target settled within it.  A grace of zero starts nothing.
  The two waits of an owned group run side by side in the code; here the poll comes first and the
  child's exit is asked for the same window.
\<close>

definition settlement_within ::
  "'w kernel \<Rightarrow> nat option \<Rightarrow> bool \<Rightarrow> bool \<Rightarrow> real \<Rightarrow> 'w teardown_state \<Rightarrow> bool \<times> 'w teardown_state" where
  "settlement_within k pid obs owns_group grace s =
    (if grace \<le> 0 then (False, s)
     else case (if owns_group then pid else None) of
       None \<Rightarrow>
         (let (exited, w) = k_child_exits_within k grace (td_world s) in (exited, s\<lparr>td_world := w\<rparr>))
     | Some pgid \<Rightarrow>
         (case await_group_exit k pgid 0 grace s of
            (None, s) \<Rightarrow> (False, s)
          | (Some outcome, s) \<Rightarrow>
              (let (exited, w) = k_child_exits_within k grace (td_world s)
               in if \<not> exited then (False, s\<lparr>td_world := w\<rparr>)
                  else (True, report_teardown obs (unsignalable_report outcome pid) (s\<lparr>td_world := w\<rparr>)))))"

definition slept_time :: "action list \<Rightarrow> real" where
  "slept_time actions = sum_list (map (\<lambda>a. case a of Slept t \<Rightarrow> t | _ \<Rightarrow> 0) actions)"

text \<open>The time the wait took is the time it slept.\<close>

definition settle_after_escalation ::
  "'w kernel \<Rightarrow> nat option \<Rightarrow> bool \<Rightarrow> bool \<Rightarrow> 'w teardown_state \<Rightarrow> 'w teardown_state" where
  "settle_after_escalation k pid obs owns_group s =
    (let s = log_action Child_awaited (s\<lparr>td_world := k_await_child k (td_world s)\<rparr>)
     in case (if owns_group then pid else None) of
          None \<Rightarrow> s
        | Some pgid \<Rightarrow>
            (let started = slept_time (td_log s);
                 (outcome, s) = await_group_settlement k pgid s;
                 settle_s = slept_time (td_log s) - started
             in if outcome = Members
                then report_teardown obs (Some (Settlement_timeout pgid settle_s)) s
                else report_teardown obs (unsignalable_report outcome pid) s))"

definition escalate_after_grace ::
  "'w kernel \<Rightarrow> nat option \<Rightarrow> bool \<Rightarrow> bool \<Rightarrow> 'w teardown_state \<Rightarrow> bool \<times> 'w teardown_state" where
  "escalate_after_grace k pid obs owns_group s =
    (let (remain, s) = members_remain_to_signal k pid obs owns_group s
     in if \<not> remain then (False, s)
        else
          let (sent, s) = signal_target_or_report k pid obs owns_group Sigkill s
          in if \<not> sent then (False, s)
             else (True, settle_after_escalation k pid obs owns_group s))"

section \<open>Stopping\<close>

record termination_outcome =
  to_delivered :: bool
  to_escalated :: bool
  to_waiter_completed :: bool
  to_refused :: bool

definition no_stop :: termination_outcome where
  "no_stop = \<lparr>to_delivered = False, to_escalated = False, to_waiter_completed = False, to_refused = False\<rparr>"

definition terminated_in_grace :: termination_outcome where
  "terminated_in_grace =
    \<lparr>to_delivered = True, to_escalated = False, to_waiter_completed = True, to_refused = False\<rparr>"

definition killed_after_grace :: termination_outcome where
  "killed_after_grace =
    \<lparr>to_delivered = True, to_escalated = True, to_waiter_completed = True, to_refused = False\<rparr>"

definition killed_after_grace_unwaited :: termination_outcome where
  "killed_after_grace_unwaited =
    \<lparr>to_delivered = True, to_escalated = True, to_waiter_completed = False, to_refused = False\<rparr>"

definition escalate_after_grace_outcome ::
  "'w kernel \<Rightarrow> nat option \<Rightarrow> bool \<Rightarrow> bool \<Rightarrow> 'w teardown_state \<Rightarrow>
    termination_outcome \<times> 'w teardown_state" where
  "escalate_after_grace_outcome k pid obs owns_group s =
    (let (delivered, s) = escalate_after_grace k pid obs owns_group s
     in (if \<not> delivered then killed_after_grace_unwaited else killed_after_grace, s))"

definition terminate_process_with_wait ::
  "'w kernel \<Rightarrow> nat option \<Rightarrow> teardown_policy \<Rightarrow> bool \<Rightarrow> 'w teardown_state \<Rightarrow>
    termination_outcome \<times> 'w teardown_state" where
  "terminate_process_with_wait k pid policy obs s =
    (let grace_period = max 0 (tp_grace_period policy);
         owns_group = owns_group_for policy 0;
         (remain, s) = members_remain_to_signal k pid obs owns_group s
     in if \<not> remain then (no_stop, s)
        else
          let (sent, s) = signal_target_or_report k pid obs owns_group Sigterm s
          in if \<not> sent then (no_stop, s)
             else
               let (settled, s) = settlement_within k pid obs owns_group grace_period s
               in if settled then (terminated_in_grace, s)
                  else escalate_after_grace_outcome k pid obs owns_group (log_action Grace_over s))"

text \<open>\<open>_kill_shielded\<close>: the forced stop of an owned handle (\<open>_process_handle/control.py\<close>).\<close>

definition killed_and_reaped :: termination_outcome where
  "killed_and_reaped =
    \<lparr>to_delivered = True, to_escalated = False, to_waiter_completed = True, to_refused = False\<rparr>"

definition kill_shielded ::
  "'w kernel \<Rightarrow> nat option \<Rightarrow> bool \<Rightarrow> bool \<Rightarrow> 'w teardown_state \<Rightarrow> termination_outcome \<times> 'w teardown_state" where
  "kill_shielded k pid owns_group obs s =
    (if owns_group then
       let (delivered, s) = escalate_after_grace k pid obs True s
       in (if delivered then killed_and_reaped else no_stop, s)
     else if k_returncode k (td_world s) \<noteq> None then (no_stop, s)
     else
       let (d, s) = send_child k Sigkill s
       in if d \<noteq> Sent then (no_stop, s)
          else (killed_and_reaped, log_action Child_awaited (s\<lparr>td_world := k_await_child k (td_world s)\<rparr>)))"

text \<open>\<open>_weighted_stop\<close> and \<open>_stop_outcome_from\<close>: what a stop is reported as.\<close>

datatype control_outcome = Control_delivered | Control_escalated | Refused_unsupported | Refused_exited

definition weighted_stop :: "termination_outcome \<Rightarrow> int option \<Rightarrow> termination_outcome" where
  "weighted_stop outcome returncode =
    (if to_delivered outcome \<or> returncode \<noteq> None then outcome else outcome\<lparr>to_refused := True\<rparr>)"

definition stop_outcome_from :: "termination_outcome option \<Rightarrow> control_outcome" where
  "stop_outcome_from measured =
    (case measured of
       None \<Rightarrow> Refused_exited
     | Some outcome \<Rightarrow>
         if to_escalated outcome then Control_escalated
         else if to_delivered outcome then Control_delivered
         else if to_refused outcome then Refused_unsupported
         else Refused_exited)"

section \<open>What each step adds to the log\<close>

definition reports :: "bool \<Rightarrow> teardown_report \<Rightarrow> action list" where
  "reports obs r = Logged r # (if obs then [Event_emitted r] else [])"

definition target_signal :: "nat option \<Rightarrow> bool \<Rightarrow> stop_signal \<Rightarrow> delivery \<Rightarrow> action" where
  "target_signal pid owns_group sig d =
    (case pid of Some pgid \<Rightarrow> if owns_group then Group_signal pgid sig d else Child_signal sig d
     | None \<Rightarrow> Child_signal sig d)"

text \<open>The signals that can stop something, and the answers a group gave.\<close>

definition stops :: "action list \<Rightarrow> action list" where
  "stops = filter (\<lambda>a. case a of Group_signal _ sig _ \<Rightarrow> sig \<noteq> Null_signal | Child_signal _ _ \<Rightarrow> True
    | _ \<Rightarrow> False)"

definition answers :: "action list \<Rightarrow> delivery list" where
  "answers = List.map_filter (\<lambda>a. case a of Group_signal _ _ d \<Rightarrow> Some d | _ \<Rightarrow> None)"

definition reported :: "action list \<Rightarrow> teardown_report list" where
  "reported = List.map_filter (\<lambda>a. case a of Logged r \<Rightarrow> Some r | _ \<Rightarrow> None)"

lemma map_filter_append: "List.map_filter f (xs @ ys) = List.map_filter f xs @ List.map_filter f ys"
  by (simp add: List.map_filter_def)

lemma log_views [simp]:
  "stops [] = []" "answers [] = []" "reported [] = []"
  "stops (xs @ ys) = stops xs @ stops ys"
  "answers (xs @ ys) = answers xs @ answers ys"
  "reported (xs @ ys) = reported xs @ reported ys"
  by (simp_all add: stops_def answers_def reported_def map_filter_append map_filter_simps)

lemma log_view_Cons [simp]:
  "stops (Group_signal p sig d # xs) = (if sig = Null_signal then [] else [Group_signal p sig d]) @ stops xs"
  "stops (Child_signal sig d # xs) = Child_signal sig d # stops xs"
  "stops (Child_awaited # xs) = stops xs" "stops (Slept t # xs) = stops xs"
  "stops (Grace_over # xs) = stops xs" "stops (Logged r # xs) = stops xs"
  "stops (Event_emitted r # xs) = stops xs"
  "answers (Group_signal p sig d # xs) = d # answers xs"
  "answers (Child_signal sig d # xs) = answers xs"
  "answers (Child_awaited # xs) = answers xs" "answers (Slept t # xs) = answers xs"
  "answers (Grace_over # xs) = answers xs" "answers (Logged r # xs) = answers xs"
  "answers (Event_emitted r # xs) = answers xs"
  "reported (Group_signal p sig d # xs) = reported xs"
  "reported (Child_signal sig d # xs) = reported xs"
  "reported (Child_awaited # xs) = reported xs" "reported (Slept t # xs) = reported xs"
  "reported (Grace_over # xs) = reported xs" "reported (Logged r # xs) = r # reported xs"
  "reported (Event_emitted r # xs) = reported xs"
  by (simp_all add: stops_def answers_def reported_def map_filter_simps)

lemma reports_views [simp]:
  "stops (reports obs r) = []" "answers (reports obs r) = []" "reported (reports obs r) = [r]"
  "Grace_over \<notin> set (reports obs r)" "Child_awaited \<notin> set (reports obs r)"
  by (simp_all add: reports_def)

lemma target_signal_stops [simp]:
  "sig \<noteq> Null_signal \<Longrightarrow> stops (target_signal pid owns sig d # xs) = target_signal pid owns sig d # stops xs"
  "reported (target_signal pid owns sig d # xs) = reported xs"
  "target_signal pid owns sig d \<noteq> Grace_over" "target_signal pid owns sig d \<noteq> Child_awaited"
  by (auto simp: target_signal_def split: option.split)

lemma log_action_log [simp]:
  "td_log (log_action a s) = td_log s @ [a]" "td_world (log_action a s) = td_world s"
  by (simp_all add: log_action_def)

lemma report_teardown_log:
  "td_log (report_teardown obs report s) =
    td_log s @ (case report of None \<Rightarrow> [] | Some r \<Rightarrow> reports obs r)"
  by (simp add: report_teardown_def report_group_teardown_def reports_def Let_def split: option.split)

lemma probe_group_log:
  assumes "probe_group k pgid s = (outcome, s')"
  shows "\<exists>d. td_log s' = td_log s @ [Group_signal pgid Null_signal d] \<and>
    outcome = (case d of No_such_process \<Rightarrow> Empty | Not_permitted \<Rightarrow> Unsignalable | Sent \<Rightarrow> Members)"
  using assms by (auto simp: probe_group_def killpg_def Let_def split: prod.splits)

lemma signal_target_log:
  assumes "signal_target_or_report k pid obs owns_group sig s = (sent, s')"
  shows "\<exists>d. td_log s' = td_log s @ target_signal pid owns_group sig d #
      (if d = Not_permitted then reports obs (Signal_refused pid owns_group sig) else []) \<and>
    (sent \<longleftrightarrow> d = Sent)"
proof -
  define r where "r = (case pid of
      Some pgid \<Rightarrow> if owns_group then killpg k pgid sig s else send_child k sig s
    | None \<Rightarrow> send_child k sig s)"
  obtain d s1 where r1: "r = (d, s1)" by fastforce
  then have log: "td_log s1 = td_log s @ [target_signal pid owns_group sig d]"
    by (auto simp: r_def killpg_def send_child_def target_signal_def Let_def
        split: prod.splits option.splits if_splits)
  have "(sent, s') = (case d of
          Sent \<Rightarrow> (True, s1)
        | No_such_process \<Rightarrow> (False, s1)
        | Not_permitted \<Rightarrow> (False, report_group_teardown obs (Signal_refused pid owns_group sig) s1))"
    using assms unfolding signal_target_or_report_def r_def [symmetric] r1 by simp
  with log show ?thesis
    by (cases d) (auto simp: report_group_teardown_def reports_def Let_def intro!: exI [of _ d])
qed

lemma members_remain_log:
  assumes "members_remain_to_signal k pid obs owns_group s = (remain, s')"
  shows "\<exists>acts. td_log s' = td_log s @ acts \<and> stops acts = [] \<and> Grace_over \<notin> set acts \<and>
    (\<forall>pgid. owns_group \<longrightarrow> pid = Some pgid \<longrightarrow>
      (\<exists>d. answers acts = [d] \<and> (remain \<longleftrightarrow> d = Sent) \<and> (d = Not_permitted \<longrightarrow> reported acts \<noteq> [])))"
proof (cases "owns_group \<and> pid \<noteq> None")
  case True
  then obtain pgid where pid: "pid = Some pgid" by blast
  obtain outcome s1 where probe: "probe_group k pgid s = (outcome, s1)" by fastforce
  then obtain d where d: "td_log s1 = td_log s @ [Group_signal pgid Null_signal d]"
    "outcome = (case d of No_such_process \<Rightarrow> Empty | Not_permitted \<Rightarrow> Unsignalable | Sent \<Rightarrow> Members)"
    using probe_group_log by blast
  have result: "remain \<longleftrightarrow> outcome = Members" "s' = report_teardown obs (unsignalable_report outcome pid) s1"
    using assms True pid probe by (auto simp: members_remain_to_signal_def settlement_of_def Let_def)
  show ?thesis
    by (intro exI [of _ "Group_signal pgid Null_signal d #
        (case unsignalable_report outcome pid of None \<Rightarrow> [] | Some r \<Rightarrow> reports obs r)"])
      (use d in \<open>cases d; simp add: result report_teardown_log unsignalable_report_def pid\<close>)
next
  case False
  then have "td_log s' = td_log s"
    using assms by (auto simp: members_remain_to_signal_def settlement_of_def Let_def
        report_teardown_def unsignalable_report_def split: option.splits if_splits)
  then show ?thesis
    using False by (intro exI [of _ "[]"]) auto
qed

section \<open>Polling a group\<close>

definition total_interval :: "nat \<Rightarrow> nat \<Rightarrow> real" where
  "total_interval n m = sum poll_interval {n..<n + m}"

lemma total_interval_simps [simp]:
  "total_interval n 0 = 0"
  "total_interval n (Suc m) = poll_interval n + total_interval (Suc n) m"
  by (simp_all add: total_interval_def sum.atLeast_Suc_lessThan)

text \<open>A poll only asks and sleeps; it sleeps whole rounds and stops at the deadline.\<close>

definition poll_log :: "nat \<Rightarrow> nat \<Rightarrow> real \<Rightarrow> group_probe option \<Rightarrow> action list \<Rightarrow> bool" where
  "poll_log pgid n time_left outcome acts \<longleftrightarrow>
    stops acts = [] \<and> reported acts = [] \<and> Grace_over \<notin> set acts \<and> answers acts \<noteq> [] \<and>
    (\<exists>m. length (answers acts) = Suc m \<and> (m = 0 \<or> total_interval n m < time_left) \<and>
      (case outcome of
         None \<Rightarrow> slept_time acts = max 0 time_left
       | Some probe \<Rightarrow> slept_time acts = total_interval n m \<and>
           probe = (if last (answers acts) = No_such_process then Empty else Unsignalable) \<and>
           last (answers acts) \<noteq> Sent))"

lemma slept_time_simps [simp]:
  "slept_time [] = 0"
  "slept_time (Group_signal p sig d # acts) = slept_time acts"
  "slept_time (Slept t # acts) = t + slept_time acts"
  "slept_time (xs @ ys) = slept_time xs + slept_time ys"
  by (simp_all add: slept_time_def)

lemma await_group_exit_log:
  "await_group_exit k pgid n time_left s = (outcome, s') \<Longrightarrow>
    \<exists>acts. td_log s' = td_log s @ acts \<and> poll_log pgid n time_left outcome acts"
proof (induction k pgid n time_left s arbitrary: outcome s' rule: await_group_exit.induct)
  case (1 k pgid n time_left s)
  obtain probe s1 where probe: "probe_group k pgid s = (probe, s1)" by fastforce
  then obtain d where d: "td_log s1 = td_log s @ [Group_signal pgid Null_signal d]"
    "probe = (case d of No_such_process \<Rightarrow> Empty | Not_permitted \<Rightarrow> Unsignalable | Sent \<Rightarrow> Members)"
    using probe_group_log by blast
  show ?case
  proof (cases "probe = Members")
    case False
    then have "outcome = Some probe" "s' = s1"
      using "1.prems" probe by (simp_all add: await_group_exit.simps [of k pgid n])
    then show ?thesis
      using d False by (intro exI [of _ "[Group_signal pgid Null_signal d]"])
        (auto simp: poll_log_def split: delivery.splits)
  next
    case members: True
    then have sent: "d = Sent"
      using d(2) by (cases d) auto
    show ?thesis
    proof (cases "time_left \<le> poll_interval n")
      case True
      then have "outcome = None" "td_log s' = td_log s1 @ [Slept (max 0 time_left)]"
        using "1.prems" probe members by (auto simp: await_group_exit.simps [of k pgid n])
      then show ?thesis
        using d sent by (intro exI [of _ "[Group_signal pgid Null_signal d, Slept (max 0 time_left)]"])
          (simp add: poll_log_def)
    next
      case later: False
      let ?s2 = "log_action (Slept (poll_interval n)) (s1\<lparr>td_world := k_sleep k (poll_interval n) (td_world s1)\<rparr>)"
      have rest: "await_group_exit k pgid (Suc n) (time_left - poll_interval n) ?s2 = (outcome, s')"
        using "1.prems" probe members later by (simp add: await_group_exit.simps [of k pgid n])
      have "\<not> probe \<noteq> Members"
        using members by simp
      from "1.IH" [OF probe [symmetric] refl this later rest] obtain acts where
        acts: "td_log s' = td_log ?s2 @ acts" "poll_log pgid (Suc n) (time_left - poll_interval n) outcome acts"
        by blast
      then obtain m where m: "length (answers acts) = Suc m"
        "m = 0 \<or> total_interval (Suc n) m < time_left - poll_interval n"
        by (auto simp: poll_log_def)
      let ?acts = "Group_signal pgid Null_signal d # Slept (poll_interval n) # acts"
      have "total_interval n (Suc m) < time_left"
        using m(2) later by auto
      moreover have "max 0 (time_left - poll_interval n) = time_left - poll_interval n"
        "max 0 time_left = time_left"
        using later poll_interval_bounds [of n] by (simp_all add: probe_interval_def)
      ultimately have "poll_log pgid n time_left outcome ?acts"
        using acts(2) m(1) unfolding poll_log_def
        by (auto simp: sent split: option.splits intro!: exI [of _ "Suc m"])
      with acts(1) d(1) show ?thesis
        by (intro exI [of _ ?acts]) simp
    qed
  qed
qed

lemma poll_interval_values:
  "poll_interval 0 = 1 / 100" "poll_interval (Suc 0) = 2 / 100" "poll_interval 2 = 4 / 100"
  "poll_interval 3 = 8 / 100" "4 \<le> n \<Longrightarrow> poll_interval n = 1 / 10"
proof -
  show *: "poll_interval 0 = 1 / 100" "poll_interval (Suc 0) = 2 / 100" "poll_interval 2 = 4 / 100"
    "poll_interval 3 = 8 / 100"
    by (simp_all add: numeral_eq_Suc probe_interval_def max_probe_interval_def)
  show "poll_interval n = 1 / 10" if "4 \<le> n"
    using that
  proof (induction rule: dec_induct)
    case base
    have "poll_interval (Suc 3) = 1 / 10"
      unfolding poll_interval.simps * max_probe_interval_def by simp
    then show ?case by simp
  qed (simp add: max_probe_interval_def)
qed

lemma total_interval_12: "13 \<le> m \<Longrightarrow> 1 < total_interval 0 m"
proof -
  assume "13 \<le> m"
  have "poll_interval n \<ge> 0" for n
    using poll_interval_bounds [of n] by (simp add: probe_interval_def)
  then have "sum poll_interval {0..<13} \<le> total_interval 0 m"
    unfolding total_interval_def using \<open>13 \<le> m\<close> by (intro sum_mono2) auto
  moreover have "sum poll_interval {0..<13} = sum poll_interval {0..<4} + sum poll_interval {4..<13}"
    by (rule sum.atLeastLessThan_concat [symmetric]) simp_all
  moreover have "{0..<4} = {0, Suc 0, 2, 3::nat}"
    by auto
  moreover have "sum poll_interval {4..<13} = 9 / 10"
    by (simp add: poll_interval_values)
  ultimately show ?thesis
    by (simp add: poll_interval_values del: poll_interval.simps)
qed

text \<open>The wait for a killed group is bounded: it asks the kernel at most thirteen times and sleeps
  at most one second in all, it sends no signal, and it answers that members are left only when the
  whole second has passed; any other answer is the last one the kernel gave.\<close>

theorem group_settlement_bounded:
  "case await_group_settlement k pgid \<lparr>td_world = w, td_log = []\<rparr> of (outcome, s) \<Rightarrow>
    length (answers (td_log s)) \<le> 13 \<and> slept_time (td_log s) \<le> post_kill_settlement_s \<and>
    stops (td_log s) = [] \<and>
    (case outcome of
       Members \<Rightarrow> slept_time (td_log s) = post_kill_settlement_s
     | Empty \<Rightarrow> last (answers (td_log s)) = No_such_process
     | Unsignalable \<Rightarrow> last (answers (td_log s)) = Not_permitted)"
proof -
  obtain outcome s where exit: "await_group_exit k pgid 0 post_kill_settlement_s \<lparr>td_world = w, td_log = []\<rparr> =
    (outcome, s)" by fastforce
  from await_group_exit_log [OF this] have log: "poll_log pgid 0 post_kill_settlement_s outcome (td_log s)"
    by simp
  then obtain m where m: "length (answers (td_log s)) = Suc m"
    "m = 0 \<or> total_interval 0 m < 1" "outcome \<noteq> None \<Longrightarrow> slept_time (td_log s) = total_interval 0 m"
    by (auto simp: poll_log_def post_kill_settlement_s_def split: option.splits)
  have "m \<le> 12"
    using m(2) total_interval_12 [of m] by (cases "m \<le> 12") auto
  moreover have "slept_time (td_log s) \<le> 1"
    using m(2,3) log by (cases outcome) (auto simp: poll_log_def post_kill_settlement_s_def)
  ultimately show ?thesis
    using log m(1) unfolding await_group_settlement_def exit
    by (cases "last (answers (td_log s))"; cases outcome)
      (auto simp: poll_log_def post_kill_settlement_s_def)
qed

section \<open>What is left behind\<close>

text \<open>The target is accounted for when the group's last answer was that it is gone, or something was
  reported.\<close>

definition accounted :: "action list \<Rightarrow> bool" where
  "accounted acts \<longleftrightarrow>
    reported acts \<noteq> [] \<or> answers acts \<noteq> [] \<and> last (answers acts) = No_such_process"

lemma accounted_append: "accounted acts \<Longrightarrow> accounted (xs @ acts)"
  by (auto simp: accounted_def)

lemma accounted_poll:
  assumes "poll_log pgid n t (Some outcome) acts"
  shows "accounted (acts @ (case unsignalable_report outcome pid of None \<Rightarrow> [] | Some r \<Rightarrow> reports obs r))"
  using assms by (auto simp: poll_log_def accounted_def unsignalable_report_def split: if_splits)

abbreviation owned :: "nat option \<Rightarrow> bool \<Rightarrow> bool" where
  "owned pid owns_group \<equiv> owns_group \<and> pid \<noteq> None"

lemma settlement_within_log:
  assumes "settlement_within k pid obs owns_group grace s = (settled, s')"
  shows "\<exists>acts. td_log s' = td_log s @ acts \<and> stops acts = [] \<and> Grace_over \<notin> set acts \<and>
    (owned pid owns_group \<longrightarrow> settled \<longrightarrow> accounted acts)"
proof (cases "grace \<le> 0 \<or> \<not> owned pid owns_group")
  case True
  then have "td_log s' = td_log s" "owned pid owns_group \<Longrightarrow> \<not> settled"
    using assms by (auto simp: settlement_within_def split: prod.splits if_splits option.splits)
  then show ?thesis
    by (intro exI [of _ "[]"]) auto
next
  case False
  then obtain pgid where pid: "pid = Some pgid" "owns_group" "\<not> grace \<le> 0" by blast
  obtain outcome s1 where exit: "await_group_exit k pgid 0 grace s = (outcome, s1)" by fastforce
  from await_group_exit_log [OF this] obtain acts where
    acts: "td_log s1 = td_log s @ acts" "poll_log pgid 0 grace outcome acts" by blast
  have quiet: "stops acts = []" "Grace_over \<notin> set acts"
    using acts(2) by (simp_all add: poll_log_def)
  show ?thesis
  proof (cases outcome)
    case None
    then have "s' = s1" "\<not> settled"
      using assms pid exit by (simp_all add: settlement_within_def)
    with acts quiet show ?thesis by blast
  next
    case (Some probe)
    obtain exited w where exited: "k_child_exits_within k grace (td_world s1) = (exited, w)" by fastforce
    let ?report = "case unsignalable_report probe pid of None \<Rightarrow> [] | Some r \<Rightarrow> reports obs r"
    show ?thesis
    proof (cases exited)
      case True
      then have "settled" "td_log s' = td_log s @ acts @ ?report"
        using assms pid exit Some exited acts(1)
        by (auto simp: settlement_within_def report_teardown_log)
      moreover have "stops ?report = []" "Grace_over \<notin> set ?report"
        by (auto split: option.split)
      ultimately show ?thesis
        using quiet accounted_poll [OF acts(2) [unfolded Some]] by (intro exI [of _ "acts @ ?report"]) simp
    next
      case False
      then have "\<not> settled" "td_log s' = td_log s @ acts"
        using assms pid exit Some exited acts(1) by (auto simp: settlement_within_def)
      with quiet show ?thesis by blast
    qed
  qed
qed

lemma settle_after_escalation_log:
  "\<exists>acts. td_log (settle_after_escalation k pid obs owns_group s) = td_log s @ Child_awaited # acts \<and>
    stops acts = [] \<and> Grace_over \<notin> set acts \<and> (owned pid owns_group \<longrightarrow> accounted acts)"
proof (cases "owned pid owns_group")
  case True
  then obtain pgid where pid: "pid = Some pgid" "owns_group" by blast
  let ?s = "log_action Child_awaited (s\<lparr>td_world := k_await_child k (td_world s)\<rparr>)"
  obtain outcome s1 where exit: "await_group_exit k pgid 0 post_kill_settlement_s ?s = (outcome, s1)"
    by fastforce
  from await_group_exit_log [OF this] obtain acts where
    acts: "td_log s1 = td_log ?s @ acts" "poll_log pgid 0 post_kill_settlement_s outcome acts" by blast
  have quiet: "stops acts = []" "Grace_over \<notin> set acts"
    using acts(2) by (simp_all add: poll_log_def)
  show ?thesis
  proof (cases outcome)
    case None
    let ?r = "Settlement_timeout pgid (slept_time (td_log s1) - slept_time (td_log ?s))"
    have "td_log (settle_after_escalation k pid obs owns_group s) = td_log s @ Child_awaited # acts @ reports obs ?r"
      using pid exit None acts(1)
      by (simp add: settle_after_escalation_def await_group_settlement_def Let_def report_teardown_log)
    then show ?thesis
      using quiet by (intro exI [of _ "acts @ reports obs ?r"]) (simp add: accounted_def)
  next
    case (Some probe)
    let ?report = "case unsignalable_report probe pid of None \<Rightarrow> [] | Some r \<Rightarrow> reports obs r"
    have "probe \<noteq> Members"
      using acts(2) by (auto simp: poll_log_def Some split: if_splits)
    then have "td_log (settle_after_escalation k pid obs owns_group s) = td_log s @ Child_awaited # acts @ ?report"
      using pid exit Some acts(1)
      by (simp add: settle_after_escalation_def await_group_settlement_def Let_def report_teardown_log)
    moreover have "stops ?report = []" "Grace_over \<notin> set ?report"
      by (auto split: option.split)
    ultimately show ?thesis
      using quiet accounted_poll [OF acts(2) [unfolded Some]] by (intro exI [of _ "acts @ ?report"]) simp
  qed
next
  case False
  then have "td_log (settle_after_escalation k pid obs owns_group s) = td_log s @ [Child_awaited]"
    by (auto simp: settle_after_escalation_def Let_def split: option.splits)
  with False show ?thesis
    by (intro exI [of _ "[]"]) auto
qed

lemma signal_accounted:
  assumes "signal_target_or_report k pid obs owns_group sig s = (sent, s')" "sig \<noteq> Null_signal"
  shows "\<exists>d acts. td_log s' = td_log s @ acts \<and> stops acts = [target_signal pid owns_group sig d] \<and>
    Grace_over \<notin> set acts \<and> (sent \<longleftrightarrow> d = Sent) \<and>
    (owned pid owns_group \<longrightarrow> \<not> sent \<longrightarrow> accounted acts)"
proof -
  obtain d where d: "td_log s' = td_log s @ target_signal pid owns_group sig d #
      (if d = Not_permitted then reports obs (Signal_refused pid owns_group sig) else [])" "sent \<longleftrightarrow> d = Sent"
    using signal_target_log [OF assms(1)] by blast
  show ?thesis
    by (intro exI [of _ d] exI [of _ "target_signal pid owns_group sig d #
        (if d = Not_permitted then reports obs (Signal_refused pid owns_group sig) else [])"])
      (use d assms(2) in \<open>cases d; auto simp: accounted_def target_signal_def split: option.split\<close>)
qed

lemma escalate_log:
  assumes "escalate_after_grace k pid obs owns_group s = (delivered, s')"
  shows "\<exists>acts. td_log s' = td_log s @ acts \<and> Grace_over \<notin> set acts \<and>
    (if delivered then stops acts = [target_signal pid owns_group Sigkill Sent] \<and> Child_awaited \<in> set acts
     else stops acts = [] \<or> (\<exists>d. d \<noteq> Sent \<and> stops acts = [target_signal pid owns_group Sigkill d])) \<and>
    (owned pid owns_group \<longrightarrow> accounted acts)"
proof -
  obtain remain s1 where remain: "members_remain_to_signal k pid obs owns_group s = (remain, s1)"
    by fastforce
  from members_remain_log [OF this] obtain asked where
    asked: "td_log s1 = td_log s @ asked" "stops asked = []" "Grace_over \<notin> set asked"
    "owned pid owns_group \<Longrightarrow> \<not> remain \<Longrightarrow> accounted asked"
    by (auto simp: accounted_def) (metis delivery.exhaust)
  show ?thesis
  proof (cases remain)
    case False
    then have "\<not> delivered" "s' = s1"
      using assms remain by (simp_all add: escalate_after_grace_def)
    with asked False show ?thesis
      by (intro exI [of _ asked]) auto
  next
    case True
    obtain sent s2 where sent: "signal_target_or_report k pid obs owns_group Sigkill s1 = (sent, s2)"
      by fastforce
    from signal_accounted [OF this] obtain d acts where
      acts: "td_log s2 = td_log s1 @ acts" "stops acts = [target_signal pid owns_group Sigkill d]"
      "Grace_over \<notin> set acts" "sent \<longleftrightarrow> d = Sent" "owned pid owns_group \<longrightarrow> \<not> sent \<longrightarrow> accounted acts"
      by auto
    show ?thesis
    proof (cases sent)
      case False
      then have "\<not> delivered" "s' = s2"
        using assms remain True sent by (simp_all add: escalate_after_grace_def)
      moreover have "owned pid owns_group \<longrightarrow> accounted (asked @ acts)"
        using acts(5) False accounted_append by blast
      moreover have "td_log s' = td_log s @ asked @ acts" "Grace_over \<notin> set (asked @ acts)"
        "stops (asked @ acts) = [target_signal pid owns_group Sigkill d]" "d \<noteq> Sent"
        using acts(1-4) asked(1-3) \<open>s' = s2\<close> False by simp_all
      ultimately show ?thesis
        using \<open>\<not> delivered\<close> by (intro exI [of _ "asked @ acts"]) (simp, blast)
    next
      case sent_kill: True
      obtain reaped where settled: "td_log (settle_after_escalation k pid obs owns_group s2) =
          td_log s2 @ Child_awaited # reaped" "stops reaped = []" "Grace_over \<notin> set reaped"
        "owned pid owns_group \<longrightarrow> accounted reaped"
        using settle_after_escalation_log [of k pid obs owns_group s2] by blast
      have result: "delivered" "s' = settle_after_escalation k pid obs owns_group s2"
        using assms remain True sent sent_kill by (simp_all add: escalate_after_grace_def)
      let ?acts = "asked @ acts @ Child_awaited # reaped"
      have "td_log s' = td_log s @ ?acts" "Grace_over \<notin> set ?acts" "Child_awaited \<in> set ?acts"
        using asked(1,3) acts(1,3) settled(1,3) result(2) by simp_all
      moreover have "stops ?acts = [target_signal pid owns_group Sigkill Sent]"
        using asked(2) acts(2,4) settled(2) sent_kill by simp
      moreover have "owned pid owns_group \<longrightarrow> accounted ?acts"
        using settled(4) accounted_append [of reaped "asked @ acts @ [Child_awaited]"] by simp
      ultimately show ?thesis
        using result(1) by (intro exI [of _ ?acts]) simp
    qed
  qed
qed

section \<open>Properties of a stop\<close>

definition protocol_ok ::
  "(stop_signal \<Rightarrow> delivery \<Rightarrow> action) \<Rightarrow> termination_outcome \<Rightarrow> action list \<Rightarrow> bool" where
  "protocol_ok sig outcome actions \<longleftrightarrow>
    outcome = no_stop \<and> (stops actions = [] \<or> (\<exists>d. d \<noteq> Sent \<and> stops actions = [sig Sigterm d])) \<or>
    outcome = terminated_in_grace \<and> stops actions = [sig Sigterm Sent] \<and> Grace_over \<notin> set actions \<or>
    (\<exists>before after. actions = before @ Grace_over # after \<and> stops before = [sig Sigterm Sent] \<and>
      (outcome = killed_after_grace_unwaited \<and>
         (stops after = [] \<or> (\<exists>d. d \<noteq> Sent \<and> stops after = [sig Sigkill d])) \<or>
       outcome = killed_after_grace \<and> stops after = [sig Sigkill Sent] \<and> Child_awaited \<in> set after))"

lemma terminate_log:
  assumes "terminate_process_with_wait k pid policy obs s = (outcome, s')"
  defines "owns \<equiv> owns_group_for policy 0"
  shows "\<exists>acts. td_log s' = td_log s @ acts \<and> protocol_ok (target_signal pid owns) outcome acts \<and>
    (owned pid owns \<longrightarrow> accounted acts)"
proof -
  let ?grace = "max 0 (tp_grace_period policy)"
  obtain remain s1 where remain: "members_remain_to_signal k pid obs owns s = (remain, s1)"
    by fastforce
  from members_remain_log [OF this] obtain asked where
    asked: "td_log s1 = td_log s @ asked" "stops asked = []" "Grace_over \<notin> set asked"
    "owned pid owns \<Longrightarrow> \<not> remain \<Longrightarrow> accounted asked"
    by (auto simp: accounted_def) (metis delivery.exhaust)
  show ?thesis
  proof (cases remain)
    case False
    then have "outcome = no_stop" "s' = s1"
      using assms(1) remain by (simp_all add: terminate_process_with_wait_def owns_def Let_def)
    with asked False show ?thesis
      by (intro exI [of _ asked]) (simp add: protocol_ok_def)
  next
    case members: True
    obtain sent s2 where sent: "signal_target_or_report k pid obs owns Sigterm s1 = (sent, s2)"
      by fastforce
    from signal_accounted [OF this] obtain d acts where
      acts: "td_log s2 = td_log s1 @ acts" "stops acts = [target_signal pid owns Sigterm d]"
      "Grace_over \<notin> set acts" "sent \<longleftrightarrow> d = Sent" "owned pid owns \<longrightarrow> \<not> sent \<longrightarrow> accounted acts"
      by auto
    show ?thesis
    proof (cases sent)
      case False
      then have "outcome = no_stop" "s' = s2"
        using assms(1) remain members sent by (simp_all add: terminate_process_with_wait_def owns_def Let_def)
      moreover have "protocol_ok (target_signal pid owns) no_stop (asked @ acts)"
        unfolding protocol_ok_def using asked(2) acts(2,4) False by simp blast
      moreover have "owned pid owns \<longrightarrow> accounted (asked @ acts)"
        using acts(5) False accounted_append by blast
      ultimately show ?thesis
        using acts(1) asked(1) by (intro exI [of _ "asked @ acts"]) simp
    next
      case sent_term: True
      obtain settled s3 where settled: "settlement_within k pid obs owns ?grace s2 = (settled, s3)"
        by fastforce
      from settlement_within_log [OF this] obtain waited where
        waited: "td_log s3 = td_log s2 @ waited" "stops waited = []" "Grace_over \<notin> set waited"
        "owned pid owns \<longrightarrow> settled \<longrightarrow> accounted waited" by blast
      have before: "stops (asked @ acts @ waited) = [target_signal pid owns Sigterm Sent]"
        using asked(2) acts(2,4) waited(2) sent_term by simp
      show ?thesis
      proof (cases settled)
        case True
        then have "outcome = terminated_in_grace" "s' = s3"
          using assms(1) remain members sent sent_term settled
          by (simp_all add: terminate_process_with_wait_def owns_def Let_def)
        moreover have "protocol_ok (target_signal pid owns) terminated_in_grace (asked @ acts @ waited)"
          using before asked(3) acts(3) waited(3) by (simp add: protocol_ok_def)
        moreover have "owned pid owns \<longrightarrow> accounted (asked @ acts @ waited)"
          using waited(4) True accounted_append [of waited "asked @ acts"] by simp
        ultimately show ?thesis
          using acts(1) asked(1) waited(1) by (intro exI [of _ "asked @ acts @ waited"]) simp
      next
        case False
        obtain delivered s4 where
          escalated: "escalate_after_grace k pid obs owns (log_action Grace_over s3) = (delivered, s4)"
          by fastforce
        from escalate_log [OF this] obtain after where
          after: "td_log s4 = td_log s3 @ Grace_over # after"
          "if delivered then stops after = [target_signal pid owns Sigkill Sent] \<and> Child_awaited \<in> set after
           else stops after = [] \<or> (\<exists>d. d \<noteq> Sent \<and> stops after = [target_signal pid owns Sigkill d])"
          "owned pid owns \<longrightarrow> accounted after" by auto
        have result: "outcome = (if delivered then killed_after_grace else killed_after_grace_unwaited)" "s' = s4"
          using assms(1) remain members sent sent_term settled False escalated
          by (auto simp: terminate_process_with_wait_def escalate_after_grace_outcome_def owns_def Let_def)
        let ?before = "asked @ acts @ waited"
        have "protocol_ok (target_signal pid owns) outcome (?before @ Grace_over # after)"
          unfolding protocol_ok_def result(1)
          by (rule disjI2, rule disjI2, rule exI [of _ ?before], rule exI [of _ after])
            (use before after(2) in \<open>cases delivered; simp\<close>)
        moreover have "owned pid owns \<longrightarrow> accounted (?before @ Grace_over # after)"
          using after(3) accounted_append [of after "?before @ [Grace_over]"] by simp
        ultimately show ?thesis
          using acts(1) asked(1) waited(1) after(1) result(2)
          by (intro exI [of _ "?before @ Grace_over # after"]) simp
      qed
    qed
  qed
qed

text \<open>(C30) A stop keeps its protocol whatever the kernel answers.  It reports that it stopped nothing
  only when it sent nothing or its graceful signal was not delivered; it reports a cooperative ending
  only after a delivered graceful signal, without compelling anything; and it compels only after the
  graceful signal was delivered and the grace period ran out, with at most one forced signal, whose
  target is then reaped.  Every signal goes to the group exactly when the run owns one, and to the
  direct child otherwise.\<close>

theorem stop_protocol:
  "case terminate_process_with_wait k pid policy obs \<lparr>td_world = w, td_log = []\<rparr> of (outcome, s) \<Rightarrow>
    let actions = td_log s; sig = target_signal pid (owns_group_for policy 0)
    in outcome = no_stop \<and> (stops actions = [] \<or> (\<exists>d. d \<noteq> Sent \<and> stops actions = [sig Sigterm d])) \<or>
       outcome = terminated_in_grace \<and> stops actions = [sig Sigterm Sent] \<and> Grace_over \<notin> set actions \<or>
       (\<exists>before after. actions = before @ Grace_over # after \<and> stops before = [sig Sigterm Sent] \<and>
         (outcome = killed_after_grace_unwaited \<and>
            (stops after = [] \<or> (\<exists>d. d \<noteq> Sent \<and> stops after = [sig Sigkill d])) \<or>
          outcome = killed_after_grace \<and> stops after = [sig Sigkill Sent] \<and> Child_awaited \<in> set after))"
proof -
  obtain outcome s where stop: "terminate_process_with_wait k pid policy obs \<lparr>td_world = w, td_log = []\<rparr> =
    (outcome, s)" by fastforce
  from terminate_log [OF this] have "protocol_ok (target_signal pid (owns_group_for policy 0)) outcome (td_log s)"
    by auto
  then show ?thesis
    unfolding stop protocol_ok_def by (simp add: Let_def)
qed

text \<open>(C18) A stop of an owned process group leaves nothing behind in silence: when it returns, either the
  last answer the kernel gave about the group is that it has no member, or a report says what was
  left: members that could not be signalled, a signal that was refused, or members that outlived the
  forced signal.\<close>

theorem no_silent_survivor:
  assumes "owns_group_for policy 0"
  shows "accounted (td_log (snd (terminate_process_with_wait k (Some pgid) policy obs
    \<lparr>td_world = w, td_log = []\<rparr>)))"
proof -
  obtain outcome s where stop: "terminate_process_with_wait k (Some pgid) policy obs
    \<lparr>td_world = w, td_log = []\<rparr> = (outcome, s)" by fastforce
  from terminate_log [OF this] assms show ?thesis
    by (auto simp: stop)
qed

definition stubborn_kernel :: "nat kernel" where
  "stubborn_kernel =
    \<lparr>k_killpg = (\<lambda>pgid sig w. (Sent, w)), k_send = (\<lambda>sig w. (Sent, w)), k_returncode = (\<lambda>w. None),
     k_child_exits_within = (\<lambda>t w. (False, w)), k_await_child = (\<lambda>w. w), k_sleep = (\<lambda>t w. w)\<rparr>"

lemma no_silent_survivor_witness:
  "accounted (td_log (snd (terminate_process_with_wait stubborn_kernel (Some 7)
    \<lparr>tp_grace_period = 1, tp_owns_group = Owns_all True\<rparr> True \<lparr>td_world = 0, td_log = []\<rparr>)))"
  by (rule no_silent_survivor) (simp add: owns_group_for_def)

end
