(* ===== verification/Settlement.thy ===== *)
theory Settlement
  imports Process_Teardown
begin

text \<open>
  The owned handle of a running command: the one settlement its callers share
  (\<open>_process_handle/settlement.py\<close>), the arbitration of a stop's errors (\<open>settle.py\<close>) and the delivery of
  a caller's signal (\<open>control.py\<close>, \<open>reporting.py\<close>).  The sections under the settlement's lock never
  wait, so each is one event; the clock, the child and the closing of the run are the environment's events.
\<close>

section \<open>The settlement\<close>

datatype child_state = Alive | Own_exit | Stopped

text \<open>
  How far the reap of an exited child has come: the kernel holds its status, the owner's reaper has collected it, or the
  return code is published.
\<close>

datatype exit_status = Uncollected | Collected | Published

text \<open>
  \<open>_observed_exit_code\<close>: the published code, or what the kernel tells of a child that is still waitable, where there is
  a probe that does not reap.
\<close>

definition observed_exit_code :: "int option \<Rightarrow> bool \<Rightarrow> nat option \<Rightarrow> (bool \<times> int) option \<Rightarrow> int option" where
  "observed_exit_code published probe_available pid waitable =
    (case published of
       Some code \<Rightarrow> Some code
     | None \<Rightarrow>
         if \<not> probe_available \<or> pid = None then None
         else map_option (\<lambda>(exited, status). if exited then status else - status) waitable)"

text \<open>How the task closes the run: as the ending of the child, or as a caller's deadline.\<close>

datatype run_closing = As_success | As_timeout real

datatype ('r, 'e) task_phase =
    No_task
  | Waiting_child
  | Finalizing run_closing 'r
  | Task_done run_closing 'r
  | Task_failed 'e

datatype ('r, 'e) caller_state =
    Idle
  | Awaiting "real option"
  | Expiring real
  | Collecting real
  | Returned 'r
  | Raised_expiry real 'r
  | Raised_error 'e
  | Withdrawn

record ('c, 'r, 'e) settlement_state =
  st_probe :: bool
  st_child :: child_state
  st_status :: exit_status
  st_deadline :: "real option"
  st_result :: "'r option"
  st_task_held :: bool
  st_task :: "('r, 'e) task_phase"
  st_callers :: "'c \<Rightarrow> ('r, 'e) caller_state"

definition initial_settlement :: "bool \<Rightarrow> ('c, 'r, 'e) settlement_state" where
  "initial_settlement probe =
    \<lparr>st_probe = probe, st_child = Alive, st_status = Uncollected, st_deadline = None, st_result = None, st_task_held = False, st_task = No_task,
     st_callers = (\<lambda>_. Idle)\<rparr>"

definition set_caller ::
  "'c \<Rightarrow> ('r, 'e) caller_state \<Rightarrow> ('c, 'r, 'e) settlement_state \<Rightarrow> ('c, 'r, 'e) settlement_state" where
  "set_caller i pc s = s\<lparr>st_callers := (st_callers s)(i := pc)\<rparr>"

definition start_task :: "('c, 'r, 'e) settlement_state \<Rightarrow> ('c, 'r, 'e) settlement_state" where
  "start_task s = (if st_task_held s then s else s\<lparr>st_task_held := True, st_task := Waiting_child\<rparr>)"

definition record_deadline :: "real \<Rightarrow> ('c, 'r, 'e) settlement_state \<Rightarrow> ('c, 'r, 'e) settlement_state" where
  "record_deadline d s = (if st_deadline s = None then s\<lparr>st_deadline := Some d\<rparr> else s)"

definition await_settlement ::
  "'c \<Rightarrow> real option \<Rightarrow> ('c, 'r, 'e) settlement_state \<Rightarrow> ('c, 'r, 'e) settlement_state" where
  "await_settlement i deadline s =
    (case st_result s of
       Some settled \<Rightarrow> set_caller i (Returned settled) s
     | None \<Rightarrow> set_caller i (Awaiting deadline) (start_task s))"

text \<open>Whether \<open>_observed_exit_code\<close> answers at all; the code itself does not matter to the settlement.\<close>

definition exit_observed :: "('c, 'r, 'e) settlement_state \<Rightarrow> bool" where
  "exit_observed s \<longleftrightarrow>
    observed_exit_code (if st_child s \<noteq> Alive \<and> st_status s = Published then Some 0 else None) (st_probe s) (Some 0)
      (if st_child s \<noteq> Alive \<and> st_status s = Uncollected then Some (True, 0) else None) \<noteq> None"

definition expire :: "'c \<Rightarrow> real \<Rightarrow> ('c, 'r, 'e) settlement_state \<Rightarrow> ('c, 'r, 'e) settlement_state" where
  "expire i deadline s =
    (case st_result s of
       Some settled \<Rightarrow> set_caller i (Returned settled) s
     | None \<Rightarrow>
         let exited_first = deadline > 0 \<and> exit_observed s;
             s = start_task (if exited_first then s else record_deadline deadline s)
         in if exited_first then await_settlement i None s
            else set_caller i (Expiring deadline) s)"

definition outcome_call ::
  "'c \<Rightarrow> real option \<Rightarrow> ('c, 'r, 'e) settlement_state \<Rightarrow> ('c, 'r, 'e) settlement_state" where
  "outcome_call i deadline s =
    (case deadline of
       None \<Rightarrow> await_settlement i None s
     | Some d \<Rightarrow> if d \<le> 0 then expire i d s else await_settlement i (Some d) s)"

definition collect_outcome :: "'r \<Rightarrow> ('c, 'r, 'e) settlement_state \<Rightarrow> ('c, 'r, 'e) settlement_state" where
  "collect_outcome r s = s\<lparr>st_result := Some r, st_task_held := False\<rparr>"

text \<open>
  The events.  \<open>Stop_done\<close> says whether the stop ended the child; \<open>Child_gone\<close> is the child's own exit;
  \<open>Status_collected\<close> and \<open>Code_published\<close> are the two moments of its reap;
  \<open>Run_settled\<close> is the end of the wait and the drain, after which the deadline is read;
  \<open>Run_failed\<close> and \<open>Finalize_failed\<close> are errors of the run, of a hook or of the closing itself.
\<close>

datatype ('c, 'r, 'e) settlement_event =
    Call 'c "real option"
  | Clock 'c
  | Stop_done 'c bool
  | Wake 'c
  | Cancel_caller 'c
  | Child_gone
  | Status_collected
  | Code_published
  | Run_settled 'r
  | Run_failed 'e
  | Finalized
  | Finalize_failed 'e

fun settlement_step ::
  "('c, 'r, 'e) settlement_event \<Rightarrow> ('c, 'r, 'e) settlement_state \<Rightarrow> ('c, 'r, 'e) settlement_state option" where
  "settlement_step (Call i deadline) s =
    (if st_callers s i = Idle then Some (outcome_call i deadline s) else None)"
| "settlement_step (Clock i) s =
    (case st_callers s i of Awaiting (Some d) \<Rightarrow> Some (expire i d s) | _ \<Rightarrow> None)"
| "settlement_step (Stop_done i ended) s =
    (case st_callers s i of
       Expiring d \<Rightarrow>
         Some (set_caller i (Collecting d) (if ended \<and> st_child s = Alive then s\<lparr>st_child := Stopped\<rparr> else s))
     | _ \<Rightarrow> None)"
| "settlement_step (Wake i) s =
    (case (st_callers s i, st_task s) of
       (Awaiting _, Task_done _ r) \<Rightarrow> Some (set_caller i (Returned r) (collect_outcome r s))
     | (Awaiting _, Task_failed e) \<Rightarrow> Some (set_caller i (Raised_error e) s)
     | (Collecting d, Task_done _ r) \<Rightarrow> Some (set_caller i (Raised_expiry d r) (collect_outcome r s))
     | (Collecting d, Task_failed e) \<Rightarrow> Some (set_caller i (Raised_error e) s)
     | _ \<Rightarrow> None)"
| "settlement_step (Cancel_caller i) s =
    (case st_callers s i of
       Awaiting _ \<Rightarrow> Some (set_caller i Withdrawn s)
     | Expiring _ \<Rightarrow> Some (set_caller i Withdrawn s)
     | Collecting _ \<Rightarrow> Some (set_caller i Withdrawn s)
     | _ \<Rightarrow> None)"
| "settlement_step Child_gone s =
    (if st_child s = Alive then Some (s\<lparr>st_child := Own_exit\<rparr>) else None)"
| "settlement_step Status_collected s =
    (if st_child s \<noteq> Alive \<and> st_status s = Uncollected then Some (s\<lparr>st_status := Collected\<rparr>) else None)"
| "settlement_step Code_published s =
    (if st_child s \<noteq> Alive \<and> st_status s = Collected then Some (s\<lparr>st_status := Published\<rparr>) else None)"
| "settlement_step (Run_settled r) s =
    (if st_task s = Waiting_child \<and> st_child s \<noteq> Alive
     then Some (s\<lparr>st_task := Finalizing
       (case st_deadline s of None \<Rightarrow> As_success | Some d \<Rightarrow> As_timeout d) r\<rparr>)
     else None)"
| "settlement_step (Run_failed e) s =
    (if st_task s = Waiting_child then Some (s\<lparr>st_task := Task_failed e\<rparr>) else None)"
| "settlement_step Finalized s =
    (case st_task s of
       Finalizing f r \<Rightarrow> Some (s\<lparr>st_task := Task_done f r, st_result := Some r\<rparr>)
     | _ \<Rightarrow> None)"
| "settlement_step (Finalize_failed e) s =
    (case st_task s of Finalizing f r \<Rightarrow> Some (s\<lparr>st_task := Task_failed e\<rparr>) | _ \<Rightarrow> None)"

inductive settlement_reach :: "('c, 'r, 'e) settlement_state \<Rightarrow> bool" where
  reach_initial: "settlement_reach (initial_settlement probe)"
| reach_step: "settlement_reach s \<Longrightarrow> settlement_step e s = Some s' \<Longrightarrow> settlement_reach s'"

section \<open>The contract: one outcome for everybody\<close>

datatype ('r, 'e) reply = Value_reply 'r | Expiry_reply real 'r | Error_reply 'e | No_reply

record ('c, 'r, 'e) one_outcome =
  oo_outcome :: "('e + 'r) option"
  oo_replies :: "'c \<Rightarrow> ('r, 'e) reply option"

fun reply_from :: "'e + 'r \<Rightarrow> ('r, 'e) reply \<Rightarrow> bool" where
  "reply_from (Inr r) (Value_reply r') \<longleftrightarrow> r' = r"
| "reply_from (Inr r) (Expiry_reply d r') \<longleftrightarrow> r' = r"
| "reply_from (Inl e) (Error_reply e') \<longleftrightarrow> e' = e"
| "reply_from _ No_reply \<longleftrightarrow> True"
| "reply_from _ _ \<longleftrightarrow> False"

inductive one_outcome_step :: "('c, 'r, 'e) one_outcome \<Rightarrow> ('c, 'r, 'e) one_outcome \<Rightarrow> bool" where
  decide: "oo_outcome a = None \<Longrightarrow> one_outcome_step a (a\<lparr>oo_outcome := Some result\<rparr>)"
| answer: "oo_outcome a = Some result \<Longrightarrow> oo_replies a i = None \<Longrightarrow> reply_from result given \<Longrightarrow>
    one_outcome_step a (a\<lparr>oo_replies := (oo_replies a)(i := Some given)\<rparr>)"
| withdraw: "oo_replies a i = None \<Longrightarrow>
    one_outcome_step a (a\<lparr>oo_replies := (oo_replies a)(i := Some No_reply)\<rparr>)"

fun caller_reply :: "('r, 'e) caller_state \<Rightarrow> ('r, 'e) reply option" where
  "caller_reply (Returned r) = Some (Value_reply r)"
| "caller_reply (Raised_expiry d r) = Some (Expiry_reply d r)"
| "caller_reply (Raised_error e) = Some (Error_reply e)"
| "caller_reply Withdrawn = Some No_reply"
| "caller_reply _ = None"

fun task_outcome :: "('r, 'e) task_phase \<Rightarrow> ('e + 'r) option" where
  "task_outcome (Task_done f r) = Some (Inr r)"
| "task_outcome (Task_failed e) = Some (Inl e)"
| "task_outcome _ = None"

definition abs_settlement :: "('c, 'r, 'e) settlement_state \<Rightarrow> ('c, 'r, 'e) one_outcome" where
  "abs_settlement s =
    \<lparr>oo_outcome = task_outcome (st_task s), oo_replies = (\<lambda>i. caller_reply (st_callers s i))\<rparr>"

section \<open>The invariant\<close>

fun closing_ok :: "real option \<Rightarrow> run_closing \<Rightarrow> bool" where
  "closing_ok deadline As_success \<longleftrightarrow> True"
| "closing_ok deadline (As_timeout d) \<longleftrightarrow> deadline = Some d"

fun task_result :: "('r, 'e) task_phase \<Rightarrow> 'r option" where
  "task_result (Task_done f r) = Some r"
| "task_result _ = None"

definition settlement_ok :: "('c, 'r, 'e) settlement_state \<Rightarrow> bool" where
  "settlement_ok s \<longleftrightarrow>
    st_result s = task_result (st_task s) \<and>
    (st_task_held s \<longrightarrow> st_task s \<noteq> No_task) \<and>
    (\<not> st_task_held s \<longrightarrow> st_task s = No_task \<or> st_result s \<noteq> None) \<and>
    (\<forall>f r. st_task s = Finalizing f r \<or> st_task s = Task_done f r \<longrightarrow>
      st_child s \<noteq> Alive \<and> closing_ok (st_deadline s) f)"

lemma settlement_ok_set_caller [simp]: "settlement_ok (set_caller i pc s) \<longleftrightarrow> settlement_ok s"
  by (simp add: settlement_ok_def set_caller_def)

lemma settlement_ok_status [simp]: "settlement_ok (s\<lparr>st_status := x\<rparr>) \<longleftrightarrow> settlement_ok s"
  by (simp add: settlement_ok_def)

lemma settlement_fields [simp]:
  "st_callers (set_caller i pc s) = (st_callers s)(i := pc)"
  "exit_observed (set_caller i pc s) = exit_observed s" "exit_observed (start_task s) = exit_observed s"
  "exit_observed (record_deadline d s) = exit_observed s"
  "st_child (set_caller i pc s) = st_child s" "st_deadline (set_caller i pc s) = st_deadline s"
  "st_result (set_caller i pc s) = st_result s" "st_task (set_caller i pc s) = st_task s"
  "st_callers (start_task s) = st_callers s" "st_child (start_task s) = st_child s"
  "st_deadline (start_task s) = st_deadline s" "st_result (start_task s) = st_result s"
  "st_callers (record_deadline d s) = st_callers s" "st_child (record_deadline d s) = st_child s"
  "st_result (record_deadline d s) = st_result s" "st_task (record_deadline d s) = st_task s"
  "st_task_held (record_deadline d s) = st_task_held s"
  "st_callers (collect_outcome r s) = st_callers s" "st_child (collect_outcome r s) = st_child s"
  "st_deadline (collect_outcome r s) = st_deadline s" "st_task (collect_outcome r s) = st_task s"
  by (simp_all add: exit_observed_def set_caller_def start_task_def record_deadline_def collect_outcome_def)

lemma start_task_ok:
  assumes "settlement_ok s" "st_result s = None"
  shows "settlement_ok (start_task s) \<and> st_task (start_task s) \<noteq> No_task \<and>
    task_outcome (st_task (start_task s)) = task_outcome (st_task s)"
  using assms by (auto simp: settlement_ok_def start_task_def)

lemma record_deadline_ok:
  assumes "settlement_ok s"
  shows "settlement_ok (record_deadline d s)"
proof -
  have "closing_ok (st_deadline (record_deadline d s)) f" if "closing_ok (st_deadline s) f" for f
    using that by (cases f) (auto simp: record_deadline_def)
  with assms show ?thesis
    unfolding settlement_ok_def settlement_fields by blast
qed

lemma collect_outcome_ok:
  assumes "settlement_ok s" "st_task s = Task_done f r"
  shows "settlement_ok (collect_outcome r s)"
  using assms by (auto simp: settlement_ok_def collect_outcome_def)

lemma result_outcome: "settlement_ok s \<Longrightarrow> st_result s = Some r \<Longrightarrow> task_outcome (st_task s) = Some (Inr r)"
  by (cases "st_task s") (auto simp: settlement_ok_def)

text \<open>What the two entry points do to the state.\<close>

lemma await_settlement_ok:
  assumes "settlement_ok s"
  shows "settlement_ok (await_settlement i d s) \<and>
    task_outcome (st_task (await_settlement i d s)) = task_outcome (st_task s) \<and>
    st_callers (await_settlement i d s) =
      (st_callers s)(i := (case st_result s of Some r \<Rightarrow> Returned r | None \<Rightarrow> Awaiting d))"
  using assms start_task_ok [OF assms]
  by (cases "st_result s") (simp_all add: await_settlement_def)

lemma expire_ok:
  assumes "settlement_ok s"
  shows "settlement_ok (expire i d s) \<and> task_outcome (st_task (expire i d s)) = task_outcome (st_task s) \<and>
    st_callers (expire i d s) = (st_callers s)(i :=
      (case st_result s of Some r \<Rightarrow> Returned r
       | None \<Rightarrow> if d > 0 \<and> exit_observed s then Awaiting None else Expiring d))"
proof (cases "st_result s")
  case None
  show ?thesis
  proof (cases "d > 0 \<and> exit_observed s")
    case True
    note started = start_task_ok [OF assms None]
    with await_settlement_ok [of "start_task s" i None] None True show ?thesis
      by (simp add: expire_def Let_def)
  next
    case False
    note recorded = record_deadline_ok [OF assms, of d]
    have "st_result (record_deadline d s) = None"
      using None by simp
    note started = start_task_ok [OF recorded this]
    then show ?thesis
      using None False by (auto simp: expire_def Let_def)
  qed
qed (use assms in \<open>simp add: expire_def\<close>)

lemma outcome_call_ok:
  assumes "settlement_ok s"
  shows "settlement_ok (outcome_call i deadline s) \<and>
    task_outcome (st_task (outcome_call i deadline s)) = task_outcome (st_task s) \<and>
    (\<exists>pc. st_callers (outcome_call i deadline s) = (st_callers s)(i := pc) \<and>
      (caller_reply pc = None \<or> (\<exists>r. pc = Returned r \<and> st_result s = Some r)))"
  using await_settlement_ok [OF assms, of i] expire_ok [OF assms, of i]
  by (auto simp: outcome_call_def split: option.splits)

section \<open>Refinement\<close>

lemma abs_settlement_eq:
  "abs_settlement s = \<lparr>oo_outcome = task_outcome (st_task s), oo_replies = caller_reply \<circ> st_callers s\<rparr>"
  by (simp add: abs_settlement_def comp_def)

definition simulates :: "('c, 'r, 'e) settlement_state \<Rightarrow> ('c, 'r, 'e) settlement_state \<Rightarrow> bool" where
  "simulates s s' \<longleftrightarrow>
    abs_settlement s' = abs_settlement s \<or> one_outcome_step (abs_settlement s) (abs_settlement s')"

text \<open>The three ways an event shows: nothing, the outcome, or one caller's reply.\<close>

lemma simulates_silent:
  assumes "task_outcome (st_task s') = task_outcome (st_task s)"
    and "st_callers s' = (st_callers s)(i := pc)" "caller_reply pc = caller_reply (st_callers s i)"
  shows "simulates s s'"
proof -
  have "caller_reply \<circ> st_callers s' = caller_reply \<circ> st_callers s"
    by (rule ext) (simp add: assms)
  then show ?thesis
    by (simp add: simulates_def abs_settlement_eq assms(1))
qed

lemma simulates_reply:
  assumes "task_outcome (st_task s') = task_outcome (st_task s)"
    and "st_callers s' = (st_callers s)(i := pc)" "caller_reply (st_callers s i) = None"
    and "caller_reply pc = Some given"
    and "given = No_reply \<or> (\<exists>result. task_outcome (st_task s) = Some result \<and> reply_from result given)"
  shows "simulates s s'"
proof -
  let ?a = "abs_settlement s"
  have "abs_settlement s' = ?a\<lparr>oo_replies := (oo_replies ?a)(i := Some given)\<rparr>"
    by (simp add: abs_settlement_eq assms(1,2) fun_upd_comp [symmetric] fun_eq_iff assms(4))
  moreover have "oo_replies ?a i = None"
    by (simp add: abs_settlement_eq assms(3))
  moreover have "one_outcome_step ?a (?a\<lparr>oo_replies := (oo_replies ?a)(i := Some given)\<rparr>)"
    if "oo_replies ?a i = None"
    using assms(5)
  proof
    assume "given = No_reply"
    then show ?thesis
      using withdraw [OF that] by simp
  next
    assume "\<exists>result. task_outcome (st_task s) = Some result \<and> reply_from result given"
    then obtain result where "oo_outcome ?a = Some result" "reply_from result given"
      by (auto simp: abs_settlement_eq)
    then show ?thesis
      using answer [OF _ that] by blast
  qed
  ultimately show ?thesis
    by (simp add: simulates_def)
qed

lemma simulates_decide:
  assumes "task_outcome (st_task s) = None" "st_callers s' = st_callers s"
  shows "simulates s s'"
proof (cases "task_outcome (st_task s')")
  case None
  then show ?thesis
    using assms by (simp add: simulates_def abs_settlement_eq)
next
  case (Some result)
  let ?a = "abs_settlement s"
  have "abs_settlement s' = ?a\<lparr>oo_outcome := Some result\<rparr>" "oo_outcome ?a = None"
    using assms Some by (simp_all add: abs_settlement_eq)
  then show ?thesis
    unfolding simulates_def by (auto intro: decide)
qed

lemma step_simulates:
  assumes "settlement_ok s" "settlement_step e s = Some s'"
  shows "settlement_ok s' \<and> simulates s s'"
proof (cases e)
  case (Call i d)
  then have idle: "st_callers s i = Idle" and s': "s' = outcome_call i d s"
    using assms(2) by (auto split: if_splits)
  from outcome_call_ok [OF assms(1), of i d] obtain pc where
    ok: "settlement_ok s'" "task_outcome (st_task s') = task_outcome (st_task s)"
    and pc: "st_callers s' = (st_callers s)(i := pc)"
      "caller_reply pc = None \<or> (\<exists>r. pc = Returned r \<and> st_result s = Some r)"
    unfolding s' by blast
  from pc(2) have "simulates s s'"
  proof
    assume "caller_reply pc = None"
    then show ?thesis
      by (intro simulates_silent [OF ok(2) pc(1)]) (simp add: idle)
  next
    assume "\<exists>r. pc = Returned r \<and> st_result s = Some r"
    then show ?thesis
      using ok(2) pc(1) idle result_outcome [OF assms(1)] by (auto intro!: simulates_reply [where i = i])
  qed
  with ok(1) show ?thesis by blast
next
  case (Clock i)
  then obtain d where pc: "st_callers s i = Awaiting (Some d)" and s': "s' = expire i d s"
    using assms(2) by (auto split: caller_state.splits option.splits)
  note ok = expire_ok [OF assms(1), of i d, folded s']
  have "simulates s s'"
  proof (cases "st_result s")
    case None
    with ok show ?thesis by (auto simp: pc intro!: simulates_silent [where i = i])
  next
    case (Some r)
    with ok pc result_outcome [OF assms(1)] show ?thesis
      by (auto intro!: simulates_reply [where i = i])
  qed
  with ok show ?thesis by blast
next
  case (Stop_done i ended)
  then obtain d where pc: "st_callers s i = Expiring d"
    and s': "s' = set_caller i (Collecting d) (if ended \<and> st_child s = Alive then s\<lparr>st_child := Stopped\<rparr> else s)"
    using assms(2) by (auto split: caller_state.splits)
  have "settlement_ok s'"
    unfolding s' settlement_ok_set_caller using assms(1) by (auto simp: settlement_ok_def)
  moreover have "simulates s s'"
    by (rule simulates_silent [where i = i]) (auto simp: s' pc)
  ultimately show ?thesis by blast
next
  case (Wake i)
  with assms(2) consider
    (returned) d f r where "st_callers s i = Awaiting d" "st_task s = Task_done f r"
      "s' = set_caller i (Returned r) (collect_outcome r s)"
  | (expiry) d f r where "st_callers s i = Collecting d" "st_task s = Task_done f r"
      "s' = set_caller i (Raised_expiry d r) (collect_outcome r s)"
  | (error) e where "caller_reply (st_callers s i) = None" "st_task s = Task_failed e"
      "s' = set_caller i (Raised_error e) s"
    by (auto split: caller_state.splits task_phase.splits)
  then show ?thesis
  proof cases
    case returned
    then show ?thesis
      using collect_outcome_ok [OF assms(1) returned(2)] by (auto intro!: simulates_reply [where i = i])
  next
    case expiry
    then show ?thesis
      using collect_outcome_ok [OF assms(1) expiry(2)] by (auto intro!: simulates_reply [where i = i])
  next
    case error
    then show ?thesis
      using assms(1) by (auto intro!: simulates_reply [where i = i])
  qed
next
  case (Cancel_caller i)
  then have "caller_reply (st_callers s i) = None" "s' = set_caller i Withdrawn s"
    using assms(2) by (auto split: caller_state.splits)
  then show ?thesis
    using assms(1) by (auto intro!: simulates_reply [where i = i])
next
  case Child_gone
  then have s': "s' = s\<lparr>st_child := Own_exit\<rparr>"
    using assms(2) by (auto split: if_splits)
  then show ?thesis
    using assms(1) by (auto simp: settlement_ok_def simulates_def abs_settlement_eq)
next
  case Status_collected
  then have s': "s' = s\<lparr>st_status := Collected\<rparr>"
    using assms(2) by (auto split: if_splits)
  then show ?thesis
    using assms(1) by (simp add: simulates_def abs_settlement_eq)
next
  case Code_published
  then have s': "s' = s\<lparr>st_status := Published\<rparr>"
    using assms(2) by (auto split: if_splits)
  then show ?thesis
    using assms(1) by (simp add: simulates_def abs_settlement_eq)
next
  case (Run_settled r)
  then have s': "st_task s = Waiting_child" "st_child s \<noteq> Alive"
    "s' = s\<lparr>st_task := Finalizing (case st_deadline s of None \<Rightarrow> As_success | Some d \<Rightarrow> As_timeout d) r\<rparr>"
    using assms(2) by (auto split: if_splits)
  then have "settlement_ok s'"
    using assms(1) by (auto simp: settlement_ok_def split: option.splits)
  with s' show ?thesis
    by (auto intro: simulates_decide)
next
  case (Run_failed x)
  then have s': "st_task s = Waiting_child" "s' = s\<lparr>st_task := Task_failed x\<rparr>"
    using assms(2) by (auto split: if_splits)
  then have "settlement_ok s'"
    using assms(1) by (auto simp: settlement_ok_def)
  with s' show ?thesis
    by (auto intro: simulates_decide)
next
  case Finalized
  then obtain f r where s': "st_task s = Finalizing f r" "s' = s\<lparr>st_task := Task_done f r, st_result := Some r\<rparr>"
    using assms(2) by (auto split: task_phase.splits)
  then have "settlement_ok s'"
    using assms(1) by (auto simp: settlement_ok_def)
  with s' show ?thesis
    by (auto intro: simulates_decide)
next
  case (Finalize_failed x)
  then obtain f r where s': "st_task s = Finalizing f r" "s' = s\<lparr>st_task := Task_failed x\<rparr>"
    using assms(2) by (auto split: task_phase.splits)
  then have "settlement_ok s'"
    using assms(1) by (auto simp: settlement_ok_def)
  with s' show ?thesis
    by (auto intro: simulates_decide)
qed

lemma reach_ok: "settlement_reach s \<Longrightarrow> settlement_ok s"
proof (induction rule: settlement_reach.induct)
  case reach_initial
  show ?case by (simp add: settlement_ok_def initial_settlement_def)
next
  case (reach_step s e s')
  then show ?case using step_simulates by blast
qed

section \<open>Properties of the settlement\<close>

lemma one_outcome_replies:
  assumes "one_outcome_step\<^sup>*\<^sup>* \<lparr>oo_outcome = None, oo_replies = (\<lambda>_. None)\<rparr> a"
    and "oo_replies a i = Some given"
  shows "given = No_reply \<or> (\<exists>result. oo_outcome a = Some result \<and> reply_from result given)"
  using assms
proof (induction arbitrary: i given rule: rtranclp_induct)
  case (step a b)
  from step.hyps(2) show ?case
  proof cases
    case (decide result)
    then show ?thesis using step by fastforce
  next
    case (answer result j g)
    then show ?thesis using step by (cases "i = j") auto
  next
    case (withdraw j)
    then show ?thesis using step by (cases "i = j") auto
  qed
qed simp

text \<open>(C4) Whatever the interleaving of waits, deadlines, stops, cancellations and failures, the handle
  refines one decided outcome: the settlement is decided at most once and never changes, and every
  caller that is answered gets that one outcome, as its value, inside its own expiry, or as the error
  that ended the run.\<close>

theorem settlement_refines_one_outcome:
  assumes "settlement_reach s"
  shows "one_outcome_step\<^sup>*\<^sup>* \<lparr>oo_outcome = None, oo_replies = (\<lambda>_. None)\<rparr> (abs_settlement s) \<and>
    (caller_reply (st_callers s i) = Some given \<longrightarrow> given = No_reply \<or>
      (\<exists>result. task_outcome (st_task s) = Some result \<and> reply_from result given))"
proof -
  have reach: "one_outcome_step\<^sup>*\<^sup>* \<lparr>oo_outcome = None, oo_replies = (\<lambda>_. None)\<rparr> (abs_settlement s)"
    using assms
  proof (induction rule: settlement_reach.induct)
    case reach_initial
    show ?case by (simp add: abs_settlement_def initial_settlement_def)
  next
    case (reach_step s e s')
    then have "simulates s s'"
      using step_simulates [OF reach_ok] by blast
    with reach_step.IH show ?case
      unfolding simulates_def by (metis rtranclp.rtrancl_into_rtrancl)
  qed
  with one_outcome_replies [OF reach, of i given] show ?thesis
    by (simp add: abs_settlement_def)
qed

fun run_settlement ::
  "('c, 'r, 'e) settlement_event list \<Rightarrow> ('c, 'r, 'e) settlement_state \<Rightarrow> ('c, 'r, 'e) settlement_state option" where
  "run_settlement [] s = Some s"
| "run_settlement (e # es) s =
    (case settlement_step e s of None \<Rightarrow> None | Some s' \<Rightarrow> run_settlement es s')"

lemma run_settlement_reach:
  "settlement_reach s \<Longrightarrow> run_settlement es s = Some s' \<Longrightarrow> settlement_reach s'"
  by (induction es arbitrary: s) (auto intro: reach_step split: option.splits)

text \<open>A first caller waits without a deadline, a second one for a second that passes.\<close>

definition two_callers :: "(nat, unit, unit) settlement_event list" where
  "two_callers = [Call 0 None, Call 1 (Some 1), Clock 1, Stop_done 1 True, Run_settled (), Finalized, Wake 0, Wake 1]"

definition two_callers_end :: "(nat, unit, unit) settlement_state" where
  "two_callers_end = the (run_settlement two_callers (initial_settlement True))"

lemma two_callers_run: "run_settlement two_callers (initial_settlement True) = Some two_callers_end"
  by (simp add: two_callers_end_def two_callers_def initial_settlement_def outcome_call_def exit_observed_def
      observed_exit_code_def
      await_settlement_def expire_def set_caller_def start_task_def record_deadline_def collect_outcome_def Let_def)

lemma settlement_refines_one_outcome_witness:
  "one_outcome_step\<^sup>*\<^sup>* \<lparr>oo_outcome = None, oo_replies = (\<lambda>_. None)\<rparr> (abs_settlement two_callers_end)"
  using settlement_refines_one_outcome [OF run_settlement_reach [OF reach_initial two_callers_run]] by blast

text \<open>A caller that is expiring, or has expired, recorded a deadline.\<close>

fun expires :: "('r, 'e) caller_state \<Rightarrow> bool" where
  "expires (Expiring d) \<longleftrightarrow> True"
| "expires (Collecting d) \<longleftrightarrow> True"
| "expires (Raised_expiry d r) \<longleftrightarrow> True"
| "expires _ \<longleftrightarrow> False"

definition undisturbed :: "('c, 'r, 'e) settlement_state \<Rightarrow> bool" where
  "undisturbed s \<longleftrightarrow> st_deadline s = None \<and> (\<forall>i. \<not> expires (st_callers s i))"

fun patient :: "('c, 'r, 'e) settlement_event \<Rightarrow> bool" where
  "patient (Call i (Some d)) \<longleftrightarrow> d > 0"
| "patient _ \<longleftrightarrow> True"

text \<open>\<open>patient\<close>: no caller's deadline was over at its call.  \<open>seen_clocks\<close>: no deadline fires while the exit is unobservable.\<close>

fun seen_clocks ::
  "('c, 'r, 'e) settlement_event list \<Rightarrow> ('c, 'r, 'e) settlement_state \<Rightarrow> bool" where
  "seen_clocks [] s \<longleftrightarrow> True"
| "seen_clocks (e # es) s \<longleftrightarrow>
    ((\<exists>i. e = Clock i) \<longrightarrow> exit_observed s) \<and>
    (case settlement_step e s of None \<Rightarrow> True | Some s' \<Rightarrow> seen_clocks es s')"

text \<open>The exit is observable but between the collection of the status and the publication of the code.\<close>

lemma exit_observed_iff:
  "exit_observed s \<longleftrightarrow>
    st_child s \<noteq> Alive \<and> (st_status s = Published \<or> st_status s = Uncollected \<and> st_probe s)"
  by (cases "st_status s") (auto simp: exit_observed_def observed_exit_code_def)

lemma expire_undisturbed:
  assumes "undisturbed s" "exit_observed s" "0 < d"
  shows "undisturbed (expire i d s)"
  using assms by (auto simp: undisturbed_def expire_def await_settlement_def Let_def split: option.splits)

lemma call_undisturbed:
  assumes "undisturbed s" "patient (Call i deadline)"
  shows "undisturbed (outcome_call i deadline s)"
  using assms by (auto simp: undisturbed_def outcome_call_def await_settlement_def split: option.splits)

definition deadlines_positive :: "('c, 'r, 'e) settlement_state \<Rightarrow> bool" where
  "deadlines_positive s \<longleftrightarrow> (\<forall>i d. st_callers s i = Awaiting (Some d) \<longrightarrow> 0 < d)"

lemma step_deadlines_positive:
  assumes "deadlines_positive s" "settlement_step e s = Some s'"
  shows "deadlines_positive s'"
proof (cases e)
  case (Call i d)
  with assms show ?thesis
    by (auto simp: deadlines_positive_def outcome_call_def await_settlement_def expire_def Let_def
        split: option.splits if_splits)
next
  case (Clock i)
  with assms show ?thesis
    by (auto simp: deadlines_positive_def await_settlement_def expire_def Let_def
        split: option.splits if_splits caller_state.splits)
qed (use assms in \<open>auto simp: deadlines_positive_def split: caller_state.splits task_phase.splits if_splits\<close>)

lemma reach_deadlines_positive: "settlement_reach s \<Longrightarrow> deadlines_positive s"
proof (induction rule: settlement_reach.induct)
  case reach_initial
  show ?case by (simp add: deadlines_positive_def initial_settlement_def)
next
  case (reach_step s e s')
  show ?case by (rule step_deadlines_positive [OF reach_step.IH reach_step.hyps(2)])
qed

lemma step_undisturbed:
  assumes "undisturbed s" "deadlines_positive s" "patient e"
    and "(\<exists>i. e = Clock i) \<longrightarrow> exit_observed s" and "settlement_step e s = Some s'"
  shows "undisturbed s'"
proof (cases e)
  case (Call i d)
  then have "s' = outcome_call i d s"
    using assms(5) by (auto split: if_splits)
  then show ?thesis
    using call_undisturbed [OF assms(1)] assms(3) Call by simp
next
  case (Clock i)
  then obtain d where d: "st_callers s i = Awaiting (Some d)" "s' = expire i d s"
    using assms(5) by (auto split: caller_state.splits option.splits)
  then have "0 < d"
    using assms(2) by (auto simp: deadlines_positive_def)
  then show ?thesis
    using expire_undisturbed [OF assms(1)] assms(4) d(2) Clock by simp
next
  case (Stop_done i ended)
  then show ?thesis
    using assms(1,5) by (auto simp: undisturbed_def split: caller_state.splits dest: spec [of _ i])
next
  case (Wake i)
  have "\<not> expires (st_callers s i)"
    using assms(1) by (simp add: undisturbed_def)
  with Wake show ?thesis
    using assms(1,5) by (cases "st_callers s i") (auto simp: undisturbed_def split: task_phase.splits if_splits)
qed (use assms in \<open>auto simp: undisturbed_def split: caller_state.splits task_phase.splits if_splits\<close>)

lemma run_undisturbed:
  assumes "undisturbed s" "settlement_reach s" "list_all patient es" "seen_clocks es s"
    and "run_settlement es s = Some s'"
  shows "undisturbed s'"
  using assms
proof (induction es arbitrary: s)
  case (Cons e es)
  then obtain s1 where s1: "settlement_step e s = Some s1" "run_settlement es s1 = Some s'"
    by (auto split: option.splits)
  with Cons.prems step_undisturbed [OF Cons.prems(1) reach_deadlines_positive] have "undisturbed s1" "seen_clocks es s1"
    by auto
  with Cons.IH [of s1] Cons.prems s1 show ?case
    by (auto intro: reach_step)
qed simp

text \<open>
  (C34) When a deadline times a run out although no deadline had passed before its child exited.  As long as every
  deadline that fires finds the exit observable, the run is closed as the child's own ending and no caller raises an
  expiry, however many positive deadlines pass while it is drained and closed.  The exit of a child is observable except
  between the collection of its status and the publication of its code, and, without a probe that does not reap, before
  the publication; a first deadline that fires in such a moment is recorded as the run's, although the child had exited,
  and its caller goes on to stop the child and raise its expiry.
\<close>

theorem deadline_after_exit:
  assumes "settlement_reach s" "undisturbed s" and "list_all patient es" "run_settlement es s = Some s'"
  shows "(seen_clocks es s \<longrightarrow>
      (\<forall>i d r. st_callers s' i \<noteq> Raised_expiry d r) \<and> (\<forall>f r. st_task s' = Task_done f r \<longrightarrow> f = As_success)) \<and>
    (\<forall>i d s''. st_child s' \<noteq> Alive \<longrightarrow> st_result s' = None \<longrightarrow> st_deadline s' = None \<longrightarrow>
      st_callers s' i = Awaiting (Some d) \<longrightarrow> settlement_step (Clock i) s' = Some s'' \<longrightarrow>
      (if st_status s' = Published \<or> st_status s' = Uncollected \<and> st_probe s'
       then st_callers s'' i = Awaiting None \<and> st_deadline s'' = None
       else st_callers s'' i = Expiring d \<and> st_deadline s'' = Some d))"
proof -
  have reach: "settlement_reach s'" by (rule run_settlement_reach [OF assms(1,4)])
  have "(\<forall>i d r. st_callers s' i \<noteq> Raised_expiry d r) \<and> (\<forall>f r. st_task s' = Task_done f r \<longrightarrow> f = As_success)"
    if "seen_clocks es s"
  proof -
    have "undisturbed s'" by (rule run_undisturbed [OF assms(2,1,3) that assms(4)])
    moreover have "settlement_ok s'" by (rule reach_ok [OF reach])
    ultimately show ?thesis
      unfolding undisturbed_def settlement_ok_def
      by (metis expires.simps(3) run_closing.exhaust closing_ok.simps(2) option.distinct(1))
  qed
  moreover have "if st_status s' = Published \<or> st_status s' = Uncollected \<and> st_probe s'
       then st_callers s'' i = Awaiting None \<and> st_deadline s'' = None
       else st_callers s'' i = Expiring d \<and> st_deadline s'' = Some d"
    if here: "st_child s' \<noteq> Alive" "st_result s' = None" "st_deadline s' = None"
      "st_callers s' i = Awaiting (Some d)" "settlement_step (Clock i) s' = Some s''" for i d s''
  proof -
    have "0 < d" using reach_deadlines_positive [OF reach] here(4) by (simp add: deadlines_positive_def)
    moreover have "s'' = expire i d s'" using here(4,5) by simp
    ultimately show ?thesis
      using here(1-3) exit_observed_iff [of s']
      by (auto simp: expire_def Let_def await_settlement_def record_deadline_def)
  qed
  ultimately show ?thesis by blast
qed

text \<open>The child exits in time; the deadline fires while its status is collected and not published.\<close>

definition exited_in_time :: "(nat, unit, unit) settlement_event list" where
  "exited_in_time = [Call 0 (Some 1), Child_gone, Status_collected]"

definition exited_in_time_end :: "(nat, unit, unit) settlement_state" where
  "exited_in_time_end = the (run_settlement exited_in_time (initial_settlement True))"

lemma deadline_after_exit_witness:
  "\<exists>s''. settlement_step (Clock 0) exited_in_time_end = Some s'' \<and> st_child s'' = Own_exit \<and>
    st_callers s'' 0 = Expiring 1 \<and> st_deadline s'' = Some 1"
proof -
  have run: "run_settlement exited_in_time (initial_settlement True) = Some exited_in_time_end"
    by (simp add: exited_in_time_end_def exited_in_time_def initial_settlement_def outcome_call_def
        await_settlement_def set_caller_def start_task_def)
  have state: "st_child exited_in_time_end = Own_exit" "st_status exited_in_time_end = Collected"
    "st_result exited_in_time_end = None" "st_deadline exited_in_time_end = None"
    "st_callers exited_in_time_end 0 = Awaiting (Some 1)"
    unfolding exited_in_time_end_def by (simp_all add: exited_in_time_def initial_settlement_def outcome_call_def
        await_settlement_def set_caller_def start_task_def)
  have start: "undisturbed (initial_settlement True :: (nat, unit, unit) settlement_state)"
    by (simp add: undisturbed_def initial_settlement_def)
  have patient: "list_all patient exited_in_time" by (simp add: exited_in_time_def)
  obtain s'' where step: "settlement_step (Clock 0) exited_in_time_end = Some s''" using state(5) by simp
  then have "st_child s'' = Own_exit"
    using state by (auto simp: expire_def Let_def await_settlement_def)
  moreover have "st_callers s'' 0 = Expiring 1 \<and> st_deadline s'' = Some 1"
    using deadline_after_exit [OF reach_initial start patient run] state step by (auto split: if_splits)
  ultimately show ?thesis using step by blast
qed

section \<open>Stopping and settling\<close>

text \<open>How one shielded step ended; the value may survive a cancellation.\<close>

record ('x, 'v) shielded_step =
  sh_cancellation :: "'x option"
  sh_failure :: "'x option"
  sh_value :: "'v option"

text \<open>
  \<open>_run_shielded_step\<close>, given what the step ends with.  When the caller is cancelled meanwhile, \<open>_settle_shielded\<close> waits
  for the step: one that has ended by then (\<open>ended_first\<close>) or that ends well leaves the cancellation to be reported, but
  the failure of one that is still running comes out of that wait.  Then it is raised (\<open>Inl\<close>), and nothing is reported.
\<close>

definition run_shielded_step :: "'x option \<Rightarrow> bool \<Rightarrow> 'x + 'v \<Rightarrow> 'x + ('x, 'v) shielded_step" where
  "run_shielded_step cancelled ended_first ending =
    (case cancelled of
       Some c \<Rightarrow>
         (case ending of
            Inl failure \<Rightarrow>
              if ended_first then Inr \<lparr>sh_cancellation = Some c, sh_failure = None, sh_value = None\<rparr> else Inl failure
          | Inr v \<Rightarrow> Inr \<lparr>sh_cancellation = Some c, sh_failure = None, sh_value = Some v\<rparr>)
     | None \<Rightarrow>
         (case ending of
            Inl failure \<Rightarrow> Inr \<lparr>sh_cancellation = None, sh_failure = Some failure, sh_value = None\<rparr>
          | Inr v \<Rightarrow> Inr \<lparr>sh_cancellation = None, sh_failure = None, sh_value = Some v\<rparr>))"

text \<open>\<open>_arbitrate\<close>: the error that is raised, if any.\<close>

definition arbitrate ::
  "('x, 'v) shielded_step \<Rightarrow> ('x, 'w) shielded_step \<Rightarrow> 'x option \<Rightarrow> 'x + unit" where
  "arbitrate stop_step settle_step pending =
    (let cancellation = (case sh_cancellation stop_step of Some c \<Rightarrow> Some c | None \<Rightarrow> sh_cancellation settle_step);
         failure = (case sh_failure stop_step of Some f \<Rightarrow> Some f | None \<Rightarrow> sh_failure settle_step)
     in case cancellation of
          Some c \<Rightarrow> Inl c
        | None \<Rightarrow>
            (case failure of
               Some f \<Rightarrow> if pending = None then Inl f else Inr ()
             | None \<Rightarrow> Inr ()))"

text \<open>
  \<open>_settle_after_stop\<close>: the control outcome that is published, whether the run is settled, and what the caller gets;
  the last reading of the settlement is \<open>again\<close>.
\<close>

definition settle_after_stop ::
  "'x + ('x, termination_outcome) shielded_step \<Rightarrow> 'x + ('x, 'r) shielded_step \<Rightarrow> 'x + 'r \<Rightarrow>
    control_outcome list \<times> bool \<times> ('x + 'r)" where
  "settle_after_stop stop settle again =
    (case stop of
       Inl e \<Rightarrow> ([], False, Inl e)
     | Inr stop_step \<Rightarrow>
         (case sh_value stop_step of None \<Rightarrow> [] | Some outcome \<Rightarrow> [stop_outcome_from (Some outcome)], True,
          case settle of
            Inl e \<Rightarrow> Inl e
          | Inr settle_step \<Rightarrow> (case arbitrate stop_step settle_step None of Inl e \<Rightarrow> Inl e | Inr _ \<Rightarrow> again)))"

text \<open>
  \<open>_settle_teardown\<close>: whether the run is settled, and the exception that leaves an \<open>async with\<close> block, given its own.
\<close>

definition settle_teardown ::
  "'x + ('x, 'v) shielded_step \<Rightarrow> 'x + ('x, 'w) shielded_step \<Rightarrow> 'x option \<Rightarrow> bool \<times> 'x option" where
  "settle_teardown stop settle pending =
    (case stop of
       Inl e \<Rightarrow> (False, Some e)
     | Inr stop_step \<Rightarrow>
         (True, case settle of
            Inl e \<Rightarrow> Some e
          | Inr settle_step \<Rightarrow> (case arbitrate stop_step settle_step pending of Inl e \<Rightarrow> Some e | Inr _ \<Rightarrow> pending)))"

text \<open>A step whose failure is raised was cancelled, and its caller gets the failure; the second step is then never begun.\<close>

lemma run_shielded_step_Inl_iff:
  "run_shielded_step c first r = Inl f \<longleftrightarrow> c \<noteq> None \<and> \<not> first \<and> r = Inl f"
  by (auto simp: run_shielded_step_def split: option.splits sum.splits)

lemma stop_failure_abandons_settle:
  assumes "c \<noteq> None"
  shows "settle_after_stop (run_shielded_step c False (Inl f)) settle again = ([], False, Inl f)"
    and "settle_teardown (run_shielded_step c False (Inl f)) settle pending = (False, Some f)"
  using assms by (auto simp: settle_after_stop_def settle_teardown_def run_shielded_step_def)

text \<open>Steps that report: a cancellation first, then the stop's failure, then the settle's.\<close>

lemma arbitrate_order:
  assumes "run_shielded_step c1 first1 r1 = Inr s1" "run_shielded_step c2 first2 r2 = Inr s2"
  shows "arbitrate s1 s2 pending =
    (case c1 of Some c \<Rightarrow> Inl c | None \<Rightarrow>
     case c2 of Some c \<Rightarrow> Inl c | None \<Rightarrow>
     if pending \<noteq> None then Inr ()
     else case r1 of Inl f \<Rightarrow> Inl f | Inr _ \<Rightarrow>
       (case r2 of Inl f \<Rightarrow> Inl f | Inr _ \<Rightarrow> Inr ()))"
  using assms by (auto simp: arbitrate_def run_shielded_step_def Let_def split: option.splits sum.splits if_splits)

lemma teardown_keeps_block_error:
  "settle_teardown (run_shielded_step None first1 r1) (run_shielded_step None first2 r2) (Some e) = (True, Some e)"
  by (auto simp: settle_teardown_def arbitrate_def run_shielded_step_def split: sum.split)

section \<open>Delivering a signal\<close>

datatype signal_error = Unsupported_signal nat | Signal_after_exit int "nat option" | Signal_permission_error

text \<open>
  The two observations of the exit code surround the delivery; \<open>published\<close> is the code read last.
\<close>

definition deliver_signal ::
  "bool \<Rightarrow> int option \<Rightarrow> delivery \<Rightarrow> int option \<Rightarrow> int \<Rightarrow> nat option \<Rightarrow> nat \<Rightarrow> signal_error + unit" where
  "deliver_signal supported observed_code sent rechecked published pid signal_number =
    (if \<not> supported then Inl (Unsupported_signal signal_number)
     else case observed_code of
       Some code \<Rightarrow> Inl (Signal_after_exit code pid)
     | None \<Rightarrow>
         (case sent of
            No_such_process \<Rightarrow>
              Inl (Signal_after_exit (case rechecked of None \<Rightarrow> published | Some code \<Rightarrow> code) pid)
          | Not_permitted \<Rightarrow> Inl Signal_permission_error
          | Sent \<Rightarrow> Inr ()))"

fun refusal_outcome :: "signal_error \<Rightarrow> control_outcome option" where
  "refusal_outcome (Unsupported_signal n) = Some Refused_unsupported"
| "refusal_outcome (Signal_after_exit code pid) = Some Refused_exited"
| "refusal_outcome Signal_permission_error = None"

text \<open>\<open>RunningCommand.signal\<close>: what is published, beside what is raised.\<close>

definition signal_control :: "signal_error + unit \<Rightarrow> control_outcome option" where
  "signal_control result = (case result of Inl e \<Rightarrow> refusal_outcome e | Inr _ \<Rightarrow> Some Control_delivered)"

end
