(* ===== verification/Run_Options.thy ===== *)
theory Run_Options
  imports Concurrent Capture_Accumulators Github_Sink
begin

text \<open>
  The options of a run: the standard-stream vocabulary (\<open>sh/stdio.py\<close>), the rules over its
  combinations (\<open>sh/stdio_rules.py\<close>), the capture policies and their resolution
  (\<open>capture_policy.py\<close>, \<open>sh/_capture_options.py\<close>, \<open>capture_presence.py\<close>), the field rules
  (\<open>sh/output_rules.py\<close>, \<open>_validate_idle_options\<close>, \<open>_validate_delivery_options\<close>,
  \<open>_enum_parse.py\<close>), \<open>RunOutputOptions.__post_init__\<close> (\<open>sh/output.py\<close>) with the resolved views
  (\<open>sh/_resolved_options.py\<close>), and the forced-on capture of a handle
  (\<open>_process_handle/owned_start.py\<close>).  File objects, sinks, line hooks and callbacks are opaque; a
  frozen dataclass is a record, and \<open>dataclasses.replace\<close> updates it and runs the initialiser again.
\<close>

section \<open>Standard stream targets\<close>

text \<open>A \<open>bool\<close> payload is the integer it equals.\<close>

datatype 'f target_value = Value_path posix_path | Value_str ustr | Value_int int | Value_file 'f

datatype target_error =
    Unknown_kind string
  | Unexpected_payload string
  | Descriptor_missing
  | Descriptor_is_path
  | Descriptor_negative int
  | Path_payload_wrong
  | Carries_no_path string
  | Carries_no_descriptor string

record 'f stdio_target =
  st_kind :: string
  st_value :: "'f target_value option"

definition stdio_kinds :: "string list" where
  "stdio_kinds = [''pipe'', ''inherit'', ''path'', ''fd'']"

definition payloadless_kinds :: "string list" where
  "payloadless_kinds = [''pipe'', ''inherit'']"

definition reject_unknown_kind :: "string \<Rightarrow> target_error + unit" where
  "reject_unknown_kind kind = (if kind \<in> set stdio_kinds then Inr () else Inl (Unknown_kind kind))"

definition reject_unexpected_payload :: "string \<Rightarrow> 'f target_value option \<Rightarrow> target_error + unit" where
  "reject_unexpected_payload kind val =
    (if kind \<notin> set payloadless_kinds \<or> val = None then Inr () else Inl (Unexpected_payload kind))"

definition reject_sentinel_descriptor :: "'f target_value option \<Rightarrow> target_error + unit" where
  "reject_sentinel_descriptor val =
    (case val of
       Some (Value_int n) \<Rightarrow> if n < 0 then Inl (Descriptor_negative n) else Inr ()
     | _ \<Rightarrow> Inr ())"

definition reject_unusable_fd :: "'f target_value option \<Rightarrow> target_error + unit" where
  "reject_unusable_fd resource =
    (case resource of
       None \<Rightarrow> Inl Descriptor_missing
     | Some (Value_path p) \<Rightarrow> Inl Descriptor_is_path
     | Some _ \<Rightarrow> Inr ())"

definition normalize_payload :: "'f stdio_target \<Rightarrow> target_error + 'f stdio_target" where
  "normalize_payload target =
    (if st_kind target = ''fd'' then
       rbind (reject_unusable_fd (st_value target)) (\<lambda>_.
       rbind (reject_sentinel_descriptor (st_value target)) (\<lambda>_. Inr target))
     else if st_kind target \<noteq> ''path'' then Inr target
     else
       (case st_value target of
          Some (Value_str s) \<Rightarrow> Inr (target\<lparr>st_value := Some (Value_path (posix_parse s))\<rparr>)
        | Some (Value_path p) \<Rightarrow> Inr target
        | _ \<Rightarrow> Inl Path_payload_wrong))"

definition stdio_target_post_init :: "'f stdio_target \<Rightarrow> target_error + 'f stdio_target" where
  "stdio_target_post_init self =
    rbind (reject_unknown_kind (st_kind self)) (\<lambda>_.
    rbind (reject_unexpected_payload (st_kind self) (st_value self)) (\<lambda>_.
    normalize_payload self))"

definition new_stdio_target :: "string \<Rightarrow> 'f target_value option \<Rightarrow> target_error + 'f stdio_target" where
  "new_stdio_target kind val = stdio_target_post_init \<lparr>st_kind = kind, st_value = val\<rparr>"

definition target_path_value :: "'f stdio_target \<Rightarrow> target_error + 'f target_value option" where
  "target_path_value self =
    (if st_kind self \<noteq> ''path'' then Inl (Carries_no_path (st_kind self)) else Inr (st_value self))"

definition target_fd_value :: "'f stdio_target \<Rightarrow> target_error + 'f target_value option" where
  "target_fd_value self =
    (if st_kind self \<noteq> ''fd'' then Inl (Carries_no_descriptor (st_kind self)) else Inr (st_value self))"

definition is_owned_path :: "'f stdio_target \<Rightarrow> bool" where
  "is_owned_path self \<longleftrightarrow> st_kind self = ''path''"

definition target_pipe :: "target_error + 'f stdio_target" where
  "target_pipe = new_stdio_target ''pipe'' None"

definition target_inherit :: "target_error + 'f stdio_target" where
  "target_inherit = new_stdio_target ''inherit'' None"

text \<open>\<open>Path(path)\<close> of a string parses it; of a path it is the same path.\<close>

definition target_path :: "ustr + posix_path \<Rightarrow> target_error + 'f stdio_target" where
  "target_path path =
    new_stdio_target ''path'' (Some (Value_path (case path of Inl s \<Rightarrow> posix_parse s | Inr p \<Rightarrow> p)))"

definition target_fd :: "'f target_value \<Rightarrow> target_error + 'f stdio_target" where
  "target_fd fd = new_stdio_target ''fd'' (Some fd)"

text \<open>The targets that construction can produce.\<close>

fun valid_payload :: "string \<Rightarrow> 'f target_value option \<Rightarrow> bool" where
  "valid_payload kind None \<longleftrightarrow> kind = ''pipe'' \<or> kind = ''inherit''"
| "valid_payload kind (Some (Value_path p)) \<longleftrightarrow> kind = ''path''"
| "valid_payload kind (Some (Value_int n)) \<longleftrightarrow> kind = ''fd'' \<and> 0 \<le> n"
| "valid_payload kind (Some _) \<longleftrightarrow> kind = ''fd''"

definition valid_target :: "'f stdio_target \<Rightarrow> bool" where
  "valid_target t \<longleftrightarrow> valid_payload (st_kind t) (st_value t)"

lemmas target_rule_defs = reject_unknown_kind_def reject_unexpected_payload_def reject_sentinel_descriptor_def
  reject_unusable_fd_def normalize_payload_def stdio_kinds_def payloadless_kinds_def

lemma valid_target_kind:
  "valid_target t \<Longrightarrow> st_kind t = ''pipe'' \<or> st_kind t = ''inherit'' \<or> st_kind t = ''path'' \<or> st_kind t = ''fd''"
  unfolding valid_target_def by (cases "(st_kind t, st_value t)" rule: valid_payload.cases) auto

lemma stdio_target_post_init_valid:
  "stdio_target_post_init t = Inr u \<Longrightarrow> valid_target u \<and> st_kind u = st_kind t"
  unfolding stdio_target_post_init_def valid_target_def
  by (cases "st_value t")
    (auto simp: target_rule_defs result_iff split: if_splits target_value.splits)

lemma stdio_target_post_init_fixed:
  "valid_target t \<Longrightarrow> stdio_target_post_init t = Inr t"
  unfolding stdio_target_post_init_def valid_target_def
  by (cases "(st_kind t, st_value t)" rule: valid_payload.cases)
    (auto simp: target_rule_defs)

section \<open>Capture policies and their resolution\<close>

text \<open>
  A policy object as its constructor receives it; \<open>capture_policy_post_init\<close> is the initialiser of
  its class.
\<close>

record file_backed_capture =
  fb_spill_threshold_bytes :: "py_number option"
  fb_directory :: "(ustr + posix_path) option"
  fb_keep_file :: bool

datatype capture_object = Full_object | Bounded_object py_number | File_backed_object file_backed_capture

datatype bound_error = Bound_type_error | Bound_not_positive int

datatype options_error =
    Target_error target_error
  | Bounded_capture_bound
  | Spill_threshold_bound
  | Capture_not_a_policy string
  | Stdin_redirected string
  | Captured_redirection string string
  | Shared_owned_path
  | Contested_stdin
  | Idle_callback_not_callable
  | Idle_callback_without_interval
  | Idle_callback_async
  | Idle_interval_not_a_number
  | Idle_interval_not_finite
  | Idle_interval_not_positive
  | Invalid_enum_member string
  | Delivery_not_bounded_delivery
  | Queue_capacity_not_int
  | Queue_capacity_not_positive
  | Drain_grace_not_a_number
  | Drain_grace_not_bounding
  | Flag_not_bool string
  | Field_bound string bound_error
  | Handle_redirected "string list"
  | Lines_redirected string

fun is_positive_int :: "py_number \<Rightarrow> bool" where
  "is_positive_int (Exact_int n) \<longleftrightarrow> n > 0"
| "is_positive_int (Bool_number b) \<longleftrightarrow> False"
| "is_positive_int Not_an_int \<longleftrightarrow> False"

fun capture_policy_post_init :: "capture_object \<Rightarrow> options_error + capture_object" where
  "capture_policy_post_init Full_object = Inr Full_object"
| "capture_policy_post_init (Bounded_object n) =
    (if \<not> is_positive_int n then Inl Bounded_capture_bound else Inr (Bounded_object n))"
| "capture_policy_post_init (File_backed_object f) =
    (let f = (case fb_directory f of
                Some (Inl s) \<Rightarrow> f\<lparr>fb_directory := Some (Inr (posix_parse s))\<rparr>
              | _ \<Rightarrow> f)
     in case fb_spill_threshold_bytes f of
          None \<Rightarrow> Inr (File_backed_object f)
        | Some n \<Rightarrow>
            if \<not> is_positive_int n then Inl Spill_threshold_bound else Inr (File_backed_object f))"

fun policy_kind_of :: "capture_object \<Rightarrow> policy_kind" where
  "policy_kind_of Full_object = Kind_full"
| "policy_kind_of (Bounded_object n) = Kind_bounded"
| "policy_kind_of (File_backed_object f) = Kind_file_backed"

text \<open>A capture field: a policy, a \<open>bool\<close>, or something that is neither; \<open>None\<close> is the option's.\<close>

datatype capture_setting = Setting_policy capture_object | Setting_bool bool | Setting_other

definition resolve_capture ::
  "bool \<Rightarrow> capture_setting option \<Rightarrow> string \<Rightarrow> options_error + capture_object option" where
  "resolve_capture shorthand declared field =
    (case declared of
       None \<Rightarrow> Inr (if shorthand then Some Full_object else None)
     | Some (Setting_bool b) \<Rightarrow> Inr (if b then Some Full_object else None)
     | Some (Setting_policy p) \<Rightarrow> Inr (Some p)
     | Some Setting_other \<Rightarrow> Inl (Capture_not_a_policy field))"

definition resolved_capture_pair ::
  "bool \<Rightarrow> capture_setting option \<Rightarrow> capture_setting option \<Rightarrow>
    options_error + capture_object option \<times> capture_object option" where
  "resolved_capture_pair shorthand capture_stdout capture_stderr =
    rbind (resolve_capture shorthand capture_stdout ''capture_stdout'') (\<lambda>out.
    rbind (resolve_capture shorthand capture_stderr ''capture_stderr'') (\<lambda>err. Inr (out, err)))"

definition is_captured :: "capture_setting option \<Rightarrow> bool" where
  "is_captured capture \<longleftrightarrow> capture \<noteq> None \<and> capture \<noteq> Some (Setting_bool False)"

definition captures_any_stream :: "capture_setting option \<Rightarrow> capture_setting option \<Rightarrow> bool" where
  "captures_any_stream capture_stdout capture_stderr \<longleftrightarrow>
    is_captured capture_stdout \<or> is_captured capture_stderr"

section \<open>Field rules\<close>

text \<open>\<open>policy(raw)\<close> of a string enumeration: a member or the value of one.\<close>

datatype broken_pipe_policy = Strict | Best_effort

datatype 'm enum_value = Enum_member 'm | Enum_string ustr | Enum_other

definition parse_enum_member :: "('m \<times> ustr) list \<Rightarrow> string \<Rightarrow> 'm enum_value \<Rightarrow> options_error + 'm" where
  "parse_enum_member policy field raw =
    (case raw of
       Enum_member m \<Rightarrow> Inr m
     | Enum_other \<Rightarrow> Inl (Invalid_enum_member field)
     | Enum_string s \<Rightarrow>
         (case find (\<lambda>entry. snd entry = s) policy of
            Some (m, s) \<Rightarrow> Inr m
          | None \<Rightarrow> Inl (Invalid_enum_member field)))"

definition broken_pipe_members :: "(broken_pipe_policy \<times> ustr) list" where
  "broken_pipe_members = [(Strict, lit ''strict''), (Best_effort, lit ''best_effort'')]"

definition parse_broken_pipe_policy ::
  "broken_pipe_policy enum_value \<Rightarrow> options_error + broken_pipe_policy" where
  "parse_broken_pipe_policy raw = parse_enum_member broken_pipe_members ''broken_pipe_policy'' raw"

text \<open>
  An idle interval: what \<open>float()\<close> makes of it, or a value that does not convert.  An integer too
  large for a float raises \<open>OverflowError\<close> there.
\<close>

datatype idle_value = Seconds number | Not_convertible

datatype 'b idle_callback = Sync_callback 'b | Async_callback 'b | Not_callable

definition resolve_idle_interval :: "idle_value \<Rightarrow> options_error + rat" where
  "resolve_idle_interval interval =
    (case interval of
       Not_convertible \<Rightarrow> Inl Idle_interval_not_a_number
     | Seconds Unrepresentable \<Rightarrow> Inl Idle_interval_not_a_number
     | Seconds Infinite \<Rightarrow> Inl Idle_interval_not_finite
     | Seconds NaN \<Rightarrow> Inl Idle_interval_not_finite
     | Seconds (Finite q) \<Rightarrow> Inr q)"

definition validate_idle_options ::
  "idle_value option \<Rightarrow> 'b idle_callback option \<Rightarrow> options_error + rat option" where
  "validate_idle_options interval on_idle =
    (if on_idle = Some Not_callable then Inl Idle_callback_not_callable
     else case interval of
       None \<Rightarrow> if on_idle \<noteq> None then Inl Idle_callback_without_interval else Inr None
     | Some v \<Rightarrow>
         if (case on_idle of Some (Async_callback b) \<Rightarrow> True | _ \<Rightarrow> False) then Inl Idle_callback_async
         else rbind (resolve_idle_interval v) (\<lambda>seconds.
           if seconds \<le> 0 then Inl Idle_interval_not_positive else Inr (Some seconds)))"

text \<open>The grace of a bounded delivery: a number, a \<open>bool\<close>, or neither.\<close>

datatype grace_value = Grace_number number | Grace_bool bool | Grace_other

record bounded_delivery =
  bd_max_queued_bytes :: py_number
  bd_drain_grace_s :: "grace_value option"

datatype delivery_option = Bounded_delivery_object bounded_delivery | Delivery_other

definition validate_queue_capacity :: "py_number \<Rightarrow> options_error + unit" where
  "validate_queue_capacity n =
    (case n of
       Exact_int k \<Rightarrow> if k \<le> 0 then Inl Queue_capacity_not_positive else Inr ()
     | _ \<Rightarrow> Inl Queue_capacity_not_int)"

definition finite_drain_grace :: "grace_value \<Rightarrow> options_error + rat" where
  "finite_drain_grace v =
    (case v of
       Grace_number (Finite q) \<Rightarrow> if q < 0 then Inl Drain_grace_not_bounding else Inr q
     | Grace_number _ \<Rightarrow> Inl Drain_grace_not_bounding
     | Grace_bool b \<Rightarrow> Inr (of_bool b)
     | Grace_other \<Rightarrow> Inl Drain_grace_not_a_number)"

definition normalize_drain_grace :: "grace_value option \<Rightarrow> options_error + rat option" where
  "normalize_drain_grace grace =
    (case grace of
       None \<Rightarrow> Inr None
     | Some (Grace_bool b) \<Rightarrow> Inl Drain_grace_not_a_number
     | Some v \<Rightarrow> rbind (finite_drain_grace v) (\<lambda>q. Inr (Some q)))"

definition validate_delivery_options ::
  "delivery_option option \<Rightarrow> options_error + bounded_delivery option" where
  "validate_delivery_options delivery =
    (case delivery of
       None \<Rightarrow> Inr None
     | Some Delivery_other \<Rightarrow> Inl Delivery_not_bounded_delivery
     | Some (Bounded_delivery_object d) \<Rightarrow>
         rbind (validate_queue_capacity (bd_max_queued_bytes d)) (\<lambda>_.
         rbind (normalize_drain_grace (bd_drain_grace_s d)) (\<lambda>grace.
         case grace of
           None \<Rightarrow> Inr (Some d)
         | Some q \<Rightarrow> Inr (Some \<lparr>bd_max_queued_bytes = bd_max_queued_bytes d,
             bd_drain_grace_s = Some (Grace_number (Finite q))\<rparr>))))"

definition validate_positive_bound :: "string \<Rightarrow> py_number option \<Rightarrow> options_error + unit" where
  "validate_positive_bound field v =
    (case v of
       None \<Rightarrow> Inr ()
     | Some (Bool_number b) \<Rightarrow> Inl (Field_bound field Bound_type_error)
     | Some (Exact_int n) \<Rightarrow> if n \<le> 0 then Inl (Field_bound field (Bound_not_positive n)) else Inr ()
     | Some Not_an_int \<Rightarrow> Inl (Field_bound field Bound_type_error))"

definition validate_max_line_chars :: "py_number option \<Rightarrow> options_error + unit" where
  "validate_max_line_chars v = validate_positive_bound ''max_line_chars'' v"

section \<open>The options of a run\<close>

record ('f, 'i, 's, 'l, 'b) run_output_options =
  ro_capture :: bool
  ro_capture_stdout :: "capture_setting option"
  ro_capture_stderr :: "capture_setting option"
  ro_echo :: bool
  ro_echo_stdout :: "bool option"
  ro_echo_stderr :: "bool option"
  ro_max_echo_line_bytes :: "py_number option"
  ro_broken_pipe_policy :: "broken_pipe_policy enum_value"
  ro_max_line_chars :: "py_number option"
  ro_on_line :: "'l option"
  ro_idle_after :: "idle_value option"
  ro_on_idle :: "'b idle_callback option"
  ro_sink :: "('i \<times> 's) option"
  ro_group :: toggle
  ro_annotate_failure :: toggle
  ro_stdin :: "'f stdio_target option"
  ro_stdout :: "'f stdio_target option"
  ro_stderr :: "'f stdio_target option"
  ro_delivery :: "delivery_option option"
  ro_synthesized_sink :: "('i \<times> 's) option"
  ro_resolved_capture :: "capture_object option \<times> capture_object option"

definition default_options :: "('f, 'i, 's, 'l, 'b) run_output_options" where
  "default_options = \<lparr>ro_capture = True, ro_capture_stdout = None, ro_capture_stderr = None,
    ro_echo = False, ro_echo_stdout = None, ro_echo_stderr = None,
    ro_max_echo_line_bytes = Some (Exact_int (64 * 1024)), ro_broken_pipe_policy = Enum_member Strict,
    ro_max_line_chars = Some (Exact_int (64 * 1024)), ro_on_line = None, ro_idle_after = None,
    ro_on_idle = None, ro_sink = None, ro_group = Toggle False, ro_annotate_failure = Toggle False,
    ro_stdin = None, ro_stdout = None, ro_stderr = None, ro_delivery = None,
    ro_synthesized_sink = None, ro_resolved_capture = (None, None)\<rparr>"

text \<open>
  The echo gates are read as a \<open>bool\<close>: after the initialiser they are never \<open>None\<close>.
\<close>

definition resolved_echo :: "('f, 'i, 's, 'l, 'b) run_output_options \<Rightarrow> bool \<times> bool" where
  "resolved_echo options = (ro_echo_stdout options = Some True, ro_echo_stderr options = Some True)"

definition resolved_capture :: "('f, 'i, 's, 'l, 'b) run_output_options \<Rightarrow>
    capture_object option \<times> capture_object option" where
  "resolved_capture options = ro_resolved_capture options"

definition options_capture_any :: "('f, 'i, 's, 'l, 'b) run_output_options \<Rightarrow> bool" where
  "options_capture_any options =
    captures_any_stream (map_option Setting_policy (fst (ro_resolved_capture options)))
      (map_option Setting_policy (snd (ro_resolved_capture options)))"

definition resolved_broken_pipe_policy ::
  "('f, 'i, 's, 'l, 'b) run_output_options \<Rightarrow> options_error + broken_pipe_policy" where
  "resolved_broken_pipe_policy options = parse_broken_pipe_policy (ro_broken_pipe_policy options)"

subsection \<open>Rules over several fields\<close>

definition validate_convenience_flags ::
  "('f, 'i, 's, 'l, 'b) run_output_options \<Rightarrow> options_error + unit" where
  "validate_convenience_flags options =
    rbind (case ro_group options of Toggle b \<Rightarrow> Inr () | Toggle_other \<Rightarrow> Inl (Flag_not_bool ''group''))
      (\<lambda>_. case ro_annotate_failure options of
         Toggle b \<Rightarrow> Inr () | Toggle_other \<Rightarrow> Inl (Flag_not_bool ''annotate_failure''))"

definition stdin_kinds :: "string list" where
  "stdin_kinds = [''pipe'', ''inherit'']"

definition reject_redirected_stdin :: "'f stdio_target option \<Rightarrow> options_error + unit" where
  "reject_redirected_stdin target =
    (case target of
       None \<Rightarrow> Inr ()
     | Some t \<Rightarrow>
         if st_kind t \<in> set stdin_kinds then Inr () else Inl (Stdin_redirected (st_kind t)))"

definition reject_contested_stdin :: "'f stdio_target option \<Rightarrow> bool \<Rightarrow> options_error + unit" where
  "reject_contested_stdin target has_source =
    (if \<not> has_source then Inr ()
     else case target of
       None \<Rightarrow> Inr ()
     | Some t \<Rightarrow> if st_kind t \<noteq> ''inherit'' then Inr () else Inl Contested_stdin)"

definition reject_captured_redirection ::
  "string \<Rightarrow> ('f, 'i, 's, 'l, 'b) run_output_options \<Rightarrow> options_error + unit" where
  "reject_captured_redirection name options =
    (case (if name = ''stdout'' then ro_stdout options else ro_stderr options) of
       None \<Rightarrow> Inr ()
     | Some target \<Rightarrow>
         if st_kind target = ''pipe'' then Inr ()
         else
           let captures =
             (if name = ''stdout'' then fst (ro_resolved_capture options)
              else snd (ro_resolved_capture options)) \<noteq> None \<or>
             (if name = ''stdout'' then ro_echo_stdout options else ro_echo_stderr options) = Some True
           in if \<not> captures then Inr () else Inl (Captured_redirection name (st_kind target)))"

definition share_one_owned_path :: "'f stdio_target option \<Rightarrow> 'f stdio_target option \<Rightarrow> bool" where
  "share_one_owned_path out err =
    (case (out, err) of
       (Some a, Some b) \<Rightarrow> st_kind a = ''path'' \<and> a = b
     | _ \<Rightarrow> False)"

definition reject_shared_owned_path ::
  "('f, 'i, 's, 'l, 'b) run_output_options \<Rightarrow> options_error + unit" where
  "reject_shared_owned_path options =
    (if \<not> share_one_owned_path (ro_stdout options) (ro_stderr options) then Inr ()
     else Inl Shared_owned_path)"

definition validate_stdio_targets ::
  "('f, 'i, 's, 'l, 'b) run_output_options \<Rightarrow> options_error + unit" where
  "validate_stdio_targets options =
    rbind (reject_redirected_stdin (ro_stdin options)) (\<lambda>_.
    rbind (reject_captured_redirection ''stdout'' options) (\<lambda>_.
    rbind (reject_captured_redirection ''stderr'' options) (\<lambda>_.
    reject_shared_owned_path options)))"

text \<open>
  The flags as the sink synthesis reads them; it runs after \<open>validate_convenience_flags\<close>, so both
  are real \<open>bool\<close>s.
\<close>

definition synthesize_options_sink ::
  "'i \<Rightarrow> (bool \<Rightarrow> bool \<Rightarrow> 's) \<Rightarrow> ('f, 'i, 's, 'l, 'b) run_output_options \<Rightarrow>
    ('f, 'i, 's, 'l, 'b) run_output_options" where
  "synthesize_options_sink fresh build options =
    (let flags = synthesize_sink fresh build
       \<lparr>of_group = (ro_group options = Toggle True),
        of_annotate_failure = (ro_annotate_failure options = Toggle True),
        of_sink = ro_sink options, of_synthesized = ro_synthesized_sink options\<rparr>
     in options\<lparr>ro_sink := of_sink flags, ro_synthesized_sink := of_synthesized flags\<rparr>)"

text \<open>
  \<open>RunOutputOptions.__post_init__\<close>.  \<open>_resolved_capture\<close> is not an init field, so it starts from its
  default whatever object the arguments were copied from.
\<close>

definition options_post_init ::
  "'i \<Rightarrow> (bool \<Rightarrow> bool \<Rightarrow> 's) \<Rightarrow> ('f, 'i, 's, 'l, 'b) run_output_options \<Rightarrow>
    options_error + ('f, 'i, 's, 'l, 'b) run_output_options" where
  "options_post_init fresh build self =
    rbind (resolved_capture_pair (ro_capture self) (ro_capture_stdout self) (ro_capture_stderr self))
      (\<lambda>pair.
    let self = self\<lparr>ro_resolved_capture := pair,
      ro_echo_stdout := (if ro_echo_stdout self = None then Some (ro_echo self) else ro_echo_stdout self),
      ro_echo_stderr := (if ro_echo_stderr self = None then Some (ro_echo self) else ro_echo_stderr self)\<rparr>
    in
    rbind (validate_idle_options (ro_idle_after self) (ro_on_idle self)) (\<lambda>idle.
    let self = self\<lparr>ro_idle_after := map_option (\<lambda>q. Seconds (Finite q)) idle\<rparr> in
    rbind (parse_broken_pipe_policy (ro_broken_pipe_policy self)) (\<lambda>policy.
    let self = self\<lparr>ro_broken_pipe_policy := Enum_member policy\<rparr> in
    rbind (validate_delivery_options (ro_delivery self)) (\<lambda>delivery.
    let self = self\<lparr>ro_delivery := map_option Bounded_delivery_object delivery\<rparr> in
    rbind (validate_convenience_flags self) (\<lambda>_.
    rbind (validate_stdio_targets self) (\<lambda>_.
    let self = synthesize_options_sink fresh build self in
    rbind (validate_max_line_chars (ro_max_line_chars self)) (\<lambda>_.
    rbind (validate_positive_bound ''max_echo_line_bytes'' (ro_max_echo_line_bytes self)) (\<lambda>_.
    Inr self))))))))"

text \<open>\<open>dataclasses.replace\<close>: the init fields with the changes, through the initialiser again.\<close>

definition replace_options ::
  "'i \<Rightarrow> (bool \<Rightarrow> bool \<Rightarrow> 's) \<Rightarrow>
    (('f, 'i, 's, 'l, 'b) run_output_options \<Rightarrow> ('f, 'i, 's, 'l, 'b) run_output_options) \<Rightarrow>
    ('f, 'i, 's, 'l, 'b) run_output_options \<Rightarrow> options_error + ('f, 'i, 's, 'l, 'b) run_output_options" where
  "replace_options fresh build changes self =
    options_post_init fresh build ((changes self)\<lparr>ro_resolved_capture := (None, None)\<rparr>)"

section \<open>Options of a handle and of a line iteration\<close>

definition redirected_streams :: "('f, 'i, 's, 'l, 'b) run_output_options \<Rightarrow> string list" where
  "redirected_streams output =
    map fst (filter (\<lambda>(name, target). case target of None \<Rightarrow> False | Some t \<Rightarrow> st_kind t \<noteq> ''pipe'')
      [(''stdout'', ro_stdout output), (''stderr'', ro_stderr output)])"

definition reject_redirected_handle_streams ::
  "('f, 'i, 's, 'l, 'b) run_output_options \<Rightarrow> options_error + unit" where
  "reject_redirected_handle_streams output =
    (let redirected = redirected_streams output
     in if redirected \<noteq> [] then Inl (Handle_redirected redirected) else Inr ())"

definition handle_capture_setting :: "capture_setting option \<Rightarrow> capture_setting option" where
  "handle_capture_setting setting = (if setting = Some (Setting_bool False) then None else setting)"

definition handle_capture_options ::
  "'i \<Rightarrow> (bool \<Rightarrow> bool \<Rightarrow> 's) \<Rightarrow> ('f, 'i, 's, 'l, 'b) run_output_options \<Rightarrow>
    options_error + ('f, 'i, 's, 'l, 'b) run_output_options" where
  "handle_capture_options fresh build output =
    (let capture_stdout = handle_capture_setting (ro_capture_stdout output);
         capture_stderr = handle_capture_setting (ro_capture_stderr output);
         unchanged = (capture_stdout = ro_capture_stdout output \<and> capture_stderr = ro_capture_stderr output)
     in if ro_capture output \<and> unchanged then Inr output
        else replace_options fresh build (\<lambda>o'. o'\<lparr>ro_capture := True,
          ro_capture_stdout := capture_stdout, ro_capture_stderr := capture_stderr\<rparr>) output)"

definition with_capture ::
  "'i \<Rightarrow> (bool \<Rightarrow> bool \<Rightarrow> 's) \<Rightarrow> ('f, 'i, 's, 'l, 'b) run_output_options option \<Rightarrow>
    options_error + ('f, 'i, 's, 'l, 'b) run_output_options" where
  "with_capture fresh build output =
    rbind (case output of Some o' \<Rightarrow> Inr o' | None \<Rightarrow> options_post_init fresh build default_options)
      (\<lambda>resolved.
    rbind (reject_redirected_handle_streams resolved) (\<lambda>_. handle_capture_options fresh build resolved))"

definition reject_redirected_lines_stdout ::
  "('f, 'i, 's, 'l, 'b) run_output_options \<Rightarrow> options_error + unit" where
  "reject_redirected_lines_stdout output =
    (case ro_stdout output of
       None \<Rightarrow> Inr ()
     | Some t \<Rightarrow> if st_kind t = ''pipe'' then Inr () else Inl (Lines_redirected (st_kind t)))"

section \<open>Accepted options\<close>

text \<open>
  What the initialiser establishes: the resolved views agree with the declared fields, every bound is
  in range, and no stream is both read by the parent and bound elsewhere.
\<close>

fun sound_idle :: "idle_value option \<Rightarrow> 'b idle_callback option \<Rightarrow> bool" where
  "sound_idle None on_idle \<longleftrightarrow> on_idle = None"
| "sound_idle (Some (Seconds (Finite q))) on_idle \<longleftrightarrow>
    0 < q \<and> (case on_idle of None \<Rightarrow> True | Some (Sync_callback b) \<Rightarrow> True | _ \<Rightarrow> False)"
| "sound_idle _ on_idle \<longleftrightarrow> False"

fun sound_bound :: "py_number option \<Rightarrow> bool" where
  "sound_bound None \<longleftrightarrow> True"
| "sound_bound (Some n) \<longleftrightarrow> is_positive_int n"

fun sound_grace :: "grace_value option \<Rightarrow> bool" where
  "sound_grace None \<longleftrightarrow> True"
| "sound_grace (Some (Grace_number (Finite q))) \<longleftrightarrow> 0 \<le> q"
| "sound_grace _ \<longleftrightarrow> False"

fun sound_delivery :: "delivery_option option \<Rightarrow> bool" where
  "sound_delivery None \<longleftrightarrow> True"
| "sound_delivery (Some (Bounded_delivery_object d)) \<longleftrightarrow>
    is_positive_int (bd_max_queued_bytes d) \<and> sound_grace (bd_drain_grace_s d)"
| "sound_delivery (Some Delivery_other) \<longleftrightarrow> False"

definition read_by_parent :: "capture_object option \<Rightarrow> bool option \<Rightarrow> bool" where
  "read_by_parent capture echo \<longleftrightarrow> capture \<noteq> None \<or> echo = Some True"

definition has_pipe :: "'f stdio_target option \<Rightarrow> bool" where
  "has_pipe target \<longleftrightarrow> (case target of None \<Rightarrow> True | Some t \<Rightarrow> st_kind t = ''pipe'')"

definition sound_streams :: "('f, 'i, 's, 'l, 'b) run_output_options \<Rightarrow> bool" where
  "sound_streams o' \<longleftrightarrow>
    (has_pipe (ro_stdout o') \<or> \<not> read_by_parent (fst (ro_resolved_capture o')) (ro_echo_stdout o')) \<and>
    (has_pipe (ro_stderr o') \<or> \<not> read_by_parent (snd (ro_resolved_capture o')) (ro_echo_stderr o')) \<and>
    (case ro_stdin o' of None \<Rightarrow> True | Some t \<Rightarrow> st_kind t \<in> set stdin_kinds) \<and>
    \<not> share_one_owned_path (ro_stdout o') (ro_stderr o')"

definition sound_options :: "('f, 'i, 's, 'l, 'b) run_output_options \<Rightarrow> bool" where
  "sound_options o' \<longleftrightarrow>
    resolved_capture_pair (ro_capture o') (ro_capture_stdout o') (ro_capture_stderr o') =
      Inr (ro_resolved_capture o') \<and>
    ro_echo_stdout o' \<noteq> None \<and> ro_echo_stderr o' \<noteq> None \<and>
    sound_idle (ro_idle_after o') (ro_on_idle o') \<and>
    (case ro_broken_pipe_policy o' of Enum_member m \<Rightarrow> True | _ \<Rightarrow> False) \<and>
    sound_delivery (ro_delivery o') \<and>
    ro_group o' \<noteq> Toggle_other \<and> ro_annotate_failure o' \<noteq> Toggle_other \<and>
    sound_streams o' \<and>
    sound_bound (ro_max_line_chars o') \<and> sound_bound (ro_max_echo_line_bytes o')"

lemma validate_idle_sound:
  "validate_idle_options v cb = Inr idle \<Longrightarrow> sound_idle (map_option (\<lambda>q. Seconds (Finite q)) idle) cb"
  unfolding validate_idle_options_def
  by (auto simp: result_iff split: if_splits option.splits idle_callback.splits)

lemma validate_idle_fixed:
  "sound_idle v cb \<Longrightarrow> \<exists>idle. validate_idle_options v cb = Inr idle \<and>
    map_option (\<lambda>q. Seconds (Finite q)) idle = v"
  unfolding validate_idle_options_def
  by (cases "(v, cb)" rule: sound_idle.cases)
    (auto simp: resolve_idle_interval_def split: option.splits idle_callback.splits)

lemma parse_enum_member_fixed [simp]: "parse_enum_member policy field (Enum_member m) = Inr m"
  by (simp add: parse_enum_member_def)

lemma validate_queue_capacity_iff:
  "validate_queue_capacity n = Inr () \<longleftrightarrow> is_positive_int n"
  by (cases n) (auto simp: validate_queue_capacity_def)

lemma normalize_drain_grace_sound:
  "normalize_drain_grace g = Inr q \<Longrightarrow> sound_grace (map_option (\<lambda>q. Grace_number (Finite q)) q)"
  by (auto simp: normalize_drain_grace_def finite_drain_grace_def result_iff
      split: option.splits grace_value.splits number.splits if_splits)

lemma normalize_drain_grace_fixed:
  "sound_grace g \<Longrightarrow> \<exists>q. normalize_drain_grace g = Inr q \<and> map_option (\<lambda>q. Grace_number (Finite q)) q = g"
  by (cases g rule: sound_grace.cases) (auto simp: normalize_drain_grace_def finite_drain_grace_def)

lemma validate_delivery_sound:
  assumes "validate_delivery_options d = Inr d'"
  shows "sound_delivery (map_option Bounded_delivery_object d')"
proof (cases d)
  case None
  then show ?thesis using assms by (simp add: validate_delivery_options_def)
next
  case (Some x)
  then obtain b where b: "x = Bounded_delivery_object b"
    using assms by (cases x) (auto simp: validate_delivery_options_def)
  then obtain g where g: "normalize_drain_grace (bd_drain_grace_s b) = Inr g"
    and cap: "is_positive_int (bd_max_queued_bytes b)"
    and d': "d' = (case g of None \<Rightarrow> Some b | Some q \<Rightarrow> Some \<lparr>bd_max_queued_bytes = bd_max_queued_bytes b,
             bd_drain_grace_s = Some (Grace_number (Finite q))\<rparr>)"
    using assms Some
    by (auto simp: validate_delivery_options_def result_iff validate_queue_capacity_iff split: option.splits)
  have "bd_drain_grace_s b = None" if "g = None"
    using g that by (auto simp: normalize_drain_grace_def result_iff split: option.splits grace_value.splits)
  then show ?thesis
    using d' cap normalize_drain_grace_sound [OF g] by (cases g) auto
qed

lemma validate_delivery_fixed:
  assumes "sound_delivery d"
  shows "\<exists>d'. validate_delivery_options d = Inr d' \<and> map_option Bounded_delivery_object d' = d"
proof (cases d rule: sound_delivery.cases)
  case (2 b)
  then obtain g where "normalize_drain_grace (bd_drain_grace_s b) = Inr g"
    "map_option (\<lambda>q. Grace_number (Finite q)) g = bd_drain_grace_s b"
    using assms normalize_drain_grace_fixed [of "bd_drain_grace_s b"] by auto
  moreover have "validate_queue_capacity (bd_max_queued_bytes b) = Inr ()"
    using 2 assms by (simp add: validate_queue_capacity_iff)
  ultimately show ?thesis
    using 2 by (cases g) (auto simp: validate_delivery_options_def)
qed (use assms in \<open>auto simp: validate_delivery_options_def\<close>)

lemma validate_positive_bound_iff: "validate_positive_bound field v = Inr () \<longleftrightarrow> sound_bound v"
  by (cases v; cases "the v") (auto simp: validate_positive_bound_def)

lemma validate_convenience_flags_iff:
  "validate_convenience_flags o' = Inr () \<longleftrightarrow> ro_group o' \<noteq> Toggle_other \<and> ro_annotate_failure o' \<noteq> Toggle_other"
  by (auto simp: validate_convenience_flags_def result_iff split: toggle.splits)

lemma validate_stdio_targets_iff: "validate_stdio_targets o' = Inr () \<longleftrightarrow> sound_streams o'"
  unfolding validate_stdio_targets_def sound_streams_def
  by (auto simp: reject_redirected_stdin_def reject_captured_redirection_def reject_shared_owned_path_def
      result_iff has_pipe_def read_by_parent_def split: option.splits if_splits)

text \<open>The fields after the initialiser's assignments, before the sink.\<close>

definition normalized_fields ::
  "('f, 'i, 's, 'l, 'b) run_output_options \<Rightarrow> capture_object option \<times> capture_object option \<Rightarrow>
    rat option \<Rightarrow> broken_pipe_policy \<Rightarrow> bounded_delivery option \<Rightarrow> ('f, 'i, 's, 'l, 'b) run_output_options" where
  "normalized_fields self pair idle policy delivery = self\<lparr>ro_resolved_capture := pair,
      ro_echo_stdout := (if ro_echo_stdout self = None then Some (ro_echo self) else ro_echo_stdout self),
      ro_echo_stderr := (if ro_echo_stderr self = None then Some (ro_echo self) else ro_echo_stderr self),
      ro_idle_after := map_option (\<lambda>q. Seconds (Finite q)) idle,
      ro_broken_pipe_policy := Enum_member policy,
      ro_delivery := map_option Bounded_delivery_object delivery\<rparr>"

lemma normalized_fields_simps [simp]:
  "ro_capture (normalized_fields self pair idle policy delivery) = ro_capture self"
  "ro_capture_stdout (normalized_fields self pair idle policy delivery) = ro_capture_stdout self"
  "ro_capture_stderr (normalized_fields self pair idle policy delivery) = ro_capture_stderr self"
  "ro_resolved_capture (normalized_fields self pair idle policy delivery) = pair"
  "ro_echo_stdout (normalized_fields self pair idle policy delivery) =
    (if ro_echo_stdout self = None then Some (ro_echo self) else ro_echo_stdout self)"
  "ro_echo_stderr (normalized_fields self pair idle policy delivery) =
    (if ro_echo_stderr self = None then Some (ro_echo self) else ro_echo_stderr self)"
  "ro_idle_after (normalized_fields self pair idle policy delivery) = map_option (\<lambda>q. Seconds (Finite q)) idle"
  "ro_on_idle (normalized_fields self pair idle policy delivery) = ro_on_idle self"
  "ro_broken_pipe_policy (normalized_fields self pair idle policy delivery) = Enum_member policy"
  "ro_delivery (normalized_fields self pair idle policy delivery) = map_option Bounded_delivery_object delivery"
  "ro_group (normalized_fields self pair idle policy delivery) = ro_group self"
  "ro_annotate_failure (normalized_fields self pair idle policy delivery) = ro_annotate_failure self"
  "ro_stdin (normalized_fields self pair idle policy delivery) = ro_stdin self"
  "ro_stdout (normalized_fields self pair idle policy delivery) = ro_stdout self"
  "ro_stderr (normalized_fields self pair idle policy delivery) = ro_stderr self"
  "ro_max_line_chars (normalized_fields self pair idle policy delivery) = ro_max_line_chars self"
  "ro_max_echo_line_bytes (normalized_fields self pair idle policy delivery) = ro_max_echo_line_bytes self"
  by (simp_all add: normalized_fields_def)

lemma synthesize_options_sink_simps [simp]:
  "ro_capture (synthesize_options_sink fresh build n) = ro_capture n"
  "ro_capture_stdout (synthesize_options_sink fresh build n) = ro_capture_stdout n"
  "ro_capture_stderr (synthesize_options_sink fresh build n) = ro_capture_stderr n"
  "ro_resolved_capture (synthesize_options_sink fresh build n) = ro_resolved_capture n"
  "ro_echo (synthesize_options_sink fresh build n) = ro_echo n"
  "ro_echo_stdout (synthesize_options_sink fresh build n) = ro_echo_stdout n"
  "ro_echo_stderr (synthesize_options_sink fresh build n) = ro_echo_stderr n"
  "ro_idle_after (synthesize_options_sink fresh build n) = ro_idle_after n"
  "ro_on_idle (synthesize_options_sink fresh build n) = ro_on_idle n"
  "ro_broken_pipe_policy (synthesize_options_sink fresh build n) = ro_broken_pipe_policy n"
  "ro_delivery (synthesize_options_sink fresh build n) = ro_delivery n"
  "ro_group (synthesize_options_sink fresh build n) = ro_group n"
  "ro_annotate_failure (synthesize_options_sink fresh build n) = ro_annotate_failure n"
  "ro_stdin (synthesize_options_sink fresh build n) = ro_stdin n"
  "ro_stdout (synthesize_options_sink fresh build n) = ro_stdout n"
  "ro_stderr (synthesize_options_sink fresh build n) = ro_stderr n"
  "ro_max_line_chars (synthesize_options_sink fresh build n) = ro_max_line_chars n"
  "ro_max_echo_line_bytes (synthesize_options_sink fresh build n) = ro_max_echo_line_bytes n"
  by (simp_all add: synthesize_options_sink_def Let_def)

lemma sound_options_sink [simp]:
  "sound_streams (synthesize_options_sink fresh build n) = sound_streams n"
  "sound_options (synthesize_options_sink fresh build n) = sound_options n"
  by (simp_all add: sound_streams_def sound_options_def)

lemma options_post_init_iff:
  "options_post_init fresh build self = Inr o' \<longleftrightarrow>
    (\<exists>pair idle policy delivery.
      resolved_capture_pair (ro_capture self) (ro_capture_stdout self) (ro_capture_stderr self) = Inr pair \<and>
      validate_idle_options (ro_idle_after self) (ro_on_idle self) = Inr idle \<and>
      parse_broken_pipe_policy (ro_broken_pipe_policy self) = Inr policy \<and>
      validate_delivery_options (ro_delivery self) = Inr delivery \<and>
      ro_group self \<noteq> Toggle_other \<and> ro_annotate_failure self \<noteq> Toggle_other \<and>
      sound_streams (normalized_fields self pair idle policy delivery) \<and>
      sound_bound (ro_max_line_chars self) \<and> sound_bound (ro_max_echo_line_bytes self) \<and>
      o' = synthesize_options_sink fresh build (normalized_fields self pair idle policy delivery))"
  unfolding options_post_init_def Let_def normalized_fields_def validate_max_line_chars_def
  by (auto simp: result_iff validate_convenience_flags_iff validate_stdio_targets_iff
      validate_positive_bound_iff)

lemma options_post_init_sound: "options_post_init fresh build self = Inr o' \<Longrightarrow> sound_options o'"
  unfolding options_post_init_iff sound_options_def
  by (auto simp: validate_idle_sound validate_delivery_sound)

lemma normalized_fields_fixed:
  assumes "sound_options o'"
  obtains idle policy delivery where
    "validate_idle_options (ro_idle_after o') (ro_on_idle o') = Inr idle"
    "parse_broken_pipe_policy (ro_broken_pipe_policy o') = Inr policy"
    "validate_delivery_options (ro_delivery o') = Inr delivery"
    "normalized_fields o' (ro_resolved_capture o') idle policy delivery = o'"
proof -
  obtain idle where idle: "validate_idle_options (ro_idle_after o') (ro_on_idle o') = Inr idle"
    "map_option (\<lambda>q. Seconds (Finite q)) idle = ro_idle_after o'"
    using assms validate_idle_fixed by (fastforce simp: sound_options_def)
  obtain policy where policy: "ro_broken_pipe_policy o' = Enum_member policy"
    using assms by (auto simp: sound_options_def split: enum_value.splits)
  obtain delivery where delivery: "validate_delivery_options (ro_delivery o') = Inr delivery"
    "map_option Bounded_delivery_object delivery = ro_delivery o'"
    using assms validate_delivery_fixed by (fastforce simp: sound_options_def)
  have "normalized_fields o' (ro_resolved_capture o') idle policy delivery = o'"
    using assms idle delivery policy by (simp add: normalized_fields_def sound_options_def)
  then show thesis
    using that idle delivery policy by (simp add: parse_broken_pipe_policy_def)
qed

lemma options_post_init_fixed:
  assumes "sound_options o'"
  shows "options_post_init fresh build o' = Inr (synthesize_options_sink fresh build o')"
proof -
  obtain idle policy delivery where fields:
    "validate_idle_options (ro_idle_after o') (ro_on_idle o') = Inr idle"
    "parse_broken_pipe_policy (ro_broken_pipe_policy o') = Inr policy"
    "validate_delivery_options (ro_delivery o') = Inr delivery"
    "normalized_fields o' (ro_resolved_capture o') idle policy delivery = o'"
    using assms by (rule normalized_fields_fixed)
  show ?thesis
    unfolding options_post_init_iff
    by (rule exI [of _ "ro_resolved_capture o'"], rule exI [of _ idle], rule exI [of _ policy],
        rule exI [of _ delivery]) (use assms fields in \<open>simp add: sound_options_def\<close>)
qed

lemma normalized_fields_resets [simp]:
  "normalized_fields (self\<lparr>ro_resolved_capture := r\<rparr>) pair idle policy delivery =
    normalized_fields self pair idle policy delivery"
  by (simp add: normalized_fields_def)

lemma options_post_init_resets [simp]:
  "options_post_init fresh build (self\<lparr>ro_resolved_capture := r\<rparr>) = options_post_init fresh build self"
  unfolding options_post_init_def Let_def by (simp add: normalized_fields_def)

lemma replace_options_eq: "replace_options fresh build changes self = options_post_init fresh build (changes self)"
  by (simp add: replace_options_def)

lemma replaced_capture:
  assumes "sound_options o1"
    and "replace_options fresh build (ro_capture_update (\<lambda>_. c)) o1 = Inr o2"
  shows "resolved_capture_pair c (ro_capture_stdout o1) (ro_capture_stderr o1) = Inr (resolved_capture o2)"
    and "resolved_echo o2 = resolved_echo o1"
  using assms unfolding replace_options_eq options_post_init_iff
  by (auto simp: sound_options_def resolved_capture_def resolved_echo_def)

lemma replaced_echo:
  assumes "sound_options o1"
    and "replace_options fresh build (ro_echo_update (\<lambda>_. e)) o1 = Inr o2"
  shows "resolved_echo o2 = resolved_echo o1"
  using assms unfolding replace_options_eq options_post_init_iff
  by (auto simp: sound_options_def resolved_echo_def)

section \<open>Owned starts\<close>

text \<open>What a handle keeps of a stream: an explicit policy, or everything.\<close>

fun retained_policy :: "capture_setting option \<Rightarrow> capture_object" where
  "retained_policy (Some (Setting_policy p)) = p"
| "retained_policy _ = Full_object"

lemma resolve_capture_handle:
  assumes "resolve_capture b setting field = Inr r"
  shows "resolve_capture True (handle_capture_setting setting) field' = Inr (Some (retained_policy setting))"
  using assms
  by (cases setting rule: retained_policy.cases)
    (auto simp: resolve_capture_def handle_capture_setting_def split: capture_setting.splits option.splits)

lemma resolve_capture_kept:
  assumes "resolve_capture True setting field = Inr r" "handle_capture_setting setting = setting"
  shows "r = Some (retained_policy setting)"
  using assms resolve_capture_handle [OF assms(1), of field] by simp

lemma redirected_streams_Nil_iff:
  "redirected_streams o' = [] \<longleftrightarrow> has_pipe (ro_stdout o') \<and> has_pipe (ro_stderr o')"
  by (auto simp: redirected_streams_def has_pipe_def split: option.splits if_splits)

lemma sound_streams_piped:
  assumes "sound_options o'" "redirected_streams o' = []"
    "has_pipe (ro_stdout n)" "has_pipe (ro_stderr n)" "ro_stdin n = ro_stdin o'"
  shows "sound_streams n"
  using assms
  by (auto simp: sound_options_def sound_streams_def has_pipe_def share_one_owned_path_def split: option.splits)

lemma with_capture_owned:
  assumes sound: "sound_options o1" and piped: "redirected_streams o1 = []"
  shows "\<exists>o2. with_capture fresh build (Some o1) = Inr o2 \<and>
    resolved_capture o2 = (Some (retained_policy (ro_capture_stdout o1)), Some (retained_policy (ro_capture_stderr o1))) \<and>
    resolved_echo o2 = resolved_echo o1 \<and> sound_options o2"
proof -
  let ?out = "handle_capture_setting (ro_capture_stdout o1)"
  let ?err = "handle_capture_setting (ro_capture_stderr o1)"
  let ?pair = "(Some (retained_policy (ro_capture_stdout o1)), Some (retained_policy (ro_capture_stderr o1)))"
  let ?o = "o1\<lparr>ro_capture := True, ro_capture_stdout := ?out, ro_capture_stderr := ?err\<rparr>"
  have declared: "resolved_capture_pair (ro_capture o1) (ro_capture_stdout o1) (ro_capture_stderr o1) =
      Inr (ro_resolved_capture o1)"
    using sound by (simp add: sound_options_def)
  have pair: "resolved_capture_pair True ?out ?err = Inr ?pair"
    using declared by (auto simp: resolved_capture_pair_def result_iff dest: resolve_capture_handle)
  have start: "with_capture fresh build (Some o1) = handle_capture_options fresh build o1"
    using piped by (simp add: with_capture_def reject_redirected_handle_streams_def)
  show ?thesis
  proof (cases "ro_capture o1 \<and> ?out = ro_capture_stdout o1 \<and> ?err = ro_capture_stderr o1")
    case True
    then have "ro_resolved_capture o1 = ?pair"
      using pair declared by simp
    then show ?thesis
      using True sound start by (simp add: handle_capture_options_def Let_def resolved_capture_def)
  next
    case False
    obtain idle policy delivery where fields:
      "validate_idle_options (ro_idle_after o1) (ro_on_idle o1) = Inr idle"
      "parse_broken_pipe_policy (ro_broken_pipe_policy o1) = Inr policy"
      "validate_delivery_options (ro_delivery o1) = Inr delivery"
      using sound by (rule normalized_fields_fixed)
    let ?n = "normalized_fields ?o ?pair idle policy delivery"
    let ?o2 = "synthesize_options_sink fresh build ?n"
    have "sound_streams ?n"
      using piped by (intro sound_streams_piped [OF sound piped]) (simp_all add: redirected_streams_Nil_iff)
    then have init: "options_post_init fresh build ?o = Inr ?o2"
      unfolding options_post_init_iff
      by (intro exI [of _ ?pair] exI [of _ idle] exI [of _ policy] exI [of _ delivery])
        (use sound pair fields in \<open>simp add: sound_options_def\<close>)
    have "resolved_echo ?o2 = resolved_echo o1"
      using sound by (auto simp: sound_options_def resolved_echo_def)
    with init show ?thesis
      using False start options_post_init_sound [OF init]
      by (auto simp: handle_capture_options_def Let_def replace_options_eq resolved_capture_def)
  qed
qed

section \<open>Properties\<close>

text \<open>
  (C26) Initialised options are well formed: every value the initialiser lets through has its resolved
  capture in agreement with its declared fields, concrete echo gates, bounds and intervals in range,
  real flags, and no stream both read by the parent and bound elsewhere; and initialising such options
  again changes nothing but the synthesized sink.
\<close>

theorem initialised_options_sound:
  assumes "options_post_init fresh build o1 = Inr o2"
  shows "sound_options o2 \<and>
    options_post_init fresh' build' o2 = Inr (synthesize_options_sink fresh' build' o2)"
  using options_post_init_sound [OF assms] by (simp add: options_post_init_fixed)

definition example_options :: "(nat, nat, nat, nat, nat) run_output_options" where
  "example_options = default_options\<lparr>ro_capture := False, ro_capture_stderr := Some (Setting_bool True),
    ro_idle_after := Some (Seconds (Finite 30)), ro_stdout := Some \<lparr>st_kind = ''inherit'', st_value = None\<rparr>\<rparr>"

lemma example_options_sound: "\<exists>o2. options_post_init 0 (\<lambda>_ _. 0) example_options = Inr o2"
  by (auto simp: options_post_init_iff example_options_def default_options_def resolved_capture_pair_def
      resolve_capture_def validate_idle_options_def resolve_idle_interval_def validate_delivery_options_def
      parse_broken_pipe_policy_def sound_streams_def has_pipe_def read_by_parent_def share_one_owned_path_def)

lemma initialised_options_sound_witness:
  "\<exists>o2. options_post_init 0 (\<lambda>_ _. 0) example_options = Inr o2 \<and> sound_options o2"
proof -
  obtain o2 where o2: "options_post_init 0 (\<lambda>_ _. 0) example_options = Inr o2"
    using example_options_sound by (rule exE)
  then show ?thesis
    using initialised_options_sound [OF o2, of 0 "\<lambda>_ _. 0"] by simp
qed

text \<open>
  A replacement resolves the capture fields afresh but not the echo fields: replacing the
  \<open>capture\<close> shorthand of initialised options gives the pair that the caller's own declarations and the
  new shorthand resolve to, while replacing the \<open>echo\<close> shorthand leaves both echo gates as they were,
  because the initialiser stored its answer over the declared gates.
\<close>

theorem replacement_resolves_capture_only:
  assumes "options_post_init fresh build o0 = Inr o1"
    and "replace_options fresh build (ro_capture_update (\<lambda>_. c)) o1 = Inr o2"
    and "replace_options fresh build (ro_echo_update (\<lambda>_. e)) o1 = Inr o3"
  shows "resolved_capture_pair c (ro_capture_stdout o0) (ro_capture_stderr o0) = Inr (resolved_capture o2) \<and>
    resolved_echo o2 = resolved_echo o1 \<and> resolved_echo o3 = resolved_echo o1"
proof -
  have sound: "sound_options o1" by (rule options_post_init_sound [OF assms(1)])
  have "ro_capture_stdout o1 = ro_capture_stdout o0" "ro_capture_stderr o1 = ro_capture_stderr o0"
    using assms(1) by (auto simp: options_post_init_iff)
  then show ?thesis
    using replaced_capture [OF sound assms(2)] replaced_echo [OF sound assms(3)] by simp
qed

definition quiet_options :: "(nat, nat, nat, nat, nat) run_output_options" where
  "quiet_options = default_options\<lparr>ro_echo_stdout := Some False, ro_echo_stderr := Some False,
    ro_resolved_capture := (Some Full_object, Some Full_object)\<rparr>"

lemma quiet_options_init:
  "options_post_init 0 (\<lambda>_ _. 0) (default_options :: (nat, nat, nat, nat, nat) run_output_options) = Inr quiet_options"
  "replace_options 0 (\<lambda>_ _. 0) (ro_capture_update (\<lambda>_. False)) quiet_options =
    Inr (quiet_options\<lparr>ro_capture := False, ro_resolved_capture := (None, None)\<rparr>)"
  "replace_options 0 (\<lambda>_ _. 0) (ro_echo_update (\<lambda>_. True)) quiet_options = Inr (quiet_options\<lparr>ro_echo := True\<rparr>)"
  by (simp_all add: replace_options_eq options_post_init_iff quiet_options_def default_options_def
      resolved_capture_pair_def resolve_capture_def validate_idle_options_def validate_delivery_options_def
      parse_broken_pipe_policy_def sound_streams_def has_pipe_def read_by_parent_def share_one_owned_path_def
      normalized_fields_def synthesize_options_sink_def synthesize_sink_def same_object_def)

lemma replacement_resolves_capture_only_witness:
  "resolved_capture_pair False None None =
      Inr (resolved_capture (quiet_options\<lparr>ro_capture := False, ro_resolved_capture := (None, None)\<rparr>)) \<and>
    resolved_echo (quiet_options\<lparr>ro_echo := True\<rparr>) = (False, False)"
  using replacement_resolves_capture_only [OF quiet_options_init]
  by (simp add: default_options_def quiet_options_def resolved_echo_def)

text \<open>
  A handle always captures: starting an owned run from initialised options that redirect neither
  output stream succeeds, captures both streams, keeps every explicit policy of the caller and turns
  every opt-out into a complete capture, and leaves the echo gates alone; options that redirect a
  stream are refused with exactly the redirected streams named.
\<close>

theorem handle_always_captures:
  assumes "options_post_init fresh build o0 = Inr o1"
  shows "if redirected_streams o1 = [] then
      \<exists>o2. with_capture fresh build (Some o1) = Inr o2 \<and>
        resolved_capture o2 =
          (Some (retained_policy (ro_capture_stdout o0)), Some (retained_policy (ro_capture_stderr o0))) \<and>
        resolved_echo o2 = resolved_echo o1 \<and> sound_options o2
    else with_capture fresh build (Some o1) = Inl (Handle_redirected (redirected_streams o1))"
proof -
  have "ro_capture_stdout o1 = ro_capture_stdout o0" "ro_capture_stderr o1 = ro_capture_stderr o0"
    using assms by (auto simp: options_post_init_iff)
  then show ?thesis
    using with_capture_owned [OF options_post_init_sound [OF assms]]
    by (simp add: with_capture_def reject_redirected_handle_streams_def Let_def)
qed

lemma handle_always_captures_witness:
  "\<exists>o2. with_capture 0 (\<lambda>_ _. 0) (Some quiet_options) = Inr o2 \<and>
    resolved_capture o2 = (Some Full_object, Some Full_object)"
  using handle_always_captures [OF quiet_options_init(1)]
  by (auto simp: quiet_options_def default_options_def redirected_streams_def)

end
