(* ===== verification/Stdio_Spawn.thy ===== *)
theory Stdio_Spawn
  imports Run_Options Context_Policy
begin

text \<open>
  From options to a spawned child: the resolved standard streams (\<open>_stdio_plan.py\<close>,
  \<open>_stdio_binding_guards.py\<close>), the execution bundle (\<open>_command_execution_config.py\<close>,
  \<open>_SubprocessExecution\<close>), the descriptors opened, flushed and closed around the fork
  (\<open>_stdio_ownership.py\<close>, \<open>_subprocess_spawn.py\<close>) and the environment and session of the child
  (\<open>_context_policy.py\<close>, \<open>_subprocess_context.py\<close>).  The kernel, the file objects and the spawn
  backend are the fields of \<open>stdio_os\<close>.  The world is the table of the parent's open descriptors and
  the log of effects, in order; \<open>open\<close> returns the lowest descriptor not in use and \<open>close\<close>
  releases its descriptor also when it reports an error, as POSIX and Linux document.
\<close>

section \<open>Kernel and effects\<close>

datatype pipe_stream = Stdin_stream | Stdout_stream | Stderr_stream

datatype 'e os_failure = Os_error 'e | Ordinary_exception 'e | Base_exception 'e

datatype 'e fileno_result = Fileno int | Fileno_unsupported | Fileno_raises 'e

datatype stdio_failure_category =
  Producer_boundary | Invalid_chunk | Encoder_boundary | Pipe_boundary | Owned_path_open | Borrowed_flush

record stdio_failure =
  sf_category :: stdio_failure_category
  sf_operation :: string
  sf_error_type :: string
  sf_pid :: "nat option"

datatype 'e plan_error =
    Redirection_unsupported pipe_stream string
  | Negative_descriptor pipe_stream int
  | No_descriptor_to_inherit pipe_stream
  | Fileno_failure 'e
  | Not_a_file_object
  | Target_misread target_error

datatype 'e launch_error =
    Launch_options options_error
  | Launch_capture capture_error
  | Launch_plan "'e plan_error"
  | Launch_failure "'e os_failure"
  | Open_failure pipe_stream posix_path 'e
  | Process_groups_unsupported

text \<open>The integers of a stdio value: a descriptor, or one of the sentinels of \<open>subprocess\<close>.\<close>

definition PIPE :: int where "PIPE = -1"
definition DEVNULL :: int where "DEVNULL = -3"

record direct_config =
  dc_argv :: "ustr list"
  dc_stdin :: "int option"
  dc_stdout :: "int option"
  dc_stderr :: "int option"
  dc_pipes :: "pipe_stream set"
  dc_env :: "environ option"
  dc_cwd :: "ustr option"
  dc_start_new_session :: bool

datatype ('f, 'e, 'q) stdio_effect =
    Opens pipe_stream posix_path nat
  | Flushes 'f
  | Spawns direct_config
  | Closes pipe_stream nat
  | Close_warning pipe_stream 'e
  | Diagnoses stdio_failure
  | Announces 'q
  | Starts_worker bounded_delivery
  | Closes_worker rat

record ('f, 'e, 'q) stdio_os =
  os_posix :: bool
  os_fileno :: "'f \<Rightarrow> 'e fileno_result"
  os_open :: "posix_path \<Rightarrow> 'e os_failure option"
  os_flush :: "'f \<Rightarrow> 'e os_failure option"
  os_type_name :: "'e \<Rightarrow> string"
  os_close :: "nat \<Rightarrow> 'e option"
  os_spawn :: "direct_config \<Rightarrow> 'e os_failure + 'q"

record ('f, 'e, 'q) stdio_world =
  sw_fds :: "nat list"
  sw_log :: "('f, 'e, 'q) stdio_effect list"

definition emit :: "('f, 'e, 'q) stdio_effect \<Rightarrow> ('f, 'e, 'q) stdio_world \<Rightarrow> ('f, 'e, 'q) stdio_world" where
  "emit x w = w\<lparr>sw_log := sw_log w @ [x]\<rparr>"

definition lowest_free :: "nat list \<Rightarrow> nat" where
  "lowest_free fds = hd (filter (\<lambda>n. n \<notin> set fds) [0..<Suc (length fds)])"

section \<open>Resolved streams\<close>

record 'f stdio_binding =
  sb_stream :: pipe_stream
  sb_descriptor :: "int option"
  sb_is_pipe :: bool
  sb_owned_path :: "posix_path option"
  sb_borrowed :: "'f option"

definition new_binding :: "pipe_stream \<Rightarrow> 'f stdio_binding" where
  "new_binding stream = \<lparr>sb_stream = stream, sb_descriptor = None, sb_is_pipe = False,
    sb_owned_path = None, sb_borrowed = None\<rparr>"

datatype 'p stdin_plan = No_stdin | Payload_stdin bytes | Stream_stdin 'p | Pipe_stdin

datatype 'p stdin_data = Stdin_bytes bytes | Stdin_producer 'p

record ('f, 'p) resolved_stdio =
  rs_stdin :: "'p stdin_plan"
  rs_stdout :: "'f stdio_binding"
  rs_stderr :: "'f stdio_binding"

definition resolved_pipes :: "('f, 'p) resolved_stdio \<Rightarrow> pipe_stream set" where
  "resolved_pipes stdio =
    (if rs_stdin stdio \<noteq> No_stdin then {Stdin_stream} else {}) \<union>
    set (map sb_stream (filter sb_is_pipe [rs_stdout stdio, rs_stderr stdio]))"

definition ensure_redirection_supported ::
  "('f, 'e, 'q) stdio_os \<Rightarrow> pipe_stream \<Rightarrow> string \<Rightarrow> 'e plan_error + unit" where
  "ensure_redirection_supported os stream kind =
    (if os_posix os then Inr () else Inl (Redirection_unsupported stream kind))"

definition reject_negative_descriptor :: "pipe_stream \<Rightarrow> int \<Rightarrow> 'e plan_error + unit" where
  "reject_negative_descriptor stream descriptor =
    (if descriptor \<ge> 0 then Inr () else Inl (Negative_descriptor stream descriptor))"

text \<open>
  \<open>path_value\<close> is cast to a path and \<open>fd_value\<close> to a descriptor or file object; a string given to
  \<open>StdioTarget.fd\<close> passes construction and has no \<open>fileno\<close>.
\<close>

definition resolve_stdio_binding ::
  "('f, 'e, 'q) stdio_os \<Rightarrow> pipe_stream \<Rightarrow> 'f stdio_target \<Rightarrow> 'e plan_error + 'f stdio_binding" where
  "resolve_stdio_binding os stream target =
    (if st_kind target = ''pipe'' then Inr (new_binding stream\<lparr>sb_is_pipe := True\<rparr>)
     else if st_kind target = ''inherit'' then Inr (new_binding stream)
     else rbind (ensure_redirection_supported os stream (st_kind target)) (\<lambda>_.
       if st_kind target = ''path'' then
         (case target_path_value target of
            Inl e \<Rightarrow> Inl (Target_misread e)
          | Inr v \<Rightarrow> Inr (new_binding stream\<lparr>sb_owned_path :=
              (case v of Some (Value_path p) \<Rightarrow> Some p | _ \<Rightarrow> None)\<rparr>))
       else
         (case target_fd_value target of
            Inl e \<Rightarrow> Inl (Target_misread e)
          | Inr (Some (Value_int n)) \<Rightarrow>
              rbind (reject_negative_descriptor stream n) (\<lambda>_.
              Inr (new_binding stream\<lparr>sb_descriptor := Some n\<rparr>))
          | Inr (Some (Value_file f)) \<Rightarrow>
              (case os_fileno os f of
                 Fileno_unsupported \<Rightarrow> Inl (No_descriptor_to_inherit stream)
               | Fileno_raises e \<Rightarrow> Inl (Fileno_failure e)
               | Fileno n \<Rightarrow>
                   rbind (reject_negative_descriptor stream n) (\<lambda>_.
                   Inr (new_binding stream\<lparr>sb_descriptor := Some n, sb_borrowed := Some f\<rparr>)))
          | Inr _ \<Rightarrow> Inl Not_a_file_object)))"

definition resolve_output_binding ::
  "('f, 'e, 'q) stdio_os \<Rightarrow> pipe_stream \<Rightarrow> 'f stdio_target option \<Rightarrow> 'e plan_error + 'f stdio_binding" where
  "resolve_output_binding os stream target =
    (case target of
       None \<Rightarrow> Inr (new_binding stream\<lparr>sb_is_pipe := True\<rparr>)
     | Some t \<Rightarrow> resolve_stdio_binding os stream t)"

definition wants_stdin_pipe :: "('f, 'i, 's, 'l, 'b) run_output_options \<Rightarrow> bool" where
  "wants_stdin_pipe output \<longleftrightarrow>
    (case ro_stdin output of None \<Rightarrow> False | Some t \<Rightarrow> st_kind t = ''pipe'')"

definition resolve_stdin_plan ::
  "'p stdin_data option \<Rightarrow> ('f, 'i, 's, 'l, 'b) run_output_options \<Rightarrow> 'p stdin_plan" where
  "resolve_stdin_plan stdin output =
    (case stdin of
       Some (Stdin_producer p) \<Rightarrow> Stream_stdin p
     | Some (Stdin_bytes d) \<Rightarrow> Payload_stdin d
     | None \<Rightarrow> if wants_stdin_pipe output then Pipe_stdin else No_stdin)"

definition resolve_stdio ::
  "('f, 'e, 'q) stdio_os \<Rightarrow> 'p stdin_data option \<Rightarrow> ('f, 'i, 's, 'l, 'b) run_output_options \<Rightarrow>
    'e plan_error + ('f, 'p) resolved_stdio" where
  "resolve_stdio os stdin output =
    rbind (resolve_output_binding os Stdout_stream (ro_stdout output)) (\<lambda>out.
    rbind (resolve_output_binding os Stderr_stream (ro_stderr output)) (\<lambda>err.
    Inr \<lparr>rs_stdin = resolve_stdin_plan stdin output, rs_stdout = out, rs_stderr = err\<rparr>))"

section \<open>The execution bundle\<close>

datatype process_group_policy = Group_inherit | Own_group

definition process_group_members :: "(process_group_policy \<times> ustr) list" where
  "process_group_members = [(Group_inherit, lit ''inherit''), (Own_group, lit ''own_group'')]"

definition parse_process_group_policy ::
  "process_group_policy enum_value \<Rightarrow> options_error + process_group_policy" where
  "parse_process_group_policy raw = parse_enum_member process_group_members ''process_group'' raw"

text \<open>The two fields of an execution context that its initialiser normalises.\<close>

record execution_context_fields =
  xc_process_group :: "process_group_policy enum_value"
  xc_native_pump_cleanup_grace :: "number option"

datatype execution_context_error =
    Context_policy_error options_error
  | Cleanup_grace_error context_error
  | Cleanup_grace_missing

definition execution_context_post_init ::
  "execution_context_fields \<Rightarrow> execution_context_error + execution_context_fields" where
  "execution_context_post_init self =
    (case parse_process_group_policy (xc_process_group self) of
       Inl e \<Rightarrow> Inl (Context_policy_error e)
     | Inr policy \<Rightarrow>
       (case validate_timeout (xc_native_pump_cleanup_grace self)
           ''ExecutionContext native_pump_cleanup_grace'' of
          Inl e \<Rightarrow> Inl (Cleanup_grace_error e)
        | Inr None \<Rightarrow> Inl Cleanup_grace_missing
        | Inr (Some q) \<Rightarrow> Inr (self\<lparr>xc_process_group := Enum_member policy,
            xc_native_pump_cleanup_grace := Some (Finite q)\<rparr>)))"

lemma execution_context_post_init_idem:
  "execution_context_post_init self = Inr self' \<Longrightarrow> execution_context_post_init self' = Inr self'"
  by (auto simp: execution_context_post_init_def parse_process_group_policy_def validate_timeout_def
      split: sum.splits option.splits number.splits if_splits)

text \<open>Where the child's input comes from; \<open>encode\<close> is \<open>str.encode\<close> under the context's encoding.\<close>

record stdin_input =
  si_text :: "ustr option"
  si_data :: "bytes option"

datatype 'p stdin_source = Stdin_payload_source stdin_input | Stdin_stream_source 'p

definition stdin_input_post_init :: "stdin_input \<Rightarrow> bool" where
  "stdin_input_post_init self \<longleftrightarrow> \<not> (si_text self \<noteq> None \<and> si_data self \<noteq> None)"

definition stdin_input_resolve :: "(ustr \<Rightarrow> 'x + bytes) \<Rightarrow> stdin_input \<Rightarrow> 'x + bytes option" where
  "stdin_input_resolve encode self =
    (case si_text self of
       Some t \<Rightarrow> rbind (encode t) (\<lambda>d. Inr (Some d))
     | None \<Rightarrow> Inr (si_data self))"

definition resolve_stdin_source ::
  "(ustr \<Rightarrow> 'x + bytes) \<Rightarrow> 'p stdin_source option \<Rightarrow> 'x + 'p stdin_data option" where
  "resolve_stdin_source encode stdin =
    (case stdin of
       None \<Rightarrow> Inr None
     | Some (Stdin_stream_source p) \<Rightarrow> Inr (Some (Stdin_producer p))
     | Some (Stdin_payload_source i) \<Rightarrow>
         rbind (stdin_input_resolve encode i) (\<lambda>d. Inr (map_option Stdin_bytes d)))"

definition resolve_line_stdin_source ::
  "(ustr \<Rightarrow> 'x + bytes) \<Rightarrow> 'p stdin_source option \<Rightarrow> ('f, 'i, 's, 'l, 'b) run_output_options \<Rightarrow>
    ('x + options_error) + 'p stdin_data option" where
  "resolve_line_stdin_source encode stdin output =
    (case resolve_stdin_source encode stdin of
       Inl x \<Rightarrow> Inl (Inl x)
     | Inr resolved \<Rightarrow>
         (case reject_contested_stdin (ro_stdin output) (resolved \<noteq> None) of
            Inl e \<Rightarrow> Inl (Inr e)
          | Inr _ \<Rightarrow> Inr resolved))"

record ('f, 'p, 'l) subprocess_execution =
  ex_argv0 :: ustr
  ex_args :: "ustr list"
  ex_env :: "env_overlay option"
  ex_env_mode :: env_mode
  ex_cwd :: "(ustr + posix_path) option"
  ex_capture_stdout :: "capture_object option"
  ex_capture_stderr :: "capture_object option"
  ex_echo_stdout :: bool
  ex_echo_stderr :: bool
  ex_stdio :: "('f, 'p) resolved_stdio"
  ex_on_line :: "'l option"
  ex_process_group :: process_group_policy
  ex_idle :: bool
  ex_delivery :: bool

definition owns_process_group :: "('f, 'p, 'l) subprocess_execution \<Rightarrow> bool" where
  "owns_process_group ex \<longleftrightarrow> ex_process_group ex = Own_group"

definition consumes_stdout :: "('f, 'p, 'l) subprocess_execution \<Rightarrow> bool" where
  "consumes_stdout ex \<longleftrightarrow> sb_is_pipe (rs_stdout (ex_stdio ex)) \<and>
    (ex_capture_stdout ex \<noteq> None \<or> ex_echo_stdout ex \<or> ex_idle ex \<or> ex_on_line ex \<noteq> None)"

definition consumes_stderr :: "('f, 'p, 'l) subprocess_execution \<Rightarrow> bool" where
  "consumes_stderr ex \<longleftrightarrow> sb_is_pipe (rs_stderr (ex_stdio ex)) \<and>
    (ex_capture_stderr ex \<noteq> None \<or> ex_echo_stderr ex \<or> ex_idle ex \<or> ex_on_line ex \<noteq> None)"

definition execution_pipes :: "('f, 'p, 'l) subprocess_execution \<Rightarrow> pipe_stream set" where
  "execution_pipes ex = resolved_pipes (ex_stdio ex)"

text \<open>The kind and bound of a policy, as the encoding rule of bounded captures reads them.\<close>

fun capture_shape :: "capture_object \<Rightarrow> capture_policy" where
  "capture_shape Full_object = Full_capture"
| "capture_shape (Bounded_object (Exact_int n)) = Bounded_capture (nat n)"
| "capture_shape (Bounded_object _) = Bounded_capture 0"
| "capture_shape (File_backed_object f) = File_backed_capture"

record ('f, 'i, 's, 'l, 'b, 'p) execution_state =
  es_env :: "env_overlay option"
  es_env_mode :: env_mode
  es_cwd :: "(ustr + posix_path) option"
  es_encoding :: ustr
  es_process_group :: process_group_policy
  es_output :: "('f, 'i, 's, 'l, 'b) run_output_options"
  es_stdin_data :: "'p stdin_data option"
  es_capture_bytes :: bool

definition reject_contested_captures ::
  "codec_registry \<Rightarrow> ('f, 'i, 's, 'l, 'b, 'p) execution_state \<Rightarrow> capture_error + unit" where
  "reject_contested_captures r state =
    reject_unsupported_bounded_captures r
      (map_prod (map_option capture_shape) (map_option capture_shape) (resolved_capture (es_output state)))
      (es_encoding state) (es_capture_bytes state)"

text \<open>
  The idle monitor exists exactly when an interval is set.  A worker started before the streams fail
  to resolve is closed with a zero grace; what its close raises is only noted.
\<close>

definition build_subprocess_execution ::
  "codec_registry \<Rightarrow> ('f, 'e, 'q) stdio_os \<Rightarrow> ustr \<Rightarrow> ustr list \<Rightarrow> ('f, 'i, 's, 'l, 'b, 'p) execution_state \<Rightarrow>
    ('f, 'e, 'q) stdio_world \<Rightarrow>
    ('e launch_error + ('f, 'p, 'l) subprocess_execution) \<times> ('f, 'e, 'q) stdio_world" where
  "build_subprocess_execution r os argv0 args state w =
    (let output = es_output state in
     case reject_contested_stdin (ro_stdin output) (es_stdin_data state \<noteq> None) of
       Inl e \<Rightarrow> (Inl (Launch_options e), w)
     | Inr _ \<Rightarrow>
       (case reject_contested_captures r state of
          Inl e \<Rightarrow> (Inl (Launch_capture e), w)
        | Inr _ \<Rightarrow>
          (let worker = (case ro_delivery output of Some (Bounded_delivery_object d) \<Rightarrow> Some d | _ \<Rightarrow> None);
               w = (case worker of None \<Rightarrow> w | Some d \<Rightarrow> emit (Starts_worker d) w)
           in case resolve_stdio os (es_stdin_data state) output of
                Inl e \<Rightarrow> (Inl (Launch_plan e), if worker \<noteq> None then emit (Closes_worker 0) w else w)
              | Inr stdio \<Rightarrow>
                  (Inr \<lparr>ex_argv0 = argv0, ex_args = args, ex_env = es_env state,
                    ex_env_mode = es_env_mode state, ex_cwd = es_cwd state,
                    ex_capture_stdout = fst (resolved_capture output),
                    ex_capture_stderr = snd (resolved_capture output),
                    ex_echo_stdout = fst (resolved_echo output), ex_echo_stderr = snd (resolved_echo output),
                    ex_stdio = stdio, ex_on_line = ro_on_line output,
                    ex_process_group = es_process_group state, ex_idle = (ro_idle_after output \<noteq> None),
                    ex_delivery = (worker \<noteq> None)\<rparr>, w))))"

section \<open>Descriptors around the fork\<close>

definition output_stdio :: "'f stdio_binding \<Rightarrow> nat option \<Rightarrow> bool \<Rightarrow> int option" where
  "output_stdio binding owned consumes =
    (if sb_is_pipe binding then Some (if consumes then PIPE else DEVNULL)
     else case owned of Some fd \<Rightarrow> Some (int fd) | None \<Rightarrow> sb_descriptor binding)"

definition stdin_stdio :: "'p stdin_plan \<Rightarrow> int option" where
  "stdin_stdio plan = (if plan = No_stdin then None else Some PIPE)"

definition emit_stdio_error ::
  "stdio_failure_category \<Rightarrow> string \<Rightarrow> string \<Rightarrow> ('f, 'e, 'q) stdio_world \<Rightarrow> ('f, 'e, 'q) stdio_world" where
  "emit_stdio_error category operation error_type =
    emit (Diagnoses \<lparr>sf_category = category, sf_operation = operation, sf_error_type = error_type, sf_pid = None\<rparr>)"

definition open_owned_path ::
  "('f, 'e, 'q) stdio_os \<Rightarrow> pipe_stream \<Rightarrow> posix_path \<Rightarrow> ('f, 'e, 'q) stdio_world \<Rightarrow>
    ('e launch_error + nat) \<times> ('f, 'e, 'q) stdio_world" where
  "open_owned_path os stream path w =
    (case os_open os path of
       Some (Os_error e) \<Rightarrow> (Inl (Open_failure stream path e), w)
     | Some e \<Rightarrow> (Inl (Launch_failure e), w)
     | None \<Rightarrow>
         let fd = lowest_free (sw_fds w)
         in (Inr fd, emit (Opens stream path fd) (w\<lparr>sw_fds := fd # sw_fds w\<rparr>)))"

text \<open>The error class reported is that of the \<open>OSError\<close> raised anew with the stream and the path.\<close>

definition emit_owned_path_open ::
  "('f, 'e, 'q) stdio_os \<Rightarrow> pipe_stream \<Rightarrow> posix_path \<Rightarrow> ('f, 'e, 'q) stdio_world \<Rightarrow>
    ('e launch_error + nat) \<times> ('f, 'e, 'q) stdio_world" where
  "emit_owned_path_open os stream path w =
    (case open_owned_path os stream path w of
       (Inl (Open_failure s p e), w) \<Rightarrow>
         (Inl (Open_failure s p e), emit_stdio_error Owned_path_open ''open'' ''OSError'' w)
     | r \<Rightarrow> r)"

fun close_owned_stdio ::
  "('f, 'e, 'q) stdio_os \<Rightarrow> (pipe_stream, nat) pydict \<Rightarrow> ('f, 'e, 'q) stdio_world \<Rightarrow>
    ('f, 'e, 'q) stdio_world" where
  "close_owned_stdio os [] w = w"
| "close_owned_stdio os ((stream, fd) # opened) w =
    (let w = emit (Closes stream fd) (w\<lparr>sw_fds := remove1 fd (sw_fds w)\<rparr>);
         w = (case os_close os fd of None \<Rightarrow> w | Some e \<Rightarrow> emit (Close_warning stream e) w)
     in close_owned_stdio os opened w)"

fun open_bindings ::
  "('f, 'e, 'q) stdio_os \<Rightarrow> 'f stdio_binding list \<Rightarrow> (pipe_stream, nat) pydict \<Rightarrow> ('f, 'e, 'q) stdio_world \<Rightarrow>
    ('e launch_error + (pipe_stream, nat) pydict) \<times> ('f, 'e, 'q) stdio_world" where
  "open_bindings os [] opened w = (Inr opened, w)"
| "open_bindings os (b # bs) opened w =
    (case sb_owned_path b of
       None \<Rightarrow> open_bindings os bs opened w
     | Some path \<Rightarrow>
         (case emit_owned_path_open os (sb_stream b) path w of
            (Inr fd, w) \<Rightarrow> open_bindings os bs (dict_set (sb_stream b) fd opened) w
          | (Inl e, w) \<Rightarrow> (Inl e, close_owned_stdio os opened w)))"

definition open_owned_stdio ::
  "('f, 'e, 'q) stdio_os \<Rightarrow> ('f, 'p, 'l) subprocess_execution \<Rightarrow> ('f, 'e, 'q) stdio_world \<Rightarrow>
    ('e launch_error + (pipe_stream, nat) pydict) \<times> ('f, 'e, 'q) stdio_world" where
  "open_owned_stdio os ex w =
    open_bindings os [rs_stdout (ex_stdio ex), rs_stderr (ex_stdio ex)] [] w"

fun flush_bindings ::
  "('f, 'e, 'q) stdio_os \<Rightarrow> 'f stdio_binding list \<Rightarrow> ('f, 'e, 'q) stdio_world \<Rightarrow>
    ('e launch_error + unit) \<times> ('f, 'e, 'q) stdio_world" where
  "flush_bindings os [] w = (Inr (), w)"
| "flush_bindings os (b # bs) w =
    (case sb_borrowed b of
       None \<Rightarrow> flush_bindings os bs w
     | Some f \<Rightarrow>
         let w = emit (Flushes f) w
         in case os_flush os f of
              None \<Rightarrow> flush_bindings os bs w
            | Some (Base_exception e) \<Rightarrow> (Inl (Launch_failure (Base_exception e)), w)
            | Some (Os_error e) \<Rightarrow>
                (Inl (Launch_failure (Os_error e)), emit_stdio_error Borrowed_flush ''flush'' (os_type_name os e) w)
            | Some (Ordinary_exception e) \<Rightarrow>
                (Inl (Launch_failure (Ordinary_exception e)), emit_stdio_error Borrowed_flush ''flush'' (os_type_name os e) w))"

definition flush_borrowed_stdio ::
  "('f, 'e, 'q) stdio_os \<Rightarrow> ('f, 'p, 'l) subprocess_execution \<Rightarrow> ('f, 'e, 'q) stdio_world \<Rightarrow>
    ('e launch_error + unit) \<times> ('f, 'e, 'q) stdio_world" where
  "flush_borrowed_stdio os ex w =
    flush_bindings os [rs_stdout (ex_stdio ex), rs_stderr (ex_stdio ex)] w"

section \<open>The spawn\<close>

definition merge_env ::
  "('h, 'c, 'r) cuprum_context \<Rightarrow> environ \<Rightarrow> env_overlay option \<Rightarrow> env_mode \<Rightarrow> bool \<Rightarrow> environ option" where
  "merge_env context environ extra env_mode include_context_overlay =
    (let parent_overlay = (if include_context_overlay then ctx_env_overlay context else None);
         parent_mode = (if include_context_overlay then ctx_env_mode context else Overlay);
         (overlay, mode) = resolve_env_policy parent_overlay parent_mode extra env_mode
     in render_env overlay mode environ)"

definition cwd_arg :: "(ustr + posix_path) option \<Rightarrow> ustr option" where
  "cwd_arg cwd = map_option (\<lambda>c. case c of Inl s \<Rightarrow> s | Inr p \<Rightarrow> posix_str p) cwd"

definition ownership_spawn_kwargs ::
  "('f, 'e, 'q) stdio_os \<Rightarrow> process_group_policy \<Rightarrow> 'e launch_error + bool" where
  "ownership_spawn_kwargs os policy =
    (if policy \<noteq> Own_group then Inr False
     else if \<not> os_posix os then Inl Process_groups_unsupported
     else Inr True)"

definition direct_config_of ::
  "('h, 'c, 'r) cuprum_context \<Rightarrow> environ \<Rightarrow> ('f, 'p, 'l) subprocess_execution \<Rightarrow>
    (pipe_stream, nat) pydict \<Rightarrow> bool \<Rightarrow> direct_config" where
  "direct_config_of context environ ex opened new_session =
    \<lparr>dc_argv = ex_argv0 ex # ex_args ex,
     dc_stdin = stdin_stdio (rs_stdin (ex_stdio ex)),
     dc_stdout = output_stdio (rs_stdout (ex_stdio ex))
       (map_of opened (sb_stream (rs_stdout (ex_stdio ex)))) (consumes_stdout ex),
     dc_stderr = output_stdio (rs_stderr (ex_stdio ex))
       (map_of opened (sb_stream (rs_stderr (ex_stdio ex)))) (consumes_stderr ex),
     dc_pipes = execution_pipes ex,
     dc_env = merge_env context environ (ex_env ex) (ex_env_mode ex) True,
     dc_cwd = cwd_arg (ex_cwd ex),
     dc_start_new_session = new_session\<rparr>"

definition spawn_subprocess ::
  "('f, 'e, 'q) stdio_os \<Rightarrow> ('h, 'c, 'r) cuprum_context \<Rightarrow> environ \<Rightarrow> ('f, 'p, 'l) subprocess_execution \<Rightarrow>
    ('f, 'e, 'q) stdio_world \<Rightarrow> ('e launch_error + 'q) \<times> ('f, 'e, 'q) stdio_world" where
  "spawn_subprocess os context environ ex w =
    (case open_owned_stdio os ex w of
       (Inl e, w) \<Rightarrow> (Inl e, w)
     | (Inr opened, w) \<Rightarrow>
         let (outcome, w) =
           (case flush_borrowed_stdio os ex w of
              (Inl e, w) \<Rightarrow> (Inl e, w)
            | (Inr _, w) \<Rightarrow>
                (case ownership_spawn_kwargs os (ex_process_group ex) of
                   Inl e \<Rightarrow> (Inl e, w)
                 | Inr new_session \<Rightarrow>
                     let config = direct_config_of context environ ex opened new_session
                     in (case os_spawn os config of Inl e \<Rightarrow> Inl (Launch_failure e) | Inr q \<Rightarrow> Inr q,
                         emit (Spawns config) w)))
         in (outcome, close_owned_stdio os opened w))"

text \<open>The start event follows the spawn; the bundle handed on carries the caller's clock reading.\<close>

definition start_owned_process ::
  "('f, 'e, 'q) stdio_os \<Rightarrow> ('h, 'c, 'r) cuprum_context \<Rightarrow> environ \<Rightarrow> ('f, 'p, 'l) subprocess_execution \<Rightarrow>
    rat \<Rightarrow> ('f, 'e, 'q) stdio_world \<Rightarrow>
    ('e launch_error + 'q \<times> ('f, 'p, 'l) subprocess_execution \<times> rat) \<times> ('f, 'e, 'q) stdio_world" where
  "start_owned_process os context environ ex started_at w =
    (case spawn_subprocess os context environ ex w of
       (Inl e, w) \<Rightarrow> (Inl e, w)
     | (Inr q, w) \<Rightarrow> (Inr (q, ex, started_at), emit (Announces q) w))"

section \<open>What a log opens, closes and forks\<close>

fun opens_of :: "('f, 'e, 'q) stdio_effect list \<Rightarrow> (pipe_stream \<times> nat) list" where
  "opens_of [] = []"
| "opens_of (Opens stream path fd # tr) = (stream, fd) # opens_of tr"
| "opens_of (_ # tr) = opens_of tr"

fun closes_of :: "('f, 'e, 'q) stdio_effect list \<Rightarrow> (pipe_stream \<times> nat) list" where
  "closes_of [] = []"
| "closes_of (Closes stream fd # tr) = (stream, fd) # closes_of tr"
| "closes_of (_ # tr) = closes_of tr"

fun forks_of :: "('f, 'e, 'q) stdio_effect list \<Rightarrow> direct_config list" where
  "forks_of [] = []"
| "forks_of (Spawns c # tr) = c # forks_of tr"
| "forks_of (_ # tr) = forks_of tr"

lemma opens_of_append [simp]: "opens_of (xs @ ys) = opens_of xs @ opens_of ys"
  by (induction xs rule: opens_of.induct) auto

lemma closes_of_append [simp]: "closes_of (xs @ ys) = closes_of xs @ closes_of ys"
  by (induction xs rule: closes_of.induct) auto

lemma forks_of_append [simp]: "forks_of (xs @ ys) = forks_of xs @ forks_of ys"
  by (induction xs rule: forks_of.induct) auto

text \<open>\<open>w'\<close> continues \<open>w\<close> with a log that opens, closes and forks exactly what is listed.\<close>

definition logs ::
  "('f, 'e, 'q) stdio_world \<Rightarrow> ('f, 'e, 'q) stdio_world \<Rightarrow> (pipe_stream \<times> nat) list \<Rightarrow>
    (pipe_stream \<times> nat) list \<Rightarrow> direct_config list \<Rightarrow> bool" where
  "logs w w' os cs fs \<longleftrightarrow>
    (\<exists>tr. sw_log w' = sw_log w @ tr \<and> opens_of tr = os \<and> closes_of tr = cs \<and> forks_of tr = fs)"

lemma logs_refl [simp]: "logs w w [] [] []"
  by (simp add: logs_def)

lemma logs_trans:
  assumes "logs u v os cs fs" "logs v w os' cs' fs'"
  shows "logs u w (os @ os') (cs @ cs') (fs @ fs')"
proof -
  obtain tr tr' where "sw_log v = sw_log u @ tr" "opens_of tr = os" "closes_of tr = cs" "forks_of tr = fs"
    "sw_log w = sw_log v @ tr'" "opens_of tr' = os'" "closes_of tr' = cs'" "forks_of tr' = fs'"
    using assms unfolding logs_def by blast
  then show ?thesis
    unfolding logs_def by (intro exI [of _ "tr @ tr'"]) simp
qed

lemma emit_simps [simp]:
  "sw_fds (emit x w) = sw_fds w"
  "sw_log (emit x w) = sw_log w @ [x]"
  by (simp_all add: emit_def)

lemma logs_emit: "logs w (emit x w) (opens_of [x]) (closes_of [x]) (forks_of [x])"
  unfolding logs_def by (intro exI [of _ "[x]"]) simp

lemma lowest_free_fresh: "lowest_free fds \<notin> set fds"
proof -
  have "\<not> set [0..<Suc (length fds)] \<subseteq> set fds"
  proof
    assume "set [0..<Suc (length fds)] \<subseteq> set fds"
    then have "card (set [0..<Suc (length fds)]) \<le> card (set fds)"
      by (rule card_mono [OF finite_set])
    then show False
      using card_length [of fds] by simp
  qed
  then have "filter (\<lambda>n. n \<notin> set fds) [0..<Suc (length fds)] \<noteq> []"
    by (auto simp: filter_empty_conv)
  then show ?thesis
    unfolding lowest_free_def using hd_in_set by (fastforce simp del: upt_Suc)
qed

lemma remove_opened: "distinct xs \<Longrightarrow> fold remove1 xs (rev xs @ ys) = ys"
  by (induction xs) (auto simp: remove1_append)

lemma close_owned_stdio_effects:
  "sw_fds (close_owned_stdio os opened w) = fold remove1 (map snd opened) (sw_fds w) \<and>
    logs w (close_owned_stdio os opened w) [] opened []"
proof (induction os opened w rule: close_owned_stdio.induct)
  case (2 os stream fd opened w)
  let ?w = "emit (Closes stream fd) (w\<lparr>sw_fds := remove1 fd (sw_fds w)\<rparr>)"
  let ?v = "case os_close os fd of None \<Rightarrow> ?w | Some e \<Rightarrow> emit (Close_warning stream e) ?w"
  have "logs w ?v [] [(stream, fd)] []"
    by (cases "os_close os fd") (auto simp: logs_def)
  then have "logs w (close_owned_stdio os opened ?v) [] ((stream, fd) # opened) []"
    using logs_trans [of w ?v "[]" "[(stream, fd)]" "[]"] "2.IH" [OF refl refl] by fastforce
  then have "logs w (close_owned_stdio os ((stream, fd) # opened) w) [] ((stream, fd) # opened) []"
    by (simp add: Let_def)
  moreover have "sw_fds ?v = remove1 fd (sw_fds w)"
    by (cases "os_close os fd") auto
  ultimately show ?case
    using "2.IH" [OF refl refl] by (simp add: Let_def)
qed simp

text \<open>While bindings are being opened: what is recorded is what is open on top of the old table.\<close>

definition holds_opened :: "('f, 'e, 'q) stdio_world \<Rightarrow> (pipe_stream, nat) pydict \<Rightarrow> ('f, 'e, 'q) stdio_world \<Rightarrow> bool" where
  "holds_opened w0 opened w \<longleftrightarrow>
    sw_fds w = rev (map snd opened) @ sw_fds w0 \<and> distinct (map snd opened) \<and> logs w0 w opened [] []"

lemma holds_opened_closes:
  assumes "holds_opened w0 opened w" "sw_fds w' = sw_fds w" "logs w w' [] [] fs"
  shows "sw_fds (close_owned_stdio os opened w') = sw_fds w0 \<and>
    logs w0 (close_owned_stdio os opened w') opened opened fs"
proof -
  have "logs w0 w' opened [] fs"
    using logs_trans [OF _ assms(3), of w0 opened "[]" "[]"] assms(1) by (simp add: holds_opened_def)
  then have "logs w0 (close_owned_stdio os opened w') opened opened fs"
    using logs_trans [of w0 w' opened "[]" fs _ "[]" opened "[]"] close_owned_stdio_effects [of os opened w']
    by simp
  moreover have "sw_fds (close_owned_stdio os opened w') = sw_fds w0"
    using assms(1,2) close_owned_stdio_effects [of os opened w']
      remove_opened [of "map snd opened" "sw_fds w0"]
    by (simp add: holds_opened_def)
  ultimately show ?thesis by simp
qed

lemma emit_owned_path_open_cases:
  assumes "emit_owned_path_open os stream path w = (res, w')"
  shows "case res of
      Inl e \<Rightarrow> sw_fds w' = sw_fds w \<and> logs w w' [] [] []
    | Inr fd \<Rightarrow> fd \<notin> set (sw_fds w) \<and> sw_fds w' = fd # sw_fds w \<and> logs w w' [(stream, fd)] [] []"
  using assms lowest_free_fresh [of "sw_fds w"]
  by (auto simp: emit_owned_path_open_def open_owned_path_def emit_stdio_error_def Let_def logs_def
      split: option.splits os_failure.splits)

lemma open_bindings_effects:
  assumes "open_bindings os bs opened w = (res, w')" "holds_opened w0 opened w"
    "distinct (map sb_stream bs)" "set (map sb_stream bs) \<inter> fst ` set opened = {}"
  shows "case res of
      Inl e \<Rightarrow> sw_fds w' = sw_fds w0 \<and> (\<exists>ps. logs w0 w' ps ps [])
    | Inr opened' \<Rightarrow> holds_opened w0 opened' w'"
  using assms
proof (induction os bs opened w rule: open_bindings.induct)
  case (1 os opened w)
  then show ?case by (cases res) auto
next
  case (2 os b bs opened w)
  show ?case
  proof (cases "sb_owned_path b")
    case None
    with 2 show ?thesis by simp
  next
    case (Some path)
    obtain r v where r: "emit_owned_path_open os (sb_stream b) path w = (r, v)"
      by fastforce
    show ?thesis
    proof (cases r)
      case (Inl e)
      then have "sw_fds v = sw_fds w" "logs w v [] [] []"
        using emit_owned_path_open_cases [OF r] by simp_all
      then show ?thesis
        using "2.prems"(1) Some r Inl holds_opened_closes [OF "2.prems"(2), of v "[]" os] by auto
    next
      case (Inr fd)
      have new: "dict_set (sb_stream b) fd opened = opened @ [(sb_stream b, fd)]"
        using "2.prems"(4) by (intro dict_set_new) auto
      have fresh: "fd \<notin> set (sw_fds w)" "sw_fds v = fd # sw_fds w" "logs w v [(sb_stream b, fd)] [] []"
        using emit_owned_path_open_cases [OF r] Inr by simp_all
      have "logs w0 v (opened @ [(sb_stream b, fd)]) [] []"
        using logs_trans [OF _ fresh(3), of w0 opened "[]" "[]"] "2.prems"(2) by (simp add: holds_opened_def)
      then have "holds_opened w0 (opened @ [(sb_stream b, fd)]) v"
        using "2.prems"(2) fresh by (auto simp: holds_opened_def)
      then show ?thesis
        using "2.IH"(2) [OF Some r [symmetric] Inr] "2.prems" Some r Inr
        by (simp add: new)
    qed
  qed
qed

lemma flush_bindings_effects:
  "flush_bindings os bs w = (res, w') \<Longrightarrow> sw_fds w' = sw_fds w \<and> logs w w' [] [] []"
proof (induction os bs w rule: flush_bindings.induct)
  case (2 os b bs w)
  show ?case
  proof (cases "sb_borrowed b")
    case None
    with 2 show ?thesis by simp
  next
    case (Some f)
    have step: "logs w (emit (Flushes f) w) [] [] []"
      using logs_emit [of w "Flushes f"] by simp
    show ?thesis
    proof (cases "os_flush os f")
      case None
      then have "sw_fds w' = sw_fds w \<and> logs (emit (Flushes f) w) w' [] [] []"
        using 2 Some by simp
      then show ?thesis
        using logs_trans [OF step, of w' "[]" "[]" "[]"] by simp
    next
      case (Some e)
      then show ?thesis
        using "2.prems" \<open>sb_borrowed b = Some f\<close>
        by (cases e) (auto simp: emit_stdio_error_def logs_def)
    qed
  qed
qed simp

section \<open>The life of an owned descriptor\<close>

text \<open>
  Every launch ends in one of two ways: nothing was forked and what was opened was closed, or there was
  one fork, with every opened descriptor still open and all of them closed after it.
\<close>

definition settled_without_fork :: "('f, 'e, 'q) stdio_effect list \<Rightarrow> bool" where
  "settled_without_fork tr \<longleftrightarrow> forks_of tr = [] \<and> closes_of tr = opens_of tr"

definition settled_fork ::
  "((pipe_stream, nat) pydict \<Rightarrow> direct_config \<Rightarrow> bool) \<Rightarrow> ('f, 'e, 'q) stdio_effect list \<Rightarrow> bool" where
  "settled_fork expected tr \<longleftrightarrow>
    (\<exists>pre c post. tr = pre @ Spawns c # post \<and> forks_of pre = [] \<and> forks_of post = [] \<and>
      closes_of pre = [] \<and> opens_of post = [] \<and> closes_of post = opens_of pre \<and>
      expected (opens_of pre) c)"

definition expected_config ::
  "('h, 'c, 'r) cuprum_context \<Rightarrow> environ \<Rightarrow> ('f, 'p, 'l) subprocess_execution \<Rightarrow>
    (pipe_stream, nat) pydict \<Rightarrow> direct_config \<Rightarrow> bool" where
  "expected_config ctx environ ex opened c \<longleftrightarrow>
    c = direct_config_of ctx environ ex opened (owns_process_group ex)"

lemma holds_opened_start: "holds_opened w [] w"
  by (simp add: holds_opened_def)

lemma ownership_spawn_kwargs_session:
  "ownership_spawn_kwargs os (ex_process_group ex) = Inr b \<Longrightarrow> b = owns_process_group ex"
  by (auto simp: ownership_spawn_kwargs_def owns_process_group_def split: if_splits)

lemma settled_without_forkI:
  "logs w w' ps ps [] \<Longrightarrow> \<exists>tr. sw_log w' = sw_log w @ tr \<and> settled_without_fork tr"
  by (auto simp: logs_def settled_without_fork_def)

lemma spawn_subprocess_effects:
  assumes spawn: "spawn_subprocess os ctx environ ex w = (res, w')"
    and streams: "sb_stream (rs_stdout (ex_stdio ex)) \<noteq> sb_stream (rs_stderr (ex_stdio ex))"
  shows "sw_fds w' = sw_fds w \<and>
    (\<exists>tr. sw_log w' = sw_log w @ tr \<and>
      (isl res \<and> settled_without_fork tr \<or> settled_fork (expected_config ctx environ ex) tr))"
proof -
  obtain o1 w1 where o1: "open_owned_stdio os ex w = (o1, w1)" by fastforce
  have opened: "case o1 of Inl e \<Rightarrow> sw_fds w1 = sw_fds w \<and> (\<exists>ps. logs w w1 ps ps []) | Inr d \<Rightarrow> holds_opened w d w1"
    using open_bindings_effects [OF o1 [unfolded open_owned_stdio_def] holds_opened_start] streams by simp
  show ?thesis
  proof (cases o1)
    case (Inl e)
    then have "w' = w1" "isl res" "sw_fds w1 = sw_fds w"
      and tr: "\<exists>tr. sw_log w1 = sw_log w @ tr \<and> settled_without_fork tr"
      using spawn o1 opened settled_without_forkI [of w w1] by (auto simp: spawn_subprocess_def)
    then show ?thesis by auto
  next
    case (Inr d)
    then have held: "holds_opened w d w1" using opened by simp
    obtain f w2 where f: "flush_borrowed_stdio os ex w1 = (f, w2)" by fastforce
    have flushed: "sw_fds w2 = sw_fds w1" "logs w1 w2 [] [] []"
      using flush_bindings_effects [OF f [unfolded flush_borrowed_stdio_def]] by simp_all
    note early = holds_opened_closes [OF held flushed, of os]
    show ?thesis
    proof (cases "\<exists>u s. f = Inr u \<and> ownership_spawn_kwargs os (ex_process_group ex) = Inr s")
      case False
      then have "isl res \<and> w' = close_owned_stdio os d w2"
        using spawn o1 Inr f by (auto simp: spawn_subprocess_def split: sum.splits)
      then show ?thesis
        using early settled_without_forkI [of w w'] by auto
    next
      case True
      then obtain u s where u: "f = Inr u" and s: "ownership_spawn_kwargs os (ex_process_group ex) = Inr s"
        by blast
      let ?c = "direct_config_of ctx environ ex d s"
      have w': "w' = close_owned_stdio os d (emit (Spawns ?c) w2)"
        using spawn o1 Inr f u s by (simp add: spawn_subprocess_def Let_def)
      obtain pre where pre: "sw_log w2 = sw_log w @ pre" "opens_of pre = d" "closes_of pre = []" "forks_of pre = []"
        using logs_trans [OF _ flushed(2), of w d "[]" "[]"] held by (auto simp: holds_opened_def logs_def)
      have "sw_fds w' = sw_fds w"
        using holds_opened_closes [OF held, of "emit (Spawns ?c) w2" "[?c]" os] flushed w'
          logs_trans [OF flushed(2) logs_emit [of w2 "Spawns ?c"]] by simp
      moreover obtain post where "sw_log w' = sw_log w2 @ Spawns ?c # post"
        "opens_of post = []" "closes_of post = d" "forks_of post = []"
        using close_owned_stdio_effects [of os d "emit (Spawns ?c) w2"] w' by (auto simp: logs_def)
      moreover have "expected_config ctx environ ex d ?c"
        using ownership_spawn_kwargs_session [OF s] by (simp add: expected_config_def)
      ultimately show ?thesis
        using pre unfolding settled_fork_def
        by (intro conjI exI [of _ "pre @ Spawns ?c # post"] disjI2 exI [of _ pre] exI [of _ ?c] exI [of _ post]) simp_all
    qed
  qed
qed

section \<open>Resolved bindings of sound options\<close>

lemma resolve_output_binding_Inr:
  assumes "resolve_output_binding os stream target = Inr b"
  shows "sb_stream b = stream \<and> sb_is_pipe b = has_pipe target \<and>
    (\<forall>n \<in> set_option (sb_descriptor b). 0 \<le> n) \<and>
    (sb_borrowed b \<noteq> None \<longrightarrow> sb_owned_path b = None)"
proof (cases target)
  case None
  then show ?thesis
    using assms by (auto simp: resolve_output_binding_def new_binding_def has_pipe_def)
next
  case (Some t)
  then have r: "resolve_stdio_binding os stream t = Inr b"
    using assms by (simp add: resolve_output_binding_def)
  consider "st_kind t = ''pipe''" | "st_kind t = ''inherit''" | "st_kind t = ''path''"
    | "st_kind t \<noteq> ''pipe''" "st_kind t \<noteq> ''inherit''" "st_kind t \<noteq> ''path''" by blast
  then show ?thesis
  proof cases
    case 4
    then obtain v where "target_fd_value t = Inr v"
      using r by (auto simp: resolve_stdio_binding_def result_iff split: sum.splits)
    then show ?thesis
      using r 4 Some
      by (auto simp: resolve_stdio_binding_def new_binding_def has_pipe_def result_iff
          reject_negative_descriptor_def
          split: option.splits target_value.splits fileno_result.splits if_splits)
  qed (use r Some in \<open>auto simp: resolve_stdio_binding_def new_binding_def has_pipe_def result_iff
          target_path_value_def split: option.splits\<close>)
qed

lemma build_execution_Inr:
  assumes "build_subprocess_execution r os argv0 args state w = (Inr ex, w')"
  obtains stdio where "resolve_stdio os (es_stdin_data state) (es_output state) = Inr stdio"
    "ex_stdio ex = stdio"
    "ex_capture_stdout ex = fst (resolved_capture (es_output state))"
    "ex_capture_stderr ex = snd (resolved_capture (es_output state))"
    "ex_echo_stdout ex = fst (resolved_echo (es_output state))"
    "ex_echo_stderr ex = snd (resolved_echo (es_output state))"
    "ex_on_line ex = ro_on_line (es_output state)"
    "ex_idle ex = (ro_idle_after (es_output state) \<noteq> None)"
proof -
  obtain u where "reject_contested_stdin (ro_stdin (es_output state)) (es_stdin_data state \<noteq> None) = Inr u"
    using assms by (cases "reject_contested_stdin (ro_stdin (es_output state)) (es_stdin_data state \<noteq> None)")
      (simp_all add: build_subprocess_execution_def)
  moreover obtain v where "reject_contested_captures r state = Inr v"
    using assms calculation
    by (cases "reject_contested_captures r state") (simp_all add: build_subprocess_execution_def)
  moreover obtain stdio where "resolve_stdio os (es_stdin_data state) (es_output state) = Inr stdio"
    using assms calculation
    by (cases "resolve_stdio os (es_stdin_data state) (es_output state)")
      (simp_all add: build_subprocess_execution_def Let_def)
  ultimately show thesis
    using assms by (intro that) (auto simp: build_subprocess_execution_def Let_def)
qed

lemma resolve_stdio_streams:
  assumes "resolve_stdio os stdin output = Inr stdio"
  shows "resolve_output_binding os Stdout_stream (ro_stdout output) = Inr (rs_stdout stdio)"
    "resolve_output_binding os Stderr_stream (ro_stderr output) = Inr (rs_stderr stdio)"
    "rs_stdin stdio = resolve_stdin_plan stdin output"
  using assms by (auto simp: resolve_stdio_def result_iff)

lemma output_stdio_value:
  assumes "resolve_output_binding os stream target = Inr b"
  shows "output_stdio b owned consumes = Some PIPE \<longleftrightarrow> has_pipe target \<and> consumes"
    "output_stdio b owned consumes = Some DEVNULL \<longleftrightarrow> has_pipe target \<and> \<not> consumes"
  using resolve_output_binding_Inr [OF assms]
  by (auto simp: output_stdio_def PIPE_def DEVNULL_def split: option.splits)

lemma build_execution_unresolved:
  assumes "reject_contested_stdin (ro_stdin (es_output state)) (es_stdin_data state \<noteq> None) = Inr u"
    and "reject_contested_captures r state = Inr v"
    and "resolve_stdio os (es_stdin_data state) (es_output state) = Inl p"
  shows "build_subprocess_execution r os argv0 args state w =
    (Inl (Launch_plan p),
     case ro_delivery (es_output state) of
       Some (Bounded_delivery_object d) \<Rightarrow> emit (Closes_worker 0) (emit (Starts_worker d) w)
     | _ \<Rightarrow> w)"
  unfolding build_subprocess_execution_def Let_def assms
  by (simp split: option.split delivery_option.split)

lemma failed_build_stops_worker:
  assumes "build_subprocess_execution r os argv0 args state w = (Inl e, w')"
  shows "sw_fds w' = sw_fds w \<and>
    (w' = w \<or> (\<exists>d. sw_log w' = sw_log w @ [Starts_worker d, Closes_worker 0]))"
proof (cases "reject_contested_stdin (ro_stdin (es_output state)) (es_stdin_data state \<noteq> None)")
  case contested: (Inr u)
  show ?thesis
  proof (cases "reject_contested_captures r state")
    case (Inr v)
    then obtain p where p: "resolve_stdio os (es_stdin_data state) (es_output state) = Inl p"
      using assms contested
      by (cases "resolve_stdio os (es_stdin_data state) (es_output state)")
        (simp_all add: build_subprocess_execution_def Let_def)
    have "w' = (case ro_delivery (es_output state) of
       Some (Bounded_delivery_object d) \<Rightarrow> emit (Closes_worker 0) (emit (Starts_worker d) w) | _ \<Rightarrow> w)"
      using assms build_execution_unresolved [OF contested Inr p, of argv0 args w] by simp
    then show ?thesis
      by (simp split: option.split delivery_option.split)
  qed (use assms contested in \<open>simp add: build_subprocess_execution_def\<close>)
qed (use assms in \<open>simp add: build_subprocess_execution_def\<close>)

section \<open>Properties\<close>

text \<open>
  (C11) Only what the library opened is closed, and always: whatever a launch meets (a path that does
  not open, a flush that fails, a policy the platform refuses, a spawn that fails), the parent's
  descriptor table afterwards is the table before; each opened descriptor is closed exactly once and no
  other is; and when a child is forked, its configuration is the planned one with exactly the opened
  descriptors, none of which is closed before the fork or opened after it.
\<close>

theorem owned_descriptors_settle:
  assumes "build_subprocess_execution r os argv0 args state w0 = (Inr ex, w)"
    and "spawn_subprocess os ctx environ ex w = (res, w')"
  shows "sw_fds w' = sw_fds w \<and>
    (\<exists>tr. sw_log w' = sw_log w @ tr \<and>
      (isl res \<and> settled_without_fork tr \<or> settled_fork (expected_config ctx environ ex) tr))"
proof (rule spawn_subprocess_effects [OF assms(2)])
  obtain stdio where "resolve_stdio os (es_stdin_data state) (es_output state) = Inr stdio" "ex_stdio ex = stdio"
    using assms(1) by (rule build_execution_Inr)
  then have "resolve_output_binding os Stdout_stream (ro_stdout (es_output state)) = Inr (rs_stdout (ex_stdio ex))"
    "resolve_output_binding os Stderr_stream (ro_stderr (es_output state)) = Inr (rs_stderr (ex_stdio ex))"
    by (simp_all add: resolve_stdio_streams)
  then show "sb_stream (rs_stdout (ex_stdio ex)) \<noteq> sb_stream (rs_stderr (ex_stdio ex))"
    by (simp add: resolve_output_binding_Inr)
qed

text \<open>A host on which the second of two redirected streams does not open.\<close>

definition example_os :: "(nat, nat, nat) stdio_os" where
  "example_os = \<lparr>os_posix = True, os_fileno = (\<lambda>f. Fileno (int f)),
    os_open = (\<lambda>p. if pp_tail p = [[98]] then Some (Os_error 2) else None),
    os_flush = (\<lambda>f. None), os_type_name = (\<lambda>e. ''OSError''), os_close = (\<lambda>fd. None), os_spawn = (\<lambda>c. Inr 7)\<rparr>"

definition example_state ::
  "(nat, nat, nat, nat, nat) run_output_options \<Rightarrow> (nat, nat, nat, nat, nat, nat) execution_state" where
  "example_state output = \<lparr>es_env = None, es_env_mode = Overlay, es_cwd = None, es_encoding = lit ''utf-8'',
    es_process_group = Group_inherit, es_output = output, es_stdin_data = None, es_capture_bytes = False\<rparr>"

definition redirected_options :: "(nat, nat, nat, nat, nat) run_output_options" where
  "redirected_options = quiet_options\<lparr>ro_resolved_capture := (None, None),
    ro_stdout := Some \<lparr>st_kind = ''path'', st_value = Some (Value_path \<lparr>pp_root = [47], pp_tail = [[97]]\<rparr>)\<rparr>,
    ro_stderr := Some \<lparr>st_kind = ''path'', st_value = Some (Value_path \<lparr>pp_root = [47], pp_tail = [[98]]\<rparr>)\<rparr>\<rparr>"

definition example_world :: "(nat, nat, nat) stdio_world" where
  "example_world = \<lparr>sw_fds = [0, 1, 2], sw_log = []\<rparr>"

lemmas example_launch_defs = example_os_def example_state_def redirected_options_def quiet_options_def
  default_options_def build_subprocess_execution_def reject_contested_stdin_def reject_contested_captures_def
  resolved_capture_def reject_unsupported_bounded_captures_def reject_unsupported_bounded_encoding_def
  resolve_stdio_def resolve_output_binding_def resolve_stdio_binding_def ensure_redirection_supported_def
  target_path_value_def new_binding_def Let_def

lemma example_build:
  "\<exists>ex. build_subprocess_execution utf8_registry example_os [97] [] (example_state redirected_options) example_world =
    (Inr ex, example_world)"
  "\<exists>ex. build_subprocess_execution utf8_registry example_os [97] [] (example_state quiet_options) example_world =
    (Inr ex, example_world)"
  by (simp_all add: example_launch_defs)

lemma owned_descriptors_settle_witness:
  "\<exists>ex res w'. build_subprocess_execution utf8_registry example_os [97] [] (example_state redirected_options) example_world =
      (Inr ex, example_world) \<and>
    spawn_subprocess example_os (default_context :: (nat, nat, nat) cuprum_context) [] ex example_world = (res, w') \<and>
    sw_fds w' = [0, 1, 2]"
proof -
  obtain ex where ex: "build_subprocess_execution utf8_registry example_os [97] [] (example_state redirected_options)
      example_world = (Inr ex, example_world)"
    using example_build(1) by (rule exE)
  obtain res w' where spawn: "spawn_subprocess example_os (default_context :: (nat, nat, nat) cuprum_context) [] ex
      example_world = (res, w')"
    by fastforce
  have "sw_fds w' = [0, 1, 2]"
    using owned_descriptors_settle [OF ex spawn] by (simp add: example_world_def)
  with ex spawn show ?thesis by blast
qed

text \<open>
  (C12) The child writes into a pipe exactly where the parent reads: for options the initialiser
  accepted, a stream of the spawned child is bound to a pipe if and only if the options leave it one
  and something consumes it, an unread pipe is the null device, and every captured or echoed stream is
  a pipe the parent is told it holds.
\<close>

theorem child_pipes_are_read:
  assumes "options_post_init fresh build o0 = Inr (es_output state)"
    and "build_subprocess_execution r os argv0 args state w = (Inr ex, w')"
  shows "let c = direct_config_of ctx environ ex opened new_session; output = es_output state;
      watched = (ro_idle_after output \<noteq> None \<or> ro_on_line output \<noteq> None);
      read_out = read_by_parent (fst (resolved_capture output)) (ro_echo_stdout output);
      read_err = read_by_parent (snd (resolved_capture output)) (ro_echo_stderr output)
    in (dc_stdout c = Some PIPE \<longleftrightarrow> has_pipe (ro_stdout output) \<and> (read_out \<or> watched)) \<and>
      (dc_stdout c = Some DEVNULL \<longleftrightarrow> has_pipe (ro_stdout output) \<and> \<not> (read_out \<or> watched)) \<and>
      (read_out \<longrightarrow> dc_stdout c = Some PIPE \<and> Stdout_stream \<in> dc_pipes c) \<and>
      (dc_stderr c = Some PIPE \<longleftrightarrow> has_pipe (ro_stderr output) \<and> (read_err \<or> watched)) \<and>
      (dc_stderr c = Some DEVNULL \<longleftrightarrow> has_pipe (ro_stderr output) \<and> \<not> (read_err \<or> watched)) \<and>
      (read_err \<longrightarrow> dc_stderr c = Some PIPE \<and> Stderr_stream \<in> dc_pipes c)"
proof -
  obtain stdio where stdio: "resolve_stdio os (es_stdin_data state) (es_output state) = Inr stdio"
    and ex: "ex_stdio ex = stdio"
    "ex_capture_stdout ex = fst (resolved_capture (es_output state))"
    "ex_capture_stderr ex = snd (resolved_capture (es_output state))"
    "ex_echo_stdout ex = fst (resolved_echo (es_output state))"
    "ex_echo_stderr ex = snd (resolved_echo (es_output state))"
    "ex_on_line ex = ro_on_line (es_output state)"
    "ex_idle ex = (ro_idle_after (es_output state) \<noteq> None)"
    using assms(2) by (rule build_execution_Inr)
  note streams = resolve_stdio_streams [OF stdio]
  note bound = resolve_output_binding_Inr [OF streams(1)] resolve_output_binding_Inr [OF streams(2)]
  have sound: "sound_streams (es_output state)"
    using options_post_init_sound [OF assms(1)] by (simp add: sound_options_def)
  have consumes:
    "consumes_stdout ex \<longleftrightarrow> has_pipe (ro_stdout (es_output state)) \<and>
      (read_by_parent (fst (resolved_capture (es_output state))) (ro_echo_stdout (es_output state)) \<or>
       ro_idle_after (es_output state) \<noteq> None \<or> ro_on_line (es_output state) \<noteq> None)"
    "consumes_stderr ex \<longleftrightarrow> has_pipe (ro_stderr (es_output state)) \<and>
      (read_by_parent (snd (resolved_capture (es_output state))) (ro_echo_stderr (es_output state)) \<or>
       ro_idle_after (es_output state) \<noteq> None \<or> ro_on_line (es_output state) \<noteq> None)"
    using ex bound by (auto simp: consumes_stdout_def consumes_stderr_def read_by_parent_def resolved_echo_def)
  have pipes: "has_pipe (ro_stdout (es_output state)) \<Longrightarrow> Stdout_stream \<in> execution_pipes ex"
    "has_pipe (ro_stderr (es_output state)) \<Longrightarrow> Stderr_stream \<in> execution_pipes ex"
    using ex bound by (auto simp: execution_pipes_def resolved_pipes_def)
  show ?thesis
    using consumes pipes sound ex output_stdio_value [OF streams(1)] output_stdio_value [OF streams(2)]
    by (simp add: direct_config_of_def Let_def sound_streams_def resolved_capture_def) blast
qed

lemma child_pipes_are_read_witness:
  "\<exists>ex. build_subprocess_execution utf8_registry example_os [97] [] (example_state quiet_options) example_world =
      (Inr ex, example_world) \<and>
    dc_stdout (direct_config_of (default_context :: (nat, nat, nat) cuprum_context) [] ex [] False) = Some PIPE"
proof -
  obtain ex where ex: "build_subprocess_execution utf8_registry example_os [97] [] (example_state quiet_options)
      example_world = (Inr ex, example_world)"
    using example_build(2) by (rule exE)
  have "options_post_init 0 (\<lambda>_ _. 0) (default_options :: (nat, nat, nat, nat, nat) run_output_options) =
      Inr (es_output (example_state quiet_options))"
    using quiet_options_init(1) by (simp add: example_state_def)
  from child_pipes_are_read [OF this ex, of "default_context :: (nat, nat, nat) cuprum_context" "[]" "[]" False]
  have "dc_stdout (direct_config_of (default_context :: (nat, nat, nat) cuprum_context) [] ex [] False) = Some PIPE"
    by (simp add: Let_def example_state_def quiet_options_def default_options_def resolved_capture_def
        read_by_parent_def)
  with ex show ?thesis by blast
qed

end
