(* ===== verification/Capture_File.thy ===== *)
theory Capture_File
  imports Run_Options Settlement
begin

text \<open>
  The file-backed capture (\<open>_capture_file.py\<close>, the seam of \<open>_capture_spill_io.py\<close>, the handle of
  \<open>_capture_types.py\<close> and the two removal paths of \<open>_stream_drain_finish.py\<close> and
  \<open>_capture_cleanup.py\<close>).  A spill file is named by a number.  The world holds what has reached the
  disk, what a buffered writer still holds, the mutable handles, the events emitted, and an arbitrary
  answer for every filesystem call to come: whether it fails, how much of a write was accepted, how much
  reached the disk, and whether the caller was cancelled while it ran.  A call runs to its end before a
  cancellation is raised, as \<open>_shielded_cleanup\<close> makes it.  The calls of one accumulator are serialised by its lock;
  they are made one after the other here.
\<close>

section \<open>Filesystem calls\<close>

datatype io_call = Io_create | Io_write | Io_flush | Io_read | Io_close | Io_unlink

record io_outcome =
  io_error :: "string option"
  io_accepted :: nat
  io_moved :: nat
  io_cancelled :: bool
  io_ended_first :: bool

datatype 'a awaited = Returned 'a | Os_raised string | Cancelled_call

record spill_handle =
  hd_keep :: bool
  hd_closed :: bool

datatype storage_category = Spilled_to_file | Storage_write_failed | Storage_flush_failed | Storage_read_failed

record storage_event =
  se_stream :: stream_name
  se_category :: storage_category
  se_total_bytes :: "nat option"
  se_spilled_bytes :: nat
  se_error_type :: "string option"

record spill_world =
  fw_disk :: "nat \<Rightarrow> bytes option"
  fw_pending :: "nat \<Rightarrow> bytes option"
  fw_handles :: "nat \<Rightarrow> spill_handle option"
  fw_next :: nat
  fw_answers :: "io_call \<Rightarrow> nat \<Rightarrow> io_outcome"
  fw_calls :: nat
  fw_events :: "storage_event list"

text \<open>How an awaited call ends, given its answer; the next call gets the next answer.\<close>

definition next_answer :: "io_call \<Rightarrow> spill_world \<Rightarrow> io_outcome" where
  "next_answer call w = fw_answers w call (fw_calls w)"

definition answered :: "spill_world \<Rightarrow> spill_world" where
  "answered w = w\<lparr>fw_calls := Suc (fw_calls w)\<rparr>"

text \<open>
  \<open>_shielded_cleanup\<close>: a cancellation is raised when the call has ended.  A failing call's error takes its place, unless
  the call had already ended when the cancellation was delivered (\<open>io_ended_first\<close>): \<open>_settle_shielded\<close> drops the error
  then, and otherwise lets it out.
\<close>

definition ending :: "io_outcome \<Rightarrow> 'a \<Rightarrow> 'a awaited" where
  "ending a v =
    (case io_error a of
       Some e \<Rightarrow> if io_cancelled a \<and> io_ended_first a then Cancelled_call else Os_raised e
     | None \<Rightarrow> if io_cancelled a then Cancelled_call else Returned v)"

text \<open>The one case in which a failure is told to nobody.\<close>

definition hides_failure :: "io_outcome \<Rightarrow> bool" where
  "hides_failure a \<longleftrightarrow> io_error a \<noteq> None \<and> io_cancelled a \<and> io_ended_first a"

text \<open>Moving \<open>n\<close> buffered bytes of a file to the disk.\<close>

definition move_bytes :: "nat \<Rightarrow> nat \<Rightarrow> spill_world \<Rightarrow> spill_world" where
  "move_bytes f n w =
    (case (fw_disk w f, fw_pending w f) of
       (Some d, Some p) \<Rightarrow>
         w\<lparr>fw_disk := (fw_disk w)(f := Some (d @ take n p)),
           fw_pending := (fw_pending w)(f := Some (drop n p))\<rparr>
     | (None, Some p) \<Rightarrow> w\<lparr>fw_pending := (fw_pending w)(f := Some (drop n p))\<rparr>
     | _ \<Rightarrow> w)"

definition buffer_bytes :: "nat \<Rightarrow> bytes \<Rightarrow> spill_world \<Rightarrow> spill_world" where
  "buffer_bytes f b w =
    w\<lparr>fw_pending := (fw_pending w)(f := map_option (\<lambda>p. p @ b) (fw_pending w f))\<rparr>"

definition pending_length :: "nat \<Rightarrow> spill_world \<Rightarrow> nat" where
  "pending_length f w = (case fw_pending w f of None \<Rightarrow> 0 | Some p \<Rightarrow> length p)"

text \<open>\<open>file.write(chunk)\<close>: a failing write may have accepted a part of its chunk.\<close>

definition call_write :: "nat \<Rightarrow> bytes \<Rightarrow> spill_world \<Rightarrow> unit awaited \<times> spill_world" where
  "call_write f chunk w =
    (let a = next_answer Io_write w;
         taken = (if io_error a = None then chunk else take (io_accepted a) chunk)
     in (ending a (), move_bytes f (io_moved a) (buffer_bytes f taken (answered w))))"

definition call_flush :: "nat \<Rightarrow> spill_world \<Rightarrow> unit awaited \<times> spill_world" where
  "call_flush f w =
    (let a = next_answer Io_flush w;
         n = (if io_error a = None then pending_length f w else io_moved a)
     in (ending a (), move_bytes f n (answered w)))"

definition call_read :: "nat \<Rightarrow> spill_world \<Rightarrow> bytes awaited \<times> spill_world" where
  "call_read f w =
    (let a = next_answer Io_read w
     in (case fw_disk w f of
           None \<Rightarrow> if io_cancelled a \<and> io_ended_first a then Cancelled_call else Os_raised ''FileNotFoundError''
         | Some d \<Rightarrow> ending a d, answered w))"

text \<open>Closing flushes; the descriptor is gone also when that fails.\<close>

definition call_close :: "nat \<Rightarrow> spill_world \<Rightarrow> unit awaited \<times> spill_world" where
  "call_close f w =
    (let a = next_answer Io_close w;
         n = (if io_error a = None then pending_length f w else io_moved a);
         w' = move_bytes f n (answered w)
     in (ending a (), w'\<lparr>fw_pending := (fw_pending w')(f := None)\<rparr>))"

text \<open>\<open>unlink(missing_ok=True)\<close>.\<close>

definition call_unlink :: "nat \<Rightarrow> spill_world \<Rightarrow> unit awaited \<times> spill_world" where
  "call_unlink f w =
    (let a = next_answer Io_unlink w
     in (ending a (),
         if io_error a = None then (answered w)\<lparr>fw_disk := (fw_disk w)(f := None)\<rparr> else answered w))"

text \<open>\<open>NamedTemporaryFile(delete=False)\<close>: a new file, open and empty.\<close>

definition create_spill :: "spill_world \<Rightarrow> (string + nat) \<times> spill_world" where
  "create_spill w =
    (case io_error (next_answer Io_create w) of
       Some e \<Rightarrow> (Inl e, answered w)
     | None \<Rightarrow>
         (Inr (fw_next w), (answered w)\<lparr>fw_next := Suc (fw_next w),
           fw_disk := (fw_disk w)(fw_next w := Some []),
           fw_pending := (fw_pending w)(fw_next w := Some [])\<rparr>))"

section \<open>The accumulator\<close>

record file_accumulator =
  xa_policy :: file_backed_capture
  xa_stream :: stream_name
  xa_settings :: decode_settings
  xa_buffer :: "bytes option"
  xa_file :: "nat option"
  xa_handle :: "nat option"
  xa_provisional :: "nat option"
  xa_path :: "nat option"
  xa_total :: nat
  xa_spilled_bytes :: nat
  xa_flushed_bytes :: nat
  xa_failed :: "string option"

definition new_file_accumulator ::
  "file_backed_capture \<Rightarrow> stream_name \<Rightarrow> decode_settings \<Rightarrow> file_accumulator" where
  "new_file_accumulator policy stream settings =
    \<lparr>xa_policy = policy, xa_stream = stream, xa_settings = settings, xa_buffer = Some [], xa_file = None,
     xa_handle = None, xa_provisional = None, xa_path = None, xa_total = 0, xa_spilled_bytes = 0,
     xa_flushed_bytes = 0, xa_failed = None\<rparr>"

text \<open>The threshold as the policy's initialiser leaves it.\<close>

definition spill_threshold :: "file_backed_capture \<Rightarrow> nat option" where
  "spill_threshold policy =
    (case fb_spill_threshold_bytes policy of Some (Exact_int n) \<Rightarrow> Some (nat n) | _ \<Rightarrow> None)"

definition should_spill :: "nat \<Rightarrow> file_accumulator \<Rightarrow> bool" where
  "should_spill buffered self =
    (if xa_failed self \<noteq> None then False
     else case spill_threshold (xa_policy self) of None \<Rightarrow> True | Some t \<Rightarrow> buffered > t)"

definition fail_storage ::
  "string \<Rightarrow> storage_category \<Rightarrow> file_accumulator \<Rightarrow> spill_world \<Rightarrow> file_accumulator \<times> spill_world" where
  "fail_storage e category self w =
    (self\<lparr>xa_failed := Some e\<rparr>,
     w\<lparr>fw_events := fw_events w @ [\<lparr>se_stream = xa_stream self, se_category = category,
       se_total_bytes = Some (xa_total self), se_spilled_bytes = xa_spilled_bytes self,
       se_error_type = Some e\<rparr>]\<rparr>)"

definition publish_spill :: "nat \<Rightarrow> spill_world \<Rightarrow> spill_world" where
  "publish_spill f w = w\<lparr>fw_handles := (fw_handles w)(f := Some \<lparr>hd_keep = False, hd_closed = False\<rparr>)\<rparr>"

definition adopt_spill :: "nat \<Rightarrow> file_accumulator \<Rightarrow> spill_world \<Rightarrow> file_accumulator \<times> spill_world" where
  "adopt_spill f self w =
    (self\<lparr>xa_handle := Some f, xa_provisional := Some f\<rparr>, publish_spill f w)"

text \<open>
  \<open>_create_published_spill\<close>: the file is adopted before a failure or a cancellation is raised.  The
  step is \<open>run_shielded_step\<close> of the settlement, with the exceptions of this theory.
\<close>

definition create_published_spill ::
  "file_accumulator \<Rightarrow> spill_world \<Rightarrow> nat awaited \<times> file_accumulator \<times> spill_world" where
  "create_published_spill self w =
    (let (made, w') = create_spill w; a = next_answer Io_create w
     in case run_shielded_step (if io_cancelled a then Some ''CancelledError'' else None) (io_ended_first a) made of
          Inl e \<Rightarrow> (Os_raised e, self, w')
        | Inr step \<Rightarrow>
            (let (self, w') = (case sh_value step of Some f \<Rightarrow> adopt_spill f self w' | None \<Rightarrow> (self, w'))
             in (case sh_failure step of
                   Some e \<Rightarrow> Os_raised e
                 | None \<Rightarrow>
                     (case sh_cancellation step of
                        Some _ \<Rightarrow> Cancelled_call
                      | None \<Rightarrow> (case sh_value step of Some f \<Rightarrow> Returned f | None \<Rightarrow> Cancelled_call)), self, w')))"

definition promote_provisional_spill ::
  "file_accumulator \<Rightarrow> spill_world \<Rightarrow> file_accumulator \<times> spill_world" where
  "promote_provisional_spill self w =
    (case xa_provisional self of
       None \<Rightarrow> (self, w)
     | Some h \<Rightarrow>
         (self\<lparr>xa_provisional := None\<rparr>,
          w\<lparr>fw_handles := (fw_handles w)(h := map_option (hd_keep_update (\<lambda>_. fb_keep_file (xa_policy self)))
            (fw_handles w h))\<rparr>))"

text \<open>The housekeeping of a failed spill; only a cancellation leaves it early.\<close>

definition discard_failed_spill ::
  "nat \<Rightarrow> string \<Rightarrow> file_accumulator \<Rightarrow> spill_world \<Rightarrow> unit awaited \<times> file_accumulator \<times> spill_world" where
  "discard_failed_spill f e self w =
    (case call_close f w of
       (Cancelled_call, w) \<Rightarrow> (Cancelled_call, self, w)
     | (_, w) \<Rightarrow>
         (case call_unlink f w of
            (Cancelled_call, w) \<Rightarrow> (Cancelled_call, self, w)
          | (_, w) \<Rightarrow>
              let self = (if xa_handle self = xa_provisional self then self\<lparr>xa_handle := None\<rparr> else self);
                  self = self\<lparr>xa_provisional := None\<rparr>;
                  (self, w) = fail_storage e Storage_write_failed self w
              in (Returned (), self, w)))"

definition spill :: "file_accumulator \<Rightarrow> spill_world \<Rightarrow> unit awaited \<times> file_accumulator \<times> spill_world" where
  "spill self w =
    (case xa_buffer self of
       None \<Rightarrow> (Returned (), self, w)
     | Some buffered \<Rightarrow>
         (case create_published_spill self w of
            (Cancelled_call, self, w) \<Rightarrow> (Cancelled_call, self, w)
          | (Os_raised e, self, w) \<Rightarrow>
              let (self, w) = fail_storage e Storage_write_failed self w in (Returned (), self, w)
          | (Returned f, self, w) \<Rightarrow>
              (case call_write f buffered w of
                 (Cancelled_call, w) \<Rightarrow> (Cancelled_call, self, w)
               | (Os_raised e, w) \<Rightarrow> discard_failed_spill f e self w
               | (Returned _, w) \<Rightarrow>
                   (case call_flush f w of
                      (Cancelled_call, w) \<Rightarrow> (Cancelled_call, self, w)
                    | (Os_raised e, w) \<Rightarrow> discard_failed_spill f e self w
                    | (Returned _, w) \<Rightarrow>
                        let self = self\<lparr>xa_spilled_bytes := length buffered, xa_flushed_bytes := length buffered,
                              xa_file := Some f, xa_path := Some f\<rparr>;
                            (self, w) = promote_provisional_spill self w;
                            self = self\<lparr>xa_buffer := None\<rparr>;
                            w = w\<lparr>fw_events := fw_events w @ [\<lparr>se_stream = xa_stream self,
                              se_category = Spilled_to_file, se_total_bytes = None,
                              se_spilled_bytes = xa_spilled_bytes self, se_error_type = None\<rparr>]\<rparr>
                        in (Returned (), self, w)))))"

definition append_chunk ::
  "bytes \<Rightarrow> file_accumulator \<Rightarrow> spill_world \<Rightarrow> unit awaited \<times> file_accumulator \<times> spill_world" where
  "append_chunk chunk self w =
    (if xa_failed self \<noteq> None then (Returned (), self, w)
     else case xa_file self of
       None \<Rightarrow> (Returned (), self, w)
     | Some f \<Rightarrow>
         (case call_write f chunk w of
            (Cancelled_call, w) \<Rightarrow> (Cancelled_call, self, w)
          | (Os_raised e, w) \<Rightarrow>
              let (self, w) = fail_storage e Storage_write_failed self w in (Returned (), self, w)
          | (Returned _, w) \<Rightarrow>
              (Returned (), self\<lparr>xa_spilled_bytes := xa_spilled_bytes self + length chunk\<rparr>, w)))"

definition file_absorb ::
  "bytes \<Rightarrow> file_accumulator \<Rightarrow> spill_world \<Rightarrow> unit awaited \<times> file_accumulator \<times> spill_world" where
  "file_absorb chunk self w =
    (let self = self\<lparr>xa_total := xa_total self + length chunk\<rparr>
     in if xa_path self \<noteq> None then append_chunk chunk self w
        else case xa_buffer self of
          None \<Rightarrow> (Returned (), self, w)
        | Some b \<Rightarrow>
            let buffered = b @ chunk; self = self\<lparr>xa_buffer := Some buffered\<rparr>
            in if should_spill (length buffered) self then spill self w else (Returned (), self, w))"

section \<open>Finalization\<close>

record file_captured_stream = captured_stream +
  cs_in_file :: bool
  cs_path :: "nat option"
  cs_owned :: bool
  cs_storage_failed :: bool

record file_final =
  xf_payload :: "payload option"
  xf_capture :: file_captured_stream
  xf_handle :: "nat option"

definition finalize_buffered :: "codec_registry \<Rightarrow> file_accumulator \<Rightarrow> capture_error + file_final" where
  "finalize_buffered r self =
    rbind (render r (case xa_buffer self of None \<Rightarrow> [] | Some b \<Rightarrow> b) (xa_settings self)) (\<lambda>payload.
      Inr \<lparr>xf_payload = Some payload,
        xf_capture = \<lparr>cs_stream = xa_stream self, cs_policy = Kind_file_backed, cs_total_bytes = xa_total self,
          cs_dropped_bytes = 0, cs_in_file = False, cs_path = None, cs_owned = False,
          cs_storage_failed = (xa_failed self \<noteq> None)\<rparr>,
        xf_handle = None\<rparr>)"

definition flush_before_reading ::
  "file_accumulator \<Rightarrow> spill_world \<Rightarrow> unit awaited \<times> file_accumulator \<times> spill_world" where
  "flush_before_reading self w =
    (case xa_file self of
       None \<Rightarrow> (Returned (), self, w)
     | Some f \<Rightarrow>
         (case call_flush f w of
            (Cancelled_call, w) \<Rightarrow> (Cancelled_call, self, w)
          | (Os_raised e, w) \<Rightarrow>
              let self = self\<lparr>xa_spilled_bytes := xa_flushed_bytes self\<rparr>;
                  (self, w) = (if xa_failed self = None then fail_storage e Storage_flush_failed self w
                               else (self, w))
              in (Returned (), self, w)
          | (Returned _, w) \<Rightarrow>
              (Returned (), self\<lparr>xa_flushed_bytes := xa_spilled_bytes self\<rparr>, w)))"

definition read_back ::
  "nat \<Rightarrow> file_accumulator \<Rightarrow> spill_world \<Rightarrow> bytes option awaited \<times> file_accumulator \<times> spill_world" where
  "read_back path self w =
    (case call_read path w of
       (Cancelled_call, w) \<Rightarrow> (Cancelled_call, self, w)
     | (Os_raised e, w) \<Rightarrow>
         let (self, w) = fail_storage e Storage_read_failed self w in (Returned None, self, w)
     | (Returned b, w) \<Rightarrow> (Returned (Some b), self, w))"

definition finalize_spilled ::
  "nat \<Rightarrow> file_accumulator \<Rightarrow> spill_world \<Rightarrow>
    (capture_error + file_final) awaited \<times> file_accumulator \<times> spill_world" where
  "finalize_spilled path self w =
    (case flush_before_reading self w of
       (Returned _, self, w) \<Rightarrow>
         (case (if ds_capture_bytes (xa_settings self) then read_back path self w else (Returned None, self, w)) of
            (Returned payload, self, w) \<Rightarrow>
              (Returned (Inr \<lparr>xf_payload = map_option Bytes_payload payload,
                 xf_capture = \<lparr>cs_stream = xa_stream self, cs_policy = Kind_file_backed,
                   cs_total_bytes = xa_total self, cs_dropped_bytes = 0, cs_in_file = True, cs_path = Some path,
                   cs_owned = (case xa_handle self of None \<Rightarrow> False
                     | Some h \<Rightarrow> (case fw_handles w h of None \<Rightarrow> False | Some x \<Rightarrow> \<not> hd_keep x)),
                   cs_storage_failed = (xa_failed self \<noteq> None)\<rparr>,
                 xf_handle = xa_handle self\<rparr>), self, w)
          | (Os_raised e, self, w) \<Rightarrow> (Os_raised e, self, w)
          | (Cancelled_call, self, w) \<Rightarrow> (Cancelled_call, self, w))
     | (Os_raised e, self, w) \<Rightarrow> (Os_raised e, self, w)
     | (Cancelled_call, self, w) \<Rightarrow> (Cancelled_call, self, w))"

definition file_finalize ::
  "codec_registry \<Rightarrow> file_accumulator \<Rightarrow> spill_world \<Rightarrow>
    (capture_error + file_final) awaited \<times> file_accumulator \<times> spill_world" where
  "file_finalize r self w =
    (case xa_path self of
       Some path \<Rightarrow> finalize_spilled path self w
     | None \<Rightarrow> (Returned (finalize_buffered r self), self, w))"

section \<open>Removal\<close>

text \<open>\<open>SpillHandle.close\<close>; its callers shield it, so a cancellation waits for its end.\<close>

definition handle_close :: "bool \<Rightarrow> nat \<Rightarrow> spill_world \<Rightarrow> spill_world" where
  "handle_close remove h w =
    (case fw_handles w h of
       None \<Rightarrow> w
     | Some x \<Rightarrow>
         let w = (if \<not> hd_closed x
                  then snd (call_close h (w\<lparr>fw_handles := (fw_handles w)(h := Some (x\<lparr>hd_closed := True\<rparr>))\<rparr>))
                  else w)
         in if remove \<and> \<not> hd_keep x then snd (call_unlink h w) else w)"

definition file_cleanup :: "file_accumulator \<Rightarrow> spill_world \<Rightarrow> spill_world" where
  "file_cleanup self w =
    (case xa_handle self of
       None \<Rightarrow> w
     | Some h \<Rightarrow>
         handle_close (case fw_handles w h of None \<Rightarrow> True | Some x \<Rightarrow> \<not> hd_keep x) h w)"

definition finalize_drain_handle :: "file_final option \<Rightarrow> spill_world \<Rightarrow> spill_world" where
  "finalize_drain_handle result w =
    (case (case result of None \<Rightarrow> None | Some x \<Rightarrow> xf_handle x) of
       None \<Rightarrow> w
     | Some h \<Rightarrow> handle_close True h w)"

text \<open>\<open>CaptureSinkRegistry.register\<close>: a sink, named by its identity, is remembered once.\<close>

definition register_sink :: "nat option \<Rightarrow> nat list \<Rightarrow> nat list" where
  "register_sink sink sinks =
    (case sink of None \<Rightarrow> sinks | Some s \<Rightarrow> if s \<in> set sinks then sinks else sinks @ [s])"

lemma register_sink_distinct: "distinct sinks \<Longrightarrow> distinct (register_sink sink sinks)"
  by (simp add: register_sink_def split: option.split)

section \<open>A captured stream\<close>

text \<open>
  The life of one capture: the drain absorbs chunk after chunk until the stream ends or an absorb is cancelled, which
  \<open>_absorb_into_capture\<close> takes as a stop like a cancelled read; either way it finalizes what it has, and the run closes
  the result's handle and cleans the sink up.  A read that is cancelled is a stream that ends there.
\<close>

fun absorb_chunks ::
  "bytes list \<Rightarrow> file_accumulator \<Rightarrow> spill_world \<Rightarrow> unit awaited \<times> file_accumulator \<times> spill_world" where
  "absorb_chunks [] self w = (Returned (), self, w)"
| "absorb_chunks (c # cs) self w =
    (case file_absorb c self w of
       (Returned _, self, w) \<Rightarrow> absorb_chunks cs self w
     | other \<Rightarrow> other)"

definition drain_capture ::
  "codec_registry \<Rightarrow> file_backed_capture \<Rightarrow> stream_name \<Rightarrow> decode_settings \<Rightarrow> bytes list \<Rightarrow> spill_world \<Rightarrow>
    (capture_error + file_final) awaited \<times> file_accumulator \<times> spill_world" where
  "drain_capture r policy stream settings chunks w =
    (case absorb_chunks chunks (new_file_accumulator policy stream settings) w of
       (Os_raised e, self, w) \<Rightarrow> (Os_raised e, self, w)
     | (_, self, w) \<Rightarrow> file_finalize r self w)"

definition finalize_capture_handles ::
  "(capture_error + file_final) awaited \<Rightarrow> file_accumulator \<Rightarrow> spill_world \<Rightarrow> spill_world" where
  "finalize_capture_handles result self w =
    file_cleanup self
      (finalize_drain_handle (case result of Returned (Inr x) \<Rightarrow> Some x | _ \<Rightarrow> None) w)"

end
