(* ===== verification/Spill_Safety.thy ===== *)
theory Spill_Safety
  imports Capture_File Capture_Accumulators
begin

text \<open>
  What a file-backed capture guarantees (\<open>_capture_file.py\<close>), whatever the filesystem answers and
  wherever a cancellation falls: the states between two chunks, the output a result stands for, and
  the fate of the spill file.
\<close>

section \<open>What calls change\<close>

definition file_at :: "nat \<Rightarrow> bytes \<Rightarrow> spill_world \<Rightarrow> bool" where
  "file_at f s w \<longleftrightarrow> (\<exists>d p. fw_disk w f = Some d \<and> fw_pending w f = Some p \<and> s = d @ p)"

text \<open>Two worlds that differ in one file, the calls made and the events only.\<close>

definition differs_at :: "nat \<Rightarrow> spill_world \<Rightarrow> spill_world \<Rightarrow> bool" where
  "differs_at f w w' \<longleftrightarrow>
    (fw_disk w')(f := None) = (fw_disk w)(f := None) \<and>
    (fw_pending w')(f := None) = (fw_pending w)(f := None) \<and>
    fw_handles w' = fw_handles w \<and> fw_next w' = fw_next w \<and> fw_answers w' = fw_answers w"

lemma differs_at_refl [simp]: "differs_at f w w"
  by (simp add: differs_at_def)

lemma differs_at_trans: "differs_at f u v \<Longrightarrow> differs_at f v w \<Longrightarrow> differs_at f u w"
  by (simp add: differs_at_def)

lemma answered_simps [simp]:
  "fw_disk (answered w) = fw_disk w" "fw_pending (answered w) = fw_pending w"
  "fw_handles (answered w) = fw_handles w" "fw_next (answered w) = fw_next w"
  "fw_answers (answered w) = fw_answers w" "fw_events (answered w) = fw_events w"
  by (simp_all add: answered_def)

lemma ending_Returned_iff: "ending a v = Returned u \<longleftrightarrow> \<not> io_cancelled a \<and> io_error a = None \<and> u = v"
  by (auto simp: ending_def split: option.splits)

lemma ending_Cancelled_iff:
  "ending a v = Cancelled_call \<longleftrightarrow> io_cancelled a \<and> (io_error a = None \<or> hides_failure a)"
  by (auto simp: ending_def hides_failure_def split: option.splits)

text \<open>No failing write is hidden by a cancellation.\<close>

definition writes_told :: "spill_world \<Rightarrow> bool" where
  "writes_told w \<longleftrightarrow> (\<forall>n. \<not> hides_failure (fw_answers w Io_write n))"

lemma differs_at_answered [simp]: "differs_at f w (answered w)"
  by (simp add: differs_at_def)

lemma differs_at_move: "differs_at f w (move_bytes f n w)"
  by (auto simp: differs_at_def move_bytes_def split: option.split)

lemma differs_at_buffer: "differs_at f w (buffer_bytes f b w)"
  by (simp add: differs_at_def buffer_bytes_def)

lemma file_at_answered [simp]: "file_at f s (answered w) = file_at f s w"
  by (simp add: file_at_def)

lemma file_at_move: "file_at f s w \<Longrightarrow> file_at f s (move_bytes f n w)"
  by (auto simp: file_at_def move_bytes_def)

lemma file_at_buffer: "file_at f s w \<Longrightarrow> file_at f (s @ b) (buffer_bytes f b w)"
  by (auto simp: file_at_def buffer_bytes_def)

lemma move_all:
  assumes "file_at f s w"
  shows "fw_disk (move_bytes f (pending_length f w) w) f = Some s \<and>
    fw_pending (move_bytes f (pending_length f w) w) f = Some []"
  using assms by (auto simp: file_at_def move_bytes_def pending_length_def)

lemma call_write_effect:
  assumes "call_write f chunk w = (res, w')"
  shows "differs_at f w w'"
    and "file_at f s w \<Longrightarrow> \<exists>t. prefix t chunk \<and> file_at f (s @ t) w' \<and> (\<forall>u. res = Returned u \<longrightarrow> t = chunk) \<and>
      (res = Cancelled_call \<and> writes_told w \<longrightarrow> t = chunk)"
proof -
  let ?a = "next_answer Io_write w"
  let ?t = "if io_error ?a = None then chunk else take (io_accepted ?a) chunk"
  have w': "w' = move_bytes f (io_moved ?a) (buffer_bytes f ?t (answered w))" and res: "res = ending ?a ()"
    using assms by (auto simp: call_write_def Let_def)
  show "differs_at f w w'"
    unfolding w'
    by (rule differs_at_trans [OF differs_at_trans [OF differs_at_answered differs_at_buffer] differs_at_move])
  assume s: "file_at f s w"
  have "file_at f (s @ ?t) w'"
    unfolding w' by (intro file_at_move file_at_buffer) (simp add: s)
  then show "\<exists>t. prefix t chunk \<and> file_at f (s @ t) w' \<and> (\<forall>u. res = Returned u \<longrightarrow> t = chunk) \<and>
      (res = Cancelled_call \<and> writes_told w \<longrightarrow> t = chunk)"
    by (intro exI [of _ ?t])
      (auto simp: res ending_Returned_iff ending_Cancelled_iff take_is_prefix writes_told_def next_answer_def)
qed

lemma call_flush_effect:
  assumes "call_flush f w = (res, w')"
  shows "differs_at f w w'"
    and "file_at f s w \<Longrightarrow> file_at f s w' \<and> (\<forall>u. res = Returned u \<longrightarrow> fw_disk w' f = Some s)"
proof -
  let ?a = "next_answer Io_flush w"
  let ?n = "if io_error ?a = None then pending_length f w else io_moved ?a"
  have w': "w' = move_bytes f ?n (answered w)" and res: "res = ending ?a ()"
    using assms by (auto simp: call_flush_def Let_def)
  show "differs_at f w w'"
    unfolding w' by (rule differs_at_trans [OF differs_at_answered differs_at_move])
  assume s: "file_at f s w"
  have "pending_length f (answered w) = pending_length f w"
    by (simp add: pending_length_def)
  then show "file_at f s w' \<and> (\<forall>u. res = Returned u \<longrightarrow> fw_disk w' f = Some s)"
    using s move_all [of f s "answered w"] unfolding w' res
    by (auto simp: ending_Returned_iff intro!: file_at_move)
qed

lemma call_read_effect:
  assumes "call_read f w = (res, w')"
  shows "w' = answered w" "\<And>b. res = Returned b \<Longrightarrow> fw_disk w f = Some b"
  using assms by (auto simp: call_read_def Let_def ending_Returned_iff split: option.splits if_splits)

lemma call_close_effect:
  assumes "call_close f w = (res, w')"
  shows "differs_at f w w' \<and> fw_pending w' f = None"
    and "file_at f s w \<Longrightarrow> \<exists>d. fw_disk w' f = Some d \<and> prefix d s"
proof -
  let ?a = "next_answer Io_close w"
  let ?n = "if io_error ?a = None then pending_length f w else io_moved ?a"
  let ?v = "move_bytes f ?n (answered w)"
  have w': "w' = ?v\<lparr>fw_pending := (fw_pending ?v)(f := None)\<rparr>"
    using assms by (auto simp: call_close_def Let_def)
  have v: "differs_at f w ?v"
    by (rule differs_at_trans [OF differs_at_answered differs_at_move])
  then show "differs_at f w w' \<and> fw_pending w' f = None"
    by (simp add: w' differs_at_def)
  assume "file_at f s w"
  then have "file_at f s ?v"
    by (intro file_at_move) simp
  then show "\<exists>d. fw_disk w' f = Some d \<and> prefix d s"
    by (auto simp: w' file_at_def)
qed

definition unlinks_ok :: "spill_world \<Rightarrow> bool" where
  "unlinks_ok w \<longleftrightarrow> (\<forall>n. io_error (fw_answers w Io_unlink n) = None)"

lemma call_unlink_effect:
  assumes "call_unlink f w = (res, w')"
  shows "differs_at f w w' \<and> fw_pending w' = fw_pending w \<and> (unlinks_ok w \<longrightarrow> fw_disk w' f = None)"
  using assms by (auto simp: call_unlink_def Let_def differs_at_def unlinks_ok_def next_answer_def)

section \<open>The states of a capture\<close>

definition configured :: "file_backed_capture \<Rightarrow> stream_name \<Rightarrow> decode_settings \<Rightarrow> file_accumulator \<Rightarrow> bool" where
  "configured policy stream settings self \<longleftrightarrow>
    xa_policy self = policy \<and> xa_stream self = stream \<and> xa_settings self = settings"

text \<open>Everything but one file is as it was in \<open>w0\<close>.\<close>

definition only_file :: "spill_world \<Rightarrow> nat \<Rightarrow> spill_world \<Rightarrow> bool" where
  "only_file w0 f w \<longleftrightarrow>
    fw_disk w0 f = None \<and> fw_pending w0 f = None \<and>
    (fw_disk w)(f := None) = fw_disk w0 \<and> (fw_pending w)(f := None) = fw_pending w0"

definition new_names_unused :: "spill_world \<Rightarrow> bool" where
  "new_names_unused w \<longleftrightarrow> fw_disk w (fw_next w) = None \<and> fw_pending w (fw_next w) = None"

text \<open>On the heap: the buffer is the stream, and nothing is left of a spill that failed.\<close>

definition in_memory :: "spill_world \<Rightarrow> file_accumulator \<Rightarrow> spill_world \<Rightarrow> bytes \<Rightarrow> bool" where
  "in_memory w0 self w h \<longleftrightarrow>
    xa_total self = length h \<and> xa_path self = None \<and> xa_buffer self = Some h \<and> xa_file self = None \<and>
    xa_handle self = None \<and> xa_provisional self = None \<and>
    fw_answers w = fw_answers w0 \<and>
    (xa_failed self = None \<longrightarrow> new_names_unused w) \<and>
    (xa_failed self = None \<or> unlinks_ok w0 \<longrightarrow> fw_disk w = fw_disk w0 \<and> fw_pending w = fw_pending w0)"

text \<open>
  In the file \<open>f\<close>: disk and writer together hold a prefix of the stream, all of it unless a failure
  was recorded or (\<open>exact\<close> is false) a cancellation hid one.
\<close>

definition in_file :: "spill_world \<Rightarrow> bool \<Rightarrow> nat \<Rightarrow> file_accumulator \<Rightarrow> spill_world \<Rightarrow> bytes \<Rightarrow> bool" where
  "in_file w0 exact f self w h \<longleftrightarrow>
    xa_total self = length h \<and> xa_path self = Some f \<and> xa_buffer self = None \<and> xa_file self = Some f \<and>
    xa_handle self = Some f \<and> xa_provisional self = None \<and>
    fw_answers w = fw_answers w0 \<and> only_file w0 f w \<and>
    fw_handles w f = Some \<lparr>hd_keep = fb_keep_file (xa_policy self), hd_closed = False\<rparr> \<and>
    (\<exists>s. prefix s h \<and> file_at f s w \<and> (exact \<and> xa_failed self = None \<longrightarrow> s = h))"

text \<open>A spill cut short by a cancellation: the buffer is still the stream, and the file still the run's to remove.\<close>

definition half_spilled :: "spill_world \<Rightarrow> file_accumulator \<Rightarrow> spill_world \<Rightarrow> bytes \<Rightarrow> bool" where
  "half_spilled w0 self w h \<longleftrightarrow>
    xa_total self = length h \<and> xa_path self = None \<and> xa_buffer self = Some h \<and> fw_answers w = fw_answers w0 \<and>
    (case xa_handle self of
       None \<Rightarrow> unlinks_ok w0 \<longrightarrow> fw_disk w = fw_disk w0 \<and> fw_pending w = fw_pending w0
     | Some f \<Rightarrow> only_file w0 f w \<and> fw_handles w f = Some \<lparr>hd_keep = False, hd_closed = False\<rparr>)"

lemma only_file_differs: "only_file w0 f w \<Longrightarrow> differs_at f w w' \<Longrightarrow> only_file w0 f w'"
  by (simp add: only_file_def differs_at_def)

lemma only_file_gone:
  assumes "only_file w0 f w" "fw_disk w f = None" "fw_pending w f = None"
  shows "fw_disk w = fw_disk w0 \<and> fw_pending w = fw_pending w0"
proof -
  have "(fw_disk w)(f := None) = fw_disk w" "(fw_pending w)(f := None) = fw_pending w"
    using assms(2,3) by auto
  then show ?thesis using assms(1) by (simp add: only_file_def)
qed

lemma fail_storage_simps [simp]:
  "fst (fail_storage e c self w) = self\<lparr>xa_failed := Some e\<rparr>"
  "fw_disk (snd (fail_storage e c self w)) = fw_disk w"
  "fw_pending (snd (fail_storage e c self w)) = fw_pending w"
  "fw_handles (snd (fail_storage e c self w)) = fw_handles w"
  "fw_answers (snd (fail_storage e c self w)) = fw_answers w"
  "fw_next (snd (fail_storage e c self w)) = fw_next w"
  by (simp_all add: fail_storage_def)

lemma discard_failed_spill_state:
  assumes "discard_failed_spill f e self w = (res, self', w')"
    and own: "xa_handle self = Some f" "xa_provisional self = Some f" "only_file w0 f w"
    and handle: "fw_handles w f = Some \<lparr>hd_keep = False, hd_closed = False\<rparr>"
    and mem: "xa_total self = length h" "xa_path self = None" "xa_buffer self = Some h" "xa_file self = None"
      "fw_answers w = fw_answers w0"
  shows "(res = Returned () \<and> in_memory w0 self' w' h \<or> res = Cancelled_call \<and> half_spilled w0 self' w' h) \<and>
    configured (xa_policy self) (xa_stream self) (xa_settings self) self'"
proof -
  obtain r1 w1 where c: "call_close f w = (r1, w1)" by fastforce
  obtain r2 w2 where u: "call_unlink f w1 = (r2, w2)" by fastforce
  have d1: "differs_at f w w1" "fw_pending w1 f = None"
    using call_close_effect(1) [OF c] by simp_all
  have d2: "differs_at f w1 w2" "fw_pending w2 f = None" "unlinks_ok w1 \<longrightarrow> fw_disk w2 f = None"
    using call_unlink_effect [OF u] d1 by simp_all
  have own1: "only_file w0 f w1" and own2: "only_file w0 f w2"
    using own(3) d1(1) d2(1) only_file_differs by blast+
  have same: "fw_handles w1 = fw_handles w" "fw_answers w1 = fw_answers w" "fw_handles w2 = fw_handles w"
    "fw_answers w2 = fw_answers w"
    using d1(1) d2(1) by (simp_all add: differs_at_def)
  have gone: "unlinks_ok w0 \<Longrightarrow> fw_disk w2 = fw_disk w0 \<and> fw_pending w2 = fw_pending w0"
    using only_file_gone [OF own2] d2 same mem(5) by (simp add: unlinks_ok_def)
  show ?thesis
  proof (cases "r1 = Cancelled_call \<or> r2 = Cancelled_call")
    case True
    then have "res = Cancelled_call" "self' = self" "w' = w1 \<or> w' = w2"
      using assms(1) c u by (auto simp: discard_failed_spill_def split: awaited.splits)
    then show ?thesis
      using own1 own2 same own handle mem by (auto simp: half_spilled_def configured_def)
  next
    case False
    let ?s = "self\<lparr>xa_handle := None, xa_provisional := None\<rparr>"
    have "res = Returned ()" "(self', w') = fail_storage e Storage_write_failed ?s w2"
      using assms(1) c u False own
      by (auto simp: discard_failed_spill_def fail_storage_def Let_def split: awaited.splits)
    moreover from this(2) have "self' = ?s\<lparr>xa_failed := Some e\<rparr>" "w' = snd (fail_storage e Storage_write_failed ?s w2)"
      by (simp_all add: fail_storage_def)
    ultimately show ?thesis
      using gone same mem by (simp add: in_memory_def configured_def)
  qed
qed

lemma create_published_spill_state:
  assumes made: "create_published_spill self w = (res, self', w')"
    and mem: "in_memory w0 self w h" "xa_failed self = None"
  shows "(case res of
      Os_raised e \<Rightarrow> self' = self \<and> fw_disk w' = fw_disk w \<and> fw_pending w' = fw_pending w \<and> fw_answers w' = fw_answers w0
    | Cancelled_call \<Rightarrow> half_spilled w0 self' w' h \<and> configured (xa_policy self) (xa_stream self) (xa_settings self) self'
    | Returned f \<Rightarrow> self' = self\<lparr>xa_handle := Some f, xa_provisional := Some f\<rparr> \<and> only_file w0 f w' \<and>
        fw_handles w' f = Some \<lparr>hd_keep = False, hd_closed = False\<rparr> \<and> file_at f [] w' \<and>
        fw_answers w' = fw_answers w0)"
proof (cases "io_error (next_answer Io_create w)")
  case (Some e)
  then show ?thesis
    using made mem
    by (cases "io_cancelled (next_answer Io_create w)"; cases "io_ended_first (next_answer Io_create w)")
      (auto simp: create_published_spill_def create_spill_def run_shielded_step_def Let_def in_memory_def
        half_spilled_def configured_def)
next
  case None
  let ?f = "fw_next w"
  let ?w = "publish_spill ?f ((answered w)\<lparr>fw_next := Suc ?f, fw_disk := (fw_disk w)(?f := Some []),
      fw_pending := (fw_pending w)(?f := Some [])\<rparr>)"
  have same: "fw_disk w = fw_disk w0" "fw_pending w = fw_pending w0" "new_names_unused w" "fw_answers w = fw_answers w0"
    using mem by (auto simp: in_memory_def)
  have w: "only_file w0 ?f ?w" "fw_handles ?w ?f = Some \<lparr>hd_keep = False, hd_closed = False\<rparr>" "file_at ?f [] ?w"
    "fw_answers ?w = fw_answers w0"
    using same by (auto simp: only_file_def new_names_unused_def file_at_def publish_spill_def)
  have ends: "self' = self\<lparr>xa_handle := Some ?f, xa_provisional := Some ?f\<rparr>" "w' = ?w"
    "res = (if io_cancelled (next_answer Io_create w) then Cancelled_call else Returned ?f)"
    using made None
    by (cases "io_cancelled (next_answer Io_create w)",
      auto simp: create_published_spill_def create_spill_def run_shielded_step_def adopt_spill_def Let_def)+
  show ?thesis
    using w mem unfolding ends by (auto simp: half_spilled_def in_memory_def configured_def)
qed

lemma promoted_state:
  assumes "xa_provisional self = Some f" "xa_handle self = Some f"
    and "fw_handles w f = Some \<lparr>hd_keep = False, hd_closed = False\<rparr>"
    and "promote_provisional_spill self w = (self', w')"
  shows "self' = self\<lparr>xa_provisional := None\<rparr>"
    and "fw_handles w' f = Some \<lparr>hd_keep = fb_keep_file (xa_policy self), hd_closed = False\<rparr>"
    and "fw_disk w' = fw_disk w" "fw_pending w' = fw_pending w" "fw_answers w' = fw_answers w"
  using assms by (auto simp: promote_provisional_spill_def)

definition after_step ::
  "spill_world \<Rightarrow> unit awaited \<Rightarrow> file_accumulator \<Rightarrow> spill_world \<Rightarrow> bytes \<Rightarrow> bool" where
  "after_step w0 res self w h \<longleftrightarrow>
    res = Returned () \<and> (in_memory w0 self w h \<or> (\<exists>f. in_file w0 True f self w h)) \<or>
    res = Cancelled_call \<and> (half_spilled w0 self w h \<or> (\<exists>f. in_file w0 (writes_told w0) f self w h))"

lemma half_spilledI:
  assumes "xa_total self = length h" "xa_buffer self = Some h" "xa_path self = None" "xa_handle self = Some f" "only_file w0 f w"
    "fw_handles w f = Some \<lparr>hd_keep = False, hd_closed = False\<rparr>" "fw_answers w = fw_answers w0"
  shows "half_spilled w0 self w h"
  using assms by (simp add: half_spilled_def)

lemma discard_after_step:
  assumes "discard_failed_spill f e self w = (res, self', w')"
    and "xa_handle self = Some f" "xa_provisional self = Some f" "only_file w0 f w"
    and "fw_handles w f = Some \<lparr>hd_keep = False, hd_closed = False\<rparr>"
    and "xa_total self = length h" "xa_path self = None" "xa_buffer self = Some h" "xa_file self = None"
      "fw_answers w = fw_answers w0"
  shows "after_step w0 res self' w' h \<and> configured (xa_policy self) (xa_stream self) (xa_settings self) self'"
  using discard_failed_spill_state [OF assms] by (auto simp: after_step_def)

lemma spill_state:
  assumes run: "spill self w = (res, self', w')" and mem: "in_memory w0 self w h" "xa_failed self = None"
  shows "after_step w0 res self' w' h \<and> configured (xa_policy self) (xa_stream self) (xa_settings self) self'"
proof -
  have buf: "xa_buffer self = Some h" "xa_path self = None" "xa_total self = length h" "xa_file self = None"
    "fw_answers w = fw_answers w0"
    using mem by (simp_all add: in_memory_def)
  obtain r1 s1 w1 where c: "create_published_spill self w = (r1, s1, w1)"
    using prod_cases3 by blast
  note created = create_published_spill_state [OF c mem]
  show ?thesis
  proof (cases r1)
    case Cancelled_call
    then show ?thesis
      using run c created buf(1) by (auto simp: spill_def after_step_def)
  next
    case (Os_raised e)
    then have "res = Returned ()" "self' = self\<lparr>xa_failed := Some e\<rparr>" "w' = snd (fail_storage e Storage_write_failed self w1)"
      using run c created buf(1) by (auto simp: spill_def fail_storage_def)
    then show ?thesis
      using Os_raised created mem by (simp add: after_step_def in_memory_def configured_def)
  next
    case (Returned f)
    then have s1: "s1 = self\<lparr>xa_handle := Some f, xa_provisional := Some f\<rparr>" and w1: "only_file w0 f w1"
      "fw_handles w1 f = Some \<lparr>hd_keep = False, hd_closed = False\<rparr>" "file_at f [] w1" "fw_answers w1 = fw_answers w0"
      using created by simp_all
    obtain r2 w2 where wr: "call_write f h w1 = (r2, w2)" by fastforce
    note d2 = call_write_effect(1) [OF wr]
    have w2: "only_file w0 f w2" "fw_handles w2 f = Some \<lparr>hd_keep = False, hd_closed = False\<rparr>"
      "fw_answers w2 = fw_answers w0"
      using w1 d2 only_file_differs [OF w1(1) d2] by (simp_all add: differs_at_def)
    have half2: "half_spilled w0 s1 w2 h"
      using w2 s1 buf by (intro half_spilledI) simp_all
    show ?thesis
    proof (cases r2)
      case Cancelled_call
      then show ?thesis
        using run c Returned wr buf(1) half2 s1 by (auto simp: spill_def after_step_def configured_def)
    next
      case (Os_raised e)
      then have "discard_failed_spill f e s1 w2 = (res, self', w')"
        using run c Returned wr buf(1) by (simp add: spill_def)
      from discard_after_step [OF this _ _ w2(1,2) _ _ _ _ w2(3), of h] show ?thesis
        using s1 buf by simp
    next
      case wrote: (Returned u)
      then have at2: "file_at f h w2"
        using call_write_effect(2) [OF wr w1(3)] by auto
      obtain r3 w3 where fl: "call_flush f w2 = (r3, w3)" by fastforce
      note d3 = call_flush_effect(1) [OF fl]
      have w3: "only_file w0 f w3" "fw_handles w3 f = Some \<lparr>hd_keep = False, hd_closed = False\<rparr>"
        "fw_answers w3 = fw_answers w0" "file_at f h w3"
        using w2 d3 only_file_differs [OF w2(1) d3] call_flush_effect(2) [OF fl at2] by (simp_all add: differs_at_def)
      have half3: "half_spilled w0 s1 w3 h"
        using w3 s1 buf by (intro half_spilledI) simp_all
      show ?thesis
      proof (cases r3)
        case Cancelled_call
        then show ?thesis
          using run c Returned wr wrote fl buf(1) half3 s1 by (auto simp: spill_def after_step_def configured_def)
      next
        case (Os_raised e)
        then have "discard_failed_spill f e s1 w3 = (res, self', w')"
          using run c Returned wr wrote fl buf(1) by (simp add: spill_def)
        from discard_after_step [OF this _ _ w3(1,2) _ _ _ _ w3(3), of h] show ?thesis
          using s1 buf by simp
      next
        case (Returned v)
        let ?s2 = "s1\<lparr>xa_spilled_bytes := length h, xa_flushed_bytes := length h, xa_file := Some f, xa_path := Some f\<rparr>"
        obtain s4 w4 where pr: "promote_provisional_spill ?s2 w3 = (s4, w4)" by fastforce
        have pw: "s4 = ?s2\<lparr>xa_provisional := None\<rparr>"
          "fw_handles w4 f = Some \<lparr>hd_keep = fb_keep_file (xa_policy self), hd_closed = False\<rparr>"
          "fw_disk w4 = fw_disk w3" "fw_pending w4 = fw_pending w3" "fw_answers w4 = fw_answers w3"
          using promoted_state [OF _ _ w3(2) pr] s1 by simp_all
        have ends: "res = Returned ()" "self' = s4\<lparr>xa_buffer := None\<rparr>"
          "fw_disk w' = fw_disk w3" "fw_pending w' = fw_pending w3" "fw_answers w' = fw_answers w0"
          "fw_handles w' f = Some \<lparr>hd_keep = fb_keep_file (xa_policy self), hd_closed = False\<rparr>"
          using run c \<open>r1 = Returned f\<close> wr wrote fl Returned buf(1) pr pw w3
          by (auto simp: spill_def Let_def)
        have "in_file w0 True f self' w' h"
          using ends pw w3 s1 buf mem(2) by (auto simp: in_file_def only_file_def file_at_def)
        then show ?thesis
          using ends(1,2) pw s1 by (auto simp: after_step_def configured_def)
      qed
    qed
  qed
qed

lemma in_file_inexact: "in_file w0 True f self w h \<Longrightarrow> in_file w0 exact f self w h"
  by (auto simp: in_file_def)

lemma in_file_differs:
  assumes "in_file w0 exact f self w h" "differs_at f w w'"
    and "xa_total self' = length h'" "xa_path self' = xa_path self" "xa_buffer self' = xa_buffer self"
      "xa_file self' = xa_file self" "xa_handle self' = xa_handle self" "xa_provisional self' = xa_provisional self"
      "xa_policy self' = xa_policy self"
    and "\<exists>s. prefix s h' \<and> file_at f s w' \<and> (exact' \<and> xa_failed self' = None \<longrightarrow> s = h')"
  shows "in_file w0 exact' f self' w' h'"
  using assms only_file_differs [OF _ assms(2), of w0] by (auto simp: in_file_def differs_at_def)

lemma append_chunk_state:
  assumes run: "append_chunk chunk (self\<lparr>xa_total := xa_total self + length chunk\<rparr>) w = (res, self', w')"
    and at: "in_file w0 True f self w h"
  shows "after_step w0 res self' w' (h @ chunk) \<and> configured (xa_policy self) (xa_stream self) (xa_settings self) self'"
proof (cases "xa_failed self")
  case (Some e)
  obtain s where "prefix s h" "file_at f s w" using at by (auto simp: in_file_def)
  then have "\<exists>s. prefix s (h @ chunk) \<and> file_at f s w"
    by (intro exI [of _ s]) simp
  then have "in_file w0 True f self' w' (h @ chunk)"
    using run at Some by (intro in_file_differs [OF at, of w']) (auto simp: append_chunk_def in_file_def)
  then show ?thesis
    using run Some by (auto simp: after_step_def append_chunk_def configured_def)
next
  case None
  have held: "xa_file self = Some f" "file_at f h w" using at None by (auto simp: in_file_def)
  obtain r w1 where wr: "call_write f chunk w = (r, w1)" by fastforce
  note d = call_write_effect(1) [OF wr]
  obtain t where t: "prefix t chunk" "file_at f (h @ t) w1" "\<And>u. r = Returned u \<Longrightarrow> t = chunk"
    "r = Cancelled_call \<Longrightarrow> writes_told w \<Longrightarrow> t = chunk"
    using call_write_effect(2) [OF wr held(2)] by blast
  have told: "writes_told w = writes_told w0" using at by (simp add: in_file_def writes_told_def)
  have total: "xa_total self = length h" using at by (simp add: in_file_def)
  show ?thesis
  proof (cases r)
    case (Returned u)
    then have ends: "res = Returned ()" "w' = w1"
      "self' = self\<lparr>xa_total := xa_total self + length chunk, xa_spilled_bytes := xa_spilled_bytes self + length chunk\<rparr>"
      using run None held wr by (simp_all add: append_chunk_def)
    have "in_file w0 True f self' w' (h @ chunk)"
      using t Returned ends total by (intro in_file_differs [OF at, of w']) (auto simp: d)
    then show ?thesis using ends by (auto simp: after_step_def configured_def)
  next
    case (Os_raised e)
    then have ends: "res = Returned ()" "self' = self\<lparr>xa_total := xa_total self + length chunk, xa_failed := Some e\<rparr>"
      "w' = snd (fail_storage e Storage_write_failed (self\<lparr>xa_total := xa_total self + length chunk\<rparr>) w1)"
      using run None held wr by (simp_all add: append_chunk_def fail_storage_def)
    have d': "differs_at f w w'"
      using d by (simp add: ends(3) differs_at_def)
    have "file_at f (h @ t) w'"
      using t(2) by (simp add: ends(3) file_at_def)
    then have "\<exists>s. prefix s (h @ chunk) \<and> file_at f s w'"
      using t(1) by (intro exI [of _ "h @ t"]) simp
    then have "in_file w0 True f self' w' (h @ chunk)"
      using ends(2) total by (intro in_file_differs [OF at d']) auto
    then show ?thesis using ends by (auto simp: after_step_def configured_def)
  next
    case Cancelled_call
    then have ends: "res = Cancelled_call" "w' = w1" "self' = self\<lparr>xa_total := xa_total self + length chunk\<rparr>"
      using run None held wr by (simp_all add: append_chunk_def)
    have "\<exists>s. prefix s (h @ chunk) \<and> file_at f s w' \<and> (writes_told w0 \<and> xa_failed self' = None \<longrightarrow> s = h @ chunk)"
      using t(1,2,4) ends(2) told Cancelled_call by (intro exI [of _ "h @ t"]) simp
    then have "in_file w0 (writes_told w0) f self' w' (h @ chunk)"
      using ends(2,3) total by (intro in_file_differs [OF at, of w']) (auto simp: d)
    then show ?thesis using ends by (auto simp: after_step_def configured_def)
  qed
qed

lemma file_absorb_state:
  assumes run: "file_absorb chunk self w = (res, self', w')"
    and state: "in_memory w0 self w h \<or> (\<exists>f. in_file w0 True f self w h)"
  shows "after_step w0 res self' w' (h @ chunk) \<and> configured (xa_policy self) (xa_stream self) (xa_settings self) self'"
  using state
proof (elim disjE exE)
  fix f
  assume at: "in_file w0 True f self w h"
  then have "append_chunk chunk (self\<lparr>xa_total := xa_total self + length chunk\<rparr>) w = (res, self', w')"
    using run by (simp add: file_absorb_def in_file_def)
  then show ?thesis
    using at by (rule append_chunk_state)
next
  assume mem: "in_memory w0 self w h"
  let ?s = "self\<lparr>xa_total := xa_total self + length chunk, xa_buffer := Some (h @ chunk)\<rparr>"
  have mem': "in_memory w0 ?s w (h @ chunk)"
    using mem by (simp add: in_memory_def)
  have run': "(if should_spill (length (h @ chunk)) ?s then spill ?s w else (Returned (), ?s, w)) = (res, self', w')"
    using run mem by (auto simp: file_absorb_def in_memory_def Let_def split: if_splits)
  show ?thesis
  proof (cases "should_spill (length (h @ chunk)) ?s")
    case True
    then have "xa_failed ?s = None" "spill ?s w = (res, self', w')"
      using run' by (auto simp: should_spill_def split: if_splits)
    from spill_state [OF this(2) mem' this(1)] show ?thesis by simp
  next
    case False
    then have "res = Returned ()" "self' = ?s" "w' = w"
      using run' by simp_all
    then show ?thesis
      using mem' by (auto simp: after_step_def configured_def)
  qed
qed

lemma absorb_chunks_state:
  assumes "absorb_chunks chunks self w = (res, self', w')"
    and "in_memory w0 self w h \<or> (\<exists>f. in_file w0 True f self w h)"
  shows "\<exists>k \<le> length chunks. after_step w0 res self' w' (h @ concat (take k chunks)) \<and>
      (res = Returned () \<longrightarrow> k = length chunks) \<and>
      configured (xa_policy self) (xa_stream self) (xa_settings self) self'"
  using assms
proof (induction chunks self w arbitrary: h rule: absorb_chunks.induct)
  case (1 self w)
  then show ?case by (auto simp: after_step_def configured_def)
next
  case (2 c cs self w)
  obtain r s1 w1 where a: "file_absorb c self w = (r, s1, w1)"
    using prod_cases3 by blast
  have step: "after_step w0 r s1 w1 (h @ c)" "configured (xa_policy self) (xa_stream self) (xa_settings self) s1"
    using file_absorb_state [OF a "2.prems"(2)] by simp_all
  show ?case
  proof (cases r)
    case (Returned u)
    then have "absorb_chunks cs s1 w1 = (res, self', w')"
      "in_memory w0 s1 w1 (h @ c) \<or> (\<exists>f. in_file w0 True f s1 w1 (h @ c))"
      using "2.prems"(1) a step(1) by (simp_all add: after_step_def)
    from "2.IH" [OF a [symmetric] Returned refl this] obtain k where k: "k \<le> length cs"
        "after_step w0 res self' w' ((h @ c) @ concat (take k cs))" "res = Returned () \<longrightarrow> k = length cs"
        "configured (xa_policy s1) (xa_stream s1) (xa_settings s1) self'"
      by blast
    then show ?thesis
      using step(2) by (intro exI [of _ "Suc k"]) (simp add: configured_def)
  next
    case Cancelled_call
    then have "res = r" "self' = s1" "w' = w1"
      using "2.prems"(1) a by simp_all
    then show ?thesis
      using Cancelled_call step by (intro exI [of _ 1]) simp
  next
    case (Os_raised e)
    then show ?thesis using step(1) by (simp add: after_step_def)
  qed
qed

lemma new_file_accumulator_state:
  "new_names_unused w \<Longrightarrow> in_memory w (new_file_accumulator policy stream settings) w []"
  by (simp add: in_memory_def new_file_accumulator_def)


section \<open>The end of a capture\<close>

lemma flush_before_reading_state:
  assumes run: "flush_before_reading self w = (res, self', w')" and at: "in_file w0 exact f self w h"
  shows "in_file w0 exact f self' w' h \<and> configured (xa_policy self) (xa_stream self) (xa_settings self) self' \<and>
    (\<forall>e. res \<noteq> Os_raised e) \<and> (res = Cancelled_call \<longrightarrow> (\<exists>n. io_cancelled (fw_answers w0 Io_flush n)))"
proof -
  have held: "xa_file self = Some f" "xa_total self = length h" using at by (simp_all add: in_file_def)
  obtain s where s: "prefix s h" "file_at f s w" "exact \<and> xa_failed self = None \<longrightarrow> s = h"
    using at by (auto simp: in_file_def)
  obtain r w1 where fl: "call_flush f w = (r, w1)" by fastforce
  note d = call_flush_effect(1) [OF fl]
  have at1: "file_at f s w1" using call_flush_effect(2) [OF fl s(2)] by simp
  show ?thesis
  proof (cases r)
    case (Os_raised e)
    let ?s = "self\<lparr>xa_spilled_bytes := xa_flushed_bytes self\<rparr>"
    have ends: "res = Returned ()"
      "self' = (if xa_failed self = None then ?s\<lparr>xa_failed := Some e\<rparr> else ?s)"
      "w' = (if xa_failed self = None then snd (fail_storage e Storage_flush_failed ?s w1) else w1)"
      using run held fl Os_raised by (auto simp: flush_before_reading_def fail_storage_def Let_def split: if_splits)
    have "differs_at f w w'" "file_at f s w'"
      using d at1 by (simp_all add: ends(3) differs_at_def file_at_def)
    then have "in_file w0 exact f self' w' h"
      using s held ends(2) by (intro in_file_differs [OF at]) auto
    then show ?thesis using ends by (simp add: configured_def)
  next
    case (Returned u)
    then have ends: "res = Returned ()" "self' = self\<lparr>xa_flushed_bytes := xa_spilled_bytes self\<rparr>" "w' = w1"
      using run held fl by (simp_all add: flush_before_reading_def)
    have "in_file w0 exact f self' w' h"
      using s at1 held ends d by (intro in_file_differs [OF at]) auto
    then show ?thesis using ends by (simp add: configured_def)
  next
    case Cancelled_call
    then have ends: "res = Cancelled_call" "self' = self" "w' = w1"
      using run held fl by (simp_all add: flush_before_reading_def)
    have "in_file w0 exact f self' w' h"
      using s at1 held ends d by (intro in_file_differs [OF at]) auto
    moreover have "io_cancelled (fw_answers w0 Io_flush (fw_calls w))"
      using fl Cancelled_call at by (auto simp: call_flush_def Let_def ending_Cancelled_iff next_answer_def in_file_def)
    ultimately show ?thesis using ends by (auto simp: configured_def)
  qed
qed

lemma flushed_file_complete:
  assumes run: "flush_before_reading self w = (Returned u, self', w')" and at: "in_file w0 exact f self w h"
  shows "\<exists>d. fw_disk w' f = Some d \<and> prefix d h \<and> (exact \<and> xa_failed self' = None \<longrightarrow> d = h)"
proof -
  have held: "xa_file self = Some f" using at by (simp add: in_file_def)
  have at': "in_file w0 exact f self' w' h" using flush_before_reading_state [OF run at] by simp
  then obtain s where s: "prefix s h" "file_at f s w'" by (auto simp: in_file_def)
  then obtain d where d: "fw_disk w' f = Some d" "prefix d h"
    by (auto simp: file_at_def prefix_def)
  have "d = h" if ok: "exact" "xa_failed self' = None"
  proof -
    obtain r w1 where fl: "call_flush f w = (r, w1)" by fastforce
    have failed: "xa_failed self = None" "\<exists>v. r = Returned v" "w' = w1"
      using run held fl ok by (auto simp: flush_before_reading_def fail_storage_def Let_def split: awaited.splits if_splits)
    have "file_at f h w" using at failed(1) ok(1) by (auto simp: in_file_def)
    then show ?thesis using call_flush_effect(2) [OF fl] failed(2,3) d(1) by auto
  qed
  then show ?thesis using d by auto
qed

lemma read_back_state:
  assumes run: "read_back f self w = (res, self', w')" and at: "in_file w0 exact f self w h"
    and disk: "fw_disk w f = Some d"
  shows "in_file w0 exact f self' w' h \<and> configured (xa_policy self) (xa_stream self) (xa_settings self) self' \<and>
    fw_disk w' f = Some d \<and>
    (case res of Os_raised e \<Rightarrow> False | Cancelled_call \<Rightarrow> \<exists>n. io_cancelled (fw_answers w0 Io_read n)
     | Returned None \<Rightarrow> xa_failed self' \<noteq> None
     | Returned (Some b) \<Rightarrow> b = d \<and> xa_failed self' = xa_failed self)"
proof -
  obtain r w1 where rd: "call_read f w = (r, w1)" by fastforce
  have w1: "w1 = answered w" and got: "\<And>b. r = Returned b \<Longrightarrow> b = d"
    using call_read_effect [OF rd] disk by auto
  obtain s where s: "prefix s h" "file_at f s w" "exact \<and> xa_failed self = None \<longrightarrow> s = h"
    using at by (auto simp: in_file_def)
  have total: "xa_total self = length h" using at by (simp add: in_file_def)
  show ?thesis
  proof (cases r)
    case (Os_raised e)
    then have ends: "res = Returned None" "self' = self\<lparr>xa_failed := Some e\<rparr>"
      "w' = snd (fail_storage e Storage_read_failed self w1)"
      using run rd by (simp_all add: read_back_def fail_storage_def)
    have w': "differs_at f w w'" "file_at f s w'" "fw_disk w' f = Some d"
      using s disk by (simp_all add: ends(3) w1 differs_at_def file_at_def)
    have "in_file w0 exact f self' w' h"
      using s total ends(2) w'(2) by (intro in_file_differs [OF at w'(1)]) auto
    then show ?thesis using ends w'(3) by (simp add: configured_def)
  next
    case (Returned b)
    then have ends: "res = Returned (Some b)" "self' = self" "w' = w1"
      using run rd by (simp_all add: read_back_def)
    have w': "differs_at f w w'" "file_at f s w'" "fw_disk w' f = Some d"
      using s disk by (simp_all add: ends(3) w1)
    have "in_file w0 exact f self' w' h"
      using s total ends(2) w'(2) by (intro in_file_differs [OF at w'(1)]) auto
    then show ?thesis using ends w'(3) got [OF Returned] by (simp add: configured_def)
  next
    case Cancelled_call
    then have ends: "res = Cancelled_call" "self' = self" "w' = w1"
      using run rd by (simp_all add: read_back_def)
    have w': "differs_at f w w'" "file_at f s w'" "fw_disk w' f = Some d"
      using s disk by (simp_all add: ends(3) w1)
    have "in_file w0 exact f self' w' h"
      using s total ends(2) w'(2) by (intro in_file_differs [OF at w'(1)]) auto
    moreover have "io_cancelled (fw_answers w0 Io_read (fw_calls w))"
      using rd Cancelled_call at
      by (auto simp: call_read_def Let_def ending_Cancelled_iff next_answer_def in_file_def split: option.splits if_splits)
    ultimately show ?thesis using ends w'(3) by (auto simp: configured_def)
  qed
qed


definition retained :: "bool \<Rightarrow> decode_settings \<Rightarrow> bytes \<Rightarrow> file_final \<Rightarrow> spill_world \<Rightarrow> bool" where
  "retained exact settings h x w \<longleftrightarrow>
    cs_total_bytes (xf_capture x) = length h \<and> cs_dropped_bytes (xf_capture x) = 0 \<and>
    (\<exists>f d. cs_path (xf_capture x) = Some f \<and> xf_handle x = Some f \<and> fw_disk w f = Some d \<and> prefix d h \<and>
      (exact \<and> \<not> cs_storage_failed (xf_capture x) \<longrightarrow> d = h) \<and>
      (xf_payload x = None \<or> ds_capture_bytes settings \<and> xf_payload x = Some (Bytes_payload d)) \<and>
      (ds_capture_bytes settings \<and> \<not> cs_storage_failed (xf_capture x) \<longrightarrow> xf_payload x = Some (Bytes_payload d)))"

lemma finalize_spilled_state:
  assumes run: "finalize_spilled f self w = (res, self', w')" and at: "in_file w0 exact f self w h"
  shows "in_file w0 exact f self' w' h \<and> configured (xa_policy self) (xa_stream self) (xa_settings self) self' \<and>
    (res = Cancelled_call \<and> (\<exists>n. io_cancelled (fw_answers w0 Io_flush n) \<or> io_cancelled (fw_answers w0 Io_read n)) \<or>
      (\<exists>x. res = Returned (Inr x) \<and> cs_in_file (xf_capture x) \<and> xf_handle x = Some f \<and>
        retained exact (xa_settings self) h x w'))"
proof -
  obtain r1 s1 w1 where fl: "flush_before_reading self w = (r1, s1, w1)" using prod_cases3 by blast
  have s1: "in_file w0 exact f s1 w1 h" "configured (xa_policy self) (xa_stream self) (xa_settings self) s1"
    "\<And>e. r1 \<noteq> Os_raised e" "r1 = Cancelled_call \<longrightarrow> (\<exists>n. io_cancelled (fw_answers w0 Io_flush n))"
    using flush_before_reading_state [OF fl at] by simp_all
  show ?thesis
  proof (cases r1)
    case (Os_raised e)
    then show ?thesis using s1(3) by simp
  next
    case Cancelled_call
    then show ?thesis using run fl s1 by (auto simp: finalize_spilled_def)
  next
    case (Returned u)
    obtain d where d: "fw_disk w1 f = Some d" "prefix d h" "exact \<and> xa_failed s1 = None \<longrightarrow> d = h"
      using flushed_file_complete [OF fl [unfolded Returned] at] by auto
    obtain r2 s2 w2 where rd: "(if ds_capture_bytes (xa_settings s1) then read_back f s1 w1
        else (Returned None, s1, w1)) = (r2, s2, w2)"
      using prod_cases3 by blast
    have settings: "xa_settings s1 = xa_settings self" using s1(2) by (simp add: configured_def)
    have s2: "in_file w0 exact f s2 w2 h" "configured (xa_policy self) (xa_stream self) (xa_settings self) s2"
      "fw_disk w2 f = Some d"
      and r2: "case r2 of Os_raised e \<Rightarrow> False | Cancelled_call \<Rightarrow> \<exists>n. io_cancelled (fw_answers w0 Io_read n)
        | Returned None \<Rightarrow> ds_capture_bytes (xa_settings self) \<longrightarrow> xa_failed s2 \<noteq> None
        | Returned (Some b) \<Rightarrow> ds_capture_bytes (xa_settings self) \<and> b = d"
      and failed: "exact \<and> r2 \<noteq> Cancelled_call \<and> xa_failed s2 = None \<longrightarrow> d = h"
      using rd read_back_state [of f s1 w1 r2 s2 w2 w0 exact h d] s1 d settings
      by (auto simp: configured_def split: if_splits awaited.splits option.splits)
    have held: "xa_handle s2 = Some f" "xa_total s2 = length h" using s2(1) by (simp_all add: in_file_def)
    show ?thesis
    proof (cases r2)
      case (Os_raised e)
      then show ?thesis using r2 by simp
    next
      case Cancelled_call
      then show ?thesis using run fl Returned rd s2 r2 by (auto simp: finalize_spilled_def)
    next
      case (Returned payload)
      then have ends: "self' = s2" "w' = w2"
        "\<exists>x. res = Returned (Inr x) \<and> cs_in_file (xf_capture x) \<and> xf_handle x = Some f \<and>
          cs_path (xf_capture x) = Some f \<and> cs_total_bytes (xf_capture x) = length h \<and>
          cs_dropped_bytes (xf_capture x) = 0 \<and> xf_payload x = map_option Bytes_payload payload \<and>
          cs_storage_failed (xf_capture x) = (xa_failed s2 \<noteq> None)"
        using run fl \<open>r1 = Returned u\<close> rd held Returned by (auto simp: finalize_spilled_def)
      then show ?thesis
        using s2 d(2) failed r2 Returned by (cases payload) (auto simp: retained_def)
    qed
  qed
qed


lemma new_accumulator_configured: "configured policy stream settings (new_file_accumulator policy stream settings)"
  by (simp add: configured_def new_file_accumulator_def)

text \<open>Whether every chunk was absorbed, so that no absorb was cancelled.\<close>

definition absorbs_all ::
  "file_backed_capture \<Rightarrow> stream_name \<Rightarrow> decode_settings \<Rightarrow> bytes list \<Rightarrow> spill_world \<Rightarrow> bool" where
  "absorbs_all policy stream settings chunks w \<longleftrightarrow>
    fst (absorb_chunks chunks (new_file_accumulator policy stream settings) w) = Returned ()"

definition drain_ended ::
  "codec_registry \<Rightarrow> decode_settings \<Rightarrow> spill_world \<Rightarrow> bool \<Rightarrow> bytes \<Rightarrow>
    (capture_error + file_final) awaited \<Rightarrow> file_accumulator \<Rightarrow> spill_world \<Rightarrow> bool" where
  "drain_ended r settings w exact h res self w' \<longleftrightarrow>
    (in_memory w self w' h \<or> half_spilled w self w' h) \<and> res = Returned (finalize_buffered r self) \<or>
    (\<exists>f. in_file w exact f self w' h \<and>
      (res = Cancelled_call \<and> (\<exists>n. io_cancelled (fw_answers w Io_flush n) \<or> io_cancelled (fw_answers w Io_read n)) \<or>
       (\<exists>x. res = Returned (Inr x) \<and> cs_in_file (xf_capture x) \<and> xf_handle x = Some f \<and>
          retained exact settings h x w')))"

lemma file_finalize_ended:
  assumes "file_finalize r self w1 = (res, self', w')" "configured policy stream settings self"
    and "in_memory w self w1 h \<or> half_spilled w self w1 h \<or> (\<exists>f. in_file w exact f self w1 h)"
  shows "drain_ended r settings w exact h res self' w' \<and> configured policy stream settings self'"
proof (cases "xa_path self")
  case None
  then have "res = Returned (finalize_buffered r self)" "self' = self" "w' = w1"
    using assms(1) None by (auto simp: file_finalize_def)
  then show ?thesis using assms(2,3) None by (auto simp: drain_ended_def in_file_def)
next
  case (Some f)
  then have at: "in_file w exact f self w1 h"
    using assms(3) by (auto simp: in_memory_def half_spilled_def in_file_def)
  have "finalize_spilled f self w1 = (res, self', w')"
    using assms(1) Some by (simp add: file_finalize_def)
  from finalize_spilled_state [OF this at] assms(2) show ?thesis
    unfolding drain_ended_def configured_def by blast
qed

lemma drain_capture_state:
  assumes "new_names_unused w" "drain_capture r policy stream settings chunks w = (res, self, w')"
  shows "\<exists>k \<le> length chunks. configured policy stream settings self \<and>
    (absorbs_all policy stream settings chunks w \<longrightarrow> k = length chunks) \<and>
    drain_ended r settings w (absorbs_all policy stream settings chunks w \<or> writes_told w)
      (concat (take k chunks)) res self w'"
proof -
  let ?s0 = "new_file_accumulator policy stream settings"
  let ?all = "absorbs_all policy stream settings chunks w"
  obtain ra sa wa where ab: "absorb_chunks chunks ?s0 w = (ra, sa, wa)" using prod_cases3 by blast
  obtain k where k: "k \<le> length chunks" "after_step w ra sa wa (concat (take k chunks))"
    "ra = Returned () \<longrightarrow> k = length chunks" "configured policy stream settings sa"
    using absorb_chunks_state [OF ab, of w "[]"] new_file_accumulator_state [OF assms(1)]
    by (auto simp: new_file_accumulator_def)
  have all: "?all \<longleftrightarrow> ra = Returned ()" using ab by (simp add: absorbs_all_def)
  have run: "file_finalize r sa wa = (res, self, w')"
    using assms(2) ab k(2) by (auto simp: drain_capture_def after_step_def)
  have "in_memory w sa wa (concat (take k chunks)) \<or> half_spilled w sa wa (concat (take k chunks)) \<or>
      (\<exists>f. in_file w (?all \<or> writes_told w) f sa wa (concat (take k chunks)))"
    using k(2) all by (cases "ra = Returned ()") (auto simp: after_step_def)
  from file_finalize_ended [OF run k(4) this] show ?thesis
    using k(1,3) all by blast
qed


lemma buffered_payload:
  assumes "in_memory w0 self w h \<or> half_spilled w0 self w h" "configured policy stream settings self"
  shows "finalize_buffered r self = (case render r h settings of Inl e \<Rightarrow> Inl e
    | Inr p \<Rightarrow> Inr \<lparr>xf_payload = Some p,
        xf_capture = \<lparr>cs_stream = stream, cs_policy = Kind_file_backed, cs_total_bytes = length h,
          cs_dropped_bytes = 0, cs_in_file = False, cs_path = None, cs_owned = False,
          cs_storage_failed = (xa_failed self \<noteq> None)\<rparr>,
        xf_handle = None\<rparr>)"
  using assms by (auto simp: in_memory_def half_spilled_def configured_def finalize_buffered_def split: sum.split)

lemma move_bytes_grows: "fw_disk w f = Some d \<Longrightarrow> \<exists>d'. fw_disk (move_bytes f n w) f = Some d' \<and> prefix d d'"
  by (auto simp: move_bytes_def split: option.split)

lemma call_close_grows:
  assumes "call_close f w = (res, w')" "fw_disk w f = Some d"
  shows "\<exists>d'. fw_disk w' f = Some d' \<and> prefix d d'"
  using assms move_bytes_grows [of "answered w" f d] by (auto simp: call_close_def Let_def)

text \<open>A file once its handle was closed, unless it was removed.\<close>

definition closed_file :: "spill_world \<Rightarrow> nat \<Rightarrow> bool \<Rightarrow> bytes \<Rightarrow> bytes \<Rightarrow> spill_world \<Rightarrow> bool" where
  "closed_file w0 f keep lo hi w \<longleftrightarrow>
    only_file w0 f w \<and> fw_handles w f = Some \<lparr>hd_keep = keep, hd_closed = True\<rparr> \<and> fw_pending w f = None \<and>
    fw_answers w = fw_answers w0 \<and>
    (keep \<longrightarrow> (\<exists>d. fw_disk w f = Some d \<and> prefix lo d \<and> prefix d hi)) \<and>
    (\<not> keep \<and> unlinks_ok w0 \<longrightarrow> fw_disk w f = None)"

lemma handle_close_first:
  assumes "only_file w0 f w" "fw_handles w f = Some \<lparr>hd_keep = keep, hd_closed = False\<rparr>" "fw_answers w = fw_answers w0"
    and "keep \<longrightarrow> file_at f hi w \<and> fw_disk w f = Some lo"
    and "rm \<longleftrightarrow> \<not> keep \<or> rm"
  shows "closed_file w0 f keep lo hi (handle_close rm f w)"
proof -
  let ?v = "w\<lparr>fw_handles := (fw_handles w)(f := Some \<lparr>hd_keep = keep, hd_closed = True\<rparr>)\<rparr>"
  obtain r w1 where cl: "call_close f ?v = (r, w1)" by fastforce
  have d1: "differs_at f ?v w1" "fw_pending w1 f = None" using call_close_effect(1) [OF cl] by simp_all
  have w1: "only_file w0 f w1" "fw_handles w1 f = Some \<lparr>hd_keep = keep, hd_closed = True\<rparr>" "fw_answers w1 = fw_answers w0"
    using assms(1,3) d1(1) by (simp_all add: only_file_def differs_at_def)
  have kept: "\<exists>d. fw_disk w1 f = Some d \<and> prefix lo d \<and> prefix d hi" if keep
  proof -
    have "file_at f hi ?v" "fw_disk ?v f = Some lo"
      using assms(4) that by (auto simp: file_at_def)
    then show ?thesis
      using call_close_effect(2) [OF cl] call_close_grows [OF cl] by fastforce
  qed
  have step: "handle_close rm f w = (if rm \<and> \<not> keep then snd (call_unlink f w1) else w1)"
    using assms(2) cl by (simp add: handle_close_def)
  show ?thesis
  proof (cases keep)
    case True
    then show ?thesis using w1 d1(2) kept by (simp add: step closed_file_def)
  next
    case False
    obtain r2 w2 where un: "call_unlink f w1 = (r2, w2)" by fastforce
    have d2: "differs_at f w1 w2" "fw_pending w2 = fw_pending w1" "unlinks_ok w1 \<longrightarrow> fw_disk w2 f = None"
      using call_unlink_effect [OF un] by simp_all
    have "unlinks_ok w1 = unlinks_ok w0" using w1(3) by (simp add: unlinks_ok_def)
    moreover have "handle_close rm f w = w2" using step False assms(5) un by simp
    ultimately show ?thesis
      using False d2 w1 d1(2) only_file_differs [OF w1(1) d2(1)]
      by (simp add: closed_file_def differs_at_def)
  qed
qed

lemma handle_close_again:
  assumes "closed_file w0 f keep lo hi w"
  shows "closed_file w0 f keep lo hi (handle_close rm f w)"
proof -
  obtain r w1 where un: "call_unlink f w = (r, w1)" by fastforce
  have d: "differs_at f w w1" "fw_pending w1 = fw_pending w" "unlinks_ok w \<longrightarrow> fw_disk w1 f = None"
    using call_unlink_effect [OF un] by simp_all
  have "handle_close rm f w = (if rm \<and> \<not> keep then w1 else w)"
    using assms un by (simp add: closed_file_def handle_close_def)
  moreover have "closed_file w0 f keep lo hi w1" if "\<not> keep"
    using assms d that only_file_differs [OF _ d(1), of w0] by (simp add: closed_file_def differs_at_def unlinks_ok_def)
  ultimately show ?thesis using assms by simp
qed

lemma closed_file_removed:
  assumes "closed_file w0 f False lo hi w" "unlinks_ok w0"
  shows "fw_disk w = fw_disk w0 \<and> fw_pending w = fw_pending w0"
  using assms by (intro only_file_gone) (auto simp: closed_file_def)

lemma closed_file_kept:
  assumes "closed_file w0 f True lo hi w"
  shows "fw_pending w = fw_pending w0 \<and> (\<exists>d. fw_disk w = (fw_disk w0)(f := Some d) \<and> prefix lo d \<and> prefix d hi)"
proof -
  from assms obtain d where d: "fw_disk w f = Some d" "prefix lo d" "prefix d hi" by (auto simp: closed_file_def)
  have "(fw_disk w)(f := Some d) = fw_disk w" "(fw_pending w)(f := None) = fw_pending w"
    using assms d by (auto simp: closed_file_def)
  then have "fw_disk w = ((fw_disk w)(f := None))(f := Some d)" "fw_pending w = (fw_pending w)(f := None)"
    by simp_all
  then show ?thesis using assms d by (metis closed_file_def only_file_def)
qed


lemma finalize_in_file:
  assumes at: "in_file w0 exact f self w h"
    and result: "case res of Returned (Inr x) \<Rightarrow> xf_handle x = Some f | _ \<Rightarrow> True"
  shows "\<exists>lo hi. fw_disk w f = Some lo \<and> prefix hi h \<and>
    closed_file w0 f (fb_keep_file (xa_policy self)) lo hi (finalize_capture_handles res self w)"
proof -
  let ?k = "fb_keep_file (xa_policy self)"
  obtain hi where hi: "prefix hi h" "file_at f hi w" using at by (auto simp: in_file_def)
  then obtain lo where lo: "fw_disk w f = Some lo" by (auto simp: file_at_def)
  have held: "xa_handle self = Some f" "fw_handles w f = Some \<lparr>hd_keep = ?k, hd_closed = False\<rparr>"
    and base: "only_file w0 f w" "fw_answers w = fw_answers w0"
    using at by (simp_all add: in_file_def)
  have first: "closed_file w0 f ?k lo hi (handle_close rm f w)" if "rm \<longleftrightarrow> \<not> ?k \<or> rm" for rm
    using handle_close_first [OF base(1) held(2) base(2) _ that] hi lo by simp
  have "closed_file w0 f ?k lo hi (finalize_capture_handles res self w)"
  proof (cases "\<exists>x. res = Returned (Inr x)")
    case True
    then have "finalize_drain_handle (case res of Returned (Inr x) \<Rightarrow> Some x | _ \<Rightarrow> None) w = handle_close True f w"
      using result by (auto simp: finalize_drain_handle_def)
    then have "finalize_capture_handles res self w = file_cleanup self (handle_close True f w)"
      by (simp add: finalize_capture_handles_def)
    then show ?thesis
      using handle_close_again [OF first [of True]] held(1) by (simp add: file_cleanup_def)
  next
    case False
    then have "finalize_capture_handles res self w = file_cleanup self w"
      by (auto simp: finalize_capture_handles_def finalize_drain_handle_def split: awaited.split sum.split)
    then show ?thesis
      using first [of "\<not> ?k"] held by (simp add: file_cleanup_def)
  qed
  then show ?thesis using lo hi(1) by blast
qed

lemma finalize_half_spilled:
  assumes at: "half_spilled w0 self w h" and ok: "unlinks_ok w0"
    and no_handle: "case res of Returned (Inr x) \<Rightarrow> xf_handle x = None | _ \<Rightarrow> True"
  shows "fw_disk (finalize_capture_handles res self w) = fw_disk w0 \<and>
    fw_pending (finalize_capture_handles res self w) = fw_pending w0"
proof -
  have drained: "finalize_drain_handle (case res of Returned (Inr x) \<Rightarrow> Some x | _ \<Rightarrow> None) w = w"
    using no_handle by (auto simp: finalize_drain_handle_def split: awaited.splits sum.splits)
  show ?thesis
  proof (cases "xa_handle self")
    case None
    then show ?thesis
      using assms drained by (simp add: half_spilled_def finalize_capture_handles_def file_cleanup_def)
  next
    case (Some f)
    then have held: "only_file w0 f w" "fw_handles w f = Some \<lparr>hd_keep = False, hd_closed = False\<rparr>"
      "fw_answers w = fw_answers w0"
      using at by (simp_all add: half_spilled_def)
    have "finalize_capture_handles res self w = handle_close True f w"
      using Some held(2) drained by (simp add: finalize_capture_handles_def file_cleanup_def)
    with closed_file_removed [OF handle_close_first [OF held, of "[]" "[]" True] ok] show ?thesis
      by simp
  qed
qed

section \<open>Properties\<close>

text \<open>A filesystem on which one numbered call fails after accepting one byte.\<close>

definition failing_call :: "nat option \<Rightarrow> io_call \<Rightarrow> nat \<Rightarrow> io_outcome" where
  "failing_call bad call n =
    \<lparr>io_error = (if bad = Some n then Some ''OSError'' else None), io_accepted = 1, io_moved = 0, io_cancelled = False,
      io_ended_first = False\<rparr>"

definition empty_world :: "nat option \<Rightarrow> spill_world" where
  "empty_world bad =
    \<lparr>fw_disk = (\<lambda>_. None), fw_pending = (\<lambda>_. None), fw_handles = (\<lambda>_. None), fw_next = 0,
     fw_answers = failing_call bad, fw_calls = 0, fw_events = []\<rparr>"

definition small_threshold :: "bool \<Rightarrow> file_backed_capture" where
  "small_threshold keep =
    \<lparr>fb_spill_threshold_bytes = Some (Exact_int 2), fb_directory = None, fb_keep_file = keep\<rparr>"

definition bytes_settings :: decode_settings where
  "bytes_settings = \<lparr>ds_encoding = [], ds_errors = [], ds_capture_bytes = True\<rparr>"

lemmas capture_run_defs =
  drain_capture_def file_finalize_def finalize_spilled_def flush_before_reading_def read_back_def file_absorb_def
  append_chunk_def spill_def should_spill_def spill_threshold_def create_published_spill_def create_spill_def
  adopt_spill_def publish_spill_def promote_provisional_spill_def fail_storage_def call_write_def call_flush_def
  call_read_def move_bytes_def buffer_bytes_def pending_length_def ending_def next_answer_def answered_def
  new_file_accumulator_def run_shielded_step_def failing_call_def empty_world_def small_threshold_def
  bytes_settings_def

lemma new_names_unused_empty_world: "new_names_unused (empty_world bad)"
  by (simp add: new_names_unused_def empty_world_def)

text \<open>A filesystem on which one numbered call succeeds while the caller is cancelled.\<close>

definition cancelled_call_world :: "nat \<Rightarrow> spill_world" where
  "cancelled_call_world k = (empty_world None)\<lparr>fw_answers := (\<lambda>call n.
    \<lparr>io_error = None, io_accepted = 0, io_moved = 0, io_cancelled = (n = k), io_ended_first = False\<rparr>)\<rparr>"



text \<open>(C14) No spill file leaks.  When every removal succeeds, then after the run has closed the result's
  handle and cleaned the sink up, wherever the drain failed or was cancelled, no writer is open and the
  disk is as it was before the capture, except that a capture with \<open>keep_file\<close> leaves its promoted
  file, which holds a prefix of the stream: if the result says that storage did not fail, all of it, or, when an
  absorb was cancelled and hid no failing write, all that was absorbed.\<close>

theorem spill_file_never_leaks:
  assumes "new_names_unused w" "unlinks_ok w"
    and "drain_capture r policy stream settings chunks w = (res, self, w1)"
    and "finalize_capture_handles res self w1 = w2"
  shows "fw_pending w2 = fw_pending w \<and>
    (fw_disk w2 = fw_disk w \<or>
     fb_keep_file policy \<and>
     (\<exists>f d. xa_path self = Some f \<and> fw_disk w2 = (fw_disk w)(f := Some d) \<and> prefix d (concat chunks) \<and>
       (\<forall>x. res = Returned (Inr x) \<longrightarrow> cs_storage_failed (xf_capture x) \<or>
         (if absorbs_all policy stream settings chunks w then d = concat chunks
          else d = take (cs_total_bytes (xf_capture x)) (concat chunks) \<or>
            (\<exists>n. hides_failure (fw_answers w Io_write n))))))"
proof -
  let ?all = "absorbs_all policy stream settings chunks w"
  obtain k where k: "k \<le> length chunks" "configured policy stream settings self" "?all \<longrightarrow> k = length chunks"
    and ended: "drain_ended r settings w (?all \<or> writes_told w) (concat (take k chunks)) res self w1"
    using drain_capture_state [OF assms(1,3)] by blast
  let ?h = "concat (take k chunks)"
  have whole: "concat chunks = ?h @ concat (drop k chunks)"
    by (metis append_take_drop_id concat_append)
  from ended consider
      (memory) "in_memory w self w1 ?h" "res = Returned (finalize_buffered r self)"
    | (half) "half_spilled w self w1 ?h" "res = Returned (finalize_buffered r self)"
    | (stored) f where "in_file w (?all \<or> writes_told w) f self w1 ?h"
        "case res of Returned (Inr x) \<Rightarrow> xf_handle x = Some f | _ \<Rightarrow> True"
        "\<forall>x. res = Returned (Inr x) \<longrightarrow> retained (?all \<or> writes_told w) settings ?h x w1 \<and> xf_handle x = Some f"
    unfolding drain_ended_def by (elim disjE conjE exE) simp_all
  then show ?thesis
  proof cases
    case half
    have "case res of Returned (Inr x) \<Rightarrow> xf_handle x = None | _ \<Rightarrow> True"
      using half(2) buffered_payload [OF disjI2 [OF half(1)] k(2), of r] by (auto split: sum.split)
    from finalize_half_spilled [OF half(1) assms(2) this] show ?thesis unfolding assms(4) by blast
  next
    case memory
    then have "fw_disk w1 = fw_disk w" "fw_pending w1 = fw_pending w" "xa_handle self = None"
      using assms(2) by (simp_all add: in_memory_def)
    moreover have "w2 = w1"
      using memory(2) buffered_payload [OF disjI1 [OF memory(1)] k(2), of r] assms(4) calculation(3)
      by (simp add: finalize_capture_handles_def finalize_drain_handle_def file_cleanup_def split: sum.splits)
    ultimately show ?thesis by simp
  next
    case stored
    have policy: "xa_policy self = policy" using k(2) by (simp add: configured_def)
    obtain lo hi where lh: "fw_disk w1 f = Some lo" "prefix hi ?h"
      and closed: "closed_file w f (fb_keep_file policy) lo hi w2"
      using finalize_in_file [OF stored(1,2)] unfolding assms(4) policy by blast
    show ?thesis
    proof (cases "fb_keep_file policy")
      case False
      then show ?thesis using closed_file_removed [of w f lo hi w2] closed assms(2) by simp
    next
      case True
      then obtain d where d: "fw_pending w2 = fw_pending w" "fw_disk w2 = (fw_disk w)(f := Some d)" "prefix lo d" "prefix d hi"
        using closed_file_kept [of w f lo hi w2] closed by auto
      have "prefix d ?h" using d(4) lh(2) by (rule prefix_order.trans)
      then have "prefix d (concat chunks)" by (simp add: whole)
      moreover have "if ?all then d = concat chunks
          else d = take (cs_total_bytes (xf_capture x)) (concat chunks) \<or> (\<exists>n. hides_failure (fw_answers w Io_write n))"
        if x: "res = Returned (Inr x)" "\<not> cs_storage_failed (xf_capture x)" for x
      proof (cases "?all \<or> writes_told w")
        case True
        then have "lo = ?h" "cs_total_bytes (xf_capture x) = length ?h"
          using stored(3) x lh(1) by (auto simp: retained_def)
        then have "d = ?h" "take (cs_total_bytes (xf_capture x)) (concat chunks) = ?h"
          using d(3) \<open>prefix d ?h\<close> by (auto simp: whole intro: prefix_order.antisym)
        then show ?thesis using k(3) by auto
      next
        case False
        then show ?thesis by (auto simp: writes_told_def)
      qed
      moreover have "xa_path self = Some f" using stored(1) by (simp add: in_file_def)
      ultimately show ?thesis
        using True d(1,2) by blast
    qed
  qed
qed

lemma spill_file_never_leaks_witness:
  "\<exists>d. fw_disk (case drain_capture utf8_registry (small_threshold True) Stdout bytes_settings [[1, 2, 3], [4, 5]]
      (empty_world None) of (res, self, w) \<Rightarrow> finalize_capture_handles res self w) = [0 \<mapsto> d] \<and>
    prefix d [1, 2, 3, 4, 5]"
proof -
  obtain res self w1 where run: "drain_capture utf8_registry (small_threshold True) Stdout bytes_settings
      [[1, 2, 3], [4, 5]] (empty_world None) = (res, self, w1)"
    using prod_cases3 by blast
  have path: "xa_path self = Some 0" and kept: "fw_disk (finalize_capture_handles res self w1) \<noteq> Map.empty"
    using run by (auto simp: capture_run_defs Let_def finalize_capture_handles_def finalize_drain_handle_def
        file_cleanup_def handle_close_def call_close_def fun_eq_iff)
  have "unlinks_ok (empty_world None)" "fw_disk (empty_world None) = Map.empty"
    by (simp_all add: unlinks_ok_def empty_world_def failing_call_def)
  then show ?thesis
    using spill_file_never_leaks [OF new_names_unused_empty_world _ run refl] path kept run by auto
qed

end
