(* ===== verification/Telemetry_Events.thy ===== *)
theory Telemetry_Events
  imports Complex_Main Redaction Env_Overlay Github_Sink
begin

text \<open>
  Execution events (\<open>events.py\<close>, \<open>_event_taxonomy.py\<close>) and their projection to log records and span
  attributes (\<open>adapters/_support.py\<close>, \<open>_logging_projection.py\<close>, \<open>_tracing_attributes.py\<close>,
  \<open>_tracing_fields.py\<close>, the hook of \<open>logging_adapter.py\<close>).  The redacted fields of an event are those of
  the redaction's \<open>exec_event\<close>; the others are its rest.  A value a backend receives is tagged with its
  Python type, so that a member of an enumeration and its plain text are told apart.  A formatted
  message is the list of the pieces of the f-string with their conversions.
\<close>

lemma lit_inject [simp]: "lit s = lit t \<longleftrightarrow> s = t"
proof -
  have "inj (of_char :: char \<Rightarrow> nat)"
    by (rule injI) simp
  then show ?thesis by (simp add: lit_def inj_map_eq_map)
qed

section \<open>Events\<close>

datatype exec_phase =
    Ph_plan | Ph_start | Ph_stdout | Ph_stderr | Ph_exit | Ph_settled | Ph_stdin | Ph_stdin_error
  | Ph_stdio_error | Ph_timeout | Ph_teardown_error | Ph_capture_eof_grace_expired
  | Ph_pipeline_fail_fast | Ph_group_teardown | Ph_unknown ustr

fun phase_name :: "exec_phase \<Rightarrow> ustr" where
  "phase_name Ph_plan = lit ''plan''"
| "phase_name Ph_start = lit ''start''"
| "phase_name Ph_stdout = lit ''stdout''"
| "phase_name Ph_stderr = lit ''stderr''"
| "phase_name Ph_exit = lit ''exit''"
| "phase_name Ph_settled = lit ''settled''"
| "phase_name Ph_stdin = lit ''stdin''"
| "phase_name Ph_stdin_error = lit ''stdin_error''"
| "phase_name Ph_stdio_error = lit ''stdio_error''"
| "phase_name Ph_timeout = lit ''timeout''"
| "phase_name Ph_teardown_error = lit ''teardown_error''"
| "phase_name Ph_capture_eof_grace_expired = lit ''capture_eof_grace_expired''"
| "phase_name Ph_pipeline_fail_fast = lit ''pipeline_fail_fast''"
| "phase_name Ph_group_teardown = lit ''group_teardown''"
| "phase_name (Ph_unknown s) = s"

datatype group_outcome = Gt_unsignalable | Gt_settlement_timeout | Gt_signal_refused

fun group_outcome_value :: "group_outcome \<Rightarrow> ustr" where
  "group_outcome_value Gt_unsignalable = lit ''unsignalable''"
| "group_outcome_value Gt_settlement_timeout = lit ''settlement_timeout''"
| "group_outcome_value Gt_signal_refused = lit ''signal_refused''"

datatype resource_usage_mode = Wait4_child | Aggregate_cpu_delta | Usage_unavailable

fun resource_mode_value :: "resource_usage_mode \<Rightarrow> ustr" where
  "resource_mode_value Wait4_child = lit ''wait4_child''"
| "resource_mode_value Aggregate_cpu_delta = lit ''aggregate_cpu_delta''"
| "resource_mode_value Usage_unavailable = lit ''unavailable''"

datatype capture_mode = Mode_text | Mode_bytes

fun capture_mode_value :: "capture_mode \<Rightarrow> ustr" where
  "capture_mode_value Mode_text = lit ''text''"
| "capture_mode_value Mode_bytes = lit ''bytes''"

fun env_mode_text :: "env_mode \<Rightarrow> ustr" where
  "env_mode_text Inherit = lit ''inherit''"
| "env_mode_text Overlay = lit ''overlay''"
| "env_mode_text Replace = lit ''replace''"

datatype failure_category =
  Cat_producer | Cat_invalid_chunk | Cat_encoder | Cat_pipe | Cat_owned_path_open | Cat_borrowed_flush

fun failure_category_value :: "failure_category \<Rightarrow> ustr" where
  "failure_category_value Cat_producer = lit ''producer''"
| "failure_category_value Cat_invalid_chunk = lit ''invalid_chunk''"
| "failure_category_value Cat_encoder = lit ''encoder''"
| "failure_category_value Cat_pipe = lit ''pipe''"
| "failure_category_value Cat_owned_path_open = lit ''owned_path_open''"
| "failure_category_value Cat_borrowed_flush = lit ''borrowed_flush''"

text \<open>The fields a redaction leaves alone; a tag value other than a string is its \<open>str\<close>.\<close>

record event_rest =
  er_phase :: exec_phase
  er_program :: ustr
  er_cwd :: "ustr option"
  er_pid :: "int option"
  er_exit_code :: "int option"
  er_duration_s :: "rat option"
  er_byte_count :: "int option"
  er_operation :: "ustr option"
  er_error_type :: "ustr option"
  er_exec_id :: "nat option"
  er_project :: "ustr option"
  er_timeout_s :: "rat option"
  er_timeout_mode :: "ustr option"
  er_stage_index :: "int option"
  er_stage_count :: "int option"
  er_eof_grace_s :: "rat option"
  er_pending_readers :: "int option"
  er_max_rss_bytes :: "int option"
  er_user_cpu_seconds :: "rat option"
  er_system_cpu_seconds :: "rat option"
  er_resource_usage_mode :: "resource_usage_mode option"
  er_env_mode :: "env_mode option"
  er_resolved_path :: "ustr option"
  er_capture_mode :: "capture_mode option"
  er_owns_group :: "bool option"
  er_error_category :: "failure_category option"
  er_group_outcome :: "group_outcome option"
  er_settle_s :: "rat option"
  er_terminal_outcome :: "terminal_outcome option"

datatype tag_object = None_object | Other_object ustr

type_synonym telemetry_event = "(unit, tag_object, event_rest) exec_event"

abbreviation rest :: "telemetry_event \<Rightarrow> event_rest" where
  "rest \<equiv> ev_rest"

abbreviation phase_of :: "telemetry_event \<Rightarrow> exec_phase" where
  "phase_of event \<equiv> er_phase (ev_rest event)"

section \<open>The common projection\<close>

datatype attr =
    Attr_text ustr
  | Attr_member ustr
  | Attr_int int
  | Attr_float rat
  | Attr_bool bool
  | Attr_list "ustr list"
  | Attr_tuple "ustr list"
  | Attr_token nat
  | Attr_tag "tag_object text_or_other"
  | Attr_none

type_synonym attrs = "(ustr, attr) pydict"

text \<open>Keeping the fields that are not \<open>None\<close>.\<close>

fun present :: "(ustr \<times> attr option) list \<Rightarrow> (ustr \<times> attr) list" where
  "present [] = []"
| "present ((name, None) # entries) = present entries"
| "present ((name, Some v) # entries) = (name, v) # present entries"

definition rendered_enum_fields :: "telemetry_event \<Rightarrow> (ustr \<times> attr option) list" where
  "rendered_enum_fields event =
    [(lit ''resource_usage_mode'', map_option (Attr_text \<circ> resource_mode_value) (er_resource_usage_mode (rest event))),
     (lit ''env_mode'', map_option (Attr_text \<circ> env_mode_text) (er_env_mode (rest event))),
     (lit ''capture_mode'', map_option (Attr_text \<circ> capture_mode_value) (er_capture_mode (rest event))),
     (lit ''error_category'', map_option (Attr_text \<circ> failure_category_value) (er_error_category (rest event)))]"

definition verbatim_fields :: "telemetry_event \<Rightarrow> (ustr \<times> attr option) list" where
  "verbatim_fields event =
    [(lit ''exit_code'', map_option Attr_int (er_exit_code (rest event))),
     (lit ''duration_s'', map_option Attr_float (er_duration_s (rest event))),
     (lit ''stage_index'', map_option Attr_int (er_stage_index (rest event))),
     (lit ''stage_count'', map_option Attr_int (er_stage_count (rest event))),
     (lit ''line'', map_option Attr_text (ev_line event)),
     (lit ''max_rss_bytes'', map_option Attr_int (er_max_rss_bytes (rest event))),
     (lit ''user_cpu_seconds'', map_option Attr_float (er_user_cpu_seconds (rest event))),
     (lit ''system_cpu_seconds'', map_option Attr_float (er_system_cpu_seconds (rest event))),
     (lit ''resolved_path'', map_option Attr_text (er_resolved_path (rest event)))]"

definition optional_common_fields :: "telemetry_event \<Rightarrow> (ustr \<Rightarrow> ustr) \<Rightarrow> (ustr \<times> attr) list" where
  "optional_common_fields event name =
    map (apfst name) (present
      ([(lit ''pid'', map_option Attr_int (er_pid (rest event))),
        (lit ''cwd'', map_option Attr_text (er_cwd (rest event))),
        (lit ''terminal_outcome'', map_option (Attr_text \<circ> outcome_value) (er_terminal_outcome (rest event)))]
       @ rendered_enum_fields event @ verbatim_fields event))"

definition event_common_fields ::
  "telemetry_event \<Rightarrow> (ustr \<Rightarrow> ustr) \<Rightarrow> (ustr list \<Rightarrow> attr) \<Rightarrow> (ustr \<times> attr) list" where
  "event_common_fields event name argv =
    (name (lit ''program''), Attr_text (er_program (rest event))) #
    (name (lit ''argv''), argv (ev_argv event)) # optional_common_fields event name"

definition prefixed :: "string \<Rightarrow> ustr \<Rightarrow> ustr" where
  "prefixed marker field = lit marker @ field"

definition project_tag :: "telemetry_event \<Rightarrow> ustr option" where
  "project_tag event =
    (case map_of (ev_tags event) (lit ''project'') of
       None \<Rightarrow> None
     | Some (Other_item None_object) \<Rightarrow> None
     | Some (Other_item (Other_object s)) \<Rightarrow> Some s
     | Some (Text_item s) \<Rightarrow> Some s)"

section \<open>Log records\<close>

definition bounded_extra :: "telemetry_event \<Rightarrow> (ustr \<times> attr option) list \<Rightarrow> attrs" where
  "bounded_extra event optional_fields =
    dict_update
      [(lit ''cuprum_phase'', Attr_text (phase_name (phase_of event))),
       (lit ''cuprum_program'', Attr_text (er_program (rest event)))]
      (present optional_fields)"

definition correlation_fields :: "telemetry_event \<Rightarrow> (ustr \<times> attr option) list" where
  "correlation_fields event =
    [(lit ''cuprum_pid'', map_option Attr_int (er_pid (rest event))),
     (lit ''cuprum_project'', map_option Attr_text (er_project (rest event))),
     (lit ''cuprum_exec_id'', map_option Attr_token (er_exec_id (rest event))),
     (lit ''cuprum_operation'', map_option Attr_text (er_operation (rest event)))]"

definition group_teardown_extra :: "telemetry_event \<Rightarrow> attrs" where
  "group_teardown_extra event =
    bounded_extra event (correlation_fields event @
      [(lit ''cuprum_owns_group'', map_option Attr_bool (er_owns_group (rest event))),
       (lit ''cuprum_group_outcome'', map_option (Attr_text \<circ> group_outcome_value) (er_group_outcome (rest event))),
       (lit ''cuprum_settle_s'', map_option Attr_float (er_settle_s (rest event)))])"

definition capture_eof_grace_extra :: "telemetry_event \<Rightarrow> attrs" where
  "capture_eof_grace_extra event =
    bounded_extra event (correlation_fields event @
      [(lit ''cuprum_eof_grace_s'', map_option Attr_float (er_eof_grace_s (rest event))),
       (lit ''cuprum_pending_readers'', map_option Attr_int (er_pending_readers (rest event))),
       (lit ''cuprum_env_mode'', map_option (Attr_text \<circ> env_mode_text) (er_env_mode (rest event))),
       (lit ''cuprum_capture_mode'', map_option (Attr_text \<circ> capture_mode_value) (er_capture_mode (rest event)))])"

definition stdio_error_extra :: "telemetry_event \<Rightarrow> attrs" where
  "stdio_error_extra event =
    bounded_extra event
      [(lit ''cuprum_pid'', map_option Attr_int (er_pid (rest event))),
       (lit ''cuprum_operation'', map_option Attr_text (er_operation (rest event))),
       (lit ''cuprum_error_type'', map_option Attr_text (er_error_type (rest event))),
       (lit ''cuprum_error_category'', map_option (Attr_text \<circ> failure_category_value) (er_error_category (rest event))),
       (lit ''cuprum_exec_id'', map_option Attr_token (er_exec_id (rest event)))]"

definition build_extra :: "telemetry_event \<Rightarrow> attrs" where
  "build_extra event =
    (if phase_of event = Ph_capture_eof_grace_expired then capture_eof_grace_extra event
     else if phase_of event = Ph_stdio_error then stdio_error_extra event
     else if phase_of event = Ph_group_teardown then group_teardown_extra event
     else
       let extra = [(lit ''cuprum_phase'', Attr_text (phase_name (phase_of event)))];
           common = event_common_fields event (prefixed ''cuprum_'') Attr_tuple
       in if phase_of event = Ph_pipeline_fail_fast then
            dict_set (lit ''cuprum_exec_id'')
              (case er_exec_id (rest event) of None \<Rightarrow> Attr_none | Some t \<Rightarrow> Attr_token t)
              (dict_update extra (filter (\<lambda>(name, v). name \<noteq> lit ''cuprum_argv'') common))
          else dict_update extra common)"

text \<open>The pieces of a message: text, \<open>str\<close> of a field (which may be \<open>None\<close>), \<open>repr\<close>, six decimals.\<close>

datatype message_piece =
    Piece_text ustr
  | Piece_str "attr option"
  | Piece_repr "attr option"
  | Piece_seconds rat

definition format_duration :: "rat option \<Rightarrow> message_piece" where
  "format_duration duration_s =
    (case duration_s of None \<Rightarrow> Piece_text (lit ''unknown'') | Some d \<Rightarrow> Piece_seconds d)"

definition format_exit_message :: "telemetry_event \<Rightarrow> message_piece list" where
  "format_exit_message event =
    [Piece_text (lit ''cuprum.exit program=''), Piece_text (er_program (rest event)),
     Piece_text (lit '' pid=''), Piece_str (map_option Attr_int (er_pid (rest event))),
     Piece_text (lit '' exit_code=''), Piece_str (map_option Attr_int (er_exit_code (rest event))),
     Piece_text (lit '' duration_s=''), format_duration (er_duration_s (rest event))]"

definition format_fail_fast_message :: "telemetry_event \<Rightarrow> message_piece list" where
  "format_fail_fast_message event =
    [Piece_text (lit ''cuprum.pipeline_fail_fast program=''), Piece_text (er_program (rest event)),
     Piece_text (lit '' stage_index=''), Piece_str (map_option Attr_int (er_stage_index (rest event))),
     Piece_text (lit '' stage_count=''), Piece_str (map_option Attr_int (er_stage_count (rest event))),
     Piece_text (lit '' exit_code=''), Piece_str (map_option Attr_int (er_exit_code (rest event))),
     Piece_text (lit '' duration_s=''), format_duration (er_duration_s (rest event))]"

definition format_message :: "telemetry_event \<Rightarrow> message_piece list" where
  "format_message event =
    (let program = Piece_text (er_program (rest event)); pid = Piece_str (map_option Attr_int (er_pid (rest event)))
     in case phase_of event of
          Ph_plan \<Rightarrow> [Piece_text (lit ''cuprum.plan program=''), program, Piece_text (lit '' argv=''),
            Piece_repr (Some (Attr_tuple (ev_argv event)))]
        | Ph_start \<Rightarrow> [Piece_text (lit ''cuprum.start program=''), program, Piece_text (lit '' pid=''), pid]
        | Ph_stdout \<Rightarrow> [Piece_text (lit ''cuprum.stdout pid=''), pid, Piece_text (lit '' line=''),
            Piece_repr (map_option Attr_text (ev_line event))]
        | Ph_stderr \<Rightarrow> [Piece_text (lit ''cuprum.stderr pid=''), pid, Piece_text (lit '' line=''),
            Piece_repr (map_option Attr_text (ev_line event))]
        | Ph_exit \<Rightarrow> format_exit_message event
        | Ph_settled \<Rightarrow> [Piece_text (lit ''cuprum.settled program=''), program,
            Piece_text (lit '' terminal_outcome=''),
            Piece_str (map_option (Attr_text \<circ> outcome_value) (er_terminal_outcome (rest event)))]
        | Ph_pipeline_fail_fast \<Rightarrow> format_fail_fast_message event
        | p \<Rightarrow> [Piece_text (lit ''cuprum.'' @ phase_name p), Piece_text (lit '' program=''), program])"

text \<open>Levels of the logging module.\<close>

record log_levels =
  lv_plan :: nat
  lv_start :: nat
  lv_output :: nat
  lv_exit :: nat
  lv_fail_fast :: nat
  lv_group_teardown :: nat
  lv_stdio_error :: nat

definition default_log_levels :: log_levels where
  "default_log_levels =
    \<lparr>lv_plan = 10, lv_start = 20, lv_output = 10, lv_exit = 20, lv_fail_fast = 30, lv_group_teardown = 30,
     lv_stdio_error = 30\<rparr>"

definition level_for :: "log_levels \<Rightarrow> exec_phase \<Rightarrow> nat" where
  "level_for levels p =
    (case p of
       Ph_plan \<Rightarrow> lv_plan levels
     | Ph_start \<Rightarrow> lv_start levels
     | Ph_stdout \<Rightarrow> lv_output levels
     | Ph_stderr \<Rightarrow> lv_output levels
     | Ph_exit \<Rightarrow> lv_exit levels
     | Ph_settled \<Rightarrow> lv_exit levels
     | Ph_pipeline_fail_fast \<Rightarrow> lv_fail_fast levels
     | Ph_group_teardown \<Rightarrow> lv_group_teardown levels
     | Ph_stdio_error \<Rightarrow> lv_stdio_error levels
     | _ \<Rightarrow> 10)"

type_synonym log_record = "nat \<times> message_piece list \<times> attrs"

text \<open>
  The hook: nothing is redacted or formatted for a level the logger drops.  \<open>threshold\<close> is the effective
  level of the logger.
\<close>

definition structured_logging_hook ::
  "('p \<Rightarrow> ustr \<Rightarrow> ustr + span list) \<Rightarrow> nat \<Rightarrow> log_levels \<Rightarrow> 'p redaction_policy option \<Rightarrow> telemetry_event \<Rightarrow>
    redaction_error + log_record option" where
  "structured_logging_hook finditer threshold levels redaction event =
    (let level = level_for levels (phase_of event)
     in if level < threshold then Inr None
        else rbind (case redaction of None \<Rightarrow> Inr event | Some p \<Rightarrow> redact_event finditer p event) (\<lambda>event.
          Inr (Some (level, format_message event, build_extra event))))"

section \<open>Span attributes\<close>

definition build_tracing_attributes :: "telemetry_event \<Rightarrow> ustr option \<Rightarrow> attrs" where
  "build_tracing_attributes event original_project_tag =
    (let attrs = dict_update [] (event_common_fields event (prefixed ''cuprum.'') Attr_list);
         tag = project_tag event;
         project =
           (if original_project_tag \<noteq> None \<and> tag \<noteq> original_project_tag then
              (case er_project (rest event) of None \<Rightarrow> tag | Some p \<Rightarrow> Some p)
            else tag);
         attrs = (case project of None \<Rightarrow> attrs | Some p \<Rightarrow> dict_set (lit ''cuprum.project'') (Attr_text p) attrs);
         attrs = (case map_of (ev_tags event) (lit ''pipeline_stage_index'') of
           None \<Rightarrow> attrs | Some v \<Rightarrow> dict_set (lit ''cuprum.pipeline_stage_index'') (Attr_tag v) attrs)
     in case map_of (ev_tags event) (lit ''pipeline_stages'') of
          None \<Rightarrow> attrs | Some v \<Rightarrow> dict_set (lit ''cuprum.pipeline_stages'') (Attr_tag v) attrs)"

text \<open>\<open>_SPAN_FIELDS\<close>, with \<open>_ENUM_SPAN_FIELDS\<close> rendered.\<close>

definition span_event_attributes :: "telemetry_event \<Rightarrow> attrs" where
  "span_event_attributes event = present
    [(lit ''line'', map_option Attr_text (ev_line event)),
     (lit ''operation'', map_option Attr_text (er_operation (rest event))),
     (lit ''error_type'', map_option Attr_text (er_error_type (rest event))),
     (lit ''note'', map_option Attr_text (ev_note event)),
     (lit ''timeout_s'', map_option Attr_float (er_timeout_s (rest event))),
     (lit ''timeout_mode'', map_option Attr_text (er_timeout_mode (rest event))),
     (lit ''eof_grace_s'', map_option Attr_float (er_eof_grace_s (rest event))),
     (lit ''pending_readers'', map_option Attr_int (er_pending_readers (rest event))),
     (lit ''owns_group'', map_option Attr_bool (er_owns_group (rest event))),
     (lit ''group_outcome'', map_option (Attr_member \<circ> group_outcome_value) (er_group_outcome (rest event))),
     (lit ''settle_s'', map_option Attr_float (er_settle_s (rest event))),
     (lit ''error_category'', map_option (Attr_text \<circ> failure_category_value) (er_error_category (rest event)))]"

definition fail_fast_attributes :: "telemetry_event \<Rightarrow> attrs" where
  "fail_fast_attributes event = present
    [(lit ''stage_index'', map_option Attr_int (er_stage_index (rest event))),
     (lit ''stage_count'', map_option Attr_int (er_stage_count (rest event))),
     (lit ''exit_code'', map_option Attr_int (er_exit_code (rest event))),
     (lit ''duration_s'', map_option Attr_float (er_duration_s (rest event)))]"

text \<open>The attributes \<open>write_exit_attributes\<close> sets, in its order.\<close>

definition exit_attributes :: "telemetry_event \<Rightarrow> attrs" where
  "exit_attributes event = present
    [(lit ''cuprum.exit_code'', map_option Attr_int (er_exit_code (rest event))),
     (lit ''cuprum.duration_s'', map_option Attr_float (er_duration_s (rest event))),
     (lit ''cuprum.max_rss_bytes'', map_option Attr_int (er_max_rss_bytes (rest event))),
     (lit ''cuprum.user_cpu_seconds'', map_option Attr_float (er_user_cpu_seconds (rest event))),
     (lit ''cuprum.system_cpu_seconds'', map_option Attr_float (er_system_cpu_seconds (rest event))),
     (lit ''cuprum.resource_usage_mode'',
      map_option (Attr_member \<circ> resource_mode_value) (er_resource_usage_mode (rest event)))]"

end
