(* ===== verification/Telemetry_Metrics.thy ===== *)
theory Telemetry_Metrics
  imports Telemetry_Events Process_Teardown
begin

text \<open>
  The metrics adapters (\<open>adapters/_metrics_operations.py\<close>, \<open>metrics_adapter.py\<close>, \<open>control_metrics.py\<close>,
  \<open>echo_metrics.py\<close>, \<open>pump_metrics.py\<close>, \<open>line_stream_metrics.py\<close>, \<open>stream_metrics.py\<close>): which calls to
  the collector an event yields.  A field that a hand-made event may fill with anything else than a member of
  its enumeration is a \<open>loose\<close> value.
\<close>

section \<open>Operations\<close>

type_synonym labels = "(ustr, ustr) pydict"

datatype metric_op =
    Counter_op ustr rat labels
  | Histogram_op ustr rat labels

datatype metrics_error = Unhandled_metrics_phase ustr

definition phase_counters :: "exec_phase \<Rightarrow> ustr option" where
  "phase_counters p =
    (case p of
       Ph_start \<Rightarrow> Some (lit ''cuprum_executions_total'')
     | Ph_stdout \<Rightarrow> Some (lit ''cuprum_stdout_lines_total'')
     | Ph_stderr \<Rightarrow> Some (lit ''cuprum_stderr_lines_total'')
     | Ph_stdin_error \<Rightarrow> Some (lit ''cuprum_stdin_errors_total'')
     | Ph_stdio_error \<Rightarrow> Some (lit ''cuprum_stdio_errors_total'')
     | Ph_timeout \<Rightarrow> Some (lit ''cuprum_timeouts_total'')
     | Ph_teardown_error \<Rightarrow> Some (lit ''cuprum_teardown_errors_total'')
     | Ph_capture_eof_grace_expired \<Rightarrow> Some (lit ''cuprum_capture_eof_grace_expired_total'')
     | Ph_pipeline_fail_fast \<Rightarrow> Some (lit ''cuprum_pipeline_fail_fast_total'')
     | Ph_settled \<Rightarrow> Some (lit ''cuprum_terminal_outcomes_total'')
     | _ \<Rightarrow> None)"

definition env_mode_label :: "telemetry_event \<Rightarrow> labels" where
  "env_mode_label event =
    (case er_env_mode (rest event) of None \<Rightarrow> [] | Some m \<Rightarrow> [(lit ''env_mode'', env_mode_text m)])"

definition capture_mode_label :: "telemetry_event \<Rightarrow> labels" where
  "capture_mode_label event =
    (case er_capture_mode (rest event) of None \<Rightarrow> [] | Some m \<Rightarrow> [(lit ''capture_mode'', capture_mode_value m)])"

definition execution_mode_labels :: "telemetry_event \<Rightarrow> labels" where
  "execution_mode_labels event = dict_update (env_mode_label event) (capture_mode_label event)"

definition measured :: "ustr \<Rightarrow> rat option \<Rightarrow> labels \<Rightarrow> metric_op list" where
  "measured name figure labels = (case figure of None \<Rightarrow> [] | Some v \<Rightarrow> [Histogram_op name v labels])"

definition resource_operations :: "telemetry_event \<Rightarrow> metric_op list" where
  "resource_operations event =
    (case er_resource_usage_mode (rest event) of
       None \<Rightarrow> []
     | Some mode \<Rightarrow>
         let labels = [(lit ''resource_usage_mode'', resource_mode_value mode)]
         in Counter_op (lit ''cuprum_resource_usage_measurements_total'') 1 labels #
            measured (lit ''cuprum_child_max_rss_bytes'') (map_option of_int (er_max_rss_bytes (rest event))) labels @
            measured (lit ''cuprum_child_user_cpu_seconds'') (er_user_cpu_seconds (rest event)) labels @
            measured (lit ''cuprum_child_system_cpu_seconds'') (er_system_cpu_seconds (rest event)) labels)"

definition exit_operations :: "telemetry_event \<Rightarrow> metric_op list" where
  "exit_operations event =
    (case er_exit_code (rest event) of
       None \<Rightarrow> []
     | Some c \<Rightarrow> if c \<noteq> 0 then [Counter_op (lit ''cuprum_failures_total'') 1 (execution_mode_labels event)] else []) @
    measured (lit ''cuprum_duration_seconds'') (er_duration_s (rest event)) [] @
    resource_operations event"

definition settled_operations :: "telemetry_event \<Rightarrow> metric_op list" where
  "settled_operations event =
    (case er_terminal_outcome (rest event) of
       None \<Rightarrow> []
     | Some outcome \<Rightarrow>
         [Counter_op (lit ''cuprum_terminal_outcomes_total'') 1 [(lit ''terminal_outcome'', outcome_value outcome)]] @
         (if outcome \<noteq> Exit_zero
          then [Counter_op (lit ''cuprum_failures_total'') 1 (execution_mode_labels event)] else []) @
         measured (lit ''cuprum_duration_seconds'') (er_duration_s (rest event)) [])"

definition group_teardown_operations :: "telemetry_event \<Rightarrow> metric_op list" where
  "group_teardown_operations event =
    (case er_group_outcome (rest event) of
       None \<Rightarrow> [Counter_op (lit ''cuprum_group_teardowns_total'') 1 []]
     | Some outcome \<Rightarrow>
         Counter_op (lit ''cuprum_group_teardowns_total'') 1 [(lit ''outcome'', group_outcome_value outcome)] #
         measured (lit ''cuprum_group_settle_seconds'') (er_settle_s (rest event)) [])"

definition phase_operations :: "telemetry_event \<Rightarrow> metrics_error + metric_op list" where
  "phase_operations event =
    (let p = phase_of event
     in if p = Ph_exit then Inr (resource_operations event)
        else if p = Ph_settled then Inr (settled_operations event)
        else if p = Ph_group_teardown then Inr (group_teardown_operations event)
        else if p = Ph_stdio_error then
          let labels = (case er_error_category (rest event) of None \<Rightarrow> []
                | Some c \<Rightarrow> [(lit ''error_category'', failure_category_value c)])
          in Inr (case phase_counters Ph_stdio_error of None \<Rightarrow> [] | Some name \<Rightarrow> [Counter_op name 1 labels])
        else case phase_counters p of
          None \<Rightarrow> Inl (Unhandled_metrics_phase (phase_name p))
        | Some name \<Rightarrow> Inr [Counter_op name 1 (if p = Ph_start then execution_mode_labels event else [])])"

definition metric_operations :: "telemetry_event \<Rightarrow> metrics_error + metric_op list" where
  "metric_operations event =
    (case phase_of event of
       Ph_plan \<Rightarrow> Inr []
     | Ph_stdin \<Rightarrow> (case er_byte_count (rest event) of
         None \<Rightarrow> Inr []
       | Some n \<Rightarrow> Inr [Counter_op (lit ''cuprum_stdin_bytes_total'') (of_int n) []])
     | _ \<Rightarrow> phase_operations event)"

text \<open>\<open>x or "unknown"\<close>.\<close>

definition or_unknown :: "ustr option \<Rightarrow> ustr" where
  "or_unknown v = (case v of None \<Rightarrow> lit ''unknown'' | Some s \<Rightarrow> if s = [] then lit ''unknown'' else s)"

definition extract_labels :: "telemetry_event \<Rightarrow> labels" where
  "extract_labels event =
    [(lit ''program'', or_unknown (Some (er_program (rest event)))),
     (lit ''project'', or_unknown
       (if phase_of event = Ph_pipeline_fail_fast then er_project (rest event) else project_tag event))]"

fun with_labels :: "labels \<Rightarrow> metric_op \<Rightarrow> metric_op" where
  "with_labels labels (Counter_op name v extra) = Counter_op name v (dict_update labels extra)"
| "with_labels labels (Histogram_op name v extra) = Histogram_op name v (dict_update labels extra)"

text \<open>The calls one event makes, in their order.\<close>

definition metrics_calls :: "telemetry_event \<Rightarrow> metrics_error + metric_op list" where
  "metrics_calls event = rbind (metric_operations event) (\<lambda>ops. Inr (map (with_labels (extract_labels event)) ops))"

section \<open>The in-memory collector\<close>

record in_memory_metrics =
  im_counters :: "(ustr, rat) pydict"
  im_histograms :: "(ustr, rat list) pydict"

definition no_metrics :: in_memory_metrics where
  "no_metrics = \<lparr>im_counters = [], im_histograms = []\<rparr>"

fun collect_op :: "metric_op \<Rightarrow> in_memory_metrics \<Rightarrow> in_memory_metrics" where
  "collect_op (Counter_op name v labels) m =
    m\<lparr>im_counters := dict_set name ((case map_of (im_counters m) name of None \<Rightarrow> 0 | Some c \<Rightarrow> c) + v) (im_counters m)\<rparr>"
| "collect_op (Histogram_op name v labels) m =
    (let old = (case map_of (im_histograms m) name of None \<Rightarrow> [] | Some vs \<Rightarrow> vs)
     in m\<lparr>im_histograms := dict_set name (old @ [v]) (im_histograms m)\<rparr>)"

text \<open>An event whose phase is unknown raises before the collector is called.\<close>

definition metrics_hook :: "telemetry_event \<Rightarrow> in_memory_metrics \<Rightarrow> metrics_error + in_memory_metrics" where
  "metrics_hook event m = rbind (metrics_calls event) (\<lambda>ops. Inr (fold collect_op ops m))"

fun observe_events :: "telemetry_event list \<Rightarrow> in_memory_metrics \<Rightarrow> metrics_error + in_memory_metrics" where
  "observe_events [] m = Inr m"
| "observe_events (e # es) m = rbind (metrics_hook e m) (observe_events es)"

definition counter :: "in_memory_metrics \<Rightarrow> string \<Rightarrow> rat" where
  "counter m name = (case map_of (im_counters m) (lit name) of None \<Rightarrow> 0 | Some c \<Rightarrow> c)"

definition histogram :: "in_memory_metrics \<Rightarrow> string \<Rightarrow> rat list" where
  "histogram m name = (case map_of (im_histograms m) (lit name) of None \<Rightarrow> [] | Some vs \<Rightarrow> vs)"


section \<open>What the counters count\<close>

fun op_total :: "ustr \<Rightarrow> metric_op list \<Rightarrow> rat" where
  "op_total name [] = 0"
| "op_total name (Counter_op n v labels # ops) = (if n = name then v else 0) + op_total name ops"
| "op_total name (Histogram_op n v labels # ops) = op_total name ops"

fun op_samples :: "ustr \<Rightarrow> metric_op list \<Rightarrow> rat list" where
  "op_samples name [] = []"
| "op_samples name (Counter_op n v labels # ops) = op_samples name ops"
| "op_samples name (Histogram_op n v labels # ops) = (if n = name then [v] else []) @ op_samples name ops"

lemma op_total_append [simp]: "op_total name (xs @ ys) = op_total name xs + op_total name ys"
  by (induction name xs rule: op_total.induct) simp_all

lemma op_samples_append [simp]: "op_samples name (xs @ ys) = op_samples name xs @ op_samples name ys"
  by (induction name xs rule: op_samples.induct) simp_all

lemma op_total_with_labels [simp]: "op_total name (map (with_labels l) ops) = op_total name ops"
  by (induction name ops rule: op_total.induct) simp_all

lemma op_samples_with_labels [simp]: "op_samples name (map (with_labels l) ops) = op_samples name ops"
  by (induction name ops rule: op_samples.induct) simp_all

lemma counter_collect: "counter (fold collect_op ops m) name = counter m name + op_total (lit name) ops"
proof (induction ops arbitrary: m)
  case (Cons op ops)
  then show ?case by (cases op) (auto simp: counter_def Let_def split: option.split)
qed simp

lemma histogram_collect: "histogram (fold collect_op ops m) name = histogram m name @ op_samples (lit name) ops"
proof (induction ops arbitrary: m)
  case (Cons op ops)
  then show ?case by (cases op) (auto simp: histogram_def Let_def split: option.split)
qed simp

definition operations_of :: "telemetry_event \<Rightarrow> metric_op list" where
  "operations_of e = (case metric_operations e of Inl _ \<Rightarrow> [] | Inr ops \<Rightarrow> ops)"

lemma observed_totals:
  "observe_events es m = Inr m' \<Longrightarrow>
    counter m' name = counter m name + (\<Sum>e\<leftarrow>es. op_total (lit name) (operations_of e)) \<and>
    histogram m' name = histogram m name @ concat (map (\<lambda>e. op_samples (lit name) (operations_of e)) es)"
proof (induction es arbitrary: m)
  case (Cons e es)
  then obtain ops where "metric_operations e = Inr ops"
    and "observe_events es (fold collect_op (map (with_labels (extract_labels e)) ops) m) = Inr m'"
    by (auto simp: metrics_hook_def metrics_calls_def result_iff)
  then show ?case
    using Cons.IH by (simp add: counter_collect histogram_collect operations_of_def)
qed simp

lemmas operation_defs =
  operations_of_def metric_operations_def phase_operations_def phase_counters_def resource_operations_def
  settled_operations_def group_teardown_operations_def measured_def Let_def

definition settled_with :: "(terminal_outcome \<Rightarrow> bool) \<Rightarrow> telemetry_event \<Rightarrow> bool" where
  "settled_with P e \<longleftrightarrow> phase_of e = Ph_settled \<and> (case er_terminal_outcome (rest e) of None \<Rightarrow> False | Some t \<Rightarrow> P t)"

lemma executions_of_event:
  "op_total (lit ''cuprum_executions_total'') (operations_of e) = (if phase_of e = Ph_start then 1 else 0)"
  by (cases "phase_of e") (auto simp: operation_defs split: option.split)

lemma outcomes_of_event:
  "op_total (lit ''cuprum_terminal_outcomes_total'') (operations_of e) = (if settled_with (\<lambda>_. True) e then 1 else 0)"
  by (cases "phase_of e") (auto simp: operation_defs settled_with_def split: option.split)

lemma failures_of_event:
  "op_total (lit ''cuprum_failures_total'') (operations_of e) = (if settled_with (\<lambda>t. t \<noteq> Exit_zero) e then 1 else 0)"
  by (cases "phase_of e") (auto simp: operation_defs settled_with_def split: option.split)

lemma stdin_bytes_of_event:
  "op_total (lit ''cuprum_stdin_bytes_total'') (operations_of e) =
    (if phase_of e = Ph_stdin then (case er_byte_count (rest e) of None \<Rightarrow> 0 | Some n \<Rightarrow> of_int n) else 0)"
  by (cases "phase_of e") (auto simp: operation_defs split: option.split)

lemma durations_of_event:
  "op_samples (lit ''cuprum_duration_seconds'') (operations_of e) =
    (if settled_with (\<lambda>_. True) e then (case er_duration_s (rest e) of None \<Rightarrow> [] | Some d \<Rightarrow> [d]) else [])"
  by (cases "phase_of e") (auto simp: operation_defs settled_with_def split: option.split)

lemma sum_list_indicator: "(\<Sum>x\<leftarrow>xs. if P x then 1 else 0) = (of_nat (length (filter P xs)) :: rat)"
  by (induction xs) simp_all


text \<open>What the reference collector holds after any sequence of execution events that the hook accepted:
  one execution per \<open>start\<close>, one terminal outcome per \<open>settled\<close> event that names one, one failure for each of
  those that is not \<open>exit_zero\<close> and none besides (an \<open>exit\<close> event adds nothing to it), the stdin bytes as the
  sum of those reported, and exactly the measured durations of the settled executions, in their order.\<close>

theorem metrics_account_for_events:
  assumes "observe_events es no_metrics = Inr m"
  shows "counter m ''cuprum_executions_total'' = of_nat (length (filter (\<lambda>e. phase_of e = Ph_start) es)) \<and>
    counter m ''cuprum_terminal_outcomes_total'' = of_nat (length (filter (settled_with (\<lambda>_. True)) es)) \<and>
    counter m ''cuprum_failures_total'' = of_nat (length (filter (settled_with (\<lambda>t. t \<noteq> Exit_zero)) es)) \<and>
    counter m ''cuprum_stdin_bytes_total'' =
      (\<Sum>e\<leftarrow>es. if phase_of e = Ph_stdin then (case er_byte_count (rest e) of None \<Rightarrow> 0 | Some n \<Rightarrow> of_int n) else 0) \<and>
    histogram m ''cuprum_duration_seconds'' =
      concat (map (\<lambda>e. if settled_with (\<lambda>_. True) e
        then (case er_duration_s (rest e) of None \<Rightarrow> [] | Some d \<Rightarrow> [d]) else []) es)"
proof -
  have "counter no_metrics name = 0" "histogram no_metrics name = []" for name
    by (simp_all add: counter_def histogram_def no_metrics_def)
  then have "counter m name = (\<Sum>e\<leftarrow>es. op_total (lit name) (operations_of e))"
    "histogram m name = concat (map (\<lambda>e. op_samples (lit name) (operations_of e)) es)" for name
    using observed_totals [OF assms, of name] by simp_all
  then show ?thesis
    by (simp only: executions_of_event outcomes_of_event failures_of_event stdin_bytes_of_event
        durations_of_event sum_list_indicator simp_thms)
qed

text \<open>An event with every optional field absent.\<close>

definition bare_event :: "exec_phase \<Rightarrow> telemetry_event" where
  "bare_event p =
    \<lparr>ev_argv = [], ev_env = None, ev_tags = [], ev_line = None, ev_note = None, ev_rest =
      \<lparr>er_phase = p, er_program = lit ''ls'', er_cwd = None, er_pid = None, er_exit_code = None, er_duration_s = None,
       er_byte_count = None, er_operation = None, er_error_type = None, er_exec_id = None, er_project = None,
       er_timeout_s = None, er_timeout_mode = None, er_stage_index = None, er_stage_count = None,
       er_eof_grace_s = None, er_pending_readers = None, er_max_rss_bytes = None, er_user_cpu_seconds = None,
       er_system_cpu_seconds = None, er_resource_usage_mode = None, er_env_mode = None, er_resolved_path = None,
       er_capture_mode = None, er_owns_group = None, er_error_category = None, er_group_outcome = None,
       er_settle_s = None, er_terminal_outcome = None\<rparr>\<rparr>"

definition settled_event :: "terminal_outcome \<Rightarrow> telemetry_event" where
  "settled_event t = bare_event Ph_settled\<lparr>ev_rest := (ev_rest (bare_event Ph_settled))\<lparr>er_terminal_outcome := Some t\<rparr>\<rparr>"

lemma metrics_account_for_events_witness:
  "\<exists>m. observe_events [bare_event Ph_start, bare_event Ph_exit, settled_event Outcome_timeout] no_metrics = Inr m \<and>
    counter m ''cuprum_failures_total'' = 1 \<and> counter m ''cuprum_executions_total'' = 1"
proof -
  let ?es = "[bare_event Ph_start, bare_event Ph_exit, settled_event Outcome_timeout]"
  have "\<exists>m. observe_events ?es no_metrics = Inr m"
    by (simp add: bare_event_def settled_event_def metrics_hook_def metrics_calls_def operation_defs)
  then obtain m where m: "observe_events ?es no_metrics = Inr m" ..
  with metrics_account_for_events [OF m] show ?thesis
    by (simp add: bare_event_def settled_event_def settled_with_def)
qed

section \<open>The other channels\<close>

datatype 'a loose = Member 'a | Foreign ustr

datatype control_operation = Op_signal | Op_terminate | Op_kill

fun control_operation_value :: "control_operation \<Rightarrow> ustr" where
  "control_operation_value Op_signal = lit ''signal''"
| "control_operation_value Op_terminate = lit ''terminate''"
| "control_operation_value Op_kill = lit ''kill''"

fun control_outcome_value :: "control_outcome \<Rightarrow> ustr" where
  "control_outcome_value Control_delivered = lit ''delivered''"
| "control_outcome_value Control_escalated = lit ''escalated''"
| "control_outcome_value Refused_exited = lit ''refused_exited''"
| "control_outcome_value Refused_unsupported = lit ''refused_unsupported''"

record control_event =
  ce_operation :: "control_operation loose"
  ce_outcome :: "control_outcome loose"
  ce_duration_s :: rat
  ce_exec_id :: "nat option"
  ce_signal_number :: "int option"
  ce_pid :: "int option"

definition is_refused :: "control_outcome \<Rightarrow> bool" where
  "is_refused outcome \<longleftrightarrow> outcome = Refused_exited \<or> outcome = Refused_unsupported"

fun control_labels :: "control_operation loose \<Rightarrow> control_outcome loose \<Rightarrow> labels option" where
  "control_labels (Member a) (Member b) =
    Some [(lit ''operation'', control_operation_value a), (lit ''outcome'', control_outcome_value b)]"
| "control_labels _ _ = None"

definition control_metrics :: "control_event \<Rightarrow> metric_op list" where
  "control_metrics event =
    (case (ce_operation event, ce_outcome event) of
       (Member a, Member b) \<Rightarrow>
         (case control_labels (Member a) (Member b) of
            None \<Rightarrow> []
          | Some labels \<Rightarrow>
              [Counter_op (lit ''cuprum_control_operations_total'') 1 labels,
               Histogram_op (lit ''cuprum_control_operation_duration_seconds'') (ce_duration_s event) labels] @
              (if is_refused b then [Counter_op (lit ''cuprum_control_refusals_total'') 1
                [(lit ''operation'', control_operation_value a)]] else []))
     | _ \<Rightarrow> [])"

datatype echo_category =
  Echo_unicode_encode | Echo_broken_pipe | Echo_truncated | Echo_dropped | Echo_undelivered | Echo_delivery_error

fun echo_category_value :: "echo_category \<Rightarrow> ustr" where
  "echo_category_value Echo_unicode_encode = lit ''unicode_encode''"
| "echo_category_value Echo_broken_pipe = lit ''broken_pipe''"
| "echo_category_value Echo_truncated = lit ''truncated''"
| "echo_category_value Echo_dropped = lit ''dropped''"
| "echo_category_value Echo_undelivered = lit ''undelivered''"
| "echo_category_value Echo_delivery_error = lit ''delivery_error''"

datatype echo_channel = Echo_stdout | Echo_stderr

fun echo_stream_label :: "echo_channel loose \<Rightarrow> ustr" where
  "echo_stream_label (Member Echo_stdout) = lit ''stdout''"
| "echo_stream_label (Member Echo_stderr) = lit ''stderr''"
| "echo_stream_label (Foreign _) = lit ''unknown''"

record echo_event =
  eh_stream :: "echo_channel loose"
  eh_category :: "echo_category loose"
  eh_dropped_bytes :: "int option"

definition echo_event_labels :: "echo_event \<Rightarrow> labels" where
  "echo_event_labels event =
    [(lit ''stream'', echo_stream_label (eh_stream event)),
     (lit ''error_category'', echo_category_value
       (case eh_category event of Member c \<Rightarrow> c | Foreign _ \<Rightarrow> Echo_unicode_encode))]"

definition truncation_labels :: "echo_event \<Rightarrow> labels" where
  "truncation_labels event = [(lit ''stream'', echo_stream_label (eh_stream event))]"

text \<open>
  The \<open>match\<close> compares by equality, so a plain string equal to a member's value takes the member's arm;
  the labels then fall back to the member \<open>_event_labels\<close> degrades to.
\<close>

fun matched_category :: "echo_category loose \<Rightarrow> echo_category option" where
  "matched_category (Member c) = Some c"
| "matched_category (Foreign s) =
    find (\<lambda>c. echo_category_value c = s)
      [Echo_unicode_encode, Echo_broken_pipe, Echo_truncated, Echo_dropped, Echo_undelivered, Echo_delivery_error]"

definition delivery_metrics :: "echo_event \<Rightarrow> metric_op list" where
  "delivery_metrics event =
    Counter_op (lit ''cuprum_echo_delivery_events_total'') 1 (echo_event_labels event) #
    (case eh_dropped_bytes event of None \<Rightarrow> []
     | Some n \<Rightarrow> [Counter_op (lit ''cuprum_echo_delivery_bytes_total'') (of_int n) (echo_event_labels event)])"

definition echo_metrics :: "echo_event \<Rightarrow> metric_op list" where
  "echo_metrics event =
    (case matched_category (eh_category event) of
       None \<Rightarrow> []
     | Some Echo_unicode_encode \<Rightarrow>
         [Counter_op (lit ''cuprum_echo_encoding_failures_total'') 1 (echo_event_labels event)]
     | Some Echo_broken_pipe \<Rightarrow>
         [Counter_op (lit ''cuprum_echo_broken_pipe_total'') 1 (echo_event_labels event)]
     | Some Echo_truncated \<Rightarrow>
         [Counter_op (lit ''cuprum_echo_truncations_total'') 1 (truncation_labels event)]
     | Some _ \<Rightarrow> delivery_metrics event)"


datatype decline_reason =
    Raw_fd_unavailable | Reader_unresumable | Reader_pause_failed | Blocking_mode_unavailable
  | Duplicate_fds_unavailable | Platform_unsupported

fun decline_reason_value :: "decline_reason \<Rightarrow> ustr" where
  "decline_reason_value Raw_fd_unavailable = lit ''raw_fd_unavailable''"
| "decline_reason_value Reader_unresumable = lit ''reader_unresumable''"
| "decline_reason_value Reader_pause_failed = lit ''reader_pause_failed''"
| "decline_reason_value Blocking_mode_unavailable = lit ''blocking_mode_unavailable''"
| "decline_reason_value Duplicate_fds_unavailable = lit ''duplicate_fds_unavailable''"
| "decline_reason_value Platform_unsupported = lit ''platform_unsupported''"

datatype handoff_outcome =
    Handoff_submitted | Duplicate_writer_failed | Blocking_setup_failed | Executor_submission_rejected
  | Native_load_failed | Reader_preparation_failed | Buffer_validation_failed
  | Platform_writer_transfer_failed | Windows_raw_handle_rejected | Native_io_failed

fun handoff_outcome_value :: "handoff_outcome \<Rightarrow> ustr" where
  "handoff_outcome_value Handoff_submitted = lit ''submitted''"
| "handoff_outcome_value Duplicate_writer_failed = lit ''duplicate_writer_failed''"
| "handoff_outcome_value Blocking_setup_failed = lit ''blocking_setup_failed''"
| "handoff_outcome_value Executor_submission_rejected = lit ''executor_submission_rejected''"
| "handoff_outcome_value Native_load_failed = lit ''native_load_failed''"
| "handoff_outcome_value Reader_preparation_failed = lit ''reader_preparation_failed''"
| "handoff_outcome_value Buffer_validation_failed = lit ''buffer_validation_failed''"
| "handoff_outcome_value Platform_writer_transfer_failed = lit ''platform_writer_transfer_failed''"
| "handoff_outcome_value Windows_raw_handle_rejected = lit ''windows_raw_handle_rejected''"
| "handoff_outcome_value Native_io_failed = lit ''native_io_failed''"

datatype pump_phase =
    Pump_declined | Pump_handoff | Pump_failed_after_cancel | Pump_cleanup_started
  | Pump_cleanup_completed | Pump_cleanup_grace_expired | Pump_cleanup_deferred | Pump_unknown ustr

record pump_event =
  pe_phase :: pump_phase
  pe_reason :: "decline_reason loose option"
  pe_outcome :: "handoff_outcome loose option"
  pe_duration_s :: "rat option"
  pe_elapsed_s :: "rat option"
  pe_exec_id :: "nat option"

definition pump_phase_counter :: "pump_phase \<Rightarrow> ustr option" where
  "pump_phase_counter p =
    (case p of
       Pump_declined \<Rightarrow> Some (lit ''cuprum_rust_pump_declined_total'')
     | Pump_failed_after_cancel \<Rightarrow> Some (lit ''cuprum_rust_pump_failed_after_cancel_total'')
     | Pump_cleanup_completed \<Rightarrow> Some (lit ''cuprum_rust_pump_cleanup_total'')
     | Pump_handoff \<Rightarrow> Some (lit ''cuprum_rust_pump_handoff_total'')
     | Pump_cleanup_grace_expired \<Rightarrow> Some (lit ''cuprum_rust_pump_cleanup_grace_expired_total'')
     | Pump_cleanup_deferred \<Rightarrow> Some (lit ''cuprum_rust_pump_cleanup_deferred_total'')
     | _ \<Rightarrow> None)"

definition pump_labels :: "pump_event \<Rightarrow> labels" where
  "pump_labels event =
    (case (pe_phase event, pe_reason event, pe_outcome event) of
       (Pump_declined, Some (Member r), _) \<Rightarrow> [(lit ''reason'', decline_reason_value r)]
     | (Pump_declined, _, _) \<Rightarrow> [(lit ''reason'', lit ''unknown'')]
     | (Pump_handoff, _, Some (Member v)) \<Rightarrow> [(lit ''outcome'', handoff_outcome_value v)]
     | _ \<Rightarrow> [])"

definition pump_metrics :: "pump_event \<Rightarrow> metric_op list" where
  "pump_metrics event =
    (if pe_phase event = Pump_handoff \<and> (case pe_outcome event of Some (Member _) \<Rightarrow> False | _ \<Rightarrow> True) then []
     else
       (case pump_phase_counter (pe_phase event) of None \<Rightarrow> [] | Some name \<Rightarrow> [Counter_op name 1 (pump_labels event)]) @
       (if pe_phase event = Pump_cleanup_completed
        then measured (lit ''cuprum_rust_pump_cleanup_duration_seconds'') (pe_duration_s event) [] else []))"

definition line_stream_phases :: "ustr list" where
  "line_stream_phases =
    [lit ''spawned'', lit ''queue_saturated'', lit ''sink_failed'', lit ''timeout'', lit ''cancelled'',
     lit ''teardown_started'', lit ''teardown_completed'', lit ''completed'']"

definition line_stream_streams :: "ustr list" where
  "line_stream_streams = [lit ''stdout'', lit ''stderr'']"

definition line_stream_sinks :: "ustr list" where
  "line_stream_sinks = [lit ''callback'', lit ''queue'']"

record line_stream_event =
  le_phase :: "ustr option"
  le_stream :: "ustr option"
  le_sink :: "ustr option"

definition line_stream_label :: "ustr option \<Rightarrow> ustr list \<Rightarrow> ustr" where
  "line_stream_label v allowed =
    (case v of None \<Rightarrow> lit ''none'' | Some s \<Rightarrow> if s \<in> set allowed then s else lit ''unknown'')"

definition line_stream_metrics :: "line_stream_event \<Rightarrow> metric_op list" where
  "line_stream_metrics event =
    [Counter_op (lit ''cuprum_line_stream_events_total'') 1
      [(lit ''phase'', line_stream_label (le_phase event) line_stream_phases),
       (lit ''stream'', line_stream_label (le_stream event) line_stream_streams),
       (lit ''sink'', line_stream_label (le_sink event) line_stream_sinks)]]"

datatype stream_operation = Stream_drain | Pipeline_transfer

fun stream_operation_value :: "stream_operation \<Rightarrow> ustr" where
  "stream_operation_value Stream_drain = lit ''stream_drain''"
| "stream_operation_value Pipeline_transfer = lit ''pipeline_transfer''"

datatype stream_outcome =
  Stream_eof | Stream_cancelled | Stream_failed | Downstream_closed | Post_close_drain_timeout

fun stream_outcome_value :: "stream_outcome \<Rightarrow> ustr" where
  "stream_outcome_value Stream_eof = lit ''eof''"
| "stream_outcome_value Stream_cancelled = lit ''cancelled''"
| "stream_outcome_value Stream_failed = lit ''failed''"
| "stream_outcome_value Downstream_closed = lit ''downstream_closed''"
| "stream_outcome_value Post_close_drain_timeout = lit ''post_close_drain_timeout''"

record stream_operation_event =
  oe_operation :: "stream_operation loose"
  oe_outcome :: "stream_outcome loose"
  oe_bytes_consumed :: int
  oe_read_operations :: int
  oe_duration_s :: rat

fun stream_operation_labels :: "stream_operation loose \<Rightarrow> stream_outcome loose \<Rightarrow> labels option" where
  "stream_operation_labels (Member a) (Member b) =
    Some [(lit ''operation'', stream_operation_value a), (lit ''outcome'', stream_outcome_value b)]"
| "stream_operation_labels _ _ = None"

definition stream_operation_metrics :: "stream_operation_event \<Rightarrow> metric_op list" where
  "stream_operation_metrics event =
    (case stream_operation_labels (oe_operation event) (oe_outcome event) of
       None \<Rightarrow> []
     | Some labels \<Rightarrow>
         [Counter_op (lit ''cuprum_stream_operation_bytes_total'') (of_int (oe_bytes_consumed event)) labels,
          Counter_op (lit ''cuprum_stream_operation_read_operations_total'') (of_int (oe_read_operations event)) labels,
          Histogram_op (lit ''cuprum_stream_operation_duration_seconds'') (oe_duration_s event) labels])"

section \<open>Series\<close>

text \<open>
  A time series is a metric with a set of labels.  The interface of a hook whose series are few: the events
  of one scope (here the program and project an event is labelled with) write to a fixed list of series.
\<close>

type_synonym series = "ustr \<times> labels"

fun op_series :: "metric_op \<Rightarrow> series" where
  "op_series (Counter_op name v labels) = (name, labels)"
| "op_series (Histogram_op name v labels) = (name, labels)"

locale bounded_series =
  fixes calls :: "'e \<Rightarrow> metric_op list" and scope_of :: "'e \<Rightarrow> 's" and universe :: "'s \<Rightarrow> series list"
    and bound :: nat
  assumes within: "op_series ` set (calls e) \<subseteq> set (universe (scope_of e))"
    and small: "length (universe s) \<le> bound"
begin

lemma series_within: "(\<Union>e \<in> set es. op_series ` set (calls e)) \<subseteq> (\<Union>s \<in> scope_of ` set es. set (universe s))"
  using within by blast

lemma series_bounded: "card (\<Union>e \<in> set es. op_series ` set (calls e)) \<le> bound * card (scope_of ` set es)"
proof -
  have "card (\<Union>e \<in> set es. op_series ` set (calls e)) \<le> card (\<Union>s \<in> scope_of ` set es. set (universe s))"
    by (rule card_mono [OF _ series_within]) simp
  also have "\<dots> \<le> (\<Sum>s \<in> scope_of ` set es. card (set (universe s)))"
    by (rule card_UN_le) simp
  also have "\<dots> \<le> (\<Sum>s \<in> scope_of ` set es. bound)"
    by (rule sum_mono) (use small card_length le_trans in blast)
  finally show ?thesis by (simp add: mult.commute)
qed

end

definition all_env_labels :: "labels list" where
  "all_env_labels = [] # map (\<lambda>m. [(lit ''env_mode'', env_mode_text m)]) [Inherit, Overlay, Replace]"

definition all_capture_labels :: "labels list" where
  "all_capture_labels = [] # map (\<lambda>m. [(lit ''capture_mode'', capture_mode_value m)]) [Mode_text, Mode_bytes]"

definition all_mode_labels :: "labels list" where
  "all_mode_labels = [dict_update e c. e \<leftarrow> all_env_labels, c \<leftarrow> all_capture_labels]"

text \<open>The members of the enumerations.\<close>

definition failure_categories :: "failure_category list" where
  "failure_categories =
    [Cat_producer, Cat_invalid_chunk, Cat_encoder, Cat_pipe, Cat_owned_path_open,
    Cat_borrowed_flush]"

definition terminal_outcomes :: "terminal_outcome list" where
  "terminal_outcomes =
    [Exit_zero, Exit_nonzero, Outcome_timeout, Outcome_cancelled, Outcome_error]"

definition resource_modes :: "resource_usage_mode list" where
  "resource_modes =
    [Wait4_child, Aggregate_cpu_delta, Usage_unavailable]"

definition group_outcomes :: "group_outcome list" where
  "group_outcomes =
    [Gt_unsignalable, Gt_settlement_timeout, Gt_signal_refused]"

definition control_operations :: "control_operation list" where
  "control_operations =
    [Op_signal, Op_terminate, Op_kill]"

definition control_outcomes :: "control_outcome list" where
  "control_outcomes =
    [Control_delivered, Control_escalated, Refused_exited, Refused_unsupported]"

definition echo_categories :: "echo_category list" where
  "echo_categories =
    [Echo_unicode_encode, Echo_broken_pipe, Echo_truncated, Echo_dropped, Echo_undelivered,
    Echo_delivery_error]"

definition decline_reasons :: "decline_reason list" where
  "decline_reasons =
    [Raw_fd_unavailable, Reader_unresumable, Reader_pause_failed, Blocking_mode_unavailable,
    Duplicate_fds_unavailable, Platform_unsupported]"

definition handoff_outcomes :: "handoff_outcome list" where
  "handoff_outcomes =
    [Handoff_submitted, Duplicate_writer_failed, Blocking_setup_failed,
    Executor_submission_rejected, Native_load_failed, Reader_preparation_failed,
    Buffer_validation_failed, Platform_writer_transfer_failed, Windows_raw_handle_rejected,
    Native_io_failed]"

definition stream_operations :: "stream_operation list" where
  "stream_operations =
    [Stream_drain, Pipeline_transfer]"

definition stream_outcomes :: "stream_outcome list" where
  "stream_outcomes =
    [Stream_eof, Stream_cancelled, Stream_failed, Downstream_closed, Post_close_drain_timeout]"

lemma in_failure_categories [simp, intro]: "x \<in> set failure_categories"
  by (cases x) (simp_all add: failure_categories_def)

lemma in_terminal_outcomes [simp, intro]: "x \<in> set terminal_outcomes"
  by (cases x) (simp_all add: terminal_outcomes_def)

lemma in_resource_modes [simp, intro]: "x \<in> set resource_modes"
  by (cases x) (simp_all add: resource_modes_def)

lemma in_group_outcomes [simp, intro]: "x \<in> set group_outcomes"
  by (cases x) (simp_all add: group_outcomes_def)

lemma in_control_operations [simp, intro]: "x \<in> set control_operations"
  by (cases x) (simp_all add: control_operations_def)

lemma in_control_outcomes [simp, intro]: "x \<in> set control_outcomes"
  by (cases x) (simp_all add: control_outcomes_def)

lemma in_echo_categories [simp, intro]: "x \<in> set echo_categories"
  by (cases x) (simp_all add: echo_categories_def)

lemma in_decline_reasons [simp, intro]: "x \<in> set decline_reasons"
  by (cases x) (simp_all add: decline_reasons_def)

lemma in_handoff_outcomes [simp, intro]: "x \<in> set handoff_outcomes"
  by (cases x) (simp_all add: handoff_outcomes_def)

lemma in_stream_operations [simp, intro]: "x \<in> set stream_operations"
  by (cases x) (simp_all add: stream_operations_def)

lemma in_stream_outcomes [simp, intro]: "x \<in> set stream_outcomes"
  by (cases x) (simp_all add: stream_outcomes_def)

lemmas enumeration_defs =
  failure_categories_def terminal_outcomes_def resource_modes_def group_outcomes_def
  control_operations_def control_outcomes_def echo_categories_def decline_reasons_def
  handoff_outcomes_def stream_operations_def stream_outcomes_def

definition enum_labels :: "string \<Rightarrow> ('a \<Rightarrow> ustr) \<Rightarrow> 'a list \<Rightarrow> labels list" where
  "enum_labels key render members = map (\<lambda>m. [(lit key, render m)]) members"

lemma in_enum_labels: "m \<in> set members \<Longrightarrow> [(lit key, render m)] \<in> set (enum_labels key render members)"
  by (simp add: enum_labels_def)

lemma length_enum_labels [simp]: "length (enum_labels key render members) = length members"
  by (simp add: enum_labels_def)

definition resource_labels :: "labels list" where
  "resource_labels = enum_labels ''resource_usage_mode'' resource_mode_value resource_modes"

definition stdio_labels :: "labels list" where
  "stdio_labels = [] # enum_labels ''error_category'' failure_category_value failure_categories"

definition outcome_labels :: "labels list" where
  "outcome_labels = enum_labels ''terminal_outcome'' outcome_value terminal_outcomes"

definition group_labels :: "labels list" where
  "group_labels = [] # enum_labels ''outcome'' group_outcome_value group_outcomes"

definition exec_extras :: "(string \<times> labels list) list" where
  "exec_extras =
    [(''cuprum_executions_total'', all_mode_labels), (''cuprum_stdout_lines_total'', [[]]),
     (''cuprum_stderr_lines_total'', [[]]), (''cuprum_stdin_errors_total'', [[]]),
     (''cuprum_stdio_errors_total'', stdio_labels), (''cuprum_timeouts_total'', [[]]),
     (''cuprum_teardown_errors_total'', [[]]), (''cuprum_capture_eof_grace_expired_total'', [[]]),
     (''cuprum_pipeline_fail_fast_total'', [[]]), (''cuprum_terminal_outcomes_total'', outcome_labels),
     (''cuprum_failures_total'', all_mode_labels), (''cuprum_duration_seconds'', [[]]),
     (''cuprum_stdin_bytes_total'', [[]]), (''cuprum_resource_usage_measurements_total'', resource_labels),
     (''cuprum_child_max_rss_bytes'', resource_labels), (''cuprum_child_user_cpu_seconds'', resource_labels),
     (''cuprum_child_system_cpu_seconds'', resource_labels), (''cuprum_group_teardowns_total'', group_labels),
     (''cuprum_group_settle_seconds'', [[]])]"

definition exec_series :: "labels \<Rightarrow> series list" where
  "exec_series base = concat (map (\<lambda>(name, extras). map (\<lambda>x. (lit name, dict_update base x)) extras) exec_extras)"

lemma length_exec_series: "length (exec_series base) = 62"
  by (simp add: exec_series_def exec_extras_def all_mode_labels_def all_env_labels_def all_capture_labels_def
      resource_labels_def stdio_labels_def outcome_labels_def group_labels_def enumeration_defs)

lemma mode_labels_listed: "execution_mode_labels e \<in> set all_mode_labels"
proof -
  have "env_mode_label e \<in> set all_env_labels"
    by (cases "er_env_mode (rest e)"; cases "the (er_env_mode (rest e))")
      (auto simp: env_mode_label_def all_env_labels_def)
  moreover have "capture_mode_label e \<in> set all_capture_labels"
    by (cases "er_capture_mode (rest e)"; cases "the (er_capture_mode (rest e))")
      (auto simp: capture_mode_label_def all_capture_labels_def)
  ultimately show ?thesis
    by (auto simp: execution_mode_labels_def all_mode_labels_def)
qed

definition listed :: "metric_op \<Rightarrow> bool" where
  "listed op \<longleftrightarrow>
    (\<exists>name extras. map_of exec_extras name = Some extras \<and> fst (op_series op) = lit name \<and> snd (op_series op) \<in> set extras)"

lemma listedI:
  assumes "map_of exec_extras name = Some extras" "l \<in> set extras"
  shows "listed (Counter_op (lit name) v l)" "listed (Histogram_op (lit name) v l)"
  using assms by (auto simp: listed_def)

lemma extras_of:
  "map_of exec_extras ''cuprum_executions_total'' = Some all_mode_labels"
  "map_of exec_extras ''cuprum_failures_total'' = Some all_mode_labels"
  "map_of exec_extras ''cuprum_stdio_errors_total'' = Some stdio_labels"
  "map_of exec_extras ''cuprum_terminal_outcomes_total'' = Some outcome_labels"
  "map_of exec_extras ''cuprum_group_teardowns_total'' = Some group_labels"
  "map_of exec_extras ''cuprum_resource_usage_measurements_total'' = Some resource_labels"
  "map_of exec_extras ''cuprum_child_max_rss_bytes'' = Some resource_labels"
  "map_of exec_extras ''cuprum_child_user_cpu_seconds'' = Some resource_labels"
  "map_of exec_extras ''cuprum_child_system_cpu_seconds'' = Some resource_labels"
  by (simp_all add: exec_extras_def)

lemma plain_extras:
  "map_of exec_extras ''cuprum_stdout_lines_total'' = Some [[]]"
  "map_of exec_extras ''cuprum_stderr_lines_total'' = Some [[]]"
  "map_of exec_extras ''cuprum_stdin_errors_total'' = Some [[]]"
  "map_of exec_extras ''cuprum_timeouts_total'' = Some [[]]"
  "map_of exec_extras ''cuprum_teardown_errors_total'' = Some [[]]"
  "map_of exec_extras ''cuprum_capture_eof_grace_expired_total'' = Some [[]]"
  "map_of exec_extras ''cuprum_pipeline_fail_fast_total'' = Some [[]]"
  "map_of exec_extras ''cuprum_stdin_bytes_total'' = Some [[]]"
  "map_of exec_extras ''cuprum_duration_seconds'' = Some [[]]"
  "map_of exec_extras ''cuprum_group_settle_seconds'' = Some [[]]"
  by (simp_all add: exec_extras_def)

lemmas listed_plain = plain_extras [THEN listedI(1), of "[]", simplified] plain_extras [THEN listedI(2), of "[]", simplified]

lemma op_series_with_labels:
  "op_series (with_labels base op) = (fst (op_series op), dict_update base (snd (op_series op)))"
  by (cases op) simp_all

lemma listed_series:
  assumes "listed op"
  shows "op_series (with_labels base op) \<in> set (exec_series base)"
proof -
  obtain name extras where "(name, extras) \<in> set exec_extras" "fst (op_series op) = lit name" "snd (op_series op) \<in> set extras"
    using assms by (auto simp: listed_def dest: map_of_SomeD)
  then show ?thesis
    unfolding exec_series_def op_series_with_labels by (auto intro!: bexI [of _ "(name, extras)"])
qed

lemma listed_modes:
  "listed (Counter_op (lit ''cuprum_executions_total'') v (execution_mode_labels e))"
  "listed (Counter_op (lit ''cuprum_failures_total'') v (execution_mode_labels e))"
  using mode_labels_listed extras_of(1,2) listedI(1) by blast+

lemma listed_outcome:
  "listed (Counter_op (lit ''cuprum_terminal_outcomes_total'') v [(lit ''terminal_outcome'', outcome_value t)])"
  by (rule listedI(1) [OF extras_of(4)]) (simp add: outcome_labels_def in_enum_labels)

lemma listed_stdio:
  "listed (Counter_op (lit ''cuprum_stdio_errors_total'') v
    (case c of None \<Rightarrow> [] | Some c \<Rightarrow> [(lit ''error_category'', failure_category_value c)]))"
  by (rule listedI(1) [OF extras_of(3)]) (simp add: stdio_labels_def in_enum_labels split: option.split)

lemma listed_group_counter:
  "listed (Counter_op (lit ''cuprum_group_teardowns_total'') v [])"
  "listed (Counter_op (lit ''cuprum_group_teardowns_total'') v [(lit ''outcome'', group_outcome_value g)])"
  by (rule listedI(1) [OF extras_of(5)], simp add: group_labels_def in_enum_labels)+

lemma resource_listed: "[(lit ''resource_usage_mode'', resource_mode_value m)] \<in> set resource_labels"
  by (simp add: resource_labels_def in_enum_labels)

lemma in_measured: "op \<in> set (measured name figure labels) \<Longrightarrow> \<exists>v. op = Histogram_op name v labels"
  by (auto simp: measured_def split: option.splits)

lemma listed_resource: "op \<in> set (resource_operations e) \<Longrightarrow> listed op"
  using listedI(1) [OF extras_of(6) resource_listed] extras_of(7-9) [THEN listedI(2), OF resource_listed]
  by (auto simp: resource_operations_def Let_def dest!: in_measured split: option.splits)

lemma listed_settled: "op \<in> set (settled_operations e) \<Longrightarrow> listed op"
  by (auto simp: settled_operations_def listed_modes listed_outcome listed_plain dest!: in_measured
      split: option.splits if_splits)

lemma listed_group: "op \<in> set (group_teardown_operations e) \<Longrightarrow> listed op"
  by (auto simp: group_teardown_operations_def listed_group_counter listed_plain dest!: in_measured
      split: option.splits)

lemma operations_listed: "op \<in> set (operations_of e) \<Longrightarrow> listed op"
  using listed_resource [of op e] listed_settled [of op e] listed_group [of op e]
    listed_stdio [of 1 "er_error_category (rest e)"]
  by (cases "phase_of e")
    (auto simp: operations_of_def metric_operations_def phase_operations_def phase_counters_def Let_def
      listed_plain listed_modes split: option.splits)

definition exec_calls :: "telemetry_event \<Rightarrow> metric_op list" where
  "exec_calls e = (case metrics_calls e of Inl _ \<Rightarrow> [] | Inr ops \<Rightarrow> ops)"

lemma exec_calls_operations: "exec_calls e = map (with_labels (extract_labels e)) (operations_of e)"
  by (cases "metric_operations e") (simp_all add: exec_calls_def metrics_calls_def operations_of_def)

text \<open>Every pair of a metric name and a set of labels over two axes.\<close>

definition series_grid :: "string list \<Rightarrow> string \<Rightarrow> ustr list \<Rightarrow> string \<Rightarrow> ustr list \<Rightarrow> series list" where
  "series_grid names k xs l ys = [(lit n, [(lit k, x), (lit l, y)]). n \<leftarrow> names, x \<leftarrow> xs, y \<leftarrow> ys]"

lemma in_series_grid:
  "n \<in> set names \<Longrightarrow> x \<in> set xs \<Longrightarrow> y \<in> set ys \<Longrightarrow>
    (lit n, [(lit k, x), (lit l, y)]) \<in> set (series_grid names k xs l ys)"
  by (force simp: series_grid_def)

lemma length_series_grid [simp]: "length (series_grid names k xs l ys) = length names * (length xs * length ys)"
  by (simp add: series_grid_def length_concat comp_def sum_list_triv)

definition control_series :: "series list" where
  "control_series =
    series_grid [''cuprum_control_operations_total'', ''cuprum_control_operation_duration_seconds'']
      ''operation'' (map control_operation_value control_operations)
      ''outcome'' (map control_outcome_value control_outcomes) @
    map (Pair (lit ''cuprum_control_refusals_total''))
      (enum_labels ''operation'' control_operation_value control_operations)"

definition echo_streams :: "ustr list" where
  "echo_streams = [lit ''stdout'', lit ''stderr'', lit ''unknown'']"

definition echo_series :: "series list" where
  "echo_series =
    series_grid [''cuprum_echo_encoding_failures_total'', ''cuprum_echo_broken_pipe_total'',
        ''cuprum_echo_delivery_events_total'', ''cuprum_echo_delivery_bytes_total'']
      ''stream'' echo_streams ''error_category'' (map echo_category_value echo_categories) @
    map (Pair (lit ''cuprum_echo_truncations_total'')) (enum_labels ''stream'' id echo_streams)"

definition pump_series :: "series list" where
  "pump_series =
    (lit ''cuprum_rust_pump_declined_total'', [(lit ''reason'', lit ''unknown'')]) #
    map (Pair (lit ''cuprum_rust_pump_declined_total'')) (enum_labels ''reason'' decline_reason_value decline_reasons) @
    map (Pair (lit ''cuprum_rust_pump_handoff_total'')) (enum_labels ''outcome'' handoff_outcome_value handoff_outcomes) @
    [(lit ''cuprum_rust_pump_failed_after_cancel_total'', []), (lit ''cuprum_rust_pump_cleanup_total'', []),
     (lit ''cuprum_rust_pump_cleanup_grace_expired_total'', []), (lit ''cuprum_rust_pump_cleanup_deferred_total'', []),
     (lit ''cuprum_rust_pump_cleanup_duration_seconds'', [])]"

definition line_stream_series :: "series list" where
  "line_stream_series =
    [(lit ''cuprum_line_stream_events_total'', [(lit ''phase'', p), (lit ''stream'', st), (lit ''sink'', sk)]).
      p \<leftarrow> lit ''none'' # lit ''unknown'' # line_stream_phases,
      st \<leftarrow> lit ''none'' # lit ''unknown'' # line_stream_streams,
      sk \<leftarrow> lit ''none'' # lit ''unknown'' # line_stream_sinks]"

definition stream_series :: "series list" where
  "stream_series =
    series_grid [''cuprum_stream_operation_bytes_total'', ''cuprum_stream_operation_read_operations_total'',
        ''cuprum_stream_operation_duration_seconds'']
      ''operation'' (map stream_operation_value stream_operations)
      ''outcome'' (map stream_outcome_value stream_outcomes)"

interpretation exec_hook: bounded_series exec_calls extract_labels exec_series 62
proof
  fix e
  show "op_series ` set (exec_calls e) \<subseteq> set (exec_series (extract_labels e))"
    using listed_series operations_listed by (auto simp: exec_calls_operations)
qed (simp add: length_exec_series)

interpretation control_hook: bounded_series control_metrics "\<lambda>_. ()" "\<lambda>_. control_series" 27
proof
  fix e :: control_event
  show "op_series ` set (control_metrics e) \<subseteq> set control_series"
    by (cases "ce_operation e"; cases "ce_outcome e")
      (auto simp: control_metrics_def control_series_def in_enum_labels intro!: in_series_grid
        simp del: control_operation_value.simps)
qed (simp add: control_series_def enumeration_defs)

lemma echo_stream_listed: "echo_stream_label st \<in> set echo_streams"
  by (cases st rule: echo_stream_label.cases) (simp_all add: echo_streams_def)

lemma echo_series_listed:
  "(lit ''cuprum_echo_encoding_failures_total'', echo_event_labels e) \<in> set echo_series"
  "(lit ''cuprum_echo_broken_pipe_total'', echo_event_labels e) \<in> set echo_series"
  "(lit ''cuprum_echo_delivery_events_total'', echo_event_labels e) \<in> set echo_series"
  "(lit ''cuprum_echo_delivery_bytes_total'', echo_event_labels e) \<in> set echo_series"
  "(lit ''cuprum_echo_truncations_total'', truncation_labels e) \<in> set echo_series"
proof -
  have "(lit n, echo_event_labels e) \<in> set echo_series"
    if "n \<in> set [''cuprum_echo_encoding_failures_total'', ''cuprum_echo_broken_pipe_total'',
        ''cuprum_echo_delivery_events_total'', ''cuprum_echo_delivery_bytes_total'']" for n
    unfolding echo_series_def echo_event_labels_def set_append
    by (intro UnI1 in_series_grid [OF that echo_stream_listed]) simp
  then show "(lit ''cuprum_echo_encoding_failures_total'', echo_event_labels e) \<in> set echo_series"
    "(lit ''cuprum_echo_broken_pipe_total'', echo_event_labels e) \<in> set echo_series"
    "(lit ''cuprum_echo_delivery_events_total'', echo_event_labels e) \<in> set echo_series"
    "(lit ''cuprum_echo_delivery_bytes_total'', echo_event_labels e) \<in> set echo_series"
    by simp_all
  show "(lit ''cuprum_echo_truncations_total'', truncation_labels e) \<in> set echo_series"
    using in_enum_labels [OF echo_stream_listed, of "''stream''" id "eh_stream e"]
    by (simp add: echo_series_def truncation_labels_def)
qed

lemma delivery_series_listed: "op_series ` set (delivery_metrics e) \<subseteq> set echo_series"
  using echo_series_listed by (auto simp: delivery_metrics_def split: option.splits)

interpretation echo_hook: bounded_series echo_metrics "\<lambda>_. ()" "\<lambda>_. echo_series" 75
proof
  fix e :: echo_event
  show "op_series ` set (echo_metrics e) \<subseteq> set echo_series"
  proof (cases "matched_category (eh_category e)")
    case (Some c)
    then show ?thesis
      using echo_series_listed delivery_series_listed by (cases c) (simp_all add: echo_metrics_def)
  qed (simp add: echo_metrics_def)
qed (simp add: echo_series_def echo_streams_def enumeration_defs)

lemma pump_series_listed:
  "(lit ''cuprum_rust_pump_declined_total'', [(lit ''reason'', lit ''unknown'')]) \<in> set pump_series"
  "(lit ''cuprum_rust_pump_declined_total'', [(lit ''reason'', decline_reason_value r)]) \<in> set pump_series"
  "(lit ''cuprum_rust_pump_handoff_total'', [(lit ''outcome'', handoff_outcome_value v)]) \<in> set pump_series"
  "(lit ''cuprum_rust_pump_failed_after_cancel_total'', []) \<in> set pump_series"
  "(lit ''cuprum_rust_pump_cleanup_total'', []) \<in> set pump_series"
  "(lit ''cuprum_rust_pump_cleanup_grace_expired_total'', []) \<in> set pump_series"
  "(lit ''cuprum_rust_pump_cleanup_deferred_total'', []) \<in> set pump_series"
  "(lit ''cuprum_rust_pump_cleanup_duration_seconds'', []) \<in> set pump_series"
proof -
  have "[(lit ''reason'', decline_reason_value r)] \<in> set (enum_labels ''reason'' decline_reason_value decline_reasons)"
    by (rule in_enum_labels) simp
  then show "(lit ''cuprum_rust_pump_declined_total'', [(lit ''reason'', decline_reason_value r)]) \<in> set pump_series"
    unfolding pump_series_def by (intro list.set_intros(2)) simp
  have "[(lit ''outcome'', handoff_outcome_value v)] \<in> set (enum_labels ''outcome'' handoff_outcome_value handoff_outcomes)"
    by (rule in_enum_labels) simp
  then show "(lit ''cuprum_rust_pump_handoff_total'', [(lit ''outcome'', handoff_outcome_value v)]) \<in> set pump_series"
    unfolding pump_series_def by (intro list.set_intros(2)) simp
qed (simp_all add: pump_series_def)

interpretation pump_hook: bounded_series pump_metrics "\<lambda>_. ()" "\<lambda>_. pump_series" 22
proof
  fix e :: pump_event
  show "op_series ` set (pump_metrics e) \<subseteq> set pump_series"
  proof (cases "pe_phase e")
    case Pump_declined
    then have "pump_metrics e = [Counter_op (lit ''cuprum_rust_pump_declined_total'') 1 (pump_labels e)]"
      by (simp add: pump_metrics_def pump_phase_counter_def)
    moreover have "\<exists>r. pump_labels e = [(lit ''reason'', decline_reason_value r)] \<or>
        pump_labels e = [(lit ''reason'', lit ''unknown'')]"
      using Pump_declined by (auto simp: pump_labels_def split: option.split loose.split)
    ultimately show ?thesis using pump_series_listed by auto
  next
    case Pump_handoff
    show ?thesis
    proof (cases "\<exists>v. pe_outcome e = Some (Member v)")
      case True
      then show ?thesis
        using Pump_handoff pump_series_listed
        by (auto simp: pump_metrics_def pump_phase_counter_def pump_labels_def)
    next
      case False
      then have "pump_metrics e = []"
        using Pump_handoff by (auto simp: pump_metrics_def split: option.splits loose.splits)
      then show ?thesis by simp
    qed
  qed (cases "pe_duration_s e"; simp add: pump_series_listed pump_metrics_def pump_phase_counter_def pump_labels_def
      measured_def)+
qed (simp add: pump_series_def enumeration_defs)

lemma line_stream_label_listed: "line_stream_label v allowed \<in> set (lit ''none'' # lit ''unknown'' # allowed)"
  by (simp add: line_stream_label_def split: option.split)

lemma in_cube:
  "x \<in> set xs \<Longrightarrow> y \<in> set ys \<Longrightarrow> z \<in> set zs \<Longrightarrow> f x y z \<in> set [f x y z. x \<leftarrow> xs, y \<leftarrow> ys, z \<leftarrow> zs]"
  by auto

interpretation line_stream_hook: bounded_series line_stream_metrics "\<lambda>_. ()" "\<lambda>_. line_stream_series" 160
proof
  fix e :: line_stream_event
  have "(lit ''cuprum_line_stream_events_total'',
      [(lit ''phase'', p), (lit ''stream'', st), (lit ''sink'', sk)]) \<in> set line_stream_series"
    if "p \<in> set (lit ''none'' # lit ''unknown'' # line_stream_phases)"
      "st \<in> set (lit ''none'' # lit ''unknown'' # line_stream_streams)"
      "sk \<in> set (lit ''none'' # lit ''unknown'' # line_stream_sinks)" for p st sk
    using that unfolding line_stream_series_def by (rule in_cube)
  from this [OF line_stream_label_listed line_stream_label_listed line_stream_label_listed]
  show "op_series ` set (line_stream_metrics e) \<subseteq> set line_stream_series"
    by (simp add: line_stream_metrics_def)
qed (simp add: line_stream_series_def line_stream_phases_def line_stream_streams_def line_stream_sinks_def)

interpretation stream_hook: bounded_series stream_operation_metrics "\<lambda>_. ()" "\<lambda>_. stream_series" 30
proof
  fix e :: stream_operation_event
  show "op_series ` set (stream_operation_metrics e) \<subseteq> set stream_series"
    by (cases "oe_operation e"; cases "oe_outcome e")
      (auto simp: stream_operation_metrics_def stream_series_def intro!: in_series_grid)
qed (simp add: stream_series_def enumeration_defs)


lemma card_unit_image: "card ((\<lambda>_. ()) ` S) \<le> 1"
  using card_mono [of "UNIV :: unit set"] by simp

lemma one_scope: "(n :: nat) \<le> bound * card ((\<lambda>_. ()) ` S) \<Longrightarrow> n \<le> bound"
  using card_unit_image [of S] mult_le_mono2 [of _ 1 bound] by (metis le_trans mult.right_neutral)

text \<open>No hook can blow up a metrics backend.  Whatever events it sees, whatever command lines, output, paths,
  process ids or errors they carry and whatever stands in their enumerated fields, the execution hook writes
  to at most 62 time series per pair of a program and a project label; the hooks of the control, echo, pump,
  line-stream and stream channels write to at most 27, 75, 22, 160 and 30 series in all.\<close>

theorem metric_series_bounded:
  "card (\<Union>e \<in> set es. op_series ` set (exec_calls e)) \<le> 62 * card (extract_labels ` set es) \<and>
   card (\<Union>e \<in> set cs. op_series ` set (control_metrics e)) \<le> 27 \<and>
   card (\<Union>e \<in> set hs. op_series ` set (echo_metrics e)) \<le> 75 \<and>
   card (\<Union>e \<in> set ps. op_series ` set (pump_metrics e)) \<le> 22 \<and>
   card (\<Union>e \<in> set ls. op_series ` set (line_stream_metrics e)) \<le> 160 \<and>
   card (\<Union>e \<in> set ss. op_series ` set (stream_operation_metrics e)) \<le> 30"
  using exec_hook.series_bounded [of es] control_hook.series_bounded [THEN one_scope]
    echo_hook.series_bounded [THEN one_scope] pump_hook.series_bounded [THEN one_scope]
    line_stream_hook.series_bounded [THEN one_scope] stream_hook.series_bounded [THEN one_scope]
  by (intro conjI) blast+

end
