(* ===== verification/Telemetry_Logs.thy ===== *)
theory Telemetry_Logs
  imports Telemetry_Metrics
begin

text \<open>
  What log records and span attributes give away: the phases whose records carry no caller data, and how
  members of enumerations are exported.
\<close>

section \<open>Restricted records\<close>

definition restricted_phase :: "exec_phase \<Rightarrow> bool" where
  "restricted_phase p \<longleftrightarrow> p \<in> {Ph_capture_eof_grace_expired, Ph_stdio_error, Ph_group_teardown, Ph_pipeline_fail_fast}"

text \<open>The event with other caller data: command line, environment, tags and note.\<close>

definition with_caller_data ::
  "ustr list \<Rightarrow> (ustr, unit text_or_other) pydict option \<Rightarrow> (ustr, tag_object text_or_other) pydict \<Rightarrow> ustr option \<Rightarrow>
    telemetry_event \<Rightarrow> telemetry_event" where
  "with_caller_data argv env tags remark e = e\<lparr>ev_argv := argv, ev_env := env, ev_tags := tags, ev_note := remark\<rparr>"

text \<open>And with other output and paths.\<close>

definition with_output :: "ustr option \<Rightarrow> ustr option \<Rightarrow> ustr option \<Rightarrow> telemetry_event \<Rightarrow> telemetry_event" where
  "with_output line cwd path e = e\<lparr>ev_line := line, ev_rest := (ev_rest e)\<lparr>er_cwd := cwd, er_resolved_path := path\<rparr>\<rparr>"

lemmas extra_defs =
  build_extra_def capture_eof_grace_extra_def stdio_error_extra_def group_teardown_extra_def bounded_extra_def
  correlation_fields_def

lemma optional_common_fields_caller:
  "optional_common_fields (with_caller_data argv env tags remark e) name = optional_common_fields e name"
  by (simp add: optional_common_fields_def rendered_enum_fields_def verbatim_fields_def with_caller_data_def)

definition safe_common_fields :: "telemetry_event \<Rightarrow> attrs" where
  "safe_common_fields e =
    filter (\<lambda>(name, v). name \<noteq> lit ''cuprum_argv'') (event_common_fields e (prefixed ''cuprum_'') Attr_tuple)"

lemma safe_common_fields_caller: "safe_common_fields (with_caller_data argv env tags remark e) = safe_common_fields e"
proof -
  have "prefixed ''cuprum_'' (lit ''argv'') = lit ''cuprum_argv''"
    by (simp add: prefixed_def lit_def)
  moreover have "er_program (rest (with_caller_data argv env tags remark e)) = er_program (rest e)"
    by (simp add: with_caller_data_def)
  ultimately show ?thesis
    by (simp add: safe_common_fields_def event_common_fields_def optional_common_fields_caller)
qed

lemma fail_fast_extra:
  "phase_of e = Ph_pipeline_fail_fast \<Longrightarrow>
    build_extra e =
      dict_set (lit ''cuprum_exec_id'') (case er_exec_id (rest e) of None \<Rightarrow> Attr_none | Some t \<Rightarrow> Attr_token t)
        (dict_update [(lit ''cuprum_phase'', Attr_text (phase_name (phase_of e)))] (safe_common_fields e))"
  by (simp add: build_extra_def safe_common_fields_def)

lemma restricted_extra_caller:
  assumes "restricted_phase (phase_of e)"
  shows "build_extra (with_caller_data argv env tags remark e) = build_extra e"
proof (cases "phase_of e = Ph_pipeline_fail_fast")
  case True
  then show ?thesis
    using fail_fast_extra [of e] fail_fast_extra [of "with_caller_data argv env tags remark e"]
    by (simp add: safe_common_fields_caller) (simp add: with_caller_data_def)
next
  case False
  then show ?thesis
    using assms by (auto simp: restricted_phase_def extra_defs with_caller_data_def)
qed

lemma restricted_extra_output:
  assumes "restricted_phase (phase_of e)" "phase_of e \<noteq> Ph_pipeline_fail_fast"
  shows "build_extra (with_output line cwd path e) = build_extra e"
  using assms by (auto simp: restricted_phase_def extra_defs with_output_def)

lemma restricted_message:
  assumes "restricted_phase (phase_of e)"
  shows "format_message (with_caller_data argv env tags remark e) = format_message e"
    and "format_message (with_output line cwd path e) = format_message e"
  using assms
  by (auto simp: restricted_phase_def format_message_def format_fail_fast_message_def with_caller_data_def with_output_def)

text \<open>The records that are logged above the default level for a failing run keep the caller's data out, without any
  redaction: for a capture grace expiry, a standard-stream failure, a group teardown and a fail-fast decision,
  message and fields do not depend on the command line, the environment, the tags or the note of the event;
  for the first three neither on an output line, the working directory or the resolved path.\<close>

theorem restricted_records_hide_caller_data:
  assumes "restricted_phase (phase_of e)"
  shows "structured_logging_hook finditer threshold levels None (with_caller_data argv env tags remark e) =
      structured_logging_hook finditer threshold levels None e \<and>
    (phase_of e \<noteq> Ph_pipeline_fail_fast \<longrightarrow>
      structured_logging_hook finditer threshold levels None (with_output line cwd path (with_caller_data argv env tags remark e)) =
      structured_logging_hook finditer threshold levels None e)"
proof -
  let ?e = "with_caller_data argv env tags remark e"
  have phases: "phase_of ?e = phase_of e" "phase_of (with_output line cwd path ?e) = phase_of e"
    by (simp_all add: with_caller_data_def with_output_def)
  then show ?thesis
    using assms restricted_extra_caller [OF assms, of argv env tags remark] restricted_message [OF assms]
      restricted_extra_output [of ?e line cwd path] restricted_message(2) [of ?e line cwd path]
    by (simp add: structured_logging_hook_def Let_def)
qed

lemma restricted_records_hide_caller_data_witness:
  "structured_logging_hook (\<lambda>(p :: nat) v. Inr []) 20 default_log_levels None
      (with_caller_data [lit ''--password=x''] None [] (Some (lit ''secret'')) (bare_event Ph_group_teardown)) =
    structured_logging_hook (\<lambda>(p :: nat) v. Inr []) 20 default_log_levels None (bare_event Ph_group_teardown) \<and>
   structured_logging_hook (\<lambda>(p :: nat) v. Inr []) 20 default_log_levels None (bare_event Ph_group_teardown) \<noteq> Inr None"
proof -
  have p: "phase_of (bare_event Ph_group_teardown) = Ph_group_teardown"
    by (simp add: bare_event_def)
  then have "restricted_phase (phase_of (bare_event Ph_group_teardown))"
    by (simp add: restricted_phase_def)
  note hidden = restricted_records_hide_caller_data [OF this, THEN conjunct1]
  show ?thesis
    by (rule conjI [OF hidden]) (simp add: structured_logging_hook_def p level_for_def default_log_levels_def)
qed

section \<open>Enumerations\<close>

fun plain :: "attr \<Rightarrow> bool" where
  "plain (Attr_member s) = False"
| "plain _ = True"

definition all_plain :: "attrs \<Rightarrow> bool" where
  "all_plain attrs \<longleftrightarrow> list_all (\<lambda>(name, v). plain v) attrs"

lemma all_plain_simps [simp]:
  "all_plain []" "all_plain ((name, v) # attrs) \<longleftrightarrow> plain v \<and> all_plain attrs"
  "all_plain (xs @ ys) \<longleftrightarrow> all_plain xs \<and> all_plain ys"
  by (simp_all add: all_plain_def)

lemma all_plain_dict_set: "all_plain d \<Longrightarrow> plain v \<Longrightarrow> all_plain (dict_set k v d)"
  unfolding dict_set_def by (induction d) auto

lemma all_plain_dict_update: "all_plain d \<Longrightarrow> all_plain e \<Longrightarrow> all_plain (dict_update d e)"
  by (induction d e rule: dict_update.induct) (auto intro: all_plain_dict_set)

lemma all_plain_filter: "all_plain d \<Longrightarrow> all_plain (filter P d)"
  by (auto simp: all_plain_def list_all_iff)

lemma all_plain_rename: "all_plain (map (apfst f) d) = all_plain d"
  by (induction d) auto

fun plain_entry :: "ustr \<times> attr option \<Rightarrow> bool" where
  "plain_entry (name, None) = True"
| "plain_entry (name, Some v) = plain v"

lemma all_plain_present: "all_plain (present entries) \<longleftrightarrow> list_all plain_entry entries"
  by (induction entries rule: present.induct) auto

lemma plain_entry_map [simp]: "plain_entry (name, map_option f v) \<longleftrightarrow> (\<forall>x. v = Some x \<longrightarrow> plain (f x))"
  by (cases v) simp_all

lemma common_fields_plain: "(\<And>xs. plain (g xs)) \<Longrightarrow> all_plain (event_common_fields e f g)"
  by (simp add: event_common_fields_def optional_common_fields_def all_plain_rename all_plain_present
      rendered_enum_fields_def verbatim_fields_def)

lemma bounded_extra_plain:
  "list_all plain_entry entries \<Longrightarrow> all_plain (bounded_extra e entries)"
  unfolding bounded_extra_def by (intro all_plain_dict_update) (simp_all add: all_plain_present)

lemma build_extra_plain: "all_plain (build_extra e)"
proof -
  have common: "all_plain (dict_update [(lit ''cuprum_phase'', Attr_text (phase_name (phase_of e)))]
      (event_common_fields e (prefixed ''cuprum_'') Attr_tuple))"
    by (intro all_plain_dict_update common_fields_plain) simp_all
  have safe: "all_plain (dict_update [(lit ''cuprum_phase'', Attr_text (phase_name (phase_of e)))]
      (filter (\<lambda>(name, v). name \<noteq> lit ''cuprum_argv'') (event_common_fields e (prefixed ''cuprum_'') Attr_tuple)))"
    by (intro all_plain_dict_update all_plain_filter common_fields_plain) simp_all
  show ?thesis
    unfolding build_extra_def Let_def
    using common safe
    by (auto simp: capture_eof_grace_extra_def stdio_error_extra_def group_teardown_extra_def correlation_fields_def
        intro!: bounded_extra_plain all_plain_dict_set split: option.split)
qed

lemma tracing_attributes_plain: "all_plain (build_tracing_attributes e tag)"
proof -
  have "all_plain (dict_update [] (event_common_fields e (prefixed ''cuprum.'') Attr_list))"
    by (intro all_plain_dict_update common_fields_plain) simp_all
  then show ?thesis
    unfolding build_tracing_attributes_def Let_def
    by (auto intro!: all_plain_dict_set split: option.split)
qed

text \<open>Which exports render the members of enumerations: every log field and every attribute a span starts with is a
  plain value, and so are the attributes of a fail-fast event; but a span event carries the member itself exactly
  when the event has a group outcome, and the exit attributes exactly when it has a resource-usage mode.\<close>

theorem enumeration_rendering:
  "all_plain (build_extra e) \<and> all_plain (build_tracing_attributes e tag) \<and> all_plain (fail_fast_attributes e) \<and>
   (all_plain (span_event_attributes e) \<longleftrightarrow> er_group_outcome (rest e) = None) \<and>
   (all_plain (exit_attributes e) \<longleftrightarrow> er_resource_usage_mode (rest e) = None)"
  by (simp add: build_extra_plain tracing_attributes_plain fail_fast_attributes_def span_event_attributes_def
      exit_attributes_def all_plain_present)

end
