(* ===== verification/Trace_Spans.thy ===== *)
theory Trace_Spans
  imports Telemetry_Metrics
begin

text \<open>
  The tracing hook (\<open>adapters/tracing_adapter.py\<close>, \<open>_tracing_control_join.py\<close>, \<open>_tracing_line_stream.py\<close>,
  \<open>_tracing_native_pump_cleanup.py\<close>), called by any number of threads at once.  A handler runs in up to three
  sections: a call of the tracer or a section under the registry lock, then sections under the lock of one
  span.  A section is one step here, and the sections of different handlers interleave in every order.  A span
  is what the tracer's backend was told about it, in order; spans are numbered as they are started.
\<close>

section \<open>State\<close>

datatype span_op =
    Set_attribute ustr attr
  | Add_event ustr attrs
  | Set_status bool
  | End_span

record trace_span =
  sn_name :: ustr
  sn_initial :: attrs
  sn_owner :: nat
  sn_ops :: "span_op list"
  sn_closed :: bool

text \<open>What a handler has still to do.\<close>

datatype handler =
    Install nat nat
  | Fail_stale nat
  | Record_on nat "span_op list"
  | Settle_on nat terminal_outcome

record tracing =
  tr_spans :: "trace_span list"
  tr_active :: "nat \<rightharpoonup> nat"
  tr_handlers :: "nat \<rightharpoonup> handler"

definition no_tracing :: tracing where
  "no_tracing = \<lparr>tr_spans = [], tr_active = Map.empty, tr_handlers = Map.empty\<rparr>"

section \<open>Events of the other channels\<close>

definition control_event_attributes :: "control_event \<Rightarrow> ustr \<Rightarrow> ustr \<Rightarrow> attrs" where
  "control_event_attributes event operation outcome =
    [(lit ''cuprum.operation'', Attr_text operation), (lit ''cuprum.outcome'', Attr_text outcome),
     (lit ''cuprum.duration_s'', Attr_float (ce_duration_s event))] @
    present [(lit ''cuprum.pid'', map_option Attr_int (ce_pid event)),
      (lit ''cuprum.signal_number'', map_option Attr_int (ce_signal_number event))]"

text \<open>\<open>str\<close> of a field that should hold a member.\<close>

fun loose_text :: "('a \<Rightarrow> ustr) \<Rightarrow> 'a loose \<Rightarrow> ustr" where
  "loose_text render (Member m) = render m"
| "loose_text render (Foreign s) = s"

definition control_span_event :: "control_event \<Rightarrow> span_op" where
  "control_span_event event =
    (let operation = loose_text control_operation_value (ce_operation event)
     in Add_event (lit ''cuprum.control.'' @ operation)
          (control_event_attributes event operation (loose_text control_outcome_value (ce_outcome event))))"

record line_stream_report =
  lr_exec_id :: nat
  lr_phase :: ustr
  lr_pid :: "int option"
  lr_stream :: "ustr option"
  lr_sink :: "ustr option"
  lr_queue_size :: "int option"
  lr_queue_capacity :: "int option"
  lr_error_type :: "ustr option"

definition line_stream_attributes :: "line_stream_report \<Rightarrow> attrs" where
  "line_stream_attributes event =
    (lit ''phase'', Attr_text (lr_phase event)) #
    present
     [(lit ''pid'', map_option Attr_int (lr_pid event)),
      (lit ''stream'', map_option Attr_text (lr_stream event)),
      (lit ''sink'', map_option Attr_text (lr_sink event)),
      (lit ''queue_size'', map_option Attr_int (lr_queue_size event)),
      (lit ''queue_capacity'', map_option Attr_int (lr_queue_capacity event)),
      (lit ''error_type'', map_option Attr_text (lr_error_type event))]"

definition cleanup_suffix :: "pump_phase \<Rightarrow> ustr option" where
  "cleanup_suffix p =
    (case p of
       Pump_cleanup_started \<Rightarrow> Some (lit ''started'')
     | Pump_cleanup_completed \<Rightarrow> Some (lit ''completed'')
     | Pump_cleanup_grace_expired \<Rightarrow> Some (lit ''grace_expired'')
     | Pump_cleanup_deferred \<Rightarrow> Some (lit ''deferred'')
     | _ \<Rightarrow> None)"

definition build_cleanup_attributes :: "pump_event \<Rightarrow> ustr \<Rightarrow> attrs" where
  "build_cleanup_attributes event outcome =
    [(lit ''operation'', Attr_text (lit ''native_pump_cleanup'')), (lit ''outcome'', Attr_text outcome)] @
    present
     [(lit ''duration_s'', if pe_phase event = Pump_cleanup_completed then map_option Attr_float (pe_duration_s event) else None),
      (lit ''elapsed_s'', if pe_phase event = Pump_cleanup_grace_expired then map_option Attr_float (pe_elapsed_s event) else None)]"

section \<open>Steps\<close>

text \<open>A call of the hook, or of one of its recorders.\<close>

datatype trace_input =
    Exec_input telemetry_event "ustr option"
  | Control_input control_event
  | Line_stream_input line_stream_report
  | Pump_input pump_event

text \<open>The span operations an event records on the open span of its execution, if it records any.\<close>

definition recorded_ops :: "bool \<Rightarrow> trace_input \<Rightarrow> (nat \<times> span_op list) option" where
  "recorded_ops record_output input =
    (case input of
       Exec_input event _ \<Rightarrow>
         (case er_exec_id (rest event) of
            None \<Rightarrow> None
          | Some token \<Rightarrow>
              (let p = phase_of event
               in if p \<in> {Ph_stdout, Ph_stderr} then
                    (if record_output
                     then Some (token, [Add_event (lit ''cuprum.'' @ phase_name p) (span_event_attributes event)])
                     else None)
                  else if p \<in> {Ph_stdin_error, Ph_stdio_error, Ph_timeout, Ph_teardown_error,
                      Ph_capture_eof_grace_expired, Ph_group_teardown} then
                    Some (token, [Add_event (lit ''cuprum.'' @ phase_name p) (span_event_attributes event)])
                  else if p = Ph_pipeline_fail_fast then
                    Some (token, [Add_event (lit ''cuprum.pipeline_fail_fast'') (fail_fast_attributes event)])
                  else if p = Ph_exit then
                    Some (token, map (\<lambda>(key, v). Set_attribute key v) (exit_attributes event))
                  else None))
     | Control_input event \<Rightarrow>
         (case ce_exec_id event of None \<Rightarrow> None | Some token \<Rightarrow> Some (token, [control_span_event event]))
     | Line_stream_input event \<Rightarrow>
         Some (lr_exec_id event, [Add_event (lit ''cuprum.line_stream'') (line_stream_attributes event)])
     | Pump_input event \<Rightarrow>
         (case (cleanup_suffix (pe_phase event), pe_exec_id event) of
            (Some outcome, Some token) \<Rightarrow>
              Some (token, [Add_event (lit ''cuprum.cleanup_'' @ outcome) (build_cleanup_attributes event outcome)])
          | _ \<Rightarrow> None))"

text \<open>The first section of a handler: the tracer is called, or the registry is read or popped.\<close>

definition begin_handler :: "bool \<Rightarrow> trace_input \<Rightarrow> tracing \<Rightarrow> tracing \<times> handler option" where
  "begin_handler record_output input s =
    (case input of
       Exec_input event original_project_tag \<Rightarrow>
         (case (phase_of event, er_exec_id (rest event), er_terminal_outcome (rest event)) of
            (Ph_start, Some token, _) \<Rightarrow>
              let new = \<lparr>sn_name = lit ''cuprum.exec '' @ er_program (rest event),
                    sn_initial = build_tracing_attributes event original_project_tag, sn_owner = token,
                    sn_ops = [], sn_closed = False\<rparr>
              in (s\<lparr>tr_spans := tr_spans s @ [new]\<rparr>, Some (Install token (length (tr_spans s))))
          | (Ph_settled, Some token, Some outcome) \<Rightarrow>
              (s\<lparr>tr_active := (tr_active s)(token := None)\<rparr>,
               map_option (\<lambda>i. Settle_on i outcome) (tr_active s token))
          | _ \<Rightarrow>
              (s, case recorded_ops record_output input of
                    None \<Rightarrow> None
                  | Some (token, ops) \<Rightarrow> map_option (\<lambda>i. Record_on i ops) (tr_active s token)))
     | _ \<Rightarrow>
         (s, case recorded_ops record_output input of
               None \<Rightarrow> None
             | Some (token, ops) \<Rightarrow> map_option (\<lambda>i. Record_on i ops) (tr_active s token)))"

text \<open>A section under the lock of a span: nothing is done to a closed one.\<close>

definition on_open_span :: "nat \<Rightarrow> span_op list \<Rightarrow> bool \<Rightarrow> tracing \<Rightarrow> tracing" where
  "on_open_span i ops close s =
    (let sp = tr_spans s ! i
     in if sn_closed sp then s
        else s\<lparr>tr_spans := (tr_spans s)[i := sp\<lparr>sn_ops := sn_ops sp @ ops, sn_closed := close\<rparr>]\<rparr>)"

fun continue_handler :: "handler \<Rightarrow> tracing \<Rightarrow> tracing \<times> handler option" where
  "continue_handler (Install token i) s =
    (s\<lparr>tr_active := (tr_active s)(token \<mapsto> i)\<rparr>, map_option Fail_stale (tr_active s token))"
| "continue_handler (Fail_stale i) s = (on_open_span i [Set_status False, End_span] True s, None)"
| "continue_handler (Record_on i ops) s = (on_open_span i ops False s, None)"
| "continue_handler (Settle_on i outcome) s =
    (on_open_span i
      [Set_attribute (lit ''cuprum.terminal_outcome'') (Attr_text (outcome_value outcome)),
       Set_status (outcome = Exit_zero), End_span] True s, None)"

text \<open>A call: a free thread begins a handler; or a thread goes on with the one it is in.\<close>

datatype trace_label = Call_hook nat trace_input | Go_on nat

inductive trace_step :: "bool \<Rightarrow> tracing \<Rightarrow> trace_label \<Rightarrow> tracing \<Rightarrow> bool" for record_output where
  call: "tr_handlers s t = None \<Longrightarrow> begin_handler record_output input s = (s', h) \<Longrightarrow>
    trace_step record_output s (Call_hook t input) (s'\<lparr>tr_handlers := (tr_handlers s)(t := h)\<rparr>)"
| go_on: "tr_handlers s t = Some h \<Longrightarrow> continue_handler h s = (s', h') \<Longrightarrow>
    trace_step record_output s (Go_on t) (s'\<lparr>tr_handlers := (tr_handlers s)(t := h')\<rparr>)"

inductive trace_run :: "bool \<Rightarrow> tracing \<Rightarrow> trace_label list \<Rightarrow> tracing \<Rightarrow> bool" for record_output where
  no_step: "trace_run record_output s [] s"
| step: "trace_run record_output s ls s' \<Longrightarrow> trace_step record_output s' l s'' \<Longrightarrow>
    trace_run record_output s (ls @ [l]) s''"

inductive_cases trace_stepE: "trace_step record_output s l s'"


section \<open>Custody\<close>

text \<open>
  Every open span has exactly one custodian who will close it or pass it on: its entry of the registry, or
  the one handler that is about to install, fail or settle it.
\<close>

fun keeps :: "handler \<Rightarrow> nat \<Rightarrow> bool" where
  "keeps (Install token j) i = (i = j)"
| "keeps (Fail_stale j) i = (i = j)"
| "keeps (Record_on j ops) i = False"
| "keeps (Settle_on j outcome) i = (i = j)"

datatype custodian = Registry nat | Thread nat

fun has_custody :: "tracing \<Rightarrow> custodian \<Rightarrow> nat \<Rightarrow> bool" where
  "has_custody s (Registry token) i = (tr_active s token = Some i)"
| "has_custody s (Thread t) i = (case tr_handlers s t of None \<Rightarrow> False | Some h \<Rightarrow> keeps h i)"

fun closing_op :: "span_op \<Rightarrow> bool" where
  "closing_op (Set_status ok) = True"
| "closing_op End_span = True"
| "closing_op _ = False"

text \<open>A span is ended by its last operation, which follows the only status it is given.\<close>

definition span_shape :: "trace_span \<Rightarrow> bool" where
  "span_shape sp \<longleftrightarrow>
    (if sn_closed sp then \<exists>ops ok. sn_ops sp = ops @ [Set_status ok, End_span] \<and> list_all (\<lambda>x. \<not> closing_op x) ops
     else list_all (\<lambda>x. \<not> closing_op x) (sn_ops sp))"

fun handler_ok :: "tracing \<Rightarrow> handler \<Rightarrow> bool" where
  "handler_ok s (Install token i) = (i < length (tr_spans s) \<and> sn_owner (tr_spans s ! i) = token)"
| "handler_ok s (Fail_stale i) = (i < length (tr_spans s))"
| "handler_ok s (Record_on i ops) = (i < length (tr_spans s) \<and> list_all (\<lambda>x. \<not> closing_op x) ops)"
| "handler_ok s (Settle_on i outcome) = (i < length (tr_spans s))"

definition open_span :: "tracing \<Rightarrow> nat \<Rightarrow> bool" where
  "open_span s i \<longleftrightarrow> i < length (tr_spans s) \<and> \<not> sn_closed (tr_spans s ! i)"

definition custody_ok :: "tracing \<Rightarrow> bool" where
  "custody_ok s \<longleftrightarrow>
    (\<forall>x i. has_custody s x i \<longrightarrow> open_span s i) \<and>
    (\<forall>i. open_span s i \<longrightarrow> (\<exists>x. has_custody s x i)) \<and>
    (\<forall>x y i. has_custody s x i \<longrightarrow> has_custody s y i \<longrightarrow> x = y)"

definition tracing_ok :: "tracing \<Rightarrow> bool" where
  "tracing_ok s \<longleftrightarrow>
    list_all span_shape (tr_spans s) \<and>
    (\<forall>token i. tr_active s token = Some i \<longrightarrow> i < length (tr_spans s) \<and> sn_owner (tr_spans s ! i) = token) \<and>
    (\<forall>t h. tr_handlers s t = Some h \<longrightarrow> handler_ok s h) \<and>
    custody_ok s"

lemma recorded_ops_open:
  "recorded_ops ro input = Some (token, ops) \<Longrightarrow> list_all (\<lambda>x. \<not> closing_op x) ops"
  by (auto simp: recorded_ops_def control_span_event_def Let_def list_all_iff
      split: trace_input.splits option.splits if_splits)

definition settles :: "nat \<Rightarrow> terminal_outcome \<Rightarrow> trace_input \<Rightarrow> bool" where
  "settles token outcome input \<longleftrightarrow>
    (case input of
       Exec_input event tag \<Rightarrow> phase_of event = Ph_settled \<and> er_exec_id (rest event) = Some token \<and>
         er_terminal_outcome (rest event) = Some outcome
     | _ \<Rightarrow> False)"

text \<open>The start or the settlement of an execution.\<close>

definition boundary_of :: "nat \<Rightarrow> trace_input \<Rightarrow> bool" where
  "boundary_of token input \<longleftrightarrow>
    (case input of
       Exec_input event tag \<Rightarrow> er_exec_id (rest event) = Some token \<and>
         (phase_of event = Ph_start \<or> phase_of event = Ph_settled \<and> er_terminal_outcome (rest event) \<noteq> None)
     | _ \<Rightarrow> False)"

lemma settles_boundary: "settles token outcome input \<Longrightarrow> boundary_of token input"
  by (auto simp: settles_def boundary_of_def split: trace_input.splits)

text \<open>What the first section of a handler can be, by what it does to the state.\<close>

lemma begin_handler_cases:
  assumes "begin_handler ro input s = (s', h)"
  obtains (start) token new where "boundary_of token input" "recorded_ops ro input = None"
      "s' = s\<lparr>tr_spans := tr_spans s @ [new]\<rparr>" "sn_owner new = token" "sn_ops new = []"
      "\<not> sn_closed new" "h = Some (Install token (length (tr_spans s)))"
    | (settle) token i outcome where "settles token outcome input" "recorded_ops ro input = None"
      "tr_active s token = Some i" "s' = s\<lparr>tr_active := (tr_active s)(token := None)\<rparr>"
      "h = Some (Settle_on i outcome)"
    | (note_on) token i ops where "recorded_ops ro input = Some (token, ops)" "tr_active s token = Some i"
      "s' = s" "h = Some (Record_on i ops)"
    | (ignore) "\<And>token ops. recorded_ops ro input = Some (token, ops) \<Longrightarrow> tr_active s token = None"
      "s' = s" "h = None"
proof -
  have unnamed: "tr_active s token = None \<Longrightarrow> s\<lparr>tr_active := (tr_active s)(token := None)\<rparr> = s" for token
    by (simp add: fun_upd_idem)
  have other: thesis if "s' = s" "h = (case recorded_ops ro input of
      None \<Rightarrow> None | Some (token, ops) \<Rightarrow> map_option (\<lambda>i. Record_on i ops) (tr_active s token))"
  proof (cases "recorded_ops ro input")
    case None
    then show thesis using that ignore by simp
  next
    case (Some r)
    then show thesis
      using that ignore note_on [of "fst r" "snd r"] by (cases r; cases "tr_active s (fst r)") auto
  qed
  show thesis
  proof (cases input)
    case (Exec_input event tag)
    note here = this
    show thesis
    proof (cases "phase_of event = Ph_start \<and> er_exec_id (rest event) \<noteq> None")
      case True
      then have "recorded_ops ro input = None"
        by (auto simp: here recorded_ops_def)
      with True show thesis
        using assms here start by (auto simp: begin_handler_def Let_def boundary_of_def)
    next
      case no_start: False
      show thesis
      proof (cases "phase_of event = Ph_settled \<and> er_exec_id (rest event) \<noteq> None \<and> er_terminal_outcome (rest event) \<noteq> None")
        case True
        then obtain token outcome where settled: "settles token outcome input" "recorded_ops ro input = None"
          "s' = s\<lparr>tr_active := (tr_active s)(token := None)\<rparr>"
          "h = map_option (\<lambda>i. Settle_on i outcome) (tr_active s token)"
          using assms here by (auto simp: begin_handler_def settles_def recorded_ops_def)
        show thesis
        proof (cases "tr_active s token")
          case None
          then show thesis using settled unnamed [OF None] by (intro ignore) auto
        next
          case (Some i)
          then show thesis using settled by (intro settle [OF settled(1,2) Some settled(3)]) simp
        qed
      next
        case False
        then show thesis
          using assms here no_start
          by (intro other) (auto simp: begin_handler_def split: exec_phase.splits option.splits)
      qed
    qed
  qed (use assms in \<open>auto simp: begin_handler_def intro!: other\<close>)
qed

lemma custody_okI:
  assumes "\<And>x i. has_custody s x i \<Longrightarrow> open_span s i"
    and "\<And>i. open_span s i \<Longrightarrow> \<exists>x. has_custody s x i"
    and "\<And>x y i. has_custody s x i \<Longrightarrow> has_custody s y i \<Longrightarrow> x = y"
  shows "custody_ok s"
  using assms unfolding custody_ok_def by blast

lemma custody_okD:
  assumes "custody_ok s"
  shows "has_custody s x i \<Longrightarrow> open_span s i"
    and "open_span s i \<Longrightarrow> \<exists>x. has_custody s x i"
    and "has_custody s x i \<Longrightarrow> has_custody s y i \<Longrightarrow> x = y"
  using assms unfolding custody_ok_def by blast+

text \<open>Custody that moves from one holder to another, or is given up when a span is closed.\<close>

lemma custody_moved:
  assumes ok: "custody_ok s"
    and opens: "\<And>i. open_span s' i \<longleftrightarrow> open_span s i \<and> i \<notin> gone"
    and moved: "\<And>x i. has_custody s' x i \<longleftrightarrow> (\<exists>y. has_custody s y i \<and> x = heir y i) \<and> i \<notin> gone"
  shows "custody_ok s'"
proof (rule custody_okI)
  show "has_custody s' x i \<Longrightarrow> open_span s' i" for x i
    using moved opens custody_okD(1) [OF ok] by blast
  show "\<exists>x. has_custody s' x i" if "open_span s' i" for i
  proof -
    from that have "open_span s i" "i \<notin> gone" using opens by simp_all
    moreover from this(1) obtain y where "has_custody s y i" using custody_okD(2) [OF ok] by blast
    ultimately have "has_custody s' (heir y i) i" unfolding moved by blast
    then show ?thesis ..
  qed
  show "x = y" if "has_custody s' x i" "has_custody s' y i" for x y i
  proof -
    from that obtain u v where "has_custody s u i" "x = heir u i" "has_custody s v i" "y = heir v i"
      unfolding moved by blast
    moreover from this have "u = v" using custody_okD(3) [OF ok] by blast
    ultimately show ?thesis by simp
  qed
qed

lemma open_span_close:
  "open_span (on_open_span j ops close s) i \<longleftrightarrow> open_span s i \<and> \<not> (close \<and> i = j)"
  by (cases "j < length (tr_spans s)")
    (auto simp: open_span_def on_open_span_def Let_def nth_list_update list_update_beyond)

lemma on_open_span_simps [simp]:
  "tr_active (on_open_span i ops close s) = tr_active s"
  "tr_handlers (on_open_span i ops close s) = tr_handlers s"
  "length (tr_spans (on_open_span i ops close s)) = length (tr_spans s)"
  by (simp_all add: on_open_span_def Let_def)

lemma sn_owner_on_open_span [simp]:
  "sn_owner (tr_spans (on_open_span i ops close s) ! j) = sn_owner (tr_spans s ! j)"
  by (cases "i < length (tr_spans s)") (auto simp: on_open_span_def Let_def nth_list_update list_update_beyond)

lemma open_span_handlers [simp]: "open_span (s\<lparr>tr_handlers := h\<rparr>) i = open_span s i"
  "open_span (s\<lparr>tr_active := a\<rparr>) i = open_span s i"
  by (simp_all add: open_span_def)

lemma on_open_span_shape:
  assumes "list_all span_shape (tr_spans s)" "i < length (tr_spans s)"
    and "if close then \<exists>pre ok. ops = pre @ [Set_status ok, End_span] \<and> list_all (\<lambda>x. \<not> closing_op x) pre
      else list_all (\<lambda>x. \<not> closing_op x) ops"
  shows "list_all span_shape (tr_spans (on_open_span i ops close s))"
proof -
  let ?sp = "tr_spans s ! i"
  have sp: "span_shape ?sp" using assms(1,2) by (simp add: list_all_length)
  show ?thesis
  proof (cases "sn_closed ?sp")
    case True
    then show ?thesis using assms(1) by (simp add: on_open_span_def)
  next
    case False
    have "span_shape (?sp\<lparr>sn_ops := sn_ops ?sp @ ops, sn_closed := close\<rparr>)"
    proof (cases close)
      case True
      then obtain pre ok where "ops = pre @ [Set_status ok, End_span]" "list_all (\<lambda>x. \<not> closing_op x) pre"
        using assms(3) by auto
      then show ?thesis
        using sp False True by (auto simp: span_shape_def intro!: exI [of _ "sn_ops ?sp @ pre"])
    next
      case False
      then show ?thesis using assms(3) sp \<open>\<not> sn_closed ?sp\<close> by (simp add: span_shape_def)
    qed
    then show ?thesis
      using False assms(1,2) by (auto simp: on_open_span_def Let_def list_all_length nth_list_update)
  qed
qed

lemma handler_ok_cong:
  assumes "length (tr_spans s) \<le> length (tr_spans s')"
    "\<And>i. i < length (tr_spans s) \<Longrightarrow> sn_owner (tr_spans s' ! i) = sn_owner (tr_spans s ! i)"
    "handler_ok s h"
  shows "handler_ok s' h"
  using assms by (cases h) (auto intro: less_le_trans)

definition framed :: "tracing \<Rightarrow> bool" where
  "framed s \<longleftrightarrow> list_all span_shape (tr_spans s) \<and>
    (\<forall>token i. tr_active s token = Some i \<longrightarrow> i < length (tr_spans s) \<and> sn_owner (tr_spans s ! i) = token) \<and>
    (\<forall>t h. tr_handlers s t = Some h \<longrightarrow> handler_ok s h)"

lemma tracing_ok_framed: "tracing_ok s \<longleftrightarrow> framed s \<and> custody_ok s"
  unfolding tracing_ok_def framed_def by blast

lemma framedD:
  assumes "framed s"
  shows "list_all span_shape (tr_spans s)"
    and "tr_active s token = Some i \<Longrightarrow> i < length (tr_spans s) \<and> sn_owner (tr_spans s ! i) = token"
    and "tr_handlers s t = Some h \<Longrightarrow> handler_ok s h"
  using assms unfolding framed_def by blast+

lemma framedI:
  assumes "list_all span_shape (tr_spans s)"
    and "\<And>token i. tr_active s token = Some i \<Longrightarrow> i < length (tr_spans s) \<and> sn_owner (tr_spans s ! i) = token"
    and "\<And>t h. tr_handlers s t = Some h \<Longrightarrow> handler_ok s h"
  shows "framed s"
  using assms unfolding framed_def by blast

lemma framed_extend:
  assumes ok: "framed s" and spans: "tr_spans s' = tr_spans s @ new" "list_all span_shape new"
    and active: "\<And>token i. tr_active s' token = Some i \<Longrightarrow> tr_active s token = Some i"
    and handler: "\<And>k. h = Some k \<Longrightarrow> handler_ok s' k"
  shows "framed (s'\<lparr>tr_handlers := (tr_handlers s)(t := h)\<rparr>)"
proof -
  let ?s = "s'\<lparr>tr_handlers := (tr_handlers s)(t := h)\<rparr>"
  have "handler_ok ?s k" if "tr_handlers s u = Some k" for u k
    using framedD(3) [OF ok that] by (rule handler_ok_cong [rotated 2]) (simp_all add: spans nth_append)
  moreover have "handler_ok ?s k" if "h = Some k" for k
    using handler [OF that] by (rule handler_ok_cong [rotated 2]) simp_all
  moreover have "i < length (tr_spans ?s) \<and> sn_owner (tr_spans ?s ! i) = token" if "tr_active ?s token = Some i" for token i
  proof -
    have "tr_active s token = Some i" using active that by simp
    from framedD(2) [OF ok this] show ?thesis by (simp add: spans nth_append)
  qed
  ultimately show ?thesis
    using framedD(1) [OF ok] spans by (intro framedI) (auto split: if_splits)
qed

lemma framed_call:
  assumes ok: "framed s" and begun: "begin_handler ro input s = (s', h)"
  shows "framed (s'\<lparr>tr_handlers := (tr_handlers s)(t := h)\<rparr>)"
  using begun
proof (cases rule: begin_handler_cases)
  case (start token new)
  have "span_shape new" using start by (simp add: span_shape_def)
  with start show ?thesis by (intro framed_extend [OF ok, of s' "[new]"]) auto
next
  case (settle token i outcome)
  then have "i < length (tr_spans s)" using framedD(2) [OF ok] by blast
  with settle show ?thesis by (intro framed_extend [OF ok, of s' "[]"]) (auto split: if_splits)
next
  case (note_on token i ops)
  then have "i < length (tr_spans s)" using framedD(2) [OF ok] by blast
  with note_on recorded_ops_open [OF note_on(1)] show ?thesis by (intro framed_extend [OF ok, of s' "[]"]) auto
next
  case ignore
  then show ?thesis by (intro framed_extend [OF ok, of s' "[]"]) auto
qed

lemma framed_go_on:
  assumes ok: "framed s" and busy: "tr_handlers s t = Some h" and went: "continue_handler h s = (s', h')"
  shows "framed (s'\<lparr>tr_handlers := (tr_handlers s)(t := h')\<rparr>)"
proof -
  let ?s = "s'\<lparr>tr_handlers := (tr_handlers s)(t := h')\<rparr>"
  note hok = framedD(3) [OF ok busy] and shapes = framedD(1) [OF ok]
  have spans: "length (tr_spans s') = length (tr_spans s)"
    "\<And>i. sn_owner (tr_spans s' ! i) = sn_owner (tr_spans s ! i)"
    using went by (cases h; auto)+
  have old: "handler_ok ?s k" if "tr_handlers s u = Some k" for u k
    using framedD(3) [OF ok that] by (rule handler_ok_cong [rotated 2]) (simp_all add: spans)
  have new: "handler_ok ?s k" if "h' = Some k" for k
    using went that hok framedD(2) [OF ok] by (cases h) auto
  have active: "i < length (tr_spans s) \<and> sn_owner (tr_spans s ! i) = token" if "tr_active s' token = Some i" for token i
    using went that hok framedD(2) [OF ok, of token i] by (cases h) (auto split: if_splits)
  have shape: "list_all span_shape (tr_spans s')"
  proof (cases h)
    case (Settle_on i outcome)
    have "\<exists>pre ok. [Set_attribute (lit ''cuprum.terminal_outcome'') (Attr_text (outcome_value outcome)),
        Set_status (outcome = Exit_zero), End_span] = pre @ [Set_status ok, End_span] \<and> list_all (\<lambda>x. \<not> closing_op x) pre"
      by (intro exI [of _ "[Set_attribute (lit ''cuprum.terminal_outcome'') (Attr_text (outcome_value outcome))]"]) simp
    then show ?thesis
      using shapes went hok Settle_on by (auto intro!: on_open_span_shape)
  next
    case (Fail_stale i)
    then show ?thesis
      using shapes went hok by (auto intro!: on_open_span_shape)
  next
    case (Record_on i ops)
    then show ?thesis
      using shapes went hok by (auto intro!: on_open_span_shape)
  qed (use shapes went in auto)
  show ?thesis
    using shape active old new spans by (intro framedI) (auto split: if_splits)
qed


lemma has_custody_handlers [simp]:
  "has_custody (s\<lparr>tr_handlers := (tr_handlers r)(t := h)\<rparr>) x i \<longleftrightarrow>
    (case x of Registry token \<Rightarrow> tr_active s token = Some i
     | Thread u \<Rightarrow> (case (if u = t then h else tr_handlers r u) of None \<Rightarrow> False | Some k \<Rightarrow> keeps k i))"
  by (cases x) simp_all

lemma custody_same:
  assumes "custody_ok s" "\<And>i. open_span s' i = open_span s i" "\<And>x i. has_custody s' x i = has_custody s x i"
  shows "custody_ok s'"
  using custody_moved [of s s' "{}" "\<lambda>x i. x"] assms by simp

definition swapped :: "nat \<Rightarrow> nat \<Rightarrow> custodian \<Rightarrow> custodian" where
  "swapped t token x = (if x = Thread t then Registry token else if x = Registry token then Thread t else x)"

lemma custody_swapped:
  assumes ok: "custody_ok s" and opens: "\<And>i. open_span s' i = open_span s i"
    and held: "\<And>x i. has_custody s' x i = has_custody s (swapped t token x) i"
  shows "custody_ok s'"
proof (rule custody_moved [OF ok, of s' "{}" "\<lambda>y i. swapped t token y"])
  have "x = swapped t token y \<longleftrightarrow> y = swapped t token x" for x y
    by (auto simp: swapped_def)
  then show "has_custody s' x i \<longleftrightarrow> (\<exists>y. has_custody s y i \<and> x = swapped t token y) \<and> i \<notin> {}" for x i
    by (simp add: held)
qed (simp add: opens)

lemma custody_call:
  assumes ok: "custody_ok s" and free: "tr_handlers s t = None" and begun: "begin_handler ro input s = (s', h)"
  shows "custody_ok (s'\<lparr>tr_handlers := (tr_handlers s)(t := h)\<rparr>)" (is "custody_ok ?s")
  using begun
proof (cases rule: begin_handler_cases)
  case (start token new)
  let ?n = "length (tr_spans s)"
  have old: "has_custody s x i \<Longrightarrow> i < ?n" for x i
    using custody_okD(1) [OF ok] by (auto simp: open_span_def)
  have held: "has_custody ?s x i \<longleftrightarrow> has_custody s x i \<or> x = Thread t \<and> i = ?n" for x i
    using start free by (cases x) auto
  have opens: "open_span ?s i \<longleftrightarrow> open_span s i \<or> i = ?n" for i
    using start by (auto simp: open_span_def nth_append)
  show ?thesis
  proof (rule custody_okI)
    show "has_custody ?s x i \<Longrightarrow> open_span ?s i" for x i
      unfolding held opens using custody_okD(1) [OF ok] by blast
    show "open_span ?s i \<Longrightarrow> \<exists>x. has_custody ?s x i" for i
      unfolding held opens using custody_okD(2) [OF ok] by blast
    show "has_custody ?s x i \<Longrightarrow> has_custody ?s y i \<Longrightarrow> x = y" for x y i
      unfolding held using custody_okD(3) [OF ok] old [of x i] old [of y i] by auto
  qed
next
  case (settle token j outcome)
  have "has_custody ?s x i = has_custody s (swapped t token x) i" for x i
    using settle free by (cases x) (auto simp: swapped_def)
  then show ?thesis
    by (rule custody_swapped [OF ok, rotated]) (simp add: settle)
next
  case (note_on token j ops)
  then have "has_custody ?s x i = has_custody s x i" for x i
    using free by (cases x) auto
  then show ?thesis
    by (rule custody_same [OF ok, rotated]) (simp add: note_on)
next
  case ignore
  then have "has_custody ?s x i = has_custody s x i" for x i
    using free by (cases x) auto
  then show ?thesis
    by (rule custody_same [OF ok, rotated]) (simp add: ignore)
qed

lemma custody_closed:
  assumes ok: "custody_ok s" and busy: "tr_handlers s t = Some h" "\<And>i. keeps h i \<longleftrightarrow> i = j"
  shows "custody_ok ((on_open_span j ops True s)\<lparr>tr_handlers := (tr_handlers s)(t := None)\<rparr>)" (is "custody_ok ?s")
proof -
  have mine: "has_custody s (Thread t) i \<longleftrightarrow> i = j" for i using busy by simp
  have held: "has_custody ?s x i \<longleftrightarrow> has_custody s x i \<and> x \<noteq> Thread t" for x i
    by (cases x) auto
  show ?thesis
  proof (rule custody_moved [OF ok, of ?s "{j}" "\<lambda>x i. x"])
    show "has_custody ?s x i \<longleftrightarrow> (\<exists>y. has_custody s y i \<and> x = y) \<and> i \<notin> {j}" for x i
      unfolding held using mine custody_okD(3) [OF ok] by blast
  qed (simp add: open_span_close)
qed

lemma custody_go_on:
  assumes ok: "custody_ok s" and busy: "tr_handlers s t = Some h" and went: "continue_handler h s = (s', h')"
  shows "custody_ok (s'\<lparr>tr_handlers := (tr_handlers s)(t := h')\<rparr>)" (is "custody_ok ?s")
proof (cases h)
  case (Install token j)
  have s': "s' = s\<lparr>tr_active := (tr_active s)(token \<mapsto> j)\<rparr>" "h' = map_option Fail_stale (tr_active s token)"
    using went Install by auto
  have "has_custody ?s x i = has_custody s (swapped t token x) i" for x i
    using s' busy Install by (cases x) (auto simp: swapped_def split: option.split)
  then show ?thesis
    by (rule custody_swapped [OF ok, rotated]) (simp add: s')
next
  case (Fail_stale j)
  then show ?thesis using went custody_closed [OF ok busy, of j] by auto
next
  case (Settle_on j outcome)
  then show ?thesis using went custody_closed [OF ok busy, of j] by auto
next
  case (Record_on j ops)
  have s': "s' = on_open_span j ops False s" "h' = None" using went Record_on by auto
  have "has_custody ?s x i = has_custody s x i" for x i
    using s' busy Record_on by (cases x) auto
  then show ?thesis
    by (intro custody_same [OF ok]) (simp_all add: s' open_span_close del: has_custody_handlers)
qed

lemma tracing_ok_step: "trace_step ro s l s' \<Longrightarrow> tracing_ok s \<Longrightarrow> tracing_ok s'"
  unfolding tracing_ok_framed
  by (auto elim!: trace_stepE intro: framed_call framed_go_on custody_call custody_go_on)

lemma tracing_ok_initial: "tracing_ok no_tracing"
  unfolding tracing_ok_framed
  by (auto simp: framed_def no_tracing_def open_span_def intro!: custody_okI elim!: has_custody.elims)

lemma tracing_ok_run: "trace_run ro s ls s' \<Longrightarrow> tracing_ok s \<Longrightarrow> tracing_ok s'"
  by (induction rule: trace_run.induct) (auto intro: tracing_ok_step)


section \<open>Attribution\<close>

text \<open>The operations that may appear on a span of an execution, given the calls made so far.\<close>

definition closing_attribute :: "terminal_outcome \<Rightarrow> span_op" where
  "closing_attribute outcome = Set_attribute (lit ''cuprum.terminal_outcome'') (Attr_text (outcome_value outcome))"

definition justified :: "bool \<Rightarrow> trace_label list \<Rightarrow> nat \<Rightarrow> span_op \<Rightarrow> bool" where
  "justified ro ls token op \<longleftrightarrow>
    closing_op op \<or>
    (\<exists>t input. Call_hook t input \<in> set ls \<and>
      ((\<exists>ops. recorded_ops ro input = Some (token, ops) \<and> op \<in> set ops) \<or>
       (\<exists>outcome. settles token outcome input \<and> op = closing_attribute outcome)))"

fun handler_justified :: "bool \<Rightarrow> trace_label list \<Rightarrow> tracing \<Rightarrow> handler \<Rightarrow> bool" where
  "handler_justified ro ls s (Record_on i ops) = list_all (justified ro ls (sn_owner (tr_spans s ! i))) ops"
| "handler_justified ro ls s (Settle_on i outcome) =
    justified ro ls (sn_owner (tr_spans s ! i)) (closing_attribute outcome)"
| "handler_justified ro ls s _ = True"

definition attributed :: "bool \<Rightarrow> trace_label list \<Rightarrow> tracing \<Rightarrow> bool" where
  "attributed ro ls s \<longleftrightarrow>
    list_all (\<lambda>sp. list_all (justified ro ls (sn_owner sp)) (sn_ops sp)) (tr_spans s) \<and>
    (\<forall>t h. tr_handlers s t = Some h \<longrightarrow> handler_justified ro ls s h)"

lemma justified_more: "justified ro ls token op \<Longrightarrow> justified ro (ls @ ms) token op"
  unfolding justified_def by auto

lemma justified_settle:
  "settles token outcome input \<Longrightarrow> justified ro (ls @ [Call_hook t input]) token (closing_attribute outcome)"
  unfolding justified_def by auto

lemma attributedD:
  assumes "attributed ro ls s"
  shows "i < length (tr_spans s) \<Longrightarrow> list_all (justified ro ls (sn_owner (tr_spans s ! i))) (sn_ops (tr_spans s ! i))"
    and "tr_handlers s t = Some h \<Longrightarrow> handler_justified ro ls s h"
  using assms by (auto simp: attributed_def list_all_length)

lemma handler_justified_cong:
  assumes "handler_justified ro ls s h" "handler_ok s h"
    and "\<And>i. i < length (tr_spans s) \<Longrightarrow> sn_owner (tr_spans s' ! i) = sn_owner (tr_spans s ! i)"
  shows "handler_justified ro (ls @ ms) s' h"
  using assms by (cases h) (auto simp: list_all_iff intro: justified_more)

lemma attributed_call:
  assumes att: "attributed ro ls s" and ok: "framed s"
    and begun: "begin_handler ro input s = (s', h)"
  shows "attributed ro (ls @ [Call_hook t input]) (s'\<lparr>tr_handlers := (tr_handlers s)(t := h)\<rparr>)"
proof -
  let ?ls = "ls @ [Call_hook t input]" and ?s = "s'\<lparr>tr_handlers := (tr_handlers s)(t := h)\<rparr>"
  have "\<exists>new. tr_spans s' = tr_spans s @ new \<and> list_all (\<lambda>sp. sn_ops sp = []) new"
    using begun
  proof (cases rule: begin_handler_cases)
    case (start token new)
    then show ?thesis by (intro exI [of _ "[new]"]) simp
  qed (auto intro: exI [of _ "[]"])
  then obtain new where spans: "tr_spans s' = tr_spans s @ new" "list_all (\<lambda>sp. sn_ops sp = []) new"
    by blast
  have owners: "sn_owner (tr_spans ?s ! i) = sn_owner (tr_spans s ! i)" if "i < length (tr_spans s)" for i
    using that by (simp add: spans nth_append)
  have old: "handler_justified ro ?ls ?s k" if "tr_handlers s u = Some k" for u k
    using attributedD(2) [OF att that] framedD(3) [OF ok that] owners by (rule handler_justified_cong)
  have new_handler: "handler_justified ro ?ls ?s k" if "h = Some k" for k
    using begun
  proof (cases rule: begin_handler_cases)
    case (settle token i outcome)
    then have k: "k = Settle_on i outcome" using that by simp
    have "i < length (tr_spans s)" "sn_owner (tr_spans s ! i) = token"
      using framedD(2) [OF ok settle(3)] by simp_all
    then show ?thesis
      using owners settle(1) by (simp add: k justified_settle)
  next
    case (note_on token i ops)
    then have "i < length (tr_spans s)" "sn_owner (tr_spans s ! i) = token"
      using framedD(2) [OF ok] by simp_all
    then show ?thesis
      using note_on that owners by (auto simp: list_all_iff justified_def)
  qed (use that in auto)
  have "list_all (\<lambda>sp. list_all (justified ro ?ls (sn_owner sp)) (sn_ops sp)) (tr_spans s)"
    using att by (auto simp: attributed_def list_all_iff intro: justified_more)
  then have "list_all (\<lambda>sp. list_all (justified ro ?ls (sn_owner sp)) (sn_ops sp)) (tr_spans ?s)"
    using spans by (auto simp: list_all_iff)
  then show ?thesis
    unfolding attributed_def using old new_handler by (auto split: if_splits)
qed

lemma attributed_on_open_span:
  assumes "list_all (\<lambda>sp. list_all (justified ro ls (sn_owner sp)) (sn_ops sp)) (tr_spans s)"
    and "i < length (tr_spans s)" "list_all (justified ro ls (sn_owner (tr_spans s ! i))) ops"
  shows "list_all (\<lambda>sp. list_all (justified ro ls (sn_owner sp)) (sn_ops sp)) (tr_spans (on_open_span i ops close s))"
  using assms by (auto simp: on_open_span_def Let_def list_all_length nth_list_update nth_append)

lemma attributed_go_on:
  assumes att: "attributed ro ls s" and ok: "framed s"
    and busy: "tr_handlers s t = Some h" and went: "continue_handler h s = (s', h')"
  shows "attributed ro (ls @ [Go_on t]) (s'\<lparr>tr_handlers := (tr_handlers s)(t := h')\<rparr>)"
proof -
  let ?ls = "ls @ [Go_on t]" and ?s = "s'\<lparr>tr_handlers := (tr_handlers s)(t := h')\<rparr>"
  note hok = framedD(3) [OF ok busy]
  have owners: "sn_owner (tr_spans ?s ! i) = sn_owner (tr_spans s ! i)" for i
    using went by (cases h) auto
  have all: "handler_justified ro ?ls ?s k" if "tr_handlers s u = Some k" for u k
    using attributedD(2) [OF att that] framedD(3) [OF ok that] owners by (rule handler_justified_cong)
  have next_handler: "handler_justified ro ?ls ?s k" if "h' = Some k" for k
    using went that by (cases h) auto
  have spans: "list_all (\<lambda>sp. list_all (justified ro ?ls (sn_owner sp)) (sn_ops sp)) (tr_spans s)"
    using att by (auto simp: attributed_def list_all_iff intro: justified_more)
  have mine: "handler_justified ro ?ls s h"
    using attributedD(2) [OF att busy] hok by (rule handler_justified_cong) simp
  have closers: "justified ro ?ls token (Set_status b)" "justified ro ?ls token End_span" for token b
    by (simp_all add: justified_def)
  have "list_all (\<lambda>sp. list_all (justified ro ?ls (sn_owner sp)) (sn_ops sp)) (tr_spans s')"
    using went hok mine spans closers
    by (cases h) (auto intro!: attributed_on_open_span simp flip: closing_attribute_def)
  then show ?thesis
    unfolding attributed_def using all next_handler by (auto split: if_splits)
qed

lemma attributed_run:
  "trace_run ro s ls s' \<Longrightarrow> tracing_ok s \<Longrightarrow> attributed ro [] s \<Longrightarrow> attributed ro ls s'"
proof (induction rule: trace_run.induct)
  case (step s ls s' l s'')
  then have "attributed ro ls s'" "framed s'"
    using tracing_ok_run by (auto simp: tracing_ok_framed)
  with step.hyps(2) show ?case
    by (auto elim!: trace_stepE intro: attributed_call attributed_go_on)
qed

lemma attributed_initial: "attributed ro [] no_tracing"
  by (simp add: attributed_def no_tracing_def)


section \<open>One call at a time\<close>

text \<open>A call that runs to its end before the next begins.\<close>

fun finish_handler :: "handler option \<Rightarrow> tracing \<Rightarrow> tracing" where
  "finish_handler None s = s"
| "finish_handler (Some h) s =
    (case continue_handler h s of
       (s, None) \<Rightarrow> s
     | (s, Some h) \<Rightarrow> fst (continue_handler h s))"

definition serial_call :: "bool \<Rightarrow> trace_input \<Rightarrow> tracing \<Rightarrow> tracing" where
  "serial_call ro input s = (case begin_handler ro input s of (s, h) \<Rightarrow> finish_handler h s)"

text \<open>\<open>serial_call\<close> is what the step relation does with one thread.\<close>

lemma continue_handler_handlers: "tr_handlers (fst (continue_handler h s)) = tr_handlers s"
  by (cases h) simp_all

lemma begin_handler_handlers: "begin_handler ro input s = (s', h) \<Longrightarrow> tr_handlers s' = tr_handlers s"
  by (rule begin_handler_cases) auto

lemma continue_twice: "continue_handler h s = (s', Some k) \<Longrightarrow> \<exists>i. k = Fail_stale i"
  by (cases h) auto

lemma continue_handler_blind:
  "continue_handler h (s\<lparr>tr_handlers := f\<rparr>) = (fst (continue_handler h s)\<lparr>tr_handlers := f\<rparr>, snd (continue_handler h s))"
  by (cases h) (auto simp: on_open_span_def Let_def)

lemma handlers_id: "tr_handlers s = f \<Longrightarrow> s\<lparr>tr_handlers := f\<rparr> = s"
  by simp

lemma serial_call_run:
  assumes free: "tr_handlers s t = None"
  shows "\<exists>ls. trace_run ro s (Call_hook t input # ls) (serial_call ro input s)"
proof -
  obtain s1 h where begun: "begin_handler ro input s = (s1, h)" by fastforce
  let ?s1 = "s1\<lparr>tr_handlers := (tr_handlers s)(t := h)\<rparr>"
  have h1: "tr_handlers s1 = tr_handlers s" using begin_handler_handlers [OF begun] .
  have idle: "(tr_handlers s)(t := None) = tr_handlers s" using free by auto
  have first: "trace_run ro s [Call_hook t input] ?s1"
    using trace_run.step [OF trace_run.no_step trace_step.call [OF free begun]] by simp
  show ?thesis
  proof (cases h)
    case None
    then have "?s1 = serial_call ro input s"
      using begun h1 idle by (simp add: serial_call_def handlers_id)
    then show ?thesis using first by metis
  next
    case (Some k)
    obtain s2 h' where went: "continue_handler k s1 = (s2, h')" by fastforce
    let ?s2 = "s2\<lparr>tr_handlers := (tr_handlers s)(t := h')\<rparr>"
    have h2: "tr_handlers s2 = tr_handlers s" using continue_handler_handlers [of k s1] went h1 by simp
    have "trace_step ro ?s1 (Go_on t) ?s2"
      using trace_step.go_on [of ?s1 t k _ h' ro] Some went continue_handler_blind [of k _ s1] by simp
    then have second: "trace_run ro s ([Call_hook t input] @ [Go_on t]) ?s2"
      using trace_run.step [OF first] by blast
    show ?thesis
    proof (cases h')
      case None
      then have "?s2 = serial_call ro input s"
        using begun Some went h2 idle by (simp add: serial_call_def handlers_id)
      then show ?thesis using second by (metis append_Cons append_Nil)
    next
      case (Some k')
      then obtain i where k': "k' = Fail_stale i" using continue_twice went by blast
      let ?s3 = "(fst (continue_handler k' s2))\<lparr>tr_handlers := (tr_handlers s)(t := None)\<rparr>"
      have "trace_step ro ?s2 (Go_on t) ?s3"
        using trace_step.go_on [of ?s2 t k' _ None ro] Some continue_handler_blind [of k' _ s2] by (simp add: k')
      then have "trace_run ro s (([Call_hook t input] @ [Go_on t]) @ [Go_on t]) ?s3"
        using trace_run.step [OF second] by blast
      moreover have "?s3 = serial_call ro input s"
        using begun \<open>h = Some k\<close> went Some h2 idle continue_handler_handlers [of k' s2]
        by (simp add: serial_call_def handlers_id)
      ultimately show ?thesis by (metis append_Cons append_Nil)
    qed
  qed
qed

lemma serial_call_handlers: "tr_handlers (serial_call ro input s) = tr_handlers s"
proof -
  obtain s1 h where begun: "begin_handler ro input s = (s1, h)" by fastforce
  have "tr_handlers (finish_handler h s1) = tr_handlers s1"
  proof (cases h)
    case (Some k)
    then show ?thesis
      using continue_handler_handlers [of k s1] continue_handler_handlers [of _ "fst (continue_handler k s1)"]
      by (auto split: prod.split option.split)
  qed simp
  then show ?thesis using begun begin_handler_handlers [OF begun] by (simp add: serial_call_def)
qed

lemma trace_run_append: "trace_run ro s' ms s'' \<Longrightarrow> trace_run ro s ls s' \<Longrightarrow> trace_run ro s (ls @ ms) s''"
proof (induction rule: trace_run.induct)
  case (step s' ms t l u)
  then show ?case using trace_run.step [of ro s "ls @ ms" t l u] by simp
qed simp

fun serial_calls :: "bool \<Rightarrow> trace_input list \<Rightarrow> tracing \<Rightarrow> tracing" where
  "serial_calls ro [] s = s"
| "serial_calls ro (input # inputs) s = serial_calls ro inputs (serial_call ro input s)"

lemma serial_calls_run: "tr_handlers s = Map.empty \<Longrightarrow> \<exists>ls. trace_run ro s ls (serial_calls ro inputs s)"
proof (induction inputs arbitrary: s)
  case Nil
  then show ?case using trace_run.no_step by auto
next
  case (Cons input inputs)
  then obtain ls where "trace_run ro s ls (serial_call ro input s)"
    using serial_call_run [of s 0 ro input] by auto
  moreover obtain ms where "trace_run ro (serial_call ro input s) ms (serial_calls ro inputs (serial_call ro input s))"
    using Cons.IH [of "serial_call ro input s"] Cons.prems by (auto simp: serial_call_handlers)
  ultimately show ?case using trace_run_append by fastforce
qed

lemma serial_calls_handlers: "tr_handlers (serial_calls ro inputs s) = tr_handlers s"
  by (induction inputs arbitrary: s) (simp_all add: serial_call_handlers)

lemma no_tracing_idle: "tr_handlers no_tracing = Map.empty"
  by (simp add: no_tracing_def)

definition tracks :: "tracing \<Rightarrow> nat \<Rightarrow> nat \<Rightarrow> bool" where
  "tracks s token i \<longleftrightarrow>
    i < length (tr_spans s) \<and> \<not> sn_closed (tr_spans s ! i) \<and> tr_active s token = Some i \<and>
    (\<forall>other. tr_active s other = Some i \<longrightarrow> other = token)"

definition ops_for :: "bool \<Rightarrow> nat \<Rightarrow> trace_input \<Rightarrow> span_op list" where
  "ops_for ro token input =
    (case recorded_ops ro input of None \<Rightarrow> [] | Some (t, ops) \<Rightarrow> if t = token then ops else [])"


lemma on_open_span_other: "j \<noteq> i \<Longrightarrow> tr_spans (on_open_span j ops close s) ! i = tr_spans s ! i"
  by (simp add: on_open_span_def Let_def)

lemma on_open_span_same:
  "i < length (tr_spans s) \<Longrightarrow> \<not> sn_closed (tr_spans s ! i) \<Longrightarrow>
    tr_spans (on_open_span i ops close s) ! i =
      (tr_spans s ! i)\<lparr>sn_ops := sn_ops (tr_spans s ! i) @ ops, sn_closed := close\<rparr>"
  by (simp add: on_open_span_def Let_def)

lemma tracksI:
  "i < length (tr_spans s) \<Longrightarrow> \<not> sn_closed (tr_spans s ! i) \<Longrightarrow> tr_active s token = Some i \<Longrightarrow>
    (\<And>u. tr_active s u = Some i \<Longrightarrow> u = token) \<Longrightarrow> tracks s token i"
  unfolding tracks_def by blast

text \<open>A call that neither starts nor settles the execution records what is its, and leaves the span tracked.\<close>

lemma serial_call_tracked:
  assumes tracked: "tracks s token i" and inner: "\<not> boundary_of token input" and s': "s' = serial_call ro input s"
  shows "tracks s' token i \<and>
    tr_spans s' ! i = (tr_spans s ! i)\<lparr>sn_ops := sn_ops (tr_spans s ! i) @ ops_for ro token input\<rparr>"
proof -
  have at: "i < length (tr_spans s)" "\<not> sn_closed (tr_spans s ! i)" "tr_active s token = Some i"
    and only: "\<And>u. tr_active s u = Some i \<Longrightarrow> u = token"
    using tracked by (auto simp: tracks_def)
  obtain s1 h where begun: "begin_handler ro input s = (s1, h)" by fastforce
  then have s'1: "s' = finish_handler h s1" by (simp add: s' serial_call_def)
  show ?thesis
    using begun
  proof (cases rule: begin_handler_cases)
    case (start t new)
    have t: "t \<noteq> token" using start(1) inner by auto
    let ?n = "length (tr_spans s)"
    have span: "tr_spans s1 ! i = tr_spans s ! i" "i < length (tr_spans s1)" using start(3) at(1) by (simp_all add: nth_append)
    have ops: "ops_for ro token input = []" using start(2) by (simp add: ops_for_def)
    show ?thesis
    proof (cases "tr_active s t")
      case None
      then have "s' = s1\<lparr>tr_active := (tr_active s)(t \<mapsto> ?n)\<rparr>"
        using s'1 start(3,7) by simp
      then show ?thesis using at t span ops start(3) by (auto intro!: tracksI split: if_splits dest: only)
    next
      case (Some j)
      then have "j \<noteq> i" using only t by auto
      moreover have "s' = on_open_span j [Set_status False, End_span] True (s1\<lparr>tr_active := (tr_active s)(t \<mapsto> ?n)\<rparr>)"
        using s'1 start(3,7) Some by simp
      ultimately show ?thesis using at t span ops start(3) by (auto intro!: tracksI simp: on_open_span_other split: if_splits dest: only)
    qed
  next
    case (settle t j outcome)
    have t: "t \<noteq> token" using settles_boundary [OF settle(1)] inner by auto
    then have "j \<noteq> i" using only settle(3) by auto
    moreover have "ops_for ro token input = []" using settle(2) by (simp add: ops_for_def)
    ultimately show ?thesis
      using at t s'1 settle(4,5) by (auto intro!: tracksI simp: on_open_span_other split: if_splits dest: only)
  next
    case (note_on t j ops)
    show ?thesis
    proof (cases "t = token")
      case True
      then have "j = i" using note_on(2) at(3) by simp
      moreover have "ops_for ro token input = ops" using True note_on(1) by (simp add: ops_for_def)
      ultimately show ?thesis
        using at s'1 note_on(3,4) by (auto intro!: tracksI simp: on_open_span_same dest: only)
    next
      case False
      then have "j \<noteq> i" using only note_on(2) by auto
      moreover have "ops_for ro token input = []" using False note_on(1) by (simp add: ops_for_def)
      ultimately show ?thesis
        using at s'1 note_on(3,4) by (auto intro!: tracksI simp: on_open_span_other dest: only)
    qed
  next
    case ignore
    then have "ops_for ro token input = []" using at(3) by (auto simp: ops_for_def split: option.splits)
    then show ?thesis using tracked ignore s'1 by simp
  qed
qed

lemma serial_calls_append: "serial_calls ro (xs @ ys) s = serial_calls ro ys (serial_calls ro xs s)"
  by (induction xs arbitrary: s) simp_all

lemma serial_calls_tracked:
  "tracks s token i \<Longrightarrow> list_all (\<lambda>x. \<not> boundary_of token x) inputs \<Longrightarrow>
    tracks (serial_calls ro inputs s) token i \<and>
    tr_spans (serial_calls ro inputs s) ! i =
      (tr_spans s ! i)\<lparr>sn_ops := sn_ops (tr_spans s ! i) @ concat (map (ops_for ro token) inputs)\<rparr>"
proof (induction inputs arbitrary: s)
  case (Cons x xs)
  then show ?case
    using serial_call_tracked [OF Cons.prems(1) _ refl, of x ro] by (auto simp del: serial_call_def)
qed simp


section \<open>Properties\<close>

text \<open>(C36) The life of spans under every interleaving of handlers.  A span is told one status and ended, once, by
  its last operations, or it is still open and has been told neither; an ended span is reachable by nobody.
  Whenever no call is in progress, the open spans are exactly those the registry holds, each under the
  token of its own execution: none is leaked, none is registered twice.\<close>

theorem span_lifecycle:
  assumes "trace_run ro no_tracing ls s"
  shows "list_all span_shape (tr_spans s) \<and>
    (\<forall>x i. i < length (tr_spans s) \<longrightarrow> has_custody s x i \<longrightarrow> \<not> sn_closed (tr_spans s ! i)) \<and>
    (tr_handlers s = Map.empty \<longrightarrow>
      (\<forall>i. open_span s i \<longleftrightarrow> i < length (tr_spans s) \<and> tr_active s (sn_owner (tr_spans s ! i)) = Some i))"
proof -
  have ok: "framed s" "custody_ok s"
    using tracing_ok_run [OF assms tracing_ok_initial] by (simp_all add: tracing_ok_framed)
  have "open_span s i \<longleftrightarrow> i < length (tr_spans s) \<and> tr_active s (sn_owner (tr_spans s ! i)) = Some i"
    if idle: "tr_handlers s = Map.empty" for i
  proof
    assume open_i: "open_span s i"
    then obtain x where x: "has_custody s x i" using custody_okD(2) [OF ok(2)] by blast
    then obtain token where "tr_active s token = Some i" using idle by (cases x) auto
    then show "i < length (tr_spans s) \<and> tr_active s (sn_owner (tr_spans s ! i)) = Some i"
      using framedD(2) [OF ok(1)] by blast
  next
    assume "i < length (tr_spans s) \<and> tr_active s (sn_owner (tr_spans s ! i)) = Some i"
    then show "open_span s i"
      using custody_okD(1) [OF ok(2), of "Registry (sn_owner (tr_spans s ! i))" i] by simp
  qed
  moreover have "\<not> sn_closed (tr_spans s ! i)" if "has_custody s x i" for x i
    using custody_okD(1) [OF ok(2) that] by (simp add: open_span_def)
  ultimately show ?thesis using framedD(1) [OF ok(1)] by blast
qed

definition event_of :: "exec_phase \<Rightarrow> telemetry_event" where
  "event_of p = bare_event p\<lparr>ev_line := Some (lit ''hi''),
    ev_rest := (ev_rest (bare_event p))\<lparr>er_exec_id := Some 7, er_terminal_outcome := Some Exit_zero\<rparr>\<rparr>"

lemma event_of_simps [simp]:
  "phase_of (event_of p) = p" "er_exec_id (rest (event_of p)) = Some 7"
  "er_terminal_outcome (rest (event_of p)) = Some Exit_zero"
  by (simp_all add: event_of_def bare_event_def)

abbreviation demo_inputs :: "trace_input list" where
  "demo_inputs \<equiv> [Exec_input (event_of Ph_start) None, Exec_input (event_of Ph_stdout) None]"

lemmas serial_defs = serial_call_def begin_handler_def recorded_ops_def no_tracing_def on_open_span_def Let_def

lemma span_lifecycle_witness:
  "\<exists>ls. trace_run True no_tracing ls (serial_calls True demo_inputs no_tracing) \<and>
    open_span (serial_calls True demo_inputs no_tracing) 0"
proof -
  obtain ls where run: "trace_run True no_tracing ls (serial_calls True demo_inputs no_tracing)"
    using serial_calls_run [OF no_tracing_idle] by blast
  have "tr_handlers (serial_calls True demo_inputs no_tracing) = Map.empty"
    by (simp only: serial_calls_handlers) (simp add: no_tracing_def)
  then have "open_span (serial_calls True demo_inputs no_tracing) 0"
    using span_lifecycle [OF run] by (simp add: serial_defs)
  then show ?thesis using run by blast
qed

text \<open>No span carries another execution's data.  Under every interleaving, each operation on a span is its
  ending, the terminal outcome of a \<open>settled\<close> event of its own execution, or recorded by a call that carried
  the token of its own execution.\<close>

theorem spans_attributed:
  assumes "trace_run ro no_tracing ls s" "i < length (tr_spans s)" "op \<in> set (sn_ops (tr_spans s ! i))"
  shows "closing_op op \<or>
    (\<exists>t input. Call_hook t input \<in> set ls \<and>
      ((\<exists>ops. recorded_ops ro input = Some (sn_owner (tr_spans s ! i), ops) \<and> op \<in> set ops) \<or>
       (\<exists>outcome. settles (sn_owner (tr_spans s ! i)) outcome input \<and> op = closing_attribute outcome)))"
proof -
  have "attributed ro ls s"
    by (rule attributed_run [OF assms(1) tracing_ok_initial attributed_initial])
  from attributedD(1) [OF this assms(2)] assms(3) have "justified ro ls (sn_owner (tr_spans s ! i)) op"
    by (simp add: list_all_iff)
  then show ?thesis by (simp add: justified_def)
qed

lemma spans_attributed_witness:
  "\<exists>ls. trace_run True no_tracing ls (serial_calls True demo_inputs no_tracing) \<and>
    (\<exists>t input. Call_hook t input \<in> set ls \<and> (\<exists>ops. recorded_ops True input = Some (7, ops) \<and> ops \<noteq> []))"
proof -
  let ?s = "serial_calls True demo_inputs no_tracing"
  let ?op = "Add_event (lit ''cuprum.stdout'') (span_event_attributes (event_of Ph_stdout))"
  obtain ls where run: "trace_run True no_tracing ls ?s"
    using serial_calls_run [OF no_tracing_idle] by blast
  have "0 < length (tr_spans ?s)" "?op \<in> set (sn_ops (tr_spans ?s ! 0))" "sn_owner (tr_spans ?s ! 0) = 7"
    by (simp_all add: serial_defs lit_def)
  with spans_attributed [OF run this(1,2)] have "\<exists>t input. Call_hook t input \<in> set ls \<and>
      (\<exists>ops. recorded_ops True input = Some (7, ops) \<and> ?op \<in> set ops)"
    by (simp add: closing_attribute_def del: serial_calls.simps)
  then have "\<exists>t input. Call_hook t input \<in> set ls \<and> (\<exists>ops. recorded_ops True input = Some (7, ops) \<and> ops \<noteq> [])"
    by fastforce
  then show ?thesis using run by blast
qed

definition start_input :: "nat \<Rightarrow> telemetry_event \<Rightarrow> bool" where
  "start_input token event \<longleftrightarrow> phase_of event = Ph_start \<and> er_exec_id (rest event) = Some token"

text \<open>What a span holds when the calls do not overlap: between the start of an execution and its settlement any
  events of any executions may come, and the new span is given the operations of the events of its own
  execution, all of them and in order, then the terminal outcome, the status and the end; its token is free
  again.\<close>

theorem serial_span_exact:
  assumes start: "start_input token event" and fresh: "tr_active s token = None"
    and known: "\<And>u i. tr_active s u = Some i \<Longrightarrow> i < length (tr_spans s)"
    and inner: "list_all (\<lambda>x. \<not> boundary_of token x) inputs" and settled: "settles token outcome last_input"
    and s': "s' = serial_calls ro (Exec_input event tag # inputs @ [last_input]) s"
  shows "tr_active s' token = None \<and>
    tr_spans s' ! length (tr_spans s) =
      \<lparr>sn_name = lit ''cuprum.exec '' @ er_program (rest event), sn_initial = build_tracing_attributes event tag,
       sn_owner = token,
       sn_ops = concat (map (ops_for ro token) inputs) @
         [closing_attribute outcome, Set_status (outcome = Exit_zero), End_span],
       sn_closed = True\<rparr>"
proof -
  let ?n = "length (tr_spans s)"
  let ?new = "\<lparr>sn_name = lit ''cuprum.exec '' @ er_program (rest event), sn_initial = build_tracing_attributes event tag,
    sn_owner = token, sn_ops = [], sn_closed = False\<rparr>"
  let ?s1 = "serial_call ro (Exec_input event tag) s"
  have s1: "?s1 = s\<lparr>tr_spans := tr_spans s @ [?new], tr_active := (tr_active s)(token \<mapsto> ?n)\<rparr>"
    using start fresh by (simp add: serial_call_def begin_handler_def start_input_def Let_def)
  have "tracks ?s1 token ?n"
    using known by (intro tracksI) (auto simp: s1 split: if_splits)
  from serial_calls_tracked [OF this inner, of ro]
  have s2: "tracks (serial_calls ro inputs ?s1) token ?n"
    "tr_spans (serial_calls ro inputs ?s1) ! ?n = ?new\<lparr>sn_ops := concat (map (ops_for ro token) inputs)\<rparr>"
    by (simp_all add: s1)
  let ?s2 = "serial_calls ro inputs ?s1"
  obtain e tag' where last: "last_input = Exec_input e tag'" "phase_of e = Ph_settled" "er_exec_id (rest e) = Some token"
    "er_terminal_outcome (rest e) = Some outcome"
    using settled by (auto simp: settles_def split: trace_input.splits)
  have "s' = serial_call ro last_input ?s2"
    by (simp add: s' serial_calls_append)
  also have "\<dots> = on_open_span ?n [closing_attribute outcome, Set_status (outcome = Exit_zero), End_span] True
      (?s2\<lparr>tr_active := (tr_active ?s2)(token := None)\<rparr>)"
    using s2(1) last by (simp add: serial_call_def begin_handler_def tracks_def closing_attribute_def)
  finally show ?thesis
    using s2 by (simp add: tracks_def on_open_span_same)
qed

lemma serial_span_exact_witness:
  "sn_ops (tr_spans (serial_calls True
      [Exec_input (event_of Ph_start) None, Exec_input (event_of Ph_stdout) None, Exec_input (event_of Ph_settled) None]
      no_tracing) ! 0) =
    [Add_event (lit ''cuprum.stdout'') [(lit ''line'', Attr_text (lit ''hi''))],
     closing_attribute Exit_zero, Set_status True, End_span]"
proof -
  have "recorded_ops True (Exec_input (event_of Ph_stdout) None) =
      Some (7, [Add_event (lit ''cuprum.stdout'') (span_event_attributes (event_of Ph_stdout))])"
    by (simp add: recorded_ops_def lit_def)
  then have ops: "ops_for True 7 (Exec_input (event_of Ph_stdout) None) =
      [Add_event (lit ''cuprum.stdout'') [(lit ''line'', Attr_text (lit ''hi''))]]"
    by (simp add: ops_for_def span_event_attributes_def event_of_def bare_event_def)
  show ?thesis
    using serial_span_exact [of 7 "event_of Ph_start" no_tracing "[Exec_input (event_of Ph_stdout) None]" Exit_zero
        "Exec_input (event_of Ph_settled) None" _ True None, OF _ _ _ _ _ refl] ops
    by (simp add: start_input_def boundary_of_def settles_def no_tracing_def del: serial_calls.simps)
qed

end
