(* ===== verification/Line_Stream.thy ===== *)
theory Line_Stream
  imports Complex_Main Capture_Accumulators
begin

text \<open>
  The queue behind one \<open>SafeCmd.lines()\<close> iteration (\<open>_line_stream/line_queue.py\<close>, \<open>_line_iteration.py\<close>, the
  coordinator's publication in \<open>_line_stream/coordinator.py\<close> and the guard of \<open>_line_stream/spawn.py\<close>).  Two
  readers offer decoded lines, a driver task publishes how the run ended, and the iterator drains a bounded queue
  while it watches the driver's future.  A label is what one task does between two suspensions, so a list of labels
  is one interleaving the event loop can produce; when a reader reaches end-of-file, a callback fails, the run is
  torn down or the caller leaves is the environment's choice.  Values and failures of a run are parameters.
\<close>

section \<open>State\<close>

record line_event =
  ln_stream :: stream_name
  ln_at :: rat
  ln_text :: ustr

datatype 'r queue_item = Item_line line_event | Item_result 'r

definition line_queue_capacity :: nat where
  "line_queue_capacity = 256"

datatype line_sink = Callback_sink | Queue_sink

datatype line_note =
    Queue_saturated stream_name nat
  | Sink_failed stream_name line_sink
  | Delivery_cancelled stream_name line_sink

text \<open>
  A reader is between two lines, inside the caller's callback, parked in the race for a queue slot, told that its
  putter won, or it has ended: at end-of-file, by its callback's failure, or cancelled.
\<close>

datatype line_reader =
    No_reader
  | Between_lines
  | In_callback line_event
  | Waiting_for_slot line_event
  | Slot_taken line_event
  | Reader_finished
  | Reader_failed line_event
  | Reader_cancelled

datatype ('r, 'x) result_future = Outcome_pending | Outcome_result 'r | Outcome_error 'x

datatype 'r line_driver = Not_driving | Driving | Posting 'r | Driver_done | Driver_cancelled

text \<open>How the iteration ended; \<open>Hook_failed\<close>: the result was there, and publishing the completion raised.\<close>

datatype ('r, 'x) iteration_end = Finished 'r | Hook_failed 'r 'x | Raised 'x | Left

datatype ('r, 'x) pulling =
    Suspended
  | Waiting_item
  | In_hand "'r queue_item"
  | Ended "('r, 'x) iteration_end"

record ('r, 'x) line_stream =
  ls_queue :: "'r queue_item list"
  ls_future :: "('r, 'x) result_future"
  ls_settling :: bool
  ls_readers :: "stream_name \<Rightarrow> line_reader"
  ls_saturated :: bool
  ls_notes :: "line_note list"
  ls_driver :: "'r line_driver"
  ls_pull :: "('r, 'x) pulling"
  ls_delivered :: "line_event list"

definition new_line_stream :: "('r, 'x) line_stream" where
  "new_line_stream = \<lparr>ls_queue = [], ls_future = Outcome_pending, ls_settling = False,
    ls_readers = (\<lambda>_. No_reader), ls_saturated = False, ls_notes = [], ls_driver = Not_driving,
    ls_pull = Suspended, ls_delivered = []\<rparr>"

section \<open>Publishing a line\<close>

definition queue_full :: "('r, 'x) line_stream \<Rightarrow> bool" where
  "queue_full s \<longleftrightarrow> line_queue_capacity \<le> length (ls_queue s)"

definition put_item :: "'r queue_item \<Rightarrow> ('r, 'x) line_stream \<Rightarrow> ('r, 'x) line_stream" where
  "put_item item s = s\<lparr>ls_queue := ls_queue s @ [item]\<rparr>"

definition set_reader :: "stream_name \<Rightarrow> line_reader \<Rightarrow> ('r, 'x) line_stream \<Rightarrow> ('r, 'x) line_stream" where
  "set_reader st r s = s\<lparr>ls_readers := (ls_readers s)(st := r)\<rparr>"

definition add_note :: "line_note \<Rightarrow> ('r, 'x) line_stream \<Rightarrow> ('r, 'x) line_stream" where
  "add_note n s = s\<lparr>ls_notes := ls_notes s @ [n]\<rparr>"

definition report_queue_saturation :: "line_event \<Rightarrow> ('r, 'x) line_stream \<Rightarrow> ('r, 'x) line_stream" where
  "report_queue_saturation event s =
    (if queue_full s \<and> \<not> ls_saturated s
     then add_note (Queue_saturated (ln_stream event) (length (ls_queue s))) (s\<lparr>ls_saturated := True\<rparr>)
     else s)"

text \<open>The sink's last line, when \<open>_put_line_or_settlement\<close> has returned.\<close>

definition line_published :: "stream_name \<Rightarrow> ('r, 'x) line_stream \<Rightarrow> ('r, 'x) line_stream" where
  "line_published st s = set_reader st Between_lines (s\<lparr>ls_saturated := queue_full s\<rparr>)"

definition put_line_or_settlement :: "line_event \<Rightarrow> ('r, 'x) line_stream \<Rightarrow> ('r, 'x) line_stream" where
  "put_line_or_settlement event s =
    (if ls_settling s then line_published (ln_stream event) s
     else if queue_full s then set_reader (ln_stream event) (Waiting_for_slot event) s
     else line_published (ln_stream event) (put_item (Item_line event) s))"

definition enqueue_line :: "line_event \<Rightarrow> ('r, 'x) line_stream \<Rightarrow> ('r, 'x) line_stream" where
  "enqueue_line event s = put_line_or_settlement event (report_queue_saturation event s)"

text \<open>
  The hook a reader calls with each line: nothing once the run settles; else the caller's callback, when there is
  one, and then the queue.
\<close>

definition offer_line :: "bool \<Rightarrow> line_event \<Rightarrow> ('r, 'x) line_stream \<Rightarrow> ('r, 'x) line_stream" where
  "offer_line callback event s =
    (if ls_settling s then s
     else if callback then set_reader (ln_stream event) (In_callback event) s
     else enqueue_line event s)"

text \<open>Which sink a cancelled reader was in, for the note its wrapper leaves.\<close>

fun interrupted_sink :: "line_reader \<Rightarrow> line_sink option" where
  "interrupted_sink (In_callback event) = Some Callback_sink"
| "interrupted_sink (Waiting_for_slot event) = Some Queue_sink"
| "interrupted_sink (Slot_taken event) = Some Queue_sink"
| "interrupted_sink _ = None"

fun reader_active :: "line_reader \<Rightarrow> bool" where
  "reader_active No_reader = False"
| "reader_active Reader_finished = False"
| "reader_active (Reader_failed event) = False"
| "reader_active Reader_cancelled = False"
| "reader_active _ = True"

fun reader_completed :: "line_reader \<Rightarrow> bool" where
  "reader_completed No_reader = True"
| "reader_completed Reader_finished = True"
| "reader_completed _ = False"

section \<open>Steps\<close>

datatype ('r, 'x) line_label =
    First_pull
  | Spawned bool bool
  | Offer line_event
  | Callback_returned stream_name
  | Callback_failed stream_name
  | Putter_wins stream_name
  | Reader_resumes stream_name
  | Settlement_wins stream_name
  | End_of_stream stream_name
  | Cancel_reader stream_name
  | Settlement_starts
  | Run_completed 'r
  | Result_posted
  | Run_failed 'x
  | Driver_unwinds
  | Pull
  | Getter_runs
  | Item_returned
  | Completion_failed 'x
  | Failure_raised
  | Leave

fun reader_step ::
  "bool \<Rightarrow> ('r, 'x) line_label \<Rightarrow> ('r, 'x) line_stream \<Rightarrow> ('r, 'x) line_stream option" where
  "reader_step callback (Offer event) s =
    (if ls_readers s (ln_stream event) = Between_lines then Some (offer_line callback event s) else None)"
| "reader_step callback (Callback_returned st) s =
    (case ls_readers s st of In_callback event \<Rightarrow> Some (enqueue_line event s) | _ \<Rightarrow> None)"
| "reader_step callback (Callback_failed st) s =
    (case ls_readers s st of
       In_callback event \<Rightarrow> Some (add_note (Sink_failed st Callback_sink) (set_reader st (Reader_failed event) s))
     | _ \<Rightarrow> None)"
| "reader_step callback (Putter_wins st) s =
    (case ls_readers s st of
       Waiting_for_slot event \<Rightarrow>
         if queue_full s then None else Some (set_reader st (Slot_taken event) (put_item (Item_line event) s))
     | _ \<Rightarrow> None)"
| "reader_step callback (Reader_resumes st) s =
    (case ls_readers s st of Slot_taken event \<Rightarrow> Some (line_published st s) | _ \<Rightarrow> None)"
| "reader_step callback (Settlement_wins st) s =
    (case ls_readers s st of
       Waiting_for_slot event \<Rightarrow> if ls_settling s then Some (line_published st s) else None
     | _ \<Rightarrow> None)"
| "reader_step callback (End_of_stream st) s =
    (if ls_readers s st = Between_lines then Some (set_reader st Reader_finished s) else None)"
| "reader_step callback (Cancel_reader st) s =
    (if ls_settling s \<and> reader_active (ls_readers s st)
     then Some (set_reader st Reader_cancelled
       (case interrupted_sink (ls_readers s st) of
          None \<Rightarrow> s
        | Some sink \<Rightarrow> add_note (Delivery_cancelled st sink) s))
     else None)"
| "reader_step callback _ s = None"

text \<open>
  The driver: it spawns, the run completes when both readers have finished without a teardown, and the result is
  queued before it is published.  A failure is only published.  Cancelled, it unwinds without publishing; the
  teardown it still owes starts the settlement.
\<close>

definition attached :: "bool \<Rightarrow> line_reader" where
  "attached piped = (if piped then Between_lines else No_reader)"

fun driver_step :: "('r, 'x) line_label \<Rightarrow> ('r, 'x) line_stream \<Rightarrow> ('r, 'x) line_stream option" where
  "driver_step (Spawned stdout_piped stderr_piped) s =
    (if ls_driver s = Driving \<and> \<not> ls_settling s \<and> ls_readers s Stdout = No_reader \<and> ls_readers s Stderr = No_reader
     then Some (s\<lparr>ls_readers := (\<lambda>st. case st of Stdout \<Rightarrow> attached stdout_piped | Stderr \<Rightarrow> attached stderr_piped)\<rparr>)
     else None)"
| "driver_step Settlement_starts s =
    (if ls_driver s = Driving then Some (s\<lparr>ls_settling := True\<rparr>) else None)"
| "driver_step (Run_completed result) s =
    (if ls_driver s = Driving \<and> \<not> ls_settling s \<and> reader_completed (ls_readers s Stdout) \<and>
        reader_completed (ls_readers s Stderr)
     then Some (s\<lparr>ls_driver := Posting result\<rparr>) else None)"
| "driver_step Result_posted s =
    (case ls_driver s of
       Posting result \<Rightarrow>
         if queue_full s then None
         else Some ((put_item (Item_result result) s)\<lparr>ls_future := Outcome_result result, ls_driver := Driver_done\<rparr>)
     | _ \<Rightarrow> None)"
| "driver_step (Run_failed failure) s =
    (if ls_driver s = Driving then Some (s\<lparr>ls_future := Outcome_error failure, ls_driver := Driver_done\<rparr>) else None)"
| "driver_step Driver_unwinds s =
    (if \<exists>e. ls_pull s = Ended e then
       case ls_driver s of
         Driving \<Rightarrow> Some (s\<lparr>ls_driver := Driver_cancelled\<rparr>)
       | Posting result \<Rightarrow> Some (s\<lparr>ls_driver := Driver_cancelled\<rparr>)
       | _ \<Rightarrow> None
     else None)"
| "driver_step _ s = None"

text \<open>
  The iterator.  \<open>_next_queue_item\<close> waits for a getter and the future together and looks at the future first; an item
  its getter already held when the run's failure is found is dropped.  After the terminal result the generator's
  future is already resolved; \<open>_publish_line_completion\<close> runs the after hooks and emits the terminal event without
  a suspension, and then the result is yielded, so these are one step (\<open>Item_returned\<close>), unless a hook raises: then the
  iteration ends with its exception (\<open>Completion_failed\<close>) and the result is not yielded.
\<close>

fun iterator_step :: "('r, 'x) line_label \<Rightarrow> ('r, 'x) line_stream \<Rightarrow> ('r, 'x) line_stream option" where
  "iterator_step First_pull s =
    (if ls_pull s = Suspended \<and> ls_driver s = Not_driving
     then Some (s\<lparr>ls_driver := Driving, ls_pull := Waiting_item\<rparr>) else None)"
| "iterator_step Pull s =
    (if ls_pull s = Suspended \<and> ls_driver s \<noteq> Not_driving then Some (s\<lparr>ls_pull := Waiting_item\<rparr>) else None)"
| "iterator_step Getter_runs s =
    (if ls_pull s = Waiting_item then
       case ls_queue s of [] \<Rightarrow> None | item # queue \<Rightarrow> Some (s\<lparr>ls_queue := queue, ls_pull := In_hand item\<rparr>)
     else None)"
| "iterator_step Item_returned s =
    (case (ls_pull s, ls_future s) of
       (In_hand item, Outcome_error failure) \<Rightarrow> None
     | (In_hand (Item_line event), _) \<Rightarrow> Some (s\<lparr>ls_pull := Suspended, ls_delivered := ls_delivered s @ [event]\<rparr>)
     | (In_hand (Item_result result), Outcome_result published) \<Rightarrow> Some (s\<lparr>ls_pull := Ended (Finished published)\<rparr>)
     | _ \<Rightarrow> None)"
| "iterator_step (Completion_failed x) s =
    (case (ls_pull s, ls_future s) of
       (In_hand (Item_result result), Outcome_result published) \<Rightarrow>
         Some (s\<lparr>ls_pull := Ended (Hook_failed published x)\<rparr>)
     | _ \<Rightarrow> None)"
| "iterator_step Failure_raised s =
    (case (ls_pull s, ls_future s) of
       (Waiting_item, Outcome_error failure) \<Rightarrow> Some (s\<lparr>ls_pull := Ended (Raised failure)\<rparr>)
     | (In_hand item, Outcome_error failure) \<Rightarrow> Some (s\<lparr>ls_pull := Ended (Raised failure)\<rparr>)
     | _ \<Rightarrow> None)"
| "iterator_step Leave s =
    (case ls_pull s of Ended e \<Rightarrow> None | _ \<Rightarrow> Some (s\<lparr>ls_pull := Ended Left\<rparr>))"
| "iterator_step _ s = None"

definition line_step ::
  "bool \<Rightarrow> ('r, 'x) line_label \<Rightarrow> ('r, 'x) line_stream \<Rightarrow> ('r, 'x) line_stream option" where
  "line_step callback l s =
    (case reader_step callback l s of
       Some s' \<Rightarrow> Some s'
     | None \<Rightarrow> (case driver_step l s of Some s' \<Rightarrow> Some s' | None \<Rightarrow> iterator_step l s))"

fun line_run ::
  "bool \<Rightarrow> ('r, 'x) line_label list \<Rightarrow> ('r, 'x) line_stream \<Rightarrow> ('r, 'x) line_stream option" where
  "line_run callback [] s = Some s"
| "line_run callback (l # labels) s =
    (case line_step callback l s of None \<Rightarrow> None | Some s' \<Rightarrow> line_run callback labels s')"


lemma line_run_append:
  "line_run callback (ls @ ls') s =
    (case line_run callback ls s of None \<Rightarrow> None | Some s' \<Rightarrow> line_run callback ls' s')"
  by (induction ls arbitrary: s) (auto split: option.split)

lemma line_run_snocD:
  assumes "line_run callback (ls @ [l]) s = Some s''"
  obtains s' where "line_run callback ls s = Some s'" "line_step callback l s' = Some s''"
  using assms by (auto simp: line_run_append split: option.splits)

text \<open>An invariant of a run may mention the labels so far.\<close>

lemma line_run_invariant:
  assumes "line_run callback ls new_line_stream = Some s"
    and "P [] new_line_stream"
    and "\<And>ls l s s'. P ls s \<Longrightarrow> line_step callback l s = Some s' \<Longrightarrow> P (ls @ [l]) s'"
  shows "P ls s"
  using assms(1)
proof (induction ls arbitrary: s rule: rev_induct)
  case Nil
  then show ?case using assms(2) by simp
next
  case (snoc l ls)
  then show ?case using assms(3) by (blast elim: line_run_snocD)
qed

lemma line_stepE:
  assumes "line_step callback l s = Some s'"
  obtains "reader_step callback l s = Some s'" | "driver_step l s = Some s'" | "iterator_step l s = Some s'"
  using assms by (auto simp: line_step_def split: option.splits)

lemma put_item_simps [simp]:
  "ls_queue (put_item item s) = ls_queue s @ [item]"
  "ls_future (put_item item s) = ls_future s"
  "ls_settling (put_item item s) = ls_settling s"
  "ls_readers (put_item item s) = ls_readers s"
  "ls_saturated (put_item item s) = ls_saturated s"
  "ls_notes (put_item item s) = ls_notes s"
  "ls_driver (put_item item s) = ls_driver s"
  "ls_pull (put_item item s) = ls_pull s"
  "ls_delivered (put_item item s) = ls_delivered s"
  by (simp_all add: put_item_def)

lemma set_reader_simps [simp]:
  "ls_queue (set_reader st r s) = ls_queue s"
  "ls_future (set_reader st r s) = ls_future s"
  "ls_settling (set_reader st r s) = ls_settling s"
  "ls_readers (set_reader st r s) = (ls_readers s)(st := r)"
  "ls_saturated (set_reader st r s) = ls_saturated s"
  "ls_notes (set_reader st r s) = ls_notes s"
  "ls_driver (set_reader st r s) = ls_driver s"
  "ls_pull (set_reader st r s) = ls_pull s"
  "ls_delivered (set_reader st r s) = ls_delivered s"
  by (simp_all add: set_reader_def)

lemma add_note_simps [simp]:
  "ls_queue (add_note n s) = ls_queue s"
  "ls_future (add_note n s) = ls_future s"
  "ls_settling (add_note n s) = ls_settling s"
  "ls_readers (add_note n s) = ls_readers s"
  "ls_saturated (add_note n s) = ls_saturated s"
  "ls_notes (add_note n s) = ls_notes s @ [n]"
  "ls_driver (add_note n s) = ls_driver s"
  "ls_pull (add_note n s) = ls_pull s"
  "ls_delivered (add_note n s) = ls_delivered s"
  by (simp_all add: add_note_def)

lemma line_published_simps [simp]:
  "ls_queue (line_published st s) = ls_queue s"
  "ls_future (line_published st s) = ls_future s"
  "ls_settling (line_published st s) = ls_settling s"
  "ls_readers (line_published st s) = (ls_readers s)(st := Between_lines)"
  "ls_saturated (line_published st s) = queue_full s"
  "ls_notes (line_published st s) = ls_notes s"
  "ls_driver (line_published st s) = ls_driver s"
  "ls_pull (line_published st s) = ls_pull s"
  "ls_delivered (line_published st s) = ls_delivered s"
  by (simp_all add: line_published_def queue_full_def)

lemma enqueue_line_simps [simp]:
  "ls_queue (enqueue_line e s) =
    (if ls_settling s \<or> queue_full s then ls_queue s else ls_queue s @ [Item_line e])"
  "ls_future (enqueue_line e s) = ls_future s"
  "ls_settling (enqueue_line e s) = ls_settling s"
  "ls_readers (enqueue_line e s) =
    (ls_readers s)(ln_stream e := if \<not> ls_settling s \<and> queue_full s then Waiting_for_slot e else Between_lines)"
  "ls_driver (enqueue_line e s) = ls_driver s"
  "ls_pull (enqueue_line e s) = ls_pull s"
  "ls_delivered (enqueue_line e s) = ls_delivered s"
  by (auto simp: enqueue_line_def put_line_or_settlement_def report_queue_saturation_def queue_full_def)

section \<open>Bounds\<close>

definition queue_bounded :: "('r, 'x) line_stream \<Rightarrow> bool" where
  "queue_bounded s \<longleftrightarrow> length (ls_queue s) \<le> line_queue_capacity"

lemma not_full_room: "\<not> queue_full s \<Longrightarrow> length (ls_queue s) < line_queue_capacity"
  by (simp add: queue_full_def)

lemma queue_bounded_step:
  assumes "queue_bounded s" and "line_step callback l s = Some s'"
  shows "queue_bounded s'"
  using assms(2)
proof (rule line_stepE)
  assume "reader_step callback l s = Some s'"
  then show ?thesis using assms(1) not_full_room [of s]
    by (cases l) (auto simp: queue_bounded_def offer_line_def Suc_le_eq split: if_splits line_reader.splits option.splits)
next
  assume "driver_step l s = Some s'"
  then show ?thesis using assms(1) not_full_room [of s]
    by (cases l) (auto simp: queue_bounded_def Suc_le_eq split: if_splits line_driver.splits)
next
  assume "iterator_step l s = Some s'"
  then show ?thesis using assms(1)
    by (cases l) (auto simp: queue_bounded_def split: if_splits pulling.splits list.splits result_future.splits queue_item.splits)
qed


section \<open>Where the result is\<close>

fun item_lines :: "'r queue_item \<Rightarrow> line_event list" where
  "item_lines (Item_line event) = [event]"
| "item_lines (Item_result result) = []"

definition queued_lines :: "'r queue_item list \<Rightarrow> line_event list" where
  "queued_lines queue = concat (map item_lines queue)"

lemma queued_lines_simps [simp]:
  "queued_lines [] = []"
  "queued_lines (item # queue) = item_lines item @ queued_lines queue"
  "queued_lines (queue @ queue') = queued_lines queue @ queued_lines queue'"
  by (simp_all add: queued_lines_def)

fun is_line :: "'r queue_item \<Rightarrow> bool" where
  "is_line (Item_line event) = True"
| "is_line (Item_result result) = False"

text \<open>
  Before the outcome is published the queue holds lines only.  A published result is the last item of the queue,
  or the iterator has taken it and the queue is empty.
\<close>

fun result_placed :: "'r \<Rightarrow> ('r, 'x) pulling \<Rightarrow> 'r queue_item list \<Rightarrow> bool" where
  "result_placed r (In_hand (Item_result r')) queue = (r' = r \<and> queue = [])"
| "result_placed r (Ended (Finished r')) queue = (r' = r \<and> queue = [])"
| "result_placed r (Ended (Hook_failed r' x)) queue = (r' = r \<and> queue = [])"
| "result_placed r (Ended (Raised x)) queue = False"
| "result_placed r (Ended Left) queue =
    (queue = [] \<or> (\<exists>items. queue = items @ [Item_result r] \<and> list_all is_line items))"
| "result_placed r pull queue = (\<exists>items. queue = items @ [Item_result r] \<and> list_all is_line items)"

fun no_result_yet :: "('r, 'x) pulling \<Rightarrow> 'r queue_item list \<Rightarrow> bool" where
  "no_result_yet (In_hand item) queue = (is_line item \<and> list_all is_line queue)"
| "no_result_yet (Ended (Finished r)) queue = False"
| "no_result_yet (Ended (Hook_failed r x)) queue = False"
| "no_result_yet pull queue = list_all is_line queue"

definition readers_completed :: "('r, 'x) line_stream \<Rightarrow> bool" where
  "readers_completed s \<longleftrightarrow> (\<forall>st. reader_completed (ls_readers s st))"

lemma readers_completed_iff:
  "readers_completed s \<longleftrightarrow> reader_completed (ls_readers s Stdout) \<and> reader_completed (ls_readers s Stderr)"
  unfolding readers_completed_def by (metis stream_name.exhaust)

definition outcome_ok :: "('r, 'x) line_stream \<Rightarrow> bool" where
  "outcome_ok s \<longleftrightarrow>
    (case ls_future s of
       Outcome_pending \<Rightarrow> no_result_yet (ls_pull s) (ls_queue s) \<and> ls_driver s \<noteq> Driver_done \<and>
         (\<forall>x. ls_pull s \<noteq> Ended (Raised x))
     | Outcome_result r \<Rightarrow> result_placed r (ls_pull s) (ls_queue s) \<and> ls_driver s = Driver_done \<and>
         \<not> ls_settling s \<and> readers_completed s
     | Outcome_error x \<Rightarrow> no_result_yet (ls_pull s) (ls_queue s) \<and> ls_driver s = Driver_done \<and>
         (\<forall>y. ls_pull s = Ended (Raised y) \<longrightarrow> y = x)) \<and>
    (\<forall>r. ls_driver s = Posting r \<longrightarrow> \<not> ls_settling s \<and> readers_completed s) \<and>
    (ls_driver s = Not_driving \<longrightarrow> ls_pull s \<in> {Suspended, Ended Left})"

section \<open>One reader's step\<close>

text \<open>The line a reader has taken and not put on the queue.\<close>

fun held :: "line_reader \<Rightarrow> line_event list" where
  "held (In_callback event) = [event]"
| "held (Waiting_for_slot event) = [event]"
| "held (Reader_failed event) = [event]"
| "held _ = []"

fun offered_by :: "('r, 'x) line_label \<Rightarrow> line_event list" where
  "offered_by (Offer event) = [event]"
| "offered_by _ = []"

lemma held_completed: "reader_completed r \<Longrightarrow> held r = []"
  by (cases r) auto

lemma length_held: "length (held r) \<le> 1"
  by (cases r) auto

definition held_ok :: "('r, 'x) line_stream \<Rightarrow> bool" where
  "held_ok s \<longleftrightarrow> (\<forall>st. \<forall>e \<in> set (held (ls_readers s st)). ln_stream e = st)"

lemma held_okD: "held_ok s \<Longrightarrow> ls_readers s st = r \<Longrightarrow> e \<in> set (held r) \<Longrightarrow> ln_stream e = st"
  by (auto simp: held_ok_def)

text \<open>
  A reader's step changes one reader and the end of the queue, and conserves that stream's lines: what the reader
  held and was offered is what it put and holds, or a prefix once the run settles.
\<close>

definition reader_moves :: "('r, 'x) line_label \<Rightarrow> ('r, 'x) line_stream \<Rightarrow> stream_name \<Rightarrow> line_reader \<Rightarrow>
    line_event list \<Rightarrow> ('r, 'x) line_stream \<Rightarrow> bool" where
  "reader_moves l s st r' items s' \<longleftrightarrow>
    ls_readers s' = (ls_readers s)(st := r') \<and> \<not> reader_completed (ls_readers s st) \<and>
    ls_queue s' = ls_queue s @ map Item_line items \<and>
    ls_future s' = ls_future s \<and> ls_driver s' = ls_driver s \<and> ls_pull s' = ls_pull s \<and>
    ls_settling s' = ls_settling s \<and> ls_delivered s' = ls_delivered s \<and>
    (\<forall>e \<in> set (held (ls_readers s st) @ offered_by l). ln_stream e = st) \<and>
    (if ls_settling s then prefix (items @ held r') (held (ls_readers s st))
     else items @ held r' = held (ls_readers s st) @ offered_by l)"

lemma enqueue_moves:
  assumes "ln_stream e = st" and "\<not> reader_completed (ls_readers s st)"
    and "held (ls_readers s st) @ offered_by l = [e]"
  shows "\<exists>r' items. reader_moves l s st r' items (enqueue_line e s)"
proof -
  let ?items = "if ls_settling s \<or> queue_full s then [] else [e]"
  let ?r' = "if \<not> ls_settling s \<and> queue_full s then Waiting_for_slot e else Between_lines"
  have "reader_moves l s st ?r' ?items (enqueue_line e s)"
    unfolding reader_moves_def assms(3) using assms(1,2) by simp
  then show ?thesis by blast
qed

lemma reader_step_moves:
  assumes "reader_step callback l s = Some s'" and "held_ok s"
  shows "\<exists>st r' items. reader_moves l s st r' items s'"
proof (cases l)
  case (Offer e)
  then have b: "ls_readers s (ln_stream e) = Between_lines" and s': "s' = offer_line callback e s"
    using assms(1) by (auto split: if_splits)
  consider "ls_settling s" | "\<not> ls_settling s" "callback" | "\<not> ls_settling s" "\<not> callback" by blast
  then show ?thesis
  proof cases
    case 1
    then have "reader_moves l s (ln_stream e) Between_lines [] s'"
      using s' b Offer by (simp add: reader_moves_def offer_line_def fun_upd_idem)
    then show ?thesis by blast
  next
    case 2
    then have "reader_moves l s (ln_stream e) (In_callback e) [] s'"
      using s' b Offer by (simp add: reader_moves_def offer_line_def)
    then show ?thesis by blast
  next
    case 3
    then have "s' = enqueue_line e s" using s' by (simp add: offer_line_def)
    then show ?thesis using enqueue_moves [of e "ln_stream e" s l] b Offer by auto
  qed
next
  case (Callback_returned st)
  then obtain e where e: "ls_readers s st = In_callback e" "s' = enqueue_line e s"
    using assms(1) by (auto split: line_reader.splits)
  then show ?thesis using enqueue_moves [of e st s l] held_okD [OF assms(2) e(1)] Callback_returned by auto
next
  case (Callback_failed st)
  then obtain e where e: "ls_readers s st = In_callback e"
      "s' = add_note (Sink_failed st Callback_sink) (set_reader st (Reader_failed e) s)"
    using assms(1) by (auto split: line_reader.splits)
  then have "reader_moves l s st (Reader_failed e) [] s'"
    using held_okD [OF assms(2) e(1)] Callback_failed by (simp add: reader_moves_def)
  then show ?thesis by blast
next
  case (Putter_wins st)
  then obtain e where e: "ls_readers s st = Waiting_for_slot e"
      "s' = set_reader st (Slot_taken e) (put_item (Item_line e) s)"
    using assms(1) by (auto split: line_reader.splits if_splits)
  then have "reader_moves l s st (Slot_taken e) [e] s'"
    using held_okD [OF assms(2) e(1)] Putter_wins by (simp add: reader_moves_def)
  then show ?thesis by blast
next
  case (Reader_resumes st)
  then obtain e where e: "ls_readers s st = Slot_taken e" "s' = line_published st s"
    using assms(1) by (auto split: line_reader.splits)
  then have "reader_moves l s st Between_lines [] s'"
    using Reader_resumes by (simp add: reader_moves_def)
  then show ?thesis by blast
next
  case (Settlement_wins st)
  then obtain e where e: "ls_readers s st = Waiting_for_slot e" "s' = line_published st s" "ls_settling s"
    using assms(1) by (auto split: line_reader.splits if_splits)
  then have "reader_moves l s st Between_lines [] s'"
    using held_okD [OF assms(2) e(1)] Settlement_wins by (simp add: reader_moves_def)
  then show ?thesis by blast
next
  case (End_of_stream st)
  then have "ls_readers s st = Between_lines" "s' = set_reader st Reader_finished s"
    using assms(1) by (auto split: if_splits)
  then have "reader_moves l s st Reader_finished [] s'"
    using End_of_stream by (simp add: reader_moves_def)
  then show ?thesis by blast
next
  case (Cancel_reader st)
  then have a: "ls_settling s" "reader_active (ls_readers s st)"
    and s': "s' = set_reader st Reader_cancelled
       (case interrupted_sink (ls_readers s st) of None \<Rightarrow> s | Some sink \<Rightarrow> add_note (Delivery_cancelled st sink) s)"
    using assms(1) by (auto split: if_splits)
  have "\<not> reader_completed (ls_readers s st)" using a(2) by (cases "ls_readers s st") auto
  then have "reader_moves l s st Reader_cancelled [] s'"
    using a s' held_okD [OF assms(2) refl] Cancel_reader
    by (auto simp: reader_moves_def split: option.split)
  then show ?thesis by blast
qed (use assms(1) in simp_all)

lemma held_ok_new: "held_ok new_line_stream"
  by (simp add: held_ok_def new_line_stream_def)

lemma reader_moves_held_ok:
  assumes "held_ok s" and "reader_moves l s st r' items s'"
  shows "held_ok s'"
proof -
  have "set (held r') \<subseteq> set (held (ls_readers s st) @ offered_by l)"
    using assms(2) unfolding reader_moves_def
    by (metis Un_iff prefix_def set_append subsetI)
  then show ?thesis
    using assms unfolding held_ok_def reader_moves_def by auto
qed

lemma driver_step_held:
  assumes "driver_step l s = Some s'"
  shows "(\<lambda>st. held (ls_readers s' st)) = (\<lambda>st. held (ls_readers s st))"
  using assms
  by (cases l) (auto simp: attached_def fun_eq_iff split: if_splits stream_name.splits line_driver.splits)

lemma iterator_step_frame:
  assumes "iterator_step l s = Some s'"
  shows "ls_readers s' = ls_readers s" and "ls_settling s' = ls_settling s" and "ls_future s' = ls_future s"
  using assms
  by (cases l; auto split: if_splits list.splits pulling.splits queue_item.splits result_future.splits)+

lemma held_ok_step:
  assumes "held_ok s" and "line_step callback l s = Some s'"
  shows "held_ok s'"
  using assms(2)
proof (rule line_stepE)
  assume "reader_step callback l s = Some s'"
  then show ?thesis using reader_step_moves [OF _ assms(1)] reader_moves_held_ok [OF assms(1)] by blast
next
  assume "driver_step l s = Some s'"
  then show ?thesis using assms(1) driver_step_held [of l s s'] by (auto simp: held_ok_def fun_eq_iff)
next
  assume "iterator_step l s = Some s'"
  then show ?thesis using assms(1) iterator_step_frame(1) [of l s s'] by (auto simp: held_ok_def)
qed


section \<open>The outcome\<close>

lemma no_result_yet_put: "no_result_yet p q \<Longrightarrow> no_result_yet p (q @ map Item_line es)"
  by (cases "(p, q)" rule: no_result_yet.cases) (auto simp: list_all_iff)

lemma no_result_yet_post:
  "no_result_yet p q \<Longrightarrow> \<forall>x. p \<noteq> Ended (Raised x) \<Longrightarrow> result_placed r p (q @ [Item_result r])"
  by (cases "(r, p, q)" rule: result_placed.cases) auto

lemma outcome_ok_new: "outcome_ok new_line_stream"
  by (simp add: outcome_ok_def new_line_stream_def)

lemma driver_step_outcome:
  assumes "outcome_ok s" and "driver_step l s = Some s'"
  shows "outcome_ok s'"
proof (cases l)
  case (Spawned a b)
  then have d: "ls_driver s = Driving" "s' = s\<lparr>ls_readers := (\<lambda>st. case st of Stdout \<Rightarrow> attached a | Stderr \<Rightarrow> attached b)\<rparr>"
    using assms(2) by (auto split: if_splits)
  then show ?thesis using assms(1) by (auto simp: outcome_ok_def split: result_future.splits)
next
  case Result_posted
  then obtain r where d: "ls_driver s = Posting r"
      "s' = (put_item (Item_result r) s)\<lparr>ls_future := Outcome_result r, ls_driver := Driver_done\<rparr>"
    using assms(2) by (auto split: line_driver.splits if_splits)
  then show ?thesis using assms(1) no_result_yet_post
    by (auto simp: outcome_ok_def readers_completed_def split: result_future.splits)
next
  case Driver_unwinds
  then show ?thesis using assms
    by (auto simp: outcome_ok_def readers_completed_def split: result_future.splits line_driver.splits if_splits)
qed (use assms in \<open>auto simp: outcome_ok_def readers_completed_def readers_completed_iff [unfolded readers_completed_def]
    split: result_future.splits if_splits\<close>)

lemma iterator_step_outcome:
  assumes "outcome_ok s" and "iterator_step l s = Some s'"
  shows "outcome_ok s'"
proof (cases l)
  case Getter_runs
  then obtain i q where g: "ls_pull s = Waiting_item" "ls_queue s = i # q" "s' = s\<lparr>ls_queue := q, ls_pull := In_hand i\<rparr>"
    using assms(2) by (auto split: if_splits list.splits)
  show ?thesis using assms(1) g
    by (cases i) (auto simp: outcome_ok_def readers_completed_def Cons_eq_append_conv split: result_future.splits)
next
  case Item_returned
  then show ?thesis using assms
    by (auto simp: outcome_ok_def readers_completed_def split: result_future.splits pulling.splits queue_item.splits)
next
  case (Completion_failed x)
  then show ?thesis using assms
    by (auto simp: outcome_ok_def readers_completed_def split: result_future.splits pulling.splits queue_item.splits)
next
  case Failure_raised
  then show ?thesis using assms
    by (auto simp: outcome_ok_def readers_completed_def split: result_future.splits pulling.splits)
next
  case Leave
  then have l: "s' = s\<lparr>ls_pull := Ended Left\<rparr>" "\<forall>e. ls_pull s \<noteq> Ended e"
    using assms(2) by (auto split: pulling.splits)
  then show ?thesis using assms(1)
    by (cases "ls_pull s"; cases "ls_future s")
      (auto simp: outcome_ok_def readers_completed_def elim!: result_placed.elims no_result_yet.elims)
qed (use assms in \<open>auto simp: outcome_ok_def readers_completed_def split: result_future.splits if_splits\<close>)

lemma outcome_ok_step:
  assumes "outcome_ok s" and "held_ok s" and "line_step callback l s = Some s'"
  shows "outcome_ok s'"
  using assms(3)
proof (rule line_stepE)
  assume "reader_step callback l s = Some s'"
  then obtain st r' items where m: "reader_moves l s st r' items s'" using reader_step_moves assms(2) by blast
  then have "\<not> readers_completed s" by (auto simp: reader_moves_def readers_completed_def)
  then show ?thesis using assms(1) m
    by (auto simp: outcome_ok_def reader_moves_def no_result_yet_put split: result_future.splits)
qed (use driver_step_outcome iterator_step_outcome assms(1) in blast)+

section \<open>Conservation\<close>

definition offers :: "('r, 'x) line_label list \<Rightarrow> line_event list" where
  "offers labels = concat (map offered_by labels)"

definition of_stream :: "stream_name \<Rightarrow> line_event list \<Rightarrow> line_event list" where
  "of_stream st events = filter (\<lambda>e. ln_stream e = st) events"

lemma of_stream_append [simp]: "of_stream st (xs @ ys) = of_stream st xs @ of_stream st ys"
  by (simp add: of_stream_def)

lemma of_stream_Nil [simp]: "of_stream st [] = []"
  by (simp add: of_stream_def)

lemma of_stream_same: "\<forall>e \<in> set es. ln_stream e = st \<Longrightarrow> of_stream st' es = (if st' = st then es else [])"
  by (induction es) (auto simp: of_stream_def)

lemma offers_snoc [simp]: "offers (ls @ [l]) = offers ls @ offered_by l"
  by (simp add: offers_def)

lemma queued_lines_map [simp]: "queued_lines (map Item_line es) = es"
  by (induction es) auto

text \<open>The lines of the iteration from the caller's hands back to the readers', in the order they were put.\<close>

fun in_hand :: "('r, 'x) pulling \<Rightarrow> line_event list" where
  "in_hand (In_hand item) = item_lines item"
| "in_hand _ = []"

definition in_flight :: "('r, 'x) line_stream \<Rightarrow> line_event list" where
  "in_flight s = ls_delivered s @ in_hand (ls_pull s) @ queued_lines (ls_queue s)"

fun accounted ::
  "('r, 'x) pulling \<Rightarrow> bool \<Rightarrow> line_event list \<Rightarrow> line_event list \<Rightarrow> line_event list \<Rightarrow> bool" where
  "accounted (Ended (Finished r)) settling delivered flight offered = (delivered = offered)"
| "accounted (Ended (Hook_failed r x)) settling delivered flight offered = prefix delivered offered"
| "accounted (Ended (Raised x)) settling delivered flight offered = prefix delivered offered"
| "accounted (Ended Left) settling delivered flight offered = prefix delivered offered"
| "accounted pull settling delivered flight offered =
    (if settling then prefix flight offered else flight = offered)"

definition conserved :: "('r, 'x) line_label list \<Rightarrow> ('r, 'x) line_stream \<Rightarrow> bool" where
  "conserved labels s \<longleftrightarrow>
    (\<forall>st. accounted (ls_pull s) (ls_settling s) (of_stream st (ls_delivered s))
      (of_stream st (in_flight s) @ held (ls_readers s st)) (of_stream st (offers labels)))"

lemma accounted_live:
  "\<forall>e. p \<noteq> Ended e \<Longrightarrow> accounted p settling d f offered = (if settling then prefix f offered else f = offered)"
  by (cases "(p, settling, d, f, offered)" rule: accounted.cases) auto

lemma accounted_settle: "accounted p b d f offered \<Longrightarrow> b \<longrightarrow> b' \<Longrightarrow> accounted p b' d f offered"
  by (cases "(p, b, d, f, offered)" rule: accounted.cases) (auto split: if_splits)

lemma accounted_ended:
  "\<forall>r. e \<noteq> Finished r \<Longrightarrow> accounted (Ended e) settling d f offered = prefix d offered"
  by (cases e) auto

lemma lines_conserved_new: "conserved [] new_line_stream"
  by (simp add: conserved_def new_line_stream_def in_flight_def offers_def)

lemma reader_step_conserved:
  assumes "conserved ls s" and "outcome_ok s" and m: "reader_moves l s st r' items s'"
  shows "conserved (ls @ [l]) s'"
proof -
  let ?h = "held (ls_readers s st)"
  have mine: "\<forall>e \<in> set (?h @ offered_by l). ln_stream e = st"
    and readers: "ls_readers s' = (ls_readers s)(st := r')"
    and flight: "in_flight s' = in_flight s @ items"
    and same: "ls_pull s' = ls_pull s" "ls_settling s' = ls_settling s" "ls_delivered s' = ls_delivered s"
    and moved: "if ls_settling s then prefix (items @ held r') ?h
      else items @ held r' = ?h @ offered_by l"
    using m by (auto simp: reader_moves_def in_flight_def)
  have "prefix (items @ held r') (?h @ offered_by l)" 
    using moved by (cases "ls_settling s") (simp_all add: prefix_prefix)
  then have items: "\<forall>e \<in> set items. ln_stream e = st"
    using mine by (metis UnI1 prefix_def set_append append_assoc)
  have live: "\<not> readers_completed s" using m by (auto simp: reader_moves_def readers_completed_def)
  then have pull: "\<forall>r. ls_pull s \<noteq> Ended (Finished r)"
    using assms(2) by (auto simp: outcome_ok_def split: result_future.splits)
  have own: "of_stream st' items = (if st' = st then items else [])"
    and offered: "of_stream st' (offered_by l) = (if st' = st then offered_by l else [])" for st'
    using of_stream_same [OF items] of_stream_same [of "offered_by l" st] mine by auto
  show ?thesis
    unfolding conserved_def same
  proof
    fix st'
    have before: "accounted (ls_pull s) (ls_settling s) (of_stream st' (ls_delivered s))
        (of_stream st' (in_flight s) @ held (ls_readers s st')) (of_stream st' (offers ls))"
      using assms(1) by (simp add: conserved_def)
    show "accounted (ls_pull s) (ls_settling s) (of_stream st' (ls_delivered s))
        (of_stream st' (in_flight s') @ held (ls_readers s' st')) (of_stream st' (offers (ls @ [l])))"
    proof (cases "\<exists>e. ls_pull s = Ended e")
      case True
      then show ?thesis using before pull by (auto simp: accounted_ended prefix_def)
    next
      case False
      then show ?thesis using before moved
        by (auto simp: accounted_live flight own offered readers prefix_def split: if_splits)
    qed
  qed
qed

lemma driver_step_conserved:
  assumes "conserved ls s" and "driver_step l s = Some s'"
  shows "conserved (ls @ [l]) s'"
proof -
  have "offered_by l = []" using assms(2) by (cases l) auto
  moreover have "in_flight s' = in_flight s" "ls_pull s' = ls_pull s" "ls_delivered s' = ls_delivered s"
      "ls_settling s \<longrightarrow> ls_settling s'"
    using assms(2) by (cases l; auto simp: in_flight_def split: if_splits line_driver.splits)+
  moreover have "held (ls_readers s' st) = held (ls_readers s st)" for st
    using driver_step_held [OF assms(2)] by (simp add: fun_eq_iff)
  ultimately show ?thesis using assms(1)
    by (simp add: conserved_def) (blast intro: accounted_settle)
qed

lemma iterator_step_conserved:
  assumes "conserved ls s" and "outcome_ok s" and "iterator_step l s = Some s'"
  shows "conserved (ls @ [l]) s'"
proof -
  have offered: "offered_by l = []" using assms(3) by (cases l) auto
  note frame = iterator_step_frame [OF assms(3)]
  consider "in_flight s' = in_flight s" "\<forall>e. ls_pull s \<noteq> Ended e" "\<forall>e. ls_pull s' \<noteq> Ended e"
    | r where "ls_pull s' = Ended (Finished r)" "ls_pull s = In_hand (Item_result r)" "ls_delivered s' = ls_delivered s"
        "ls_future s = Outcome_result r"
    | e where "ls_pull s' = Ended e" "\<forall>r. e \<noteq> Finished r" "\<forall>e. ls_pull s \<noteq> Ended e" "ls_delivered s' = ls_delivered s"
    using assms(2,3)
    by (cases l) (auto simp: in_flight_def outcome_ok_def
        split: if_splits list.splits pulling.splits queue_item.splits result_future.splits)
  then show ?thesis
  proof cases
    case 1
    then show ?thesis using assms(1) offered frame
      by (simp add: conserved_def accounted_live)
  next
    case 2
    then have "readers_completed s" "\<not> ls_settling s" "ls_queue s = []"
      using assms(2) by (auto simp: outcome_ok_def)
    moreover have "held (ls_readers s st) = []" for st
      using \<open>readers_completed s\<close> held_completed by (auto simp: readers_completed_def)
    ultimately show ?thesis using assms(1) 2 offered by (auto simp: conserved_def in_flight_def)
  next
    case 3
    have "prefix (of_stream st (ls_delivered s)) (of_stream st (offers ls))" for st
    proof -
      have "prefix (of_stream st (in_flight s) @ held (ls_readers s st)) (of_stream st (offers ls))"
        using assms(1) 3(3) by (auto simp: conserved_def accounted_live split: if_splits)
      then show ?thesis by (auto simp: in_flight_def prefix_def)
    qed
    then show ?thesis using 3 offered by (simp add: conserved_def accounted_ended)
  qed
qed

lemma lines_conserved_step:
  assumes "conserved ls s" and "outcome_ok s" and "held_ok s" and "line_step callback l s = Some s'"
  shows "conserved (ls @ [l]) s'"
  using assms(4)
proof (rule line_stepE)
  assume "reader_step callback l s = Some s'"
  then show ?thesis using reader_step_moves assms(3) reader_step_conserved [OF assms(1,2)] by blast
qed (use driver_step_conserved iterator_step_conserved assms(1,2) in blast)+

definition line_invariant :: "('r, 'x) line_label list \<Rightarrow> ('r, 'x) line_stream \<Rightarrow> bool" where
  "line_invariant labels s \<longleftrightarrow> queue_bounded s \<and> held_ok s \<and> outcome_ok s \<and> conserved labels s"

lemma line_run_keeps_invariant:
  assumes "line_run callback ls new_line_stream = Some s"
  shows "line_invariant ls s"
  using assms
proof (rule line_run_invariant)
  show "line_invariant [] new_line_stream"
    using held_ok_new outcome_ok_new lines_conserved_new
    by (simp add: line_invariant_def queue_bounded_def new_line_stream_def)
next
  fix ls :: "('r, 'x) line_label list" and l s s'
  assume "line_invariant ls s" and "line_step callback l s = Some s'"
  then show "line_invariant (ls @ [l]) s'"
    using queue_bounded_step held_ok_step outcome_ok_step lines_conserved_step
    unfolding line_invariant_def by blast
qed


section \<open>Properties\<close>

text \<open>The result an iteration ends with is one the driver completed.\<close>

definition result_known :: "('r, 'x) line_label list \<Rightarrow> ('r, 'x) line_stream \<Rightarrow> bool" where
  "result_known labels s \<longleftrightarrow>
    (\<forall>r. ls_driver s = Posting r \<or> ls_future s = Outcome_result r \<longrightarrow> Run_completed r \<in> set labels)"

lemma result_known_step:
  assumes "result_known ls s" and "held_ok s" and "line_step callback l s = Some s'"
  shows "result_known (ls @ [l]) s'"
  using assms(3)
proof (rule line_stepE)
  assume "reader_step callback l s = Some s'"
  then show ?thesis using reader_step_moves [OF _ assms(2)] assms(1)
    by (fastforce simp: result_known_def reader_moves_def)
next
  assume "driver_step l s = Some s'"
  then show ?thesis using assms(1)
    by (cases l) (auto simp: result_known_def split: if_splits line_driver.splits)
next
  assume "iterator_step l s = Some s'"
  then show ?thesis using assms(1)
    by (cases l) (auto simp: result_known_def
        split: if_splits list.splits pulling.splits queue_item.splits result_future.splits)
qed

lemma line_run_result_known:
  assumes "line_run callback ls new_line_stream = Some s"
  shows "result_known ls s \<and> held_ok s"
  using assms
proof (rule line_run_invariant)
  show "result_known [] new_line_stream \<and> held_ok new_line_stream"
    using held_ok_new by (simp add: result_known_def new_line_stream_def)
qed (use result_known_step held_ok_step in blast)

text \<open>
  (C6) An iteration that ends with its result has delivered every line either reader was given, each stream's lines
  in the order that reader decoded them and none twice, however the readers, the callback, the driver and the caller
  interleave and however full the queue became; both readers had finished, nothing is left on the queue, and the
  result is the one the run completed with.
\<close>

theorem completed_iteration_lossless:
  assumes "line_run callback labels new_line_stream = Some s" and "ls_pull s = Ended (Finished r)"
  shows "(\<forall>st. of_stream st (ls_delivered s) = of_stream st (offers labels)) \<and>
    readers_completed s \<and> ls_queue s = [] \<and> Run_completed r \<in> set labels"
proof -
  have i: "line_invariant labels s" using line_run_keeps_invariant [OF assms(1)] .
  then have "result_placed r (ls_pull s) (ls_queue s) \<and> ls_future s = Outcome_result r \<and> readers_completed s"
    using assms(2) by (auto simp: line_invariant_def outcome_ok_def split: result_future.splits)
  then show ?thesis
    using i assms line_run_result_known [OF assms(1)]
    by (auto simp: line_invariant_def conserved_def result_known_def)
qed

text \<open>
  At every moment of every iteration what the caller has been handed of one stream is a prefix of what that
  stream's reader was given: a failure, a teardown or a caller who leaves can cut the lines off, and never drops one
  in the middle, reorders or repeats one.
\<close>

theorem delivered_lines_in_order:
  assumes "line_run callback labels new_line_stream = Some s"
  shows "prefix (of_stream st (ls_delivered s)) (of_stream st (offers labels))"
proof -
  have a: "accounted (ls_pull s) (ls_settling s) (of_stream st (ls_delivered s))
      (of_stream st (in_flight s) @ held (ls_readers s st)) (of_stream st (offers labels))"
    using line_run_keeps_invariant [OF assms] by (simp add: line_invariant_def conserved_def)
  show ?thesis
  proof (cases "\<exists>e. ls_pull s = Ended e")
    case True
    then obtain e where "ls_pull s = Ended e" by blast
    then show ?thesis using a by (cases e) auto
  next
    case False
    then have "prefix (of_stream st (in_flight s) @ held (ls_readers s st)) (of_stream st (offers labels))"
      using a by (auto simp: accounted_live split: if_splits)
    then show ?thesis by (auto simp: in_flight_def prefix_def)
  qed
qed

text \<open>
  Backpressure bounds what an iteration retains: the queue never holds more than its capacity, so with the item
  the iterator has in hand and the line each of the two readers is trying to publish, at most 259 lines are in
  memory, however much the child writes and however long the caller pauses.
\<close>

theorem retained_lines_bounded:
  assumes "line_run callback labels new_line_stream = Some s"
  shows "length (ls_queue s) \<le> 256 \<and>
    length (in_hand (ls_pull s) @ queued_lines (ls_queue s) @
      held (ls_readers s Stdout) @ held (ls_readers s Stderr)) \<le> 259"
proof -
  have q: "length (ls_queue s) \<le> 256"
    using line_run_keeps_invariant [OF assms]
    by (simp add: line_invariant_def queue_bounded_def line_queue_capacity_def)
  have i: "length (item_lines i) \<le> 1" for i :: "'a queue_item"
    by (cases i) auto
  have "length (queued_lines queue) \<le> length queue" for queue :: "'a queue_item list"
  proof (induction queue)
    case (Cons a queue)
    then show ?case using i [of a] by simp
  qed simp
  then have "length (queued_lines (ls_queue s)) \<le> length (ls_queue s)" .
  moreover have "length (in_hand (ls_pull s)) \<le> 1" using i by (cases "ls_pull s") auto
  ultimately show ?thesis
    using q length_held [of "ls_readers s Stdout"] length_held [of "ls_readers s Stderr"]
    unfolding length_append by linarith
qed

text \<open>Once a failure is published the iterator's only moves are to raise it or to be left.\<close>

lemma failure_step:
  assumes "ls_future s = Outcome_error x" and "held_ok s" and "outcome_ok s" and "line_step callback l s = Some s'"
  shows "ls_future s' = Outcome_error x \<and> ls_delivered s' = ls_delivered s \<and>
    (\<forall>e. ls_pull s' = Ended e \<longrightarrow> ls_pull s = Ended e \<or> e = Raised x \<or> e = Left)"
  using assms(4)
proof (rule line_stepE)
  assume "reader_step callback l s = Some s'"
  then show ?thesis using reader_step_moves [OF _ assms(2)] assms(1) by (fastforce simp: reader_moves_def)
next
  assume "driver_step l s = Some s'"
  then show ?thesis using assms(1,3)
    by (cases l) (auto simp: outcome_ok_def split: if_splits line_driver.splits)
next
  assume "iterator_step l s = Some s'"
  then show ?thesis using assms(1)
    by (cases l) (auto split: if_splits list.splits pulling.splits queue_item.splits result_future.splits)
qed

lemma failure_run:
  assumes "line_run callback ls s = Some s'" and "ls_future s = Outcome_error x" and "held_ok s" and "outcome_ok s"
  shows "ls_future s' = Outcome_error x \<and> ls_delivered s' = ls_delivered s \<and>
    (\<forall>e. ls_pull s' = Ended e \<longrightarrow> ls_pull s = Ended e \<or> e = Raised x \<or> e = Left)"
  using assms
proof (induction ls arbitrary: s)
  case Nil
  then show ?case by simp
next
  case (Cons l ls)
  then obtain s1 where s1: "line_step callback l s = Some s1" "line_run callback ls s1 = Some s'"
    by (auto split: option.splits)
  note step = failure_step [OF Cons.prems(2,3,4) s1(1)]
  note rest = Cons.IH [OF s1(2) _ held_ok_step [OF Cons.prems(3) s1(1)] outcome_ok_step [OF Cons.prems(4,3) s1(1)]]
  show ?case using step rest by metis
qed

text \<open>
  (C27) A published failure ends the iteration at once: from then on no line is delivered, even one the getter had
  already taken off the queue, the iteration can only end by raising that failure or by the caller leaving, and a
  caller who is waiting is always able to be given it.
\<close>

theorem published_failure_ends_iteration:
  assumes "line_run callback labels new_line_stream = Some s" and "ls_future s = Outcome_error x"
    and "line_run callback later s = Some s'"
  shows "ls_delivered s' = ls_delivered s \<and>
    (\<forall>e. ls_pull s' = Ended e \<longrightarrow> ls_pull s = Ended e \<or> e = Raised x \<or> e = Left) \<and>
    (ls_pull s' \<in> {Waiting_item} \<union> range In_hand \<longrightarrow>
      line_step callback Failure_raised s' = Some (s'\<lparr>ls_pull := Ended (Raised x)\<rparr>))"
proof -
  have "held_ok s" "outcome_ok s"
    using line_run_keeps_invariant [OF assms(1)] by (simp_all add: line_invariant_def)
  note run = failure_run [OF assms(3,2) this]
  then show ?thesis by (auto simp: line_step_def)
qed


text \<open>Draining a queue that ends with the result.\<close>

definition iterator_labels :: "('r, 'x) line_label set" where
  "iterator_labels = {Pull, Getter_runs, Item_returned}"

lemma pull_one:
  assumes "ls_pull s \<in> {Suspended, Waiting_item}" and "ls_driver s \<noteq> Not_driving"
  shows "\<exists>ks. set ks \<subseteq> iterator_labels \<and> length ks \<le> 1 \<and>
    line_run callback ks s = Some (s\<lparr>ls_pull := Waiting_item\<rparr>)"
proof (cases "ls_pull s")
  case Suspended
  then have "line_run callback [Pull] s = Some (s\<lparr>ls_pull := Waiting_item\<rparr>)"
    using assms(2) by (simp add: line_step_def)
  then show ?thesis by (intro exI [of _ "[Pull]"]) (simp add: iterator_labels_def)
next
  case Waiting_item
  then have "line_run callback [] s = Some (s\<lparr>ls_pull := Waiting_item\<rparr>)" by simp
  then show ?thesis by (intro exI [of _ "[]"]) simp
qed (use assms in auto)

lemma drain_queue:
  assumes "ls_pull s \<in> {Suspended, Waiting_item}" and "ls_driver s \<noteq> Not_driving"
    and "ls_queue s = map Item_line es @ [Item_result r]" and "ls_future s = Outcome_result r"
  shows "\<exists>ks. set ks \<subseteq> iterator_labels \<and> length ks \<le> 3 * length es + 3 \<and>
    line_run callback ks s = Some (s\<lparr>ls_queue := [], ls_pull := Ended (Finished r),
      ls_delivered := ls_delivered s @ es\<rparr>)"
  using assms
proof (induction es arbitrary: s)
  case Nil
  obtain ks where ks: "set ks \<subseteq> iterator_labels" "length ks \<le> 1"
      "line_run callback ks s = Some (s\<lparr>ls_pull := Waiting_item\<rparr>)"
    using pull_one [OF Nil.prems(1,2)] by blast
  have "line_run callback (ks @ [Getter_runs, Item_returned]) s =
      Some (s\<lparr>ls_queue := [], ls_pull := Ended (Finished r), ls_delivered := ls_delivered s @ []\<rparr>)"
    using ks(3) Nil.prems by (simp add: line_run_append line_step_def)
  then show ?case
    using ks by (intro exI [of _ "ks @ [Getter_runs, Item_returned]"]) (auto simp: iterator_labels_def)
next
  case (Cons e es)
  obtain ks where ks: "set ks \<subseteq> iterator_labels" "length ks \<le> 1"
      "line_run callback ks s = Some (s\<lparr>ls_pull := Waiting_item\<rparr>)"
    using pull_one [OF Cons.prems(1,2)] by blast
  let ?s = "s\<lparr>ls_queue := map Item_line es @ [Item_result r], ls_pull := Suspended,
    ls_delivered := ls_delivered s @ [e]\<rparr>"
  have one: "line_run callback (ks @ [Getter_runs, Item_returned]) s = Some ?s"
    using ks(3) Cons.prems by (simp add: line_run_append line_step_def)
  obtain ks' where ks': "set ks' \<subseteq> iterator_labels" "length ks' \<le> 3 * length es + 3"
      "line_run callback ks' ?s = Some (?s\<lparr>ls_queue := [], ls_pull := Ended (Finished r),
        ls_delivered := ls_delivered ?s @ es\<rparr>)"
    using Cons.IH [of ?s] Cons.prems by auto
  have "line_run callback ((ks @ [Getter_runs, Item_returned]) @ ks') s =
      Some (s\<lparr>ls_queue := [], ls_pull := Ended (Finished r), ls_delivered := ls_delivered s @ e # es\<rparr>)"
    unfolding line_run_append [of _ "ks @ [Getter_runs, Item_returned]"] one using ks'(3) by simp
  then show ?case
    using ks ks' by (intro exI [of _ "(ks @ [Getter_runs, Item_returned]) @ ks'"]) (auto simp: iterator_labels_def)
qed

lemma lines_only: "list_all is_line items \<Longrightarrow> items = map Item_line (queued_lines items)"
proof (induction items)
  case (Cons i items)
  then show ?case by (cases i) auto
qed simp

text \<open>
  (C28) A completed run reaches the caller: from every state in which the result is published and the caller has not
  left, the caller's own pulls, at most three steps for each queued item, hand over every line still on its way and
  then end the iteration with that result; nothing else has to run.
\<close>

theorem published_result_is_reached:
  assumes "line_run callback labels new_line_stream = Some s" and "ls_future s = Outcome_result r"
    and "\<forall>e. ls_pull s \<noteq> Ended e"
  shows "\<exists>ks s'. set ks \<subseteq> iterator_labels \<and> length ks \<le> 3 * length (ls_queue s) + 1 \<and>
    line_run callback ks s = Some s' \<and> ls_pull s' = Ended (Finished r) \<and> ls_delivered s' = in_flight s"
proof -
  have i: "outcome_ok s"
    using line_run_keeps_invariant [OF assms(1)] by (simp add: line_invariant_def)
  then have placed: "result_placed r (ls_pull s) (ls_queue s)" and driver: "ls_driver s \<noteq> Not_driving"
    using assms(2) by (auto simp: outcome_ok_def)
  have drain_case: ?thesis if p: "ls_pull s \<in> {Suspended, Waiting_item}"
  proof -
    obtain items where items: "ls_queue s = items @ [Item_result r]" "list_all is_line items"
      using placed p by auto
    have same: "length (queued_lines items) = length items"
      using lines_only [OF items(2)] by (metis length_map)
    obtain ks where "set ks \<subseteq> iterator_labels" "length ks \<le> 3 * length (queued_lines items) + 3"
        "line_run callback ks s = Some (s\<lparr>ls_queue := [], ls_pull := Ended (Finished r),
          ls_delivered := ls_delivered s @ queued_lines items\<rparr>)"
      using drain_queue [of s "queued_lines items" r callback] items(1) lines_only [OF items(2)] driver assms(2) p by auto
    moreover have "in_flight s = ls_delivered s @ queued_lines items"
      using items(1) p by (auto simp: in_flight_def)
    ultimately show ?thesis using items(1) same by (intro exI [of _ ks]) auto
  qed
  show ?thesis
  proof (cases "ls_pull s")
    case (In_hand i)
    then have step: "line_step callback Item_returned s =
        (case i of Item_line e \<Rightarrow> Some (s\<lparr>ls_pull := Suspended, ls_delivered := ls_delivered s @ [e]\<rparr>)
         | Item_result _ \<Rightarrow> Some (s\<lparr>ls_pull := Ended (Finished r)\<rparr>))"
      using assms(2) by (simp add: line_step_def split: queue_item.split)
    show ?thesis
    proof (cases i)
      case (Item_result r')
      then show ?thesis using step In_hand placed
        by (intro exI [of _ "[Item_returned]"]) (simp add: iterator_labels_def in_flight_def)
    next
      case (Item_line e)
      let ?s = "s\<lparr>ls_pull := Suspended, ls_delivered := ls_delivered s @ [e]\<rparr>"
      obtain items where items: "ls_queue s = items @ [Item_result r]" "list_all is_line items"
        using placed In_hand Item_line by auto
      obtain ks where "set ks \<subseteq> iterator_labels" "length ks \<le> 3 * length (queued_lines items) + 3"
          "line_run callback ks ?s = Some (?s\<lparr>ls_queue := [], ls_pull := Ended (Finished r),
            ls_delivered := ls_delivered ?s @ queued_lines items\<rparr>)"
        using drain_queue [of ?s "queued_lines items" r callback] items(1) lines_only [OF items(2)] driver assms(2) by auto
      moreover have "length (queued_lines items) = length items"
        using lines_only [OF items(2)] by (metis length_map)
      ultimately show ?thesis using step In_hand Item_line items(1)
        by (intro exI [of _ "Item_returned # ks"]) (auto simp: iterator_labels_def in_flight_def)
    qed
  next
    case (Ended e)
    then show ?thesis using assms(3) by blast
  qed (use drain_case in blast)+
qed


section \<open>Witnesses\<close>

definition out_line :: line_event where
  "out_line = \<lparr>ln_stream = Stdout, ln_at = 0, ln_text = lit ''a''\<rparr>"

definition err_line :: line_event where
  "err_line = \<lparr>ln_stream = Stderr, ln_at = 1, ln_text = lit ''b''\<rparr>"

definition started :: "(nat, nat) line_label list" where
  "started = [First_pull, Spawned True True, Offer out_line, Callback_returned Stdout, Offer err_line,
    Callback_returned Stderr]"

definition completed :: "(nat, nat) line_label list" where
  "completed = started @ [End_of_stream Stderr, Getter_runs, Item_returned, End_of_stream Stdout,
    Run_completed 7, Result_posted]"

definition drained :: "(nat, nat) line_label list" where
  "drained = completed @ [Pull, Getter_runs, Item_returned, Pull, Getter_runs, Item_returned]"

definition failing :: "(nat, nat) line_label list" where
  "failing = started @ [Settlement_starts, Cancel_reader Stdout, Cancel_reader Stderr, Getter_runs, Run_failed 3]"

lemmas line_evaluation =
  started_def completed_def drained_def failing_def out_line_def err_line_def new_line_stream_def
  line_step_def offer_line_def attached_def enqueue_line_def put_line_or_settlement_def
  report_queue_saturation_def line_published_def set_reader_def put_item_def add_note_def
  queue_full_def line_queue_capacity_def of_stream_def offers_def

text \<open>The state a list of labels leads to.\<close>

definition after :: "(nat, nat) line_label list \<Rightarrow> (nat, nat) line_stream" where
  "after labels = the (line_run True labels new_line_stream)"

lemma drained_run: "line_run True drained new_line_stream = Some (after drained) \<and>
    ls_pull (after drained) = Ended (Finished 7) \<and> ls_delivered (after drained) = [out_line, err_line]"
  by (simp add: after_def line_evaluation)

lemma failing_run: "line_run True failing new_line_stream = Some (after failing) \<and>
    ls_future (after failing) = Outcome_error 3 \<and> ls_pull (after failing) = In_hand (Item_line out_line) \<and>
    line_run True [Failure_raised] (after failing) = Some ((after failing)\<lparr>ls_pull := Ended (Raised 3)\<rparr>)"
  by (simp add: after_def line_evaluation)

lemma completed_run: "line_run True completed new_line_stream = Some (after completed) \<and>
    ls_future (after completed) = Outcome_result 7 \<and> ls_pull (after completed) = Suspended \<and>
    in_flight (after completed) = [out_line, err_line] \<and> length (ls_queue (after completed)) = 2"
  by (simp add: after_def in_flight_def line_evaluation)

theorem completed_iteration_lossless_witness:
  "(\<forall>st. of_stream st [out_line, err_line] = of_stream st (offers drained)) \<and> Run_completed 7 \<in> set drained"
  using completed_iteration_lossless [of True drained "after drained" 7] drained_run by simp

theorem delivered_lines_in_order_witness:
  "prefix (of_stream Stdout (ls_delivered (after failing))) (of_stream Stdout (offers failing)) \<and>
    offers failing = [out_line, err_line]"
  using delivered_lines_in_order [of True failing "after failing" Stdout] failing_run
  by (simp add: failing_def started_def offers_def)

theorem retained_lines_bounded_witness: "length (ls_queue (after completed)) \<le> 256"
  using retained_lines_bounded [of True completed "after completed"] completed_run by simp

theorem published_failure_ends_iteration_witness:
  "ls_delivered ((after failing)\<lparr>ls_pull := Ended (Raised 3)\<rparr>) = ls_delivered (after failing)"
  using published_failure_ends_iteration [of True failing "after failing" 3 "[Failure_raised]"] failing_run
  by blast

theorem published_result_is_reached_witness:
  "\<exists>ks s'. length ks \<le> 7 \<and> line_run True ks (after completed) = Some s' \<and> ls_pull s' = Ended (Finished 7) \<and>
    ls_delivered s' = [out_line, err_line]"
  using published_result_is_reached [of True completed "after completed" 7] completed_run
  by (auto simp: numeral_eq_Suc)

end
