(* ===== verification/Stdin_Writer.thy ===== *)
theory Stdin_Writer
  imports Stdio_Spawn Utf8_Codec
begin

text \<open>
  Feeding a child's standard input: the payload writer and the pipe's close (\<open>_subprocess_stdin.py\<close>), the streaming
  writer and its failure policy (\<open>_subprocess_stdin_stream.py\<close>, \<open>_subprocess_stdin_write.py\<close>,
  \<open>_subprocess_stdin_errors.py\<close>) and the bounded finalization of a producer (\<open>_subprocess_stdin_finalize.py\<close>).  A
  writer is one task; what the pipe, the observe hooks and the producer's finalizer answer is given by an
  environment that may depend on everything done so far, so a cancellation can arrive at any of its awaits.  The
  codec is a parameter.  Debug log records are left out.
\<close>

section \<open>Exceptions\<close>

text \<open>
  What the writer tells apart: cancellation, exceptions by the classes its handlers name, and the base exceptions
  no handler catches.  The number stands for the exception object.
\<close>

datatype failure_kind =
    Broken_pipe
  | Connection_reset
  | Os_fault "int option"
  | Timeout_fault "int option"
  | Runtime_fault
  | Type_fault
  | Lookup_fault
  | Attribute_fault
  | Value_fault
  | Import_fault
  | Not_implemented
  | Other_fault

datatype raised = Cancel_error | Fault failure_kind nat | Interrupt nat

definition EPIPE :: int where
  "EPIPE = 32"

fun is_early_close :: "raised \<Rightarrow> bool" where
  "is_early_close (Fault Broken_pipe i) = True"
| "is_early_close (Fault Connection_reset i) = True"
| "is_early_close (Fault (Os_fault errno) i) = (errno = Some EPIPE)"
| "is_early_close (Fault (Timeout_fault errno) i) = (errno = Some EPIPE)"
| "is_early_close _ = False"

text \<open>\<open>isinstance(exc, (OSError, RuntimeError))\<close>.\<close>

fun os_or_runtime :: "raised \<Rightarrow> bool" where
  "os_or_runtime (Fault Broken_pipe i) = True"
| "os_or_runtime (Fault Connection_reset i) = True"
| "os_or_runtime (Fault (Os_fault errno) i) = True"
| "os_or_runtime (Fault (Timeout_fault errno) i) = True"
| "os_or_runtime (Fault Runtime_fault i) = True"
| "os_or_runtime (Fault Not_implemented i) = True"
| "os_or_runtime _ = False"

fun is_timeout :: "raised \<Rightarrow> bool" where
  "is_timeout (Fault (Timeout_fault errno) i) = True"
| "is_timeout _ = False"

fun is_lookup :: "raised \<Rightarrow> bool" where
  "is_lookup (Fault Lookup_fault i) = True"
| "is_lookup _ = False"

fun is_attribute :: "raised \<Rightarrow> bool" where
  "is_attribute (Fault Attribute_fault i) = True"
| "is_attribute _ = False"

fun is_exception :: "raised \<Rightarrow> bool" where
  "is_exception (Fault k i) = True"
| "is_exception _ = False"

section \<open>The environment\<close>

datatype stdin_operation = Writing | Closing | Early_closing

datatype stdin_op =
    Start_producer
  | Pull_chunk
  | Write_pipe bytes
  | Drain_pipe
  | Report_written nat
  | Report_stdin_error stdin_operation raised
  | Report_stdio_error stdio_failure_category raised
  | Close_pipe
  | Wait_closed
  | Abort_transport
  | Call_finalizer
  | Wait_finalizer
  | Cancel_finalizer
  | Reclaim_finalizer

text \<open>
  An answer is an exception or nothing.  \<open>sn_takes\<close> is how many of the bytes that wait in the transport the pipe
  takes while an operation is under way.  \<open>sn_finishes\<close> says whether the producer's finalizer is done when its
  window ends.
\<close>

record stdin_env =
  sn_answer :: "stdin_op list \<Rightarrow> stdin_op \<Rightarrow> raised option"
  sn_takes :: "stdin_op list \<Rightarrow> stdin_op \<Rightarrow> nat"
  sn_finishes :: "stdin_op list \<Rightarrow> bool"

datatype chunk = Text_chunk ustr | Bytes_chunk bytes | Foreign_chunk

text \<open>A producer: the chunks it yields, and how it ends after them: exhausted, or raising.\<close>

record producer =
  pd_chunks :: "chunk list"
  pd_ending :: "raised option"
  pd_has_aclose :: bool

record 'q encoder_codec =
  ec_make :: "raised + 'q"
  ec_encode :: "'q \<Rightarrow> ustr \<Rightarrow> bool \<Rightarrow> raised + bytes \<times> 'q"

record 'q stream_sink =
  sk_encoder :: "'q option"
  sk_chunk_error :: "stdio_failure_category option"
  sk_trace :: "stdin_op list"

definition new_sink :: "'q stream_sink" where
  "new_sink = \<lparr>sk_encoder = None, sk_chunk_error = None, sk_trace = []\<rparr>"

definition note_op :: "stdin_op \<Rightarrow> 'q stream_sink \<Rightarrow> 'q stream_sink" where
  "note_op op s = s\<lparr>sk_trace := sk_trace s @ [op]\<rparr>"

definition perform :: "stdin_env \<Rightarrow> stdin_op \<Rightarrow> 'q stream_sink \<Rightarrow> raised option \<times> 'q stream_sink" where
  "perform env op s = (sn_answer env (sk_trace s) op, note_op op s)"

definition and_then ::
  "('s \<Rightarrow> 'e option \<times> 's) \<Rightarrow> ('s \<Rightarrow> 'e option \<times> 's) \<Rightarrow> 's \<Rightarrow> 'e option \<times> 's" where
  "and_then f g s = (case f s of (Some e, s') \<Rightarrow> (Some e, s') | (None, s') \<Rightarrow> g s')"

text \<open>\<open>_safe_emit\<close>: only a base exception escapes.\<close>

definition report_boundary ::
  "stdin_env \<Rightarrow> stdio_failure_category \<Rightarrow> raised \<Rightarrow> 'q stream_sink \<Rightarrow> raised option \<times> 'q stream_sink" where
  "report_boundary env category exc s =
    (case perform env (Report_stdio_error category exc) s of
       (Some (Interrupt i), s') \<Rightarrow> (Some (Interrupt i), s')
     | (_, s') \<Rightarrow> (None, s'))"

section \<open>Writing a chunk\<close>

definition sink_encoder ::
  "'q encoder_codec \<Rightarrow> 'q stream_sink \<Rightarrow> (raised + 'q) \<times> 'q stream_sink" where
  "sink_encoder codec s =
    (case sk_encoder s of
       Some q \<Rightarrow> (Inr q, s)
     | None \<Rightarrow>
         (case ec_make codec of
            Inl exc \<Rightarrow> (Inl exc, if is_lookup exc then s\<lparr>sk_chunk_error := Some Encoder_boundary\<rparr> else s)
          | Inr q \<Rightarrow> (Inr q, s\<lparr>sk_encoder := Some q\<rparr>)))"

definition sink_encode ::
  "'q encoder_codec \<Rightarrow> ustr \<Rightarrow> bool \<Rightarrow> 'q stream_sink \<Rightarrow> (raised + bytes) \<times> 'q stream_sink" where
  "sink_encode codec str final s =
    (let previous = sk_chunk_error s;
         s = s\<lparr>sk_chunk_error := Some Encoder_boundary\<rparr>
     in case sink_encoder codec s of
          (Inl exc, s) \<Rightarrow> (Inl exc, s)
        | (Inr q, s) \<Rightarrow>
            (case ec_encode codec q str final of
               Inl exc \<Rightarrow> (Inl exc, s)
             | Inr (payload, q') \<Rightarrow> (Inr payload, s\<lparr>sk_encoder := Some q', sk_chunk_error := previous\<rparr>)))"

definition send_payload :: "stdin_env \<Rightarrow> bytes \<Rightarrow> 'q stream_sink \<Rightarrow> raised option \<times> 'q stream_sink" where
  "send_payload env payload =
    and_then (perform env (Write_pipe payload))
      (and_then (perform env Drain_pipe) (perform env (Report_written (length payload))))"

definition chunk_type_error :: raised where
  "chunk_type_error = Fault Type_fault 0"

definition write_chunk ::
  "stdin_env \<Rightarrow> 'q encoder_codec \<Rightarrow> chunk \<Rightarrow> 'q stream_sink \<Rightarrow> raised option \<times> 'q stream_sink" where
  "write_chunk env codec chunk s =
    (case chunk of
       Text_chunk str \<Rightarrow>
         (case sink_encode codec str False s of
            (Inl exc, s) \<Rightarrow> (Some exc, s)
          | (Inr payload, s) \<Rightarrow> if payload = [] then (None, s) else send_payload env payload s)
     | Bytes_chunk payload \<Rightarrow> if payload = [] then (None, s) else send_payload env payload s
     | Foreign_chunk \<Rightarrow> (Some chunk_type_error, s\<lparr>sk_chunk_error := Some Invalid_chunk\<rparr>))"

definition flush_encoder ::
  "stdin_env \<Rightarrow> 'q encoder_codec \<Rightarrow> 'q stream_sink \<Rightarrow> raised option \<times> 'q stream_sink" where
  "flush_encoder env codec s =
    (if sk_encoder s = None then (None, s)
     else case sink_encode codec [] True s of
            (Inl exc, s) \<Rightarrow> (Some exc, s)
          | (Inr tail, s) \<Rightarrow> if tail = [] then (None, s) else send_payload env tail s)"

section \<open>Pulling from the producer\<close>

text \<open>
  \<open>_ProducerFailureError\<close> marks an exception of the producer's own code; cancellation and base exceptions pass
  unmarked.
\<close>

datatype body_error = Producer_failed raised | Unmarked raised

definition mark_producer :: "raised \<Rightarrow> body_error" where
  "mark_producer exc = (if is_exception exc then Producer_failed exc else Unmarked exc)"

definition start_producer ::
  "stdin_env \<Rightarrow> 'q stream_sink \<Rightarrow> body_error option \<times> 'q stream_sink" where
  "start_producer env s =
    (case perform env Start_producer s of
       (Some exc, s) \<Rightarrow> (Some (mark_producer exc), s)
     | (None, s) \<Rightarrow> (None, s))"

fun pump_chunks ::
  "stdin_env \<Rightarrow> 'q encoder_codec \<Rightarrow> raised option \<Rightarrow> chunk list \<Rightarrow> 'q stream_sink \<Rightarrow>
    body_error option \<times> 'q stream_sink" where
  "pump_chunks env codec ending [] s = (map_option mark_producer ending, note_op Pull_chunk s)"
| "pump_chunks env codec ending (chunk # chunks) s =
    (case write_chunk env codec chunk (note_op Pull_chunk s) of
       (Some exc, s) \<Rightarrow> (Some (Unmarked exc), s)
     | (None, s) \<Rightarrow> pump_chunks env codec ending chunks s)"

section \<open>Releasing the pipe and the producer\<close>

definition emit_stdin_error ::
  "stdin_env \<Rightarrow> stdin_operation \<Rightarrow> raised \<Rightarrow> 'q stream_sink \<Rightarrow> raised option \<times> 'q stream_sink" where
  "emit_stdin_error env operation exc = perform env (Report_stdin_error operation exc)"

definition abort_stdin_transport :: "stdin_env \<Rightarrow> 'q stream_sink \<Rightarrow> raised option \<times> 'q stream_sink" where
  "abort_stdin_transport env s =
    (case perform env Abort_transport s of
       (Some exc, s) \<Rightarrow> if os_or_runtime exc \<or> is_attribute exc then (None, s) else (Some exc, s)
     | (None, s) \<Rightarrow> (None, s))"

definition close_stdin :: "stdin_env \<Rightarrow> 'q stream_sink \<Rightarrow> raised option \<times> 'q stream_sink" where
  "close_stdin env s =
    (case and_then (perform env Close_pipe) (perform env Wait_closed) s of
       (None, s) \<Rightarrow> (None, s)
     | (Some exc, s) \<Rightarrow>
         if is_timeout exc then abort_stdin_transport env s
         else if exc = Cancel_error then
           (case abort_stdin_transport env s of
              (Some later, s) \<Rightarrow> (Some later, s)
            | (None, s) \<Rightarrow> (Some Cancel_error, s))
         else if os_or_runtime exc then emit_stdin_error env Closing exc s
         else (Some exc, s))"

text \<open>
  The finalizer's hook is called; a failure on entry is dropped.  It has a window, and is then cancelled and given
  another.  Only the run's own cancellation, which breaks a wait, and a base exception come out.
\<close>

definition finalize_stdin_source ::
  "stdin_env \<Rightarrow> bool \<Rightarrow> 'q stream_sink \<Rightarrow> raised option \<times> 'q stream_sink" where
  "finalize_stdin_source env has_source s =
    (if \<not> has_source then (None, s)
     else case perform env Call_finalizer s of
            (Some exc, s) \<Rightarrow> if is_exception exc then (None, s) else (Some exc, s)
          | (None, s) \<Rightarrow>
              (case perform env Wait_finalizer s of
                 (Some exc, s) \<Rightarrow> (Some exc, if exc = Cancel_error then note_op Cancel_finalizer s else s)
               | (None, s) \<Rightarrow>
                   if sn_finishes env (sk_trace s) then (None, s)
                   else perform env Reclaim_finalizer (note_op Cancel_finalizer s)))"

text \<open>\<open>try: body finally: cleanup\<close>: an exception of the cleanup replaces the body's.\<close>

datatype writer_end = Writer_returned | Writer_raised raised | Writer_source_error raised

definition finally_do ::
  "writer_end \<times> 's \<Rightarrow> ('s \<Rightarrow> raised option \<times> 's) \<Rightarrow> writer_end \<times> 's" where
  "finally_do r cleanup =
    (case cleanup (snd r) of
       (Some exc, s) \<Rightarrow> (Writer_raised exc, s)
     | (None, s) \<Rightarrow> (fst r, s))"

section \<open>The writers\<close>

definition write_boundary_category :: "'q stream_sink \<Rightarrow> stdio_failure_category" where
  "write_boundary_category s = (case sk_chunk_error s of Some c \<Rightarrow> c | None \<Rightarrow> Pipe_boundary)"

definition raise_source_error ::
  "stdin_env \<Rightarrow> stdio_failure_category \<Rightarrow> raised \<Rightarrow> 'q stream_sink \<Rightarrow> writer_end \<times> 'q stream_sink" where
  "raise_source_error env category exc s =
    (case report_boundary env category exc s of
       (Some later, s) \<Rightarrow> (Writer_raised later, s)
     | (None, s) \<Rightarrow> (Writer_source_error exc, s))"

definition source_body ::
  "stdin_env \<Rightarrow> 'q encoder_codec \<Rightarrow> producer \<Rightarrow> 'q stream_sink \<Rightarrow> body_error option \<times> 'q stream_sink" where
  "source_body env codec pd =
    and_then (start_producer env)
      (and_then (pump_chunks env codec (pd_ending pd) (pd_chunks pd))
        (\<lambda>s. case flush_encoder env codec s of (e, s) \<Rightarrow> (map_option Unmarked e, s)))"

definition source_handlers ::
  "stdin_env \<Rightarrow> body_error option \<times> 'q stream_sink \<Rightarrow> writer_end \<times> 'q stream_sink" where
  "source_handlers env r =
    (case r of
       (None, s) \<Rightarrow> (Writer_returned, s)
     | (Some (Producer_failed exc), s) \<Rightarrow> raise_source_error env Producer_boundary exc s
     | (Some (Unmarked exc), s) \<Rightarrow>
         if \<not> is_exception exc then (Writer_raised exc, s)
         else if \<not> is_early_close exc then raise_source_error env (write_boundary_category s) exc s
         else (case emit_stdin_error env Early_closing exc s of
                 (Some later, s) \<Rightarrow> (Writer_raised later, s)
               | (None, s) \<Rightarrow> (Writer_returned, s)))"

text \<open>Whether the iterator was built: the producer's start raised nothing.\<close>

definition source_built :: "stdin_env \<Rightarrow> 'q stream_sink \<Rightarrow> bool" where
  "source_built env s \<longleftrightarrow> fst (start_producer env s) = None"

definition drain_source_into_pipe ::
  "stdin_env \<Rightarrow> 'q encoder_codec \<Rightarrow> producer \<Rightarrow> 'q stream_sink \<Rightarrow> writer_end \<times> 'q stream_sink" where
  "drain_source_into_pipe env codec pd s =
    finally_do (finally_do (source_handlers env (source_body env codec pd s)) (close_stdin env))
      (finalize_stdin_source env (source_built env s \<and> pd_has_aclose pd))"

definition write_stdin_stream ::
  "stdin_env \<Rightarrow> 'q encoder_codec \<Rightarrow> bool \<Rightarrow> producer \<Rightarrow> writer_end \<times> 'q stream_sink" where
  "write_stdin_stream env codec piped pd =
    (if piped then drain_source_into_pipe env codec pd new_sink else (Writer_returned, new_sink))"

definition write_stdin :: "stdin_env \<Rightarrow> bool \<Rightarrow> bytes \<Rightarrow> writer_end \<times> 'q stream_sink" where
  "write_stdin env piped payload =
    (if \<not> piped then (Writer_returned, new_sink)
     else finally_do
       (case send_payload env payload new_sink of
          (None, s) \<Rightarrow> (Writer_returned, s)
        | (Some exc, s) \<Rightarrow>
            if os_or_runtime exc then
              (case emit_stdin_error env Writing exc s of
                 (Some later, s) \<Rightarrow> (Writer_raised later, s)
               | (None, s) \<Rightarrow> (Writer_returned, s))
            else (Writer_raised exc, s))
       (close_stdin env))"

text \<open>\<open>_spawn_stdin_writer\<close>: no task for an inherited stdin.\<close>

definition spawn_stdin_writer ::
  "stdin_env \<Rightarrow> 'q encoder_codec \<Rightarrow> bool \<Rightarrow> producer stdin_plan \<Rightarrow> (writer_end \<times> 'q stream_sink) option" where
  "spawn_stdin_writer env codec piped plan =
    (case plan of
       No_stdin \<Rightarrow> None
     | Stream_stdin pd \<Rightarrow> Some (write_stdin_stream env codec piped pd)
     | Pipe_stdin \<Rightarrow> Some (write_stdin env piped [])
     | Payload_stdin payload \<Rightarrow> Some (write_stdin env piped payload))"


section \<open>What each part does\<close>

definition emits :: "stdin_op set \<Rightarrow> ('q stream_sink \<Rightarrow> 'r \<times> 'q stream_sink) \<Rightarrow> bool" where
  "emits S f \<longleftrightarrow> (\<forall>s r s'. f s = (r, s') \<longrightarrow> (\<exists>ops. sk_trace s' = sk_trace s @ ops \<and> set ops \<subseteq> S))"

lemma emitsI:
  "(\<And>s r s'. f s = (r, s') \<Longrightarrow> \<exists>ops. sk_trace s' = sk_trace s @ ops \<and> set ops \<subseteq> S) \<Longrightarrow> emits S f"
  by (simp add: emits_def)

lemma emitsE:
  assumes "emits S f" and "f s = (r, s')"
  obtains ops where "sk_trace s' = sk_trace s @ ops" "set ops \<subseteq> S"
  using assms unfolding emits_def by blast

lemma note_op_simps [simp]:
  "sk_trace (note_op op s) = sk_trace s @ [op]"
  "sk_encoder (note_op op s) = sk_encoder s"
  "sk_chunk_error (note_op op s) = sk_chunk_error s"
  by (simp_all add: note_op_def)

lemma new_sink_simps [simp]:
  "sk_trace new_sink = []"
  "sk_encoder new_sink = None"
  "sk_chunk_error new_sink = None"
  by (simp_all add: new_sink_def)

lemma perform_eq [simp]: "perform env op s = (sn_answer env (sk_trace s) op, note_op op s)"
  by (simp add: perform_def)

lemma emits_perform: "op \<in> S \<Longrightarrow> emits S (perform env op)"
  by (auto simp: emits_def)

lemma emits_mono: "emits S f \<Longrightarrow> S \<subseteq> T \<Longrightarrow> emits T f"
  unfolding emits_def by blast

lemma emits_and_then:
  assumes "emits S f" and "emits S g"
  shows "emits S (and_then f g)"
proof (rule emitsI)
  fix s r s'
  assume run: "and_then f g s = (r, s')"
  obtain r1 s1 where f: "f s = (r1, s1)" by force
  obtain ops where ops: "sk_trace s1 = sk_trace s @ ops" "set ops \<subseteq> S" by (rule emitsE [OF assms(1) f])
  show "\<exists>ops. sk_trace s' = sk_trace s @ ops \<and> set ops \<subseteq> S"
  proof (cases r1)
    case None
    then have "g s1 = (r, s')" using run f by (simp add: and_then_def)
    then obtain ops' where "sk_trace s' = sk_trace s1 @ ops'" "set ops' \<subseteq> S" by (rule emitsE [OF assms(2)])
    then show ?thesis using ops by (intro exI [of _ "ops @ ops'"]) auto
  next
    case (Some e)
    then show ?thesis using run f ops by (auto simp: and_then_def)
  qed
qed

fun write_op :: "stdin_op \<Rightarrow> bool" where
  "write_op (Write_pipe b) = True"
| "write_op Drain_pipe = True"
| "write_op (Report_written n) = True"
| "write_op _ = False"

text \<open>Sending a payload: all three operations, or up to the one that raised.\<close>

lemma send_payload_cases:
  assumes "send_payload env b s = (r, s')"
  obtains (sent) "r = None" "s' = s\<lparr>sk_trace := sk_trace s @ [Write_pipe b, Drain_pipe, Report_written (length b)]\<rparr>"
  | (raised) e ops op where "r = Some e" "s' = s\<lparr>sk_trace := sk_trace s @ ops @ [op]\<rparr>"
      "sn_answer env (sk_trace s @ ops) op = Some e"
      "(ops, op) \<in> {([], Write_pipe b), ([Write_pipe b], Drain_pipe),
        ([Write_pipe b, Drain_pipe], Report_written (length b))}"
proof (cases "sn_answer env (sk_trace s) (Write_pipe b)")
  case (Some e)
  then show thesis using assms raised [of e "[]" "Write_pipe b"]
    by (simp add: send_payload_def and_then_def note_op_def)
next
  case None
  note w = this
  show thesis
  proof (cases "sn_answer env (sk_trace s @ [Write_pipe b]) Drain_pipe")
    case (Some e)
    then show thesis using assms w raised [of e "[Write_pipe b]" Drain_pipe]
      by (simp add: send_payload_def and_then_def note_op_def)
  next
    case None
    then show thesis
      using assms w sent raised [of _ "[Write_pipe b, Drain_pipe]" "Report_written (length b)"]
      by (cases r) (simp_all add: send_payload_def and_then_def note_op_def)
  qed
qed

lemma emits_send_payload: "emits {op. write_op op} (send_payload env b)"
  unfolding send_payload_def by (intro emits_and_then emits_perform) simp_all

text \<open>Encoding leaves the trace alone; it keeps the mark when it succeeds and sets it when it raises.\<close>

lemma sink_encode_cases:
  assumes "sink_encode codec str final s = (r, s')"
  obtains (encoded) q payload q' where "r = Inr payload"
      "sk_encoder s = Some q \<or> (sk_encoder s = None \<and> ec_make codec = Inr q)"
      "ec_encode codec q str final = Inr (payload, q')" "s' = s\<lparr>sk_encoder := Some q'\<rparr>"
  | (unencodable) e where "r = Inl e" "sk_chunk_error s' = Some Encoder_boundary" "sk_trace s' = sk_trace s"
      "(sk_encoder s = None \<and> ec_make codec = Inl e) \<or>
        (\<exists>q. (sk_encoder s = Some q \<or> (sk_encoder s = None \<and> ec_make codec = Inr q)) \<and>
          ec_encode codec q str final = Inl e)"
proof (cases "sk_encoder s")
  case None
  show thesis
  proof (cases "ec_make codec")
    case (Inl e)
    then show thesis using assms None unencodable [of e]
      by (auto simp: sink_encode_def sink_encoder_def Let_def)
  next
    case (Inr q)
    then show thesis using assms None unencodable encoded [of _ q]
      by (cases "ec_encode codec q str final") (auto simp: sink_encode_def sink_encoder_def Let_def)
  qed
next
  case (Some q)
  then show thesis using assms unencodable encoded [of _ q]
    by (cases "ec_encode codec q str final") (auto simp: sink_encode_def sink_encoder_def Let_def)
qed

section \<open>The bytes a producer means to send\<close>

definition chunk_bytes ::
  "'q encoder_codec \<Rightarrow> 'q option \<Rightarrow> chunk \<Rightarrow> raised + bytes \<times> 'q option" where
  "chunk_bytes codec q chunk =
    (case chunk of
       Bytes_chunk b \<Rightarrow> Inr (b, q)
     | Foreign_chunk \<Rightarrow> Inl chunk_type_error
     | Text_chunk str \<Rightarrow>
         rbind (case q of None \<Rightarrow> ec_make codec | Some q \<Rightarrow> Inr q) (\<lambda>q.
         rbind (ec_encode codec q str False) (\<lambda>(b, q). Inr (b, Some q))))"

definition tail_bytes :: "'q encoder_codec \<Rightarrow> 'q option \<Rightarrow> raised + bytes" where
  "tail_bytes codec q =
    (case q of None \<Rightarrow> Inr [] | Some q \<Rightarrow> rbind (ec_encode codec q [] True) (\<lambda>(b, q). Inr b))"

fun intended :: "'q encoder_codec \<Rightarrow> 'q option \<Rightarrow> chunk list \<Rightarrow> bytes" where
  "intended codec q [] = (case tail_bytes codec q of Inl e \<Rightarrow> [] | Inr b \<Rightarrow> b)"
| "intended codec q (c # cs) =
    (case chunk_bytes codec q c of Inl e \<Rightarrow> [] | Inr (b, q') \<Rightarrow> b @ intended codec q' cs)"

fun encodable :: "'q encoder_codec \<Rightarrow> 'q option \<Rightarrow> chunk list \<Rightarrow> bool" where
  "encodable codec q [] = (case tail_bytes codec q of Inl e \<Rightarrow> False | Inr b \<Rightarrow> True)"
| "encodable codec q (c # cs) =
    (case chunk_bytes codec q c of Inl e \<Rightarrow> False | Inr (b, q') \<Rightarrow> encodable codec q' cs)"

fun op_bytes :: "stdin_op \<Rightarrow> bytes" where
  "op_bytes (Write_pipe b) = b"
| "op_bytes _ = []"

definition written :: "stdin_op list \<Rightarrow> bytes" where
  "written ops = concat (map op_bytes ops)"

lemma written_simps [simp]:
  "written [] = []"
  "written (op # ops) = op_bytes op @ written ops"
  "written (ops @ ops') = written ops @ written ops'"
  by (simp_all add: written_def)

section \<open>The transport\<close>

text \<open>
  The write transport of the pipe keeps what the pipe has not taken yet.  \<open>drain\<close> returns while at most
  \<open>HIGH_WATER\<close> bytes wait, \<open>wait_closed\<close> returns without an exception once all have been flushed, and \<open>abort\<close> discards
  them.  A write that raises is counted as waiting; the pipe need not take it.
\<close>

definition HIGH_WATER :: nat where
  "HIGH_WATER = 65536"

record pipe_transport =
  tp_taken :: bytes
  tp_lost :: bytes
  tp_pending :: bytes
  tp_aborted :: bool

definition new_transport :: pipe_transport where
  "new_transport = \<lparr>tp_taken = [], tp_lost = [], tp_pending = [], tp_aborted = False\<rparr>"

definition bytes_taken :: "stdin_env \<Rightarrow> stdin_op list \<Rightarrow> stdin_op \<Rightarrow> nat \<Rightarrow> nat" where
  "bytes_taken env past op waiting =
    (if op = Wait_closed \<and> sn_answer env past op = None then waiting
     else if op = Drain_pipe \<and> sn_answer env past op = None then max (sn_takes env past op) (waiting - HIGH_WATER)
     else sn_takes env past op)"

definition transport_after :: "stdin_env \<Rightarrow> stdin_op list \<Rightarrow> stdin_op \<Rightarrow> pipe_transport \<Rightarrow> pipe_transport" where
  "transport_after env past op t =
    (let buffer = tp_pending t @ op_bytes op;
         n = bytes_taken env past op (length buffer)
     in if tp_aborted t \<or> op = Abort_transport \<and> sn_answer env past op = None
        then t\<lparr>tp_lost := tp_lost t @ buffer, tp_pending := [], tp_aborted := True\<rparr>
        else t\<lparr>tp_taken := tp_taken t @ take n buffer, tp_pending := drop n buffer\<rparr>)"

fun transport_run :: "stdin_env \<Rightarrow> stdin_op list \<Rightarrow> stdin_op list \<Rightarrow> pipe_transport \<Rightarrow> pipe_transport" where
  "transport_run env past [] t = t"
| "transport_run env past (op # ops) t = transport_run env (past @ [op]) ops (transport_after env past op t)"

definition transport :: "stdin_env \<Rightarrow> stdin_op list \<Rightarrow> pipe_transport" where
  "transport env trace = transport_run env [] trace new_transport"

text \<open>What was handed over and has not reached the pipe.\<close>

definition undelivered :: "stdin_env \<Rightarrow> stdin_op list \<Rightarrow> bytes" where
  "undelivered env trace = tp_lost (transport env trace) @ tp_pending (transport env trace)"

lemma transport_run_append:
  "transport_run env past (ops @ ops') t = transport_run env (past @ ops) ops' (transport_run env past ops t)"
  by (induction ops arbitrary: past t) simp_all

lemma transport_Nil [simp]: "transport env [] = new_transport"
  by (simp add: transport_def)

lemma transport_snoc [simp]: "transport env (ops @ [op]) = transport_after env ops op (transport env ops)"
  by (simp add: transport_def transport_run_append)

lemma transport_account:
  "tp_taken (transport env ops) @ undelivered env ops = written ops \<and>
    (if tp_aborted (transport env ops) then tp_pending (transport env ops) = [] \<and> Abort_transport \<in> set ops
     else tp_lost (transport env ops) = [])"
proof (induction ops rule: rev_induct)
  case Nil
  show ?case by (simp add: undelivered_def new_transport_def)
next
  case (snoc op ops)
  let ?t = "transport env ops"
  let ?buffer = "tp_pending ?t @ op_bytes op"
  have taken: "tp_taken ?t @ take n ?buffer @ drop n ?buffer = written (ops @ [op])" if "tp_lost ?t = []" for n
  proof -
    have "tp_taken ?t @ tp_pending ?t = written ops" using snoc that by (simp add: undelivered_def)
    then show ?thesis by (simp only: append_take_drop_id) simp
  qed
  show ?case
  proof (cases "tp_aborted ?t \<or> op = Abort_transport \<and> sn_answer env ops op = None")
    case True
    then show ?thesis using snoc by (auto simp: undelivered_def transport_after_def Let_def split: if_splits)
  next
    case False
    then have kept: "tp_lost ?t = []" using snoc by simp
    define n where "n = bytes_taken env ops op (length ?buffer)"
    have "transport env (ops @ [op]) = ?t\<lparr>tp_taken := tp_taken ?t @ take n ?buffer, tp_pending := drop n ?buffer\<rparr>"
      using False by (simp only: transport_snoc transport_after_def Let_def if_False n_def)
    then show ?thesis
      using False kept taken [OF kept, of n]
      by (simp del: transport_snoc take_append drop_append append_take_drop_id add: undelivered_def)
  qed
qed

text \<open>An operation that writes nothing does not add to what is undelivered, and a drain that returns bounds it.\<close>

lemma undelivered_quiet_op: "op_bytes op = [] \<Longrightarrow> length (undelivered env (ops @ [op])) \<le> length (undelivered env ops)"
  by (simp add: undelivered_def transport_after_def Let_def)

lemma undelivered_quiet:
  "list_all (\<lambda>op. op_bytes op = []) ops' \<Longrightarrow> length (undelivered env (ops @ ops')) \<le> length (undelivered env ops)"
proof (induction ops' rule: rev_induct)
  case (snoc op ops')
  then show ?case
    using undelivered_quiet_op [of op env "ops @ ops'"] by (simp add: le_trans)
qed simp

lemma undelivered_drained:
  assumes "sn_answer env ops Drain_pipe = None" "Abort_transport \<notin> set ops"
  shows "length (undelivered env (ops @ [Drain_pipe])) \<le> HIGH_WATER"
proof -
  have "\<not> tp_aborted (transport env ops)" "tp_lost (transport env ops) = []"
    using assms(2) transport_account [of env ops] by (auto split: if_splits)
  then show ?thesis
    using assms(1) by (simp add: undelivered_def transport_after_def Let_def bytes_taken_def)
qed

lemma undelivered_flushed:
  assumes "sn_answer env ops Wait_closed = None" "Abort_transport \<notin> set ops"
  shows "undelivered env (ops @ [Wait_closed]) = []"
proof -
  have "\<not> tp_aborted (transport env ops)" "tp_lost (transport env ops) = []"
    using assms(2) transport_account [of env ops] by (auto split: if_splits)
  then show ?thesis
    using assms(1) by (simp add: undelivered_def transport_after_def Let_def bytes_taken_def)
qed

text \<open>
  Where an exception of the write side comes from, with the mark the sink then carries.
\<close>

definition write_origin ::
  "stdin_env \<Rightarrow> 'q encoder_codec \<Rightarrow> chunk set \<Rightarrow> stdio_failure_category option \<Rightarrow> raised \<Rightarrow> stdin_op list \<Rightarrow> bool" where
  "write_origin env codec chunks mark e trace \<longleftrightarrow>
    (mark = Some Invalid_chunk \<and> Foreign_chunk \<in> chunks \<and> e = chunk_type_error) \<or>
    (mark = Some Encoder_boundary \<and> (ec_make codec = Inl e \<or> (\<exists>q str final. ec_encode codec q str final = Inl e))) \<or>
    (mark = None \<and> (\<exists>ops op. trace = ops @ [op] \<and> write_op op \<and> sn_answer env ops op = Some e))"

lemma write_chunk_cases:
  assumes "write_chunk env codec c s = (r, s')" and "sk_chunk_error s = None"
  obtains (written) b where "r = None" "chunk_bytes codec (sk_encoder s) c = Inr (b, sk_encoder s')"
      "sk_chunk_error s' = None"
      "sk_trace s' = sk_trace s @ (if b = [] then [] else [Write_pipe b, Drain_pipe, Report_written (length b)])"
  | (unsent) e b where "r = Some e" "chunk_bytes codec (sk_encoder s) c = Inr (b, sk_encoder s')"
      "write_origin env codec {c} (sk_chunk_error s') e (sk_trace s')"
      "sk_trace s' \<in> {sk_trace s @ [Write_pipe b], sk_trace s @ [Write_pipe b, Drain_pipe],
        sk_trace s @ [Write_pipe b, Drain_pipe, Report_written (length b)]}"
  | (refused) e where "r = Some e" "chunk_bytes codec (sk_encoder s) c = Inl e"
      "write_origin env codec {c} (sk_chunk_error s') e (sk_trace s')" "sk_trace s' = sk_trace s"
proof -
  have send: thesis
    if c: "chunk_bytes codec (sk_encoder s) c = Inr (b, sk_encoder s1)"
      and s1: "sk_trace s1 = sk_trace s" "sk_chunk_error s1 = None"
      and run: "(if b = [] then (None, s1) else send_payload env b s1) = (r, s')" for b and s1 :: "'a stream_sink"
  proof (cases "b = []")
    case True
    then show thesis using written [of b] c s1 run by auto
  next
    case False
    then have "send_payload env b s1 = (r, s')" using run by simp
    then show thesis
    proof (cases rule: send_payload_cases)
      case sent
      then show thesis using written [of b] c s1 False by auto
    next
      case (raised e ops op)
      then show thesis using unsent [of e b] c s1
        by (auto simp: write_origin_def intro!: exI [of _ "sk_trace s @ ops"])
    qed
  qed
  show thesis
  proof (cases c)
    case (Text_chunk str)
    obtain r1 s1 where enc: "sink_encode codec str False s = (r1, s1)" by force
    then show thesis
    proof (cases rule: sink_encode_cases)
      case (encoded q payload q')
      have "(if payload = [] then (None, s1) else send_payload env payload s1) = (r, s')"
        using assms(1) enc encoded(1) by (simp add: write_chunk_def Text_chunk)
      then show thesis using send [of payload s1] encoded assms(2)
        by (auto simp: chunk_bytes_def Text_chunk)
    next
      case (unencodable e)
      then have "r = Some e" "s' = s1" using assms(1) enc by (simp_all add: write_chunk_def Text_chunk)
      have "ec_make codec = Inl e \<or> (\<exists>q str final. ec_encode codec q str final = Inl e)"
        using unencodable(4) by blast
      moreover have "chunk_bytes codec (sk_encoder s) c = Inl e"
        using unencodable(4) by (auto simp: chunk_bytes_def Text_chunk)
      ultimately show thesis
        using refused [of e] unencodable(2,3) \<open>r = Some e\<close> \<open>s' = s1\<close> by (simp add: write_origin_def)
    qed
  next
    case (Bytes_chunk b)
    then show thesis using send [of b s] assms by (auto simp: write_chunk_def chunk_bytes_def)
  next
    case Foreign_chunk
    then have "r = Some chunk_type_error" "s' = s\<lparr>sk_chunk_error := Some Invalid_chunk\<rparr>"
      using assms(1) by (simp_all add: write_chunk_def)
    then show thesis using refused [of chunk_type_error] Foreign_chunk
      by (simp add: chunk_bytes_def write_origin_def)
  qed
qed


section \<open>The body\<close>

text \<open>A trace is paced when no pull and no write comes before the last write was drained.\<close>

fun paced :: "bool \<Rightarrow> stdin_op list \<Rightarrow> bool" where
  "paced undrained [] = True"
| "paced undrained (Pull_chunk # ops) = (\<not> undrained \<and> paced undrained ops)"
| "paced undrained (Write_pipe b # ops) = (\<not> undrained \<and> paced True ops)"
| "paced undrained (Drain_pipe # ops) = paced False ops"
| "paced undrained (op # ops) = paced undrained ops"

fun body_op :: "stdin_op \<Rightarrow> bool" where
  "body_op Start_producer = True"
| "body_op Pull_chunk = True"
| "body_op (Write_pipe b) = True"
| "body_op Drain_pipe = True"
| "body_op (Report_written n) = True"
| "body_op _ = False"

text \<open>What one part of the body has done to the sink, when it goes on and when it raises.\<close>

definition body_verdict ::
  "stdin_env \<Rightarrow> 'q encoder_codec \<Rightarrow> 'q option \<Rightarrow> chunk list \<Rightarrow> raised option \<Rightarrow> raised set \<Rightarrow> bytes \<Rightarrow>
    body_error option \<times> 'q stream_sink \<Rightarrow> bool" where
  "body_verdict env codec q cs ending failures sent r \<longleftrightarrow>
    (case fst r of
       None \<Rightarrow> ending = None \<and> encodable codec q cs \<and> sent = intended codec q cs
     | Some (Producer_failed e) \<Rightarrow> is_exception e \<and> e \<in> failures
     | Some (Unmarked e) \<Rightarrow> is_exception e \<longrightarrow>
         write_origin env codec (set cs) (sk_chunk_error (snd r)) e (sk_trace (snd r)))"

definition pumped ::
  "stdin_env \<Rightarrow> 'q encoder_codec \<Rightarrow> chunk list \<Rightarrow> 'q stream_sink \<Rightarrow> body_error option \<times> 'q stream_sink \<Rightarrow>
    raised option \<Rightarrow> bool" where
  "pumped env codec cs s r ending \<longleftrightarrow>
    (\<exists>ops. sk_trace (snd r) = sk_trace s @ ops \<and> list_all body_op ops \<and> paced False ops \<and>
      prefix (written ops) (intended codec (sk_encoder s) cs) \<and>
      body_verdict env codec (sk_encoder s) cs ending (set_option ending) (written ops) r)"

definition pump_and_flush ::
  "stdin_env \<Rightarrow> 'q encoder_codec \<Rightarrow> raised option \<Rightarrow> chunk list \<Rightarrow> 'q stream_sink \<Rightarrow>
    body_error option \<times> 'q stream_sink" where
  "pump_and_flush env codec ending cs =
    and_then (pump_chunks env codec ending cs)
      (\<lambda>s. case flush_encoder env codec s of (e, s) \<Rightarrow> (map_option Unmarked e, s))"

lemma pump_and_flush_Nil:
  "pump_and_flush env codec ending [] s =
    (case ending of
       Some e \<Rightarrow> (Some (mark_producer e), note_op Pull_chunk s)
     | None \<Rightarrow> (case flush_encoder env codec (note_op Pull_chunk s) of (e, s) \<Rightarrow> (map_option Unmarked e, s)))"
  by (simp add: pump_and_flush_def and_then_def split: option.split)

lemma pump_and_flush_Cons:
  "pump_and_flush env codec ending (c # cs) s =
    (case write_chunk env codec c (note_op Pull_chunk s) of
       (Some e, s) \<Rightarrow> (Some (Unmarked e), s)
     | (None, s) \<Rightarrow> pump_and_flush env codec ending cs s)"
  by (simp add: pump_and_flush_def and_then_def split: prod.split option.split)

lemma flush_pumped:
  assumes "sk_chunk_error s = None"
  shows "pumped env codec [] s (pump_and_flush env codec None [] s) None"
proof -
  let ?s = "note_op Pull_chunk s"
  obtain r s' where run: "flush_encoder env codec ?s = (r, s')" by force
  have result: "pump_and_flush env codec None [] s = (map_option Unmarked r, s')"
    using run by (simp add: pump_and_flush_Nil)
  show ?thesis
  proof (cases "sk_encoder s")
    case None
    then have "r = None" "s' = ?s" using run by (simp_all add: flush_encoder_def)
    then show ?thesis using result None
      by (simp add: pumped_def body_verdict_def tail_bytes_def)
  next
    case (Some q0)
    obtain r1 s1 where enc: "sink_encode codec [] True ?s = (r1, s1)" by force
    then show ?thesis
    proof (cases rule: sink_encode_cases)
      case (unencodable e)
      have "ec_encode codec q0 [] True = Inl e" using unencodable(4) Some by simp
      moreover from this have "ec_make codec = Inl e \<or> (\<exists>q str final. ec_encode codec q str final = Inl e)" by blast
      moreover have "r = Some e" "s' = s1" using run enc unencodable Some by (simp_all add: flush_encoder_def)
      ultimately show ?thesis using result Some unencodable(2,3)
        by (simp add: pumped_def body_verdict_def tail_bytes_def write_origin_def)
    next
      case (encoded q payload q')
      then have tail: "tail_bytes codec (sk_encoder s) = Inr payload" using Some by (simp add: tail_bytes_def)
      have step: "(if payload = [] then (None, s1) else send_payload env payload s1) = (r, s')"
        using run enc encoded(1) Some by (simp add: flush_encoder_def)
      show ?thesis
      proof (cases "payload = []")
        case True
        then show ?thesis using result step tail encoded by (auto simp: pumped_def body_verdict_def)
      next
        case False
        then have "send_payload env payload s1 = (r, s')" using step by simp
        then show ?thesis
        proof (cases rule: send_payload_cases)
          case sent
          then show ?thesis using result tail encoded by (auto simp: pumped_def body_verdict_def)
        next
          case (raised e ops op)
          have "write_origin env codec {} (sk_chunk_error s') e (sk_trace s')"
            using raised encoded(4) assms by (auto simp: write_origin_def intro!: exI [of _ "sk_trace s1 @ ops"])
          then show ?thesis using result tail encoded raised by (auto simp: pumped_def body_verdict_def)
        qed
      qed
    qed
  qed
qed

lemma write_origin_mono:
  "write_origin env codec C mark e tr \<Longrightarrow> C \<subseteq> D \<Longrightarrow> write_origin env codec D mark e tr"
  unfolding write_origin_def by blast

lemma pump_and_flush_pumped:
  assumes "sk_chunk_error s = None"
  shows "pumped env codec cs s (pump_and_flush env codec ending cs s) ending"
  using assms
proof (induction cs arbitrary: s)
  case Nil
  show ?case
  proof (cases ending)
    case None
    then show ?thesis using flush_pumped [OF Nil] by simp
  next
    case (Some e)
    then show ?thesis
      by (simp add: pumped_def body_verdict_def pump_and_flush_Nil mark_producer_def)
  qed
next
  case (Cons c cs)
  obtain r s1 where run: "write_chunk env codec c (note_op Pull_chunk s) = (r, s1)" by force
  have e: "sk_chunk_error (note_op Pull_chunk s) = None" using Cons.prems by simp
  from run e show ?case
  proof (cases rule: write_chunk_cases)
    case (written b)
    let ?first = "Pull_chunk # (if b = [] then [] else [Write_pipe b, Drain_pipe, Report_written (length b)])"
    have "pumped env codec cs s1 (pump_and_flush env codec ending cs s1) ending"
      by (rule Cons.IH [OF written(3)])
    then obtain ops where ops: "sk_trace (snd (pump_and_flush env codec ending cs s1)) = sk_trace s1 @ ops"
        "list_all body_op ops" "paced False ops" "prefix (Stdin_Writer.written ops) (intended codec (sk_encoder s1) cs)"
        "body_verdict env codec (sk_encoder s1) cs ending (set_option ending) (Stdin_Writer.written ops)
          (pump_and_flush env codec ending cs s1)"
      unfolding pumped_def by blast
    have result: "pump_and_flush env codec ending (c # cs) s = pump_and_flush env codec ending cs s1"
      using run written(1) by (simp add: pump_and_flush_Cons)
    have verdict: "body_verdict env codec (sk_encoder s) (c # cs) ending (set_option ending)
        (b @ Stdin_Writer.written ops) (pump_and_flush env codec ending cs s1)"
      using ops(5) written(2) write_origin_mono [of env codec "set cs" _ _ _ "set (c # cs)"]
      by (auto simp: body_verdict_def split: option.splits body_error.splits)
    have int: "intended codec (sk_encoder s) (c # cs) = b @ intended codec (sk_encoder s1) cs"
        "encodable codec (sk_encoder s) (c # cs) = encodable codec (sk_encoder s1) cs"
      using written(2) by simp_all
    have all: "list_all body_op (?first @ ops)" "paced False (?first @ ops)"
        "Stdin_Writer.written (?first @ ops) = b @ Stdin_Writer.written ops"
      using ops(2,3) by simp_all
    show ?thesis
      unfolding pumped_def result int
    proof (intro exI [of _ "?first @ ops"] conjI)
      show "sk_trace (snd (pump_and_flush env codec ending cs s1)) = sk_trace s @ ?first @ ops"
        using ops(1) written(4) by simp
      show "prefix (Stdin_Writer.written (?first @ ops)) (b @ intended codec (sk_encoder s1) cs)"
        unfolding all(3) using ops(4) by simp
    qed (use all verdict in simp_all)
  next
    case (unsent e b)
    then have result: "pump_and_flush env codec ending (c # cs) s = (Some (Unmarked e), s1)"
      using run by (simp add: pump_and_flush_Cons)
    have "write_origin env codec (set (c # cs)) (sk_chunk_error s1) e (sk_trace s1)"
      using unsent(3) write_origin_mono by fastforce
    then show ?thesis using unsent(2,4) unfolding pumped_def body_verdict_def result by auto
  next
    case (refused e)
    then have result: "pump_and_flush env codec ending (c # cs) s = (Some (Unmarked e), s1)"
      using run by (simp add: pump_and_flush_Cons)
    have "write_origin env codec (set (c # cs)) (sk_chunk_error s1) e (sk_trace s1)"
      using refused(3) write_origin_mono by fastforce
    then show ?thesis using refused(2,4) unfolding pumped_def body_verdict_def result by auto
  qed
qed


lemma source_body_cases:
  obtains (unbuilt) e where "sn_answer env [] Start_producer = Some e"
      "source_body env codec pd new_sink = (Some (mark_producer e), note_op Start_producer new_sink)"
  | (built) "sn_answer env [] Start_producer = None"
      "source_body env codec pd new_sink =
        pump_and_flush env codec (pd_ending pd) (pd_chunks pd) (note_op Start_producer new_sink)"
  by (cases "sn_answer env [] Start_producer")
    (simp_all add: source_body_def and_then_def start_producer_def pump_and_flush_def)

definition body_trace :: "stdin_env \<Rightarrow> 'q encoder_codec \<Rightarrow> producer \<Rightarrow> stdin_op list" where
  "body_trace env codec pd = sk_trace (snd (source_body env codec pd new_sink))"

text \<open>The body's account: what it wrote, in which rhythm, and why it ended.\<close>

lemma source_body_account:
  "list_all body_op (body_trace env codec pd) \<and> paced False (body_trace env codec pd) \<and>
    prefix (written (body_trace env codec pd)) (intended codec None (pd_chunks pd)) \<and>
    body_verdict env codec None (pd_chunks pd) (pd_ending pd)
      (set_option (pd_ending pd) \<union> set_option (sn_answer env [] Start_producer))
      (written (body_trace env codec pd)) (source_body env codec pd new_sink)"
proof (cases rule: source_body_cases [of env codec pd])
  case (unbuilt e)
  then show ?thesis
    by (simp add: body_trace_def mark_producer_def body_verdict_def)
next
  case built
  let ?s = "note_op Start_producer (new_sink :: 'a stream_sink)"
  have "pumped env codec (pd_chunks pd) ?s (source_body env codec pd new_sink) (pd_ending pd)"
    using pump_and_flush_pumped [of ?s] built(2) by simp
  then obtain ops where ops: "body_trace env codec pd = Start_producer # ops"
      "list_all body_op ops" "paced False ops" "prefix (written ops) (intended codec None (pd_chunks pd))"
      "body_verdict env codec None (pd_chunks pd) (pd_ending pd) (set_option (pd_ending pd)) (written ops)
        (source_body env codec pd new_sink)"
    by (auto simp: pumped_def body_trace_def)
  then show ?thesis
    by (auto simp: body_verdict_def split: option.splits body_error.splits)
qed

section \<open>The handlers and the release\<close>

fun report_op :: "stdin_op \<Rightarrow> bool" where
  "report_op (Report_stdin_error operation e) = (operation = Early_closing)"
| "report_op (Report_stdio_error c e) = True"
| "report_op _ = False"

fun release_op :: "stdin_op \<Rightarrow> bool" where
  "release_op Wait_closed = True"
| "release_op Abort_transport = True"
| "release_op (Report_stdin_error operation e) = (operation = Closing)"
| "release_op Call_finalizer = True"
| "release_op Wait_finalizer = True"
| "release_op Cancel_finalizer = True"
| "release_op Reclaim_finalizer = True"
| "release_op _ = False"

lemma raise_source_error_cases:
  assumes "raise_source_error env c e s = (r, s')"
  shows "sk_trace s' = sk_trace s @ [Report_stdio_error c e] \<and>
    (r = Writer_source_error e \<or> (\<exists>i. r = Writer_raised (Interrupt i)))"
  using assms
  by (auto simp: raise_source_error_def report_boundary_def split: option.splits raised.splits)

text \<open>The handlers add at most one report.\<close>

lemma source_handlers_cases:
  assumes "source_handlers env (source_body env codec pd new_sink) = (r, s')"
  obtains (ended) "r = Writer_returned" "sk_trace s' = body_trace env codec pd"
      "fst (source_body env codec pd new_sink) = None"
  | (producer) e where "fst (source_body env codec pd new_sink) = Some (Producer_failed e)"
      "sk_trace s' = body_trace env codec pd @ [Report_stdio_error Producer_boundary e]"
      "r = Writer_source_error e \<or> (\<exists>i. r = Writer_raised (Interrupt i))"
  | (uncaught) e where "fst (source_body env codec pd new_sink) = Some (Unmarked e)" "\<not> is_exception e"
      "sk_trace s' = body_trace env codec pd" "r = Writer_raised e"
  | (boundary) e c where "fst (source_body env codec pd new_sink) = Some (Unmarked e)" "is_exception e"
      "\<not> is_early_close e" "c = write_boundary_category (snd (source_body env codec pd new_sink))"
      "sk_trace s' = body_trace env codec pd @ [Report_stdio_error c e]"
      "r = Writer_source_error e \<or> (\<exists>i. r = Writer_raised (Interrupt i))"
  | (closed_early) e where "fst (source_body env codec pd new_sink) = Some (Unmarked e)" "is_exception e"
      "is_early_close e" "sk_trace s' = body_trace env codec pd @ [Report_stdin_error Early_closing e]"
      "r = Writer_returned \<or> (\<exists>later. r = Writer_raised later)"
proof -
  obtain b s where body: "source_body env codec pd new_sink = (b, s)" by force
  then have trace: "body_trace env codec pd = sk_trace s" by (simp add: body_trace_def)
  show thesis
  proof (cases b)
    case None
    then show thesis using assms body trace ended by (simp add: source_handlers_def)
  next
    case (Some x)
    show thesis
    proof (cases x)
      case (Producer_failed e)
      then have "raise_source_error env Producer_boundary e s = (r, s')"
        using assms body Some by (simp add: source_handlers_def)
      then show thesis using raise_source_error_cases producer body trace Some Producer_failed by fastforce
    next
      case (Unmarked e)
      consider "\<not> is_exception e" | "is_exception e" "\<not> is_early_close e" | "is_exception e" "is_early_close e" by blast
      then show thesis
      proof cases
        case 1
        then show thesis using assms body trace Some Unmarked uncaught by (simp add: source_handlers_def)
      next
        case 2
        then have "raise_source_error env (write_boundary_category s) e s = (r, s')"
          using assms body Some Unmarked by (simp add: source_handlers_def)
        then show thesis using raise_source_error_cases boundary [of e "write_boundary_category s"]
            body trace Some Unmarked 2 by fastforce
      next
        case 3
        then have "(case sn_answer env (sk_trace s) (Report_stdin_error Early_closing e) of
            Some later \<Rightarrow> (Writer_raised later, note_op (Report_stdin_error Early_closing e) s)
          | None \<Rightarrow> (Writer_returned, note_op (Report_stdin_error Early_closing e) s)) = (r, s')"
          using assms body Some Unmarked
          by (simp add: source_handlers_def emit_stdin_error_def split: option.splits)
        then show thesis using closed_early [of e] body trace Some Unmarked 3 by (auto split: option.splits)
      qed
    qed
  qed
qed

text \<open>The close: it ends the pipe's wait by an abort when the wait expired or was cancelled.\<close>

definition close_abandoned :: "stdin_env \<Rightarrow> stdin_op list \<Rightarrow> bool" where
  "close_abandoned env trace \<longleftrightarrow>
    sn_answer env trace Close_pipe = None \<and>
    (\<exists>e. sn_answer env (trace @ [Close_pipe]) Wait_closed = Some e \<and> (is_timeout e \<or> e = Cancel_error))"

lemma close_stdin_trace:
  assumes "close_stdin env s = (r, s')"
  shows "\<exists>ops. sk_trace s' = sk_trace s @ Close_pipe # ops \<and> list_all release_op ops \<and>
    Call_finalizer \<notin> set ops \<and> (close_abandoned env (sk_trace s) \<longrightarrow> Abort_transport \<in> set ops)"
  using assms
  by (auto simp: close_stdin_def and_then_def abort_stdin_transport_def emit_stdin_error_def close_abandoned_def
      split: option.splits if_splits)

fun close_failed :: "stdin_op \<Rightarrow> bool" where
  "close_failed Abort_transport = True"
| "close_failed (Report_stdin_error operation e) = (operation = Closing)"
| "close_failed _ = False"

text \<open>How a close that raised nothing went: an abort or a report tells of its failure, or the wait returned.\<close>

definition closed_or_failed :: "stdin_env \<Rightarrow> stdin_op list \<Rightarrow> stdin_op list \<Rightarrow> bool" where
  "closed_or_failed env before ops \<longleftrightarrow>
    (\<exists>op \<in> set ops. close_failed op) \<or>
    (\<exists>later. ops = Wait_closed # later \<and> sn_answer env (before @ [Close_pipe]) Wait_closed = None)"

lemma close_stdin_returns:
  assumes "close_stdin env s = (None, s')" "sk_trace s' = sk_trace s @ Close_pipe # ops"
  shows "closed_or_failed env (sk_trace s) (ops @ later)"
  using assms
  by (auto simp: closed_or_failed_def close_stdin_def and_then_def abort_stdin_transport_def emit_stdin_error_def
      split: option.splits if_splits)

lemma finalize_trace:
  assumes "finalize_stdin_source env source s = (r, s')"
  shows "\<exists>ops. sk_trace s' = sk_trace s @ ops \<and> list_all release_op ops \<and> count_list ops Call_finalizer = of_bool source"
  using assms
  by (auto simp: finalize_stdin_source_def split: option.splits if_splits)

lemma drain_source_trace:
  fixes codec :: "'q encoder_codec"
  assumes "drain_source_into_pipe env codec pd new_sink = (r, s')"
  obtains reports rest h where "sk_trace s' = body_trace env codec pd @ reports @ Close_pipe # rest"
    "source_handlers env (source_body env codec pd new_sink) = (h, snd (source_handlers env (source_body env codec pd new_sink)))"
    "sk_trace (snd (source_handlers env (source_body env codec pd new_sink))) = body_trace env codec pd @ reports"
    "list_all report_op reports" "length reports \<le> 1" "list_all release_op rest"
    "count_list rest Call_finalizer = of_bool (source_built env (new_sink :: 'q stream_sink) \<and> pd_has_aclose pd)"
    "close_abandoned env (body_trace env codec pd @ reports) \<longrightarrow> Abort_transport \<in> set rest"
    "r = h \<or> (\<exists>e. r = Writer_raised e)"
    "r = Writer_returned \<longrightarrow> closed_or_failed env (body_trace env codec pd @ reports) rest"
proof -
  let ?handled = "source_handlers env (source_body env codec pd (new_sink :: 'q stream_sink))"
  obtain h s1 where h: "?handled = (h, s1)" by force
  obtain c s2 where c: "close_stdin env s1 = (c, s2)" by force
  let ?source = "source_built env (new_sink :: 'q stream_sink) \<and> pd_has_aclose pd"
  obtain f s3 where f: "finalize_stdin_source env ?source s2 = (f, s3)" by force
  have out: "s' = s3" "r = (case f of Some e \<Rightarrow> Writer_raised e | None \<Rightarrow> (case c of Some e \<Rightarrow> Writer_raised e | None \<Rightarrow> h))"
    using assms h c f by (auto simp: drain_source_into_pipe_def finally_do_def split: option.splits)
  from h obtain reports where reports: "sk_trace s1 = body_trace env codec pd @ reports" "list_all report_op reports"
      "length reports \<le> 1"
    by (cases rule: source_handlers_cases) auto
  obtain ops1 where ops1: "sk_trace s2 = sk_trace s1 @ Close_pipe # ops1" "list_all release_op ops1"
      "Call_finalizer \<notin> set ops1" "close_abandoned env (sk_trace s1) \<longrightarrow> Abort_transport \<in> set ops1"
    using close_stdin_trace [OF c] by blast
  obtain ops2 where ops2: "sk_trace s3 = sk_trace s2 @ ops2" "list_all release_op ops2"
      "count_list ops2 Call_finalizer = of_bool ?source"
    using finalize_trace [OF f] by blast
  have "closed_or_failed env (sk_trace s1) (ops1 @ ops2)" if "r = Writer_returned"
    using that out(2) c close_stdin_returns [of env s1 s2, OF _ ops1(1)] by (auto split: option.splits)
  note closing = this
  show thesis
  proof (rule that [of reports "ops1 @ ops2" h])
    show "r = Writer_returned \<longrightarrow> closed_or_failed env (body_trace env codec pd @ reports) (ops1 @ ops2)"
      using closing reports(1) by simp
    show "count_list (ops1 @ ops2) Call_finalizer = of_bool ?source"
      using ops1(3) ops2(3) by (simp add: count_list_0_iff [THEN iffD2])
  qed (use h out reports ops1 ops2 in \<open>auto split: option.splits\<close>)
qed


section \<open>Properties\<close>

lemma report_op_quiet: "report_op op \<Longrightarrow> op_bytes op = [] \<and> \<not> body_op op \<and> op \<noteq> Close_pipe \<and> op \<noteq> Call_finalizer"
  by (cases op) auto

lemma release_op_quiet: "release_op op \<Longrightarrow> op_bytes op = [] \<and> \<not> body_op op \<and> op \<noteq> Close_pipe"
  by (cases op) auto

lemma body_op_quiet: "body_op op \<Longrightarrow> op \<noteq> Close_pipe \<and> op \<noteq> Call_finalizer"
  by (cases op) auto

lemma quiet_ops:
  "list_all report_op ops \<Longrightarrow> written ops = []"
  "list_all release_op ops \<Longrightarrow> written ops = []"
  by (induction ops) (auto dest: report_op_quiet release_op_quiet)

lemma paced_outside: "list_all (\<lambda>op. \<not> body_op op) ops \<Longrightarrow> paced u ops"
proof (induction ops)
  case (Cons op ops)
  then show ?case by (cases op) auto
qed simp

lemma paced_append_outside: "paced u ops \<Longrightarrow> list_all (\<lambda>op. \<not> body_op op) ops' \<Longrightarrow> paced u (ops @ ops')"
  by (induction u ops rule: paced.induct) (auto simp: paced_outside)

text \<open>An exception that the pipe or a hook answered to an operation of a write.\<close>

definition raised_by_write :: "stdin_env \<Rightarrow> raised \<Rightarrow> stdin_op list \<Rightarrow> bool" where
  "raised_by_write env e trace \<longleftrightarrow>
    (\<exists>ops op. prefix (ops @ [op]) trace \<and> write_op op \<and> sn_answer env ops op = Some e)"

lemma write_origin_raised:
  "write_origin env codec C None e trace \<Longrightarrow> raised_by_write env e (trace @ later)"
  unfolding write_origin_def raised_by_write_def by (force simp: prefix_def)

text \<open>What a plan stands for, and the reports that say the child or the pipe cut it short.\<close>

definition planned_bytes :: "'q encoder_codec \<Rightarrow> producer stdin_plan \<Rightarrow> bytes" where
  "planned_bytes codec plan =
    (case plan of
       No_stdin \<Rightarrow> []
     | Stream_stdin pd \<Rightarrow> intended codec None (pd_chunks pd)
     | Pipe_stdin \<Rightarrow> []
     | Payload_stdin payload \<Rightarrow> payload)"

fun cut_short :: "stdin_op \<Rightarrow> bool" where
  "cut_short (Report_stdin_error operation e) = (operation \<noteq> Closing)"
| "cut_short _ = False"

lemma quiet_bytes:
  "list_all report_op ops \<Longrightarrow> list_all (\<lambda>op. op_bytes op = []) ops"
  "list_all release_op ops \<Longrightarrow> list_all (\<lambda>op. op_bytes op = []) ops"
  by (induction ops) (auto dest: report_op_quiet release_op_quiet)

text \<open>What a writer leaves undelivered: at most what the transport may hold, nothing without an abort or a failed close.\<close>

definition released_account :: "stdin_env \<Rightarrow> stdin_op list \<Rightarrow> bool" where
  "released_account env trace \<longleftrightarrow>
    length (undelivered env trace) \<le> HIGH_WATER \<and>
    ((\<forall>op \<in> set trace. \<not> close_failed op) \<longrightarrow> undelivered env trace = [])"

lemma released_accountI:
  assumes "length (undelivered env before) \<le> HIGH_WATER" "list_all release_op ops" "closed_or_failed env before ops"
  shows "released_account env (before @ Close_pipe # ops)"
proof -
  let ?trace = "before @ Close_pipe # ops"
  have "length (undelivered env ?trace) \<le> HIGH_WATER"
    using undelivered_quiet [of "Close_pipe # ops" env before] assms(1) quiet_bytes(2) [OF assms(2)] by simp
  moreover have "undelivered env ?trace = []" if ok: "\<forall>op \<in> set ?trace. \<not> close_failed op"
  proof -
    have no_abort: "Abort_transport \<notin> set ?trace" using ok close_failed.simps(1) by blast
    obtain later where later: "ops = Wait_closed # later" "sn_answer env (before @ [Close_pipe]) Wait_closed = None"
      using assms(3) ok by (auto simp: closed_or_failed_def)
    then have "undelivered env ((before @ [Close_pipe]) @ [Wait_closed]) = []"
      using undelivered_flushed [of env "before @ [Close_pipe]"] no_abort by auto
    then show ?thesis
      using undelivered_quiet [of later env "(before @ [Close_pipe]) @ [Wait_closed]"] later(1) quiet_bytes(2) assms(2)
      by simp
  qed
  ultimately show ?thesis by (simp add: released_account_def)
qed

text \<open>A payload that is sent, and a producer that is pumped to its end, leave at most the transport's bound behind.\<close>

lemma send_payload_bounded:
  assumes "send_payload env b s = (None, s')" "Abort_transport \<notin> set (sk_trace s)"
  shows "length (undelivered env (sk_trace s')) \<le> HIGH_WATER \<and> Abort_transport \<notin> set (sk_trace s')"
proof -
  from assms(1) have s': "sk_trace s' = (sk_trace s @ [Write_pipe b]) @ [Drain_pipe] @ [Report_written (length b)]"
      "sn_answer env (sk_trace s @ [Write_pipe b]) Drain_pipe = None"
    by (auto simp: send_payload_def and_then_def split: option.splits)
  have "length (undelivered env ((sk_trace s @ [Write_pipe b]) @ [Drain_pipe])) \<le> HIGH_WATER"
    using undelivered_drained [OF s'(2)] assms(2) by simp
  then have "length (undelivered env (((sk_trace s @ [Write_pipe b]) @ [Drain_pipe]) @ [Report_written (length b)])) \<le> HIGH_WATER"
    using undelivered_quiet_op [of "Report_written (length b)" env "(sk_trace s @ [Write_pipe b]) @ [Drain_pipe]"] by simp
  then show ?thesis using s'(1) assms(2) by simp
qed

definition bounded :: "stdin_env \<Rightarrow> 'q stream_sink \<Rightarrow> bool" where
  "bounded env s \<longleftrightarrow> length (undelivered env (sk_trace s)) \<le> HIGH_WATER \<and> Abort_transport \<notin> set (sk_trace s)"

lemma bounded_note: "bounded env s \<Longrightarrow> op_bytes op = [] \<Longrightarrow> op \<noteq> Abort_transport \<Longrightarrow> bounded env (note_op op s)"
  using undelivered_quiet_op [of op env "sk_trace s"] by (simp add: bounded_def)

lemma bounded_new: "bounded env new_sink"
  by (simp add: bounded_def undelivered_def new_transport_def)

lemma encode_trace: "sink_encode codec str final s = (r, s') \<Longrightarrow> sk_trace s' = sk_trace s"
  by (erule sink_encode_cases) auto

lemma write_chunk_bounded:
  assumes "write_chunk env codec c s = (None, s')" "bounded env s"
  shows "bounded env s'"
  using assms send_payload_bounded [of env _ _ s'] encode_trace [of codec _ False s]
  by (auto simp: write_chunk_def bounded_def split: chunk.splits prod.splits sum.splits if_splits)

lemma flush_encoder_bounded:
  assumes "flush_encoder env codec s = (None, s')" "bounded env s"
  shows "bounded env s'"
  using assms send_payload_bounded [of env _ _ s'] encode_trace [of codec _ True s]
  by (auto simp: flush_encoder_def bounded_def split: prod.splits sum.splits if_splits)

lemma pump_and_flush_bounded:
  "pump_and_flush env codec ending cs s = (None, s') \<Longrightarrow> bounded env s \<Longrightarrow> bounded env s'"
proof (induction cs arbitrary: s)
  case Nil
  then show ?case
    using flush_encoder_bounded [of env codec "note_op Pull_chunk s" s'] bounded_note [of env s Pull_chunk]
    by (auto simp: pump_and_flush_Nil split: option.splits prod.splits)
next
  case (Cons c cs)
  then show ?case
    using write_chunk_bounded [of env codec c "note_op Pull_chunk s"] bounded_note [of env s Pull_chunk]
    by (auto simp: pump_and_flush_Cons split: prod.splits option.splits)
qed

lemma source_body_bounded:
  fixes codec :: "'q encoder_codec"
  assumes "source_body env codec pd new_sink = (None, s')"
  shows "bounded env s'"
proof (cases rule: source_body_cases [of env codec pd])
  case built
  then show ?thesis
    using assms bounded_note [OF bounded_new, of Start_producer env]
    by (auto intro: pump_and_flush_bounded [of env codec "pd_ending pd" "pd_chunks pd"])
qed (use assms in simp)

lemma write_stdin_account:
  assumes "write_stdin env True payload = (r, s')"
  shows "prefix (written (sk_trace s')) payload \<and>
    (r = Writer_returned \<and> (\<forall>op \<in> set (sk_trace s'). \<not> cut_short op) \<longrightarrow>
      written (sk_trace s') = payload \<and> released_account env (sk_trace s'))"
proof -
  obtain p s1 where p: "send_payload env payload (new_sink :: 'a stream_sink) = (p, s1)" by force
  define handled where "handled = (case p of
        None \<Rightarrow> (Writer_returned, s1)
      | Some exc \<Rightarrow>
          if os_or_runtime exc then
            (case emit_stdin_error env Writing exc s1 of
               (Some later, s) \<Rightarrow> (Writer_raised later, s)
             | (None, s) \<Rightarrow> (Writer_returned, s))
          else (Writer_raised exc, s1))"
  obtain h s2 where h: "handled = (h, s2)" by force
  obtain c s3 where c: "close_stdin env s2 = (c, s3)" by force
  have out: "s' = s3" "r = (case c of Some e \<Rightarrow> Writer_raised e | None \<Rightarrow> h)"
    using assms p h c by (auto simp: write_stdin_def finally_do_def handled_def split: option.splits)
  obtain ops where ops: "sk_trace s3 = sk_trace s2 @ Close_pipe # ops" "list_all release_op ops"
    using close_stdin_trace [OF c] by blast
  from p show ?thesis
  proof (cases rule: send_payload_cases)
    case sent
    then have same: "h = Writer_returned" "s2 = s1" using h by (simp_all add: handled_def)
    have "released_account env (sk_trace s3)" if "r = Writer_returned"
    proof -
      have "closed_or_failed env (sk_trace s2) ops"
        using that out c close_stdin_returns [of env s2 s3 ops "[]"] ops(1) by (auto split: option.splits)
      moreover have "length (undelivered env (sk_trace s2)) \<le> HIGH_WATER"
        using send_payload_bounded [of env payload new_sink s1] p sent(1) same by simp
      ultimately show ?thesis
        using released_accountI [of env "sk_trace s2" ops] ops by simp
    qed
    then show ?thesis using same sent ops out quiet_ops(2) by simp
  next
    case (raised e ops' op)
    then have w: "written (sk_trace s1) = payload" "sk_trace s2 = sk_trace s1 \<and> (\<exists>e. h = Writer_raised e) \<or>
        sk_trace s2 = sk_trace s1 @ [Report_stdin_error Writing e]"
      using h by (auto simp: handled_def emit_stdin_error_def split: if_splits option.splits)
    then show ?thesis using ops out quiet_ops(2) by (auto split: option.splits)
  qed
qed

lemma stream_account:
  assumes "drain_source_into_pipe env codec pd new_sink = (r, s')"
  shows "prefix (written (sk_trace s')) (intended codec None (pd_chunks pd)) \<and>
    (r = Writer_returned \<and> (\<forall>op \<in> set (sk_trace s'). \<not> cut_short op) \<longrightarrow>
      pd_ending pd = None \<and> encodable codec None (pd_chunks pd) \<and>
      written (sk_trace s') = intended codec None (pd_chunks pd) \<and> released_account env (sk_trace s'))"
  using assms
proof (rule drain_source_trace)
  fix reports rest h
  assume t: "sk_trace s' = body_trace env codec pd @ reports @ Close_pipe # rest"
    and h: "source_handlers env (source_body env codec pd new_sink) =
      (h, snd (source_handlers env (source_body env codec pd new_sink)))"
    and q: "list_all report_op reports" "list_all release_op rest"
    and hr: "sk_trace (snd (source_handlers env (source_body env codec pd new_sink))) = body_trace env codec pd @ reports"
    and r: "r = h \<or> (\<exists>e. r = Writer_raised e)"
    and closing: "r = Writer_returned \<longrightarrow> closed_or_failed env (body_trace env codec pd @ reports) rest"
  note account = source_body_account [of env codec pd]
  have w: "written (sk_trace s') = written (body_trace env codec pd)"
    using t q quiet_ops by simp
  from h show ?thesis
  proof (cases rule: source_handlers_cases)
    case ended
    have "released_account env (sk_trace s')" if returned: "r = Writer_returned"
    proof -
      have no_reports: "reports = []" using ended(2) hr by simp
      have "bounded env (snd (source_body env codec pd new_sink))"
        using source_body_bounded [of env codec pd "snd (source_body env codec pd new_sink)"] ended(3)
        by (metis prod.collapse)
      then have "length (undelivered env (body_trace env codec pd)) \<le> HIGH_WATER"
        by (simp add: bounded_def body_trace_def)
      then show ?thesis
        using released_accountI [of env "body_trace env codec pd" rest] q(2) closing returned t no_reports by simp
    qed
    then show ?thesis using account w ended(3) by (simp add: body_verdict_def)
  next
    case (closed_early e)
    then have "Report_stdin_error Early_closing e \<in> set (sk_trace s')" using t hr by auto
    then show ?thesis using account w by force
  qed (use account w r in auto)
qed


text \<open>
  (C15) On every path of a streaming writer, cancellation included, the pipe is closed once, after the last chunk and
  before the producer's finalizer, which is called exactly when the producer was started and has one; when the wait
  for the close expires or is cancelled, the transport is aborted, so the descriptor is released anyway.
\<close>

theorem stdin_pipe_released_first:
  assumes "drain_source_into_pipe env codec pd new_sink = (r, s')"
  shows "\<exists>before rest. sk_trace s' = before @ Close_pipe # rest \<and>
    Close_pipe \<notin> set before \<and> Close_pipe \<notin> set rest \<and> Call_finalizer \<notin> set before \<and>
    list_all (\<lambda>op. \<not> body_op op) rest \<and>
    count_list rest Call_finalizer = of_bool (sn_answer env [] Start_producer = None \<and> pd_has_aclose pd) \<and>
    (close_abandoned env before \<longrightarrow> Abort_transport \<in> set rest)"
  using assms
proof (rule drain_source_trace)
  fix reports rest h
  assume t: "sk_trace s' = body_trace env codec pd @ reports @ Close_pipe # rest"
    and q: "list_all report_op reports" "list_all release_op rest"
    and f: "count_list rest Call_finalizer = of_bool (source_built env (new_sink :: 'a stream_sink) \<and> pd_has_aclose pd)"
    and a: "close_abandoned env (body_trace env codec pd @ reports) \<longrightarrow> Abort_transport \<in> set rest"
  have b: "list_all body_op (body_trace env codec pd)" using source_body_account by blast
  have built: "source_built env (new_sink :: 'a stream_sink) \<longleftrightarrow> sn_answer env [] Start_producer = None"
    by (auto simp: source_built_def start_producer_def split: option.split)
  have "list_all (\<lambda>op. \<not> body_op op) rest" "Close_pipe \<notin> set rest"
    using q(2) release_op_quiet by (auto simp: list_all_iff)
  moreover have "Close_pipe \<notin> set (body_trace env codec pd @ reports)"
      "Call_finalizer \<notin> set (body_trace env codec pd @ reports)"
    using b q(1) body_op_quiet report_op_quiet by (auto simp: list_all_iff)
  ultimately show ?thesis
    using t f a built by (intro exI [of _ "body_trace env codec pd @ reports"] exI [of _ rest]) auto
qed

text \<open>
  Backpressure: the producer is never pulled, and nothing more is written, before the last write has been
  drained; at most one chunk is under way at any moment.
\<close>

theorem stdin_backpressure:
  "paced False (sk_trace (snd (drain_source_into_pipe env codec pd new_sink)))"
proof -
  obtain r s' where run: "drain_source_into_pipe env codec pd new_sink = (r, s')" by force
  then show ?thesis
  proof (rule drain_source_trace)
    fix reports rest h
    assume t: "sk_trace s' = body_trace env codec pd @ reports @ Close_pipe # rest"
      and q: "list_all report_op reports" "list_all release_op rest"
    have "list_all (\<lambda>op. \<not> body_op op) (reports @ Close_pipe # rest)"
      using q report_op_quiet release_op_quiet by (auto simp: list_all_iff)
    then show ?thesis
      using run t source_body_account [of env codec pd] paced_append_outside by simp
  qed
qed

text \<open>
  (C16) Every failure the writer raises to the caller is reported once, under the boundary it came from: the producer
  for an exception of its own code, whatever its class; an invalid chunk; the codec; and the pipe for an exception of
  a write, a drain or the report of written bytes, which is then not the child closing its end.
\<close>

theorem source_error_attributed:
  assumes "drain_source_into_pipe env codec pd new_sink = (Writer_source_error e, s')"
  shows "\<exists>c. filter (\<lambda>op. \<not> body_op op \<and> \<not> release_op op) (sk_trace s') = [Report_stdio_error c e, Close_pipe] \<and>
    (case c of
       Producer_boundary \<Rightarrow> sn_answer env [] Start_producer = Some e \<or> pd_ending pd = Some e
     | Invalid_chunk \<Rightarrow> Foreign_chunk \<in> set (pd_chunks pd) \<and> e = chunk_type_error
     | Encoder_boundary \<Rightarrow> \<not> is_early_close e \<and>
         (ec_make codec = Inl e \<or> (\<exists>q str final. ec_encode codec q str final = Inl e))
     | Pipe_boundary \<Rightarrow> \<not> is_early_close e \<and> raised_by_write env e (sk_trace s')
     | _ \<Rightarrow> False)"
  using assms
proof (rule drain_source_trace)
  fix reports rest h
  assume t: "sk_trace s' = body_trace env codec pd @ reports @ Close_pipe # rest"
    and h: "source_handlers env (source_body env codec pd new_sink) =
      (h, snd (source_handlers env (source_body env codec pd new_sink)))"
    and q: "list_all release_op rest"
    and hr: "sk_trace (snd (source_handlers env (source_body env codec pd new_sink))) = body_trace env codec pd @ reports"
    and r: "Writer_source_error e = h \<or> (\<exists>x. Writer_source_error e = Writer_raised x)"
  have account: "list_all body_op (body_trace env codec pd)"
    and verdict: "body_verdict env codec None (pd_chunks pd) (pd_ending pd)
      (set_option (pd_ending pd) \<union> set_option (sn_answer env [] Start_producer))
      (written (body_trace env codec pd)) (source_body env codec pd new_sink)"
    using source_body_account by blast+
  have quiet: "filter (\<lambda>op. \<not> body_op op \<and> \<not> release_op op) (sk_trace s') =
      filter (\<lambda>op. \<not> body_op op \<and> \<not> release_op op) reports @ [Close_pipe]"
    using account q by (simp add: t list_all_iff)
  from h show ?thesis
  proof (cases rule: source_handlers_cases)
    case (producer x)
    then have "x = e" "reports = [Report_stdio_error Producer_boundary e]" using r hr by auto
    then show ?thesis using quiet producer(1) verdict
      by (intro exI [of _ Producer_boundary]) (auto simp: body_verdict_def)
  next
    case (boundary x c)
    then have x: "x = e" "reports = [Report_stdio_error c e]" using r hr by auto
    let ?mark = "sk_chunk_error (snd (source_body env codec pd new_sink))"
    have "write_origin env codec (set (pd_chunks pd)) ?mark e (body_trace env codec pd)"
      using verdict boundary x by (simp add: body_verdict_def body_trace_def)
    then have origin: "case c of
         Producer_boundary \<Rightarrow> False
       | Invalid_chunk \<Rightarrow> Foreign_chunk \<in> set (pd_chunks pd) \<and> e = chunk_type_error
       | Encoder_boundary \<Rightarrow> ec_make codec = Inl e \<or> (\<exists>q str final. ec_encode codec q str final = Inl e)
       | Pipe_boundary \<Rightarrow> raised_by_write env e (sk_trace s')
       | _ \<Rightarrow> False"
      using boundary(4) write_origin_raised [of env codec "set (pd_chunks pd)" e "body_trace env codec pd"] t
      by (auto simp: write_origin_def write_boundary_category_def)
    have "filter (\<lambda>op. \<not> body_op op \<and> \<not> release_op op) (sk_trace s') = [Report_stdio_error c e, Close_pipe]"
      using quiet x by simp
    then show ?thesis using origin boundary(3) x(1)
      by (intro exI [of _ c]) (cases c; simp)
  qed (use r hr in auto)
qed


text \<open>A producer of bytes never touches the codec.\<close>

lemma pump_bytes_codec:
  assumes "sk_encoder s = None"
  shows "pump_and_flush env codec ending (map Bytes_chunk bs) s = pump_and_flush env codec' ending (map Bytes_chunk bs) s"
  using assms
proof (induction bs arbitrary: s)
  case Nil
  then show ?case by (simp add: pump_and_flush_Nil flush_encoder_def split: option.split)
next
  case (Cons b bs)
  obtain r s1 where run: "write_chunk env codec (Bytes_chunk b) (note_op Pull_chunk s) = (r, s1)" by force
  have same: "write_chunk env codec' (Bytes_chunk b) (note_op Pull_chunk s) = (r, s1)"
    using run by (simp add: write_chunk_def)
  have "sk_encoder s1 = None"
    using run Cons.prems
    by (auto simp: write_chunk_def split: if_splits elim!: send_payload_cases)
  then show ?case using run same Cons.IH [of s1] by (simp add: pump_and_flush_Cons split: option.split)
qed

lemma intended_bytes: "intended codec None (map Bytes_chunk bs) = concat bs"
  by (induction bs) (simp_all add: chunk_bytes_def tail_bytes_def)

text \<open>
  Bytes are sent verbatim: a producer that yields bytes has the same run whatever codec is configured, even one
  that does not exist or that begins with a byte-order mark, and what it means to send is its chunks joined.
\<close>

theorem bytes_need_no_codec:
  "drain_source_into_pipe env codec \<lparr>pd_chunks = map Bytes_chunk bs, pd_ending = ending, pd_has_aclose = a\<rparr> new_sink =
     drain_source_into_pipe env codec' \<lparr>pd_chunks = map Bytes_chunk bs, pd_ending = ending, pd_has_aclose = a\<rparr> new_sink \<and>
   intended codec None (map Bytes_chunk bs) = concat bs"
proof -
  let ?pd = "\<lparr>pd_chunks = map Bytes_chunk bs, pd_ending = ending, pd_has_aclose = a\<rparr>"
  have "source_body env codec ?pd new_sink = source_body env codec' ?pd new_sink"
  proof (cases rule: source_body_cases [of env codec ?pd])
    case (unbuilt e)
    then show ?thesis by (simp add: source_body_def and_then_def start_producer_def)
  next
    case built
    then show ?thesis
      by (cases rule: source_body_cases [of env codec' ?pd])
        (simp_all add: pump_bytes_codec [of "note_op Start_producer new_sink" env codec _ _ codec'])
  qed
  then show ?thesis by (simp add: drain_source_into_pipe_def intended_bytes)
qed

text \<open>
  (C38) An observe hook can cut the input off: when the hook that is told of written bytes raises an exception of the
  pipe family, the writer takes it for the child closing its end.  Every operation on the pipe succeeded and the
  producer had more to give, yet nothing after the first chunk is written and the writer returns as after a success.
\<close>

theorem hook_pipe_error_truncates_input:
  assumes "b \<noteq> []"
    and "\<And>ops op. sn_answer env ops op =
      (case op of Report_written n \<Rightarrow> Some (Fault Broken_pipe i) | _ \<Rightarrow> None)"
    and "sn_finishes env = (\<lambda>_. True)"
  shows "drain_source_into_pipe env codec
      \<lparr>pd_chunks = Bytes_chunk b # others, pd_ending = ending, pd_has_aclose = a\<rparr> new_sink =
    (Writer_returned, \<lparr>sk_encoder = None, sk_chunk_error = None, sk_trace =
      [Start_producer, Pull_chunk, Write_pipe b, Drain_pipe, Report_written (length b),
       Report_stdin_error Early_closing (Fault Broken_pipe i), Close_pipe, Wait_closed] @
      (if a then [Call_finalizer, Wait_finalizer] else [])\<rparr>)"
  using assms
  by (simp add: drain_source_into_pipe_def source_body_def and_then_def start_producer_def write_chunk_def
      send_payload_def source_handlers_def emit_stdin_error_def finally_do_def close_stdin_def
      finalize_stdin_source_def source_built_def note_op_def new_sink_def)

section \<open>Witnesses\<close>

text \<open>A UTF-8 encoder, a pipe on which everything succeeds, and one that the child never drains after exit.\<close>

definition utf8_encoder :: "unit encoder_codec" where
  "utf8_encoder = \<lparr>ec_make = Inr (), ec_encode = (\<lambda>_ str _. Inr (concat (map utf8 str), ()))\<rparr>"

definition quiet_env :: stdin_env where
  "quiet_env = \<lparr>sn_answer = (\<lambda>_ _. None), sn_takes = (\<lambda>_ _. 0), sn_finishes = (\<lambda>_. True)\<rparr>"

definition stalled_env :: stdin_env where
  "stalled_env = \<lparr>sn_answer = (\<lambda>_ op. if op = Wait_closed then Some Cancel_error else None),
    sn_takes = (\<lambda>_ _. 0), sn_finishes = (\<lambda>_. True)\<rparr>"

definition hook_env :: stdin_env where
  "hook_env = \<lparr>sn_answer = (\<lambda>_ op. case op of Report_written n \<Rightarrow> Some (Fault Broken_pipe 4) | _ \<Rightarrow> None),
    sn_takes = (\<lambda>_ _. 0), sn_finishes = (\<lambda>_. True)\<rparr>"

definition two_chunks :: "raised option \<Rightarrow> producer" where
  "two_chunks ending = \<lparr>pd_chunks = [Text_chunk [97, 233], Bytes_chunk [0, 255]], pd_ending = ending, pd_has_aclose = True\<rparr>"

lemmas stdin_evaluation =
  drain_source_into_pipe_def source_body_def and_then_def start_producer_def write_chunk_def
  send_payload_def source_handlers_def emit_stdin_error_def finally_do_def close_stdin_def abort_stdin_transport_def
  finalize_stdin_source_def source_built_def note_op_def new_sink_def sink_encode_def sink_encoder_def flush_encoder_def
  raise_source_error_def report_boundary_def mark_producer_def write_stdin_stream_def
  utf8_encoder_def quiet_env_def stalled_env_def two_chunks_def utf8_def Let_def

lemma quiet_run:
  "spawn_stdin_writer quiet_env utf8_encoder True (Stream_stdin (two_chunks None)) =
    Some (Writer_returned, \<lparr>sk_encoder = Some (), sk_chunk_error = None, sk_trace =
      [Start_producer, Pull_chunk, Write_pipe [97, 195, 169], Drain_pipe, Report_written 3,
       Pull_chunk, Write_pipe [0, 255], Drain_pipe, Report_written 2, Pull_chunk, Close_pipe, Wait_closed,
       Call_finalizer, Wait_finalizer]\<rparr>)"
  by (simp add: spawn_stdin_writer_def stdin_evaluation)

text \<open>The child is slow: it takes nothing before the close's grace is over.\<close>

definition slow_env :: stdin_env where
  "slow_env = \<lparr>sn_answer = (\<lambda>_ op. if op = Wait_closed then Some (Fault (Timeout_fault None) 5) else None),
    sn_takes = (\<lambda>_ _. 0), sn_finishes = (\<lambda>_. True)\<rparr>"

lemma slow_run:
  "spawn_stdin_writer slow_env utf8_encoder True (Payload_stdin [1, 2, 3]) =
    Some (Writer_returned, \<lparr>sk_encoder = None, sk_chunk_error = None, sk_trace =
      [Write_pipe [1, 2, 3], Drain_pipe, Report_written 3, Close_pipe, Wait_closed, Abort_transport]\<rparr>)"
  by (simp add: spawn_stdin_writer_def write_stdin_def slow_env_def stdin_evaluation)

fun failure_report :: "stdin_op \<Rightarrow> bool" where
  "failure_report (Report_stdin_error operation e) = True"
| "failure_report (Report_stdio_error c e) = True"
| "failure_report _ = False"


lemma stalled_run:
  "fst (drain_source_into_pipe stalled_env utf8_encoder (two_chunks (Some (Fault Broken_pipe 9))) new_sink) =
      Writer_raised Cancel_error \<and>
    close_abandoned stalled_env ops"
  by (simp add: stdin_evaluation close_abandoned_def)

theorem stdin_pipe_released_first_witness:
  "\<exists>before rest.
    sk_trace (snd (drain_source_into_pipe stalled_env utf8_encoder (two_chunks (Some (Fault Broken_pipe 9))) new_sink)) =
      before @ Close_pipe # rest \<and>
    Abort_transport \<in> set rest \<and> count_list rest Call_finalizer = 1"
  using stdin_pipe_released_first [of stalled_env utf8_encoder "two_chunks (Some (Fault Broken_pipe 9))"
      "fst (drain_source_into_pipe stalled_env utf8_encoder (two_chunks (Some (Fault Broken_pipe 9))) new_sink)"
      "snd (drain_source_into_pipe stalled_env utf8_encoder (two_chunks (Some (Fault Broken_pipe 9))) new_sink)"]
    stalled_run
  by (fastforce simp: stalled_env_def two_chunks_def)

lemma producer_error_run:
  "drain_source_into_pipe quiet_env utf8_encoder (two_chunks (Some (Fault Broken_pipe 9))) new_sink =
    (Writer_source_error (Fault Broken_pipe 9), \<lparr>sk_encoder = Some (), sk_chunk_error = None, sk_trace =
      [Start_producer, Pull_chunk, Write_pipe [97, 195, 169], Drain_pipe, Report_written 3,
       Pull_chunk, Write_pipe [0, 255], Drain_pipe, Report_written 2, Pull_chunk,
       Report_stdio_error Producer_boundary (Fault Broken_pipe 9), Close_pipe, Wait_closed,
       Call_finalizer, Wait_finalizer]\<rparr>)"
  by (simp add: stdin_evaluation)

theorem source_error_attributed_witness:
  "\<exists>c. filter (\<lambda>op. \<not> body_op op \<and> \<not> release_op op)
      [Pull_chunk, Report_stdio_error Producer_boundary (Fault Broken_pipe 9), Close_pipe, Wait_closed] =
    [Report_stdio_error c (Fault Broken_pipe 9), Close_pipe]"
  using source_error_attributed [OF producer_error_run] by (elim exE conjE) simp

theorem hook_pipe_error_truncates_input_witness:
  "fst (drain_source_into_pipe hook_env utf8_encoder
      \<lparr>pd_chunks = [Bytes_chunk [1, 2], Bytes_chunk [3]], pd_ending = None, pd_has_aclose = False\<rparr> new_sink) =
    Writer_returned"
  using hook_pipe_error_truncates_input [of "[1, 2]" hook_env 4 utf8_encoder "[Bytes_chunk [3]]" None False]
  by (simp add: hook_env_def)

end
