(* ===== verification/Run_Ending.thy ===== *)
theory Run_Ending
  imports Stdin_Writer Capture_File
begin

text \<open>
  How a single command ends once its child runs: the wait for the exit and its deadline
  (\<open>_subprocess_deadline.py\<close>), the race of that wait with the stdin writer (\<open>_subprocess_rendezvous.py\<close>), the drain of
  the stream readers (\<open>_stream_drain.py\<close>), the reconciliation of everything the run owns (\<open>_subprocess_wait.py\<close>), the
  streamed run (\<open>_subprocess_stream_exit.py\<close>, \<open>_subprocess_stream_run.py\<close>, \<open>_subprocess_stream_post_exit.py\<close>), the direct
  run (\<open>_subprocess_direct_run.py\<close>), and the translation of an expiry (\<open>_subprocess_timeout.py\<close>,
  \<open>_subprocess_execution.py\<close>).  A run is a function of the log of what it has done; the child, the writer, the readers,
  the timers and the caller's cancellation are answered by an environment that reads the log, so anything can happen
  between two awaits.  Log records are left out.
\<close>

section \<open>The environment\<close>

datatype timeout_mode = Non_positive_immediate | Elapsed_deadline

datatype run_op =
    Launch_heartbeat
  | Spawn_tasks
  | Race_exit_and_writer
  | Watch_exit
  | Stop_exit_wait
  | Terminate_child
  | Report_expiry timeout_mode
  | Stop_heartbeat
  | Await_writer
  | Settle_window
  | Cancel_writer
  | Settle_group
  | Await_readers
  | Grace_for_eof
  | Report_grace nat
  | Discard_readers
  | Cancel_reader stream_name
  | Drain_readers
  | Report_drain "raised list"
  | Close_capture nat
  | Clean_sink stream_name
  | Settle_relays
  | Emit_exit int rat

text \<open>
  A writer task that ended by a cancellation is \<open>Writer_done (Writer_raised Cancel_error)\<close>.  A reader has drained its
  stream, or raised.
\<close>

datatype writer_task = Writer_pending | Writer_done writer_end

record captured_drain =
  cd_payload :: "payload option"
  cd_capture :: "file_captured_stream option"
  cd_handle :: "nat option"

datatype race_answer = Exit_ended | Writer_ended | Race_broken bool

datatype timer = Timer_open | Timer_expired | Timer_expired_and_cancelled

text \<open>
  \<open>rn_raises\<close>: what an await or a hook raises.  \<open>rn_exit\<close>: how the wait for the child ends.  \<open>rn_race\<close>: who ended first;
  a broken race also says whether the exit wait had ended.  \<open>rn_timer\<close>: the deadline of the enclosing
  \<open>asyncio.timeout\<close> when its body ends.  \<open>rn_interrupted\<close>: the caller cancelled while a shield waited;
  \<open>rn_ended_first\<close>: what the shield waited for had ended when that cancellation was delivered.
\<close>

record run_env =
  rn_raises :: "run_op list \<Rightarrow> run_op \<Rightarrow> raised option"
  rn_exit :: "run_op list \<Rightarrow> raised + int"
  rn_returncode :: "run_op list \<Rightarrow> int option"
  rn_race :: "run_op list \<Rightarrow> race_answer"
  rn_writer :: "run_op list \<Rightarrow> writer_task"
  rn_reader_done :: "run_op list \<Rightarrow> stream_name \<Rightarrow> bool"
  rn_reader :: "run_op list \<Rightarrow> stream_name \<Rightarrow> raised + captured_drain"
  rn_timer :: "run_op list \<Rightarrow> timer"
  rn_interrupted :: "run_op list \<Rightarrow> bool"
  rn_ended_first :: "run_op list \<Rightarrow> bool"
  rn_clock :: "run_op list \<Rightarrow> rat"

record ('f, 'p, 'l) run_execution =
  rx_spawned :: "('f, 'p, 'l) subprocess_execution"
  rx_command :: "ustr list"
  rx_timeout :: "rat option"
  rx_capture_bytes :: bool
  rx_started_at :: rat

section \<open>Exceptions of a run\<close>

record timeout_details =
  td_timeout :: rat
  td_stdout :: "payload option"
  td_stderr :: "payload option"
  td_exited_at :: rat

record timeout_report =
  tp_command :: "ustr list"
  tp_timeout :: rat
  tp_stdout :: "payload option"
  tp_stderr :: "payload option"

text \<open>
  \<open>Escaped\<close> is an exception of code the run calls, \<open>Deadline_elapsed\<close> the \<open>TimeoutError\<close> of one of its own deadlines,
  \<open>Source_failed\<close> \<open>StdinSourceError\<close>, \<open>Stream_timed_out\<close> the internal \<open>_SubprocessTimeoutError\<close>, \<open>Run_timed_out\<close> the
  public \<open>TimeoutExpired\<close> and \<open>Invariant_broken\<close> \<open>_SubprocessInvariantError\<close>.
\<close>

datatype ending_error =
    Escaped raised
  | Deadline_elapsed
  | Source_failed raised
  | Stream_timed_out timeout_details
  | Run_timed_out timeout_report
  | Invariant_broken

fun is_timeout_error :: "ending_error \<Rightarrow> bool" where
  "is_timeout_error (Escaped e) = is_timeout e"
| "is_timeout_error Deadline_elapsed = True"
| "is_timeout_error (Run_timed_out r) = True"
| "is_timeout_error _ = False"

type_synonym 'a run_action = "run_op list \<Rightarrow> (ending_error + 'a) \<times> run_op list"

definition return_ok :: "'a \<Rightarrow> 'a run_action" where
  "return_ok x tr = (Inr x, tr)"

definition fail_with :: "ending_error \<Rightarrow> 'a run_action" where
  "fail_with e tr = (Inl e, tr)"

definition run_bind :: "'a run_action \<Rightarrow> ('a \<Rightarrow> 'b run_action) \<Rightarrow> 'b run_action" where
  "run_bind f g tr = (case f tr of (Inl e, tr) \<Rightarrow> (Inl e, tr) | (Inr x, tr) \<Rightarrow> g x tr)"

text \<open>\<open>except BaseException: cleanup; raise\<close>, with the handler's choice of what it does and raises.\<close>

definition run_catch :: "'a run_action \<Rightarrow> (ending_error \<Rightarrow> 'a run_action) \<Rightarrow> 'a run_action" where
  "run_catch f handler tr = (case f tr of (Inl e, tr) \<Rightarrow> handler e tr | (Inr x, tr) \<Rightarrow> (Inr x, tr))"

definition mark_ops :: "run_op list \<Rightarrow> unit run_action" where
  "mark_ops ops tr = (Inr (), tr @ ops)"

definition attempt_op :: "run_env \<Rightarrow> run_op \<Rightarrow> unit run_action" where
  "attempt_op env op tr =
    (case rn_raises env tr op of None \<Rightarrow> Inr () | Some e \<Rightarrow> Inl (Escaped e), tr @ [op])"

text \<open>\<open>_safe_emit\<close>: only a base exception escapes.\<close>

definition report_safely :: "run_env \<Rightarrow> run_op \<Rightarrow> unit run_action" where
  "report_safely env op tr =
    (case rn_raises env tr op of Some (Interrupt i) \<Rightarrow> Inl (Escaped (Interrupt i)) | _ \<Rightarrow> Inr (), tr @ [op])"

text \<open>
  \<open>_shielded_cleanup\<close>: the body always completes, and then a cancellation that arrived meanwhile is raised.  A body that
  fails after the cancellation was delivered takes its place, as \<open>_settle_shielded\<close> lets the failure out.
\<close>

definition shield_step :: "run_env \<Rightarrow> 'a run_action \<Rightarrow> 'a run_action" where
  "shield_step env body tr =
    (case body tr of
       (Inr x, tr) \<Rightarrow> (if rn_interrupted env tr then Inl (Escaped Cancel_error) else Inr x, tr)
     | (Inl e, tr) \<Rightarrow> (Inl (if rn_interrupted env tr \<and> rn_ended_first env tr then Escaped Cancel_error else e), tr))"

text \<open>\<open>async with asyncio.timeout(limit)\<close>: its own cancellation comes out as \<open>TimeoutError\<close>, a caller's unchanged.\<close>

definition timeout_scope :: "run_env \<Rightarrow> rat option \<Rightarrow> 'a run_action \<Rightarrow> 'a run_action" where
  "timeout_scope env limit body tr =
    (case body tr of
       (Inl (Escaped Cancel_error), tr) \<Rightarrow>
         (Inl (if limit \<noteq> None \<and> rn_timer env tr = Timer_expired then Deadline_elapsed else Escaped Cancel_error), tr)
     | other \<Rightarrow> other)"

definition scope_expired :: "run_env \<Rightarrow> rat option \<Rightarrow> run_op list \<Rightarrow> bool" where
  "scope_expired env limit tr \<longleftrightarrow> limit \<noteq> None \<and> rn_timer env tr \<noteq> Timer_open"

section \<open>The exit wait\<close>

definition terminate_shielded :: "run_env \<Rightarrow> unit run_action" where
  "terminate_shielded env = shield_step env (mark_ops [Terminate_child])"

definition wait_for_exit_code :: "run_env \<Rightarrow> (int \<times> rat) run_action" where
  "wait_for_exit_code env tr =
    (let tr' = tr @ [Watch_exit] in
     case rn_exit env tr' of
       Inr code \<Rightarrow> (Inr (code, rn_clock env tr'), tr')
     | Inl e \<Rightarrow>
         if e = Cancel_error then run_bind (terminate_shielded env) (\<lambda>_. fail_with (Escaped Cancel_error)) tr'
         else (Inl (Escaped e), tr'))"

definition require_timeout :: "rat option \<Rightarrow> ending_error + rat" where
  "require_timeout timeout = (case timeout of None \<Rightarrow> Inl Invariant_broken | Some t \<Rightarrow> Inr t)"

definition wait_within_timeout :: "run_env \<Rightarrow> rat option \<Rightarrow> (int \<times> rat) run_action" where
  "wait_within_timeout env timeout =
    (if timeout \<noteq> None \<and> the timeout \<le> 0 then
       run_bind (terminate_shielded env) (\<lambda>_.
       run_bind (report_safely env (Report_expiry Non_positive_immediate)) (\<lambda>_.
       fail_with Deadline_elapsed))
     else
       run_catch (timeout_scope env timeout (wait_for_exit_code env)) (\<lambda>e.
         if is_timeout_error e then
           (case require_timeout timeout of
              Inl broken \<Rightarrow> fail_with broken
            | Inr t \<Rightarrow> run_bind (report_safely env (Report_expiry Elapsed_deadline)) (\<lambda>_. fail_with e))
         else fail_with e))"

definition deadline_for_collection ::
  "run_env \<Rightarrow> ('f, 'p, 'l) run_execution \<Rightarrow> run_op list \<Rightarrow> rat option" where
  "deadline_for_collection env ex tr =
    (case rx_timeout ex of
       None \<Rightarrow> None
     | Some t \<Rightarrow> Some (t - (rn_clock env tr - rx_started_at ex)))"

section \<open>Racing the exit with the writer\<close>

definition has_writer :: "('f, 'p, 'l) run_execution \<Rightarrow> bool" where
  "has_writer ex \<longleftrightarrow> rs_stdin (ex_stdio (rx_spawned ex)) \<noteq> No_stdin"

fun stdin_writer_failure :: "writer_task \<Rightarrow> ending_error option" where
  "stdin_writer_failure Writer_pending = None"
| "stdin_writer_failure (Writer_done Writer_returned) = None"
| "stdin_writer_failure (Writer_done (Writer_raised e)) = (if e = Cancel_error then None else Some (Escaped e))"
| "stdin_writer_failure (Writer_done (Writer_source_error e)) = Some (Source_failed e)"

text \<open>The cancelled exit wait terminates the child as it unwinds; what it raises is dropped.\<close>

definition cancel_exit_wait :: "unit run_action" where
  "cancel_exit_wait = mark_ops [Stop_exit_wait, Terminate_child]"

definition exit_or_writer_failure ::
  "run_env \<Rightarrow> ('f, 'p, 'l) run_execution \<Rightarrow> (int \<times> rat) run_action" where
  "exit_or_writer_failure env ex =
    (if \<not> has_writer ex then wait_within_timeout env (rx_timeout ex)
     else run_bind (mark_ops [Race_exit_and_writer]) (\<lambda>_ tr.
       (case rn_race env tr of
          Race_broken ended \<Rightarrow>
            if ended then run_bind (run_catch (wait_within_timeout env (rx_timeout ex)) (\<lambda>e. fail_with (Escaped Cancel_error)))
                (\<lambda>_. fail_with (Escaped Cancel_error)) tr
            else run_bind (shield_step env cancel_exit_wait) (\<lambda>_. fail_with (Escaped Cancel_error)) tr
        | Exit_ended \<Rightarrow> wait_within_timeout env (rx_timeout ex) tr
        | Writer_ended \<Rightarrow>
            (case stdin_writer_failure (rn_writer env tr) of
               Some failure \<Rightarrow> run_bind (shield_step env cancel_exit_wait) (\<lambda>_. fail_with failure) tr
             | None \<Rightarrow> wait_within_timeout env (rx_timeout ex) tr))))"

section \<open>Draining the readers\<close>

definition stream_piped :: "('f, 'p, 'l) run_execution \<Rightarrow> stream_name \<Rightarrow> bool" where
  "stream_piped ex stream =
    (case stream of
       Stdout \<Rightarrow> sb_is_pipe (rs_stdout (ex_stdio (rx_spawned ex)))
     | Stderr \<Rightarrow> sb_is_pipe (rs_stderr (ex_stdio (rx_spawned ex))))"

definition run_consumers :: "('f, 'p, 'l) run_execution \<Rightarrow> stream_name list" where
  "run_consumers ex = filter (stream_piped ex) [Stdout, Stderr]"

type_synonym drain_policies = "stream_name \<Rightarrow> capture_object option"

definition run_policies :: "('f, 'p, 'l) run_execution \<Rightarrow> drain_policies" where
  "run_policies ex stream =
    (case stream of
       Stdout \<Rightarrow> ex_capture_stdout (rx_spawned ex)
     | Stderr \<Rightarrow> ex_capture_stderr (rx_spawned ex))"

text \<open>The policies of a drain context: a route that discards its output captures nothing.\<close>

definition drain_context :: "('f, 'p, 'l) run_execution \<Rightarrow> bool \<Rightarrow> drain_policies" where
  "drain_context ex preserve = (if preserve then run_policies ex else (\<lambda>_. None))"

definition is_capturing :: "drain_policies \<Rightarrow> bool" where
  "is_capturing policies \<longleftrightarrow> policies Stdout \<noteq> None \<or> policies Stderr \<noteq> None"

definition no_capture :: captured_drain where
  "no_capture = \<lparr>cd_payload = None, cd_capture = None, cd_handle = None\<rparr>"

definition empty_capture_for :: "capture_object option \<Rightarrow> stream_name \<Rightarrow> bool \<Rightarrow> captured_drain" where
  "empty_capture_for policy stream capture_bytes =
    (case policy of
       None \<Rightarrow> no_capture
     | Some p \<Rightarrow>
         \<lparr>cd_payload = Some (if capture_bytes then Bytes_payload [] else Text_payload []),
           cd_capture = Some \<lparr>cs_stream = stream, cs_policy = policy_kind_of p, cs_total_bytes = 0,
             cs_dropped_bytes = 0, cs_in_file = False, cs_path = None, cs_owned = False, cs_storage_failed = False\<rparr>,
           cd_handle = None\<rparr>)"

text \<open>What a reader settled to; \<open>None\<close> for a stream without a reader.\<close>

type_synonym settled_readers = "stream_name \<Rightarrow> (raised + captured_drain) option"

definition settled_at :: "run_env \<Rightarrow> ('f, 'p, 'l) run_execution \<Rightarrow> run_op list \<Rightarrow> settled_readers" where
  "settled_at env ex tr stream = (if stream_piped ex stream then Some (rn_reader env tr stream) else None)"

definition decode_consumer_result ::
  "(raised + captured_drain) option \<Rightarrow> stream_name \<Rightarrow> drain_policies \<Rightarrow> bool \<Rightarrow> captured_drain" where
  "decode_consumer_result result stream policies capture_bytes =
    (case result of
       Some (Inr drain) \<Rightarrow> drain
     | _ \<Rightarrow> empty_capture_for (policies stream) stream capture_bytes)"

type_synonym drain_pair = "captured_drain \<times> captured_drain"

definition decode_consumer_drains :: "settled_readers \<Rightarrow> drain_policies \<Rightarrow> bool \<Rightarrow> drain_pair" where
  "decode_consumer_drains results policies capture_bytes =
    (decode_consumer_result (results Stdout) Stdout policies capture_bytes,
     decode_consumer_result (results Stderr) Stderr policies capture_bytes)"

definition cancel_pending_consumers :: "run_env \<Rightarrow> ('f, 'p, 'l) run_execution \<Rightarrow> run_op list \<Rightarrow> run_op list" where
  "cancel_pending_consumers env ex tr = map Cancel_reader (filter (\<lambda>s. \<not> rn_reader_done env tr s) (run_consumers ex))"

definition settle_consumers ::
  "run_env \<Rightarrow> ('f, 'p, 'l) run_execution \<Rightarrow> bool \<Rightarrow> settled_readers run_action" where
  "settle_consumers env ex discard tr =
    (let tr = tr @ (if discard then [Discard_readers] else []);
         tr = tr @ cancel_pending_consumers env ex tr @ [Drain_readers]
     in (Inr (settled_at env ex tr), tr))"

text \<open>\<open>asyncio.wait\<close> refuses an empty list.\<close>

definition await_eof_grace :: "run_env \<Rightarrow> ('f, 'p, 'l) run_execution \<Rightarrow> unit run_action" where
  "await_eof_grace env ex =
    (if run_consumers ex = [] then fail_with (Escaped (Fault Other_fault 0)) else attempt_op env Grace_for_eof)"

definition report_eof_grace_expiry :: "run_env \<Rightarrow> ('f, 'p, 'l) run_execution \<Rightarrow> unit run_action" where
  "report_eof_grace_expiry env ex tr =
    (let pending = length (filter (\<lambda>s. \<not> rn_reader_done env tr s) (run_consumers ex))
     in if pending = 0 then (Inr (), tr) else report_safely env (Report_grace pending) tr)"

definition await_capture_eof_grace :: "run_env \<Rightarrow> ('f, 'p, 'l) run_execution \<Rightarrow> unit run_action" where
  "await_capture_eof_grace env ex =
    run_bind (run_catch (await_eof_grace env ex) (\<lambda>e.
        if e = Escaped Cancel_error then run_bind (settle_consumers env ex True) (\<lambda>_. fail_with e) else fail_with e))
      (\<lambda>_. report_eof_grace_expiry env ex)"

definition unexpected_failures :: "settled_readers \<Rightarrow> raised list" where
  "unexpected_failures results =
    concat (map (\<lambda>stream. case results stream of
        Some (Inl e) \<Rightarrow> if e = Cancel_error then [] else [e]
      | _ \<Rightarrow> []) [Stdout, Stderr])"

definition report_drain_failures :: "run_env \<Rightarrow> settled_readers \<Rightarrow> unit run_action" where
  "report_drain_failures env results =
    (if unexpected_failures results = [] then return_ok ()
     else report_safely env (Report_drain (unexpected_failures results)))"

definition drain_stream_consumers ::
  "run_env \<Rightarrow> ('f, 'p, 'l) run_execution \<Rightarrow> drain_policies \<Rightarrow> drain_pair run_action" where
  "drain_stream_consumers env ex policies =
    run_bind (if is_capturing policies then await_capture_eof_grace env ex else return_ok ()) (\<lambda>_.
    run_bind (settle_consumers env ex (\<not> is_capturing policies)) (\<lambda>results.
    run_bind (report_drain_failures env results) (\<lambda>_.
    return_ok (decode_consumer_drains results policies (rx_capture_bytes ex)))))"

section \<open>Reconciling what the run owns\<close>

text \<open>Closing a handle and cleaning a sink absorb what the filesystem answers (\<open>Capture_File\<close>).\<close>

definition finalize_capture_ops :: "('f, 'p, 'l) run_execution \<Rightarrow> drain_pair \<Rightarrow> run_op list" where
  "finalize_capture_ops ex drained =
    concat (map (\<lambda>d. case cd_handle d of None \<Rightarrow> [] | Some h \<Rightarrow> [Close_capture h]) [fst drained, snd drained]) @
    map Clean_sink (filter (\<lambda>s. run_policies ex s \<noteq> None) [Stdout, Stderr])"

definition stop_idle_ops :: "('f, 'p, 'l) run_execution \<Rightarrow> run_op list" where
  "stop_idle_ops ex = (if ex_idle (rx_spawned ex) then [Stop_heartbeat] else [])"

definition cancel_writer_ops :: "('f, 'p, 'l) run_execution \<Rightarrow> run_op list" where
  "cancel_writer_ops ex = (if has_writer ex then [Cancel_writer] else [])"

definition reconcile_run_tasks ::
  "run_env \<Rightarrow> ('f, 'p, 'l) run_execution \<Rightarrow> drain_policies \<Rightarrow> drain_pair run_action" where
  "reconcile_run_tasks env ex policies =
    run_bind (mark_ops (stop_idle_ops ex @ cancel_writer_ops ex)) (\<lambda>_.
    run_bind (drain_stream_consumers env ex policies) (\<lambda>drained.
    run_bind (mark_ops (finalize_capture_ops ex drained @ [Settle_relays])) (\<lambda>_.
    return_ok drained)))"

definition reconcile_shielded ::
  "run_env \<Rightarrow> ('f, 'p, 'l) run_execution \<Rightarrow> bool \<Rightarrow> drain_pair run_action" where
  "reconcile_shielded env ex preserve = shield_step env (reconcile_run_tasks env ex (drain_context ex preserve))"

definition handle_stream_timeout ::
  "run_env \<Rightarrow> rat option \<Rightarrow> payload option \<times> payload option \<Rightarrow> 'a run_action" where
  "handle_stream_timeout env timeout payloads tr =
    (case require_timeout timeout of
       Inl broken \<Rightarrow> (Inl broken, tr)
     | Inr t \<Rightarrow> (Inl (Stream_timed_out \<lparr>td_timeout = t, td_stdout = fst payloads, td_stderr = snd payloads,
         td_exited_at = rn_clock env tr\<rparr>), tr))"

definition drained_payloads :: "drain_pair \<Rightarrow> payload option \<times> payload option" where
  "drained_payloads drained = (cd_payload (fst drained), cd_payload (snd drained))"

section \<open>The streamed run\<close>

definition streamed_process_exit ::
  "run_env \<Rightarrow> ('f, 'p, 'l) run_execution \<Rightarrow> (int \<times> rat) run_action" where
  "streamed_process_exit env ex =
    run_catch (exit_or_writer_failure env ex) (\<lambda>e.
      if is_timeout_error e then
        run_bind (reconcile_shielded env ex True) (\<lambda>drained.
          handle_stream_timeout env (rx_timeout ex) (drained_payloads drained))
      else run_bind (reconcile_shielded env ex False) (\<lambda>_. fail_with e))"

fun await_writer_end :: "writer_end \<Rightarrow> unit run_action" where
  "await_writer_end Writer_returned = return_ok ()"
| "await_writer_end (Writer_raised e) = fail_with (Escaped e)"
| "await_writer_end (Writer_source_error e) = fail_with (Source_failed e)"

definition settle_stdin_writer :: "run_env \<Rightarrow> unit run_action" where
  "settle_stdin_writer env tr =
    (case rn_writer env tr of
       Writer_done w \<Rightarrow> await_writer_end w tr
     | Writer_pending \<Rightarrow>
         shield_step env (run_bind (mark_ops [Settle_window]) (\<lambda>_ tr.
           (case rn_writer env tr of
              Writer_done w \<Rightarrow> await_writer_end w tr
            | Writer_pending \<Rightarrow> mark_ops [Cancel_writer] tr))) tr)"

text \<open>The settle runs as a task of its own; only the wait for it can be broken.\<close>

definition await_stdin_writer :: "run_env \<Rightarrow> ('f, 'p, 'l) run_execution \<Rightarrow> unit run_action" where
  "await_stdin_writer env ex =
    (if \<not> has_writer ex then return_ok ()
     else run_bind (attempt_op env Await_writer) (\<lambda>_. settle_stdin_writer env))"

definition settle_group_ops :: "('f, 'p, 'l) run_execution \<Rightarrow> run_op list" where
  "settle_group_ops ex = (if owns_process_group (rx_spawned ex) then [Settle_group] else [])"

definition settle_group_and_reconcile ::
  "run_env \<Rightarrow> ('f, 'p, 'l) run_execution \<Rightarrow> bool \<Rightarrow> drain_pair run_action" where
  "settle_group_and_reconcile env ex preserve =
    shield_step env (run_bind (mark_ops (settle_group_ops ex)) (\<lambda>_.
      reconcile_run_tasks env ex (drain_context ex preserve)))"

text \<open>\<open>asyncio.gather\<close> of the readers: broken while it waits, or failed by a reader.\<close>

definition gather_readers :: "run_env \<Rightarrow> ('f, 'p, 'l) run_execution \<Rightarrow> settled_readers run_action" where
  "gather_readers env ex =
    run_bind (attempt_op env Await_readers) (\<lambda>_ tr.
      (let results = settled_at env ex tr in
       case (results Stdout, results Stderr) of
         (Some (Inl e), _) \<Rightarrow> (Inl (Escaped e), tr)
       | (_, Some (Inl e)) \<Rightarrow> (Inl (Escaped e), tr)
       | _ \<Rightarrow> (Inr results, tr)))"

definition stop_idle_monitor :: "run_env \<Rightarrow> ('f, 'p, 'l) run_execution \<Rightarrow> unit run_action" where
  "stop_idle_monitor env ex = (if ex_idle (rx_spawned ex) then attempt_op env Stop_heartbeat else return_ok ())"

definition post_exit_boundary :: "run_env \<Rightarrow> ('f, 'p, 'l) run_execution \<Rightarrow> drain_pair run_action" where
  "post_exit_boundary env ex =
    run_bind (stop_idle_monitor env ex) (\<lambda>_.
    run_bind (await_stdin_writer env ex) (\<lambda>_.
    run_bind (gather_readers env ex) (\<lambda>results.
    return_ok (decode_consumer_drains results (drain_context ex True) (rx_capture_bytes ex)))))"

definition collect_stream_output :: "run_env \<Rightarrow> ('f, 'p, 'l) run_execution \<Rightarrow> drain_pair run_action" where
  "collect_stream_output env ex tr =
    (let deadline = deadline_for_collection env ex tr in
     case timeout_scope env deadline (post_exit_boundary env ex) tr of
       (Inr drained, tr) \<Rightarrow> (Inr drained, tr @ [Settle_relays])
     | (Inl e, tr) \<Rightarrow>
         if is_timeout_error e \<and> scope_expired env deadline tr then
           run_bind (settle_group_and_reconcile env ex True) (\<lambda>drained.
             handle_stream_timeout env (rx_timeout ex) (drained_payloads drained)) tr
         else run_bind (settle_group_and_reconcile env ex False) (\<lambda>_. fail_with e) tr)"

definition run_with_streams ::
  "run_env \<Rightarrow> ('f, 'p, 'l) run_execution \<Rightarrow> ((int \<times> rat) \<times> drain_pair) run_action" where
  "run_with_streams env ex =
    run_bind (mark_ops ((if ex_idle (rx_spawned ex) then [Launch_heartbeat] else []) @ [Spawn_tasks])) (\<lambda>_.
    run_bind (streamed_process_exit env ex) (\<lambda>exited.
    run_bind (collect_stream_output env ex) (\<lambda>drained.
    run_bind (shield_step env (mark_ops (finalize_capture_ops ex drained))) (\<lambda>_.
    return_ok (exited, drained)))))"

section \<open>The direct run\<close>

text \<open>A wait for the writer that ends with the writer still pending was broken.\<close>

definition await_writer_task :: "run_env \<Rightarrow> unit run_action" where
  "await_writer_task env =
    run_bind (attempt_op env Await_writer) (\<lambda>_ tr.
      (case rn_writer env tr of
         Writer_done w \<Rightarrow> await_writer_end w tr
       | Writer_pending \<Rightarrow> (Inl (Escaped Cancel_error), tr)))"

definition raise_direct_writer_timeout ::
  "run_env \<Rightarrow> ('f, 'p, 'l) run_execution \<Rightarrow> ending_error \<Rightarrow> unit run_action" where
  "raise_direct_writer_timeout env ex e tr =
    (if stdin_writer_failure (rn_writer env tr) = Some e then (Inl e, tr)
     else run_bind (if rx_timeout ex \<noteq> None then report_safely env (Report_expiry Elapsed_deadline) else return_ok ())
       (\<lambda>_. handle_stream_timeout env (rx_timeout ex) (None, None)) tr)"

definition writer_within_deadline :: "run_env \<Rightarrow> ('f, 'p, 'l) run_execution \<Rightarrow> unit run_action" where
  "writer_within_deadline env ex tr =
    (case deadline_for_collection env ex tr of
       None \<Rightarrow> settle_stdin_writer env tr
     | Some remaining \<Rightarrow>
         run_catch (timeout_scope env (Some remaining) (await_writer_task env)) (\<lambda>e.
           if is_timeout_error e then raise_direct_writer_timeout env ex e else fail_with e) tr)"

definition cleanup_direct_run :: "run_env \<Rightarrow> ('f, 'p, 'l) run_execution \<Rightarrow> unit run_action" where
  "cleanup_direct_run env ex = shield_step env (mark_ops (cancel_writer_ops ex @ settle_group_ops ex))"

definition run_without_streams :: "run_env \<Rightarrow> ('f, 'p, 'l) run_execution \<Rightarrow> (int \<times> rat) run_action" where
  "run_without_streams env ex =
    run_bind (mark_ops (if has_writer ex then [Spawn_tasks] else [])) (\<lambda>_.
    run_catch
      (run_bind (exit_or_writer_failure env ex) (\<lambda>exited.
       run_bind (if has_writer ex then writer_within_deadline env ex else return_ok ()) (\<lambda>_.
       return_ok exited)))
      (\<lambda>e. run_bind (cleanup_direct_run env ex) (\<lambda>_. fail_with e)))"

section \<open>Translating an expiry\<close>

definition resolve_timeout_payload :: "ending_error \<Rightarrow> rat option \<Rightarrow> timeout_details \<Rightarrow> ending_error + timeout_details" where
  "resolve_timeout_payload e configured fallback =
    (case e of
       Stream_timed_out details \<Rightarrow> Inr details
     | _ \<Rightarrow> rbind (require_timeout configured) (\<lambda>t. Inr (fallback\<lparr>td_timeout := t\<rparr>)))"

definition emit_exit_event ::
  "run_env \<Rightarrow> ('f, 'p, 'l) run_execution \<Rightarrow> int \<Rightarrow> rat \<Rightarrow> unit run_action" where
  "emit_exit_event env ex exit_code exited_at =
    attempt_op env (Emit_exit exit_code (max 0 (exited_at - rx_started_at ex)))"

definition run_exit_code :: "run_env \<Rightarrow> run_op list \<Rightarrow> int" where
  "run_exit_code env tr = (case rn_returncode env tr of Some code \<Rightarrow> code | None \<Rightarrow> -1)"

definition translate_run_timeout ::
  "run_env \<Rightarrow> ('f, 'p, 'l) run_execution \<Rightarrow> ending_error \<Rightarrow> 'a run_action" where
  "translate_run_timeout env ex e tr =
    (case resolve_timeout_payload e (rx_timeout ex)
        \<lparr>td_timeout = 0, td_stdout = None, td_stderr = None, td_exited_at = rn_clock env tr\<rparr> of
       Inl broken \<Rightarrow> (Inl broken, tr)
     | Inr details \<Rightarrow>
         run_bind (emit_exit_event env ex (run_exit_code env tr) (td_exited_at details)) (\<lambda>_.
           fail_with (Run_timed_out \<lparr>tp_command = rx_command ex, tp_timeout = td_timeout details,
             tp_stdout = td_stdout details, tp_stderr = td_stderr details\<rparr>)) tr)"

section \<open>The whole run\<close>

record direct_completion =
  dk_exit_code :: int
  dk_exited_at :: rat
  dk_stdout :: "payload option"
  dk_stderr :: "payload option"
  dk_captures :: "file_captured_stream option \<times> file_captured_stream option"

definition has_consumers :: "('f, 'p, 'l) run_execution \<Rightarrow> bool" where
  "has_consumers ex \<longleftrightarrow> consumes_stdout (rx_spawned ex) \<or> consumes_stderr (rx_spawned ex)"

definition streamed_completion :: "(int \<times> rat) \<times> drain_pair \<Rightarrow> direct_completion" where
  "streamed_completion r =
    \<lparr>dk_exit_code = fst (fst r), dk_exited_at = snd (fst r), dk_stdout = cd_payload (fst (snd r)),
      dk_stderr = cd_payload (snd (snd r)), dk_captures = (cd_capture (fst (snd r)), cd_capture (snd (snd r)))\<rparr>"

definition uncaptured_completion :: "int \<times> rat \<Rightarrow> direct_completion" where
  "uncaptured_completion exited =
    \<lparr>dk_exit_code = fst exited, dk_exited_at = snd exited, dk_stdout = None, dk_stderr = None,
      dk_captures = (None, None)\<rparr>"

fun is_stream_timeout :: "ending_error \<Rightarrow> bool" where
  "is_stream_timeout (Stream_timed_out details) = True"
| "is_stream_timeout _ = False"

text \<open>The heartbeat is stopped under a shield on every path; a cancellation of that stop replaces the outcome.\<close>

definition await_direct_completion ::
  "run_env \<Rightarrow> ('f, 'p, 'l) run_execution \<Rightarrow> direct_completion run_action" where
  "await_direct_completion env ex tr =
    (let body =
       (if has_consumers ex
        then run_bind (run_with_streams env ex) (\<lambda>r. return_ok (streamed_completion r))
        else run_bind (run_without_streams env ex) (\<lambda>exited. return_ok (uncaptured_completion exited)));
       handled = run_catch body (\<lambda>e.
         if is_stream_timeout e then translate_run_timeout env ex e
         else if is_timeout_error e \<and> \<not> has_consumers ex then translate_run_timeout env ex e
         else fail_with e)
     in case handled tr of
          (r, tr) \<Rightarrow> run_bind (shield_step env (mark_ops (stop_idle_ops ex))) (\<lambda>_ tr. (r, tr)) tr)"

definition execute_subprocess :: "run_env \<Rightarrow> ('f, 'p, 'l) run_execution \<Rightarrow> direct_completion run_action" where
  "execute_subprocess env ex =
    run_bind (await_direct_completion env ex) (\<lambda>completion.
    run_bind (emit_exit_event env ex (dk_exit_code completion) (dk_exited_at completion)) (\<lambda>_.
    return_ok completion))"

section \<open>What a step does\<close>

text \<open>A step only adds to the log; \<open>does f Q\<close> relates the log before, the outcome and what was added.\<close>

type_synonym 'a step_spec = "run_op list \<Rightarrow> ending_error + 'a \<Rightarrow> run_op list \<Rightarrow> bool"

definition does :: "'a run_action \<Rightarrow> 'a step_spec \<Rightarrow> bool" where
  "does f Q \<longleftrightarrow> (\<forall>tr r tr'. f tr = (r, tr') \<longrightarrow> (\<exists>ops. tr' = tr @ ops \<and> Q tr r ops))"

lemma doesI: "(\<And>tr r tr'. f tr = (r, tr') \<Longrightarrow> \<exists>ops. tr' = tr @ ops \<and> Q tr r ops) \<Longrightarrow> does f Q"
  by (simp add: does_def)

lemma doesE:
  assumes "does f Q" and "f tr = (r, tr')"
  obtains ops where "tr' = tr @ ops" "Q tr r ops"
  using assms unfolding does_def by blast

lemma does_weaken: "does f Q \<Longrightarrow> (\<And>tr r ops. Q tr r ops \<Longrightarrow> R tr r ops) \<Longrightarrow> does f R"
  unfolding does_def by blast

lemma does_conj: "does f Q \<Longrightarrow> does f R \<Longrightarrow> does f (\<lambda>tr r ops. Q tr r ops \<and> R tr r ops)"
  unfolding does_def by fastforce

lemma does_return: "(\<And>tr. Q tr (Inr x) []) \<Longrightarrow> does (return_ok x) Q"
  by (auto simp: does_def return_ok_def)

lemma does_fail: "(\<And>tr. Q tr (Inl e) []) \<Longrightarrow> does (fail_with e) Q"
  by (auto simp: does_def fail_with_def)

lemma does_mark: "(\<And>tr. Q tr (Inr ()) ops) \<Longrightarrow> does (mark_ops ops) Q"
  by (auto simp: does_def mark_ops_def)

lemma does_attempt:
  "(\<And>tr. rn_raises env tr op = None \<Longrightarrow> Q tr (Inr ()) [op]) \<Longrightarrow>
    (\<And>tr e. rn_raises env tr op = Some e \<Longrightarrow> Q tr (Inl (Escaped e)) [op]) \<Longrightarrow> does (attempt_op env op) Q"
  by (auto simp: does_def attempt_op_def split: option.splits)

lemma does_report:
  "(\<And>tr. Q tr (Inr ()) [op]) \<Longrightarrow>
    (\<And>tr i. rn_raises env tr op = Some (Interrupt i) \<Longrightarrow> Q tr (Inl (Escaped (Interrupt i))) [op]) \<Longrightarrow>
    does (report_safely env op) Q"
  by (auto simp: does_def report_safely_def split: option.splits raised.splits)

lemma does_bind:
  assumes "does f Q" and "\<And>x. does (g x) (R x)"
    and "\<And>tr e ops. Q tr (Inl e) ops \<Longrightarrow> S tr (Inl e) ops"
    and "\<And>tr x ops r ops'. Q tr (Inr x) ops \<Longrightarrow> R x (tr @ ops) r ops' \<Longrightarrow> S tr r (ops @ ops')"
  shows "does (run_bind f g) S"
proof (rule doesI)
  fix tr r tr'
  assume run: "run_bind f g tr = (r, tr')"
  obtain r1 tr1 where f: "f tr = (r1, tr1)" by force
  obtain ops where ops: "tr1 = tr @ ops" "Q tr r1 ops" by (rule doesE [OF assms(1) f])
  show "\<exists>ops. tr' = tr @ ops \<and> S tr r ops"
  proof (cases r1)
    case (Inl e)
    then show ?thesis using run f ops assms(3) by (auto simp: run_bind_def)
  next
    case (Inr x)
    then have "g x tr1 = (r, tr')" using run f by (simp add: run_bind_def)
    then obtain ops' where "tr' = tr1 @ ops'" "R x tr1 r ops'" by (rule doesE [OF assms(2)])
    then show ?thesis using ops assms(4) [of tr x ops r ops'] Inr by (intro exI [of _ "ops @ ops'"]) simp
  qed
qed

lemma does_catch:
  assumes "does f Q" and "\<And>e. does (h e) (R e)"
    and "\<And>tr x ops. Q tr (Inr x) ops \<Longrightarrow> S tr (Inr x) ops"
    and "\<And>tr e ops r ops'. Q tr (Inl e) ops \<Longrightarrow> R e (tr @ ops) r ops' \<Longrightarrow> S tr r (ops @ ops')"
  shows "does (run_catch f h) S"
proof (rule doesI)
  fix tr r tr'
  assume run: "run_catch f h tr = (r, tr')"
  obtain r1 tr1 where f: "f tr = (r1, tr1)" by force
  obtain ops where ops: "tr1 = tr @ ops" "Q tr r1 ops" by (rule doesE [OF assms(1) f])
  show "\<exists>ops. tr' = tr @ ops \<and> S tr r ops"
  proof (cases r1)
    case (Inr x)
    then show ?thesis using run f ops assms(3) by (auto simp: run_catch_def)
  next
    case (Inl e)
    then have "h e tr1 = (r, tr')" using run f by (simp add: run_catch_def)
    then obtain ops' where "tr' = tr1 @ ops'" "R e tr1 r ops'" by (rule doesE [OF assms(2)])
    then show ?thesis using ops assms(4) [of tr e ops r ops'] Inl by (intro exI [of _ "ops @ ops'"]) simp
  qed
qed

lemma does_shield:
  assumes "does f Q"
    and "\<And>tr r ops. Q tr r ops \<Longrightarrow> \<not> rn_interrupted env (tr @ ops) \<or> (\<exists>e. r = Inl e) \<Longrightarrow> R tr r ops"
    and "\<And>tr r ops. Q tr r ops \<Longrightarrow> rn_interrupted env (tr @ ops) \<Longrightarrow> R tr (Inl (Escaped Cancel_error)) ops"
  shows "does (shield_step env f) R"
proof (rule doesI)
  fix tr r tr'
  assume run: "shield_step env f tr = (r, tr')"
  obtain r1 tr1 where f: "f tr = (r1, tr1)" by force
  obtain ops where ops: "tr1 = tr @ ops" "Q tr r1 ops" by (rule doesE [OF assms(1) f])
  show "\<exists>ops. tr' = tr @ ops \<and> R tr r ops"
    using run f ops assms(2,3) [of tr r1 ops] by (auto simp: shield_step_def split: if_splits sum.splits)
qed

text \<open>A step that starts from the log: its result depends on what the log says.\<close>

lemma does_logged: "(\<And>tr0. does (f tr0) (\<lambda>tr r ops. tr = tr0 \<longrightarrow> Q tr r ops)) \<Longrightarrow> does (\<lambda>tr. f tr tr) Q"
  unfolding does_def by blast

section \<open>What the log shows\<close>

definition seen_exit :: "run_env \<Rightarrow> run_op list \<Rightarrow> bool" where
  "seen_exit env hist \<longleftrightarrow>
    (\<exists>before code. prefix (before @ [Watch_exit]) hist \<and> rn_exit env (before @ [Watch_exit]) = Inr code)"

text \<open>The caller's cancellation broke the race when the child's exit had already been collected.\<close>

definition broke_after_exit :: "run_env \<Rightarrow> ('f, 'p, 'l) run_execution \<Rightarrow> run_op list \<Rightarrow> bool" where
  "broke_after_exit env ex hist \<longleftrightarrow> has_writer ex \<and> seen_exit env hist \<and>
    (\<exists>before. prefix (before @ [Race_exit_and_writer]) hist \<and>
      rn_race env (before @ [Race_exit_and_writer]) = Race_broken True)"

text \<open>Why a \<open>TimeoutError\<close> may come out of a wait.\<close>

definition expiry_cause :: "run_env \<Rightarrow> ('f, 'p, 'l) run_execution \<Rightarrow> run_op list \<Rightarrow> bool" where
  "expiry_cause env ex hist \<longleftrightarrow>
    (\<exists>t. rx_timeout ex = Some t \<and> (t \<le> 0 \<or> (\<exists>before. prefix before hist \<and> rn_timer env before \<noteq> Timer_open))) \<or>
    (\<exists>before e. has_writer ex \<and> prefix before hist \<and> is_timeout e \<and>
      stdin_writer_failure (rn_writer env before) = Some (Escaped e))"

lemma seen_exit_mono: "seen_exit env (hist @ ops) \<Longrightarrow> seen_exit env (hist @ ops @ ops')"
  unfolding seen_exit_def by (metis append_assoc prefix_prefix)

lemma seen_exit_now: "rn_exit env (hist @ [Watch_exit]) = Inr code \<Longrightarrow> seen_exit env (hist @ [Watch_exit])"
  unfolding seen_exit_def by blast

lemma broke_after_exit_mono:
  "broke_after_exit env ex (hist @ ops) \<Longrightarrow> broke_after_exit env ex (hist @ ops @ ops')"
  unfolding broke_after_exit_def using seen_exit_mono [of env hist ops ops'] by (metis append_assoc prefix_prefix)

lemma expiry_cause_mono: "expiry_cause env ex (hist @ ops) \<Longrightarrow> expiry_cause env ex (hist @ ops @ ops')"
  unfolding expiry_cause_def by (metis append_assoc prefix_prefix)

lemma expiry_cause_writer:
  assumes "has_writer ex" and "stdin_writer_failure (rn_writer env hist) = Some e" and "is_timeout_error e"
  shows "expiry_cause env ex (hist @ ops)"
proof -
  obtain e' where "e = Escaped e'" "is_timeout e'"
    using assms(2,3) by (cases "rn_writer env hist" rule: stdin_writer_failure.cases) (auto split: if_splits)
  then show ?thesis using assms unfolding expiry_cause_def by (metis prefixI)
qed

lemma expiry_cause_timer:
  "rx_timeout ex \<noteq> None \<Longrightarrow> rn_timer env hist \<noteq> Timer_open \<Longrightarrow> expiry_cause env ex (hist @ ops)"
  unfolding expiry_cause_def by (metis not_None_eq prefixI)

text \<open>
  The awaits answer as the event loop does: the wait for the child ends with its code or a cancellation, the grace and
  the wait for the writer with nothing or a cancellation, and no observe hook raises a base exception while the grace is reported.
\<close>

definition orderly :: "run_env \<Rightarrow> bool" where
  "orderly env \<longleftrightarrow>
    (\<forall>hist e. rn_exit env hist = Inl e \<longrightarrow> e = Cancel_error) \<and>
    (\<forall>hist op e. op \<in> {Grace_for_eof, Await_writer} \<and> rn_raises env hist op = Some e \<longrightarrow> e = Cancel_error) \<and>
    (\<forall>hist n i. rn_raises env hist (Report_grace n) \<noteq> Some (Interrupt i))"

lemma orderly_answer:
  "orderly env \<Longrightarrow> op \<in> {Grace_for_eof, Await_writer} \<Longrightarrow> rn_raises env hist op = Some e \<Longrightarrow> e = Cancel_error"
  unfolding orderly_def by blast

fun plain_error :: "ending_error \<Rightarrow> bool" where
  "plain_error (Stream_timed_out d) = False"
| "plain_error (Run_timed_out r) = False"
| "plain_error e = True"

lemma writer_failure_plain:
  "stdin_writer_failure w = Some e \<Longrightarrow> plain_error e \<and> e \<noteq> Invariant_broken \<and> e \<noteq> Deadline_elapsed"
  by (cases w rule: stdin_writer_failure.cases) (auto split: if_splits)

definition exit_spec :: "run_env \<Rightarrow> ('f, 'p, 'l) run_execution \<Rightarrow> (int \<times> rat) step_spec" where
  "exit_spec env ex tr r ops \<longleftrightarrow>
    set ops \<subseteq> {Race_exit_and_writer, Watch_exit, Stop_exit_wait, Terminate_child} \<union> range Report_expiry \<and>
    (case r of
       Inr exited \<Rightarrow> seen_exit env (tr @ ops)
     | Inl e \<Rightarrow> (Terminate_child \<in> set ops \<or> broke_after_exit env ex (tr @ ops)) \<and> plain_error e \<and> e \<noteq> Invariant_broken \<and>
         (is_timeout_error e \<longrightarrow> expiry_cause env ex (tr @ ops)))"

lemma exit_spec_cons:
  "exit_spec env ex (tr @ [Race_exit_and_writer]) r ops \<Longrightarrow> exit_spec env ex tr r (Race_exit_and_writer # ops)"
  by (auto simp: exit_spec_def split: sum.splits)

lemma does_wait_for_exit_code:
  assumes "orderly env"
  shows "does (wait_for_exit_code env) (\<lambda>tr r ops.
    (\<exists>code stamp. r = Inr (code, stamp) \<and> ops = [Watch_exit] \<and> rn_exit env (tr @ ops) = Inr code) \<or>
    (r = Inl (Escaped Cancel_error) \<and> ops = [Watch_exit, Terminate_child]))"
proof (rule doesI)
  fix tr r tr'
  assume "wait_for_exit_code env tr = (r, tr')"
  moreover have "rn_exit env (tr @ [Watch_exit]) = Inl e \<Longrightarrow> e = Cancel_error" for e
    using assms by (simp add: orderly_def)
  ultimately show "\<exists>ops. tr' = tr @ ops \<and>
      ((\<exists>code stamp. r = Inr (code, stamp) \<and> ops = [Watch_exit] \<and> rn_exit env (tr @ ops) = Inr code) \<or>
       (r = Inl (Escaped Cancel_error) \<and> ops = [Watch_exit, Terminate_child]))"
    by (auto simp: wait_for_exit_code_def Let_def run_bind_def terminate_shielded_def shield_step_def mark_ops_def
        fail_with_def split: sum.splits if_splits)
qed

lemma does_timeout_scope:
  assumes "does f Q"
    and "\<And>tr r ops. Q tr r ops \<Longrightarrow> r \<noteq> Inl (Escaped Cancel_error) \<Longrightarrow> R tr r ops"
    and "\<And>tr ops. Q tr (Inl (Escaped Cancel_error)) ops \<Longrightarrow> R tr (Inl (Escaped Cancel_error)) ops"
    and "\<And>tr ops. Q tr (Inl (Escaped Cancel_error)) ops \<Longrightarrow> limit \<noteq> None \<Longrightarrow>
      rn_timer env (tr @ ops) = Timer_expired \<Longrightarrow> R tr (Inl Deadline_elapsed) ops"
  shows "does (timeout_scope env limit f) R"
proof (rule doesI)
  fix tr r tr'
  assume run: "timeout_scope env limit f tr = (r, tr')"
  obtain r1 tr1 where f: "f tr = (r1, tr1)" by force
  obtain ops where ops: "tr1 = tr @ ops" "Q tr r1 ops" by (rule doesE [OF assms(1) f])
  show "\<exists>ops. tr' = tr @ ops \<and> R tr r ops"
  proof (cases "r1 = Inl (Escaped Cancel_error)")
    case True
    then show ?thesis
      using run f ops assms(3) [of tr ops] assms(4) [of tr ops] by (auto simp: timeout_scope_def split: if_splits)
  next
    case False
    then have "r = r1" "tr' = tr1"
      using run f by (auto simp: timeout_scope_def split: sum.splits ending_error.splits raised.splits)
    then show ?thesis using ops assms(2) [OF ops(2) False] by auto
  qed
qed

lemma does_wait_within_timeout:
  assumes "orderly env"
  shows "does (wait_within_timeout env (rx_timeout ex)) (exit_spec env ex)"
proof (cases "rx_timeout ex \<noteq> None \<and> the (rx_timeout ex) \<le> 0")
  case True
  then have cause: "expiry_cause env ex hist" for hist by (auto simp: expiry_cause_def)
  show ?thesis
    using True unfolding wait_within_timeout_def terminate_shielded_def
    by (auto simp: does_def exit_spec_def cause run_bind_def shield_step_def mark_ops_def report_safely_def
        fail_with_def split: option.splits raised.splits if_splits)
next
  case False
  have scoped: "does (timeout_scope env (rx_timeout ex) (wait_for_exit_code env)) (\<lambda>tr r ops.
      exit_spec env ex tr r ops \<and> (\<forall>e. r = Inl e \<longrightarrow> e = Escaped Cancel_error \<or>
        (e = Deadline_elapsed \<and> rx_timeout ex \<noteq> None)))"
    by (rule does_timeout_scope [OF does_wait_for_exit_code [OF assms]])
      (auto simp: exit_spec_def expiry_cause_def intro: seen_exit_now)
  show ?thesis
    unfolding wait_within_timeout_def if_not_P [OF False]
  proof (rule does_catch [OF scoped])
    show "does (if is_timeout_error e then
          (case require_timeout (rx_timeout ex) of
             Inl broken \<Rightarrow> fail_with broken
           | Inr t \<Rightarrow> run_bind (report_safely env (Report_expiry Elapsed_deadline)) (\<lambda>_. fail_with e))
        else fail_with e)
      (\<lambda>tr r ops. (rx_timeout ex \<noteq> None \<or> \<not> is_timeout_error e) \<longrightarrow> set ops \<subseteq> range Report_expiry \<and>
         (\<exists>e'. r = Inl e' \<and> (e' = e \<or> (\<exists>i. e' = Escaped (Interrupt i)))))" for e
      by (auto simp: does_def require_timeout_def fail_with_def run_bind_def report_safely_def
          split: option.splits raised.splits if_splits)
  qed (auto simp: exit_spec_def dest: seen_exit_mono broke_after_exit_mono expiry_cause_mono)
qed

lemma does_exit_or_writer_failure:
  assumes "orderly env"
  shows "does (exit_or_writer_failure env ex) (exit_spec env ex)"
proof (rule doesI)
  fix tr r tr'
  assume run: "exit_or_writer_failure env ex tr = (r, tr')"
  note waits = doesE [OF does_wait_within_timeout [OF assms]]
  show "\<exists>ops. tr' = tr @ ops \<and> exit_spec env ex tr r ops"
  proof (cases "has_writer ex")
    case False
    then have "wait_within_timeout env (rx_timeout ex) tr = (r, tr')"
      using run by (simp add: exit_or_writer_failure_def)
    then show ?thesis by (rule waits) blast
  next
    case True
    let ?tr = "tr @ [Race_exit_and_writer]"
    obtain r1 tr1 where w: "wait_within_timeout env (rx_timeout ex) ?tr = (r1, tr1)" by force
    obtain ops where ops: "tr1 = ?tr @ ops" "exit_spec env ex ?tr r1 ops" by (rule waits [OF w])
    have stopped: "exit_spec env ex tr (Inl e) [Race_exit_and_writer, Stop_exit_wait, Terminate_child]"
      if "e = Escaped Cancel_error \<or> stdin_writer_failure (rn_writer env ?tr) = Some e" for e
      using that expiry_cause_writer [OF True, of env ?tr e "[Stop_exit_wait, Terminate_child]"]
      by (auto simp: exit_spec_def dest: writer_failure_plain)
    show ?thesis
    proof (cases "rn_race env ?tr")
      case Exit_ended
      then have "r = r1" "tr' = tr1"
        using run True w by (simp_all add: exit_or_writer_failure_def run_bind_def mark_ops_def)
      then show ?thesis using ops exit_spec_cons by (intro exI [of _ "Race_exit_and_writer # ops"]) simp
    next
      case Writer_ended
      show ?thesis
      proof (cases "stdin_writer_failure (rn_writer env ?tr)")
        case None
        then have "r = r1" "tr' = tr1"
          using run True w Writer_ended by (simp_all add: exit_or_writer_failure_def run_bind_def mark_ops_def)
        then show ?thesis using ops exit_spec_cons by (intro exI [of _ "Race_exit_and_writer # ops"]) simp
      next
        case (Some e)
        then show ?thesis
          using run True Writer_ended stopped
          by (auto simp: exit_or_writer_failure_def run_bind_def mark_ops_def shield_step_def cancel_exit_wait_def
              fail_with_def split: if_splits)
      qed
    next
      case (Race_broken ended)
      show ?thesis
      proof (cases ended)
        case True
        then have "r = Inl (Escaped Cancel_error)" "tr' = tr1"
          using run \<open>has_writer ex\<close> w Race_broken
          by (auto simp: exit_or_writer_failure_def run_bind_def run_catch_def mark_ops_def fail_with_def split: sum.splits)
        moreover have "exit_spec env ex tr (Inl (Escaped Cancel_error)) (Race_exit_and_writer # ops)"
          using ops(2) True Race_broken \<open>has_writer ex\<close>
          by (cases r1) (auto simp: exit_spec_def broke_after_exit_def)
        ultimately show ?thesis using ops(1) by auto
      next
        case False
        then show ?thesis
          using run \<open>has_writer ex\<close> Race_broken stopped
          by (auto simp: exit_or_writer_failure_def run_bind_def mark_ops_def shield_step_def cancel_exit_wait_def
              fail_with_def split: if_splits)
      qed
    qed
  qed
qed

section \<open>Reclaiming what the run owns\<close>

text \<open>
  The readers are drained once: every reader still running is cancelled right before, and what is \<open>needed\<close> came
  earlier.
\<close>

definition reclaims ::
  "run_env \<Rightarrow> ('f, 'p, 'l) run_execution \<Rightarrow> run_op set \<Rightarrow> run_op list \<Rightarrow> run_op list \<Rightarrow> bool" where
  "reclaims env ex needed tr ops \<longleftrightarrow>
    (\<exists>before rest. ops = before @ cancel_pending_consumers env ex (tr @ before) @ Drain_readers # rest \<and>
      needed \<subseteq> set before \<and> Drain_readers \<notin> set before \<and> Drain_readers \<notin> set rest)"

lemma reclaims_prepend:
  assumes "reclaims env ex needed (tr @ ops) ops'" and "Drain_readers \<notin> set ops"
  shows "reclaims env ex (needed \<union> set ops) tr (ops @ ops')"
proof -
  obtain before rest where
    "ops' = before @ cancel_pending_consumers env ex (tr @ ops @ before) @ Drain_readers # rest"
    "needed \<subseteq> set before" "Drain_readers \<notin> set before" "Drain_readers \<notin> set rest"
    using assms(1) unfolding reclaims_def by auto
  then show ?thesis
    unfolding reclaims_def by (intro exI [of _ "ops @ before"] exI [of _ rest]) (use assms(2) in auto)
qed

lemma reclaims_append:
  assumes "reclaims env ex needed tr ops" and "Drain_readers \<notin> set ops'"
  shows "reclaims env ex needed tr (ops @ ops')"
proof -
  obtain before rest where
    "ops = before @ cancel_pending_consumers env ex (tr @ before) @ Drain_readers # rest"
    "needed \<subseteq> set before" "Drain_readers \<notin> set before" "Drain_readers \<notin> set rest"
    using assms(1) unfolding reclaims_def by auto
  then show ?thesis
    unfolding reclaims_def by (intro exI [of _ before] exI [of _ "rest @ ops'"]) (use assms(2) in auto)
qed

lemma reclaims_mono: "reclaims env ex needed tr ops \<Longrightarrow> needed' \<subseteq> needed \<Longrightarrow> reclaims env ex needed' tr ops"
  unfolding reclaims_def by blast

text \<open>The drained pair is read off the readers as they settled.\<close>

definition drained_from ::
  "run_env \<Rightarrow> ('f, 'p, 'l) run_execution \<Rightarrow> drain_policies \<Rightarrow> run_op list \<Rightarrow> drain_pair \<Rightarrow> bool" where
  "drained_from env ex policies hist pair \<longleftrightarrow>
    (\<exists>before. prefix (before @ [Drain_readers]) hist \<and>
      pair = decode_consumer_drains (settled_at env ex (before @ [Drain_readers])) policies (rx_capture_bytes ex))"

lemma drained_from_mono:
  "drained_from env ex policies (hist @ ops) pair \<Longrightarrow> drained_from env ex policies (hist @ ops @ ops') pair"
  unfolding drained_from_def by (metis append_assoc prefix_prefix)

lemma drained_from_now:
  "hist @ ops = before @ [Drain_readers] \<Longrightarrow>
    pair = decode_consumer_drains (settled_at env ex (before @ [Drain_readers])) policies (rx_capture_bytes ex) \<Longrightarrow>
    drained_from env ex policies (hist @ ops @ ops') pair"
  unfolding drained_from_def by (metis append_assoc prefixI)

fun interruption :: "ending_error \<Rightarrow> bool" where
  "interruption (Escaped Cancel_error) = True"
| "interruption (Escaped (Interrupt i)) = True"
| "interruption _ = False"

fun teardown_op :: "run_op \<Rightarrow> bool" where
  "teardown_op Stop_heartbeat = True"
| "teardown_op Cancel_writer = True"
| "teardown_op Settle_group = True"
| "teardown_op Grace_for_eof = True"
| "teardown_op (Report_grace n) = True"
| "teardown_op Discard_readers = True"
| "teardown_op (Cancel_reader s) = True"
| "teardown_op Drain_readers = True"
| "teardown_op (Report_drain es) = True"
| "teardown_op (Close_capture h) = True"
| "teardown_op (Clean_sink s) = True"
| "teardown_op Settle_relays = True"
| "teardown_op _ = False"

definition drain_spec ::
  "run_env \<Rightarrow> ('f, 'p, 'l) run_execution \<Rightarrow> drain_policies \<Rightarrow> run_op set \<Rightarrow> drain_pair step_spec" where
  "drain_spec env ex policies needed tr r ops \<longleftrightarrow>
    reclaims env ex needed tr ops \<and> list_all teardown_op ops \<and>
    (case r of Inl e \<Rightarrow> interruption e | Inr pair \<Rightarrow> drained_from env ex policies (tr @ ops) pair)"

lemma cancel_pending_teardown [simp]: "list_all teardown_op (cancel_pending_consumers env ex tr)"
  by (simp add: cancel_pending_consumers_def list_all_iff)

lemma cancel_pending_no_drain [simp]: "Drain_readers \<notin> set (cancel_pending_consumers env ex tr)"
  by (auto simp: cancel_pending_consumers_def)

lemma does_settle_consumers:
  "does (settle_consumers env ex discard) (\<lambda>tr r ops. reclaims env ex {} tr ops \<and> list_all teardown_op ops \<and>
    (\<exists>before. tr @ ops = before @ [Drain_readers] \<and> r = Inr (settled_at env ex (before @ [Drain_readers]))))"
proof (rule doesI)
  fix tr r tr'
  assume run: "settle_consumers env ex discard tr = (r, tr')"
  let ?d = "if discard then [Discard_readers] else []"
  let ?ops = "?d @ cancel_pending_consumers env ex (tr @ ?d) @ [Drain_readers]"
  have tr': "tr' = tr @ ?ops" "r = Inr (settled_at env ex (tr @ ?ops))"
    using run by (auto simp: settle_consumers_def Let_def)
  have "reclaims env ex {} tr ?ops"
    unfolding reclaims_def by (intro exI [of _ ?d] exI [of _ "[]"]) auto
  moreover have "list_all teardown_op ?ops" by simp
  moreover have "tr @ ?ops = (tr @ ?d @ cancel_pending_consumers env ex (tr @ ?d)) @ [Drain_readers]" by simp
  ultimately show "\<exists>ops. tr' = tr @ ops \<and> reclaims env ex {} tr ops \<and> list_all teardown_op ops \<and>
      (\<exists>before. tr @ ops = before @ [Drain_readers] \<and> r = Inr (settled_at env ex (before @ [Drain_readers])))"
    using tr' by (intro exI [of _ ?ops] conjI exI [of _ "tr @ ?d @ cancel_pending_consumers env ex (tr @ ?d)"]) simp_all
qed

lemma does_grace:
  assumes "orderly env" and "run_consumers ex \<noteq> []"
  shows "does (await_capture_eof_grace env ex) (\<lambda>tr r ops. list_all teardown_op ops \<and>
    (case r of Inr _ \<Rightarrow> Drain_readers \<notin> set ops | Inl e \<Rightarrow> e = Escaped Cancel_error \<and> reclaims env ex {} tr ops))"
proof -
  have answer: "rn_raises env hist Grace_for_eof = Some e \<Longrightarrow> e = Cancel_error" for hist e
    by (rule orderly_answer [OF assms(1)]) simp_all
  have grace: "does (await_eof_grace env ex) (\<lambda>tr r ops. ops = [Grace_for_eof] \<and> r \<in> {Inr (), Inl (Escaped Cancel_error)})"
    unfolding await_eof_grace_def if_not_P [OF assms(2)] by (rule does_attempt) (auto dest: answer)
  have settled: "does (if e = Escaped Cancel_error then run_bind (settle_consumers env ex True) (\<lambda>_. fail_with e) else fail_with e)
      (\<lambda>tr r ops. e = Escaped Cancel_error \<longrightarrow>
        r = Inl e \<and> list_all teardown_op ops \<and> reclaims env ex {} tr ops)" for e :: ending_error
  proof (cases "e = Escaped Cancel_error")
    case True
    show ?thesis
      unfolding if_P [OF True]
      by (rule does_bind [OF does_settle_consumers does_fail [where Q = "\<lambda>tr r ops. r = Inl e \<and> ops = []"]]) (auto simp: True)
  next
    case False
    then show ?thesis by (auto intro: does_fail)
  qed
  have report: "does (report_eof_grace_expiry env ex) (\<lambda>tr r ops. list_all teardown_op ops \<and> r = Inr () \<and> Drain_readers \<notin> set ops)"
    using assms(1) unfolding orderly_def report_eof_grace_expiry_def report_safely_def Let_def does_def
    by (auto split: if_splits option.splits raised.splits)
  show ?thesis
    unfolding await_capture_eof_grace_def
    by (rule does_bind [OF does_catch [OF grace settled, where S = "\<lambda>tr r ops. list_all teardown_op ops \<and>
        (case r of Inr _ \<Rightarrow> Drain_readers \<notin> set ops | Inl e \<Rightarrow> e = Escaped Cancel_error \<and> reclaims env ex {} tr ops)"] report])
      (auto intro: reclaims_mono [OF reclaims_prepend [where ops = "[Grace_for_eof]", simplified]])
qed

lemma does_drain:
  assumes "orderly env" and "is_capturing policies \<Longrightarrow> run_consumers ex \<noteq> []"
  shows "does (drain_stream_consumers env ex policies) (drain_spec env ex policies {})"
proof -
  let ?G = "\<lambda>tr (r :: ending_error + unit) ops. list_all teardown_op ops \<and>
    (case r of Inr _ \<Rightarrow> Drain_readers \<notin> set ops | Inl e \<Rightarrow> e = Escaped Cancel_error \<and> reclaims env ex {} tr ops)"
  have first: "does (if is_capturing policies then await_capture_eof_grace env ex else return_ok ()) ?G"
    using does_grace [OF assms(1)] assms(2) by (auto intro: does_return)
  have report: "does (report_drain_failures env results)
      (\<lambda>tr r ops. list_all teardown_op ops \<and> Drain_readers \<notin> set ops \<and> (\<forall>e. r = Inl e \<longrightarrow> interruption e))" for results
    unfolding report_drain_failures_def by (auto intro!: does_return does_report)
  have second: "does (run_bind (report_drain_failures env results) (\<lambda>_.
      return_ok (decode_consumer_drains results policies (rx_capture_bytes ex))))
    (\<lambda>tr r ops. list_all teardown_op ops \<and> Drain_readers \<notin> set ops \<and> (\<forall>e. r = Inl e \<longrightarrow> interruption e) \<and>
      (\<forall>pair. r = Inr pair \<longrightarrow> pair = decode_consumer_drains results policies (rx_capture_bytes ex)))" for results
    by (rule does_bind [OF report does_return [where Q = "\<lambda>tr r ops. ops = [] \<and>
        r = Inr (decode_consumer_drains results policies (rx_capture_bytes ex))"]]) auto
  have rest: "does (run_bind (settle_consumers env ex (\<not> is_capturing policies)) (\<lambda>results.
      run_bind (report_drain_failures env results) (\<lambda>_.
      return_ok (decode_consumer_drains results policies (rx_capture_bytes ex)))))
    (drain_spec env ex policies {})"
    by (rule does_bind [OF does_settle_consumers second])
      (auto simp: drain_spec_def intro: reclaims_append drained_from_now split: sum.splits)
  show ?thesis
    unfolding drain_stream_consumers_def
    by (rule does_bind [OF first rest])
      (auto simp: drain_spec_def intro: reclaims_mono [OF reclaims_prepend] split: sum.splits)
qed

lemma does_marked_drain:
  assumes "does f (drain_spec env ex policies needed)" and "list_all teardown_op pre" and "Drain_readers \<notin> set pre"
  shows "does (run_bind (mark_ops pre) (\<lambda>_. f)) (drain_spec env ex policies (needed \<union> set pre))"
proof (rule does_bind [OF does_mark [where Q = "\<lambda>tr r ops. ops = pre \<and> r = Inr ()"] assms(1)])
  fix tr r ops ops' and x :: unit
  assume "ops = pre \<and> Inr x = Inr ()" and "drain_spec env ex policies needed (tr @ ops) r ops'"
  then show "drain_spec env ex policies (needed \<union> set pre) tr r (ops @ ops')"
    using reclaims_prepend [of env ex needed tr pre ops'] assms(2,3) by (auto simp: drain_spec_def split: sum.splits)
qed auto

lemma does_reconcile:
  assumes "orderly env" and "run_consumers ex \<noteq> []"
  shows "does (reconcile_run_tasks env ex policies)
    (drain_spec env ex policies (set (stop_idle_ops ex @ cancel_writer_ops ex)))"
proof -
  let ?pre = "stop_idle_ops ex @ cancel_writer_ops ex"
  have pre: "list_all teardown_op ?pre" "Drain_readers \<notin> set ?pre"
    by (simp_all add: stop_idle_ops_def cancel_writer_ops_def)
  have post: "list_all teardown_op (finalize_capture_ops ex pair @ [Settle_relays])"
    "Drain_readers \<notin> set (finalize_capture_ops ex pair @ [Settle_relays])" for pair
    by (auto simp: finalize_capture_ops_def list_all_iff split: option.splits)
  have finish: "does (run_bind (mark_ops (finalize_capture_ops ex pair @ [Settle_relays])) (\<lambda>_. return_ok pair))
      (\<lambda>tr r ops. r = Inr pair \<and> list_all teardown_op ops \<and> Drain_readers \<notin> set ops)" for pair
    by (rule does_bind [OF does_mark [where Q = "\<lambda>tr r ops. r = Inr () \<and> list_all teardown_op ops \<and> Drain_readers \<notin> set ops"]
          does_return [where Q = "\<lambda>tr r ops. r = Inr pair \<and> ops = []"]]) (use post in auto)
  have drain: "does (run_bind (drain_stream_consumers env ex policies) (\<lambda>pair.
        run_bind (mark_ops (finalize_capture_ops ex pair @ [Settle_relays])) (\<lambda>_. return_ok pair)))
      (drain_spec env ex policies {})"
    by (rule does_bind [OF does_drain [OF assms(1)] finish])
      (use assms(2) in \<open>auto simp: drain_spec_def intro: reclaims_append drained_from_mono\<close>)
  show ?thesis
    unfolding reconcile_run_tasks_def using does_marked_drain [OF drain pre] by simp
qed

lemma does_shielded_drain:
  "does f (drain_spec env ex policies needed) \<Longrightarrow> does (shield_step env f) (drain_spec env ex policies needed)"
  by (erule does_shield) (auto simp: drain_spec_def)

definition owed :: "('f, 'p, 'l) run_execution \<Rightarrow> run_op set" where
  "owed ex = set (stop_idle_ops ex @ cancel_writer_ops ex)"

lemma does_reconcile_shielded:
  assumes "orderly env" and "run_consumers ex \<noteq> []"
  shows "does (reconcile_shielded env ex preserve) (drain_spec env ex (drain_context ex preserve) (owed ex))"
  unfolding reconcile_shielded_def owed_def by (rule does_shielded_drain [OF does_reconcile [OF assms]])

lemma does_settle_group_and_reconcile:
  assumes "orderly env" and "run_consumers ex \<noteq> []"
  shows "does (settle_group_and_reconcile env ex preserve)
    (drain_spec env ex (drain_context ex preserve) (owed ex \<union> set (settle_group_ops ex)))"
  unfolding settle_group_and_reconcile_def owed_def
  by (intro does_shielded_drain does_marked_drain does_reconcile assms) (simp_all add: settle_group_ops_def)

text \<open>A timeout names the configured limit, has a cause, and carries the output that was drained.\<close>

definition honest_failure :: "run_env \<Rightarrow> ('f, 'p, 'l) run_execution \<Rightarrow> run_op list \<Rightarrow> ending_error \<Rightarrow> bool" where
  "honest_failure env ex hist e \<longleftrightarrow>
    (\<forall>d. e = Stream_timed_out d \<longrightarrow> rx_timeout ex = Some (td_timeout d) \<and> expiry_cause env ex hist \<and>
      (\<exists>pair. drained_from env ex (run_policies ex) hist pair \<and> (td_stdout d, td_stderr d) = drained_payloads pair)) \<and>
    (\<forall>report. e \<noteq> Run_timed_out report)"

lemma plain_honest: "plain_error e \<Longrightarrow> honest_failure env ex hist e"
  by (cases e) (simp_all add: honest_failure_def)

lemma interruption_plain: "interruption e \<Longrightarrow> plain_error e"
  by (cases e) simp_all

lemma does_handle_stream_timeout:
  "does (handle_stream_timeout env t p) (\<lambda>tr r ops. ops = [] \<and> (r = Inl Invariant_broken \<or>
    (\<exists>d. r = Inl (Stream_timed_out d) \<and> t = Some (td_timeout d) \<and> (td_stdout d, td_stderr d) = p)))"
  by (auto simp: does_def handle_stream_timeout_def require_timeout_def split: option.splits)

lemma does_timeout_handler:
  assumes "does f (drain_spec env ex (run_policies ex) needed)"
  shows "does (run_bind f (\<lambda>pair. handle_stream_timeout env (rx_timeout ex) (drained_payloads pair)))
    (\<lambda>tr r ops. reclaims env ex needed tr ops \<and>
      (\<exists>e. r = Inl e \<and> (expiry_cause env ex (tr @ ops) \<longrightarrow> honest_failure env ex (tr @ ops) e)))"
  by (rule does_bind [OF assms does_handle_stream_timeout])
    (auto simp: drain_spec_def honest_failure_def dest: interruption_plain)

lemma does_error_handler:
  assumes "does f (drain_spec env ex policies needed)"
  shows "does (run_bind f (\<lambda>_. fail_with e))
    (\<lambda>tr r ops. reclaims env ex needed tr ops \<and> (\<exists>e'. r = Inl e' \<and> (e' = e \<or> plain_error e')))"
  by (rule does_bind [OF assms does_fail [where Q = "\<lambda>tr r ops. ops = [] \<and> r = Inl e"]])
    (auto simp: drain_spec_def dest: interruption_plain)

lemma drain_context_simps [simp]:
  "drain_context ex True = run_policies ex"
  "drain_context ex False = (\<lambda>_. None)"
  by (simp_all add: drain_context_def)

lemma exit_spec_no_drain: "exit_spec env ex tr r ops \<Longrightarrow> Drain_readers \<notin> set ops"
  by (auto simp: exit_spec_def)

definition child_handled :: "run_env \<Rightarrow> ('f, 'p, 'l) run_execution \<Rightarrow> run_op list \<Rightarrow> bool" where
  "child_handled env ex hist \<longleftrightarrow> Terminate_child \<in> set hist \<or> broke_after_exit env ex hist"

lemma child_handled_mono: "child_handled env ex (hist @ ops) \<Longrightarrow> child_handled env ex (hist @ ops @ ops')"
  using broke_after_exit_mono [of env ex hist ops ops'] by (auto simp: child_handled_def)

lemma does_streamed_exit:
  assumes "orderly env" and "run_consumers ex \<noteq> []"
  shows "does (streamed_process_exit env ex) (\<lambda>tr r ops.
    (case r of
       Inr exited \<Rightarrow> seen_exit env (tr @ ops) \<and> Drain_readers \<notin> set ops
     | Inl e \<Rightarrow> reclaims env ex (owed ex) tr ops \<and> child_handled env ex (tr @ ops) \<and> honest_failure env ex (tr @ ops) e))"
  unfolding streamed_process_exit_def
proof (rule does_catch [OF does_exit_or_writer_failure [OF assms(1)]])
  show "does (if is_timeout_error e then
        run_bind (reconcile_shielded env ex True) (\<lambda>pair.
          handle_stream_timeout env (rx_timeout ex) (drained_payloads pair))
      else run_bind (reconcile_shielded env ex False) (\<lambda>_. fail_with e))
    (\<lambda>tr r ops. reclaims env ex (owed ex) tr ops \<and> (\<exists>e'. r = Inl e' \<and>
      (if is_timeout_error e then expiry_cause env ex (tr @ ops) \<longrightarrow> honest_failure env ex (tr @ ops) e'
       else e' = e \<or> plain_error e')))" for e
    using does_timeout_handler [OF does_reconcile_shielded [OF assms, of True, unfolded drain_context_simps]]
      does_error_handler [OF does_reconcile_shielded [OF assms, of False]]
    by (cases "is_timeout_error e") simp_all
next
  fix tr e ops r ops'
  assume e: "exit_spec env ex tr (Inl e) ops"
    and handled: "reclaims env ex (owed ex) (tr @ ops) ops' \<and> (\<exists>e'. r = Inl e' \<and>
      (if is_timeout_error e then expiry_cause env ex ((tr @ ops) @ ops') \<longrightarrow> honest_failure env ex ((tr @ ops) @ ops') e'
       else e' = e \<or> plain_error e'))"
  have "child_handled env ex (tr @ ops @ ops')"
    using e by (intro child_handled_mono) (auto simp: exit_spec_def child_handled_def)
  moreover have "is_timeout_error e \<Longrightarrow> expiry_cause env ex (tr @ ops @ ops')"
    using e by (intro expiry_cause_mono) (simp add: exit_spec_def)
  moreover have "plain_error e" using e by (simp add: exit_spec_def)
  ultimately show "case r of
      Inr exited \<Rightarrow> seen_exit env (tr @ ops @ ops') \<and> Drain_readers \<notin> set (ops @ ops')
    | Inl e' \<Rightarrow> reclaims env ex (owed ex) tr (ops @ ops') \<and> child_handled env ex (tr @ ops @ ops') \<and>
        honest_failure env ex (tr @ ops @ ops') e'"
    using handled exit_spec_no_drain [OF e] reclaims_prepend [of env ex "owed ex" tr ops ops']
    by (auto simp: plain_honest intro: reclaims_mono split: if_splits)
qed (use exit_spec_no_drain in \<open>auto simp: exit_spec_def\<close>)

lemma does_await_writer_end:
  "does (await_writer_end w) (\<lambda>tr r ops. ops = [] \<and> (\<forall>e. r = Inl e \<longrightarrow>
    (if e = Escaped Cancel_error then True else stdin_writer_failure (Writer_done w) = Some e)))"
  by (cases w) (auto intro!: does_return does_fail)

text \<open>The steps after the exit raise what the code they call raises, and drain nothing.\<close>

definition plain_step :: "'a step_spec" where
  "plain_step tr r ops \<longleftrightarrow> Drain_readers \<notin> set ops \<and> (\<forall>e. r = Inl e \<longrightarrow> plain_error e)"

lemma plain_step_bind:
  assumes "does f plain_step" and "\<And>x. does (g x) plain_step"
  shows "does (run_bind f g) plain_step"
  by (rule does_bind [OF assms]) (auto simp: plain_step_def)

lemma plain_step_attempt: "op \<noteq> Drain_readers \<Longrightarrow> does (attempt_op env op) plain_step"
  by (auto intro!: does_attempt simp: plain_step_def)

lemma plain_step_return: "does (return_ok x) plain_step"
  by (auto intro!: does_return simp: plain_step_def)

lemma plain_writer_end: "does (await_writer_end w) plain_step"
  by (rule does_weaken [OF does_await_writer_end]) (auto simp: plain_step_def dest: writer_failure_plain split: if_splits)

lemma plain_settle_writer: "does (settle_stdin_writer env) plain_step"
proof -
  have settle: "does (\<lambda>tr. case rn_writer env tr of
        Writer_done w \<Rightarrow> await_writer_end w tr | Writer_pending \<Rightarrow> mark_ops [Cancel_writer] tr) plain_step"
    using plain_writer_end unfolding does_def
    by (auto simp: mark_ops_def plain_step_def split: writer_task.splits)
  have window: "does (run_bind (mark_ops [Settle_window]) (\<lambda>_ tr. case rn_writer env tr of
        Writer_done w \<Rightarrow> await_writer_end w tr | Writer_pending \<Rightarrow> mark_ops [Cancel_writer] tr)) plain_step"
    by (rule plain_step_bind [OF _ settle]) (auto intro!: does_mark simp: plain_step_def)
  have shielded: "does (shield_step env (run_bind (mark_ops [Settle_window]) (\<lambda>_ tr. case rn_writer env tr of
        Writer_done w \<Rightarrow> await_writer_end w tr | Writer_pending \<Rightarrow> mark_ops [Cancel_writer] tr))) plain_step"
    by (rule does_shield [OF window]) (auto simp: plain_step_def)
  show ?thesis
    using plain_writer_end shielded unfolding settle_stdin_writer_def does_def
    by (auto split: writer_task.splits)
qed

lemma plain_gather: "does (gather_readers env ex) plain_step"
proof -
  have "does (\<lambda>tr. let results = settled_at env ex tr in
      case (results Stdout, results Stderr) of
        (Some (Inl e), _) \<Rightarrow> (Inl (Escaped e), tr)
      | (_, Some (Inl e)) \<Rightarrow> (Inl (Escaped e), tr)
      | _ \<Rightarrow> (Inr results, tr)) plain_step"
    by (auto simp: does_def plain_step_def Let_def split: option.splits sum.splits)
  then show ?thesis
    unfolding gather_readers_def by (intro plain_step_bind plain_step_attempt) simp_all
qed

lemma plain_post_exit: "does (post_exit_boundary env ex) plain_step"
  unfolding post_exit_boundary_def stop_idle_monitor_def await_stdin_writer_def
  by (intro plain_step_bind) (auto intro: plain_step_bind plain_step_attempt plain_step_return plain_settle_writer plain_gather)

lemma deadline_for_collection_None [simp]: "deadline_for_collection env ex tr = None \<longleftrightarrow> rx_timeout ex = None"
  by (simp add: deadline_for_collection_def split: option.split)

lemma does_collect:
  assumes "orderly env" and "run_consumers ex \<noteq> []"
  shows "does (collect_stream_output env ex) (\<lambda>tr r ops.
    (case r of
       Inr pair \<Rightarrow> Drain_readers \<notin> set ops
     | Inl e \<Rightarrow> reclaims env ex (owed ex \<union> set (settle_group_ops ex)) tr ops \<and> honest_failure env ex (tr @ ops) e))"
proof (rule doesI)
  fix tr r tr'
  assume run: "collect_stream_output env ex tr = (r, tr')"
  let ?limit = "deadline_for_collection env ex tr"
  let ?needed = "owed ex \<union> set (settle_group_ops ex)"
  obtain r1 tr1 where scope: "timeout_scope env ?limit (post_exit_boundary env ex) tr = (r1, tr1)" by force
  have boundary: "does (timeout_scope env ?limit (post_exit_boundary env ex)) plain_step"
    by (rule does_timeout_scope [OF plain_post_exit]) (auto simp: plain_step_def)
  obtain ops where ops: "tr1 = tr @ ops" "plain_step tr r1 ops" by (rule doesE [OF boundary scope])
  have added: "\<exists>ops. tr' = tr @ ops \<and>
      (case r of Inr pair \<Rightarrow> Drain_readers \<notin> set ops
       | Inl e \<Rightarrow> reclaims env ex ?needed tr ops \<and> honest_failure env ex (tr @ ops) e)"
    if "reclaims env ex ?needed tr1 ops'" "tr' = tr1 @ ops'" "r = Inl e" "honest_failure env ex tr' e" for ops' e
    using that ops reclaims_prepend [of env ex ?needed tr ops ops']
    by (intro exI [of _ "ops @ ops'"]) (auto simp: plain_step_def intro: reclaims_mono)
  show "\<exists>ops. tr' = tr @ ops \<and>
      (case r of Inr pair \<Rightarrow> Drain_readers \<notin> set ops
       | Inl e \<Rightarrow> reclaims env ex ?needed tr ops \<and> honest_failure env ex (tr @ ops) e)"
  proof (cases r1)
    case (Inr pair)
    then show ?thesis using run scope ops by (auto simp: collect_stream_output_def Let_def plain_step_def)
  next
    case (Inl e)
    note group = does_settle_group_and_reconcile [OF assms]
    show ?thesis
    proof (cases "is_timeout_error e \<and> scope_expired env ?limit tr1")
      case True
      then have timer: "rx_timeout ex \<noteq> None" "rn_timer env tr1 \<noteq> Timer_open" by (auto simp: scope_expired_def)
      have "run_bind (settle_group_and_reconcile env ex True)
          (\<lambda>pair. handle_stream_timeout env (rx_timeout ex) (drained_payloads pair)) tr1 = (r, tr')"
        using run scope Inl True by (simp add: collect_stream_output_def Let_def)
      then obtain ops' e' where "tr' = tr1 @ ops'" "reclaims env ex ?needed tr1 ops'" "r = Inl e'" "honest_failure env ex tr' e'"
        by (rule doesE [OF does_timeout_handler [OF group [of True, unfolded drain_context_simps]]])
          (use expiry_cause_timer [OF timer] in auto)
      then show ?thesis using added by blast
    next
      case False
      then have "run_bind (settle_group_and_reconcile env ex False) (\<lambda>_. fail_with e) tr1 = (r, tr')"
        using run scope Inl by (auto simp: collect_stream_output_def Let_def)
      then obtain ops' e' where "tr' = tr1 @ ops'" "reclaims env ex ?needed tr1 ops'" "r = Inl e'" "honest_failure env ex tr' e'"
        by (rule doesE [OF does_error_handler [OF group [of False]]])
          (use ops Inl in \<open>auto simp: plain_step_def plain_honest\<close>)
      then show ?thesis using added by blast
    qed
  qed
qed

text \<open>How a streamed run fails: in the exit wait, after the exit, or cancelled once its output is collected.\<close>

definition streamed_failure :: "run_env \<Rightarrow> ('f, 'p, 'l) run_execution \<Rightarrow> run_op list \<Rightarrow> ending_error \<Rightarrow> run_op list \<Rightarrow> bool" where
  "streamed_failure env ex tr e ops \<longleftrightarrow>
    (reclaims env ex (owed ex) tr ops \<and> child_handled env ex (tr @ ops)) \<or>
    (reclaims env ex (owed ex \<union> set (settle_group_ops ex)) tr ops \<and> seen_exit env (tr @ ops)) \<or>
    (e = Escaped Cancel_error \<and> Drain_readers \<notin> set ops \<and> seen_exit env (tr @ ops) \<and>
      (\<exists>before pair. ops = before @ finalize_capture_ops ex pair))"

lemma finalize_no_drain [simp]: "Drain_readers \<notin> set (finalize_capture_ops ex pair)"
  by (auto simp: finalize_capture_ops_def split: option.splits)

lemma does_run_with_streams:
  assumes "orderly env" and "run_consumers ex \<noteq> []"
  shows "does (run_with_streams env ex) (\<lambda>tr r ops.
    (case r of
       Inr out \<Rightarrow> seen_exit env (tr @ ops) \<and> Drain_readers \<notin> set ops
     | Inl e \<Rightarrow> honest_failure env ex (tr @ ops) e \<and> streamed_failure env ex tr e ops))"
proof -
  let ?needed = "owed ex \<union> set (settle_group_ops ex)"
  have finish: "does (run_bind (shield_step env (mark_ops (finalize_capture_ops ex pair))) (\<lambda>_. return_ok (exited, pair)))
      (\<lambda>tr r ops. ops = finalize_capture_ops ex pair \<and> (\<forall>e. r = Inl e \<longrightarrow> e = Escaped Cancel_error))"
    for exited :: "int \<times> rat" and pair
    by (auto simp: does_def run_bind_def shield_step_def mark_ops_def return_ok_def split: if_splits)
  have collect: "does (run_bind (collect_stream_output env ex) (\<lambda>pair.
        run_bind (shield_step env (mark_ops (finalize_capture_ops ex pair))) (\<lambda>_. return_ok (exited, pair))))
      (\<lambda>tr r ops. case r of
         Inr out \<Rightarrow> Drain_readers \<notin> set ops
       | Inl e \<Rightarrow> honest_failure env ex (tr @ ops) e \<and>
           (reclaims env ex ?needed tr ops \<or> (e = Escaped Cancel_error \<and> Drain_readers \<notin> set ops \<and>
             (\<exists>before pair. ops = before @ finalize_capture_ops ex pair))))" for exited :: "int \<times> rat"
    by (rule does_bind [OF does_collect [OF assms] finish]) (auto simp: plain_honest split: sum.splits)
  have "does (run_bind (streamed_process_exit env ex) (\<lambda>exited. run_bind (collect_stream_output env ex) (\<lambda>pair.
        run_bind (shield_step env (mark_ops (finalize_capture_ops ex pair))) (\<lambda>_. return_ok (exited, pair)))))
      (\<lambda>tr r ops. case r of
         Inr out \<Rightarrow> seen_exit env (tr @ ops) \<and> Drain_readers \<notin> set ops
       | Inl e \<Rightarrow> honest_failure env ex (tr @ ops) e \<and> streamed_failure env ex tr e ops)"
  proof (rule does_bind [OF does_streamed_exit [OF assms] collect])
    fix tr ops r ops' and x :: "int \<times> rat"
    assume exited: "case Inr x of Inl e \<Rightarrow> reclaims env ex (owed ex) tr ops \<and> child_handled env ex (tr @ ops) \<and>
          honest_failure env ex (tr @ ops) e
        | Inr exited \<Rightarrow> seen_exit env (tr @ ops) \<and> Drain_readers \<notin> set ops"
      and after: "case r of
         Inr out \<Rightarrow> Drain_readers \<notin> set ops'
       | Inl e \<Rightarrow> honest_failure env ex ((tr @ ops) @ ops') e \<and>
           (reclaims env ex ?needed (tr @ ops) ops' \<or> (e = Escaped Cancel_error \<and> Drain_readers \<notin> set ops' \<and>
             (\<exists>before pair. ops' = before @ finalize_capture_ops ex pair)))"
    have "seen_exit env (tr @ ops @ ops')" using exited by (simp add: seen_exit_mono)
    moreover have "reclaims env ex ?needed tr (ops @ ops')" if "reclaims env ex ?needed (tr @ ops) ops'"
      using that exited by (intro reclaims_mono [OF reclaims_prepend]) auto
    moreover have "\<exists>before pair. ops @ ops' = before @ finalize_capture_ops ex pair"
      if "ops' = before @ finalize_capture_ops ex pair" for before pair
      using that by (metis append_assoc)
    ultimately show "case r of
         Inr out \<Rightarrow> seen_exit env (tr @ ops @ ops') \<and> Drain_readers \<notin> set (ops @ ops')
       | Inl e \<Rightarrow> honest_failure env ex (tr @ ops @ ops') e \<and> streamed_failure env ex tr e (ops @ ops')"
      using exited after by (cases r) (auto simp: streamed_failure_def)
  qed (auto simp: streamed_failure_def)
  note rest = this
  show ?thesis
    unfolding run_with_streams_def
  proof (rule does_bind [OF does_mark [where Q = "\<lambda>tr r ops. r = Inr () \<and> Drain_readers \<notin> set ops"] rest])
    fix tr ops r ops' and x :: unit
    assume pre: "Inr x = (Inr () :: ending_error + unit) \<and> Drain_readers \<notin> set ops"
      and after: "case r of
         Inr out \<Rightarrow> seen_exit env ((tr @ ops) @ ops') \<and> Drain_readers \<notin> set ops'
       | Inl e \<Rightarrow> honest_failure env ex ((tr @ ops) @ ops') e \<and> streamed_failure env ex (tr @ ops) e ops'"
    have "reclaims env ex n tr (ops @ ops')" if "reclaims env ex n (tr @ ops) ops'" for n
      using that pre by (intro reclaims_mono [OF reclaims_prepend]) auto
    moreover have "\<exists>before pair. ops @ ops' = before @ finalize_capture_ops ex pair"
      if "ops' = before @ finalize_capture_ops ex pair" for before pair
      using that by (metis append_assoc)
    ultimately show "case r of
         Inr out \<Rightarrow> seen_exit env (tr @ ops @ ops') \<and> Drain_readers \<notin> set (ops @ ops')
       | Inl e \<Rightarrow> honest_failure env ex (tr @ ops @ ops') e \<and> streamed_failure env ex tr e (ops @ ops')"
      using pre after by (cases r) (auto simp: streamed_failure_def)
  qed auto
qed

section \<open>The direct run\<close>

text \<open>A failure of the direct run that will be reported as a timeout has a cause and carries no output.\<close>

definition direct_failure :: "run_env \<Rightarrow> ('f, 'p, 'l) run_execution \<Rightarrow> run_op list \<Rightarrow> ending_error \<Rightarrow> bool" where
  "direct_failure env ex hist e \<longleftrightarrow>
    (is_timeout_error e \<or> is_stream_timeout e \<longrightarrow> expiry_cause env ex hist) \<and>
    (\<forall>d. e = Stream_timed_out d \<longrightarrow> rx_timeout ex = Some (td_timeout d) \<and> td_stdout d = None \<and> td_stderr d = None) \<and>
    (\<forall>report. e \<noteq> Run_timed_out report)"

definition direct_spec :: "run_env \<Rightarrow> ('f, 'p, 'l) run_execution \<Rightarrow> 'a step_spec" where
  "direct_spec env ex tr r ops \<longleftrightarrow> (\<forall>e. r = Inl e \<longrightarrow> direct_failure env ex (tr @ ops) e)"

lemma direct_failure_simps [simp]:
  "direct_failure env ex hist (Escaped Cancel_error)"
  "direct_failure env ex hist (Escaped (Interrupt i))"
  "direct_failure env ex hist (Source_failed e)"
  "direct_failure env ex hist Invariant_broken"
  "direct_failure env ex hist Deadline_elapsed \<longleftrightarrow> expiry_cause env ex hist"
  "direct_failure env ex hist (Escaped e) \<longleftrightarrow> (is_timeout e \<longrightarrow> expiry_cause env ex hist)"
  by (simp_all add: direct_failure_def)

lemma direct_failure_mono: "direct_failure env ex (hist @ ops) e \<Longrightarrow> direct_failure env ex (hist @ ops @ ops') e"
  using expiry_cause_mono [of env ex hist ops ops'] by (auto simp: direct_failure_def)

lemma direct_writer_end:
  assumes "has_writer ex" and "rn_writer env hist = Writer_done w" and "await_writer_end w hist = (r, tr')"
  shows "tr' = hist \<and> (\<forall>e. r = Inl e \<longrightarrow> direct_failure env ex (hist @ ops) e)"
proof -
  obtain "tr' = hist" and r: "\<And>e. r = Inl e \<Longrightarrow> e = Escaped Cancel_error \<or> stdin_writer_failure (rn_writer env hist) = Some e"
    by (rule doesE [OF does_await_writer_end assms(3)]) (use assms(2) in \<open>auto split: if_splits\<close>)
  moreover have "direct_failure env ex (hist @ ops) e" if "stdin_writer_failure (rn_writer env hist) = Some e" for e
    using expiry_cause_writer [OF assms(1) that, of ops] writer_failure_plain [OF that]
    by (cases e) (simp_all add: direct_failure_def)
  ultimately show ?thesis by auto
qed

lemma direct_settle_writer:
  assumes "has_writer ex"
  shows "does (settle_stdin_writer env) (direct_spec env ex)"
proof (rule doesI)
  fix tr r tr'
  assume run: "settle_stdin_writer env tr = (r, tr')"
  show "\<exists>ops. tr' = tr @ ops \<and> direct_spec env ex tr r ops"
  proof (cases "rn_writer env tr")
    case (Writer_done w)
    then have "await_writer_end w tr = (r, tr')" using run by (simp add: settle_stdin_writer_def)
    from direct_writer_end [OF assms Writer_done this, of "[]"] show ?thesis
      by (intro exI [of _ "[]"]) (simp add: direct_spec_def)
  next
    case Writer_pending
    let ?tr = "tr @ [Settle_window]"
    show ?thesis
    proof (cases "rn_writer env ?tr")
      case (Writer_done w)
      obtain r1 tr1 where w: "await_writer_end w ?tr = (r1, tr1)" by force
      have ended: "tr1 = ?tr" "\<And>e. r1 = Inl e \<Longrightarrow> direct_failure env ex ?tr e"
        using direct_writer_end [OF assms Writer_done w, of "[]"] by auto
      show ?thesis
        using run Writer_pending Writer_done w ended
        by (intro exI [of _ "[Settle_window]"])
          (auto simp: settle_stdin_writer_def shield_step_def run_bind_def mark_ops_def direct_spec_def
            split: if_splits sum.splits)
    next
      case Writer_pending
      then show ?thesis
        using run \<open>rn_writer env tr = Writer_pending\<close>
        by (auto simp: settle_stdin_writer_def shield_step_def run_bind_def mark_ops_def direct_spec_def)
    qed
  qed
qed

lemma does_await_writer_task:
  assumes "orderly env"
  shows "does (await_writer_task env) (\<lambda>tr r ops. ops = [Await_writer] \<and> (\<forall>e. r = Inl e \<longrightarrow>
    e = Escaped Cancel_error \<or> stdin_writer_failure (rn_writer env (tr @ ops)) = Some e))"
proof (rule doesI)
  fix tr r tr'
  assume run: "await_writer_task env tr = (r, tr')"
  have answer: "rn_raises env hist Await_writer = Some e \<Longrightarrow> e = Cancel_error" for hist e
    by (rule orderly_answer [OF assms]) simp_all
  show "\<exists>ops. tr' = tr @ ops \<and> ops = [Await_writer] \<and> (\<forall>e. r = Inl e \<longrightarrow>
      e = Escaped Cancel_error \<or> stdin_writer_failure (rn_writer env (tr @ ops)) = Some e)"
  proof (cases "rn_raises env tr Await_writer")
    case (Some e)
    then show ?thesis using run answer by (auto simp: await_writer_task_def run_bind_def attempt_op_def)
  next
    case None
    show ?thesis
    proof (cases "rn_writer env (tr @ [Await_writer])")
      case Writer_pending
      then show ?thesis using run None by (auto simp: await_writer_task_def run_bind_def attempt_op_def)
    next
      case (Writer_done w)
      then have "await_writer_end w (tr @ [Await_writer]) = (r, tr')"
        using run None by (simp add: await_writer_task_def run_bind_def attempt_op_def)
      then show ?thesis
        by (rule doesE [OF does_await_writer_end]) (use Writer_done in \<open>auto split: if_splits\<close>)
    qed
  qed
qed

lemma direct_writer_within_deadline:
  assumes "orderly env" and "has_writer ex"
  shows "does (writer_within_deadline env ex) (direct_spec env ex)"
proof (rule doesI)
  fix tr r tr'
  assume run: "writer_within_deadline env ex tr = (r, tr')"
  show "\<exists>ops. tr' = tr @ ops \<and> direct_spec env ex tr r ops"
  proof (cases "deadline_for_collection env ex tr")
    case None
    then have "settle_stdin_writer env tr = (r, tr')" using run by (simp add: writer_within_deadline_def del: deadline_for_collection_None)
    then show ?thesis by (rule doesE [OF direct_settle_writer [OF assms(2)]]) blast
  next
    case (Some remaining)
    then have timeout: "rx_timeout ex \<noteq> None" using deadline_for_collection_None [of env ex tr] by simp
    let ?Q = "\<lambda>tr (r :: ending_error + unit) ops. \<forall>e. r = Inl e \<longrightarrow> e = Escaped Cancel_error \<or>
        stdin_writer_failure (rn_writer env (tr @ ops)) = Some e \<or>
        (e = Deadline_elapsed \<and> rn_timer env (tr @ ops) = Timer_expired)"
    have scope: "does (timeout_scope env (Some remaining) (await_writer_task env)) ?Q"
      by (rule does_timeout_scope [OF does_await_writer_task [OF assms(1)]]) auto
    have translated: "does (run_bind (if rx_timeout ex \<noteq> None then report_safely env (Report_expiry Elapsed_deadline) else return_ok ())
        (\<lambda>_. handle_stream_timeout env (rx_timeout ex) (None, None)))
      (\<lambda>tr r ops. \<forall>e. r = Inl e \<longrightarrow> e = Invariant_broken \<or> (\<exists>i. e = Escaped (Interrupt i)) \<or>
        (\<exists>d. e = Stream_timed_out d \<and> rx_timeout ex = Some (td_timeout d) \<and> td_stdout d = None \<and> td_stderr d = None))"
      by (rule does_bind [where Q = "\<lambda>tr r ops. \<forall>e. r = Inl e \<longrightarrow> (\<exists>i. e = Escaped (Interrupt i))",
            OF _ does_handle_stream_timeout]) (auto intro!: does_report does_return)
    have handler: "does (if is_timeout_error e then raise_direct_writer_timeout env ex e else fail_with e)
        (\<lambda>tr r ops. (e = Escaped Cancel_error \<or> stdin_writer_failure (rn_writer env tr) = Some e \<or>
          (e = Deadline_elapsed \<and> rn_timer env tr = Timer_expired)) \<longrightarrow> direct_spec env ex tr r ops)" for e
    proof (rule doesI)
      fix tr1 r1 tr2
      assume h: "(if is_timeout_error e then raise_direct_writer_timeout env ex e else fail_with e) tr1 = (r1, tr2)"
      show "\<exists>ops. tr2 = tr1 @ ops \<and> ((e = Escaped Cancel_error \<or> stdin_writer_failure (rn_writer env tr1) = Some e \<or>
          (e = Deadline_elapsed \<and> rn_timer env tr1 = Timer_expired)) \<longrightarrow> direct_spec env ex tr1 r1 ops)"
      proof (cases "is_timeout_error e \<and> stdin_writer_failure (rn_writer env tr1) \<noteq> Some e")
        case True
        then have "run_bind (if rx_timeout ex \<noteq> None then report_safely env (Report_expiry Elapsed_deadline) else return_ok ())
            (\<lambda>_. handle_stream_timeout env (rx_timeout ex) (None, None)) tr1 = (r1, tr2)"
          using h by (simp add: raise_direct_writer_timeout_def)
        then show ?thesis
          by (rule doesE [OF translated])
            (use True timeout in \<open>auto simp: direct_spec_def direct_failure_def intro: expiry_cause_timer\<close>)
      next
        case False
        then have "r1 = Inl e" "tr2 = tr1"
          using h by (auto simp: raise_direct_writer_timeout_def fail_with_def split: if_splits)
        moreover have "direct_failure env ex tr1 e" if "stdin_writer_failure (rn_writer env tr1) = Some e"
          using expiry_cause_writer [OF assms(2) that, of "[]"] writer_failure_plain [OF that]
          by (cases e) (simp_all add: direct_failure_def)
        ultimately show ?thesis using False by (auto simp: direct_spec_def)
      qed
    qed
    have "does (run_catch (timeout_scope env (Some remaining) (await_writer_task env)) (\<lambda>e.
        if is_timeout_error e then raise_direct_writer_timeout env ex e else fail_with e)) (direct_spec env ex)"
      by (rule does_catch [OF scope handler]) (auto simp: direct_spec_def)
    moreover have "run_catch (timeout_scope env (Some remaining) (await_writer_task env)) (\<lambda>e.
        if is_timeout_error e then raise_direct_writer_timeout env ex e else fail_with e) tr = (r, tr')"
      using run Some by (simp add: writer_within_deadline_def)
    ultimately show ?thesis by (rule doesE) blast
  qed
qed

definition owed_direct :: "('f, 'p, 'l) run_execution \<Rightarrow> run_op list" where
  "owed_direct ex = cancel_writer_ops ex @ settle_group_ops ex"

lemma does_run_without_streams:
  assumes "orderly env"
  shows "does (run_without_streams env ex) (\<lambda>tr r ops.
    (case r of
       Inr exited \<Rightarrow> seen_exit env (tr @ ops)
     | Inl e \<Rightarrow> direct_failure env ex (tr @ ops) e \<and> (\<exists>before. ops = before @ owed_direct ex) \<and>
         (Terminate_child \<in> set ops \<or> seen_exit env (tr @ ops))))"
proof -
  let ?writer = "if has_writer ex then writer_within_deadline env ex else return_ok ()"
  have writer: "does ?writer (direct_spec env ex)"
    using direct_writer_within_deadline [OF assms] by (auto intro!: does_return simp: direct_spec_def)
  have after: "does (run_bind ?writer (\<lambda>_. return_ok exited)) (direct_spec env ex)" for exited :: "int \<times> rat"
    by (rule does_bind [OF writer does_return [where Q = "\<lambda>tr r ops. ops = [] \<and> r = Inr exited"]])
      (auto simp: direct_spec_def)
  have body: "does (run_bind (exit_or_writer_failure env ex) (\<lambda>exited. run_bind ?writer (\<lambda>_. return_ok exited)))
      (\<lambda>tr r ops. case r of
         Inr exited \<Rightarrow> seen_exit env (tr @ ops)
       | Inl e \<Rightarrow> direct_failure env ex (tr @ ops) e \<and> (Terminate_child \<in> set ops \<or> seen_exit env (tr @ ops)))"
    by (rule does_bind [OF does_exit_or_writer_failure [OF assms] after])
      (auto simp: exit_spec_def direct_spec_def broke_after_exit_def direct_failure_def seen_exit_mono
        elim!: plain_error.elims split: sum.splits)
  have cleanup: "does (run_bind (cleanup_direct_run env ex) (\<lambda>_. fail_with e))
      (\<lambda>tr r ops. ops = owed_direct ex \<and> (r = Inl e \<or> r = Inl (Escaped Cancel_error)))" for e
    by (auto simp: does_def run_bind_def cleanup_direct_run_def shield_step_def mark_ops_def fail_with_def
        owed_direct_def split: if_splits)
  have caught: "does (run_catch (run_bind (exit_or_writer_failure env ex) (\<lambda>exited. run_bind ?writer (\<lambda>_. return_ok exited)))
        (\<lambda>e. run_bind (cleanup_direct_run env ex) (\<lambda>_. fail_with e)))
      (\<lambda>tr r ops. case r of
         Inr exited \<Rightarrow> seen_exit env (tr @ ops)
       | Inl e \<Rightarrow> direct_failure env ex (tr @ ops) e \<and> (\<exists>before. ops = before @ owed_direct ex) \<and>
           (Terminate_child \<in> set ops \<or> seen_exit env (tr @ ops)))"
    by (rule does_catch [OF body cleanup]) (auto dest: seen_exit_mono direct_failure_mono)
  show ?thesis
    unfolding run_without_streams_def
    by (rule does_bind [OF does_mark [where Q = "\<lambda>tr r ops. r = Inr ()"] caught]) (auto split: sum.splits)
qed

section \<open>The whole run\<close>

lemma has_consumers_piped: "has_consumers ex \<Longrightarrow> run_consumers ex \<noteq> []"
  by (auto simp: has_consumers_def consumes_stdout_def consumes_stderr_def run_consumers_def stream_piped_def)

text \<open>
  What a \<open>TimeoutExpired\<close> says: the configured limit and the command, a cause in the log, and of a streamed run the
  output as the readers settled.
\<close>

definition timeout_faithful ::
  "run_env \<Rightarrow> ('f, 'p, 'l) run_execution \<Rightarrow> run_op list \<Rightarrow> timeout_report \<Rightarrow> bool" where
  "timeout_faithful env ex hist report \<longleftrightarrow>
    rx_timeout ex = Some (tp_timeout report) \<and> tp_command report = rx_command ex \<and> expiry_cause env ex hist \<and>
    (if has_consumers ex
     then \<exists>pair. drained_from env ex (run_policies ex) hist pair \<and>
       (tp_stdout report, tp_stderr report) = drained_payloads pair
     else tp_stdout report = None \<and> tp_stderr report = None)"

lemma timeout_faithful_mono:
  "timeout_faithful env ex (hist @ ops) report \<Longrightarrow> timeout_faithful env ex (hist @ ops @ ops') report"
  using expiry_cause_mono [of env ex hist ops ops'] drained_from_mono [of env ex "run_policies ex" hist ops _ ops']
  by (fastforce simp: timeout_faithful_def split: if_splits)

text \<open>The report made of a failure: its own details, or the configured limit alone.\<close>

definition report_of :: "('f, 'p, 'l) run_execution \<Rightarrow> ending_error \<Rightarrow> timeout_report \<Rightarrow> bool" where
  "report_of ex e report \<longleftrightarrow> tp_command report = rx_command ex \<and>
    (case e of
       Stream_timed_out d \<Rightarrow> (tp_timeout report, tp_stdout report, tp_stderr report) = (td_timeout d, td_stdout d, td_stderr d)
     | _ \<Rightarrow> rx_timeout ex = Some (tp_timeout report) \<and> tp_stdout report = None \<and> tp_stderr report = None)"

lemma does_translate:
  "does (translate_run_timeout env ex e) (\<lambda>tr r ops. \<forall>report. r = Inl (Run_timed_out report) \<longrightarrow>
    (\<exists>code d. ops = [Emit_exit code d]) \<and> report_of ex e report)"
  by (auto simp: does_def report_of_def translate_run_timeout_def resolve_timeout_payload_def require_timeout_def emit_exit_event_def
      run_bind_def attempt_op_def fail_with_def rbind_def split: ending_error.splits option.splits)

definition completion_body :: "run_env \<Rightarrow> ('f, 'p, 'l) run_execution \<Rightarrow> direct_completion run_action" where
  "completion_body env ex =
    (if has_consumers ex
     then run_bind (run_with_streams env ex) (\<lambda>r. return_ok (streamed_completion r))
     else run_bind (run_without_streams env ex) (\<lambda>exited. return_ok (uncaptured_completion exited)))"

text \<open>A failure of either run shape that is translated leads to a faithful report.\<close>

definition translatable :: "run_env \<Rightarrow> ('f, 'p, 'l) run_execution \<Rightarrow> run_op list \<Rightarrow> ending_error \<Rightarrow> bool" where
  "translatable env ex hist e \<longleftrightarrow>
    (if has_consumers ex then honest_failure env ex hist e else direct_failure env ex hist e)"

lemma does_completion_body:
  assumes "orderly env"
  shows "does (completion_body env ex) (\<lambda>tr r ops. \<forall>e. r = Inl e \<longrightarrow> translatable env ex (tr @ ops) e)"
proof (cases "has_consumers ex")
  case True
  show ?thesis
    unfolding completion_body_def if_P [OF True]
    by (rule does_bind [OF does_run_with_streams [OF assms has_consumers_piped [OF True]]
          does_return [where Q = "\<lambda>tr r ops. \<exists>x. r = Inr x"]])
      (auto simp: translatable_def True)
next
  case False
  show ?thesis
    unfolding completion_body_def if_not_P [OF False]
    by (rule does_bind [OF does_run_without_streams [OF assms] does_return [where Q = "\<lambda>tr r ops. \<exists>x. r = Inr x"]])
      (auto simp: translatable_def False)
qed

lemma translated_report:
  assumes "translatable env ex hist e" and "is_stream_timeout e \<or> (is_timeout_error e \<and> \<not> has_consumers ex)"
    and "report_of ex e report"
  shows "timeout_faithful env ex hist report"
  using assms by (cases e)
    (auto simp: report_of_def translatable_def timeout_faithful_def honest_failure_def direct_failure_def split: if_splits)

lemma does_await_direct_completion:
  assumes "orderly env"
  shows "does (await_direct_completion env ex) (\<lambda>tr r ops. \<forall>report. r = Inl (Run_timed_out report) \<longrightarrow>
    timeout_faithful env ex (tr @ ops) report \<and> (\<exists>before code d. ops = before @ Emit_exit code d # stop_idle_ops ex))"
proof -
  let ?handler = "\<lambda>e. if is_stream_timeout e then translate_run_timeout env ex e
      else if is_timeout_error e \<and> \<not> has_consumers ex then translate_run_timeout env ex e else fail_with e"
  let ?R = "\<lambda>e tr r ops. \<forall>report. translatable env ex tr e \<and> r = Inl (Run_timed_out report) \<longrightarrow>
      timeout_faithful env ex tr report \<and> (\<exists>code d. ops = [Emit_exit code d])"
  have handler: "does (?handler e) (?R e)" for e
  proof (cases "is_stream_timeout e \<or> (is_timeout_error e \<and> \<not> has_consumers ex)")
    case True
    then have translate: "?handler e = translate_run_timeout env ex e" by auto
    show ?thesis
      unfolding translate 
    proof (rule does_weaken [OF does_translate [of env ex e]], intro allI impI)
      fix tr r ops report
      assume "\<forall>report. r = Inl (Run_timed_out report) \<longrightarrow> (\<exists>code d. ops = [Emit_exit code d]) \<and> report_of ex e report"
        and "translatable env ex tr e \<and> r = Inl (Run_timed_out report)"
      then show "timeout_faithful env ex tr report \<and> (\<exists>code d. ops = [Emit_exit code d])"
        using translated_report [OF _ True] by simp
    qed
  next
    case False
    then have failed: "?handler e = fail_with e" by auto
    have "\<not> translatable env ex tr (Run_timed_out report)" for tr report
      by (simp add: translatable_def honest_failure_def direct_failure_def)
    then show ?thesis unfolding failed by (intro does_fail) auto
  qed
  have caught: "does (run_catch (completion_body env ex) ?handler) (\<lambda>tr r ops. \<forall>report. r = Inl (Run_timed_out report) \<longrightarrow>
      timeout_faithful env ex (tr @ ops) report \<and> (\<exists>before code d. ops = before @ [Emit_exit code d]))"
    by (rule does_catch [OF does_completion_body [OF assms] handler]) (auto intro: timeout_faithful_mono)
  show ?thesis
  proof (rule doesI)
    fix tr r tr'
    assume run: "await_direct_completion env ex tr = (r, tr')"
    obtain r1 tr1 where c: "run_catch (completion_body env ex) ?handler tr = (r1, tr1)" by force
    obtain ops where ops: "tr1 = tr @ ops" "\<forall>report. r1 = Inl (Run_timed_out report) \<longrightarrow>
        timeout_faithful env ex (tr @ ops) report \<and> (\<exists>before code d. ops = before @ [Emit_exit code d])"
      by (rule doesE [OF caught c])
    have "tr' = tr1 @ stop_idle_ops ex" "r = r1 \<or> r = Inl (Escaped Cancel_error)"
      using run c unfolding await_direct_completion_def completion_body_def [symmetric]
      by (auto simp: Let_def run_bind_def shield_step_def mark_ops_def split: if_splits)
    then show "\<exists>ops. tr' = tr @ ops \<and> (\<forall>report. r = Inl (Run_timed_out report) \<longrightarrow>
        timeout_faithful env ex (tr @ ops) report \<and> (\<exists>before code d. ops = before @ Emit_exit code d # stop_idle_ops ex))"
      using ops by (intro exI [of _ "ops @ stop_idle_ops ex"]) (auto intro: timeout_faithful_mono)
  qed
qed

section \<open>Properties\<close>

text \<open>
  (C8) A streamed run that fails leaves nothing behind, wherever it fails and whatever the child, the writer, the readers,
  the deadline and the caller do.  Its readers are drained exactly once: every reader that is still running is cancelled
  right before, and the heartbeat and the writer have been stopped earlier.  If it failed in its wait for the child, the
  child has been terminated or had already exited; if it failed after the exit, an owned process group has been settled
  before the drain.  The only other failure is a cancellation after the output was collected, and then the files of
  the captures are closed.
\<close>

theorem failed_streamed_run_settles:
  assumes "orderly env" and "has_consumers ex" and "run_with_streams env ex [] = (Inl e, hist)"
  shows "(reclaims env ex (owed ex) [] hist \<and> (Terminate_child \<in> set hist \<or> broke_after_exit env ex hist)) \<or>
    (reclaims env ex (owed ex \<union> set (settle_group_ops ex)) [] hist \<and> seen_exit env hist) \<or>
    (e = Escaped Cancel_error \<and> seen_exit env hist \<and> (\<exists>before pair. hist = before @ finalize_capture_ops ex pair))"
proof -
  obtain ops where "hist = [] @ ops" and "streamed_failure env ex [] e ops"
    by (rule doesE [OF does_run_with_streams [OF assms(1) has_consumers_piped [OF assms(2)]] assms(3)]) auto
  then show ?thesis by (auto simp: streamed_failure_def child_handled_def)
qed

text \<open>
  (C19) A direct run that fails has cancelled its writer and settled an owned process group as its last two acts, in this
  order, and its child has been terminated or had exited.
\<close>

theorem failed_direct_run_settles:
  assumes "orderly env" and "run_without_streams env ex [] = (Inl e, hist)"
  shows "(\<exists>before. hist = before @ cancel_writer_ops ex @ settle_group_ops ex) \<and>
    (Terminate_child \<in> set hist \<or> seen_exit env hist)"
  by (rule doesE [OF does_run_without_streams [OF assms(1)] assms(2)]) (auto simp: owed_direct_def)

text \<open>
  (C9) A \<open>TimeoutExpired\<close> is faithful: it names the configured limit and the command, the log has a cause for it, the output
  of a streamed run is what its readers had settled to when they were drained, and the exit event came before it.  The
  causes are a limit that is not positive, the run's timer, or a stdin writer that failed with a \<open>TimeoutError\<close> of its own.
\<close>

theorem timeout_report_faithful:
  assumes "orderly env" and "execute_subprocess env ex [] = (Inl (Run_timed_out report), hist)"
  shows "timeout_faithful env ex hist report \<and> (\<exists>before code d. hist = before @ Emit_exit code d # stop_idle_ops ex)"
proof -
  have "await_direct_completion env ex [] = (Inl (Run_timed_out report), hist)"
    using assms(2)
    by (auto simp: execute_subprocess_def run_bind_def emit_exit_event_def attempt_op_def return_ok_def
        split: prod.splits sum.splits option.splits)
  then show ?thesis by (rule doesE [OF does_await_direct_completion [OF assms(1)]]) auto
qed

section \<open>Where the ending goes wrong\<close>

text \<open>Nothing raises, no timer fires and nobody cancels.\<close>

definition undisturbed_env :: "run_env \<Rightarrow> bool" where
  "undisturbed_env env \<longleftrightarrow> rn_raises env = (\<lambda>_ _. None) \<and> rn_timer env = (\<lambda>_. Timer_open) \<and> rn_interrupted env = (\<lambda>_. False)"

lemma undisturbed_steps:
  assumes "undisturbed_env env"
  shows "attempt_op env op tr = (Inr (), tr @ [op])"
    and "report_safely env op tr = (Inr (), tr @ [op])"
    and "shield_step env f tr = f tr"
  using assms
  by (auto simp: undisturbed_env_def attempt_op_def report_safely_def shield_step_def split: prod.split sum.split)

definition succeeds :: "'a run_action \<Rightarrow> bool" where
  "succeeds f \<longleftrightarrow> (\<forall>tr. \<exists>x hist. f tr = (Inr x, hist))"

lemma succeeds_bind: "succeeds f \<Longrightarrow> (\<And>x. succeeds (g x)) \<Longrightarrow> succeeds (run_bind f g)"
  unfolding succeeds_def run_bind_def by (metis (no_types, lifting) case_prod_conv sum.simps(6))

lemma succeeds_catch: "succeeds f \<Longrightarrow> succeeds (run_catch f h)"
  unfolding succeeds_def run_catch_def by (metis (no_types, lifting) case_prod_conv sum.simps(6))

lemma succeeds_if: "(c \<Longrightarrow> succeeds f) \<Longrightarrow> (\<not> c \<Longrightarrow> succeeds g) \<Longrightarrow> succeeds (if c then f else g)"
  by simp

lemma succeeds_simps: "succeeds (return_ok x)" "succeeds (mark_ops ops)" "succeeds (settle_consumers env ex discard)"
  by (simp_all add: succeeds_def return_ok_def mark_ops_def settle_consumers_def Let_def)

lemma undisturbed_succeeds:
  assumes "undisturbed_env env"
  shows "succeeds (attempt_op env op)" "succeeds (report_safely env op)" "succeeds (report_eof_grace_expiry env ex)"
  using assms by (simp_all add: succeeds_def undisturbed_steps report_eof_grace_expiry_def Let_def)

lemma undisturbed_reconcile:
  assumes "undisturbed_env env" and "run_consumers ex \<noteq> []"
  shows "succeeds (reconcile_run_tasks env ex policies)"
  unfolding reconcile_run_tasks_def drain_stream_consumers_def await_capture_eof_grace_def await_eof_grace_def
    report_drain_failures_def
  by (intro succeeds_bind succeeds_catch succeeds_if undisturbed_succeeds [OF assms(1)] succeeds_simps) (use assms(2) in simp)

definition taken_for_deadline :: "('f, 'p, 'l) run_execution \<Rightarrow> ending_error \<Rightarrow> bool" where
  "taken_for_deadline ex failure \<longleftrightarrow>
    (case rx_timeout ex of
       None \<Rightarrow> failure = Invariant_broken
     | Some t \<Rightarrow> \<exists>report. failure = Run_timed_out report \<and> tp_timeout report = t)"

text \<open>
  (C39) A stdin writer that fails with a \<open>TimeoutError\<close> is taken for the run's deadline, in both shapes of the run: no timer
  fired, yet the run reports \<open>TimeoutExpired\<close> with the configured limit, and without one it breaks its own invariant.  The
  child had not exited, and the writer's failure reaches nobody.
\<close>

theorem writer_timeout_taken_for_deadline:
  assumes "undisturbed_env env" and "has_writer ex"
    and "\<And>hist. rn_race env hist = Writer_ended" and "\<And>hist. rn_writer env hist = Writer_done (Writer_raised e)"
    and "is_timeout e"
  shows "\<exists>failure hist. execute_subprocess env ex [] = (Inl failure, hist) \<and>
    (case rx_timeout ex of
       None \<Rightarrow> failure = Invariant_broken
     | Some t \<Rightarrow> \<exists>report. failure = Run_timed_out report \<and> tp_timeout report = t)"
proof -
  note quiet = undisturbed_steps [OF assms(1)]
  have e: "e \<noteq> Cancel_error" using assms(5) by auto
  have race: "exit_or_writer_failure env ex tr =
      (Inl (Escaped e), tr @ [Race_exit_and_writer, Stop_exit_wait, Terminate_child])" for tr
    using assms(2-4) e by (simp add: exit_or_writer_failure_def run_bind_def mark_ops_def quiet cancel_exit_wait_def fail_with_def)
  have translated: "\<exists>failure hist'. (translate_run_timeout env ex cause :: direct_completion run_action) hist = (Inl failure, hist') \<and> taken_for_deadline ex failure"
    if "cause = Escaped e \<or> (\<exists>d. cause = Stream_timed_out d \<and> rx_timeout ex = Some (td_timeout d))" for cause hist
    using that by (cases "rx_timeout ex") (auto simp: translate_run_timeout_def resolve_timeout_payload_def require_timeout_def emit_exit_event_def
        run_bind_def quiet fail_with_def taken_for_deadline_def split: option.split)
  have stopped: "\<exists>cause hist'. completion_body env ex hist = (Inl cause, hist') \<and>
      (if is_stream_timeout cause \<or> (is_timeout_error cause \<and> \<not> has_consumers ex)
       then cause = Escaped e \<or> (\<exists>d. cause = Stream_timed_out d \<and> rx_timeout ex = Some (td_timeout d))
       else taken_for_deadline ex cause)" for hist
  proof (cases "has_consumers ex")
    case True
    let ?hist = "hist @ (if ex_idle (rx_spawned ex) then [Launch_heartbeat] else []) @ [Spawn_tasks]"
    obtain pair hist' where "reconcile_run_tasks env ex (run_policies ex)
        (?hist @ [Race_exit_and_writer, Stop_exit_wait, Terminate_child]) = (Inr pair, hist')"
      using undisturbed_reconcile [OF assms(1) has_consumers_piped [OF True]] unfolding succeeds_def by blast
    then have "streamed_process_exit env ex ?hist = handle_stream_timeout env (rx_timeout ex) (drained_payloads pair) hist'"
      using race assms(5) by (simp add: streamed_process_exit_def run_catch_def run_bind_def reconcile_shielded_def quiet)
    moreover have "completion_body env ex hist = run_bind (streamed_process_exit env ex) (\<lambda>exited. run_bind
        (run_bind (collect_stream_output env ex) (\<lambda>pair. run_bind (shield_step env (mark_ops (finalize_capture_ops ex pair)))
          (\<lambda>_. return_ok (exited, pair)))) (\<lambda>r. return_ok (streamed_completion r))) ?hist"
      using True by (simp add: completion_body_def run_with_streams_def run_bind_def mark_ops_def split: prod.split sum.split)
    ultimately show ?thesis
      by (cases "rx_timeout ex")
        (simp_all add: run_bind_def handle_stream_timeout_def require_timeout_def taken_for_deadline_def)
  next
    case False
    then show ?thesis
      using race assms(5) by (simp add: completion_body_def run_without_streams_def run_catch_def run_bind_def mark_ops_def
          quiet cleanup_direct_run_def fail_with_def)
  qed
  obtain cause hist where body: "completion_body env ex [] = (Inl cause, hist)"
    and cause: "if is_stream_timeout cause \<or> (is_timeout_error cause \<and> \<not> has_consumers ex)
       then cause = Escaped e \<or> (\<exists>d. cause = Stream_timed_out d \<and> rx_timeout ex = Some (td_timeout d))
       else taken_for_deadline ex cause"
    using stopped by blast
  have "\<exists>failure hist'. await_direct_completion env ex [] = (Inl failure, hist') \<and> taken_for_deadline ex failure"
  proof (cases "is_stream_timeout cause \<or> (is_timeout_error cause \<and> \<not> has_consumers ex)")
    case True
    obtain failure hist' where
      "(translate_run_timeout env ex cause :: direct_completion run_action) hist = (Inl failure, hist')" "taken_for_deadline ex failure"
      using translated [OF cause [unfolded if_P [OF True]], of hist] by blast
    then show ?thesis
      using body True unfolding await_direct_completion_def completion_body_def [symmetric]
      by (auto simp: run_catch_def run_bind_def Let_def quiet mark_ops_def)
  next
    case False
    then show ?thesis
      using body cause unfolding await_direct_completion_def completion_body_def [symmetric]
      by (auto simp: run_catch_def run_bind_def Let_def quiet mark_ops_def fail_with_def)
  qed
  then show ?thesis by (auto simp: execute_subprocess_def run_bind_def taken_for_deadline_def)
qed

text \<open>
  (C40) A cancelled race lets an owned group live: when the caller's cancellation reaches a streamed run between the end of its
  exit wait and the resumption of the race with the writer, the run reconciles its tasks but neither terminates the child nor
  settles the process group it owns, although every other cancellation does one or the other.
\<close>

theorem cancelled_race_skips_group:
  assumes "undisturbed_env env" and "has_writer ex" and "has_consumers ex"
    and "rx_timeout ex = None" and "\<And>hist. rn_exit env hist = Inr code"
    and "\<And>hist. rn_race env hist = Race_broken True"
  shows "\<exists>hist. run_with_streams env ex [] = (Inl (Escaped Cancel_error), hist) \<and>
    Terminate_child \<notin> set hist \<and> Settle_group \<notin> set hist"
proof -
  note quiet = undisturbed_steps [OF assms(1)]
  have race: "exit_or_writer_failure env ex tr = (Inl (Escaped Cancel_error), tr @ [Race_exit_and_writer, Watch_exit])" for tr
    using assms(2,4-6) by (simp add: exit_or_writer_failure_def run_bind_def run_catch_def mark_ops_def wait_within_timeout_def
        timeout_scope_def wait_for_exit_code_def Let_def fail_with_def)
  have drain: "does (drain_stream_consumers env ex (\<lambda>_. None)) (\<lambda>tr r ops. Terminate_child \<notin> set ops \<and> Settle_group \<notin> set ops)"
    by (auto simp: does_def drain_stream_consumers_def is_capturing_def run_bind_def return_ok_def settle_consumers_def
        Let_def report_drain_failures_def report_safely_def cancel_pending_consumers_def split: option.splits raised.splits)
  have finish: "does (run_bind (mark_ops (finalize_capture_ops ex pair @ [Settle_relays])) (\<lambda>_. return_ok pair))
      (\<lambda>tr r ops. Terminate_child \<notin> set ops \<and> Settle_group \<notin> set ops)" for pair
    by (auto simp: does_def run_bind_def mark_ops_def return_ok_def finalize_capture_ops_def split: option.splits)
  have drained: "does (run_bind (drain_stream_consumers env ex (\<lambda>_. None)) (\<lambda>pair.
        run_bind (mark_ops (finalize_capture_ops ex pair @ [Settle_relays])) (\<lambda>_. return_ok pair)))
      (\<lambda>tr r ops. Terminate_child \<notin> set ops \<and> Settle_group \<notin> set ops)"
    by (rule does_bind [OF drain finish]) auto
  have rec: "does (reconcile_run_tasks env ex (\<lambda>_. None)) (\<lambda>tr r ops. Terminate_child \<notin> set ops \<and> Settle_group \<notin> set ops)"
    unfolding reconcile_run_tasks_def
    by (rule does_bind [OF does_mark [where Q = "\<lambda>tr r ops. Terminate_child \<notin> set ops \<and> Settle_group \<notin> set ops"] drained])
      (auto simp: stop_idle_ops_def cancel_writer_ops_def)
  let ?hist = "(if ex_idle (rx_spawned ex) then [Launch_heartbeat] else []) @ [Spawn_tasks]"
  obtain pair hist where r: "reconcile_run_tasks env ex (\<lambda>_. None) (?hist @ [Race_exit_and_writer, Watch_exit]) = (Inr pair, hist)"
    using undisturbed_reconcile [OF assms(1) has_consumers_piped [OF assms(3)]] unfolding succeeds_def by blast
  then have "streamed_process_exit env ex ?hist = (Inl (Escaped Cancel_error), hist)"
    using race by (simp add: streamed_process_exit_def run_catch_def run_bind_def reconcile_shielded_def quiet fail_with_def)
  then have "run_with_streams env ex [] = (Inl (Escaped Cancel_error), hist)"
    by (simp add: run_with_streams_def run_bind_def mark_ops_def)
  moreover have "Terminate_child \<notin> set hist \<and> Settle_group \<notin> set hist"
    by (rule doesE [OF rec r]) auto
  ultimately show ?thesis by blast
qed

section \<open>Witnesses\<close>

text \<open>A run that feeds its child, owns its group and, when it captures, reads both streams.\<close>

definition sample_binding :: "pipe_stream \<Rightarrow> bool \<Rightarrow> nat stdio_binding" where
  "sample_binding stream piped = (new_binding stream)\<lparr>sb_is_pipe := piped\<rparr>"

definition sample_execution :: "bool \<Rightarrow> rat option \<Rightarrow> (nat, nat, nat) run_execution" where
  "sample_execution capture timeout =
    \<lparr>rx_spawned =
       \<lparr>ex_argv0 = [99], ex_args = [], ex_env = None, ex_env_mode = Inherit, ex_cwd = None,
         ex_capture_stdout = (if capture then Some Full_object else None),
         ex_capture_stderr = (if capture then Some Full_object else None),
         ex_echo_stdout = False, ex_echo_stderr = False,
         ex_stdio = \<lparr>rs_stdin = Pipe_stdin, rs_stdout = sample_binding Stdout_stream capture,
           rs_stderr = sample_binding Stderr_stream capture\<rparr>,
         ex_on_line = None, ex_process_group = Own_group, ex_idle = False, ex_delivery = False\<rparr>,
      rx_command = [[99]], rx_timeout = timeout, rx_capture_bytes = False, rx_started_at = 0\<rparr>"

text \<open>The child exits with code 0, the writer is done, stdout was read and stderr still blocks.\<close>

definition sample_env :: run_env where
  "sample_env = \<lparr>rn_raises = (\<lambda>_ _. None), rn_exit = (\<lambda>_. Inr 0), rn_returncode = (\<lambda>_. Some (-15)), rn_race = (\<lambda>_. Exit_ended),
    rn_writer = (\<lambda>_. Writer_done Writer_returned), rn_reader_done = (\<lambda>_ stream. stream = Stdout),
    rn_reader = (\<lambda>_ stream. if stream = Stdout
      then Inr \<lparr>cd_payload = Some (Text_payload [104, 105]), cd_capture = None, cd_handle = Some 7\<rparr> else Inl Cancel_error),
    rn_timer = (\<lambda>_. Timer_open), rn_interrupted = (\<lambda>_. False), rn_ended_first = (\<lambda>_. False), rn_clock = (\<lambda>_. 0)\<rparr>"

definition expiring_env :: run_env where
  "expiring_env = sample_env\<lparr>rn_exit := (\<lambda>_. Inl Cancel_error), rn_timer := (\<lambda>_. Timer_expired)\<rparr>"

lemma sample_orderly [simp]: "orderly sample_env" "orderly expiring_env"
  by (simp_all add: orderly_def sample_env_def expiring_env_def)

lemmas run_evaluation =
  run_with_streams_def streamed_process_exit_def collect_stream_output_def run_without_streams_def
  execute_subprocess_def await_direct_completion_def translate_run_timeout_def resolve_timeout_payload_def
  emit_exit_event_def run_exit_code_def handle_stream_timeout_def require_timeout_def drained_payloads_def
  exit_or_writer_failure_def wait_within_timeout_def wait_for_exit_code_def terminate_shielded_def timeout_scope_def
  reconcile_shielded_def reconcile_run_tasks_def drain_stream_consumers_def await_capture_eof_grace_def await_eof_grace_def
  report_eof_grace_expiry_def settle_consumers_def cancel_pending_consumers_def report_drain_failures_def
  unexpected_failures_def decode_consumer_drains_def decode_consumer_result_def empty_capture_for_def settled_at_def
  finalize_capture_ops_def stop_idle_ops_def cancel_writer_ops_def settle_group_ops_def cleanup_direct_run_def
  writer_within_deadline_def run_bind_def run_catch_def mark_ops_def attempt_op_def report_safely_def shield_step_def
  return_ok_def fail_with_def run_consumers_def stream_piped_def run_policies_def is_capturing_def has_writer_def
  has_consumers_def consumes_stdout_def consumes_stderr_def owns_process_group_def
  sample_execution_def sample_binding_def new_binding_def sample_env_def expiring_env_def

lemma expired_run:
  "run_with_streams expiring_env (sample_execution True (Some 2)) [] =
    (Inl (Stream_timed_out \<lparr>td_timeout = 2, td_stdout = Some (Text_payload [104, 105]), td_stderr = Some (Text_payload []),
       td_exited_at = 0\<rparr>),
     [Spawn_tasks, Race_exit_and_writer, Watch_exit, Terminate_child, Report_expiry Elapsed_deadline, Cancel_writer,
      Grace_for_eof, Report_grace 1, Cancel_reader Stderr, Drain_readers, Close_capture 7, Clean_sink Stdout,
      Clean_sink Stderr, Settle_relays])"
  by (simp add: run_evaluation Let_def)

lemma sample_consumers: "has_consumers (sample_execution True timeout)"
  by (simp add: run_evaluation)

theorem failed_streamed_run_settles_witness:
  "reclaims expiring_env (sample_execution True (Some 2)) {Cancel_writer} []
    (snd (run_with_streams expiring_env (sample_execution True (Some 2)) []))"
proof -
  have owed: "{Cancel_writer} \<subseteq> owed (sample_execution True (Some 2))"
    by (simp add: owed_def cancel_writer_ops_def has_writer_def sample_execution_def)
  have "reclaims expiring_env (sample_execution True (Some 2)) {Cancel_writer} [] hist"
    if "reclaims expiring_env (sample_execution True (Some 2)) needed [] hist" "owed (sample_execution True (Some 2)) \<subseteq> needed"
    for needed hist
    using that owed by (blast intro: reclaims_mono)
  then show ?thesis
    using failed_streamed_run_settles [OF sample_orderly(2) sample_consumers expired_run] unfolding expired_run by auto
qed

theorem failed_direct_run_settles_witness:
  "\<exists>hist. run_without_streams expiring_env (sample_execution False (Some 2)) [] = (Inl Deadline_elapsed, hist) \<and>
    last hist = Settle_group"
proof -
  have run: "\<exists>hist. run_without_streams expiring_env (sample_execution False (Some 2)) [] = (Inl Deadline_elapsed, hist)"
    by (simp add: run_evaluation Let_def)
  then obtain hist where "run_without_streams expiring_env (sample_execution False (Some 2)) [] = (Inl Deadline_elapsed, hist)"
    by blast
  with failed_direct_run_settles [OF sample_orderly(2) this] show ?thesis
    by (auto simp: settle_group_ops_def owns_process_group_def sample_execution_def)
qed

theorem timeout_report_faithful_witness:
  "\<exists>report hist. execute_subprocess expiring_env (sample_execution True (Some 2)) [] = (Inl (Run_timed_out report), hist) \<and>
    tp_timeout report = 2"
proof -
  have run: "\<exists>report hist. execute_subprocess expiring_env (sample_execution True (Some 2)) [] = (Inl (Run_timed_out report), hist)"
    using expired_run by (simp add: execute_subprocess_def await_direct_completion_def run_bind_def run_catch_def Let_def
        sample_consumers shield_step_def mark_ops_def translate_run_timeout_def resolve_timeout_payload_def emit_exit_event_def
        attempt_op_def fail_with_def) (simp add: run_evaluation)
  then obtain report hist where
    "execute_subprocess expiring_env (sample_execution True (Some 2)) [] = (Inl (Run_timed_out report), hist)"
    by blast
  with timeout_report_faithful [OF sample_orderly(2) this] show ?thesis
    by (auto simp: timeout_faithful_def sample_execution_def)
qed

theorem writer_timeout_taken_for_deadline_witness:
  "\<exists>failure hist. execute_subprocess
      (sample_env\<lparr>rn_race := (\<lambda>_. Writer_ended), rn_writer := (\<lambda>_. Writer_done (Writer_raised (Fault (Timeout_fault None) 3)))\<rparr>)
      (sample_execution True (Some 60)) [] = (Inl failure, hist) \<and>
    (\<exists>report. failure = Run_timed_out report \<and> tp_timeout report = 60)"
  using writer_timeout_taken_for_deadline [of
      "sample_env\<lparr>rn_race := (\<lambda>_. Writer_ended), rn_writer := (\<lambda>_. Writer_done (Writer_raised (Fault (Timeout_fault None) 3)))\<rparr>"
      "sample_execution True (Some 60)" "Fault (Timeout_fault None) 3"]
  by (simp add: undisturbed_env_def has_writer_def sample_env_def sample_execution_def)

theorem cancelled_race_skips_group_witness:
  "\<exists>hist. run_with_streams (sample_env\<lparr>rn_race := (\<lambda>_. Race_broken True)\<rparr>) (sample_execution True None) [] =
      (Inl (Escaped Cancel_error), hist) \<and> Settle_group \<notin> set hist \<and> owns_process_group (rx_spawned (sample_execution True None))"
proof -
  let ?env = "sample_env\<lparr>rn_race := (\<lambda>_. Race_broken True)\<rparr>"
  have "undisturbed_env ?env" "has_writer (sample_execution True None)" "rx_timeout (sample_execution True None) = None"
    "rn_exit ?env hist = Inr 0" "rn_race ?env hist = Race_broken True"
    "owns_process_group (rx_spawned (sample_execution True None))" for hist
    by (simp_all add: undisturbed_env_def has_writer_def owns_process_group_def sample_env_def sample_execution_def)
  with cancelled_race_skips_group [of ?env "sample_execution True None" 0] sample_consumers show ?thesis by blast
qed

end
