(* ===== verification/Spec2Isabelle.thy ===== *)
theory Spec2Isabelle
  imports Context_State Builder_Archive Line_Boundaries Echo_Limiter Capture_Accumulators
    Delivery_Worker Redaction Github_Sink Concurrent Settlement Stdio_Spawn Spill_Safety
    Telemetry_Logs Trace_Spans Line_Stream
    Run_Ending
begin

text \<open>
  Verification development for cuprum, a Python library that builds commands from curated programs
  and runs them with policies for environment, output and failure.

  \<^bold>\<open>The program.\<close>  A command is built by \<open>sh.make\<close> from a program of a catalogue, with arguments
  that the builders validate; the execution context of the thread decides which programs may run, with
  which environment, hooks, timeout and executable; the output of the children is read in chunks and
  split into lines, echoed under a byte bound and captured under a retention policy; a pipeline is
  awaited stage by stage and stopped at the first failure.

  \<^bold>\<open>The theories\<close>, in the order in which they build on each other; sources are relative to
  \<open>src/cuprum\<close>.
  \<^item> Cuprum\_Prelude: strings as lists of code points, results with errors, the chunked-input
    interface \<open>incremental_splitter\<close> and generic list facts.  Py\_Dict and Py\_Path model the parts of
    the language the code uses: insertion-ordered dictionaries and POSIX paths.
  \<^item> Env\_Overlay (\<open>context/env_overlay.py\<close>, \<open>context/_env_registration.py\<close>): merging of overlays,
    modes and the rendering of a child's environment, through the interface \<open>layering\<close>.
  \<^item> Exec\_Binding (\<open>executable_paths.py\<close>, \<open>executable_binding.py\<close>, \<open>context/executable_overlay.py\<close>):
    executable paths and lazy resolvers.
  \<^item> Context\_Policy (\<open>context/core.py\<close>, \<open>context/_policy.py\<close>, \<open>_scope.py\<close>, \<open>_hooks.py\<close>,
    \<open>_executable.py\<close>): contexts, scope configurations, \<open>narrow\<close> and every update of a context.
  \<^item> Scope\_Registration (\<open>_scope_registration.py\<close>) and Context\_State (\<open>context/state.py\<close>,
    \<open>registration.py\<close>, \<open>scoped.py\<close>): context variables with tokens per thread, registrations that are
    detached once, scoped managers with their stack; the interface \<open>restoring_scope\<close> says what any
    nesting of such scopes leaves behind.
  \<^item> Catalogue (\<open>catalogue.py\<close> and its helpers), Command\_Builder (\<open>sh/argv.py\<close>, \<open>sh/factory.py\<close>,
    the data of \<open>sh/safe_cmd.py\<close>), Builder\_Args (\<open>builders/args.py\<close>, \<open>builders/git.py\<close>) and
    Builder\_Archive (\<open>builders/rsync.py\<close>, \<open>builders/tar.py\<close>): who owns a program, what the argument
    vector of a call is, which operands the builders accept.
  \<^item> Line\_Boundaries (\<open>_stream_line_boundaries.py\<close>, \<open>_line_splitting.py\<close>, the loop of
    \<open>_stream_line_consumer.py\<close>): the line accumulator and the whole-text splitters.
  \<^item> Echo\_Limiter (\<open>_echo_truncation.py\<close>, the carriage-return handling and the sink writes of
    \<open>_stream_echo.py\<close>): lines echoed under a byte bound with a truncation marker, and what a sink of bytes or
    of text is given; the codec and the decoder of the view are parameters.
  \<^item> Utf8\_Codec (a UTF-8 decoder as a state machine), Capture\_Decode (\<open>_capture_decode.py\<close>,
    \<open>_bounded_encoding.py\<close>) and Capture\_Accumulators (\<open>_capture_accumulators.py\<close>): capture under a
    byte bound, trimming to whole characters, decoding; the interface \<open>capture_sink\<close> says that a
    sink depends on the bytes, not on their chunks.
  \<^item> Delivery\_Worker (\<open>_bounded_delivery.py\<close>): the daemon thread that writes echoed output, as a
    labelled step relation over the critical sections of clients, worker and closer.
  \<^item> Pipeline\_Wait (\<open>_pipeline_wait.py\<close>, \<open>_pipeline_wait_state.py\<close>, \<open>_pipeline_wait_records.py\<close>,
    \<open>_pipeline_teardown.py\<close>, \<open>_teardown_policy.py\<close>): waiting for stages, the failure a pipeline
    reports and the stages it stops.
  \<^item> Process\_Teardown (\<open>_process_lifecycle.py\<close>, \<open>_process_signal.py\<close>, \<open>_process_group.py\<close>,
    \<open>_group_teardown.py\<close>): one stop, from the first probe to the last report, against a kernel that may
    answer anything.
  \<^item> Settlement (\<open>_process_handle/\<close>): the one settlement that the callers of an owned handle share, as
    a step relation in which the reap of the child is two events, the collection of its status and the publication of
    its code, so that the exit can be unobservable in between; its refinement of the contract
    \<open>one_outcome_step\<close>; the arbitration of a stop's errors and the delivery of signals.
  \<^item> Concurrent (\<open>concurrent.py\<close>, \<open>_concurrent_config.py\<close>): results, their validation, and a run as a
    step relation over the tasks, the semaphore and the task group, with the cancellations of the caller, of the group
    and of a task's own.
  \<^item> Redaction (\<open>redaction.py\<close>): rules, spans and masking, against a position-by-position reference.
  \<^item> Github\_Sink (\<open>sinks/\<close>, \<open>_sink_lifecycle.py\<close>, \<open>sh/_convenience_sink.py\<close>): the workflow commands of a
    framed run, against the lease protocol the module documents.
  \<^item> Run\_Options (\<open>sh/output.py\<close>, \<open>sh/stdio.py\<close>, \<open>sh/stdio_rules.py\<close>, \<open>sh/output_rules.py\<close>,
    \<open>sh/_capture_options.py\<close>, \<open>_process_handle/owned_start.py\<close>): the options of a run, their
    initialiser with every refusal, replacement, and the capture a handle forces on.
  \<^item> Stdio\_Spawn (\<open>_stdio_plan.py\<close>, \<open>_stdio_ownership.py\<close>, \<open>_command_execution_config.py\<close>,
    \<open>_subprocess_spawn.py\<close>): from accepted options to the configuration a child is forked with, and the
    descriptors opened and closed around the fork, against a kernel that may fail at every call.
  \<^item> Capture\_File (\<open>_capture_file.py\<close>, \<open>_capture_spill_io.py\<close>, \<open>_capture_types.py\<close>,
    \<open>_capture_cleanup.py\<close>, the drain of \<open>_streams.py\<close>) and Spill\_Safety: the capture that spills to a temporary file,
    over a filesystem that may fail or be cancelled at every call, what its results stand for, and the fate of
    the file.  A cancelled absorb ends the drain, which finalizes what was absorbed.
  \<^item> Telemetry\_Events (\<open>events.py\<close>, the projections of \<open>adapters/\<close>), Telemetry\_Logs, Telemetry\_Metrics (the
    metrics hooks, through the interface \<open>bounded_series\<close>) and Trace\_Spans (\<open>adapters/tracing_adapter.py\<close>,
    its handlers as a step relation over the sections of concurrent calls).
  \<^item> Line\_Stream (\<open>_line_stream/line_queue.py\<close>, \<open>_line_iteration.py\<close>, the publication of
    \<open>_line_stream/coordinator.py\<close>): the bounded queue between the readers of a child and the caller of
    \<open>lines()\<close>, as a step function over the tasks' turns; the hooks that run when an iteration completes may raise.
  \<^item> Stdin\_Writer (\<open>_subprocess_stdin.py\<close>, \<open>_subprocess_stdin_stream.py\<close>, \<open>_subprocess_stdin_write.py\<close>,
    \<open>_subprocess_stdin_finalize.py\<close>): the writer of a child's input, against a pipe, a producer and hooks
    that may raise or be cancelled at every operation, and the transport that holds what the pipe has not taken,
    flushed by a close that goes through and discarded by one that is aborted.
  \<^item> Run\_Ending (\<open>_subprocess_deadline.py\<close>, \<open>_subprocess_rendezvous.py\<close>, \<open>_stream_drain.py\<close>,
    \<open>_subprocess_wait.py\<close>, \<open>_subprocess_stream_exit.py\<close>, \<open>_subprocess_stream_run.py\<close>,
    \<open>_subprocess_direct_run.py\<close>, \<open>_subprocess_timeout.py\<close>, \<open>_subprocess_execution.py\<close>): from the running child to
    the completion or the public exception, against a child, a writer, readers, timers and a caller that may end or
    cancel between any two awaits.

  \<^bold>\<open>State and operations.\<close>  A class is a record with the fields of the source, an operation a function
  that returns the new record; an exception is the left side of a sum.  Module state (the context
  variables) is a record passed through.  Python strings are lists of code points and bytes are lists of
  numbers below 256; integers are unbounded, as in the source.

  \<^bold>\<open>What the lemmas show.\<close>  For contexts: exactly which programs, hooks, environment and executable
  survive a narrowing, and that every nesting of scopes restores the context, also when a body raises.
  For commands: which arguments are accepted, the exact argument vector, that option-like, remote or
  unnormalised operands cannot reach it.  For streams: that lines, echoes and captures do not depend on
  how the input is chunked, stay within their bounds and account for every byte or character (the bound of an echoed line
  is on its bytes before a text sink's decoder, that of a text capture on the raw bytes it keeps).  For the
  delivery worker: FIFO order, conservation of bytes and termination of a drain under every
  interleaving.  For pipelines: which failure is reported, that fail-fast acts once, and on exactly which
  stages.  For stops: the order of the signals, bounded waits, and that nothing is left behind in
  silence; for owned handles: one outcome for every caller, and when a child that exited in time is not, or is,
  reported as timed out.  For concurrent runs: the limit, termination, and what a result says of every command and
  leaves out.  For exported
  text: exactly which characters are masked, that a failing rule lets nothing out, and that child output
  cannot be read as a workflow command while its last line is ended.  For options and launches: that
  accepted options are consistent, that a child writes into a pipe exactly where the parent reads, and
  that a launch leaves the descriptor table as it found it on every path.  For captures in files: what a
  result promises of the disk, and that no file is left behind.  For telemetry: what the metrics count and
  how many series they can create, what restricted log records leave out, and that every span is ended
  once, holds its own execution's data and leaks under no interleaving of calls.  For line iteration: that
  every line is delivered once and in order before the result, that a failure cuts the lines off at once,
  and that a published outcome is always reached.  For the input of a child: what
  of it reaches the pipe and which bytes an aborted close discards, which side a failure is blamed on, and that the pipe
  is released before the producer.  For the ending
  of a run: that every failure settles the child, the writer and the readers once and in order, and what a timeout
  report says and when there is one.

  \<^bold>\<open>Bounds.\<close>  No function takes fuel except the loop that fits the truncation marker, whose sixteen
  rounds are the source's own \<open>for\<close> loop; its lemmas assume a line below \<open>10 ^ 15\<close> bytes, for which the
  rounds suffice.  The poll of a process group ends by the deadline every caller gives it.

  \<^bold>\<open>Shields.\<close>  A step that cleanup shields from its caller's cancellation always completes.  Then the cancellation is
  raised, unless the step failed after the cancellation was delivered: \<open>_settle_shielded\<close> lets that failure out in its
  place.  Capture\_File, Settlement and Run\_Ending take both outcomes.

  \<^bold>\<open>Parameters.\<close>  Executable resolvers, codecs, the codec registry, sinks, the filesystem of a spill
  and the event loop (which wait tasks finish together, clock readings) are arguments of the
  definitions that use them; so are the regular-expression engine, the kernels of a stop and of a launch, and what the
  runner makes of a workflow command.

  \<^bold>\<open>Not modelled.\<close>  The asyncio orchestration around these components (the spawn backends,
  reading and pumping, the pipeline's and the line iteration's own teardown), the emission of events to their hooks and the
  Rust extension.
\<close>

end
